(* ===== verification/Prelude.thy ===== *)
theory Prelude
  imports Main "HOL-Library.Word" "HOL-Library.Monad_Syntax"
begin

text \<open>
  Shared vocabulary of the development: the C integer types as words, faults as \<open>None\<close>
  in the option monad, checked array access, and the loop combinator \<open>foldm\<close> into which the
  counted loops of the sources are translated, with the rules that carry the loop proofs.
\<close>

unbundle bit_operations_syntax

section \<open>Integer types of lwpmudrv_types.h\<close>

type_synonym u8 = "8 word"
type_synonym u16 = "16 word"
type_synonym u32 = "32 word"
type_synonym u64 = "64 word"

named_theorems loop_simps \<open>unfolding rules for the counted loops\<close>
named_theorems hw_simps \<open>reading back what was written to the machine\<close>

section \<open>Widening\<close>

lemma unat_ucast_u16_u32 [simp]: "unat (ucast (a :: u16) :: u32) = unat a"
  by (simp add: unsigned_ucast_eq take_bit_nat_eq_self order_less_trans [OF unsigned_less])

lemma ucast_u16_u32_inject [simp]: "((ucast (a :: u16) :: u32) = ucast b) = (a = b)"
  by (metis unat_ucast_u16_u32 word_unat_eq_iff)

lemma unat_ucast_u8_u32 [simp]: "unat (ucast (a :: u8) :: u32) = unat a"
  by (simp add: unsigned_ucast_eq take_bit_nat_eq_self order_less_trans [OF unsigned_less])

lemma unat_ucast_u32_u64 [simp]: "unat (ucast (a :: u32) :: u64) = unat a"
  by (simp add: unsigned_ucast_eq take_bit_nat_eq_self order_less_trans [OF unsigned_less])

lemma unat_lt_u32 [simp]: "unat (x :: u32) < 4294967296"
  using unsigned_less[of x] by simp

lemma unat_of_nat_u32: "k < 4294967296 \<Longrightarrow> unat (of_nat k :: u32) = k"
  by (simp add: unat_of_nat take_bit_nat_eq_self)

lemma unat_plus_no_wrap:
  fixes a b :: u32
  assumes "unat a + unat b < 2 ^ 32"
  shows "unat (a + b) = unat a + unat b"
  using assms by (simp add: unat_add_lem [symmetric])

lemma unat_plus1_lt:
  fixes a n :: u32
  assumes "unat a < unat n"
  shows "unat (a + 1) = unat a + 1"
  using assms unat_lt_u32[of n] by (subst unat_plus_no_wrap) (simp_all del: unat_lt_u32)

section \<open>Status codes\<close>

text \<open>The \<open>OS_STATUS\<close> values of lwpmudrv_defines.h.\<close>

datatype os_status = OS_SUCCESS | OS_ILLEGAL_IOCTL | OS_NO_MEM | OS_FAULT | OS_INVALID
  | OS_RESTART_SYSCALL | OS_IN_PROGRESS

section \<open>Checked arrays\<close>

text \<open>
  A C array is a list of the elements that were allocated. An access past its end has no
  meaning in C, so it is a fault, the value \<open>None\<close>.
\<close>

definition list_at :: "'a list \<Rightarrow> nat \<Rightarrow> 'a option" where
  "list_at xs i = (if i < length xs then Some (xs ! i) else None)"

definition list_put :: "'a list \<Rightarrow> nat \<Rightarrow> 'a \<Rightarrow> 'a list option" where
  "list_put xs i v = (if i < length xs then Some (xs[i := v]) else None)"

lemma list_at_Some [simp]: "i < length xs \<Longrightarrow> list_at xs i = Some (xs ! i)"
  by (simp add: list_at_def)

lemma list_put_Some [simp]: "i < length xs \<Longrightarrow> list_put xs i v = Some (xs[i := v])"
  by (simp add: list_put_def)

lemma list_at_eq_Some: "list_at xs i = Some v \<longleftrightarrow> i < length xs \<and> v = xs ! i"
  by (auto simp: list_at_def)

lemma list_put_eq_Some: "list_put xs i v = Some ys \<longleftrightarrow> i < length xs \<and> ys = xs[i := v]"
  by (auto simp: list_put_def)

section \<open>Byte buffers\<close>

text \<open>\<open>memcpy\<close> to an offset of a buffer and from one: no byte may lie outside the buffer.\<close>

definition write_bytes :: "nat \<Rightarrow> 'a list \<Rightarrow> 'a list \<Rightarrow> 'a list option" where
  "write_bytes off bs buf = (if off + length bs \<le> length buf
     then Some (take off buf @ bs @ drop (off + length bs) buf) else None)"

definition read_bytes :: "nat \<Rightarrow> nat \<Rightarrow> 'a list \<Rightarrow> 'a list option" where
  "read_bytes off n buf = (if off + n \<le> length buf then Some (take n (drop off buf)) else None)"

lemma write_bytes_ok:
  assumes "off + length bs \<le> length b"
  shows "write_bytes off bs b = Some (take off b @ bs @ drop (off + length bs) b)"
  using assms by (simp add: write_bytes_def)

section \<open>Little-endian words\<close>

definition le_bytes :: "nat \<Rightarrow> u64 \<Rightarrow> u8 list" where
  "le_bytes n v = map (\<lambda>i. ucast (drop_bit (8 * i) v)) [0 ..< n]"

fun of_le :: "u8 list \<Rightarrow> u64" where
  "of_le [] = 0"
| "of_le (b # bs) = ucast b OR push_bit 8 (of_le bs)"

lemma length_le_bytes [simp]: "length (le_bytes n v) = n"
  by (simp add: le_bytes_def)

lemma le_bytes_Suc: "le_bytes (Suc n) v = ucast v # le_bytes n (drop_bit 8 v)"
  by (simp add: le_bytes_def upt_conv_Cons map_Suc_upt [symmetric] del: upt_Suc)
     (simp add: comp_def add.commute)

text \<open>The first \<open>n\<close> bytes of a value, read back, are its low \<open>8 n\<close> bits.\<close>

lemma of_le_bytes: "n \<le> 8 \<Longrightarrow> of_le (le_bytes n v) = take_bit (8 * n) v"
proof (induction n arbitrary: v)
  case 0
  then show ?case by (simp add: le_bytes_def)
next
  case (Suc n)
  show ?case
  proof (rule bit_word_eqI)
    fix k assume "k < LENGTH(64)"
    then show "bit (of_le (le_bytes (Suc n) v)) k = bit (take_bit (8 * Suc n) v) k"
      using Suc by (cases "k < 8") (auto simp: le_bytes_Suc bit_simps)
  qed
qed

lemma of_le_bytes_8 [simp]: "of_le (le_bytes 8 v) = v"
  by (simp add: of_le_bytes take_bit_word_eq_self)

section \<open>Shifts\<close>

text \<open>
  \<open>(U64)1 << index\<close>: a shift by the width or more is undefined in C, hence a fault.
\<close>

definition bit_u64 :: "u32 \<Rightarrow> u64 option" where
  "bit_u64 index = (if index < 64 then Some (push_bit (unat index) 1) else None)"

lemma bit_u64_Some: "index < 64 \<Longrightarrow> bit_u64 index = Some (push_bit (unat index) 1)"
  by (simp add: bit_u64_def)

section \<open>Loops that may fault\<close>

fun foldm :: "('a \<Rightarrow> 's \<Rightarrow> 's option) \<Rightarrow> 'a list \<Rightarrow> 's \<Rightarrow> 's option" where
  "foldm f [] s = Some s"
| "foldm f (x # xs) s = do { s' \<leftarrow> f x s; foldm f xs s' }"

lemma foldm_append: "foldm f (xs @ ys) s = do { s' \<leftarrow> foldm f xs s; foldm f ys s' }"
  by (induction xs arbitrary: s) (auto split: Option.bind_splits)

lemma foldm_pure [loop_simps]: "foldm (\<lambda>x s. Some (g x s)) xs s = Some (fold g xs s)"
  by (induction xs arbitrary: s) auto

lemma foldm_cong:
  assumes "xs = ys" "s = t" "\<And>x r. x \<in> set ys \<Longrightarrow> f x r = g x r"
  shows "foldm f xs s = foldm g ys t"
proof -
  have "foldm f ys s = foldm g ys s" using assms(3)
  proof (induction ys arbitrary: s)
    case (Cons y ys)
    have "foldm f ys r = foldm g ys r" for r by (rule Cons.IH) (simp add: Cons.prems)
    then show ?case using Cons.prems[of y] by (cases "g y s") simp_all
  qed simp
  with assms(1,2) show ?thesis by simp
qed

lemma foldm_filter: "foldm (\<lambda>x s. if P x then Some s else f x s) xs s = foldm f (filter (\<lambda>x. \<not> P x) xs) s"
  by (induction xs arbitrary: s) (auto intro: Option.bind_cong)

lemma foldm_map: "foldm f (map h xs) s = foldm (\<lambda>x. f (h x)) xs s"
  by (induction xs arbitrary: s) (auto split: Option.bind_splits)

text \<open>The loop rule: an invariant that each turn keeps without faulting holds at the end.\<close>

lemma foldm_rule:
  assumes "P s" "\<And>x s. x \<in> set xs \<Longrightarrow> P s \<Longrightarrow> \<exists>s'. f x s = Some s' \<and> P s'"
  shows "\<exists>s'. foldm f xs s = Some s' \<and> P s'"
  using assms
proof (induction xs arbitrary: s)
  case (Cons x xs)
  from Cons.prems obtain s' where "f x s = Some s'" "P s'" by (metis list.set_intros(1))
  with Cons.IH[of s'] Cons.prems(2) show ?case by simp
qed simp

lemma foldm_inv:
  assumes "foldm f xs s = Some t" "P s"
    and "\<And>x s s'. x \<in> set xs \<Longrightarrow> P s \<Longrightarrow> f x s = Some s' \<Longrightarrow> P s'"
  shows "P t"
  using assms
proof (induction xs arbitrary: s)
  case (Cons x xs)
  from Cons.prems(1) obtain s' where s': "f x s = Some s'" "foldm f xs s' = Some t"
    by (auto simp: bind_eq_Some_conv)
  have "P s'" using Cons.prems(2,3) s'(1) by auto
  then show ?case using Cons.IH[OF s'(2)] Cons.prems(3) by (metis list.set_intros(2))
qed simp

lemma fold_inv:
  assumes "P s" "\<And>x s. x \<in> set xs \<Longrightarrow> P s \<Longrightarrow> P (f x s)"
  shows "P (fold f xs s)"
  using assms by (induction xs arbitrary: s) auto

text \<open>Running an operation \<open>k\<close> times.\<close>

fun iterm :: "('s \<Rightarrow> 's option) \<Rightarrow> nat \<Rightarrow> 's \<Rightarrow> 's option" where
  "iterm f 0 s = Some s"
| "iterm f (Suc k) s = do { s' \<leftarrow> f s; iterm f k s' }"

lemma iterm_Suc_last: "iterm f (Suc k) s = do { s' \<leftarrow> iterm f k s; f s' }"
proof (induction k arbitrary: s)
  case 0
  then show ?case by (cases "f s") simp_all
next
  case (Suc k)
  then show ?case by (cases "f s") (simp_all only: iterm.simps Option.bind.bind_lunit Option.bind.bind_lzero)
qed

text \<open>The rule with the processed prefix in the invariant, for results that mention it.\<close>

lemma foldm_prefix_rule:
  assumes "P [] s"
    and "\<And>pre x s. P pre s \<Longrightarrow> x \<in> set xs \<Longrightarrow> (\<exists>post. xs = pre @ x # post) \<Longrightarrow>
           \<exists>s'. f x s = Some s' \<and> P (pre @ [x]) s'"
  shows "\<exists>s'. foldm f xs s = Some s' \<and> P xs s'"
proof -
  have "\<exists>s'. foldm f ys s = Some s' \<and> P ys s'" if "\<exists>post. xs = ys @ post" for ys
    using that
  proof (induction ys rule: rev_induct)
    case Nil
    then show ?case using assms(1) by simp
  next
    case (snoc y ys)
    then obtain post where post: "xs = ys @ y # post" by auto
    with snoc.IH obtain s1 where s1: "foldm f ys s = Some s1" "P ys s1" by auto
    have "y \<in> set xs" using post by simp
    with assms(2)[OF s1(2)] post obtain s2 where "f y s1 = Some s2" "P (ys @ [y]) s2" by blast
    then show ?case using s1(1) by (simp add: foldm_append)
  qed
  then show ?thesis by simp
qed

end
