(* ===== verification/Ecb.thy ===== *)
theory Ecb
  imports Prelude
begin

text \<open>
  The event control blocks of include/lwpmudrv_ecb.h and include/lwpmudrv_struct.h: the
  register entries of a group with their flag bits, the ECB that holds them, the
  event-multiplexing configuration and the driver configuration. The record fields carry the
  names of the C fields behind the accessor macros. Reserved padding is left out.
\<close>

section \<open>Register entries\<close>

text \<open>
  \<open>event_reg_id\<close> is a C union of the U16 \<open>reg_id\<close> and the PCI identifier, so \<open>reg_id\<close> reads the
  low 16 bits of \<open>pci_id.offset\<close> (the targets are little endian).
\<close>

record pci_id =
  offset :: u32
  data_size :: u32

record event_reg =
  reg_type :: u8
  event_id_index :: u8
  event_id_index_local :: u8
  emon_event_id_index_local :: u8
  event_reg_id :: pci_id
  desc_id :: u16
  er_flags :: u16
  reg_value :: u64
  max_bits :: u64
  scheduled :: u8
  bus_no :: u32
  dev_no :: u32
  func_no :: u32

definition reg_id :: "event_reg \<Rightarrow> u16" where
  "reg_id e = ucast (offset (event_reg_id e))"

definition pci_id_offset :: "event_reg \<Rightarrow> u32" where
  "pci_id_offset e = offset (event_reg_id e)"

text \<open>An MSR entry: the union holds a register number.\<close>

definition msr_reg_id :: "u16 \<Rightarrow> pci_id" where
  "msr_reg_id r = \<lparr>offset = ucast r, data_size = 0\<rparr>"

lemma reg_id_msr [simp]: "event_reg_id e = msr_reg_id r \<Longrightarrow> reg_id e = r"
  by (simp add: reg_id_def msr_reg_id_def) (rule bit_word_eqI, simp add: bit_simps)

text \<open>The flag tests (\<open>EVENT_REG_*_get\<close>): an \<open>if\<close> on the masked flags is a test for nonzero.\<close>

definition EVENT_REG_precise_bit :: u16 where "EVENT_REG_precise_bit = 0x1"
definition EVENT_REG_uncore_bit :: u16 where "EVENT_REG_uncore_bit = 0x4"
definition EVENT_REG_is_gp_reg_bit :: u16 where "EVENT_REG_is_gp_reg_bit = 0x20"
definition EVENT_REG_clean_up_bit :: u16 where "EVENT_REG_clean_up_bit = 0x40"
definition EVENT_REG_em_trigger_bit :: u16 where "EVENT_REG_em_trigger_bit = 0x80"
definition EVENT_REG_lbr_value_bit :: u16 where "EVENT_REG_lbr_value_bit = 0x100"
definition EVENT_REG_fixed_reg_bit :: u16 where "EVENT_REG_fixed_reg_bit = 0x200"
definition EVENT_REG_compound_ctr_sub_bit :: u16 where "EVENT_REG_compound_ctr_sub_bit = 0x400"
definition EVENT_REG_compound_ctr_bit :: u16 where "EVENT_REG_compound_ctr_bit = 0x800"
definition EVENT_REG_multi_pkg_evt_bit :: u16 where "EVENT_REG_multi_pkg_evt_bit = 0x1000"

definition precise_get :: "event_reg \<Rightarrow> bool" where
  "precise_get e = (er_flags e AND EVENT_REG_precise_bit \<noteq> 0)"

definition uncore_get :: "event_reg \<Rightarrow> bool" where
  "uncore_get e = (er_flags e AND EVENT_REG_uncore_bit \<noteq> 0)"

definition is_gp_reg_get :: "event_reg \<Rightarrow> bool" where
  "is_gp_reg_get e = (er_flags e AND EVENT_REG_is_gp_reg_bit \<noteq> 0)"

definition lbr_value_get :: "event_reg \<Rightarrow> bool" where
  "lbr_value_get e = (er_flags e AND EVENT_REG_lbr_value_bit \<noteq> 0)"

definition fixed_reg_get :: "event_reg \<Rightarrow> bool" where
  "fixed_reg_get e = (er_flags e AND EVENT_REG_fixed_reg_bit \<noteq> 0)"

definition is_compound_ctr_bit_set :: "event_reg \<Rightarrow> bool" where
  "is_compound_ctr_bit_set e = (er_flags e AND EVENT_REG_compound_ctr_bit \<noteq> 0)"

definition is_compound_ctr_sub_bit_set :: "event_reg \<Rightarrow> bool" where
  "is_compound_ctr_sub_bit_set e = (er_flags e AND EVENT_REG_compound_ctr_sub_bit \<noteq> 0)"

definition is_multi_pkg_bit_set :: "event_reg \<Rightarrow> bool" where
  "is_multi_pkg_bit_set e = (er_flags e AND EVENT_REG_multi_pkg_evt_bit \<noteq> 0)"

definition clean_up_get :: "event_reg \<Rightarrow> bool" where
  "clean_up_get e = (er_flags e AND EVENT_REG_clean_up_bit \<noteq> 0)"

definition em_trigger_get :: "event_reg \<Rightarrow> bool" where
  "em_trigger_get e = (er_flags e AND EVENT_REG_em_trigger_bit \<noteq> 0)"

lemmas flag_defs = precise_get_def uncore_get_def is_gp_reg_get_def lbr_value_get_def
  fixed_reg_get_def is_compound_ctr_bit_set_def is_compound_ctr_sub_bit_set_def
  is_multi_pkg_bit_set_def clean_up_get_def em_trigger_get_def
  EVENT_REG_precise_bit_def EVENT_REG_uncore_bit_def EVENT_REG_is_gp_reg_bit_def
  EVENT_REG_clean_up_bit_def EVENT_REG_em_trigger_bit_def EVENT_REG_lbr_value_bit_def
  EVENT_REG_fixed_reg_bit_def EVENT_REG_compound_ctr_sub_bit_def
  EVENT_REG_compound_ctr_bit_def EVENT_REG_multi_pkg_evt_bit_def

section \<open>Event control blocks\<close>

record pci_device_entry =
  pd_bus_no :: u32
  pd_dev_no :: u32
  pd_func_no :: u32
  bar_offset :: u32
  bit_offset :: u32
  pd_size :: u32
  bar_address :: u64
  enable_offset :: u32
  enabled :: u32
  base_offset_for_mmio :: u32
  operation :: u32
  bar_name :: u32
  prog_type :: u32
  config_type :: u32
  pd_value :: u64
  pd_mask :: u64
  virtual_address :: u64
  port_id :: u32
  op_code :: u32

record ecb =
  num_entries :: u32
  group_id :: u32
  ecb_num_events :: u32
  cccr_start :: u32
  cccr_pop :: u32
  escr_start :: u32
  escr_pop :: u32
  data_start :: u32
  data_pop :: u32
  ecb_flags :: u16
  pmu_timer_interval :: u8
  pcidev_entry_node :: pci_device_entry
  num_pci_devices :: u32
  pcidev_list_offset :: u32
  pcidev_entry_list :: "pci_device_entry list"
  entries :: "event_reg list"

definition ECB_direct2core_bit :: u16 where "ECB_direct2core_bit = 0x1"
definition ECB_bl_bypass_bit :: u16 where "ECB_bl_bypass_bit = 0x2"
definition ECB_pci_id_offset_bit :: u16 where "ECB_pci_id_offset_bit = 0x3"

section \<open>Configuration\<close>

record event_config =
  num_groups :: u32
  em_mode :: "32 word"
  em_factor :: "32 word"
  em_event_num :: "32 word"
  sample_size :: u32
  max_gp_events :: u32
  max_fixed_counters :: u32
  max_ro_counters :: u32
  num_groups_unc :: u32
  ebc_offset_unc :: u32
  sample_size_unc :: u32

definition EM_DISABLED :: "32 word" where "EM_DISABLED = - 1"
definition EM_TIMER_BASED :: "32 word" where "EM_TIMER_BASED = 0"
definition EM_EVENT_BASED_PROFILING :: "32 word" where "EM_EVENT_BASED_PROFILING = 1"
definition EM_TRIGGER_BASED :: "32 word" where "EM_TRIGGER_BASED = 2"

record drv_config =
  num_events :: u32
  start_paused :: bool
  counting_mode :: bool
  dispatch_id :: u32
  enable_chipset :: bool
  num_chipset_events :: u32
  chipset_offset :: u32
  enable_gfx :: bool
  enable_pwr :: bool
  emon_mode :: bool
  pebs_mode :: u32
  pebs_capture :: u32
  collect_lbrs :: bool
  debug_inject :: bool
  virt_phys_translation :: bool
  latency_capture :: bool
  max_gp_counters :: u32
  htoff_mode :: bool
  power_capture :: bool
  results_offset :: u32
  eventing_ip_capture :: bool
  hle_capture :: bool
  emon_unc_offset :: u32
  seed_name_len :: "32 word"
  target_pid :: u64
  use_pcl :: bool
  event_based_counts :: bool
  enable_tbc :: bool
  ds_area_available :: bool

section \<open>Loops over the entries\<close>

text \<open>
  The body of the \<open>FOR_EACH_*\<close> macros of inc/ecb_iterators.h: an index loop over part of the
  entries that skips the entries the macro's test excludes. The bound \<open>start + pop\<close> is computed
  in U32. An index past the allocated entries is a fault.
\<close>

definition for_each :: "u32 \<Rightarrow> u32 \<Rightarrow> (event_reg \<Rightarrow> bool) \<Rightarrow> (event_reg \<Rightarrow> 's \<Rightarrow> 's option)
    \<Rightarrow> ecb \<Rightarrow> 's \<Rightarrow> 's option" where
  "for_each start pop skip body pecb s =
     foldm (\<lambda>i s. do { e \<leftarrow> list_at (entries pecb) i; if skip e then Some s else body e s })
       [unat start ..< unat (start + pop)] s"

text \<open>The part of the entries a loop with \<open>start\<close> and \<open>pop\<close> visits.\<close>

definition ecb_part :: "u32 \<Rightarrow> u32 \<Rightarrow> ecb \<Rightarrow> event_reg list" where
  "ecb_part start pop pecb = take (unat pop) (drop (unat start) (entries pecb))"

definition part_ok :: "u32 \<Rightarrow> u32 \<Rightarrow> ecb \<Rightarrow> bool" where
  "part_ok start pop pecb = (unat start + unat pop \<le> length (entries pecb) \<and> length (entries pecb) < 2 ^ 32)"

text \<open>A well-formed block: the three ranges lie inside the entries that exist.\<close>

definition ecb_wf :: "ecb \<Rightarrow> bool" where
  "ecb_wf p = (part_ok 0 (num_entries p) p \<and> part_ok (cccr_start p) (cccr_pop p) p \<and>
     part_ok (escr_start p) (escr_pop p) p \<and> part_ok (data_start p) (data_pop p) p)"

lemma foldm_upt_list_at:
  assumes "i + n \<le> length xs"
  shows "foldm (\<lambda>j s. do { e \<leftarrow> list_at xs j; f e s }) [i ..< i + n] s = foldm f (take n (drop i xs)) s"
proof -
  have eq: "take n (drop i xs) = map ((!) xs) [i ..< i + n]"
    using assms by (intro nth_equalityI) auto
  show ?thesis
    unfolding eq foldm_map by (intro foldm_cong) (use assms in auto)
qed

lemma for_each_eq [loop_simps]:
  assumes "part_ok start pop pecb"
  shows "for_each start pop skip body pecb s =
    foldm body (filter (\<lambda>e. \<not> skip e) (ecb_part start pop pecb)) s"
proof -
  from assms have *: "unat (start + pop) = unat start + unat pop"
    by (simp add: part_ok_def unat_plus_no_wrap)
  show ?thesis
    using assms unfolding for_each_def * part_ok_def ecb_part_def
    by (subst foldm_upt_list_at) (simp_all add: foldm_filter)
qed

end
