(* ===== verification/Machine.thy ===== *)
theory Machine
  imports Ecb
begin

text \<open>
  The state the SEP driver works on: the hardware it reaches (the MSR file of every CPU, PCI
  configuration space, the local APIC pages, kernel memory) and the driver's global variables
  of inc/control.h and inc/lwpmudrv.h, with the accessors of utility.c and pci.c.

  Hardware registers are modelled as storage: a read returns the last value written. Every MSR
  write is also kept in \<open>wlog\<close>, newest first, so that the order of writes can be stated.
\<close>

section \<open>Register numbers (inc/msrdefs.h)\<close>

definition IA32_PMC0 :: u16 where "IA32_PMC0 = 0x0C1"
definition IA32_PMC4 :: u16 where "IA32_PMC4 = 0x0C5"
definition IA32_PMC7 :: u16 where "IA32_PMC7 = 0x0C8"
definition IA32_FULL_PMC0 :: u16 where "IA32_FULL_PMC0 = 0x4C1"
definition IA32_PERFEVTSEL0 :: u16 where "IA32_PERFEVTSEL0 = 0x186"
definition IA32_FIXED_CTR0 :: u16 where "IA32_FIXED_CTR0 = 0x309"
definition IA32_FIXED_CTR1 :: u16 where "IA32_FIXED_CTR1 = 0x30A"
definition IA32_FIXED_CTR2 :: u16 where "IA32_FIXED_CTR2 = 0x30B"
definition IA32_PERF_CAPABILITIES :: u16 where "IA32_PERF_CAPABILITIES = 0x345"
definition IA32_FIXED_CTRL :: u16 where "IA32_FIXED_CTRL = 0x38D"
definition IA32_PERF_GLOBAL_STATUS :: u16 where "IA32_PERF_GLOBAL_STATUS = 0x38E"
definition IA32_PERF_GLOBAL_CTRL :: u16 where "IA32_PERF_GLOBAL_CTRL = 0x38F"
definition IA32_PERF_GLOBAL_OVF_CTRL :: u16 where "IA32_PERF_GLOBAL_OVF_CTRL = 0x390"
definition IA32_PEBS_ENABLE :: u16 where "IA32_PEBS_ENABLE = 0x3F1"
definition IA32_MISC_ENABLE :: u16 where "IA32_MISC_ENABLE = 0x1A0"
definition IA32_DS_AREA :: u16 where "IA32_DS_AREA = 0x600"
definition IA32_DEBUG_CTRL :: u16 where "IA32_DEBUG_CTRL = 0x1D9"
definition COMPOUND_CTR_CTL :: u16 where "COMPOUND_CTR_CTL = 0x306"
definition COMPOUND_PERF_CTR :: u16 where "COMPOUND_PERF_CTR = 0x307"
definition COMPOUND_CTR_OVF_SHIFT :: u32 where "COMPOUND_CTR_OVF_SHIFT = 12"

lemmas msr_defs = IA32_PMC0_def IA32_PMC4_def IA32_PMC7_def IA32_FULL_PMC0_def
  IA32_PERFEVTSEL0_def IA32_FIXED_CTR0_def IA32_FIXED_CTR1_def IA32_FIXED_CTR2_def
  IA32_PERF_CAPABILITIES_def IA32_FIXED_CTRL_def IA32_PERF_GLOBAL_STATUS_def
  IA32_PERF_GLOBAL_CTRL_def IA32_PERF_GLOBAL_OVF_CTRL_def IA32_PEBS_ENABLE_def
  IA32_MISC_ENABLE_def IA32_DS_AREA_def IA32_DEBUG_CTRL_def COMPOUND_CTR_CTL_def
  COMPOUND_PERF_CTR_def COMPOUND_CTR_OVF_SHIFT_def

section \<open>Driver state\<close>

text \<open>Driver phases: the \<open>DRV_STATE_*\<close> constants of lwpmudrv_defines.h.\<close>

datatype phase = UNINITIALIZED | RESERVED | IDLE | PAUSED | STOPPED | RUNNING | PAUSING | PREPARE_STOP

record global_state =
  num_cpus :: "32 word"
  active_cpus :: "32 word"
  num_em_groups :: "32 word"
  num_descriptors :: "32 word"
  current_phase :: phase
  num_modules :: u32

text \<open>
  One CPU's \<open>CPU_STATE\<close> node. Pointers into memory the model does not look into are addresses,
  0 for NULL; \<open>pmu_state\<close> is the offset of the node's two slots in the global save array
  (\<open>None\<close> for NULL).
\<close>

record cpu_state =
  apic_id :: "32 word"
  apic_linear_addr :: u64
  apic_physical_addr :: u64
  em_tables :: "u64 list"
  current_group :: u32
  trigger_count :: "32 word"
  trigger_event_num :: "32 word"
  old_dts_buffer :: u64
  dts_buffer :: u64
  initial_mask :: u32
  accept_interrupt :: u32
  cs_pmu_state :: "nat option"
  socket_master :: bool
  core_master :: bool
  thr_master :: bool
  num_samples :: u64
  reset_mask :: u64
  group_swap :: u64
  cpu_module_num :: u16
  cpu_module_master :: u16

datatype pebs_kind = core2_pebs | core2p_pebs | corei7_pebs | haswell_pebs

record drv =
  msr :: "nat \<Rightarrow> u32 \<Rightarrow> u64"
  wlog :: "(nat \<times> u32 \<times> u64) list"
  pci_cfg :: "u32 \<Rightarrow> u32"
  apic_mmio :: "nat \<Rightarrow> u32 \<Rightarrow> u32"
  kmem :: "u64 \<Rightarrow> u64"
  cpu_perf_vector :: u32
  drv_x2apic_enabled :: bool
  pcb :: "nat \<Rightarrow> cpu_state option"
  PMU_register_data :: "ecb option list"
  driver_state :: global_state
  pcfg :: drv_config
  global_ec :: event_config
  pmu_state :: "u64 list option"
  restore_bl_bypass :: "(nat \<Rightarrow> u64) option"
  restore_ha_direct2core :: "(nat \<Rightarrow> nat \<Rightarrow> u32) option"
  restore_qpi_direct2core :: "(nat \<Rightarrow> nat \<Rightarrow> u32) option"
  direct2core_data_saved :: bool
  bl_bypass_data_saved :: bool
  read_counter_info :: "u64 list"
  sample_count :: "nat \<Rightarrow> u32"
  lbr_regs :: "u32 list"
  pwr_regs :: "u32 list"
  pebs_dispatch :: "pebs_kind option"
  pebs_global_memory :: u64
  pebs_global_memory_size :: u64

section \<open>Hardware access\<close>

definition SYS_Read_MSR :: "nat \<Rightarrow> u32 \<Rightarrow> drv \<Rightarrow> u64" where
  "SYS_Read_MSR cpu r s = msr s cpu r"

definition SYS_Write_MSR :: "nat \<Rightarrow> u32 \<Rightarrow> u64 \<Rightarrow> drv \<Rightarrow> drv" where
  "SYS_Write_MSR cpu r v s =
     s\<lparr>msr := (msr s)(cpu := (msr s cpu)(r := v)), wlog := (cpu, r, v) # wlog s\<rparr>"

definition PCI_ENABLE :: u32 where "PCI_ENABLE = 0x80000000"

definition FORM_PCI_ADDR :: "u32 \<Rightarrow> u32 \<Rightarrow> u32 \<Rightarrow> u32 \<Rightarrow> u32" where
  "FORM_PCI_ADDR bus dev fun_no off =
     PCI_ENABLE OR push_bit 16 (bus AND 0xFF) OR push_bit 11 (dev AND 0x1F)
       OR push_bit 8 (fun_no AND 0x07) OR (off AND 0xFF)"

definition PCI_Read_Ulong :: "u32 \<Rightarrow> drv \<Rightarrow> u32" where
  "PCI_Read_Ulong a s = pci_cfg s a"

definition PCI_Write_Ulong :: "u32 \<Rightarrow> u32 \<Rightarrow> drv \<Rightarrow> drv" where
  "PCI_Write_Ulong a v s = s\<lparr>pci_cfg := (pci_cfg s)(a := v)\<rparr>"

definition VENDOR_ID_MASK :: u32 where "VENDOR_ID_MASK = 0x0000FFFF"
definition DEVICE_ID_MASK :: u32 where "DEVICE_ID_MASK = 0xFFFF0000"
definition DRV_IS_PCI_VENDOR_ID_INTEL :: u32 where "DRV_IS_PCI_VENDOR_ID_INTEL = 0x8086"
definition MAX_BUSNO :: nat where "MAX_BUSNO = 256"

text \<open>Access to an MSR named by a U16 register id.\<close>

abbreviation rd :: "nat \<Rightarrow> u16 \<Rightarrow> drv \<Rightarrow> u64" where
  "rd cpu r s \<equiv> SYS_Read_MSR cpu (ucast r) s"

abbreviation wr :: "nat \<Rightarrow> u16 \<Rightarrow> u64 \<Rightarrow> drv \<Rightarrow> drv" where
  "wr cpu r v s \<equiv> SYS_Write_MSR cpu (ucast r) v s"

text \<open>The contract of a register file, and the MSR file as an instance.\<close>

locale register_file =
  fixes get :: "'k \<Rightarrow> 's \<Rightarrow> 'v"
    and put :: "'k \<Rightarrow> 'v \<Rightarrow> 's \<Rightarrow> 's"
  assumes get_put: "get k (put k v s) = v"
    and get_put_other: "k \<noteq> k' \<Longrightarrow> get k (put k' v s) = get k s"
begin

text \<open>A sequence of writes leaves in each register the value of the last write to it.\<close>

lemma get_fold_notin: "k \<notin> fst ` set kvs \<Longrightarrow> get k (fold (\<lambda>(k, v). put k v) kvs s) = get k s"
  by (induction kvs arbitrary: s) (auto simp: get_put_other)

lemma get_fold_last:
  assumes "k \<notin> fst ` set post"
  shows "get k (fold (\<lambda>(k, v). put k v) (pre @ (k, v) # post) s) = v"
  using assms by (simp add: get_fold_notin get_put)

lemma get_fold_const:
  assumes "\<And>v'. (k, v') \<in> set kvs \<Longrightarrow> v' = v" "k \<in> fst ` set kvs"
  shows "get k (fold (\<lambda>(k, v). put k v) kvs s) = v"
  using assms
proof (induction kvs rule: rev_induct)
  case (snoc kv kvs)
  obtain k1 v1 where kv: "kv = (k1, v1)" by (cases kv)
  show ?case
  proof (cases "k1 = k")
    case True
    with snoc.prems(1)[of v1] kv show ?thesis by (simp add: get_put)
  next
    case False
    with snoc.prems kv have "k \<in> fst ` set kvs" by auto
    moreover have "\<And>v'. (k, v') \<in> set kvs \<Longrightarrow> v' = v" using snoc.prems(1) by auto
    ultimately have "get k (fold (\<lambda>(k, v). put k v) kvs s) = v" by (rule snoc.IH [rotated])
    with False kv show ?thesis by (simp add: get_put_other)
  qed
qed simp

end

interpretation msrf: register_file "\<lambda>(cpu, r). SYS_Read_MSR cpu r" "\<lambda>(cpu, r). SYS_Write_MSR cpu r"
  by unfold_locales (auto simp: SYS_Read_MSR_def SYS_Write_MSR_def split: if_splits)

interpretation pcif: register_file PCI_Read_Ulong PCI_Write_Ulong
  by unfold_locales (auto simp: PCI_Read_Ulong_def PCI_Write_Ulong_def)

lemma read_write_msr [simp, hw_simps]:
  "SYS_Read_MSR cpu r (SYS_Write_MSR cpu' r' v s) =
     (if cpu = cpu' \<and> r = r' then v else SYS_Read_MSR cpu r s)"
  by (auto simp: SYS_Read_MSR_def SYS_Write_MSR_def)

lemma read_msr_other [simp]:
  "SYS_Read_MSR cpu r (PCI_Write_Ulong a v s) = SYS_Read_MSR cpu r s"
  "SYS_Read_MSR cpu r (s\<lparr>pcb := p\<rparr>) = SYS_Read_MSR cpu r s"
  "SYS_Read_MSR cpu r (s\<lparr>pmu_state := ps\<rparr>) = SYS_Read_MSR cpu r s"
  "SYS_Read_MSR cpu r (s\<lparr>direct2core_data_saved := b\<rparr>) = SYS_Read_MSR cpu r s"
  "SYS_Read_MSR cpu r (s\<lparr>bl_bypass_data_saved := b\<rparr>) = SYS_Read_MSR cpu r s"
  "SYS_Read_MSR cpu r (s\<lparr>apic_mmio := m\<rparr>) = SYS_Read_MSR cpu r s"
  "SYS_Read_MSR cpu r (s\<lparr>restore_bl_bypass := m1\<rparr>) = SYS_Read_MSR cpu r s"
  "SYS_Read_MSR cpu r (s\<lparr>restore_ha_direct2core := m2\<rparr>) = SYS_Read_MSR cpu r s"
  "SYS_Read_MSR cpu r (s\<lparr>restore_qpi_direct2core := m3\<rparr>) = SYS_Read_MSR cpu r s"
  "SYS_Read_MSR cpu r (s\<lparr>sample_count := sc\<rparr>) = SYS_Read_MSR cpu r s"
  "SYS_Read_MSR cpu r (s\<lparr>read_counter_info := b'\<rparr>) = SYS_Read_MSR cpu r s"
  "SYS_Read_MSR cpu r (s\<lparr>kmem := km\<rparr>) = SYS_Read_MSR cpu r s"
  by (simp_all add: SYS_Read_MSR_def PCI_Write_Ulong_def)

text \<open>An MSR write touches the MSR file only.\<close>

lemma write_msr_frame [simp]:
  "pcb (SYS_Write_MSR cpu r v s) = pcb s"
  "pci_cfg (SYS_Write_MSR cpu r v s) = pci_cfg s"
  "PMU_register_data (SYS_Write_MSR cpu r v s) = PMU_register_data s"
  "driver_state (SYS_Write_MSR cpu r v s) = driver_state s"
  "pcfg (SYS_Write_MSR cpu r v s) = pcfg s"
  "global_ec (SYS_Write_MSR cpu r v s) = global_ec s"
  "pmu_state (SYS_Write_MSR cpu r v s) = pmu_state s"
  "drv_x2apic_enabled (SYS_Write_MSR cpu r v s) = drv_x2apic_enabled s"
  "apic_mmio (SYS_Write_MSR cpu r v s) = apic_mmio s"
  "kmem (SYS_Write_MSR cpu r v s) = kmem s"
  "cpu_perf_vector (SYS_Write_MSR cpu r v s) = cpu_perf_vector s"
  "restore_bl_bypass (SYS_Write_MSR cpu r v s) = restore_bl_bypass s"
  "restore_ha_direct2core (SYS_Write_MSR cpu r v s) = restore_ha_direct2core s"
  "restore_qpi_direct2core (SYS_Write_MSR cpu r v s) = restore_qpi_direct2core s"
  "direct2core_data_saved (SYS_Write_MSR cpu r v s) = direct2core_data_saved s"
  "bl_bypass_data_saved (SYS_Write_MSR cpu r v s) = bl_bypass_data_saved s"
  "read_counter_info (SYS_Write_MSR cpu r v s) = read_counter_info s"
  "sample_count (SYS_Write_MSR cpu r v s) = sample_count s"
  "lbr_regs (SYS_Write_MSR cpu r v s) = lbr_regs s"
  "pwr_regs (SYS_Write_MSR cpu r v s) = pwr_regs s"
  "pebs_dispatch (SYS_Write_MSR cpu r v s) = pebs_dispatch s"
  "pebs_global_memory (SYS_Write_MSR cpu r v s) = pebs_global_memory s"
  by (simp_all add: SYS_Write_MSR_def)

lemma wlog_write [simp]: "wlog (SYS_Write_MSR cpu r v s) = (cpu, r, v) # wlog s"
  by (simp add: SYS_Write_MSR_def)

section \<open>The current group\<close>

definition upd_pcpu :: "nat \<Rightarrow> cpu_state \<Rightarrow> drv \<Rightarrow> drv" where
  "upd_pcpu cpu p s = s\<lparr>pcb := (pcb s)(cpu \<mapsto> p)\<rparr>"

text \<open>\<open>PMU_register_data[CPU_STATE_current_group(&pcb[cpu])]\<close>, dereferenced.\<close>

definition cur_ecb :: "nat \<Rightarrow> drv \<Rightarrow> ecb option" where
  "cur_ecb cpu s = do { pcpu \<leftarrow> pcb s cpu;
     q \<leftarrow> list_at (PMU_register_data s) (unat (current_group pcpu)); q }"

definition FOR_EACH_CCCR_REG :: "nat \<Rightarrow> drv \<Rightarrow> (event_reg \<Rightarrow> 's \<Rightarrow> 's option) \<Rightarrow> 's \<Rightarrow> 's option" where
  "FOR_EACH_CCCR_REG cpu d body s = do { pecb \<leftarrow> cur_ecb cpu d;
     for_each (cccr_start pecb) (cccr_pop pecb) (\<lambda>e. reg_id e = 0) body pecb s }"

definition FOR_EACH_CCCR_GP_REG :: "nat \<Rightarrow> drv \<Rightarrow> (event_reg \<Rightarrow> 's \<Rightarrow> 's option) \<Rightarrow> 's \<Rightarrow> 's option" where
  "FOR_EACH_CCCR_GP_REG cpu d body s = do { pecb \<leftarrow> cur_ecb cpu d;
     for_each (cccr_start pecb) (cccr_pop pecb) (\<lambda>e. \<not> is_gp_reg_get e) body pecb s }"

definition FOR_EACH_ESCR_REG :: "nat \<Rightarrow> drv \<Rightarrow> (event_reg \<Rightarrow> 's \<Rightarrow> 's option) \<Rightarrow> 's \<Rightarrow> 's option" where
  "FOR_EACH_ESCR_REG cpu d body s = do { pecb \<leftarrow> cur_ecb cpu d;
     for_each (escr_start pecb) (escr_pop pecb) (\<lambda>e. reg_id e = 0) body pecb s }"

definition FOR_EACH_DATA_REG :: "nat \<Rightarrow> drv \<Rightarrow> (event_reg \<Rightarrow> 's \<Rightarrow> 's option) \<Rightarrow> 's \<Rightarrow> 's option" where
  "FOR_EACH_DATA_REG cpu d body s = do { pecb \<leftarrow> cur_ecb cpu d;
     for_each (data_start pecb) (data_pop pecb) (\<lambda>e. reg_id e = 0) body pecb s }"

definition FOR_EACH_DATA_GP_REG :: "nat \<Rightarrow> drv \<Rightarrow> (event_reg \<Rightarrow> 's \<Rightarrow> 's option) \<Rightarrow> 's \<Rightarrow> 's option" where
  "FOR_EACH_DATA_GP_REG cpu d body s = do { pecb \<leftarrow> cur_ecb cpu d;
     for_each (data_start pecb) (data_pop pecb) (\<lambda>e. \<not> is_gp_reg_get e) body pecb s }"

definition FOR_EACH_REG_ENTRY :: "nat \<Rightarrow> drv \<Rightarrow> (event_reg \<Rightarrow> 's \<Rightarrow> 's option) \<Rightarrow> 's \<Rightarrow> 's option" where
  "FOR_EACH_REG_ENTRY cpu d body s = do { pecb \<leftarrow> cur_ecb cpu d;
     for_each 0 (num_entries pecb) (\<lambda>e. reg_id e = 0) body pecb s }"

text \<open>The entries each macro visits.\<close>

definition cccr_regs :: "ecb \<Rightarrow> event_reg list" where
  "cccr_regs p = filter (\<lambda>e. reg_id e \<noteq> 0) (ecb_part (cccr_start p) (cccr_pop p) p)"
definition cccr_gp_regs :: "ecb \<Rightarrow> event_reg list" where
  "cccr_gp_regs p = filter is_gp_reg_get (ecb_part (cccr_start p) (cccr_pop p) p)"
definition escr_regs :: "ecb \<Rightarrow> event_reg list" where
  "escr_regs p = filter (\<lambda>e. reg_id e \<noteq> 0) (ecb_part (escr_start p) (escr_pop p) p)"
definition data_regs :: "ecb \<Rightarrow> event_reg list" where
  "data_regs p = filter (\<lambda>e. reg_id e \<noteq> 0) (ecb_part (data_start p) (data_pop p) p)"
definition data_gp_regs :: "ecb \<Rightarrow> event_reg list" where
  "data_gp_regs p = filter is_gp_reg_get (ecb_part (data_start p) (data_pop p) p)"
definition all_regs :: "ecb \<Rightarrow> event_reg list" where
  "all_regs p = filter (\<lambda>e. reg_id e \<noteq> 0) (ecb_part 0 (num_entries p) p)"

lemmas regs_defs = cccr_regs_def cccr_gp_regs_def escr_regs_def data_regs_def
  data_gp_regs_def all_regs_def

lemmas FOR_EACH_defs = FOR_EACH_CCCR_REG_def FOR_EACH_CCCR_GP_REG_def FOR_EACH_ESCR_REG_def
  FOR_EACH_DATA_REG_def FOR_EACH_DATA_GP_REG_def FOR_EACH_REG_ENTRY_def

lemma FOR_EACH_eq [loop_simps]:
  assumes "cur_ecb cpu d = Some p" "ecb_wf p"
  shows "FOR_EACH_CCCR_REG cpu d body s = foldm body (cccr_regs p) s"
    and "FOR_EACH_CCCR_GP_REG cpu d body s = foldm body (cccr_gp_regs p) s"
    and "FOR_EACH_ESCR_REG cpu d body s = foldm body (escr_regs p) s"
    and "FOR_EACH_DATA_REG cpu d body s = foldm body (data_regs p) s"
    and "FOR_EACH_DATA_GP_REG cpu d body s = foldm body (data_gp_regs p) s"
    and "FOR_EACH_REG_ENTRY cpu d body s = foldm body (all_regs p) s"
  using assms by (simp_all add: FOR_EACH_defs ecb_wf_def for_each_eq regs_defs)

lemma cur_ecb_write [simp]: "cur_ecb cpu (SYS_Write_MSR c r v s) = cur_ecb cpu s"
  by (simp add: cur_ecb_def)

section \<open>Writing a list of entries\<close>

definition wr_regs :: "nat \<Rightarrow> (event_reg \<Rightarrow> u64) \<Rightarrow> event_reg list \<Rightarrow> drv \<Rightarrow> drv" where
  "wr_regs cpu v es s = fold (\<lambda>e. wr cpu (reg_id e) (v e)) es s"

lemma foldm_wr [loop_simps]:
  "foldm (\<lambda>e s. Some (wr cpu (reg_id e) (v e) s)) es s = Some (wr_regs cpu v es s)"
  by (simp add: wr_regs_def foldm_pure)

lemma wr_regs_simps [simp]:
  "wr_regs cpu v [] s = s"
  "wr_regs cpu v (e # es) s = wr_regs cpu v es (wr cpu (reg_id e) (v e) s)"
  "wr_regs cpu v (es @ fs) s = wr_regs cpu v fs (wr_regs cpu v es s)"
  by (simp_all add: wr_regs_def)

lemma wr_regs_frame [simp]:
  "pcb (wr_regs cpu v es s) = pcb s"
  "PMU_register_data (wr_regs cpu v es s) = PMU_register_data s"
  "driver_state (wr_regs cpu v es s) = driver_state s"
  "pcfg (wr_regs cpu v es s) = pcfg s"
  "global_ec (wr_regs cpu v es s) = global_ec s"
  "pmu_state (wr_regs cpu v es s) = pmu_state s"
  "cur_ecb c (wr_regs cpu v es s) = cur_ecb c s"
  "drv_x2apic_enabled (wr_regs cpu v es s) = drv_x2apic_enabled s"
  "apic_mmio (wr_regs cpu v es s) = apic_mmio s"
  "pci_cfg (wr_regs cpu v es s) = pci_cfg s"
  "kmem (wr_regs cpu v es s) = kmem s"
  "pebs_dispatch (wr_regs cpu v es s) = pebs_dispatch s"
  "restore_bl_bypass (wr_regs cpu v es s) = restore_bl_bypass s"
  "restore_ha_direct2core (wr_regs cpu v es s) = restore_ha_direct2core s"
  "restore_qpi_direct2core (wr_regs cpu v es s) = restore_qpi_direct2core s"
  "direct2core_data_saved (wr_regs cpu v es s) = direct2core_data_saved s"
  "bl_bypass_data_saved (wr_regs cpu v es s) = bl_bypass_data_saved s"
  by (induction es arbitrary: s) simp_all

lemma read_wr_regs_other [simp]:
  "c \<noteq> cpu \<Longrightarrow> SYS_Read_MSR c r (wr_regs cpu v es s) = SYS_Read_MSR c r s"
  by (induction es arbitrary: s) simp_all

lemma read_wr_regs_notin:
  "r \<notin> reg_id ` set es \<Longrightarrow> rd cpu r (wr_regs cpu v es s) = rd cpu r s"
  by (induction es arbitrary: s) auto

lemma read_wr_regs_in:
  assumes "e \<in> set es" "\<And>e'. e' \<in> set es \<Longrightarrow> reg_id e' = reg_id e \<Longrightarrow> v e' = v e"
  shows "rd cpu (reg_id e) (wr_regs cpu v es s) = v e"
  using assms
proof (induction es rule: rev_induct)
  case (snoc x xs)
  show ?case
  proof (cases "reg_id x = reg_id e")
    case True
    with snoc.prems(2)[of x] show ?thesis by simp
  next
    case False
    with snoc.prems(1) have "e \<in> set xs" by auto
    then have "rd cpu (reg_id e) (wr_regs cpu v xs s) = v e"
      by (rule snoc.IH) (simp add: snoc.prems(2))
    with False show ?thesis by simp
  qed
qed simp

text \<open>A register that every entry with its number writes with the same value \<open>w\<close> holds \<open>w\<close>
  afterwards, if it held it before or some entry names it.\<close>

lemma read_wr_regs_const:
  assumes "\<And>e. e \<in> set es \<Longrightarrow> reg_id e = r \<Longrightarrow> v e = w" "rd cpu r s = w \<or> r \<in> reg_id ` set es"
  shows "rd cpu r (wr_regs cpu v es s) = w"
proof (cases "r \<in> reg_id ` set es")
  case True
  then obtain e where e: "e \<in> set es" "reg_id e = r" by auto
  have "rd cpu (reg_id e) (wr_regs cpu v es s) = v e"
    by (rule read_wr_regs_in[OF e(1)]) (use assms(1) e in auto)
  with assms(1) e show ?thesis by simp
next
  case False
  with assms(2) show ?thesis by (simp add: read_wr_regs_notin)
qed

text \<open>The state of a freshly loaded driver, a base for concrete instances.\<close>

definition drv0 :: drv where
  "drv0 = \<lparr>msr = \<lambda>_ _. 0, wlog = [], pci_cfg = \<lambda>_. 0, apic_mmio = \<lambda>_ _. 0, kmem = \<lambda>_. 0,
     cpu_perf_vector = 0xEE, drv_x2apic_enabled = False, pcb = \<lambda>_. None, PMU_register_data = [],
     driver_state = \<lparr>num_cpus = 1, active_cpus = 1, num_em_groups = 0, num_descriptors = 0,
       current_phase = UNINITIALIZED, num_modules = 0\<rparr>,
     pcfg = \<lparr>num_events = 0, start_paused = False, counting_mode = False, dispatch_id = 0,
       enable_chipset = False, num_chipset_events = 0, chipset_offset = 0, enable_gfx = False,
       enable_pwr = False, emon_mode = False, pebs_mode = 0, pebs_capture = 0,
       collect_lbrs = False, debug_inject = False, virt_phys_translation = False,
       latency_capture = False, max_gp_counters = 0, htoff_mode = False, power_capture = False,
       results_offset = 0, eventing_ip_capture = False, hle_capture = False,
       emon_unc_offset = 0, seed_name_len = 0, target_pid = 0, use_pcl = False,
       event_based_counts = False, enable_tbc = False, ds_area_available = False\<rparr>,
     global_ec = \<lparr>num_groups = 0, em_mode = EM_DISABLED, em_factor = 0, em_event_num = 0,
       sample_size = 0, max_gp_events = 0, max_fixed_counters = 0, max_ro_counters = 0,
       num_groups_unc = 0, ebc_offset_unc = 0, sample_size_unc = 0\<rparr>,
     pmu_state = None, restore_bl_bypass = None, restore_ha_direct2core = None,
     restore_qpi_direct2core = None, direct2core_data_saved = False, bl_bypass_data_saved = False,
     read_counter_info = [], sample_count = \<lambda>_. 0, lbr_regs = [], pwr_regs = [],
     pebs_dispatch = None, pebs_global_memory = 0, pebs_global_memory_size = 0\<rparr>"

definition cpu0 :: cpu_state where
  "cpu0 = \<lparr>apic_id = 0, apic_linear_addr = 0, apic_physical_addr = 0, em_tables = [],
     current_group = 0, trigger_count = 0, trigger_event_num = 0, old_dts_buffer = 0,
     dts_buffer = 0, initial_mask = 0, accept_interrupt = 0, cs_pmu_state = None,
     socket_master = False, core_master = False, thr_master = False, num_samples = 0,
     reset_mask = 0, group_swap = 0, cpu_module_num = 0, cpu_module_master = 0\<rparr>"

end
