(* ===== verification/Emux.thy ===== *)
theory Emux
  imports Machine
begin

text \<open>
  The event-multiplexing tables shared by core2.c, silvermont.c and core.c: each CPU keeps a
  table \<open>em_tables\<close> with one row of \<open>max_gp_events\<close> counter values per group, indexed in U32 by
  \<open>current_group * max_gp_events + (reg_id - first counter)\<close>. Here are the index arithmetic and
  the two loops, saving counters into a row and writing a row back, with what they do to the
  machine; and the contract of a group rotation, which the three files implement.
\<close>

section \<open>Table access\<close>

definition em_index :: "u16 \<Rightarrow> u32 \<Rightarrow> event_reg \<Rightarrow> nat" where
  "em_index base st_index e = unat (st_index + (ucast (reg_id e) - ucast base))"

definition em_put :: "nat \<Rightarrow> nat \<Rightarrow> u64 \<Rightarrow> drv \<Rightarrow> drv option" where
  "em_put cpu i v s = do { pcpu \<leftarrow> pcb s cpu; t \<leftarrow> list_put (em_tables pcpu) i v;
     Some (upd_pcpu cpu (pcpu\<lparr>em_tables := t\<rparr>) s) }"

definition em_get :: "nat \<Rightarrow> nat \<Rightarrow> drv \<Rightarrow> u64 option" where
  "em_get cpu i s = do { pcpu \<leftarrow> pcb s cpu; list_at (em_tables pcpu) i }"

definition set_group :: "nat \<Rightarrow> u32 \<Rightarrow> drv \<Rightarrow> drv option" where
  "set_group cpu g s = do { pcpu \<leftarrow> pcb s cpu; Some (upd_pcpu cpu (pcpu\<lparr>current_group := g\<rparr>) s) }"

text \<open>The first part of the three \<open>Write_PMU\<close> routines: fill the rows with the programmed values.\<close>

definition em_init_tables :: "u16 \<Rightarrow> nat \<Rightarrow> drv \<Rightarrow> drv option" where
  "em_init_tables base cpu s = do {
     s \<leftarrow> foldm (\<lambda>j s. do { s \<leftarrow> set_group cpu (of_nat j) s;
             let st_index = of_nat j * max_gp_events (global_ec s);
             FOR_EACH_DATA_GP_REG cpu s (\<lambda>e s. em_put cpu (em_index base st_index e) (reg_value e) s) s })
           [0 ..< unat (num_groups (global_ec s))] s;
     set_group cpu 0 s }"

text \<open>Saving the general-purpose counters of the current group, and loading those of a group.\<close>

definition em_save :: "u16 \<Rightarrow> nat \<Rightarrow> u32 \<Rightarrow> drv \<Rightarrow> drv option" where
  "em_save base cpu st_index s =
     FOR_EACH_DATA_GP_REG cpu s (\<lambda>e s. em_put cpu (em_index base st_index e) (rd cpu (reg_id e) s) s) s"

definition em_load :: "u16 \<Rightarrow> nat \<Rightarrow> u32 \<Rightarrow> drv \<Rightarrow> drv option" where
  "em_load base cpu st_index s =
     FOR_EACH_DATA_GP_REG cpu s
       (\<lambda>e s. do { v \<leftarrow> em_get cpu (em_index base st_index e) s; Some (wr cpu (reg_id e) v s) }) s"

section \<open>Well-formed multiplexing state\<close>

text \<open>The general-purpose counters of a group lie in the window that starts at \<open>base\<close>.\<close>

definition gp_window :: "u16 \<Rightarrow> u32 \<Rightarrow> ecb \<Rightarrow> bool" where
  "gp_window base mx p = (\<forall>e \<in> set (data_gp_regs p). base \<le> reg_id e \<and> unat (reg_id e) < unat base + unat mx)"

definition group_ok :: "u16 \<Rightarrow> u32 \<Rightarrow> ecb option \<Rightarrow> bool" where
  "group_ok base mx q = (case q of None \<Rightarrow> False | Some p \<Rightarrow> ecb_wf p \<and> gp_window base mx p)"

definition em_ok :: "u16 \<Rightarrow> nat \<Rightarrow> drv \<Rightarrow> bool" where
  "em_ok base cpu s = (case pcb s cpu of None \<Rightarrow> False | Some p \<Rightarrow>
     unat (current_group p) < unat (num_groups (global_ec s)) \<and>
     length (em_tables p) = unat (num_groups (global_ec s)) * unat (max_gp_events (global_ec s)) \<and>
     length (em_tables p) < 2 ^ 32 \<and>
     unat (num_groups (global_ec s)) \<le> length (PMU_register_data s) \<and>
     list_all (group_ok base (max_gp_events (global_ec s)))
       (take (unat (num_groups (global_ec s))) (PMU_register_data s)))"

lemma em_okE:
  assumes "em_ok base cpu s"
  obtains p q where "pcb s cpu = Some p" "unat (current_group p) < unat (num_groups (global_ec s))"
    "length (em_tables p) = unat (num_groups (global_ec s)) * unat (max_gp_events (global_ec s))"
    "length (em_tables p) < 2 ^ 32" "cur_ecb cpu s = Some q" "ecb_wf q"
    "gp_window base (max_gp_events (global_ec s)) q"
proof -
  from assms obtain p where p: "pcb s cpu = Some p"
    "unat (current_group p) < unat (num_groups (global_ec s))"
    "length (em_tables p) = unat (num_groups (global_ec s)) * unat (max_gp_events (global_ec s))"
    "length (em_tables p) < 2 ^ 32"
    "unat (num_groups (global_ec s)) \<le> length (PMU_register_data s)"
    "list_all (group_ok base (max_gp_events (global_ec s)))
       (take (unat (num_groups (global_ec s))) (PMU_register_data s))"
    by (auto simp: em_ok_def split: option.splits)
  from p(2,5,6) have "group_ok base (max_gp_events (global_ec s))
      (PMU_register_data s ! unat (current_group p))"
    by (auto simp: list_all_length)
  then obtain q where q: "PMU_register_data s ! unat (current_group p) = Some q"
      "ecb_wf q" "gp_window base (max_gp_events (global_ec s)) q"
    by (auto simp: group_ok_def split: option.splits)
  with p have "cur_ecb cpu s = Some q" by (simp add: cur_ecb_def)
  show ?thesis by (rule that) fact+
qed

section \<open>Index arithmetic\<close>

lemma em_index_eq:
  assumes "base \<le> reg_id e" "unat (reg_id e) < unat base + unat mx"
    "unat g < n" "n * unat mx < 2 ^ 32"
  shows "em_index base (g * mx) e = unat g * unat mx + (unat (reg_id e) - unat base)"
proof -
  have le: "Suc (unat g) * unat mx \<le> n * unat mx" using assms(3) by (intro mult_right_mono) auto
  then have g: "unat g * unat mx + unat mx \<le> n * unat mx" by simp
  have 1: "unat (g * mx) = unat g * unat mx"
    using g assms(4) by (simp add: unat_mult_lem [symmetric])
  have le_u: "unat base \<le> unat (reg_id e)" using assms(1) by (simp add: word_le_nat_alt)
  have 2: "unat (ucast (reg_id e) - ucast base :: u32) = unat (reg_id e) - unat base"
    using le_u by (subst unat_sub) (simp_all add: word_le_nat_alt)
  have "unat (g * mx) + unat (ucast (reg_id e) - ucast base :: u32) < 2 ^ 32"
    using 1 2 g assms(2,4) le_u by simp
  then show ?thesis unfolding em_index_def by (simp add: unat_plus_no_wrap 1 2)
qed

lemma em_index_row:
  assumes "base \<le> reg_id e" "unat (reg_id e) < unat base + unat mx"
    "unat g < n" "n * unat mx < 2 ^ 32"
  shows "em_index base (g * mx) e < n * unat mx"
    and "em_index base (g * mx) e div unat mx = unat g"
proof -
  have lt: "unat (reg_id e) - unat base < unat mx" using assms(1,2) by (simp add: word_le_nat_alt)
  have "Suc (unat g) * unat mx \<le> n * unat mx" using assms(3) by (intro mult_right_mono) auto
  with lt show "em_index base (g * mx) e < n * unat mx" by (simp add: em_index_eq [OF assms])
  show "em_index base (g * mx) e div unat mx = unat g"
    using lt by (simp add: em_index_eq [OF assms] div_mult_self3 mult.commute)
qed

section \<open>Saving and loading a row\<close>

lemma em_put_Some:
  assumes "pcb s cpu = Some p" "i < length (em_tables p)"
  shows "em_put cpu i v s = Some (upd_pcpu cpu (p\<lparr>em_tables := (em_tables p)[i := v]\<rparr>) s)"
  using assms by (simp add: em_put_def)

lemma em_get_Some:
  assumes "pcb s cpu = Some p" "i < length (em_tables p)"
  shows "em_get cpu i s = Some (em_tables p ! i)"
  using assms by (simp add: em_get_def)

lemma upd_pcpu_simps [simp]:
  "pcb (upd_pcpu cpu p s) = (pcb s)(cpu \<mapsto> p)"
  "msr (upd_pcpu cpu p s) = msr s"
  "wlog (upd_pcpu cpu p s) = wlog s"
  "PMU_register_data (upd_pcpu cpu p s) = PMU_register_data s"
  "global_ec (upd_pcpu cpu p s) = global_ec s"
  "pcfg (upd_pcpu cpu p s) = pcfg s"
  "driver_state (upd_pcpu cpu p s) = driver_state s"
  "pmu_state (upd_pcpu cpu p s) = pmu_state s"
  "drv_x2apic_enabled (upd_pcpu cpu p s) = drv_x2apic_enabled s"
  "SYS_Read_MSR c r (upd_pcpu cpu p s) = SYS_Read_MSR c r s"
  by (simp_all add: upd_pcpu_def SYS_Read_MSR_def)

lemma upd_pcpu_twice [simp]: "upd_pcpu cpu p' (upd_pcpu cpu p s) = upd_pcpu cpu p' s"
  by (simp add: upd_pcpu_def)

lemma upd_pcpu_same: "pcb s cpu = Some p \<Longrightarrow> upd_pcpu cpu p s = s"
  by (simp add: upd_pcpu_def map_upd_triv)

lemma em_group_comm [simp]:
  "p\<lparr>current_group := c, em_tables := T\<rparr> = p\<lparr>em_tables := T, current_group := c\<rparr>"
  by (cases p) simp

text \<open>A loop that stores, for each entry, a value that depends on its register only.\<close>

lemma em_put_loop:
  assumes p: "pcb s cpu = Some p"
    and ix: "\<And>e. e \<in> set es \<Longrightarrow> ix e < length (em_tables p)"
    and body: "\<And>e T. e \<in> set es \<Longrightarrow> length T = length (em_tables p) \<Longrightarrow>
      body e (upd_pcpu cpu (p\<lparr>em_tables := T\<rparr>) s) =
      em_put cpu (ix e) (val e) (upd_pcpu cpu (p\<lparr>em_tables := T\<rparr>) s)"
  shows "\<exists>T. foldm body es s = Some (upd_pcpu cpu (p\<lparr>em_tables := T\<rparr>) s) \<and>
    length T = length (em_tables p) \<and>
    ((\<forall>e \<in> set es. \<forall>e' \<in> set es. ix e = ix e' \<longrightarrow> val e = val e') \<longrightarrow> (\<forall>e \<in> set es. T ! ix e = val e)) \<and>
    (\<forall>i. i \<notin> ix ` set es \<longrightarrow> T ! i = em_tables p ! i)"
proof -
  let ?inj = "\<forall>e \<in> set es. \<forall>e' \<in> set es. ix e = ix e' \<longrightarrow> val e = val e'"
  let ?P = "\<lambda>pre t. \<exists>T. t = upd_pcpu cpu (p\<lparr>em_tables := T\<rparr>) s \<and> length T = length (em_tables p) \<and>
    (?inj \<longrightarrow> (\<forall>e \<in> set pre. T ! ix e = val e)) \<and> (\<forall>i. i \<notin> ix ` set pre \<longrightarrow> T ! i = em_tables p ! i)"
  have "\<exists>t. foldm body es s = Some t \<and> ?P es t"
  proof (rule foldm_prefix_rule [where P = ?P])
    show "?P [] s" using p by (intro exI[of _ "em_tables p"]) (simp add: upd_pcpu_same)
  next
    fix pre e t
    assume P: "?P pre t" and e: "e \<in> set es" and pre: "\<exists>post. es = pre @ e # post"
    then obtain T where T: "t = upd_pcpu cpu (p\<lparr>em_tables := T\<rparr>) s" "length T = length (em_tables p)"
      "?inj \<longrightarrow> (\<forall>e \<in> set pre. T ! ix e = val e)" "\<forall>i. i \<notin> ix ` set pre \<longrightarrow> T ! i = em_tables p ! i" by blast
    have "body e t = Some (upd_pcpu cpu (p\<lparr>em_tables := T[ix e := val e]\<rparr>) s)"
      using T(1,2) e ix[OF e] body[OF e T(2)] by (simp add: em_put_def)
    moreover have a: "\<forall>e' \<in> set (pre @ [e]). T[ix e := val e] ! ix e' = val e'" if inj: ?inj
    proof
      fix e' assume e': "e' \<in> set (pre @ [e])"
      then have "e' \<in> set es" using pre by auto
      then have eq: "ix e' = ix e \<Longrightarrow> val e' = val e" using e inj by blast
      show "T[ix e := val e] ! ix e' = val e'"
      proof (cases "ix e' = ix e")
        case True
        then show ?thesis using eq ix[OF e] T(2) by simp
      next
        case False
        then have "e' \<in> set pre" using e' by auto
        then have "T ! ix e' = val e'" using T(3) inj by blast
        with False show ?thesis by simp
      qed
    qed
    moreover have b: "\<forall>i. i \<notin> ix ` set (pre @ [e]) \<longrightarrow> T[ix e := val e] ! i = em_tables p ! i"
    proof (intro allI impI)
      fix i assume "i \<notin> ix ` set (pre @ [e])"
      then have "i \<noteq> ix e" "i \<notin> ix ` set pre" by auto
      with T(4) show "T[ix e := val e] ! i = em_tables p ! i" by simp
    qed
    moreover have "?P (pre @ [e]) (upd_pcpu cpu (p\<lparr>em_tables := T[ix e := val e]\<rparr>) s)"
    proof (intro exI[of _ "T[ix e := val e]"] conjI)
      show "length (T[ix e := val e]) = length (em_tables p)" by (simp add: T(2))
      show "?inj \<longrightarrow> (\<forall>e' \<in> set (pre @ [e]). T[ix e := val e] ! ix e' = val e')" using a by blast
    qed (rule refl b)+
    ultimately show "\<exists>t'. body e t = Some t' \<and> ?P (pre @ [e]) t'" by blast
  qed
  then show ?thesis by blast
qed

lemma em_index_inj:
  assumes "e \<in> set (data_gp_regs q)" "e' \<in> set (data_gp_regs q)" "gp_window base mx q"
    "unat g < n" "n * unat mx < 2 ^ 32" "em_index base (g * mx) e = em_index base (g * mx) e'"
  shows "reg_id e = reg_id e'"
proof -
  have w: "base \<le> reg_id x \<and> unat (reg_id x) < unat base + unat mx" if "x \<in> set (data_gp_regs q)" for x
    using assms(3) that by (auto simp: gp_window_def)
  have "unat (reg_id e) - unat base = unat (reg_id e') - unat base"
    using assms(6) w[OF assms(1)] w[OF assms(2)] assms(4,5) by (simp add: em_index_eq [where n = n])
  then have "unat (reg_id e) = unat (reg_id e')"
    using w[OF assms(1)] w[OF assms(2)] by (auto simp: word_le_nat_alt)
  then show ?thesis by (simp add: word_unat_eq_iff)
qed

lemma em_save_ok:
  assumes ok: "em_ok base cpu s" and p: "pcb s cpu = Some p" and q: "cur_ecb cpu s = Some q"
  defines "st \<equiv> current_group p * max_gp_events (global_ec s)"
  shows "\<exists>T. em_save base cpu st s = Some (upd_pcpu cpu (p\<lparr>em_tables := T\<rparr>) s) \<and>
    length T = length (em_tables p) \<and>
    (\<forall>e \<in> set (data_gp_regs q). T ! em_index base st e = rd cpu (reg_id e) s) \<and>
    (\<forall>i. i \<notin> em_index base st ` set (data_gp_regs q) \<longrightarrow> T ! i = em_tables p ! i)"
proof -
  let ?n = "unat (num_groups (global_ec s))" and ?mx = "max_gp_events (global_ec s)"
  from ok p q have w: "unat (current_group p) < ?n" "length (em_tables p) = ?n * unat ?mx"
    "?n * unat ?mx < 2 ^ 32" "ecb_wf q" "gp_window base ?mx q"
    by (auto elim!: em_okE)
  have ix: "em_index base st e < length (em_tables p)" if "e \<in> set (data_gp_regs q)" for e
    unfolding st_def w(2) using w that by (intro em_index_row) (auto simp: gp_window_def)
  have inj: "rd cpu (reg_id e) s = rd cpu (reg_id e') s"
    if "e \<in> set (data_gp_regs q)" "e' \<in> set (data_gp_regs q)" "em_index base st e = em_index base st e'" for e e'
    using em_index_inj[OF that(1,2) w(5,1,3)] that(3) by (simp add: st_def)
  let ?body = "\<lambda>e t. em_put cpu (em_index base st e) (rd cpu (reg_id e) t) t"
  have bd: "?body e (upd_pcpu cpu (p\<lparr>em_tables := T\<rparr>) s) =
      em_put cpu (em_index base st e) (rd cpu (reg_id e) s) (upd_pcpu cpu (p\<lparr>em_tables := T\<rparr>) s)" for e T
    by simp
  from em_put_loop[where body = ?body, OF p ix bd] obtain T where
    "foldm ?body (data_gp_regs q) s = Some (upd_pcpu cpu (p\<lparr>em_tables := T\<rparr>) s)"
    "length T = length (em_tables p)"
    "(\<forall>e \<in> set (data_gp_regs q). \<forall>e' \<in> set (data_gp_regs q).
        em_index base st e = em_index base st e' \<longrightarrow> rd cpu (reg_id e) s = rd cpu (reg_id e') s) \<longrightarrow>
      (\<forall>e \<in> set (data_gp_regs q). T ! em_index base st e = rd cpu (reg_id e) s)"
    "\<forall>i. i \<notin> em_index base st ` set (data_gp_regs q) \<longrightarrow> T ! i = em_tables p ! i" by blast
  moreover from this(3) inj have "\<forall>e \<in> set (data_gp_regs q). T ! em_index base st e = rd cpu (reg_id e) s" by blast
  ultimately show ?thesis
    unfolding em_save_def FOR_EACH_eq(5)[OF q w(4)] by blast
qed

text \<open>Filling the rows with the programmed values keeps the group at 0.\<close>

definition gp_distinct :: "nat \<Rightarrow> drv \<Rightarrow> bool" where
  "gp_distinct g s = (case PMU_register_data s ! g of None \<Rightarrow> True | Some q \<Rightarrow> distinct (map reg_id (data_gp_regs q)))"

lemma em_init_step:
  assumes ok: "em_ok base cpu s" and p: "pcb s cpu = Some p" and j: "j < unat (num_groups (global_ec s))"
    and q: "PMU_register_data s ! j = Some q" "ecb_wf q" "gp_window base (max_gp_events (global_ec s)) q"
    and len: "length T = length (em_tables p)"
  defines "ix \<equiv> em_index base (of_nat j * max_gp_events (global_ec s))"
  shows "\<exists>T'. (do { s \<leftarrow> set_group cpu (of_nat j) (upd_pcpu cpu (p\<lparr>em_tables := T, current_group := g\<rparr>) s);
             let st_index = of_nat j * max_gp_events (global_ec s);
             FOR_EACH_DATA_GP_REG cpu s (\<lambda>e s. em_put cpu (em_index base st_index e) (reg_value e) s) s }) =
      Some (upd_pcpu cpu (p\<lparr>em_tables := T', current_group := of_nat j\<rparr>) s) \<and>
    length T' = length (em_tables p) \<and>
    (distinct (map reg_id (data_gp_regs q)) \<longrightarrow> (\<forall>e \<in> set (data_gp_regs q). T' ! ix e = reg_value e)) \<and>
    (\<forall>i. i \<notin> ix ` set (data_gp_regs q) \<longrightarrow> T' ! i = T ! i)"
proof -
  let ?n = "unat (num_groups (global_ec s))" and ?mx = "max_gp_events (global_ec s)"
  from ok p have w: "length (em_tables p) = ?n * unat ?mx" "?n * unat ?mx < 2 ^ 32"
    "?n \<le> length (PMU_register_data s)" by (auto simp: em_ok_def)
  have small: "unat (of_nat j :: u32) = j"
    by (rule unat_of_nat_u32 [OF less_trans [OF j unat_lt_u32]])
  let ?p1 = "p\<lparr>em_tables := T, current_group := of_nat j\<rparr>"
  let ?s1 = "upd_pcpu cpu ?p1 s"
  have ecb: "cur_ecb cpu ?s1 = Some q"
    using q(1) j w(3) small by (simp add: cur_ecb_def list_at_def)
  have ixl: "ix e < length (em_tables ?p1)" if "e \<in> set (data_gp_regs q)" for e
    unfolding ix_def using q(3) that small j w by (simp add: len gp_window_def em_index_row(1))
  have inj: "reg_value e = reg_value e'"
    if "distinct (map reg_id (data_gp_regs q))" "e \<in> set (data_gp_regs q)" "e' \<in> set (data_gp_regs q)" "ix e = ix e'" for e e'
  proof -
    have "unat (of_nat j :: u32) < ?n" using small j by simp
    then have "reg_id e = reg_id e'"
      using em_index_inj[OF that(2,3) q(3) _ w(2), of "of_nat j"] that(4) by (simp add: ix_def)
    with that(1-3) show ?thesis by (metis distinct_map inj_on_contraD)
  qed
  have p1: "pcb ?s1 cpu = Some ?p1" by simp
  let ?body = "\<lambda>e t. em_put cpu (em_index base (of_nat j * max_gp_events (global_ec s)) e) (reg_value e) t"
  have bd: "?body e (upd_pcpu cpu (?p1\<lparr>em_tables := T0\<rparr>) ?s1) =
      em_put cpu (ix e) (reg_value e) (upd_pcpu cpu (?p1\<lparr>em_tables := T0\<rparr>) ?s1)" for e T0
    by (simp add: ix_def)
  from em_put_loop[where body = ?body, OF p1 ixl bd]
  obtain T' where T': "foldm ?body (data_gp_regs q) ?s1 = Some (upd_pcpu cpu (?p1\<lparr>em_tables := T'\<rparr>) ?s1)"
    "length T' = length (em_tables ?p1)"
    "(\<forall>e \<in> set (data_gp_regs q). \<forall>e' \<in> set (data_gp_regs q). ix e = ix e' \<longrightarrow> reg_value e = reg_value e') \<longrightarrow>
      (\<forall>e \<in> set (data_gp_regs q). T' ! ix e = reg_value e)"
    "\<forall>i. i \<notin> ix ` set (data_gp_regs q) \<longrightarrow> T' ! i = em_tables ?p1 ! i" by blast
  have "distinct (map reg_id (data_gp_regs q)) \<longrightarrow> (\<forall>e \<in> set (data_gp_regs q). T' ! ix e = reg_value e)"
    using T'(3) inj by blast
  then show ?thesis
    using T'(1,2,4) len by (intro exI[of _ T']) (simp add: set_group_def FOR_EACH_eq(5)[OF ecb q(2)] Let_def)
qed
text \<open>The whole initialisation: every row of every group holds the programmed values.\<close>

definition rows_init :: "u16 \<Rightarrow> nat \<Rightarrow> u64 list \<Rightarrow> drv \<Rightarrow> bool" where
  "rows_init base j T s = (case PMU_register_data s ! j of None \<Rightarrow> True | Some q \<Rightarrow>
     distinct (map reg_id (data_gp_regs q)) \<longrightarrow>
     (\<forall>e \<in> set (data_gp_regs q). T ! em_index base (of_nat j * max_gp_events (global_ec s)) e = reg_value e))"

lemma em_init_ok:
  assumes ok: "em_ok base cpu s" and p: "pcb s cpu = Some p"
  shows "\<exists>T. em_init_tables base cpu s = Some (upd_pcpu cpu (p\<lparr>em_tables := T, current_group := 0\<rparr>) s) \<and>
    length T = length (em_tables p) \<and> (\<forall>j < unat (num_groups (global_ec s)). rows_init base j T s)"
proof -
  let ?n = "unat (num_groups (global_ec s))" and ?mx = "max_gp_events (global_ec s)"
  let ?body = "\<lambda>j s. do { s \<leftarrow> set_group cpu (of_nat j) s;
             let st_index = of_nat j * max_gp_events (global_ec s);
             FOR_EACH_DATA_GP_REG cpu s (\<lambda>e s. em_put cpu (em_index base st_index e) (reg_value e) s) s }"
  let ?P = "\<lambda>pre t. \<exists>T g. t = upd_pcpu cpu (p\<lparr>em_tables := T, current_group := g\<rparr>) s \<and>
    length T = length (em_tables p) \<and> (\<forall>j \<in> set pre. rows_init base j T s)"
  have lim: "?n * unat ?mx < 2 ^ 32" and lenp: "length (em_tables p) = ?n * unat ?mx"
    using ok p by (auto simp: em_ok_def)
  have grp: "\<exists>q. PMU_register_data s ! j = Some q \<and> ecb_wf q \<and> gp_window base ?mx q" if "j < ?n" for j
    using ok p that by (fastforce simp: em_ok_def list_all_length group_ok_def split: option.splits)
  have small: "unat (of_nat j :: u32) = j" if "j < ?n" for j
    by (rule unat_of_nat_u32 [OF less_trans [OF that unat_lt_u32]])
  have "\<exists>t. foldm ?body [0 ..< ?n] s = Some t \<and> ?P [0 ..< ?n] t"
  proof (rule foldm_prefix_rule [where P = ?P])
    show "?P [] s" using p
      by (intro exI[of _ "em_tables p"] exI[of _ "current_group p"]) (simp add: upd_pcpu_same)
  next
    fix pre j t
    assume P: "?P pre t" and j: "j \<in> set [0 ..< ?n]" and pre: "\<exists>post. [0 ..< ?n] = pre @ j # post"
    then obtain T g where T: "t = upd_pcpu cpu (p\<lparr>em_tables := T, current_group := g\<rparr>) s"
      "length T = length (em_tables p)" "\<forall>j \<in> set pre. rows_init base j T s" by blast
    from j have jn: "j < ?n" by simp
    from grp[OF jn] obtain q where q: "PMU_register_data s ! j = Some q" "ecb_wf q" "gp_window base ?mx q" by blast
    from em_init_step[OF ok p jn q T(2), of g] obtain T' where
      T': "?body j t = Some (upd_pcpu cpu (p\<lparr>em_tables := T', current_group := of_nat j\<rparr>) s)"
        "length T' = length (em_tables p)"
        "distinct (map reg_id (data_gp_regs q)) \<longrightarrow>
          (\<forall>e \<in> set (data_gp_regs q). T' ! em_index base (of_nat j * ?mx) e = reg_value e)"
        "\<forall>i. i \<notin> em_index base (of_nat j * ?mx) ` set (data_gp_regs q) \<longrightarrow> T' ! i = T ! i"
      unfolding T(1) by blast
    have "rows_init base j T' s" using T'(3) q(1) by (simp add: rows_init_def)
    moreover have "rows_init base k T' s" if k: "k \<in> set pre" for k
    proof -
      have kn: "k < ?n" "k \<noteq> j"
      proof -
        from pre obtain post where eq: "[0 ..< ?n] = pre @ j # post" by blast
        then have "k \<in> set [0 ..< ?n]" using k by simp
        then show "k < ?n" by simp
        have "distinct (pre @ j # post)" unfolding eq [symmetric] by simp
        then show "k \<noteq> j" using k by auto
      qed
      from grp[OF kn(1)] obtain q2 where q2: "PMU_register_data s ! k = Some q2" "gp_window base ?mx q2" by blast
      have "T' ! em_index base (of_nat k * ?mx) e = T ! em_index base (of_nat k * ?mx) e"
        if e: "e \<in> set (data_gp_regs q2)" for e
      proof -
        have "em_index base (of_nat k * ?mx) e div unat ?mx = k"
          using q2(2) e kn(1) small[OF kn(1)] lim by (subst em_index_row(2)) (auto simp: gp_window_def)
        moreover have "em_index base (of_nat j * ?mx) e' div unat ?mx = j" if "e' \<in> set (data_gp_regs q)" for e'
          using q(3) that jn small[OF jn] lim by (subst em_index_row(2)) (auto simp: gp_window_def)
        ultimately have "em_index base (of_nat k * ?mx) e \<notin> em_index base (of_nat j * ?mx) ` set (data_gp_regs q)"
          using kn(2) by fastforce
        with T'(4) show ?thesis by blast
      qed
      moreover from T(3) k have "rows_init base k T s" by blast
      ultimately show ?thesis using q2(1) by (simp add: rows_init_def)
    qed
    ultimately have "\<forall>k \<in> set (pre @ [j]). rows_init base k T' s" by simp
    with T'(1,2) show "\<exists>t'. ?body j t = Some t' \<and> ?P (pre @ [j]) t'" by blast
  qed
  then obtain T g where "foldm ?body [0 ..< ?n] s = Some (upd_pcpu cpu (p\<lparr>em_tables := T, current_group := g\<rparr>) s)"
    "length T = length (em_tables p)" "\<forall>j \<in> set [0 ..< ?n]. rows_init base j T s" by blast
  then show ?thesis
    by (intro exI[of _ T]) (simp add: em_init_tables_def set_group_def)
qed

lemma em_load_ok:
  assumes ok: "em_ok base cpu s" and p: "pcb s cpu = Some p" and q: "cur_ecb cpu s = Some q"
  defines "st \<equiv> current_group p * max_gp_events (global_ec s)"
  shows "em_load base cpu st s =
      Some (wr_regs cpu (\<lambda>e. em_tables p ! em_index base st e) (data_gp_regs q) s)"
    and "\<forall>e \<in> set (data_gp_regs q).
      rd cpu (reg_id e) (wr_regs cpu (\<lambda>e. em_tables p ! em_index base st e) (data_gp_regs q) s) =
      em_tables p ! em_index base st e"
proof -
  let ?n = "unat (num_groups (global_ec s))" and ?mx = "max_gp_events (global_ec s)"
  from ok p q have w: "unat (current_group p) < ?n" "length (em_tables p) = ?n * unat ?mx"
    "?n * unat ?mx < 2 ^ 32" "ecb_wf q" "gp_window base ?mx q"
    by (auto elim!: em_okE)
  have ix: "em_index base st e < length (em_tables p)" if "e \<in> set (data_gp_regs q)" for e
    unfolding st_def w(2) using w that by (intro em_index_row) (auto simp: gp_window_def)
  have pure: "foldm (\<lambda>e t. do { v \<leftarrow> em_get cpu (em_index base st e) t; Some (wr cpu (reg_id e) v t) }) es t
      = Some (wr_regs cpu (\<lambda>e. em_tables p ! em_index base st e) es t)"
    if "pcb t cpu = Some p" "set es \<subseteq> set (data_gp_regs q)" for es t
    using that by (induction es arbitrary: t) (simp_all add: em_get_Some ix)
  show "em_load base cpu st s =
      Some (wr_regs cpu (\<lambda>e. em_tables p ! em_index base st e) (data_gp_regs q) s)"
    unfolding em_load_def FOR_EACH_eq(5)[OF q w(4)] by (rule pure[OF p]) simp
  show "\<forall>e \<in> set (data_gp_regs q).
      rd cpu (reg_id e) (wr_regs cpu (\<lambda>e. em_tables p ! em_index base st e) (data_gp_regs q) s) =
      em_tables p ! em_index base st e"
  proof
    fix e assume "e \<in> set (data_gp_regs q)"
    then show "rd cpu (reg_id e) (wr_regs cpu (\<lambda>e. em_tables p ! em_index base st e) (data_gp_regs q) s) =
        em_tables p ! em_index base st e"
      by (rule read_wr_regs_in) (simp add: em_index_def)
  qed
qed

section \<open>The contract of a group rotation\<close>

text \<open>
  What the multiplexing client relies on: a swap keeps the invariant, moves to the next group
  in round-robin order and, seen as a transformation of the rows, stores the current group's
  counters in its row and shows the next group's row in the counters. \<open>cur\<close> is the current
  group, \<open>row g\<close> the contents of a row, \<open>live\<close> the contents of the counters.
\<close>

locale group_rotation =
  fixes ok :: "'s \<Rightarrow> bool" and cur :: "'s \<Rightarrow> nat" and cnt :: "'s \<Rightarrow> nat"
    and row :: "nat \<Rightarrow> 's \<Rightarrow> 'r" and live :: "'s \<Rightarrow> 'r" and swap :: "'s \<Rightarrow> 's option"
  assumes cur_lt: "ok s \<Longrightarrow> cur s < cnt s"
    and swap_ok: "ok s \<Longrightarrow> \<exists>t. swap s = Some t \<and> ok t \<and> cnt t = cnt s \<and>
      cur t = (if cur s + 1 < cnt s then cur s + 1 else 0) \<and>
      row (cur s) t = live s \<and> (\<forall>g. g \<noteq> cur s \<longrightarrow> g < cnt s \<longrightarrow> row g t = row g s) \<and>
      live t = row (cur t) t"
begin

lemma mod_step_neq: "c < n \<Longrightarrow> Suc i < n \<Longrightarrow> (c + Suc i) mod n \<noteq> (c :: nat)"
  by (cases "c + Suc i < n") (auto simp: not_less le_mod_geq)

lemma next_mod: "c < n \<Longrightarrow> (if c + 1 < n then c + 1 else 0) = (c + 1) mod (n :: nat)"
  by (cases "c + 1 = n") (auto simp: not_less_eq)

text \<open>\<open>k\<close> swaps never fail and rotate the group by \<open>k\<close>; a group the rotation has not reached
  again still has the row it had when it was left.\<close>

lemma swaps_total:
  assumes "ok s"
  shows "\<exists>t. iterm swap k s = Some t \<and> ok t \<and> cnt t = cnt s \<and> cur t = (cur s + k) mod cnt s"
  using assms
proof (induction k arbitrary: s)
  case 0
  then show ?case using cur_lt[of s] by simp
next
  case (Suc k)
  from swap_ok[OF Suc.prems] obtain s' where s': "swap s = Some s'" "ok s'" "cnt s' = cnt s"
    "cur s' = (if cur s + 1 < cnt s then cur s + 1 else 0)" by blast
  from Suc.IH[OF s'(2)] obtain t where t: "iterm swap k s' = Some t" "ok t" "cnt t = cnt s'"
    "cur t = (cur s' + k) mod cnt s'" by blast
  have "cur s' = (cur s + 1) mod cnt s" using s'(4) next_mod[OF cur_lt[OF Suc.prems]] by simp
  then have "cur t = (cur s + Suc k) mod cnt s" using t(4) s'(3) by (simp add: mod_simps)
  with s' t show ?case by simp
qed

lemma rows_kept:
  assumes "ok s" "g < cnt s" "\<forall>i<k. (cur s + i) mod cnt s \<noteq> g" "iterm swap k s = Some t"
  shows "row g t = row g s"
  using assms
proof (induction k arbitrary: s)
  case (Suc k)
  from swap_ok[OF Suc.prems(1)] obtain s' where s': "swap s = Some s'" "ok s'" "cnt s' = cnt s"
    "cur s' = (if cur s + 1 < cnt s then cur s + 1 else 0)"
    "\<forall>g. g \<noteq> cur s \<longrightarrow> g < cnt s \<longrightarrow> row g s' = row g s" by blast
  have c: "cur s' = (cur s + 1) mod cnt s" using s'(4) next_mod[OF cur_lt[OF Suc.prems(1)]] by simp
  have "g \<noteq> cur s" using Suc.prems(3) cur_lt[OF Suc.prems(1)] by force
  then have "row g s' = row g s" using s'(5) Suc.prems(2) by simp
  moreover have "\<forall>i<k. (cur s' + i) mod cnt s' \<noteq> g"
  proof (intro allI impI)
    fix i assume "i < k"
    with Suc.prems(3) have "(cur s + Suc i) mod cnt s \<noteq> g" by blast
    then show "(cur s' + i) mod cnt s' \<noteq> g" using c s'(3) by (simp add: mod_simps)
  qed
  ultimately show ?case using Suc.IH[OF s'(2)] Suc.prems(2,4) s'(1,3) by simp
qed simp

text \<open>A full rotation comes back to the group it started from, with its counters as they were.\<close>

theorem full_rotation:
  assumes "ok s"
  shows "\<exists>t. iterm swap (cnt s) s = Some t \<and> ok t \<and> cur t = cur s \<and> live t = live s"
proof -
  have pos: "0 < cnt s" using cur_lt[OF assms] by simp
  then obtain m where m: "cnt s = Suc m" using gr0_implies_Suc by blast
  from swap_ok[OF assms] obtain s' where s': "swap s = Some s'" "ok s'" "cnt s' = cnt s"
    "cur s' = (if cur s + 1 < cnt s then cur s + 1 else 0)" "row (cur s) s' = live s"
    "live s' = row (cur s') s'" by blast
  have c: "cur s' = (cur s + 1) mod cnt s" using s'(4) next_mod[OF cur_lt[OF assms]] by simp
  from swaps_total[OF s'(2), of m] obtain t where t: "iterm swap m s' = Some t" "ok t"
    "cnt t = cnt s'" "cur t = (cur s' + m) mod cnt s'" by blast
  have "cur t = (cur s + cnt s) mod cnt s" using t(4) c s'(3) m by (simp add: mod_simps)
  then have ct: "cur t = cur s" using cur_lt[OF assms] by simp
  have "row (cur s) t = row (cur s) s'"
  proof (rule rows_kept[OF s'(2) _ _ t(1)])
    show "cur s < cnt s'" using s'(3) cur_lt[OF assms] by simp
    show "\<forall>i<m. (cur s' + i) mod cnt s' \<noteq> cur s"
    proof (intro allI impI notI)
      fix i assume i: "i < m" and "(cur s' + i) mod cnt s' = cur s"
      then have "(cur s + Suc i) mod cnt s = cur s" using c s'(3) by (simp add: mod_simps)
      then show False using mod_step_neq[OF cur_lt[OF assms], of i] i m by simp
    qed
  qed
  moreover have "live t = row (cur t) t"
  proof (cases m)
    case 0
    then show ?thesis using t(1) s'(6) by simp
  next
    case (Suc j)
    have split: "\<exists>r. iterm swap j s' = Some r \<and> swap r = Some t"
    proof -
      from t(1) Suc show ?thesis by (auto simp: iterm_Suc_last bind_eq_Some_conv simp del: iterm.simps)
    qed
    then obtain r where r: "iterm swap j s' = Some r" "swap r = Some t" by blast
    from swaps_total[OF s'(2), of j] r(1) have "ok r" by auto
    from swap_ok[OF this] r(2) show ?thesis by auto
  qed
  ultimately have "live t = live s" using ct s'(5) by simp
  with m s'(1) t ct show ?thesis by auto
qed

end

end
