(* ===== verification/Apic.thy ===== *)
theory Apic
  imports Machine
begin

text \<open>
  The local APIC accesses of apic.c: masking and unmasking the performance-monitoring
  interrupt, acknowledging it, and installing its vector. In x2APIC mode the registers are
  MSRs, otherwise they lie in the CPU's own APIC page (\<open>apic_mmio\<close>), reached through the
  linear address in the CPU's state node; a NULL address means the access is skipped.
\<close>

definition DRV_APIC_LCL_EOI :: u32 where "DRV_APIC_LCL_EOI = 0x00b0"
definition DRV_APIC_LVT_PMI :: u32 where "DRV_APIC_LVT_PMI = 0x0340"
definition DRV_APIC_LCL_EOI_MSR :: u32 where "DRV_APIC_LCL_EOI_MSR = 0x80b"
definition DRV_APIC_LVT_PMI_MSR :: u32 where "DRV_APIC_LVT_PMI_MSR = 0x834"
definition DRV_LVT_MASK :: u32 where "DRV_LVT_MASK = 0x10000"

lemmas apic_defs = DRV_APIC_LCL_EOI_def DRV_APIC_LVT_PMI_def DRV_APIC_LCL_EOI_MSR_def
  DRV_APIC_LVT_PMI_MSR_def DRV_LVT_MASK_def

definition apic_put :: "nat \<Rightarrow> u32 \<Rightarrow> u32 \<Rightarrow> drv \<Rightarrow> drv" where
  "apic_put cpu off v s = s\<lparr>apic_mmio := (apic_mmio s)(cpu := (apic_mmio s cpu)(off := v))\<rparr>"

definition APIC_Disable_PMI :: "nat \<Rightarrow> drv \<Rightarrow> drv option" where
  "APIC_Disable_PMI cpu s =
     (if drv_x2apic_enabled s
      then Some (SYS_Write_MSR cpu DRV_APIC_LVT_PMI_MSR (ucast (cpu_perf_vector s OR DRV_LVT_MASK)) s)
      else do { pcpu \<leftarrow> pcb s cpu;
                if apic_linear_addr pcpu \<noteq> 0
                then Some (apic_put cpu DRV_APIC_LVT_PMI (cpu_perf_vector s OR DRV_LVT_MASK) s)
                else Some s })"

definition APIC_Enable_Pmi :: "nat \<Rightarrow> drv \<Rightarrow> drv option" where
  "APIC_Enable_Pmi cpu s =
     (if drv_x2apic_enabled s
      then (let v = SYS_Read_MSR cpu DRV_APIC_LVT_PMI_MSR s AND 0xFFFEFFFF
            in Some (SYS_Write_MSR cpu DRV_APIC_LVT_PMI_MSR v s))
      else do { pcpu \<leftarrow> pcb s cpu;
                if apic_linear_addr pcpu \<noteq> 0
                then Some (apic_put cpu DRV_APIC_LVT_PMI (apic_mmio s cpu DRV_APIC_LVT_PMI AND 0xFFFEFFFF) s)
                else Some s })"

definition APIC_Deinit_Phase1 :: "nat \<Rightarrow> drv \<Rightarrow> drv option" where
  "APIC_Deinit_Phase1 cpu s =
     (if \<not> drv_x2apic_enabled s
      then do { pcpu \<leftarrow> pcb s cpu;
                if apic_linear_addr pcpu \<noteq> 0
                then Some (upd_pcpu cpu (pcpu\<lparr>apic_linear_addr := 0\<rparr>) s)
                else Some s }
      else Some s)"

definition APIC_Install_Interrupt_Handler :: "nat \<Rightarrow> drv \<Rightarrow> drv option" where
  "APIC_Install_Interrupt_Handler cpu s =
     (if drv_x2apic_enabled s
      then Some (SYS_Write_MSR cpu DRV_APIC_LVT_PMI_MSR (ucast (cpu_perf_vector s OR DRV_LVT_MASK)) s)
      else do { pcpu \<leftarrow> pcb s cpu;
                if apic_linear_addr pcpu = 0 then Some s
                else Some (apic_put cpu DRV_APIC_LVT_PMI (cpu_perf_vector s OR DRV_LVT_MASK) s) })"

definition APIC_Ack_Eoi :: "nat \<Rightarrow> drv \<Rightarrow> drv option" where
  "APIC_Ack_Eoi cpu s =
     (if drv_x2apic_enabled s
      then Some (SYS_Write_MSR cpu DRV_APIC_LCL_EOI_MSR 0 s)
      else do { pcpu \<leftarrow> pcb s cpu;
                if apic_linear_addr pcpu \<noteq> 0
                then Some (apic_put cpu DRV_APIC_LCL_EOI 0 s)
                else Some s })"

section \<open>What the operations leave alone\<close>

text \<open>The performance LVT entry of a CPU, wherever the mode puts it.\<close>

definition lvt_pmi :: "nat \<Rightarrow> drv \<Rightarrow> u32" where
  "lvt_pmi cpu s = (if drv_x2apic_enabled s then ucast (SYS_Read_MSR cpu DRV_APIC_LVT_PMI_MSR s)
                    else apic_mmio s cpu DRV_APIC_LVT_PMI)"

definition apic_mapped :: "nat \<Rightarrow> drv \<Rightarrow> bool" where
  "apic_mapped cpu s = (drv_x2apic_enabled s \<or>
     (case pcb s cpu of None \<Rightarrow> False | Some p \<Rightarrow> apic_linear_addr p \<noteq> 0))"

lemma apic_put_frame [simp]:
  "pcb (apic_put cpu off v s) = pcb s"
  "msr (apic_put cpu off v s) = msr s"
  "wlog (apic_put cpu off v s) = wlog s"
  "PMU_register_data (apic_put cpu off v s) = PMU_register_data s"
  "driver_state (apic_put cpu off v s) = driver_state s"
  "pcfg (apic_put cpu off v s) = pcfg s"
  "global_ec (apic_put cpu off v s) = global_ec s"
  "pmu_state (apic_put cpu off v s) = pmu_state s"
  "SYS_Read_MSR cpu' r (apic_put cpu off v s) = SYS_Read_MSR cpu' r s"
  "cur_ecb cpu' (apic_put cpu off v s) = cur_ecb cpu' s"
  "drv_x2apic_enabled (apic_put cpu off v s) = drv_x2apic_enabled s"
  "cpu_perf_vector (apic_put cpu off v s) = cpu_perf_vector s"
  by (simp_all add: apic_put_def SYS_Read_MSR_def cur_ecb_def)

lemma apic_put_get [simp]: "apic_mmio (apic_put cpu off v s) cpu off = v"
  by (simp add: apic_put_def)

text \<open>
  The PMI operations never fault on a CPU that has a state node, and change no MSR other than
  the PMI entry and no other component of the driver.
\<close>

definition apic_frame :: "nat \<Rightarrow> drv \<Rightarrow> drv \<Rightarrow> bool" where
  "apic_frame cpu s t = (pcb t = pcb s \<and> PMU_register_data t = PMU_register_data s \<and>
     driver_state t = driver_state s \<and> pcfg t = pcfg s \<and> global_ec t = global_ec s \<and>
     pmu_state t = pmu_state s \<and> drv_x2apic_enabled t = drv_x2apic_enabled s \<and>
     (\<forall>c r. c \<noteq> cpu \<or> r \<noteq> DRV_APIC_LVT_PMI_MSR \<longrightarrow> SYS_Read_MSR c r t = SYS_Read_MSR c r s))"

lemma apic_frame_msr16:
  assumes "apic_frame cpu s t" "r \<noteq> 0x834"
  shows "rd c r t = rd c r s"
proof -
  have "(ucast r :: u32) \<noteq> DRV_APIC_LVT_PMI_MSR"
  proof
    assume "(ucast r :: u32) = DRV_APIC_LVT_PMI_MSR"
    then have "(ucast r :: u32) = ucast (0x834 :: u16)" by (simp add: DRV_APIC_LVT_PMI_MSR_def)
    with assms(2) show False by (simp only: ucast_u16_u32_inject)
  qed
  with assms(1) show ?thesis by (simp add: apic_frame_def)
qed

lemma APIC_Disable_PMI_total:
  assumes "pcb s cpu = Some p"
  shows "\<exists>t. APIC_Disable_PMI cpu s = Some t \<and> apic_frame cpu s t"
  using assms by (auto simp: APIC_Disable_PMI_def apic_frame_def)

lemma APIC_Enable_Pmi_total:
  assumes "pcb s cpu = Some p"
  shows "\<exists>t. APIC_Enable_Pmi cpu s = Some t \<and> apic_frame cpu s t"
  using assms by (auto simp: APIC_Enable_Pmi_def apic_frame_def Let_def)

lemma lvt_mask_clear:
  "(v OR DRV_LVT_MASK) AND 0xFFFEFFFF = v AND (0xFFFEFFFF :: u32)"
proof (rule bit_word_eqI)
  fix n assume "n < LENGTH(32)"
  have "bit (0x10000 :: u32) n \<longrightarrow> \<not> bit (0xFFFEFFFF :: u32) n"
  proof -
    have "(0x10000 :: u32) AND 0xFFFEFFFF = 0" by simp
    then show ?thesis by (metis bit_0_eq bit_and_iff bot_apply bot_bool_def)
  qed
  then show "bit ((v OR DRV_LVT_MASK) AND 0xFFFEFFFF) n = bit (v AND 0xFFFEFFFF) n"
    by (auto simp: DRV_LVT_MASK_def bit_simps)
qed

end
