(* ===== verification/Pebs.thy ===== *)
theory Pebs
  imports Machine
begin

text \<open>
  Precise event sampling: pebs.c. Each CPU owns a slot of the global PEBS memory: a
  \<open>DTS_BUFFER_EXT\<close> header followed by room for two PEBS records. Kernel memory is \<open>kmem\<close>, a map
  from byte addresses to the 8-byte word stored there; every field the driver touches is one
  such word, at the offset inc/pebs.h gives. The allocator's answer is an argument.
\<close>

section \<open>Layout\<close>

definition DTS_base :: u64 where "DTS_base = 0x00"
definition DTS_index :: u64 where "DTS_index = 0x08"
definition DTS_max :: u64 where "DTS_max = 0x10"
definition DTS_threshold :: u64 where "DTS_threshold = 0x18"
definition DTS_pebs_base :: u64 where "DTS_pebs_base = 0x20"
definition DTS_pebs_index :: u64 where "DTS_pebs_index = 0x28"
definition DTS_pebs_max :: u64 where "DTS_pebs_max = 0x30"
definition DTS_pebs_threshold :: u64 where "DTS_pebs_threshold = 0x38"
definition sizeof_DTS_BUFFER_EXT_NODE :: u32 where "sizeof_DTS_BUFFER_EXT_NODE = 96"
definition sizeof_PEBS_REC_NODE :: u32 where "sizeof_PEBS_REC_NODE = 0x90"
definition sizeof_PEBS_REC_EXT_NODE :: u32 where "sizeof_PEBS_REC_EXT_NODE = 0xB0"
definition sizeof_PEBS_REC_EXT1_NODE :: u32 where "sizeof_PEBS_REC_EXT1_NODE = 0xC0"
definition PEBS_r_flags :: u64 where "PEBS_r_flags = 0x00"
definition PEBS_linear_ip :: u64 where "PEBS_linear_ip = 0x08"
definition PEBS_glob_perf_overflow :: u64 where "PEBS_glob_perf_overflow = 0x90"
definition PEBS_eventing_ip :: u64 where "PEBS_eventing_ip = 0xB0"

lemmas dts_defs = DTS_base_def DTS_index_def DTS_max_def DTS_threshold_def DTS_pebs_base_def
  DTS_pebs_index_def DTS_pebs_max_def DTS_pebs_threshold_def

definition mem_rd :: "u64 \<Rightarrow> drv \<Rightarrow> u64" where
  "mem_rd a s = kmem s a"

definition mem_wr :: "u64 \<Rightarrow> u64 \<Rightarrow> drv \<Rightarrow> drv" where
  "mem_wr a v s = s\<lparr>kmem := (kmem s)(a := v)\<rparr>"

interpretation memf: register_file mem_rd mem_wr
  by unfold_locales (auto simp: mem_rd_def mem_wr_def)

section \<open>The micro dispatch tables\<close>

definition pebs_Corei7_Initialize_Threshold :: "u64 \<Rightarrow> u32 \<Rightarrow> drv \<Rightarrow> drv" where
  "pebs_Corei7_Initialize_Threshold dts rec_size s =
     mem_wr (dts + DTS_pebs_threshold) (mem_rd (dts + DTS_pebs_base) s + ucast rec_size) s"

definition pebs_Core2_Initialize_Threshold :: "u64 \<Rightarrow> u32 \<Rightarrow> drv \<Rightarrow> drv" where
  "pebs_Core2_Initialize_Threshold dts rec_size s =
     mem_wr (dts + DTS_pebs_threshold) (mem_rd (dts + DTS_pebs_base) s) s"

definition pebs_Corei7_Overflow :: "nat \<Rightarrow> u64 \<Rightarrow> drv \<Rightarrow> u64 option" where
  "pebs_Corei7_Overflow cpu overflow_status s = do { pcpu \<leftarrow> pcb s cpu;
     let dtes = dts_buffer pcpu;
     Some (if dtes = 0 then overflow_status
           else if mem_rd (dtes + DTS_pebs_index) s \<noteq> mem_rd (dtes + DTS_pebs_base) s
           then overflow_status OR mem_rd (mem_rd (dtes + DTS_pebs_base) s + PEBS_glob_perf_overflow) s
           else overflow_status) }"

definition pebs_Core2_Overflow :: "nat \<Rightarrow> u64 \<Rightarrow> drv \<Rightarrow> u64 option" where
  "pebs_Core2_Overflow cpu overflow_status s = do { pcpu \<leftarrow> pcb s cpu;
     let dtes = dts_buffer pcpu;
     Some (if dtes = 0 then overflow_status
           else if mem_rd (dtes + DTS_pebs_index) s \<noteq> mem_rd (dtes + DTS_pebs_base) s
           then overflow_status OR 0x1
           else overflow_status) }"

text \<open>
  The instruction-pointer words of a sample record: the union's 64-bit view (\<open>iip\<close>, \<open>ipsr\<close>)
  shares its first word with the 32-bit view (\<open>eip\<close> low, \<open>eflags\<close> high).
\<close>

record sample_pc =
  u1_iip :: u64
  u1_ipsr :: u64

definition set_eip :: "u64 \<Rightarrow> sample_pc \<Rightarrow> sample_pc" where
  "set_eip v p = p\<lparr>u1_iip := (u1_iip p AND 0xFFFFFFFF00000000) OR (v AND 0xFFFFFFFF)\<rparr>"

definition set_eflags :: "u64 \<Rightarrow> sample_pc \<Rightarrow> sample_pc" where
  "set_eflags v p = p\<lparr>u1_iip := (u1_iip p AND 0xFFFFFFFF) OR push_bit 32 (v AND 0xFFFFFFFF)\<rparr>"

definition pebs_Modify_IP :: "nat \<Rightarrow> sample_pc \<Rightarrow> bool \<Rightarrow> drv \<Rightarrow> sample_pc option" where
  "pebs_Modify_IP cpu psamp is_64bit_addr s = do { pcpu \<leftarrow> pcb s cpu;
     let dtes = dts_buffer pcpu;
     if dtes = 0 then Some psamp else
     let pb = mem_rd (dtes + DTS_pebs_base) s in
     if pb = mem_rd (dtes + DTS_pebs_index) s then Some psamp
     else if is_64bit_addr
     then Some (psamp\<lparr>u1_iip := mem_rd (pb + PEBS_linear_ip) s, u1_ipsr := mem_rd (pb + PEBS_r_flags) s\<rparr>)
     else Some (set_eflags (mem_rd (pb + PEBS_r_flags) s) (set_eip (mem_rd (pb + PEBS_linear_ip) s) psamp)) }"

definition pebs_Modify_IP_With_Eventing_IP :: "nat \<Rightarrow> sample_pc \<Rightarrow> bool \<Rightarrow> drv \<Rightarrow> sample_pc option" where
  "pebs_Modify_IP_With_Eventing_IP cpu psamp is_64bit_addr s = do { pcpu \<leftarrow> pcb s cpu;
     let dtes = dts_buffer pcpu;
     if dtes = 0 then Some psamp else
     let pb = mem_rd (dtes + DTS_pebs_base) s in
     if pb = mem_rd (dtes + DTS_pebs_index) s then Some psamp
     else if is_64bit_addr
     then Some (psamp\<lparr>u1_iip := mem_rd (pb + PEBS_eventing_ip) s, u1_ipsr := mem_rd (pb + PEBS_r_flags) s\<rparr>)
     else Some (set_eflags (mem_rd (pb + PEBS_r_flags) s) (set_eip (mem_rd (pb + PEBS_eventing_ip) s) psamp)) }"

fun pebs_initialize_threshold :: "pebs_kind \<Rightarrow> u64 \<Rightarrow> u32 \<Rightarrow> drv \<Rightarrow> drv" where
  "pebs_initialize_threshold core2_pebs = pebs_Core2_Initialize_Threshold"
| "pebs_initialize_threshold core2p_pebs = pebs_Corei7_Initialize_Threshold"
| "pebs_initialize_threshold corei7_pebs = pebs_Corei7_Initialize_Threshold"
| "pebs_initialize_threshold haswell_pebs = pebs_Corei7_Initialize_Threshold"

fun pebs_overflow :: "pebs_kind \<Rightarrow> nat \<Rightarrow> u64 \<Rightarrow> drv \<Rightarrow> u64 option" where
  "pebs_overflow core2_pebs = pebs_Core2_Overflow"
| "pebs_overflow core2p_pebs = pebs_Core2_Overflow"
| "pebs_overflow corei7_pebs = pebs_Corei7_Overflow"
| "pebs_overflow haswell_pebs = pebs_Corei7_Overflow"

fun pebs_modify_ip :: "pebs_kind \<Rightarrow> nat \<Rightarrow> sample_pc \<Rightarrow> bool \<Rightarrow> drv \<Rightarrow> sample_pc option" where
  "pebs_modify_ip haswell_pebs = pebs_Modify_IP_With_Eventing_IP"
| "pebs_modify_ip _ = pebs_Modify_IP"

definition PEBS_Overflowed :: "nat \<Rightarrow> u64 \<Rightarrow> drv \<Rightarrow> u64 option" where
  "PEBS_Overflowed cpu overflow_status s =
     do { k \<leftarrow> pebs_dispatch s; pebs_overflow k cpu overflow_status s }"

definition PEBS_Modify_IP :: "nat \<Rightarrow> sample_pc \<Rightarrow> bool \<Rightarrow> drv \<Rightarrow> sample_pc option" where
  "PEBS_Modify_IP cpu psamp is_64bit_addr s =
     do { k \<leftarrow> pebs_dispatch s; pebs_modify_ip k cpu psamp is_64bit_addr s }"

definition PEBS_Reset_Index :: "nat \<Rightarrow> drv \<Rightarrow> drv option" where
  "PEBS_Reset_Index cpu s = do { pcpu \<leftarrow> pcb s cpu;
     let dtes = dts_buffer pcpu;
     Some (if dtes \<noteq> 0 then mem_wr (dtes + DTS_pebs_index) (mem_rd (dtes + DTS_pebs_base) s) s else s) }"

section \<open>Buffers\<close>

definition ALIGN_32 :: "u64 \<Rightarrow> u64" where
  "ALIGN_32 x = (x + 31) AND NOT 31"

definition PER_CORE_BUFFER_SIZE :: "u32 \<Rightarrow> u64" where
  "PER_CORE_BUFFER_SIZE rec_size = ucast sizeof_DTS_BUFFER_EXT_NODE + ucast (2 * rec_size) + 64"

text \<open>
  \<open>buffer_size\<close> is U32, and \<open>this_cpu * buffer_size\<close> is computed in U32 before it is added to
  the base pointer.
\<close>

definition pebs_slot :: "nat \<Rightarrow> u32 \<Rightarrow> drv \<Rightarrow> u64" where
  "pebs_slot cpu rec_size s =
     pebs_global_memory s + ucast (of_nat cpu * (ucast (PER_CORE_BUFFER_SIZE rec_size) :: u32))"

definition pebs_record_base :: "u64 \<Rightarrow> u64" where
  "pebs_record_base dts =
     (let b = dts + ucast sizeof_DTS_BUFFER_EXT_NODE in if b AND 0x1F \<noteq> 0 then ALIGN_32 b else b)"

text \<open>
  Without the buffers (\<open>CONTROL_Allocate_KMemory\<close> answers NULL) the test finds NULL only where the CPU's offset is 0;
  on every other CPU the code stores through NULL plus the offset, which is undefined.
\<close>

definition pebs_Alloc_DTS_Buffer :: "nat \<Rightarrow> u32 \<Rightarrow> drv \<Rightarrow> (u64 \<times> drv) option" where
  "pebs_Alloc_DTS_Buffer cpu rec_size s =
     (let dts = pebs_slot cpu rec_size s; b = pebs_record_base dts in
      if dts = 0 then Some (0, s)
      else if pebs_global_memory s = 0 then None
      else do { k \<leftarrow> pebs_dispatch s;
        let s = mem_wr (dts + DTS_base) 0 s;
        let s = mem_wr (dts + DTS_index) 0 s;
        let s = mem_wr (dts + DTS_max) 0 s;
        let s = mem_wr (dts + DTS_threshold) 0 s;
        let s = mem_wr (dts + DTS_pebs_base) b s;
        let s = mem_wr (dts + DTS_pebs_index) b s;
        let s = mem_wr (dts + DTS_pebs_max) (b + ucast (2 * rec_size)) s;
        Some (dts, pebs_initialize_threshold k dts rec_size s) })"

definition pebs_Allocate_Buffers :: "u32 \<Rightarrow> nat \<Rightarrow> drv \<Rightarrow> drv option" where
  "pebs_Allocate_Buffers rec_size cpu s =
     (let s = wr cpu IA32_PEBS_ENABLE 0 s; value = rd cpu IA32_MISC_ENABLE s in
      if value AND 0x80 \<noteq> 0 \<and> value AND 0x1000 = 0
      then do { pcpu \<leftarrow> pcb s cpu;
        let s = upd_pcpu cpu (pcpu\<lparr>old_dts_buffer := rd cpu IA32_DS_AREA s\<rparr>) s;
        (dts, s) \<leftarrow> pebs_Alloc_DTS_Buffer cpu rec_size s;
        pcpu \<leftarrow> pcb s cpu;
        let s = upd_pcpu cpu (pcpu\<lparr>dts_buffer := dts\<rparr>) s;
        Some (wr cpu IA32_DS_AREA dts s) }
      else Some s)"

definition pebs_Deallocate_Buffers :: "nat \<Rightarrow> drv \<Rightarrow> drv option" where
  "pebs_Deallocate_Buffers cpu s = do { pcpu \<leftarrow> pcb s cpu;
     let s = wr cpu IA32_DS_AREA (old_dts_buffer pcpu) s;
     Some (upd_pcpu cpu (pcpu\<lparr>dts_buffer := 0\<rparr>) s) }"

text \<open>
  \<open>PEBS_Initialize\<close>: \<open>cpus\<close> are the CPUs \<open>CONTROL_Invoke_Parallel\<close> runs on and \<open>mem\<close> is what
  \<open>CONTROL_Allocate_KMemory\<close> answers. An unknown mode keeps the dispatch table of the last run.
\<close>

definition pebs_select :: "u32 \<Rightarrow> pebs_kind option \<Rightarrow> pebs_kind option \<times> u32" where
  "pebs_select mode old =
     (if mode = 1 then (Some core2_pebs, sizeof_PEBS_REC_NODE)
      else if mode = 2 then (Some corei7_pebs, sizeof_PEBS_REC_EXT_NODE)
      else if mode = 3 then (Some core2p_pebs, sizeof_PEBS_REC_NODE)
      else if mode = 4 then (Some haswell_pebs, sizeof_PEBS_REC_EXT1_NODE)
      else (old, 0))"

definition PEBS_Initialize :: "nat list \<Rightarrow> u64 \<Rightarrow> drv \<Rightarrow> drv option" where
  "PEBS_Initialize cpus mem s =
     (if pebs_mode (pcfg s) \<noteq> 0
      then (let (k, rec_size) = pebs_select (pebs_mode (pcfg s)) (pebs_dispatch s);
                s = s\<lparr>pebs_dispatch := k\<rparr>
            in if k \<noteq> None
               then foldm (pebs_Allocate_Buffers rec_size) cpus
                      (s\<lparr>pebs_global_memory_size := scast (num_cpus (driver_state s)) * PER_CORE_BUFFER_SIZE rec_size,
                         pebs_global_memory := mem\<rparr>)
               else Some s)
      else Some s)"

definition PEBS_Destroy :: "nat list \<Rightarrow> drv \<Rightarrow> drv option" where
  "PEBS_Destroy cpus s =
     (if pebs_mode (pcfg s) \<noteq> 0
      then do { s \<leftarrow> foldm pebs_Deallocate_Buffers cpus s;
                Some (s\<lparr>pebs_global_memory := 0, pebs_global_memory_size := 0\<rparr>) }
      else Some s)"

end
