(* ===== verification/Core2.thy ===== *)
theory Core2
  imports Emux Apic Pebs
begin

text \<open>
  The PMU driver of core2.c, used for Core 2 and (with other dispatch tables) Core i7: one
  definition per routine of the dispatch table. A routine takes the CPU it runs on and the
  driver state and returns the new state, or \<open>None\<close> where the C code would dereference NULL,
  index past an array, or shift by 64 or more. The entries \<open>dispatch->hw_errata\<close>,
  \<open>dispatch->check_overflow_errata\<close> and \<open>dispatch->check_overflow_gp_errata\<close> that a routine
  calls through the current dispatch table are arguments; the tables at the end supply them.
\<close>

section \<open>Work-arounds in PCI space\<close>

definition JKTUNC_HA_DEVICE_NO :: u32 where "JKTUNC_HA_DEVICE_NO = 14"
definition JKTUNC_HA_D2C_FUNC_NO :: u32 where "JKTUNC_HA_D2C_FUNC_NO = 0"
definition JKTUNC_HA_D2C_OFFSET :: u32 where "JKTUNC_HA_D2C_OFFSET = 0x84"
definition JKTUNC_HA_D2C_BITMASK :: u32 where "JKTUNC_HA_D2C_BITMASK = 0x2"
definition JKTUNC_HA_D2C_DID :: u32 where "JKTUNC_HA_D2C_DID = 0x3CA0"
definition JKTUNC_QPILL0_D2C_DID :: u32 where "JKTUNC_QPILL0_D2C_DID = 0x3C80"
definition JKTUNC_QPILL1_D2C_DID :: u32 where "JKTUNC_QPILL1_D2C_DID = 0x3C90"
definition JKTUNC_QPILL_D2C_OFFSET :: u32 where "JKTUNC_QPILL_D2C_OFFSET = 0x80"
definition JKTUNC_QPILL_D2C_BITMASK :: u32 where "JKTUNC_QPILL_D2C_BITMASK = 0x2"
definition JKTUNC_QPILL_D2C_FUNC_NO :: u32 where "JKTUNC_QPILL_D2C_FUNC_NO = 0"
definition CORE2UNC_BLBYPASS_BITMASK :: u64 where "CORE2UNC_BLBYPASS_BITMASK = 0x1"
definition CORE2UNC_DISABLE_BL_BYPASS_MSR :: u32 where "CORE2UNC_DISABLE_BL_BYPASS_MSR = 0x39C"

text \<open>The device found at a configuration address is an Intel device with one of the ids.\<close>

definition pci_match :: "u32 \<Rightarrow> u32 list \<Rightarrow> drv \<Rightarrow> bool" where
  "pci_match a dids s = (let value = PCI_Read_Ulong a s;
      vendor_id = value AND VENDOR_ID_MASK;
      device_id = drop_bit 16 (value AND DEVICE_ID_MASK)
    in vendor_id = DRV_IS_PCI_VENDOR_ID_INTEL \<and> device_id \<in> set dids)"

definition ha_addr :: "nat \<Rightarrow> u32 \<Rightarrow> u32" where
  "ha_addr busno off = FORM_PCI_ADDR (of_nat busno) JKTUNC_HA_DEVICE_NO JKTUNC_HA_D2C_FUNC_NO off"

definition core2_qpill_dev_no :: "nat \<Rightarrow> u32" where
  "core2_qpill_dev_no dev_idx = (if dev_idx = 0 then 8 else 9)"

definition qpi_addr :: "nat \<times> nat \<Rightarrow> u32 \<Rightarrow> u32" where
  "qpi_addr db off = FORM_PCI_ADDR (of_nat (snd db)) (core2_qpill_dev_no (fst db)) JKTUNC_QPILL_D2C_FUNC_NO off"

definition ha_found :: "nat \<Rightarrow> drv \<Rightarrow> bool" where
  "ha_found busno s = pci_match (ha_addr busno 0) [JKTUNC_HA_D2C_DID] s"

definition qpi_found :: "nat \<times> nat \<Rightarrow> drv \<Rightarrow> bool" where
  "qpi_found db s = pci_match (qpi_addr db 0) [JKTUNC_QPILL0_D2C_DID, JKTUNC_QPILL1_D2C_DID] s"

definition ha_buses :: "nat list" where "ha_buses = [0 ..< MAX_BUSNO]"
definition qpi_buses :: "(nat \<times> nat) list" where "qpi_buses = List.product [0 ..< 2] [0 ..< MAX_BUSNO]"

definition save_ha :: "nat \<Rightarrow> nat \<Rightarrow> u32 \<Rightarrow> drv \<Rightarrow> drv option" where
  "save_ha cpu busno v s = do { r \<leftarrow> restore_ha_direct2core s;
     Some (s\<lparr>restore_ha_direct2core := Some (r(cpu := (r cpu)(busno := v)))\<rparr>) }"

definition save_qpi :: "nat \<Rightarrow> nat \<Rightarrow> u32 \<Rightarrow> drv \<Rightarrow> drv option" where
  "save_qpi cpu i v s = do { r \<leftarrow> restore_qpi_direct2core s;
     Some (s\<lparr>restore_qpi_direct2core := Some (r(cpu := (r cpu)(i := v)))\<rparr>) }"

definition core2_Disable_Direct2core :: "nat \<Rightarrow> drv \<Rightarrow> drv option" where
  "core2_Disable_Direct2core cpu s = do {
     s \<leftarrow> foldm (\<lambda>busno s. if ha_found busno s
            then save_ha cpu busno (PCI_Read_Ulong (ha_addr busno JKTUNC_HA_D2C_OFFSET) s) s
            else Some s) ha_buses s;
     s \<leftarrow> foldm (\<lambda>busno s. Some (if ha_found busno s
            then (let a = ha_addr busno JKTUNC_HA_D2C_OFFSET; value = PCI_Read_Ulong a s
                  in PCI_Write_Ulong a (value OR (value OR JKTUNC_HA_D2C_BITMASK)) s)
            else s)) ha_buses s;
     s \<leftarrow> foldm (\<lambda>db s. if qpi_found db s
            then save_qpi cpu (fst db * MAX_BUSNO + snd db)
                   (PCI_Read_Ulong (qpi_addr db JKTUNC_QPILL_D2C_OFFSET) s) s
            else Some s) qpi_buses s;
     foldm (\<lambda>db s. Some (if qpi_found db s
            then (let a = qpi_addr db JKTUNC_QPILL_D2C_OFFSET; value = PCI_Read_Ulong a s
                  in PCI_Write_Ulong a (value OR (value OR JKTUNC_QPILL_D2C_BITMASK)) s)
            else s)) qpi_buses s }"

definition core2_Disable_BL_Bypass :: "nat \<Rightarrow> drv \<Rightarrow> drv option" where
  "core2_Disable_BL_Bypass cpu s = do {
     let value = SYS_Read_MSR cpu CORE2UNC_DISABLE_BL_BYPASS_MSR s;
     r \<leftarrow> restore_bl_bypass s;
     let s = s\<lparr>restore_bl_bypass := Some (r(cpu := value))\<rparr>;
     Some (SYS_Write_MSR cpu CORE2UNC_DISABLE_BL_BYPASS_MSR (value OR CORE2UNC_BLBYPASS_BITMASK) s) }"

section \<open>Programming, freezing and restarting\<close>

text \<open>The value the initial programming gives to a register: nothing may start counting yet.\<close>

definition core2_init_value :: "drv_config \<Rightarrow> event_reg \<Rightarrow> u64" where
  "core2_init_value cfg e =
     (if reg_id e = IA32_PERF_GLOBAL_CTRL then 0
      else if pebs_mode cfg \<noteq> 0 \<and> reg_id e = IA32_PEBS_ENABLE \<and> reg_value e \<noteq> 0 then 0
      else if reg_id e = COMPOUND_CTR_CTL then 0
      else reg_value e)"

type_synonym errata = "(nat \<Rightarrow> drv \<Rightarrow> drv option) option"

definition call_errata :: "errata \<Rightarrow> nat \<Rightarrow> drv \<Rightarrow> drv option" where
  "call_errata hw_errata cpu s = (case hw_errata of None \<Rightarrow> Some s | Some f \<Rightarrow> f cpu s)"

definition core2_Write_PMU :: "errata \<Rightarrow> nat \<Rightarrow> drv \<Rightarrow> drv option" where
  "core2_Write_PMU hw_errata cpu s = do { pcpu \<leftarrow> pcb s cpu;
     s \<leftarrow> (if current_group pcpu = 0 \<and> em_mode (global_ec s) \<noteq> EM_DISABLED
           then em_init_tables IA32_PMC0 cpu s else Some s);
     s \<leftarrow> call_errata hw_errata cpu s;
     let cfg = pcfg s;
     FOR_EACH_REG_ENTRY cpu s (\<lambda>e s. Some (wr cpu (reg_id e) (core2_init_value cfg e) s)) s }"

definition core2_Disable_PMU :: "nat \<Rightarrow> drv \<Rightarrow> drv option" where
  "core2_Disable_PMU cpu s =
     (if current_phase (driver_state s) \<noteq> RUNNING
      then do {
        let s = wr cpu IA32_PERF_GLOBAL_CTRL 0 s;
        let s = (if pebs_mode (pcfg s) \<noteq> 0 then wr cpu IA32_PEBS_ENABLE 0 s else s);
        s \<leftarrow> FOR_EACH_CCCR_REG cpu s (\<lambda>e s.
               Some (if is_compound_ctr_bit_set e then wr cpu COMPOUND_CTR_CTL 0 s else s)) s;
        APIC_Disable_PMI cpu s }
      else Some s)"

text \<open>The compound-counter control writes at the end of a group swap.\<close>

definition write_compound_ctl :: "nat \<Rightarrow> drv \<Rightarrow> drv option" where
  "write_compound_ctl cpu s = FOR_EACH_CCCR_REG cpu s (\<lambda>e s.
     Some (if is_compound_ctr_bit_set e then wr cpu COMPOUND_CTR_CTL (reg_value e) s else s)) s"

definition set_pcpu :: "(cpu_state \<Rightarrow> cpu_state) \<Rightarrow> nat \<Rightarrow> drv \<Rightarrow> drv option" where
  "set_pcpu f cpu s = do { p \<leftarrow> pcb s cpu; Some (upd_pcpu cpu (f p) s) }"

text \<open>Entries 0, 2 and 3 of a block are the global control, PEBS enable and debug control
  registers; reading the value of an entry the block does not have is a fault.\<close>

definition cur_ecb_ptr :: "nat \<Rightarrow> drv \<Rightarrow> ecb option option" where
  "cur_ecb_ptr cpu s = do { pcpu \<leftarrow> pcb s cpu; list_at (PMU_register_data s) (unat (current_group pcpu)) }"

definition entry_value :: "ecb option \<Rightarrow> nat \<Rightarrow> u64 option" where
  "entry_value pecb i = do { b \<leftarrow> pecb; e \<leftarrow> list_at (entries b) i; Some (reg_value e) }"

definition core2_Enable_PMU :: "nat \<Rightarrow> drv \<Rightarrow> drv option" where
  "core2_Enable_PMU cpu s =
     (if current_phase (driver_state s) = RUNNING
      then do { pecb \<leftarrow> cur_ecb_ptr cpu s;
        s \<leftarrow> APIC_Enable_Pmi cpu s;
        p \<leftarrow> pcb s cpu;
        s \<leftarrow> (if reset_mask p \<noteq> 0
              then do { g \<leftarrow> entry_value pecb 0; d \<leftarrow> entry_value pecb 3;
                let s = wr cpu IA32_PERF_GLOBAL_CTRL g s;
                let s = wr cpu IA32_DEBUG_CTRL d s;
                set_pcpu (reset_mask_update (\<lambda>_. 0)) cpu s }
              else Some s);
        if group_swap p \<noteq> 0
        then do { s \<leftarrow> set_pcpu (group_swap_update (\<lambda>_. 0)) cpu s;
          g \<leftarrow> entry_value pecb 0;
          let s = wr cpu IA32_PERF_GLOBAL_CTRL g s;
          s \<leftarrow> (if pebs_mode (pcfg s) \<noteq> 0
                then do { v \<leftarrow> entry_value pecb 2; Some (wr cpu IA32_PEBS_ENABLE v s) }
                else Some s);
          d \<leftarrow> entry_value pecb 3;
          let s = wr cpu IA32_DEBUG_CTRL d s;
          write_compound_ctl cpu s }
        else Some s }
      else do { pecb \<leftarrow> cur_ecb_ptr cpu s; Some s })"

definition corei7_Enable_PMU_2 :: "nat \<Rightarrow> drv \<Rightarrow> drv option" where
  "corei7_Enable_PMU_2 cpu s =
     (if current_phase (driver_state s) = RUNNING
      then do { pecb \<leftarrow> cur_ecb_ptr cpu s;
        s \<leftarrow> APIC_Enable_Pmi cpu s;
        p \<leftarrow> pcb s cpu;
        s \<leftarrow> (if group_swap p \<noteq> 0
          then do { s \<leftarrow> set_pcpu (group_swap_update (\<lambda>_. 0)) cpu s;
            s \<leftarrow> (if pebs_mode (pcfg s) \<noteq> 0
              then do { let pebs_val = rd cpu IA32_PEBS_ENABLE s;
                v \<leftarrow> entry_value pecb 2;
                Some (if v \<noteq> 0 then wr cpu IA32_PEBS_ENABLE v s
                      else if pebs_val \<noteq> 0 then wr cpu IA32_PEBS_ENABLE 0 s else s) }
              else Some s);
            d \<leftarrow> entry_value pecb 3;
            let s = wr cpu IA32_DEBUG_CTRL d s;
            s \<leftarrow> write_compound_ctl cpu s;
            g \<leftarrow> entry_value pecb 0;
            Some (wr cpu IA32_PERF_GLOBAL_CTRL g s) }
          else Some s);
        if reset_mask p \<noteq> 0
        then do { g \<leftarrow> entry_value pecb 0; d \<leftarrow> entry_value pecb 3;
          let s = wr cpu IA32_PERF_GLOBAL_CTRL g s;
          let s = wr cpu IA32_DEBUG_CTRL d s;
          set_pcpu (reset_mask_update (\<lambda>_. 0)) cpu s }
        else Some s }
      else do { pecb \<leftarrow> cur_ecb_ptr cpu s; Some s })"

section \<open>Reading and overflow handling\<close>

definition core2_Read_PMU_Data :: "nat \<Rightarrow> drv \<Rightarrow> drv option" where
  "core2_Read_PMU_Data cpu s = do { pecb \<leftarrow> cur_ecb cpu s;
     let start_index = ecb_num_events pecb * of_nat cpu;
     FOR_EACH_DATA_REG cpu s (\<lambda>e s.
       if is_compound_ctr_sub_bit_set e then Some s
       else do { b \<leftarrow> list_put (read_counter_info s) (unat (start_index + ucast (event_id_index e)))
                        (rd cpu (reg_id e) s);
                 Some (s\<lparr>read_counter_info := b\<rparr>) }) s }"

definition core2_Check_Overflow_Errata :: "nat \<Rightarrow> drv \<Rightarrow> event_reg \<Rightarrow> u64 \<Rightarrow> u64" where
  "core2_Check_Overflow_Errata cpu s e overflow_status =
     (if num_events (pcfg s) = 1 then overflow_status
      else if reg_id e = IA32_FIXED_CTR1 \<and> overflow_status AND 0x200000000 = 0
      then (let val = rd cpu IA32_FIXED_CTR1 s AND max_bits e in
            if val < reg_value e then overflow_status OR 0x200000000 else overflow_status)
      else overflow_status)"

text \<open>
  \<open>DRV_MASKS\<close>: the first \<open>masks_num\<close> elements of the array of event masks, as pairs of the event
  index and the flag bits (bit 0 precise, bit 1 LBR capture, bit 6 uncore capture).
\<close>

type_synonym event_mask = "u8 \<times> u8"

definition MAX_OVERFLOW_EVENTS :: nat where "MAX_OVERFLOW_EVENTS = 11"

definition event_flag :: "bool \<Rightarrow> event_reg \<Rightarrow> u8" where
  "event_flag with_uncore e = (if precise_get e then 0x01 else 0) OR
     (if lbr_value_get e then 0x02 else 0) OR
     (if with_uncore \<and> uncore_get e then 0x40 else 0)"

definition push_mask :: "event_mask \<Rightarrow> event_mask list \<Rightarrow> event_mask list" where
  "push_mask m masks = (if length masks < MAX_OVERFLOW_EVENTS then masks @ [m] else masks)"

text \<open>What both overflow routines do for a register that overflowed.\<close>

definition record_overflow :: "bool \<Rightarrow> nat \<Rightarrow> event_reg \<Rightarrow> drv \<times> event_mask list
    \<Rightarrow> (drv \<times> event_mask list) option" where
  "record_overflow with_uncore cpu e = (\<lambda>(s, masks). do {
     let s = wr cpu (reg_id e) (reg_value e) s;
     p \<leftarrow> pcb s cpu;
     let s = (if ucast (event_id_index e) = trigger_event_num p
              then upd_pcpu cpu (p\<lparr>trigger_count := trigger_count p - 1\<rparr>) s else s);
     Some (s, push_mask (event_id_index e, event_flag with_uncore e) masks) })"

text \<open>The status bit that belongs to a register; \<open>None\<close> where the loop goes on to the next.\<close>

definition ovf_index :: "drv \<Rightarrow> event_reg \<Rightarrow> u32 option" where
  "ovf_index s e =
     (if fixed_reg_get e then Some (ucast (reg_id e) - ucast IA32_FIXED_CTR0 + 0x20)
      else if is_compound_ctr_sub_bit_set e then None
      else if is_compound_ctr_bit_set e \<and> \<not> event_based_counts (pcfg s) then Some COMPOUND_CTR_OVF_SHIFT
      else if is_gp_reg_get e then Some (ucast (reg_id e) - ucast IA32_PMC0)
      else None)"

type_synonym ovf_errata = "(nat \<Rightarrow> drv \<Rightarrow> event_reg \<Rightarrow> u64 \<Rightarrow> u64) option"
type_synonym gp_errata = "(nat \<Rightarrow> drv \<Rightarrow> u64 \<Rightarrow> (u64 \<times> u64) option) option"

definition core2_Check_Overflow_body :: "ovf_errata \<Rightarrow> nat \<Rightarrow> event_reg
    \<Rightarrow> u64 \<times> drv \<times> event_mask list \<Rightarrow> (u64 \<times> drv \<times> event_mask list) option" where
  "core2_Check_Overflow_body ce cpu e = (\<lambda>(overflow_status, s, masks).
     case ovf_index s e of None \<Rightarrow> Some (overflow_status, s, masks)
     | Some index \<Rightarrow> do {
         let overflow_status = (case ce of Some f \<Rightarrow>
               (if fixed_reg_get e then f cpu s e overflow_status else overflow_status)
             | None \<Rightarrow> overflow_status);
         b \<leftarrow> bit_u64 index;
         if overflow_status AND b \<noteq> 0
         then do { (s, masks) \<leftarrow> record_overflow True cpu e (s, masks); Some (overflow_status, s, masks) }
         else Some (overflow_status, s, masks) })"

text \<open>The part before the loop: the overflow status, and the status to be cleared.\<close>

definition read_overflow_status :: "gp_errata \<Rightarrow> nat \<Rightarrow> drv \<Rightarrow> (u64 \<times> u64) option" where
  "read_overflow_status ge cpu s = do {
     let st = rd cpu IA32_PERF_GLOBAL_STATUS s;
     st \<leftarrow> (if pebs_mode (pcfg s) \<noteq> 0 then PEBS_Overflowed cpu st s else Some st);
     case ge of None \<Rightarrow> Some (st, st) | Some f \<Rightarrow> f cpu s st }"

definition finish_overflow :: "nat \<Rightarrow> u64 \<Rightarrow> drv \<Rightarrow> drv option" where
  "finish_overflow cpu overflow_status_clr s = do { p \<leftarrow> pcb s cpu;
     let s = upd_pcpu cpu (p\<lparr>reset_mask := overflow_status_clr\<rparr>) s;
     Some (wr cpu IA32_PERF_GLOBAL_OVF_CTRL overflow_status_clr s) }"

definition core2_Check_Overflow :: "ovf_errata \<Rightarrow> gp_errata \<Rightarrow> nat \<Rightarrow> drv \<Rightarrow> (drv \<times> event_mask list) option" where
  "core2_Check_Overflow ce ge cpu s = do {
     (overflow_status, overflow_status_clr) \<leftarrow> read_overflow_status ge cpu s;
     let s = s\<lparr>sample_count := (sample_count s)(cpu := 0)\<rparr>;
     (_, s, masks) \<leftarrow> FOR_EACH_DATA_REG cpu s (core2_Check_Overflow_body ce cpu) (overflow_status, s, []);
     s \<leftarrow> finish_overflow cpu overflow_status_clr s;
     Some (s, masks) }"

definition htoff_status :: "nat \<Rightarrow> event_reg \<Rightarrow> drv \<Rightarrow> u64 \<Rightarrow> (u64 \<times> u32) option option" where
  "htoff_status cpu e s overflow_status =
     (if fixed_reg_get e then Some (Some (overflow_status, ucast (reg_id e) - ucast IA32_FIXED_CTR0 + 0x20))
      else if is_compound_ctr_sub_bit_set e then Some None
      else if is_compound_ctr_bit_set e \<and> \<not> event_based_counts (pcfg s)
      then Some (Some (overflow_status, COMPOUND_CTR_OVF_SHIFT))
      else if is_gp_reg_get e \<and> reg_value e \<noteq> 0 then
        (let index = ucast (reg_id e) - ucast IA32_PMC0 in
         if reg_id e \<ge> IA32_PMC4 \<and> reg_id e \<le> IA32_PMC7 then
           (let value = rd cpu (reg_id e) s in
            if value > 0 \<and> value \<le> 0x100000000
            then do { b \<leftarrow> bit_u64 index; Some (Some (overflow_status OR b, index)) }
            else Some (Some (overflow_status, index)))
         else Some (Some (overflow_status, index)))
      else Some None)"

definition core2_Check_Overflow_Htoff_body :: "nat \<Rightarrow> event_reg
    \<Rightarrow> u64 \<times> drv \<times> event_mask list \<Rightarrow> (u64 \<times> drv \<times> event_mask list) option" where
  "core2_Check_Overflow_Htoff_body cpu e = (\<lambda>(overflow_status, s, masks). do {
     r \<leftarrow> htoff_status cpu e s overflow_status;
     case r of None \<Rightarrow> Some (overflow_status, s, masks)
     | Some (overflow_status, index) \<Rightarrow> do {
         b \<leftarrow> bit_u64 index;
         if overflow_status AND b \<noteq> 0
         then do { (s, masks) \<leftarrow> record_overflow False cpu e (s, masks); Some (overflow_status, s, masks) }
         else Some (overflow_status, s, masks) } })"

definition core2_Check_Overflow_Htoff_Mode :: "gp_errata \<Rightarrow> nat \<Rightarrow> drv \<Rightarrow> (drv \<times> event_mask list) option" where
  "core2_Check_Overflow_Htoff_Mode ge cpu s = do {
     (overflow_status, overflow_status_clr) \<leftarrow> read_overflow_status ge cpu s;
     let s = s\<lparr>sample_count := (sample_count s)(cpu := 0)\<rparr>;
     (_, s, masks) \<leftarrow> FOR_EACH_DATA_REG cpu s (core2_Check_Overflow_Htoff_body cpu) (overflow_status, s, []);
     s \<leftarrow> finish_overflow cpu overflow_status_clr s;
     Some (s, masks) }"

text \<open>
  \<open>corei7_Check_Overflow_Errata\<close>: the loop state is the pair of the status used for sampling and
  the status to clear, plus a flag for the \<open>break\<close>.
\<close>

definition in_window :: "u64 \<Rightarrow> bool" where
  "in_window value = (value > 0 \<and> value \<le> 0x100000000)"

definition corei7_errata_body :: "nat \<Rightarrow> drv \<Rightarrow> event_reg \<Rightarrow> bool \<times> u64 \<times> u64 \<Rightarrow> (bool \<times> u64 \<times> u64) option" where
  "corei7_errata_body cpu s e = (\<lambda>(broke, st, clr).
     if broke \<or> reg_value e = 0 \<or> is_compound_ctr_sub_bit_set e then Some (broke, st, clr)
     else if reg_id e = COMPOUND_PERF_CTR then
       (let value = rd cpu (reg_id e) s in do { b \<leftarrow> bit_u64 COMPOUND_CTR_OVF_SHIFT;
          Some (True, if value = 0 \<or> in_window value then st OR b else st, clr) })
     else if is_gp_reg_get e then
       (let value = rd cpu (reg_id e) s in
        if in_window value
        then do { b \<leftarrow> bit_u64 (ucast (reg_id e) - ucast IA32_PMC0); Some (False, st OR b, clr OR b) }
        else Some (False, st, clr))
     else if fixed_reg_get e then do {
        b \<leftarrow> bit_u64 (ucast (reg_id e) - ucast IA32_FIXED_CTR0 + 0x20);
        if st AND b = 0 then
          (let value = rd cpu (reg_id e) s in
           if reg_id e = IA32_FIXED_CTR2 \<and> \<not> (value > 0 \<and> value \<le> 0x1000000) \<and> clr AND b \<noteq> 0
           then Some (False, st AND NOT b, clr)
           else if in_window value then Some (False, st OR b, clr OR b)
           else Some (False, st, clr))
        else Some (False, st, clr) }
     else Some (False, st, clr))"

definition corei7_Check_Overflow_Errata :: "nat \<Rightarrow> drv \<Rightarrow> u64 \<Rightarrow> (u64 \<times> u64) option" where
  "corei7_Check_Overflow_Errata cpu s overflow_status_clr =
     (if num_events (pcfg s) = 1 then Some (overflow_status_clr, overflow_status_clr)
      else do { (_, st, clr) \<leftarrow> FOR_EACH_DATA_REG cpu s (corei7_errata_body cpu s)
                  (False, overflow_status_clr, overflow_status_clr);
                Some (st, clr) })"

section \<open>Group swapping\<close>

definition core2_Swap_Group :: "errata \<Rightarrow> nat \<Rightarrow> drv \<Rightarrow> drv option" where
  "core2_Swap_Group hw_errata cpu s = do { p \<leftarrow> pcb s cpu;
     let st_index = current_group p * max_gp_events (global_ec s);
     let next_group = current_group p + 1;
     let next_group = (if next_group \<ge> num_groups (global_ec s) then 0 else next_group);
     s \<leftarrow> (if \<not> event_based_counts (pcfg s) then em_save IA32_PMC0 cpu st_index s else Some s);
     s \<leftarrow> set_group cpu next_group s;
     s \<leftarrow> call_errata hw_errata cpu s;
     s \<leftarrow> FOR_EACH_CCCR_GP_REG cpu s (\<lambda>e s. Some (wr cpu (reg_id e) (reg_value e) s)) s;
     s \<leftarrow> (if event_based_counts (pcfg s)
           then FOR_EACH_DATA_REG cpu s (\<lambda>e s. do { p \<leftarrow> pcb s cpu;
                  Some (if ucast (event_id_index e) \<noteq> trigger_event_num p then wr cpu (reg_id e) 0 s else s) }) s
           else do { p \<leftarrow> pcb s cpu;
                  em_load IA32_PMC0 cpu (current_group p * max_gp_events (global_ec s)) s });
     s \<leftarrow> FOR_EACH_ESCR_REG cpu s (\<lambda>e s. Some (wr cpu (reg_id e) (reg_value e) s)) s;
     set_pcpu (\<lambda>p. p\<lparr>trigger_count := em_factor (global_ec s), reset_mask := 0, group_swap := 1\<rparr>) cpu s }"

section \<open>Setting up and tearing down\<close>

text \<open>
  \<open>CPU_STATE_pmu_state(pcpu) = pmu_state + this_cpu * 2\<close>: the sum is NULL only for CPU 0 of a
  NULL array; reading or writing through it needs the array.
\<close>

definition pmu_slot :: "nat \<Rightarrow> drv \<Rightarrow> nat option" where
  "pmu_slot cpu s = (if pmu_state s = None \<and> cpu = 0 then None else Some (cpu * 2))"

definition save_pmu_state :: "nat \<Rightarrow> u64 \<Rightarrow> drv \<Rightarrow> drv option" where
  "save_pmu_state i v s = do { a \<leftarrow> pmu_state s; a \<leftarrow> list_put a i v; Some (s\<lparr>pmu_state := Some a\<rparr>) }"

definition read_pmu_state :: "nat \<Rightarrow> drv \<Rightarrow> u64 option" where
  "read_pmu_state i s = do { a \<leftarrow> pmu_state s; list_at a i }"

text \<open>The search for a group that asks for a work-around; it stops at the first one.\<close>

definition any_group_flag :: "u16 \<Rightarrow> drv \<Rightarrow> bool option" where
  "any_group_flag b s = foldm (\<lambda>i found. if found then Some True else do {
       q \<leftarrow> list_at (PMU_register_data s) i;
       Some (case q of None \<Rightarrow> False | Some pecb \<Rightarrow> ecb_flags pecb AND b \<noteq> 0) })
     [0 ..< unat (num_em_groups (driver_state s))] False"

definition core2_Initialize :: "nat \<Rightarrow> drv \<Rightarrow> drv option" where
  "core2_Initialize cpu s = (case pcb s cpu of None \<Rightarrow> Some s | Some p \<Rightarrow> do {
     let slot = pmu_slot cpu s;
     let s = upd_pcpu cpu (p\<lparr>cs_pmu_state := slot\<rparr>) s;
     case slot of None \<Rightarrow> Some s | Some i \<Rightarrow> do {
       s \<leftarrow> save_pmu_state i (rd cpu IA32_DEBUG_CTRL s) s;
       s \<leftarrow> save_pmu_state (i + 1) (rd cpu IA32_PERF_GLOBAL_CTRL s) s;
       let s = (if ds_area_available (pcfg s) then wr cpu IA32_PEBS_ENABLE 0 s else s);
       if \<not> socket_master p then Some s else do {
         let s = s\<lparr>direct2core_data_saved := False, bl_bypass_data_saved := False\<rparr>;
         s \<leftarrow> (if restore_ha_direct2core s \<noteq> None \<and> restore_qpi_direct2core s \<noteq> None
               then do { f \<leftarrow> any_group_flag ECB_direct2core_bit s;
                 if f then do { s \<leftarrow> core2_Disable_Direct2core cpu s; Some (s\<lparr>direct2core_data_saved := True\<rparr>) }
                 else Some s }
               else Some s);
         if restore_bl_bypass s \<noteq> None
         then do { f \<leftarrow> any_group_flag ECB_bl_bypass_bit s;
           if f then do { s \<leftarrow> core2_Disable_BL_Bypass cpu s; Some (s\<lparr>bl_bypass_data_saved := True\<rparr>) }
           else Some s }
         else Some s } } })"

definition core2_Destroy :: "nat \<Rightarrow> drv \<Rightarrow> drv option" where
  "core2_Destroy cpu s = (case pcb s cpu of None \<Rightarrow> Some s | Some p \<Rightarrow>
     case cs_pmu_state p of None \<Rightarrow> Some s | Some i \<Rightarrow> do {
       v \<leftarrow> read_pmu_state i s;
       let s = wr cpu IA32_DEBUG_CTRL v s;
       v \<leftarrow> read_pmu_state (i + 1) s;
       let s = wr cpu IA32_PERF_GLOBAL_CTRL v s;
       set_pcpu (cs_pmu_state_update (\<lambda>_. None)) cpu s })"

definition core2_Clean_Up :: "nat \<Rightarrow> drv \<Rightarrow> drv option" where
  "core2_Clean_Up cpu s = do {
     s \<leftarrow> FOR_EACH_REG_ENTRY cpu s (\<lambda>e s. Some (if clean_up_get e then wr cpu (reg_id e) 0 s else s)) s;
     p \<leftarrow> pcb s cpu;
     if \<not> socket_master p then Some s else do {
       s \<leftarrow> (case (restore_ha_direct2core s, restore_qpi_direct2core s) of
          (Some ha, Some qpi) \<Rightarrow> if direct2core_data_saved s then do {
             s \<leftarrow> foldm (\<lambda>busno s. Some (if ha_found busno s
                    then PCI_Write_Ulong (ha_addr busno JKTUNC_HA_D2C_OFFSET) (ha cpu busno) s
                    else s)) ha_buses s;
             foldm (\<lambda>db s. Some (if qpi_found db s
                    then PCI_Write_Ulong (qpi_addr db JKTUNC_QPILL_D2C_OFFSET)
                           (qpi cpu (fst db * MAX_BUSNO + snd db)) s
                    else s)) qpi_buses s }
            else Some s
        | _ \<Rightarrow> Some s);
       Some (case restore_bl_bypass s of
          Some r \<Rightarrow> if bl_bypass_data_saved s
                    then SYS_Write_MSR cpu CORE2UNC_DISABLE_BL_BYPASS_MSR (r cpu) s else s
        | None \<Rightarrow> s) } }"

section \<open>Errata, power and counts\<close>

definition mlc_event :: u64 where "mlc_event = 0x4300B5"
definition rat_event :: u64 where "rat_event = 0x4300D2"
definition siu_event :: u64 where "siu_event = 0x4300B1"

definition errata_writes :: "(u16 \<times> u64) list" where
  "errata_writes = [(0x38F, 0), (0x186, mlc_event), (0xC1, 0), (0x187, rat_event), (0xC2, 0),
     (0x188, siu_event), (0xC3, 0), (0x189, siu_event), (0xC4, 0), (0x38F, 0xF), (0x38F, 0),
     (0x186, 0), (0xC1, 0), (0x187, 0), (0xC2, 0), (0x188, 0), (0xC3, 0), (0x189, 0), (0xC4, 0)]"

definition corei7_Errata_Fix :: "nat \<Rightarrow> drv \<Rightarrow> drv option" where
  "corei7_Errata_Fix cpu s =
     (let s = (if pebs_mode (pcfg s) \<noteq> 0 then wr cpu IA32_PEBS_ENABLE 0 s else s)
      in Some (fold (\<lambda>(r, v). wr cpu r v) errata_writes s))"

definition corei7_Errata_Fix_2 :: "nat \<Rightarrow> drv \<Rightarrow> drv option" where
  "corei7_Errata_Fix_2 cpu s = Some (fold (\<lambda>(r, v). wr cpu r v) errata_writes s)"

definition core2_Read_LBRs :: "nat \<Rightarrow> drv \<Rightarrow> u64 list" where
  "core2_Read_LBRs cpu s = map (\<lambda>r. SYS_Read_MSR cpu r s) (lbr_regs s)"

definition corei7_Read_Power :: "nat \<Rightarrow> drv \<Rightarrow> u64 list" where
  "corei7_Read_Power cpu s = map (\<lambda>r. SYS_Read_MSR cpu r s) (pwr_regs s)"

definition core2_Read_Counts :: "nat \<Rightarrow> u32 \<Rightarrow> u64 list \<Rightarrow> drv \<Rightarrow> (u64 list \<times> drv) option" where
  "core2_Read_Counts cpu id_arg data s = do { p \<leftarrow> pcb s cpu;
     data \<leftarrow> list_put data 0 (ucast (current_group p + 1));
     FOR_EACH_DATA_REG cpu s (\<lambda>e (data, s).
       let event_id = ucast (event_id_index e) :: u32 in
       if event_id = id_arg
       then do { data \<leftarrow> list_put data (1 + unat event_id) (NOT (reg_value e - 1) AND max_bits e);
                 Some (data, s) }
       else if is_compound_ctr_sub_bit_set e then Some (data, s)
       else do { data \<leftarrow> list_put data (1 + unat event_id) (rd cpu (reg_id e) s);
                 Some (data, wr cpu (reg_id e) 0 s) }) (data, s) }"

text \<open>The platform information node: the register's value and the DDR frequency index.\<close>

definition corei7_Platform_Info :: "nat \<Rightarrow> (u64 \<times> u32) option \<Rightarrow> drv \<Rightarrow> (u64 \<times> u32) option" where
  "corei7_Platform_Info cpu platform_data s =
     (case platform_data of None \<Rightarrow> None | Some _ \<Rightarrow> Some (SYS_Read_MSR cpu 0xCE s, 0))"

section \<open>Dispatch tables\<close>

record dispatch_node =
  d_init :: "nat \<Rightarrow> drv \<Rightarrow> drv option"
  d_fini :: "nat \<Rightarrow> drv \<Rightarrow> drv option"
  d_write :: "nat \<Rightarrow> drv \<Rightarrow> drv option"
  d_freeze :: "nat \<Rightarrow> drv \<Rightarrow> drv option"
  d_restart :: "nat \<Rightarrow> drv \<Rightarrow> drv option"
  d_read_data :: "nat \<Rightarrow> drv \<Rightarrow> drv option"
  d_check_overflow :: "nat \<Rightarrow> drv \<Rightarrow> (drv \<times> event_mask list) option"
  d_swap_group :: "nat \<Rightarrow> drv \<Rightarrow> drv option"
  d_read_lbrs :: "nat \<Rightarrow> drv \<Rightarrow> u64 list"
  d_cleanup :: "nat \<Rightarrow> drv \<Rightarrow> drv option"
  d_hw_errata :: errata
  d_read_power :: "(nat \<Rightarrow> drv \<Rightarrow> u64 list) option"
  d_check_overflow_errata :: ovf_errata
  d_read_counts :: "nat \<Rightarrow> u32 \<Rightarrow> u64 list \<Rightarrow> drv \<Rightarrow> (u64 list \<times> drv) option"
  d_check_overflow_gp_errata :: gp_errata
  d_platform_info :: "(nat \<Rightarrow> (u64 \<times> u32) option \<Rightarrow> drv \<Rightarrow> (u64 \<times> u32) option) option"

definition core2_dispatch :: dispatch_node where
  "core2_dispatch = \<lparr>d_init = core2_Initialize, d_fini = core2_Destroy, d_write = core2_Write_PMU None,
     d_freeze = core2_Disable_PMU, d_restart = core2_Enable_PMU, d_read_data = core2_Read_PMU_Data,
     d_check_overflow = core2_Check_Overflow (Some core2_Check_Overflow_Errata) None,
     d_swap_group = core2_Swap_Group None, d_read_lbrs = core2_Read_LBRs, d_cleanup = core2_Clean_Up,
     d_hw_errata = None, d_read_power = None, d_check_overflow_errata = Some core2_Check_Overflow_Errata,
     d_read_counts = core2_Read_Counts, d_check_overflow_gp_errata = None, d_platform_info = None\<rparr>"

definition corei7_dispatch :: dispatch_node where
  "corei7_dispatch = \<lparr>d_init = core2_Initialize, d_fini = core2_Destroy,
     d_write = core2_Write_PMU (Some corei7_Errata_Fix), d_freeze = core2_Disable_PMU,
     d_restart = core2_Enable_PMU, d_read_data = core2_Read_PMU_Data,
     d_check_overflow = core2_Check_Overflow None (Some corei7_Check_Overflow_Errata),
     d_swap_group = core2_Swap_Group (Some corei7_Errata_Fix), d_read_lbrs = core2_Read_LBRs,
     d_cleanup = core2_Clean_Up, d_hw_errata = Some corei7_Errata_Fix,
     d_read_power = Some corei7_Read_Power, d_check_overflow_errata = None,
     d_read_counts = core2_Read_Counts, d_check_overflow_gp_errata = Some corei7_Check_Overflow_Errata,
     d_platform_info = Some corei7_Platform_Info\<rparr>"

definition corei7_dispatch_2 :: dispatch_node where
  "corei7_dispatch_2 = corei7_dispatch\<lparr>
     d_write := core2_Write_PMU (Some corei7_Errata_Fix_2), d_restart := corei7_Enable_PMU_2,
     d_swap_group := core2_Swap_Group (Some corei7_Errata_Fix_2), d_hw_errata := Some corei7_Errata_Fix_2\<rparr>"

definition corei7_dispatch_htoff_mode :: dispatch_node where
  "corei7_dispatch_htoff_mode = corei7_dispatch\<lparr>
     d_check_overflow := core2_Check_Overflow_Htoff_Mode (Some corei7_Check_Overflow_Errata)\<rparr>"

definition corei7_dispatch_htoff_mode_2 :: dispatch_node where
  "corei7_dispatch_htoff_mode_2 = corei7_dispatch_2\<lparr>
     d_check_overflow := core2_Check_Overflow_Htoff_Mode (Some corei7_Check_Overflow_Errata)\<rparr>"

end
