(* ===== verification/Instances.thy ===== *)
theory Instances
  imports Machine
begin

text \<open>
  Concrete blocks and machines on which the properties are instantiated: two event groups of
  two general-purpose counters each, on one CPU.
\<close>

definition mk_reg :: "u16 \<Rightarrow> u16 \<Rightarrow> u64 \<Rightarrow> u8 \<Rightarrow> event_reg" where
  "mk_reg r fl v i = \<lparr>reg_type = 0, event_id_index = i, event_id_index_local = i,
     emon_event_id_index_local = 0, event_reg_id = msr_reg_id r, desc_id = 0, er_flags = fl,
     reg_value = v, max_bits = 0xFFFFFFFFFF, scheduled = 0, bus_no = 0, dev_no = 0, func_no = 0\<rparr>"

definition mk_pcidev :: pci_device_entry where
  "mk_pcidev = \<lparr>pd_bus_no = 0, pd_dev_no = 0, pd_func_no = 0, bar_offset = 0, bit_offset = 0,
     pd_size = 0, bar_address = 0, enable_offset = 0, enabled = 0, base_offset_for_mmio = 0,
     operation = 0, bar_name = 0, prog_type = 0, config_type = 0, pd_value = 0, pd_mask = 0,
     virtual_address = 0, port_id = 0, op_code = 0\<rparr>"

text \<open>
  Entries 0 to 3 are the global control, fixed control, PEBS enable and debug control
  registers; then \<open>n\<close> event selections, one counter per selection.
\<close>

definition mk_hdr :: "u64 \<Rightarrow> event_reg list" where
  "mk_hdr ctl = [mk_reg 0x38F 0x40 ctl 0, mk_reg 0x38D 0x40 0xB0 0, mk_reg 0x3F1 0 0 0,
     mk_reg 0x1D9 0x40 1 0]"

definition mk_ecb :: "event_reg list \<Rightarrow> event_reg list \<Rightarrow> u64 \<Rightarrow> ecb" where
  "mk_ecb sel ctr ctl = \<lparr>num_entries = of_nat (4 + length sel + length ctr), group_id = 0,
     ecb_num_events = of_nat (length ctr), cccr_start = 0, cccr_pop = of_nat (4 + length sel),
     escr_start = 1, escr_pop = 1, data_start = of_nat (4 + length sel),
     data_pop = of_nat (length ctr), ecb_flags = 0, pmu_timer_interval = 0,
     pcidev_entry_node = mk_pcidev, num_pci_devices = 0, pcidev_list_offset = 0,
     pcidev_entry_list = [],
     entries = mk_hdr ctl @ sel @ ctr\<rparr>"

definition demo_cpu :: cpu_state where
  "demo_cpu = cpu0\<lparr>em_tables := [0, 0, 0, 0], apic_linear_addr := 0x1000, socket_master := True\<rparr>"

text \<open>Two groups whose counters start at \<open>base\<close>.\<close>

definition demo :: "u16 \<Rightarrow> drv" where
  "demo base = drv0\<lparr>pcb := [0 \<mapsto> demo_cpu],
     PMU_register_data :=
       [Some (mk_ecb [mk_reg 0x186 0x60 0x4300C0 0, mk_reg 0x187 0x60 0x43003C 0]
                     [mk_reg base 0x20 0xFF00 0, mk_reg (base + 1) 0x20 0xFF01 1] 3),
        Some (mk_ecb [mk_reg 0x186 0x60 0x43412E 0] [mk_reg base 0x20 0xEE00 2] 1)],
     driver_state := (driver_state drv0)\<lparr>num_em_groups := 2, current_phase := RUNNING\<rparr>,
     global_ec := (global_ec drv0)\<lparr>num_groups := 2, max_gp_events := 2, em_mode := EM_TIMER_BASED,
       em_factor := 100\<rparr>,
     pmu_state := Some [0, 0]\<rparr>"

lemmas demo_defs = demo_def demo_cpu_def drv0_def cpu0_def

text \<open>The parts of such a block, without evaluating it.\<close>

lemma mk_ecb_parts [simp]:
  assumes "length sel + length ctr < 1000"
  shows "ecb_wf (mk_ecb sel ctr ctl)"
    and "data_regs (mk_ecb sel ctr ctl) = filter (\<lambda>e. reg_id e \<noteq> 0) ctr"
    and "data_gp_regs (mk_ecb sel ctr ctl) = filter is_gp_reg_get ctr"
    and "cccr_regs (mk_ecb sel ctr ctl) = filter (\<lambda>e. reg_id e \<noteq> 0) (mk_hdr ctl @ sel)"
    and "escr_regs (mk_ecb sel ctr ctl) = [mk_reg 0x38D 0x40 0xB0 0]"
    and "all_regs (mk_ecb sel ctr ctl) = filter (\<lambda>e. reg_id e \<noteq> 0) (mk_hdr ctl @ sel @ ctr)"
proof -
  have u: "unat (of_nat n :: u32) = n" if "n < 2000" for n
    by (rule unat_of_nat_u32) (use that in simp)
  have u1: "unat (of_nat (4 + length sel) :: u32) = 4 + length sel"
    "unat (of_nat (length ctr) :: u32) = length ctr"
    "unat (of_nat (4 + length sel + length ctr) :: u32) = 4 + length sel + length ctr"
    by (rule u, use assms in simp)+
  have h: "length (mk_hdr ctl) = 4" by (simp add: mk_hdr_def)
  note d = mk_ecb_def ecb_part_def part_ok_def h u1 ecb_wf_def
  show "ecb_wf (mk_ecb sel ctr ctl)" using assms by (simp add: d del: of_nat_add of_nat_numeral)
  show "data_regs (mk_ecb sel ctr ctl) = filter (\<lambda>e. reg_id e \<noteq> 0) ctr"
    by (simp add: regs_defs d del: of_nat_add of_nat_numeral)
  show "data_gp_regs (mk_ecb sel ctr ctl) = filter is_gp_reg_get ctr"
    by (simp add: regs_defs d del: of_nat_add of_nat_numeral)
  show "cccr_regs (mk_ecb sel ctr ctl) = filter (\<lambda>e. reg_id e \<noteq> 0) (mk_hdr ctl @ sel)"
    by (simp add: regs_defs d del: of_nat_add of_nat_numeral filter_append)
  show "escr_regs (mk_ecb sel ctr ctl) = [mk_reg 0x38D 0x40 0xB0 0]"
    by (simp add: regs_defs d mk_hdr_def mk_reg_def)
  show "all_regs (mk_ecb sel ctr ctl) = filter (\<lambda>e. reg_id e \<noteq> 0) (mk_hdr ctl @ sel @ ctr)"
    by (simp add: regs_defs d del: of_nat_add of_nat_numeral filter_append)
qed

lemma mk_reg_simps [simp]:
  "reg_id (mk_reg r fl v i) = r" "reg_value (mk_reg r fl v i) = v" "er_flags (mk_reg r fl v i) = fl"
  "event_id_index (mk_reg r fl v i) = i" "max_bits (mk_reg r fl v i) = 0xFFFFFFFFFF"
  by (simp_all add: mk_reg_def reg_id_msr)

end
