(* ===== verification/Core2_Correct.thy ===== *)
theory Core2_Correct
  imports Core2 Instances
begin

text \<open>
  Correctness of the core2.c routines: event multiplexing as an instance of the rotation
  contract, the initial programming, freezing and restarting, saving and restoring the PMU
  state and the PCI work-arounds, and overflow detection.
\<close>

section \<open>Errata fixes as the group swap sees them\<close>

text \<open>What a swap needs from \<open>hw_errata\<close>: it returns, and writes MSRs of its CPU only.\<close>

definition msr_only :: "nat \<Rightarrow> drv \<Rightarrow> drv \<Rightarrow> bool" where
  "msr_only cpu s t = (pcb t = pcb s \<and> PMU_register_data t = PMU_register_data s \<and>
     global_ec t = global_ec s \<and> pcfg t = pcfg s \<and> driver_state t = driver_state s \<and>
     pmu_state t = pmu_state s \<and> pci_cfg t = pci_cfg s \<and>
     (\<forall>c r. c \<noteq> cpu \<longrightarrow> SYS_Read_MSR c r t = SYS_Read_MSR c r s))"

lemma msr_only_refl [simp]: "msr_only cpu s s"
  by (simp add: msr_only_def)

lemma msr_only_trans: "msr_only cpu s t \<Longrightarrow> msr_only cpu t u \<Longrightarrow> msr_only cpu s u"
  by (simp add: msr_only_def)

lemma msr_only_wr [simp]: "msr_only cpu s (SYS_Write_MSR cpu r v s)"
  by (simp add: msr_only_def)

lemma msr_only_wr_regs [simp]: "msr_only cpu s (wr_regs cpu v es s)"
  by (simp add: msr_only_def)

lemma msr_only_fold [simp]: "msr_only cpu s (fold (\<lambda>(r, v). wr cpu r v) rvs s)"
  by (induction rvs arbitrary: s) (auto intro: msr_only_trans [OF msr_only_wr])

definition errata_ok :: "errata \<Rightarrow> bool" where
  "errata_ok he = (he = None \<or> he = Some corei7_Errata_Fix \<or> he = Some corei7_Errata_Fix_2)"

lemma call_errata_ok:
  assumes "errata_ok he"
  shows "\<exists>t. call_errata he cpu s = Some t \<and> msr_only cpu s t"
  using assms
  by (auto simp: errata_ok_def call_errata_def corei7_Errata_Fix_def corei7_Errata_Fix_2_def Let_def
      intro: msr_only_trans [OF msr_only_wr msr_only_fold])

lemma msr_only_cur_ecb: "msr_only cpu s t \<Longrightarrow> cur_ecb c t = cur_ecb c s"
  by (simp add: msr_only_def cur_ecb_def)

section \<open>The swap as a rotation\<close>

text \<open>
  The invariant: the multiplexing state is well formed, the driver is not in event-based
  counting, and no group has an event-selection register in the counter window, so that the
  writes after the reload do not disturb the counters.
\<close>

definition escr_clear :: "u16 \<Rightarrow> u32 \<Rightarrow> ecb option \<Rightarrow> bool" where
  "escr_clear base mx q = (case q of None \<Rightarrow> True | Some p \<Rightarrow>
     \<forall>e \<in> set (escr_regs p). \<not> (base \<le> reg_id e \<and> unat (reg_id e) < unat base + unat mx))"

definition rot_ok :: "u16 \<Rightarrow> nat \<Rightarrow> drv \<Rightarrow> bool" where
  "rot_ok base cpu s = (em_ok base cpu s \<and> \<not> event_based_counts (pcfg s) \<and>
     list_all (escr_clear base (max_gp_events (global_ec s))) (PMU_register_data s))"

definition rot_cur :: "nat \<Rightarrow> drv \<Rightarrow> nat" where
  "rot_cur cpu s = (case pcb s cpu of None \<Rightarrow> 0 | Some p \<Rightarrow> unat (current_group p))"

definition rot_cnt :: "drv \<Rightarrow> nat" where
  "rot_cnt s = unat (num_groups (global_ec s))"

text \<open>The counters of a group, and their saved values in its row of the table.\<close>

definition group_gp :: "nat \<Rightarrow> drv \<Rightarrow> event_reg list" where
  "group_gp g s = (case PMU_register_data s ! g of None \<Rightarrow> [] | Some q \<Rightarrow> data_gp_regs q)"

definition rot_live :: "nat \<Rightarrow> drv \<Rightarrow> u64 list" where
  "rot_live cpu s = map (\<lambda>e. rd cpu (reg_id e) s) (group_gp (rot_cur cpu s) s)"

definition rot_row :: "u16 \<Rightarrow> nat \<Rightarrow> nat \<Rightarrow> drv \<Rightarrow> u64 list" where
  "rot_row base cpu g s = (case pcb s cpu of None \<Rightarrow> [] | Some p \<Rightarrow>
     map (\<lambda>e. em_tables p ! em_index base (of_nat g * max_gp_events (global_ec s)) e) (group_gp g s))"

lemma rot_cur_eq: "pcb s cpu = Some p \<Longrightarrow> rot_cur cpu s = unat (current_group p)"
  by (simp add: rot_cur_def)

lemma group_gp_cur:
  assumes "pcb s cpu = Some p" "cur_ecb cpu s = Some q"
  shows "group_gp (unat (current_group p)) s = data_gp_regs q"
  using assms by (auto simp: cur_ecb_def group_gp_def list_at_def split: if_splits)

lemma em_ok_upd:
  assumes "em_ok base cpu s" "pcb s cpu = Some p" "length (em_tables p') = length (em_tables p)"
    "unat (current_group p') < unat (num_groups (global_ec s))"
    "pcb t = (pcb s)(cpu \<mapsto> p')" "PMU_register_data t = PMU_register_data s" "global_ec t = global_ec s"
  shows "em_ok base cpu t"
  using assms by (simp add: em_ok_def)

lemma em_ok_group:
  assumes "em_ok base cpu s" "g < unat (num_groups (global_ec s))"
  obtains q where "PMU_register_data s ! g = Some q" "ecb_wf q" "gp_window base (max_gp_events (global_ec s)) q"
    "group_gp g s = data_gp_regs q" "g < length (PMU_register_data s)"
proof -
  from assms have l: "g < length (PMU_register_data s)"
    and ok: "group_ok base (max_gp_events (global_ec s)) (PMU_register_data s ! g)"
    by (auto simp: em_ok_def list_all_length split: option.splits)
  then obtain q where "PMU_register_data s ! g = Some q" "ecb_wf q"
    "gp_window base (max_gp_events (global_ec s)) q" by (auto simp: group_ok_def split: option.splits)
  with l show ?thesis by (intro that[of q]) (auto simp: group_gp_def)
qed

text \<open>The row of another group does not meet the cells that saving the current group writes.\<close>

lemma em_index_rows_disjoint:
  assumes "em_ok base cpu s" "g < rot_cnt s" "h < rot_cnt s" "g \<noteq> h"
    "e \<in> set (group_gp g s)" "e' \<in> set (group_gp h s)"
  shows "em_index base (of_nat g * max_gp_events (global_ec s)) e \<noteq>
         em_index base (of_nat h * max_gp_events (global_ec s)) e'"
proof
  let ?n = "unat (num_groups (global_ec s))" and ?mx = "max_gp_events (global_ec s)"
  assume eq: "em_index base (of_nat g * ?mx) e = em_index base (of_nat h * ?mx) e'"
  from assms(2,3) have gh: "g < ?n" "h < ?n" by (simp_all add: rot_cnt_def)
  have small: "unat (of_nat k :: u32) = k" if "k < ?n" for k
    by (rule unat_of_nat_u32 [OF less_trans [OF that unat_lt_u32]])
  obtain q where "gp_window base ?mx q" "group_gp g s = data_gp_regs q"
    by (rule em_ok_group[OF assms(1) gh(1)])
  with assms(5) have e: "base \<le> reg_id e" "unat (reg_id e) < unat base + unat ?mx"
    by (auto simp: gp_window_def)
  obtain q' where "gp_window base ?mx q'" "group_gp h s = data_gp_regs q'"
    by (rule em_ok_group[OF assms(1) gh(2)])
  with assms(6) have e': "base \<le> reg_id e'" "unat (reg_id e') < unat base + unat ?mx"
    by (auto simp: gp_window_def)
  have lim: "?n * unat ?mx < 2 ^ 32" using assms(1) by (auto simp: em_ok_def split: option.splits)
  have "em_index base (of_nat g * ?mx) e div unat ?mx = unat (of_nat g :: u32)"
    by (rule em_index_row(2)[OF e _ lim]) (use small gh in simp)
  moreover have "em_index base (of_nat h * ?mx) e' div unat ?mx = unat (of_nat h :: u32)"
    by (rule em_index_row(2)[OF e' _ lim]) (use small gh in simp)
  ultimately show False using eq small gh assms(4) by simp
qed

lemma next_group_eq:
  fixes g n :: u32
  assumes "unat g < unat n"
  shows "unat (if g + 1 \<ge> n then 0 else g + 1) = (if unat g + 1 < unat n then unat g + 1 else 0)"
proof -
  have "unat (g + 1) = unat g + 1" using assms by (rule unat_plus1_lt)
  then show ?thesis by (simp add: word_le_nat_alt not_less)
qed

text \<open>
  The core of all three swap routines: from a state where the current group's counters were
  saved into the table \<open>T\<close> and the group was changed, loading the new group's row and then
  doing MSR writes outside the counters is a rotation step.
\<close>

definition rotated :: "u16 \<Rightarrow> nat \<Rightarrow> drv \<Rightarrow> drv \<Rightarrow> bool" where
  "rotated base cpu s t = (rot_ok base cpu t \<and> rot_cnt t = rot_cnt s \<and>
     rot_cur cpu t = (if rot_cur cpu s + 1 < rot_cnt s then rot_cur cpu s + 1 else 0) \<and>
     rot_row base cpu (rot_cur cpu s) t = rot_live cpu s \<and>
     (\<forall>g. g \<noteq> rot_cur cpu s \<longrightarrow> g < rot_cnt s \<longrightarrow> rot_row base cpu g t = rot_row base cpu g s) \<and>
     rot_live cpu t = rot_row base cpu (rot_cur cpu t) t)"

lemma rotation_step:
  assumes ok: "rot_ok base cpu s" and p: "pcb s cpu = Some p" and q: "cur_ecb cpu s = Some q"
    and ng: "ng = (if current_group p + 1 \<ge> num_groups (global_ec s) then 0 else current_group p + 1)"
    and T: "length T = length (em_tables p)"
      "\<forall>e \<in> set (data_gp_regs q). T ! em_index base (current_group p * max_gp_events (global_ec s)) e = rd cpu (reg_id e) s"
      "\<forall>i. i \<notin> em_index base (current_group p * max_gp_events (global_ec s)) ` set (data_gp_regs q) \<longrightarrow> T ! i = em_tables p ! i"
    and q': "PMU_register_data s ! unat ng = Some q'"
    and live: "\<forall>e \<in> set (data_gp_regs q'). rd cpu (reg_id e) t = T ! em_index base (ng * max_gp_events (global_ec s)) e"
    and t: "pcb t = (pcb s)(cpu \<mapsto> p')" "em_tables p' = T" "current_group p' = ng"
      "PMU_register_data t = PMU_register_data s" "global_ec t = global_ec s" "pcfg t = pcfg s"
  shows "rotated base cpu s t"
proof -
  let ?n = "num_groups (global_ec s)" and ?mx = "max_gp_events (global_ec s)"
  from ok have em: "em_ok base cpu s" by (simp add: rot_ok_def)
  from em p have cur: "unat (current_group p) < unat ?n" by (auto simp: em_ok_def)
  have ngu: "unat ng = (if unat (current_group p) + 1 < unat ?n then unat (current_group p) + 1 else 0)"
    unfolding ng by (rule next_group_eq[OF cur])
  then have ngn: "unat ng < unat ?n" using cur by (auto split: if_splits)
  have gpc: "group_gp g t = group_gp g s" for g using t(4) by (simp add: group_gp_def)
  have rc: "rot_cur cpu s = unat (current_group p)" "rot_cur cpu t = unat ng"
    using p t by (simp_all add: rot_cur_def)
  have "em_ok base cpu t"
    by (rule em_ok_upd[OF em p, of p']) (use T(1) t ngn in simp_all)
  then have ok': "rot_ok base cpu t" using ok t by (simp add: rot_ok_def)
  have of_cur: "(of_nat (unat (current_group p)) :: u32) = current_group p" "(of_nat (unat ng) :: u32) = ng"
    by simp_all
  have row_cur: "rot_row base cpu (rot_cur cpu s) t = rot_live cpu s"
    using T(2) group_gp_cur[OF p q] by (simp add: rot_row_def rot_live_def rc t gpc of_cur)
  have rows: "rot_row base cpu g t = rot_row base cpu g s" if "g \<noteq> rot_cur cpu s" "g < rot_cnt s" for g
  proof -
    have "T ! em_index base (of_nat g * ?mx) e = em_tables p ! em_index base (of_nat g * ?mx) e"
      if e: "e \<in> set (group_gp g s)" for e
    proof -
      have "em_index base (of_nat g * ?mx) e \<notin> em_index base (current_group p * ?mx) ` set (data_gp_regs q)"
      proof
        assume "em_index base (of_nat g * ?mx) e \<in> em_index base (current_group p * ?mx) ` set (data_gp_regs q)"
        then obtain e' where e': "e' \<in> set (group_gp (unat (current_group p)) s)"
          "em_index base (of_nat g * ?mx) e = em_index base (of_nat (unat (current_group p)) * ?mx) e'"
          using group_gp_cur[OF p q] by auto
        then show False
          using em_index_rows_disjoint[OF em \<open>g < rot_cnt s\<close> _ _ e e'(1)] \<open>g \<noteq> rot_cur cpu s\<close> rc cur
          by (simp add: rot_cnt_def)
      qed
      with T(3) show ?thesis by blast
    qed
    then show ?thesis using p t by (simp add: rot_row_def gpc)
  qed
  have "group_gp (unat ng) s = data_gp_regs q'" using q' by (simp add: group_gp_def)
  then have lv: "rot_live cpu t = rot_row base cpu (rot_cur cpu t) t"
    using live by (simp add: rot_live_def rot_row_def rc t gpc of_cur)
  show ?thesis
    unfolding rotated_def using ok' row_cur rows lv ngu rc t by (simp add: rot_cnt_def)
qed

lemma escr_clearD:
  assumes "rot_ok base cpu s" "g < length (PMU_register_data s)" "PMU_register_data s ! g = Some q"
    "gp_window base (max_gp_events (global_ec s)) q" "e \<in> set (data_gp_regs q)"
  shows "reg_id e \<notin> reg_id ` set (escr_regs q)"
proof
  assume "reg_id e \<in> reg_id ` set (escr_regs q)"
  then obtain e' where e': "e' \<in> set (escr_regs q)" "reg_id e = reg_id e'" by auto
  from assms(1-3) have "escr_clear base (max_gp_events (global_ec s)) (Some q)"
    by (auto simp: rot_ok_def list_all_length)
  with e' assms(4,5) show False by (auto simp: escr_clear_def gp_window_def)
qed

text \<open>
  The swap routines of core2.c and silvermont.c are the same code up to the first counter of
  the window; \<open>swap_with\<close> is that code with the first counter as an argument.
\<close>

definition swap_with :: "u16 \<Rightarrow> errata \<Rightarrow> nat \<Rightarrow> drv \<Rightarrow> drv option" where
  "swap_with base hw_errata cpu s = do { p \<leftarrow> pcb s cpu;
     let st_index = current_group p * max_gp_events (global_ec s);
     let next_group = current_group p + 1;
     let next_group = (if next_group \<ge> num_groups (global_ec s) then 0 else next_group);
     s \<leftarrow> (if \<not> event_based_counts (pcfg s) then em_save base cpu st_index s else Some s);
     s \<leftarrow> set_group cpu next_group s;
     s \<leftarrow> call_errata hw_errata cpu s;
     s \<leftarrow> FOR_EACH_CCCR_GP_REG cpu s (\<lambda>e s. Some (wr cpu (reg_id e) (reg_value e) s)) s;
     s \<leftarrow> (if event_based_counts (pcfg s)
           then FOR_EACH_DATA_REG cpu s (\<lambda>e s. do { p \<leftarrow> pcb s cpu;
                  Some (if ucast (event_id_index e) \<noteq> trigger_event_num p then wr cpu (reg_id e) 0 s else s) }) s
           else do { p \<leftarrow> pcb s cpu;
                  em_load base cpu (current_group p * max_gp_events (global_ec s)) s });
     s \<leftarrow> FOR_EACH_ESCR_REG cpu s (\<lambda>e s. Some (wr cpu (reg_id e) (reg_value e) s)) s;
     set_pcpu (\<lambda>p. p\<lparr>trigger_count := em_factor (global_ec s), reset_mask := 0, group_swap := 1\<rparr>) cpu s }"

lemma core2_swap_with: "core2_Swap_Group he cpu s = swap_with IA32_PMC0 he cpu s"
  by (simp only: core2_Swap_Group_def swap_with_def)

lemma swap_with_rotates:
  assumes ok: "rot_ok base cpu s" and he: "errata_ok he"
  shows "\<exists>t. swap_with base he cpu s = Some t \<and> rotated base cpu s t"
proof -
  let ?mx = "max_gp_events (global_ec s)" and ?n = "num_groups (global_ec s)"
  from ok have em: "em_ok base cpu s" and ebc: "\<not> event_based_counts (pcfg s)" by (simp_all add: rot_ok_def)
  from em obtain p q where p: "pcb s cpu = Some p" and q: "cur_ecb cpu s = Some q"
    and cur: "unat (current_group p) < unat ?n" by (auto elim: em_okE)
  define ng where "ng = (if current_group p + 1 \<ge> ?n then 0 else current_group p + 1)"
  from em_save_ok[OF em p q] obtain T where
    sv: "em_save base cpu (current_group p * ?mx) s = Some (upd_pcpu cpu (p\<lparr>em_tables := T\<rparr>) s)" and
    T: "length T = length (em_tables p)"
      "\<forall>e \<in> set (data_gp_regs q). T ! em_index base (current_group p * ?mx) e = rd cpu (reg_id e) s"
      "\<forall>i. i \<notin> em_index base (current_group p * ?mx) ` set (data_gp_regs q) \<longrightarrow> T ! i = em_tables p ! i"
    by blast
  have ngn: "unat ng < unat ?n" using next_group_eq[OF cur] cur unfolding ng_def by (auto split: if_splits)
  from em_ok_group[OF em ngn] obtain q' where q': "PMU_register_data s ! unat ng = Some q'" "ecb_wf q'"
    "gp_window base ?mx q'" "unat ng < length (PMU_register_data s)" by metis
  let ?p2 = "p\<lparr>em_tables := T, current_group := ng\<rparr>"
  let ?s2 = "upd_pcpu cpu ?p2 s"
  have sg: "set_group cpu ng (upd_pcpu cpu (p\<lparr>em_tables := T\<rparr>) s) = Some ?s2"
    by (simp add: set_group_def)
  from call_errata_ok[OF he] obtain s3 where s3: "call_errata he cpu ?s2 = Some s3" "msr_only cpu ?s2 s3" by blast
  let ?s4 = "wr_regs cpu reg_value (cccr_gp_regs q') s3"
  have p3: "pcb s3 cpu = Some ?p2" and ec3: "global_ec s3 = global_ec s" "pcfg s3 = pcfg s"
    "PMU_register_data s3 = PMU_register_data s" using s3(2) by (simp_all add: msr_only_def)
  have ecb3: "cur_ecb cpu s3 = Some q'" using q' p3 ec3 by (simp add: cur_ecb_def)
  have em4: "em_ok base cpu ?s4"
    by (rule em_ok_upd[OF em p, of ?p2]) (use T(1) ngn s3(2) in \<open>simp_all add: msr_only_def\<close>)
  have ld: "em_load base cpu (ng * ?mx) ?s4 =
      Some (wr_regs cpu (\<lambda>e. T ! em_index base (ng * ?mx) e) (data_gp_regs q') ?s4)"
    and lv: "\<forall>e \<in> set (data_gp_regs q').
      rd cpu (reg_id e) (wr_regs cpu (\<lambda>e. T ! em_index base (ng * ?mx) e) (data_gp_regs q') ?s4) =
      T ! em_index base (ng * ?mx) e"
    using em_load_ok[OF em4, of ?p2 q'] p3 ecb3 ec3 by simp_all
  let ?s5 = "wr_regs cpu (\<lambda>e. T ! em_index base (ng * ?mx) e) (data_gp_regs q') ?s4"
  let ?s6 = "wr_regs cpu reg_value (escr_regs q') ?s5"
  let ?p6 = "?p2\<lparr>trigger_count := em_factor (global_ec s), reset_mask := 0, group_swap := 1\<rparr>"
  let ?t = "upd_pcpu cpu ?p6 ?s6"
  have "swap_with base he cpu s = Some ?t"
    unfolding swap_with_def
    using p sv sg s3(1) ebc ecb3 q'(2) ec3 ld p3
    by (simp add: ng_def [symmetric] FOR_EACH_eq [where p = q'] foldm_wr set_pcpu_def Let_def del: wr_regs_simps)
  moreover have "rotated base cpu s ?t"
  proof (rule rotation_step[OF ok p q ng_def T q'(1)])
    show "\<forall>e \<in> set (data_gp_regs q'). rd cpu (reg_id e) ?t = T ! em_index base (ng * ?mx) e"
      using lv escr_clearD[OF ok q'(4,1,3)] by (simp add: read_wr_regs_notin)
    show "pcb ?t = (pcb s)(cpu \<mapsto> ?p6)" using s3(2) by (simp add: msr_only_def)
    show "em_tables ?p6 = T" by simp
    show "current_group ?p6 = ng" by simp
  qed (use ec3 in simp_all)
  ultimately show ?thesis by blast
qed

lemmas core2_swap_rotates = swap_with_rotates [where base = IA32_PMC0, folded core2_swap_with]

interpretation c2rot: group_rotation "\<lambda>s. rot_ok IA32_PMC0 cpu s \<and> errata_ok he" "rot_cur cpu" rot_cnt
  "\<lambda>g s. rot_row IA32_PMC0 cpu g s" "rot_live cpu" "core2_Swap_Group he cpu" for cpu he
proof (unfold_locales, goal_cases)
  case (1 s)
  then show ?case by (auto simp: rot_ok_def rot_cur_def rot_cnt_def em_ok_def split: option.splits)
next
  case (2 s)
  then show ?case using core2_swap_rotates[of cpu s he] unfolding rotated_def by blast
qed

text \<open>
  C4: event multiplexing loses nothing. On a CPU whose multiplexing state is well formed, with
  any of the errata fixes of the dispatch tables, as many group swaps as there are groups
  return without a fault to the group they started from, and the general-purpose counters of
  that group hold exactly the counts they had before, although every other group was loaded
  into the same registers in between.
\<close>

theorem core2_full_rotation:
  assumes "rot_ok IA32_PMC0 cpu s" "errata_ok he"
  shows "\<exists>t. iterm (core2_Swap_Group he cpu) (unat (num_groups (global_ec s))) s = Some t \<and>
    rot_ok IA32_PMC0 cpu t \<and> rot_cur cpu t = rot_cur cpu s \<and> rot_live cpu t = rot_live cpu s"
  using c2rot.full_rotation[of cpu s he] assms by (auto simp: rot_cnt_def)

lemma demo_rot_ok: "rot_ok IA32_PMC0 0 (demo IA32_PMC0)"
  by (simp add: rot_ok_def em_ok_def demo_defs group_ok_def gp_window_def escr_clear_def flag_defs
      msr_defs word_le_nat_alt)

theorem core2_full_rotation_witness:
  "\<exists>t. iterm (core2_Swap_Group (Some corei7_Errata_Fix) 0) 2 (demo IA32_PMC0) = Some t \<and>
    rot_live 0 t = rot_live 0 (demo IA32_PMC0)"
  using core2_full_rotation[of 0 "demo IA32_PMC0" "Some corei7_Errata_Fix"] demo_rot_ok
  by (auto simp: errata_ok_def demo_def)

text \<open>
  Round robin without a fault. Any number of swaps returns; afterwards the current group is
  the first one advanced by that number modulo the number of groups, hence always a valid index
  into the register data, and every counter save stayed inside the CPU's table.
\<close>

theorem core2_round_robin:
  assumes "rot_ok IA32_PMC0 cpu s" "errata_ok he"
  shows "\<exists>t. iterm (core2_Swap_Group he cpu) k s = Some t \<and> em_ok IA32_PMC0 cpu t \<and>
    rot_cur cpu t = (rot_cur cpu s + k) mod unat (num_groups (global_ec s))"
  using c2rot.swaps_total[of cpu s he k] assms by (auto simp: rot_cnt_def rot_ok_def)

theorem core2_round_robin_witness:
  "\<exists>t. iterm (core2_Swap_Group None 0) 3 (demo IA32_PMC0) = Some t \<and> rot_cur 0 t = 1"
proof -
  have "rot_cur 0 (demo IA32_PMC0) = 0" "unat (num_groups (global_ec (demo IA32_PMC0))) = 2"
    by (simp_all add: rot_cur_def demo_def demo_cpu_def cpu0_def)
  then show ?thesis
    using core2_round_robin[of 0 "demo IA32_PMC0" None 3] demo_rot_ok by (auto simp: errata_ok_def)
qed

section \<open>Initial programming\<close>

lemma em_init_run:
  assumes "em_ok base cpu s" "pcb s cpu = Some p" "current_group p = 0"
  shows "\<exists>T. (if em_mode (global_ec s) \<noteq> EM_DISABLED then em_init_tables base cpu s else Some s) =
      Some (upd_pcpu cpu (p\<lparr>em_tables := T, current_group := 0\<rparr>) s) \<and>
    (em_mode (global_ec s) \<noteq> EM_DISABLED \<longrightarrow> (\<forall>j < rot_cnt s. rows_init base j T s))"
proof (cases "em_mode (global_ec s) = EM_DISABLED")
  case True
  have "p\<lparr>em_tables := em_tables p, current_group := 0\<rparr> = p" using assms(3) by (cases p) simp
  then show ?thesis using True assms(2) by (intro exI[of _ "em_tables p"]) (simp add: upd_pcpu_same)
next
  case False
  then show ?thesis using em_init_ok[OF assms(1,2)] by (auto simp: rot_cnt_def)
qed

lemma rows_init_row:
  assumes "rows_init base g T s" "gp_distinct g s" "pcb t cpu = Some p" "em_tables p = T"
    "PMU_register_data t = PMU_register_data s" "global_ec t = global_ec s"
  shows "rot_row base cpu g t = map reg_value (group_gp g s)"
  using assms by (auto simp: rot_row_def group_gp_def rows_init_def gp_distinct_def split: option.splits)

text \<open>
  C14: programming does not start the counters. From the first group of a well-formed
  configuration \<open>Write_PMU\<close> returns with that group current again; if the group programs the
  global control, the compound control or (in a PEBS run) the PEBS enable register, the register
  is 0 afterwards, whatever value the entry carries; and with multiplexing on, the row of every
  group whose counters are distinct holds the group's programmed values.
\<close>

theorem core2_Write_PMU_stopped:
  assumes "em_ok IA32_PMC0 cpu s" "errata_ok he" "rot_cur cpu s = 0" "cur_ecb cpu s = Some q"
  shows "\<exists>t. core2_Write_PMU he cpu s = Some t \<and> cur_ecb cpu t = Some q \<and> rot_cur cpu t = 0 \<and>
    (\<forall>r \<in> {IA32_PERF_GLOBAL_CTRL, COMPOUND_CTR_CTL}.
       r \<in> reg_id ` set (all_regs q) \<longrightarrow> rd cpu r t = 0) \<and>
    (pebs_mode (pcfg s) \<noteq> 0 \<and> IA32_PEBS_ENABLE \<in> reg_id ` set (all_regs q) \<longrightarrow>
       rd cpu IA32_PEBS_ENABLE t = 0) \<and>
    (em_mode (global_ec s) \<noteq> EM_DISABLED \<longrightarrow> (\<forall>g < rot_cnt s. gp_distinct g s \<longrightarrow>
       rot_row IA32_PMC0 cpu g t = map reg_value (group_gp g s)))"
proof -
  let ?B = IA32_PMC0
  from assms(1) obtain p where p: "pcb s cpu = Some p" by (auto elim: em_okE)
  have g0: "current_group p = 0" using assms(3) p by (simp add: rot_cur_def unat_eq_0)
  have wf: "ecb_wf q" using assms(1,4) by (auto elim: em_okE)
  from em_init_run[OF assms(1) p g0] obtain T where
    T: "(if em_mode (global_ec s) \<noteq> EM_DISABLED then em_init_tables ?B cpu s else Some s) =
        Some (upd_pcpu cpu (p\<lparr>em_tables := T, current_group := 0\<rparr>) s)"
    "\<And>j. em_mode (global_ec s) \<noteq> EM_DISABLED \<Longrightarrow> j < rot_cnt s \<Longrightarrow> rows_init ?B j T s" by blast
  let ?s1 = "upd_pcpu cpu (p\<lparr>em_tables := T, current_group := 0\<rparr>) s"
  from call_errata_ok[OF assms(2)] obtain s2 where
    s2: "call_errata he cpu ?s1 = Some s2" "msr_only cpu ?s1 s2" by blast
  let ?v = "core2_init_value (pcfg s)"
  let ?t = "wr_regs cpu ?v (all_regs q) s2"
  have st: "pcfg s2 = pcfg s" "pcb s2 cpu = Some (p\<lparr>em_tables := T, current_group := 0\<rparr>)"
    "PMU_register_data s2 = PMU_register_data s" "global_ec s2 = global_ec s"
    using s2(2) by (simp_all add: msr_only_def)
  have ecb: "cur_ecb cpu s2 = Some q" using assms(4) p g0 st by (simp add: cur_ecb_def)
  have run: "core2_Write_PMU he cpu s = Some ?t"
    using p g0 T(1) s2(1) st
    by (simp add: core2_Write_PMU_def FOR_EACH_eq(6)[OF ecb wf] foldm_wr Let_def)
  have z: "rd cpu r ?t = 0" if "r \<in> {IA32_PERF_GLOBAL_CTRL, COMPOUND_CTR_CTL}" "r \<in> reg_id ` set (all_regs q)" for r
    by (rule read_wr_regs_const) (use that in \<open>auto simp: core2_init_value_def\<close>)
  have zp: "rd cpu IA32_PEBS_ENABLE ?t = 0"
    if "pebs_mode (pcfg s) \<noteq> 0" "IA32_PEBS_ENABLE \<in> reg_id ` set (all_regs q)"
    by (rule read_wr_regs_const) (use that in \<open>auto simp: core2_init_value_def msr_defs\<close>)
  have rows: "rot_row ?B cpu g ?t = map reg_value (group_gp g s)"
    if "em_mode (global_ec s) \<noteq> EM_DISABLED" "g < rot_cnt s" "gp_distinct g s" for g
  proof (rule rows_init_row[OF T(2)[OF that(1,2)] that(3)])
    show "pcb ?t cpu = Some (p\<lparr>em_tables := T, current_group := 0\<rparr>)" using st by simp
    show "em_tables (p\<lparr>em_tables := T, current_group := 0\<rparr>) = T" by simp
  qed (use st in simp_all)
  show ?thesis using run ecb st z zp rows by (intro exI[of _ ?t]) (auto simp: rot_cur_def)
qed

theorem core2_Write_PMU_stopped_witness:
  "\<exists>t. core2_Write_PMU (Some corei7_Errata_Fix_2) 0 (demo IA32_PMC0) = Some t \<and>
    rd 0 IA32_PERF_GLOBAL_CTRL t = 0 \<and> rot_row IA32_PMC0 0 1 t = [0xEE00]"
proof -
  have q: "cur_ecb 0 (demo IA32_PMC0) =
      Some (mk_ecb [mk_reg 0x186 0x60 0x4300C0 0, mk_reg 0x187 0x60 0x43003C 0]
              [mk_reg 0xC1 0x20 0xFF00 0, mk_reg 0xC2 0x20 0xFF01 1] 3)"
    by (simp add: cur_ecb_def demo_defs msr_defs)
  have em: "em_ok IA32_PMC0 0 (demo IA32_PMC0)" using demo_rot_ok by (simp add: rot_ok_def)
  have gp: "group_gp 1 (demo IA32_PMC0) = [mk_reg 0xC1 0x20 0xEE00 2]" "gp_distinct 1 (demo IA32_PMC0)"
    by (simp_all add: group_gp_def gp_distinct_def demo_defs flag_defs msr_defs)
  have m: "rot_cur 0 (demo IA32_PMC0) = 0" "em_mode (global_ec (demo IA32_PMC0)) \<noteq> EM_DISABLED"
    "1 < rot_cnt (demo IA32_PMC0)"
    by (simp_all add: rot_cur_def rot_cnt_def demo_defs EM_DISABLED_def EM_TIMER_BASED_def)
  from core2_Write_PMU_stopped[OF em _ m(1) q, of "Some corei7_Errata_Fix_2"] gp m(2,3) show ?thesis
    by (auto simp: errata_ok_def mk_hdr_def msr_defs)
qed

end
