(* ===== verification/Core2_State.thy ===== *)
theory Core2_State
  imports Core2_Correct
begin

text \<open>
  What core2.c leaves behind: the control registers saved by \<open>core2_Initialize\<close> and put back by
  \<open>core2_Destroy\<close> on every CPU, and the work-around registers in PCI configuration space that
  \<open>core2_Disable_Direct2core\<close> changes and \<open>core2_Clean_Up\<close> puts back.
\<close>

section \<open>PCI addresses\<close>

lemma form_pci_fields:
  "drop_bit 16 (FORM_PCI_ADDR b d f c) AND 0xFF = b AND 0xFF"
  "drop_bit 11 (FORM_PCI_ADDR b d f c) AND 0x1F = d AND 0x1F"
  "FORM_PCI_ADDR b d f c AND 0xFF = c AND 0xFF"
proof -
  have m: "(0xFF :: u32) = mask 8" "(0x1F :: u32) = mask 5" "(0x07 :: u32) = mask 3"
    by (simp_all add: mask_eq_exp_minus_1)
  have pe: "PCI_ENABLE = 2 ^ 31" by (simp add: PCI_ENABLE_def)
  have e: "bit PCI_ENABLE n \<longleftrightarrow> n = 31" for n
    unfolding pe bit_exp_iff by auto
  show "drop_bit 16 (FORM_PCI_ADDR b d f c) AND 0xFF = b AND 0xFF"
    unfolding FORM_PCI_ADDR_def m by (rule bit_word_eqI) (auto simp: bit_simps e)
  show "drop_bit 11 (FORM_PCI_ADDR b d f c) AND 0x1F = d AND 0x1F"
    unfolding FORM_PCI_ADDR_def m by (rule bit_word_eqI) (auto simp: bit_simps e)
  show "FORM_PCI_ADDR b d f c AND 0xFF = c AND 0xFF"
    unfolding FORM_PCI_ADDR_def m by (rule bit_word_eqI) (auto simp: bit_simps e)
qed

lemma form_pci_bus:
  assumes "FORM_PCI_ADDR (of_nat b) d f c = FORM_PCI_ADDR (of_nat b') d' f' c'" "b < 256" "b' < 256"
  shows "b = b'"
proof -
  have s: "unat ((of_nat x :: u32) AND 0xFF) = x" if "x < 256" for x
  proof -
    have "(of_nat x :: u32) AND 0xFF = take_bit 8 (of_nat x)"
      by (simp add: take_bit_eq_mask mask_eq_exp_minus_1)
    then show ?thesis using that by (simp add: unsigned_take_bit_eq unat_of_nat_u32 take_bit_nat_eq_self)
  qed
  from assms(1) have "(of_nat b :: u32) AND 0xFF = of_nat b' AND 0xFF" by (metis form_pci_fields(1))
  then show ?thesis using s assms(2,3) by metis
qed

lemma form_pci_off:
  "FORM_PCI_ADDR b d f c = FORM_PCI_ADDR b' d' f' c' \<Longrightarrow> c AND 0xFF = c' AND 0xFF"
  by (metis form_pci_fields(3))

lemma form_pci_dev:
  "FORM_PCI_ADDR b d f c = FORM_PCI_ADDR b' d' f' c' \<Longrightarrow> d AND 0x1F = d' AND 0x1F"
  by (metis form_pci_fields(2))

lemmas d2c_defs = ha_addr_def qpi_addr_def JKTUNC_HA_D2C_OFFSET_def JKTUNC_QPILL_D2C_OFFSET_def
  JKTUNC_HA_DEVICE_NO_def core2_qpill_dev_no_def

lemma d2c_addr:
  "inj_on (\<lambda>b. ha_addr b c) (set ha_buses)"
  "inj_on (\<lambda>db. qpi_addr db c) (set qpi_buses)"
  "ha_addr b 0 \<noteq> ha_addr b' JKTUNC_HA_D2C_OFFSET"
  "ha_addr b 0 \<noteq> qpi_addr db JKTUNC_QPILL_D2C_OFFSET"
  "qpi_addr db 0 \<noteq> qpi_addr db' JKTUNC_QPILL_D2C_OFFSET"
  "qpi_addr db 0 \<noteq> ha_addr b JKTUNC_HA_D2C_OFFSET"
  "ha_addr b JKTUNC_HA_D2C_OFFSET \<noteq> qpi_addr db JKTUNC_QPILL_D2C_OFFSET"
proof -
  show "inj_on (\<lambda>b. ha_addr b c) (set ha_buses)"
    by (auto simp: inj_on_def ha_buses_def MAX_BUSNO_def ha_addr_def dest: form_pci_bus)
  show "inj_on (\<lambda>db. qpi_addr db c) (set qpi_buses)"
  proof (rule inj_onI)
    fix x y assume a: "x \<in> set qpi_buses" "y \<in> set qpi_buses" and eq: "qpi_addr x c = qpi_addr y c"
    from eq have "core2_qpill_dev_no (fst x) AND 0x1F = core2_qpill_dev_no (fst y) AND 0x1F"
      unfolding qpi_addr_def by (rule form_pci_dev)
    moreover have "fst x < 2" "fst y < 2" using a by (auto simp: qpi_buses_def)
    ultimately have "fst x = fst y" by (auto simp: core2_qpill_dev_no_def split: if_splits)
    moreover have "snd x = snd y"
      using a eq unfolding qpi_addr_def qpi_buses_def MAX_BUSNO_def by (intro form_pci_bus) auto
    ultimately show "x = y" by (simp add: prod_eq_iff)
  qed
qed (auto simp: d2c_defs dest!: form_pci_off)

section \<open>The two kinds of loop over devices\<close>

lemma pci_upd_simps [simp]:
  "PCI_Read_Ulong a (s\<lparr>pci_cfg := f\<rparr>) = f a"
  "PCI_Write_Ulong a v (s\<lparr>pci_cfg := f\<rparr>) = s\<lparr>pci_cfg := f(a := v)\<rparr>"
  by (simp_all add: PCI_Read_Ulong_def PCI_Write_Ulong_def)

lemma pci_read_eq: "PCI_Read_Ulong a s = pci_cfg s a"
  by (simp add: PCI_Read_Ulong_def)

text \<open>Rewriting one register of each device found, where finding a device does not read it.\<close>

lemma pci_write_loop:
  assumes inj: "inj_on ca (set D)" and dist: "distinct D"
    and fnd: "\<And>x f. x \<in> set D \<Longrightarrow> (\<forall>a. a \<notin> ca ` set D \<longrightarrow> f a = pci_cfg s a) \<Longrightarrow>
      fnd x (s\<lparr>pci_cfg := f\<rparr>) = fnd x s"
  shows "\<exists>f. foldm (\<lambda>x s. Some (if fnd x s
          then PCI_Write_Ulong (ca x) (val x (PCI_Read_Ulong (ca x) s)) s else s)) D s =
        Some (s\<lparr>pci_cfg := f\<rparr>) \<and>
    (\<forall>x \<in> set D. f (ca x) = (if fnd x s then val x (pci_cfg s (ca x)) else pci_cfg s (ca x))) \<and>
    (\<forall>a. a \<notin> ca ` set D \<longrightarrow> f a = pci_cfg s a)"
proof -
  let ?body = "\<lambda>x s. Some (if fnd x s then PCI_Write_Ulong (ca x) (val x (PCI_Read_Ulong (ca x) s)) s else s)"
  let ?new = "\<lambda>x. if fnd x s then val x (pci_cfg s (ca x)) else pci_cfg s (ca x)"
  let ?P = "\<lambda>pre t. \<exists>f. t = s\<lparr>pci_cfg := f\<rparr> \<and> (\<forall>x \<in> set pre. f (ca x) = ?new x) \<and>
    (\<forall>a. a \<notin> ca ` set pre \<longrightarrow> f a = pci_cfg s a)"
  have "\<exists>t. foldm ?body D s = Some t \<and> ?P D t"
  proof (rule foldm_prefix_rule [where P = ?P])
    show "?P [] s" by (intro exI[of _ "pci_cfg s"]) simp
  next
    fix pre x t assume P: "?P pre t" and x: "x \<in> set D" and "\<exists>post. D = pre @ x # post"
    then obtain f post where f: "t = s\<lparr>pci_cfg := f\<rparr>" "\<forall>x \<in> set pre. f (ca x) = ?new x"
      "\<forall>a. a \<notin> ca ` set pre \<longrightarrow> f a = pci_cfg s a" and post: "D = pre @ x # post" by blast
    have notin: "ca x \<notin> ca ` set pre"
      using inj dist post by (auto simp: inj_on_def)
    then have fx: "f (ca x) = pci_cfg s (ca x)" using f(3) by blast
    have fn: "fnd x t = fnd x s"
      unfolding f(1) by (rule fnd[OF x]) (use f(3) post in auto)
    have "?body x t = Some (s\<lparr>pci_cfg := f(ca x := ?new x)\<rparr>)"
      using fn fx by (auto simp: f(1) fun_upd_idem)
    moreover have "?P (pre @ [x]) (s\<lparr>pci_cfg := f(ca x := ?new x)\<rparr>)"
    proof (intro exI[of _ "f(ca x := ?new x)"] conjI)
      show "\<forall>y \<in> set (pre @ [x]). (f(ca x := ?new x)) (ca y) = ?new y"
      proof
        fix y assume "y \<in> set (pre @ [x])"
        then consider "y = x" | "y \<in> set pre" by auto
        then show "(f(ca x := ?new x)) (ca y) = ?new y"
        proof cases
          case 2
          then have "ca y \<noteq> ca x" using notin by (metis image_eqI)
          with 2 f(2) show ?thesis by simp
        qed simp
      qed
      show "\<forall>a. a \<notin> ca ` set (pre @ [x]) \<longrightarrow> (f(ca x := ?new x)) a = pci_cfg s a"
        using f(3) by auto
    qed simp
    ultimately show "\<exists>t'. ?body x t = Some t' \<and> ?P (pre @ [x]) t'" by blast
  qed
  then show ?thesis by blast
qed

text \<open>Recording a value for each device found.\<close>

lemma save_loop:
  assumes inj: "inj_on ix (set D)"
    and put: "\<And>i v r. put i v (upd r s) = Some (upd (r(i := v)) s)"
    and fnd: "\<And>x r. fnd x (upd r s) = fnd x s" "\<And>x r. val x (upd r s) = val x s"
    and s: "s = upd r0 s"
  shows "\<exists>r. foldm (\<lambda>x s. if fnd x s then put (ix x) (val x s) s else Some s) D s = Some (upd r s) \<and>
    (\<forall>x \<in> set D. fnd x s \<longrightarrow> r (ix x) = val x s)"
proof -
  let ?body = "\<lambda>x s. if fnd x s then put (ix x) (val x s) s else Some s"
  let ?P = "\<lambda>pre t. \<exists>r. t = upd r s \<and> (\<forall>x \<in> set pre. fnd x s \<longrightarrow> r (ix x) = val x s)"
  have "\<exists>t. foldm ?body D s = Some t \<and> ?P D t"
  proof (rule foldm_prefix_rule [where P = ?P])
    show "?P [] s" using s by auto
  next
    fix pre x t assume P: "?P pre t" and x: "x \<in> set D" and post: "\<exists>post. D = pre @ x # post"
    then obtain r where r: "t = upd r s" "\<forall>x \<in> set pre. fnd x s \<longrightarrow> r (ix x) = val x s" by blast
    have b: "?body x t = Some (upd (if fnd x s then r(ix x := val x s) else r) s)"
      using fnd put by (simp add: r(1))
    have "?P (pre @ [x]) (upd (if fnd x s then r(ix x := val x s) else r) s)"
    proof (intro exI conjI, rule refl, intro ballI impI)
      fix y assume y: "y \<in> set (pre @ [x])" and fy: "fnd y s"
      then have yD: "y \<in> set D" using post x by auto
      show "(if fnd x s then r(ix x := val x s) else r) (ix y) = val y s"
      proof (cases "ix y = ix x")
        case True
        then have "y = x" using inj x yD by (auto simp: inj_on_def)
        with fy show ?thesis by simp
      next
        case False
        with y have "y \<in> set pre" by auto
        with r(2) fy False show ?thesis by simp
      qed
    qed
    with b show "\<exists>t'. ?body x t = Some t' \<and> ?P (pre @ [x]) t'" by blast
  qed
  then show ?thesis by blast
qed

section \<open>Direct-to-core and back\<close>

lemma found_cong:
  assumes "\<forall>a. a \<notin> A \<longrightarrow> pci_cfg t a = pci_cfg s a" "ha_addr b 0 \<notin> A"
  shows "ha_found b t = ha_found b s"
  using assms by (simp add: ha_found_def pci_match_def pci_read_eq Let_def)

lemma qpi_found_cong:
  assumes "\<forall>a. a \<notin> A \<longrightarrow> pci_cfg t a = pci_cfg s a" "qpi_addr db 0 \<notin> A"
  shows "qpi_found db t = qpi_found db s"
  using assms by (simp add: qpi_found_def pci_match_def pci_read_eq Let_def)

definition ha_ctl :: "nat \<Rightarrow> u32" where "ha_ctl b = ha_addr b JKTUNC_HA_D2C_OFFSET"
definition qpi_ctl :: "nat \<times> nat \<Rightarrow> u32" where "qpi_ctl db = qpi_addr db JKTUNC_QPILL_D2C_OFFSET"

text \<open>
  The work-around in place: on every device found the control register has its bit set and its
  old value is recorded for the CPU; everything else of the configuration space is as it was.
\<close>

definition d2c_disabled :: "nat \<Rightarrow> drv \<Rightarrow> (u32 \<Rightarrow> u32) \<Rightarrow> (nat \<Rightarrow> u32) \<Rightarrow> (nat \<Rightarrow> u32) \<Rightarrow> bool" where
  "d2c_disabled cpu s f ha qpi =
     ((\<forall>b \<in> set ha_buses. if ha_found b s
         then f (ha_ctl b) = pci_cfg s (ha_ctl b) OR JKTUNC_HA_D2C_BITMASK \<and> ha b = pci_cfg s (ha_ctl b)
         else f (ha_ctl b) = pci_cfg s (ha_ctl b)) \<and>
      (\<forall>db \<in> set qpi_buses. if qpi_found db s
         then f (qpi_ctl db) = pci_cfg s (qpi_ctl db) OR JKTUNC_QPILL_D2C_BITMASK \<and>
              qpi (fst db * MAX_BUSNO + snd db) = pci_cfg s (qpi_ctl db)
         else f (qpi_ctl db) = pci_cfg s (qpi_ctl db)) \<and>
      (\<forall>a. a \<notin> ha_ctl ` set ha_buses \<union> qpi_ctl ` set qpi_buses \<longrightarrow> f a = pci_cfg s a))"

lemma distinct_buses: "distinct ha_buses" "distinct qpi_buses"
  by (simp_all add: ha_buses_def qpi_buses_def distinct_product)

lemma inj_qpi_index: "inj_on (\<lambda>db. fst db * MAX_BUSNO + snd db) (set qpi_buses)"
proof (rule inj_onI)
  fix x y assume "x \<in> set qpi_buses" "y \<in> set qpi_buses"
    and eq: "fst x * MAX_BUSNO + snd x = fst y * MAX_BUSNO + snd y"
  then have "snd x < MAX_BUSNO" "snd y < MAX_BUSNO" by (auto simp: qpi_buses_def)
  then have "snd x = (fst x * MAX_BUSNO + snd x) mod MAX_BUSNO" "fst x = (fst x * MAX_BUSNO + snd x) div MAX_BUSNO"
    "snd y = (fst y * MAX_BUSNO + snd y) mod MAX_BUSNO" "fst y = (fst y * MAX_BUSNO + snd y) div MAX_BUSNO"
    by (simp_all add: MAX_BUSNO_def)
  with eq show "x = y" by (metis prod_eq_iff)
qed

text \<open>The loops of both routines over the home agents and the QPI link layers.\<close>

lemma ha_loop:
  "\<exists>f. foldm (\<lambda>b s. Some (if ha_found b s
        then PCI_Write_Ulong (ha_ctl b) (val b (PCI_Read_Ulong (ha_ctl b) s)) s else s)) ha_buses s =
      Some (s\<lparr>pci_cfg := f\<rparr>) \<and>
    (\<forall>b \<in> set ha_buses. f (ha_ctl b) = (if ha_found b s then val b (pci_cfg s (ha_ctl b)) else pci_cfg s (ha_ctl b))) \<and>
    (\<forall>a. a \<notin> ha_ctl ` set ha_buses \<longrightarrow> f a = pci_cfg s a)"
proof (rule pci_write_loop)
  show "inj_on ha_ctl (set ha_buses)" unfolding ha_ctl_def by (rule d2c_addr(1))
  fix x f assume "\<forall>a. a \<notin> ha_ctl ` set ha_buses \<longrightarrow> f a = pci_cfg s a"
  then show "ha_found x (s\<lparr>pci_cfg := f\<rparr>) = ha_found x s"
    by (intro found_cong[where A = "ha_ctl ` set ha_buses"]) (auto simp: ha_ctl_def d2c_addr)
qed (rule distinct_buses)

lemma qpi_loop:
  "\<exists>f. foldm (\<lambda>b s. Some (if qpi_found b s
        then PCI_Write_Ulong (qpi_ctl b) (val b (PCI_Read_Ulong (qpi_ctl b) s)) s else s)) qpi_buses s =
      Some (s\<lparr>pci_cfg := f\<rparr>) \<and>
    (\<forall>b \<in> set qpi_buses. f (qpi_ctl b) = (if qpi_found b s then val b (pci_cfg s (qpi_ctl b)) else pci_cfg s (qpi_ctl b))) \<and>
    (\<forall>a. a \<notin> qpi_ctl ` set qpi_buses \<longrightarrow> f a = pci_cfg s a)"
proof (rule pci_write_loop)
  show "inj_on qpi_ctl (set qpi_buses)" unfolding qpi_ctl_def by (rule d2c_addr(2))
  fix x f assume "\<forall>a. a \<notin> qpi_ctl ` set qpi_buses \<longrightarrow> f a = pci_cfg s a"
  then show "qpi_found x (s\<lparr>pci_cfg := f\<rparr>) = qpi_found x s"
    by (intro qpi_found_cong[where A = "qpi_ctl ` set qpi_buses"]) (auto simp: qpi_ctl_def d2c_addr)
qed (rule distinct_buses)

text \<open>Which devices are found is not changed by rewriting control registers.\<close>

lemma found_ctl:
  assumes "\<forall>a. a \<notin> ha_ctl ` set ha_buses \<union> qpi_ctl ` set qpi_buses \<longrightarrow> pci_cfg t a = pci_cfg s a"
  shows "ha_found b t = ha_found b s" "qpi_found db t = qpi_found db s"
proof -
  show "ha_found b t = ha_found b s"
    by (rule found_cong[OF assms]) (auto simp: qpi_ctl_def ha_ctl_def d2c_addr)
  show "qpi_found db t = qpi_found db s"
    by (rule qpi_found_cong[OF assms]) (auto simp: qpi_ctl_def ha_ctl_def d2c_addr)
qed

lemma ctl_disjoint: "ha_ctl b \<notin> qpi_ctl ` D" "qpi_ctl db \<notin> ha_ctl ` E"
  by (auto simp: ha_ctl_def qpi_ctl_def d2c_addr d2c_addr(7)[THEN not_sym])

lemma ha_save_loop:
  assumes "restore_ha_direct2core s = Some ra"
  shows "\<exists>ha. foldm (\<lambda>b s. if ha_found b s then save_ha cpu b (PCI_Read_Ulong (ha_ctl b) s) s else Some s) ha_buses s =
      Some (s\<lparr>restore_ha_direct2core := Some (ra(cpu := ha))\<rparr>) \<and>
    (\<forall>b \<in> set ha_buses. ha_found b s \<longrightarrow> ha b = pci_cfg s (ha_ctl b))"
proof -
  let ?hu = "\<lambda>r s. s\<lparr>restore_ha_direct2core := Some (ra(cpu := r))\<rparr>"
  have hs: "s = ?hu (ra cpu) s" using assms by simp
  show ?thesis
    using save_loop[of "\<lambda>b. b" ha_buses "save_ha cpu" ?hu s ha_found "\<lambda>b s. PCI_Read_Ulong (ha_ctl b) s", OF _ _ _ _ hs]
    by (auto simp: save_ha_def ha_found_def pci_match_def pci_read_eq)
qed

lemma qpi_save_loop:
  assumes "restore_qpi_direct2core s = Some rq"
  shows "\<exists>qpi. foldm (\<lambda>db s. if qpi_found db s
        then save_qpi cpu (fst db * MAX_BUSNO + snd db) (PCI_Read_Ulong (qpi_ctl db) s) s else Some s) qpi_buses s =
      Some (s\<lparr>restore_qpi_direct2core := Some (rq(cpu := qpi))\<rparr>) \<and>
    (\<forall>db \<in> set qpi_buses. qpi_found db s \<longrightarrow> qpi (fst db * MAX_BUSNO + snd db) = pci_cfg s (qpi_ctl db))"
proof -
  let ?qu = "\<lambda>r s. s\<lparr>restore_qpi_direct2core := Some (rq(cpu := r))\<rparr>"
  have qs: "s = ?qu (rq cpu) s" using assms by simp
  show ?thesis
    using save_loop[of "\<lambda>db. fst db * MAX_BUSNO + snd db" qpi_buses "save_qpi cpu" ?qu s qpi_found
        "\<lambda>b s. PCI_Read_Ulong (qpi_ctl b) s", OF inj_qpi_index _ _ _ qs]
    by (auto simp: save_qpi_def qpi_found_def pci_match_def pci_read_eq)
qed

lemma disable_direct2core_ok:
  assumes "restore_ha_direct2core s = Some ra" "restore_qpi_direct2core s = Some rq"
  shows "\<exists>f ha qpi. core2_Disable_Direct2core cpu s =
      Some (s\<lparr>pci_cfg := f, restore_ha_direct2core := Some (ra(cpu := ha)),
              restore_qpi_direct2core := Some (rq(cpu := qpi))\<rparr>) \<and>
    d2c_disabled cpu s f ha qpi"
proof -
  obtain ha where ha: "foldm (\<lambda>b s. if ha_found b s then save_ha cpu b (PCI_Read_Ulong (ha_ctl b) s) s else Some s) ha_buses s =
      Some (s\<lparr>restore_ha_direct2core := Some (ra(cpu := ha))\<rparr>)"
    "\<forall>b \<in> set ha_buses. ha_found b s \<longrightarrow> ha b = pci_cfg s (ha_ctl b)"
    using ha_save_loop[OF assms(1), of cpu] by blast
  let ?s1 = "s\<lparr>restore_ha_direct2core := Some (ra(cpu := ha))\<rparr>"
  obtain f where f: "foldm (\<lambda>b s. Some (if ha_found b s
        then PCI_Write_Ulong (ha_ctl b) (PCI_Read_Ulong (ha_ctl b) s OR JKTUNC_HA_D2C_BITMASK) s else s)) ha_buses ?s1 =
      Some (?s1\<lparr>pci_cfg := f\<rparr>)"
    "\<forall>b \<in> set ha_buses. f (ha_ctl b) = (if ha_found b ?s1 then pci_cfg ?s1 (ha_ctl b) OR JKTUNC_HA_D2C_BITMASK else pci_cfg ?s1 (ha_ctl b))"
    "\<forall>a. a \<notin> ha_ctl ` set ha_buses \<longrightarrow> f a = pci_cfg ?s1 a"
    using ha_loop[of "\<lambda>b v. v OR JKTUNC_HA_D2C_BITMASK" ?s1] by blast
  let ?s2 = "?s1\<lparr>pci_cfg := f\<rparr>"
  have "restore_qpi_direct2core ?s2 = Some rq" using assms(2) by simp
  then obtain qpi where qpi: "foldm (\<lambda>db s. if qpi_found db s
        then save_qpi cpu (fst db * MAX_BUSNO + snd db) (PCI_Read_Ulong (qpi_ctl db) s) s else Some s) qpi_buses ?s2 =
      Some (?s2\<lparr>restore_qpi_direct2core := Some (rq(cpu := qpi))\<rparr>)"
    "\<forall>db \<in> set qpi_buses. qpi_found db ?s2 \<longrightarrow> qpi (fst db * MAX_BUSNO + snd db) = pci_cfg ?s2 (qpi_ctl db)"
    using qpi_save_loop[of ?s2 rq cpu] by blast
  let ?s3 = "?s2\<lparr>restore_qpi_direct2core := Some (rq(cpu := qpi))\<rparr>"
  obtain g where g: "foldm (\<lambda>b s. Some (if qpi_found b s
        then PCI_Write_Ulong (qpi_ctl b) (PCI_Read_Ulong (qpi_ctl b) s OR JKTUNC_QPILL_D2C_BITMASK) s else s)) qpi_buses ?s3 =
      Some (?s3\<lparr>pci_cfg := g\<rparr>)"
    "\<forall>b \<in> set qpi_buses. g (qpi_ctl b) = (if qpi_found b ?s3 then pci_cfg ?s3 (qpi_ctl b) OR JKTUNC_QPILL_D2C_BITMASK else pci_cfg ?s3 (qpi_ctl b))"
    "\<forall>a. a \<notin> qpi_ctl ` set qpi_buses \<longrightarrow> g a = pci_cfg ?s3 a"
    using qpi_loop[of "\<lambda>b v. v OR JKTUNC_QPILL_D2C_BITMASK" ?s3] by blast
  have run: "core2_Disable_Direct2core cpu s = Some (?s3\<lparr>pci_cfg := g\<rparr>)"
    unfolding core2_Disable_Direct2core_def Let_def or.left_idem ha_ctl_def [symmetric] qpi_ctl_def [symmetric]
    using ha(1) f(1) qpi(1) g(1) by simp
  have fa: "\<forall>a. a \<notin> ha_ctl ` set ha_buses \<longrightarrow> f a = pci_cfg s a" using f(3) by simp
  have fq: "f (qpi_ctl db) = pci_cfg s (qpi_ctl db)" for db using fa ctl_disjoint(2) by simp
  have fnd: "ha_found b ?s1 = ha_found b s" "qpi_found db ?s2 = qpi_found db s" "qpi_found db ?s3 = qpi_found db s" for b db
    using fa by (auto intro!: found_ctl)
  have gh: "g (ha_ctl b) = f (ha_ctl b)" for b using g(3) ctl_disjoint(1) by simp
  have "d2c_disabled cpu s g ha qpi"
    unfolding d2c_disabled_def
  proof (intro conjI ballI allI impI)
    fix b assume "b \<in> set ha_buses"
    then show "if ha_found b s then g (ha_ctl b) = pci_cfg s (ha_ctl b) OR JKTUNC_HA_D2C_BITMASK \<and> ha b = pci_cfg s (ha_ctl b)
      else g (ha_ctl b) = pci_cfg s (ha_ctl b)" using ha(2) f(2) fnd gh by simp
  next
    fix db assume "db \<in> set qpi_buses"
    then show "if qpi_found db s then g (qpi_ctl db) = pci_cfg s (qpi_ctl db) OR JKTUNC_QPILL_D2C_BITMASK \<and>
        qpi (fst db * MAX_BUSNO + snd db) = pci_cfg s (qpi_ctl db)
      else g (qpi_ctl db) = pci_cfg s (qpi_ctl db)" using qpi(2) g(2) fnd fq by simp
  qed (use g(3) fa in auto)
  with run show ?thesis by (intro exI[of _ g] exI[of _ ha] exI[of _ qpi]) simp
qed

lemma clean_loop:
  "foldm (\<lambda>e s. Some (if clean_up_get e then wr cpu (reg_id e) 0 s else s)) es s =
   Some (wr_regs cpu (\<lambda>_. 0) (filter clean_up_get es) s)"
  by (induction es arbitrary: s) simp_all

lemma clean_pci:
  assumes dis: "d2c_disabled cpu s (pci_cfg u) (rha cpu) (rqpi cpu)"
  shows "\<exists>f. do { s \<leftarrow> foldm (\<lambda>b s. Some (if ha_found b s
               then PCI_Write_Ulong (ha_ctl b) (rha cpu b) s else s)) ha_buses u;
             foldm (\<lambda>db s. Some (if qpi_found db s
               then PCI_Write_Ulong (qpi_ctl db) (rqpi cpu (fst db * MAX_BUSNO + snd db)) s else s)) qpi_buses s } =
           Some (u\<lparr>pci_cfg := f\<rparr>) \<and> f = pci_cfg s"
proof -
  obtain f where f: "foldm (\<lambda>b s. Some (if ha_found b s
        then PCI_Write_Ulong (ha_ctl b) (rha cpu b) s else s)) ha_buses u = Some (u\<lparr>pci_cfg := f\<rparr>)"
    "\<forall>b \<in> set ha_buses. f (ha_ctl b) = (if ha_found b u then rha cpu b else pci_cfg u (ha_ctl b))"
    "\<forall>a. a \<notin> ha_ctl ` set ha_buses \<longrightarrow> f a = pci_cfg u a"
    using ha_loop[of "\<lambda>b _. rha cpu b" u] by blast
  let ?u1 = "u\<lparr>pci_cfg := f\<rparr>"
  obtain g where g: "foldm (\<lambda>db s. Some (if qpi_found db s
        then PCI_Write_Ulong (qpi_ctl db) (rqpi cpu (fst db * MAX_BUSNO + snd db)) s else s)) qpi_buses ?u1 =
      Some (?u1\<lparr>pci_cfg := g\<rparr>)"
    "\<forall>db \<in> set qpi_buses. g (qpi_ctl db) = (if qpi_found db ?u1 then rqpi cpu (fst db * MAX_BUSNO + snd db) else f (qpi_ctl db))"
    "\<forall>a. a \<notin> qpi_ctl ` set qpi_buses \<longrightarrow> g a = f a"
    using qpi_loop[of "\<lambda>db _. rqpi cpu (fst db * MAX_BUSNO + snd db)" ?u1] by auto
  have fnd1: "ha_found b u = ha_found b s" for b
    by (rule found_ctl(1)) (use dis in \<open>auto simp: d2c_disabled_def\<close>)
  have fnd2: "qpi_found db ?u1 = qpi_found db s" for db
    by (rule found_ctl(2)) (use dis f(3) in \<open>auto simp: d2c_disabled_def\<close>)
  note fnd = fnd1 fnd2
  have "g a = pci_cfg s a" for a
  proof -
    consider (ha) b where "b \<in> set ha_buses" "a = ha_ctl b" | (qpi) db where "db \<in> set qpi_buses" "a = qpi_ctl db"
      | (no) "a \<notin> ha_ctl ` set ha_buses \<union> qpi_ctl ` set qpi_buses" by blast
    then show ?thesis
    proof cases
      case ha
      then have "g a = f a" using g(3) ctl_disjoint(1) by blast
      then show ?thesis using ha dis f(2) fnd by (auto simp: d2c_disabled_def split: if_splits)
    next
      case qpi
      then have "f a = pci_cfg u a" using f(3) ctl_disjoint(2) by blast
      then show ?thesis using qpi dis g(2) fnd by (auto simp: d2c_disabled_def split: if_splits)
    next
      case no
      then show ?thesis using dis f(3) g(3) by (simp add: d2c_disabled_def)
    qed
  qed
  with f(1) g(1) show ?thesis by (intro exI[of _ g]) auto
qed

text \<open>
  The Direct2Core work-around is undone. Let \<open>core2_Disable_Direct2core\<close> run, then let the
  collection do anything that keeps the configuration space and the two save arrays. On the
  socket master with the saved flag set, \<open>core2_Clean_Up\<close> returns, clears every register entry
  marked for clean-up (the bypass register apart, which it restores itself), and leaves the whole
  PCI configuration space exactly as it was before the work-around, on every bus and device.
\<close>

theorem core2_direct2core_round_trip:
  assumes "restore_ha_direct2core s = Some ra" "restore_qpi_direct2core s = Some rq"
    and "core2_Disable_Direct2core cpu s = Some t"
    and "pci_cfg u = pci_cfg t" "restore_ha_direct2core u = restore_ha_direct2core t"
      "restore_qpi_direct2core u = restore_qpi_direct2core t" "direct2core_data_saved u"
    and "cur_ecb cpu u = Some q" "ecb_wf q" "pcb u cpu = Some p" "socket_master p"
  shows "\<exists>v. core2_Clean_Up cpu u = Some v \<and> pci_cfg v = pci_cfg s \<and>
    (\<forall>e \<in> set (all_regs q). clean_up_get e \<longrightarrow> ucast (reg_id e) \<noteq> CORE2UNC_DISABLE_BL_BYPASS_MSR \<longrightarrow>
       rd cpu (reg_id e) v = 0)"
proof -
  obtain f ha qpi where t: "t = s\<lparr>pci_cfg := f, restore_ha_direct2core := Some (ra(cpu := ha)),
      restore_qpi_direct2core := Some (rq(cpu := qpi))\<rparr>" "d2c_disabled cpu s f ha qpi"
    using disable_direct2core_ok[OF assms(1,2), of cpu] assms(3) by auto
  let ?u1 = "wr_regs cpu (\<lambda>_. 0) (filter clean_up_get (all_regs q)) u"
  have "d2c_disabled cpu s (pci_cfg ?u1) ((ra(cpu := ha)) cpu) ((rq(cpu := qpi)) cpu)"
    using t assms(4) by simp
  then obtain g where g: "do { s \<leftarrow> foldm (\<lambda>b s. Some (if ha_found b s
               then PCI_Write_Ulong (ha_ctl b) ((ra(cpu := ha)) cpu b) s else s)) ha_buses ?u1;
             foldm (\<lambda>db s. Some (if qpi_found db s
               then PCI_Write_Ulong (qpi_ctl db) ((rq(cpu := qpi)) cpu (fst db * MAX_BUSNO + snd db)) s else s)) qpi_buses s } =
           Some (?u1\<lparr>pci_cfg := g\<rparr>)" "g = pci_cfg s"
    using clean_pci by blast
  have z: "rd cpu (reg_id e) ?u1 = 0" if "e \<in> set (all_regs q)" "clean_up_get e" for e
    by (rule read_wr_regs_const) (use that in auto)
  let ?v = "case restore_bl_bypass u of Some r \<Rightarrow> if bl_bypass_data_saved u
      then SYS_Write_MSR cpu CORE2UNC_DISABLE_BL_BYPASS_MSR (r cpu) (?u1\<lparr>pci_cfg := g\<rparr>) else ?u1\<lparr>pci_cfg := g\<rparr>
    | None \<Rightarrow> ?u1\<lparr>pci_cfg := g\<rparr>"
  have "core2_Clean_Up cpu u = Some ?v"
    unfolding core2_Clean_Up_def ha_ctl_def [symmetric] qpi_ctl_def [symmetric] FOR_EACH_eq(6)[OF assms(8,9)] clean_loop
    using g(1) assms(5,6,7,10,11) t(1) by (auto split: option.splits)
  moreover have "rd cpu r (?u1\<lparr>pci_cfg := g\<rparr>) = rd cpu r ?u1" for r by (simp add: SYS_Read_MSR_def)
  ultimately show ?thesis using z g(2) by (intro exI[of _ ?v]) (auto split: option.splits)
qed

definition demo_d2c :: drv where
  "demo_d2c = demo IA32_PMC0\<lparr>pci_cfg := (pci_cfg drv0)(ha_addr 3 0 := 0x3CA08086, ha_ctl 3 := 0x10),
     restore_ha_direct2core := Some (\<lambda>_ _. 0), restore_qpi_direct2core := Some (\<lambda>_ _. 0)\<rparr>"

theorem core2_direct2core_round_trip_witness:
  "\<exists>t v. core2_Disable_Direct2core 0 demo_d2c = Some t \<and>
    core2_Clean_Up 0 (t\<lparr>direct2core_data_saved := True\<rparr>) = Some v \<and>
    pci_cfg v = pci_cfg demo_d2c \<and> rd 0 IA32_PERF_GLOBAL_CTRL v = 0"
proof -
  have r: "restore_ha_direct2core demo_d2c = Some (\<lambda>_ _. 0)" "restore_qpi_direct2core demo_d2c = Some (\<lambda>_ _. 0)"
    by (simp_all add: demo_d2c_def)
  from disable_direct2core_ok[OF this, of 0] obtain t f ha qpi where
    t: "core2_Disable_Direct2core 0 demo_d2c = Some t"
      "t = demo_d2c\<lparr>pci_cfg := f, restore_ha_direct2core := Some ((\<lambda>_ _. 0)(0 := ha)),
              restore_qpi_direct2core := Some ((\<lambda>_ _. 0)(0 := qpi))\<rparr>" by auto
  let ?q = "mk_ecb [mk_reg 0x186 0x60 0x4300C0 0, mk_reg 0x187 0x60 0x43003C 0]
              [mk_reg 0xC1 0x20 0xFF00 0, mk_reg 0xC2 0x20 0xFF01 1] 3"
  let ?u = "t\<lparr>direct2core_data_saved := True\<rparr>"
  have q: "cur_ecb 0 ?u = Some ?q"
    by (simp add: cur_ecb_def t(2) demo_d2c_def demo_defs msr_defs)
  have p: "pcb ?u 0 = Some demo_cpu" "socket_master demo_cpu" by (simp_all add: t(2) demo_d2c_def demo_defs)
  from core2_direct2core_round_trip[OF r t(1) _ _ _ _ q _ p] obtain v where
    "core2_Clean_Up 0 ?u = Some v" "pci_cfg v = pci_cfg demo_d2c"
    "\<forall>e \<in> set (all_regs ?q). clean_up_get e \<longrightarrow> ucast (reg_id e) \<noteq> CORE2UNC_DISABLE_BL_BYPASS_MSR \<longrightarrow> rd 0 (reg_id e) v = 0"
    by auto
  moreover from this(3) have "rd 0 IA32_PERF_GLOBAL_CTRL v = 0"
    by (simp add: mk_hdr_def clean_up_get_def EVENT_REG_clean_up_bit_def CORE2UNC_DISABLE_BL_BYPASS_MSR_def IA32_PERF_GLOBAL_CTRL_def)
  ultimately show ?thesis using t(1) by blast
qed

section \<open>Saving and restoring the control registers\<close>

text \<open>What \<open>core2_Initialize\<close> leaves alone: everything but its own CPU's MSRs and save slot.\<close>

definition init_keeps :: "nat \<Rightarrow> drv \<Rightarrow> drv \<Rightarrow> bool" where
  "init_keeps cpu s t = (pmu_state t = pmu_state s \<and> pcb t = pcb s \<and>
     PMU_register_data t = PMU_register_data s \<and> driver_state t = driver_state s \<and>
     (\<forall>c r. c \<noteq> cpu \<longrightarrow> SYS_Read_MSR c r t = SYS_Read_MSR c r s))"

lemma init_keeps_trans: "init_keeps cpu s t \<Longrightarrow> init_keeps cpu t u \<Longrightarrow> init_keeps cpu s u"
  by (simp add: init_keeps_def)

lemma any_group_flag_total:
  assumes "unat (num_em_groups (driver_state s)) \<le> length (PMU_register_data s)"
  shows "\<exists>f. any_group_flag b s = Some f"
proof -
  have "\<exists>f. any_group_flag b s = Some f \<and> True"
    unfolding any_group_flag_def by (rule foldm_rule) (use assms in auto)
  then show ?thesis by simp
qed

lemma disable_bl_bypass_ok:
  assumes "restore_bl_bypass s = Some r"
  shows "\<exists>t. core2_Disable_BL_Bypass cpu s = Some t \<and> init_keeps cpu s t"
  using assms by (auto simp: core2_Disable_BL_Bypass_def init_keeps_def Let_def)

text \<open>The part of \<open>core2_Initialize\<close> for the socket master.\<close>

definition init_workarounds :: "nat \<Rightarrow> drv \<Rightarrow> drv option" where
  "init_workarounds cpu s = do {
     s \<leftarrow> (if restore_ha_direct2core s \<noteq> None \<and> restore_qpi_direct2core s \<noteq> None
           then do { f \<leftarrow> any_group_flag ECB_direct2core_bit s;
             if f then do { s \<leftarrow> core2_Disable_Direct2core cpu s; Some (s\<lparr>direct2core_data_saved := True\<rparr>) }
             else Some s }
           else Some s);
     if restore_bl_bypass s \<noteq> None
     then do { f \<leftarrow> any_group_flag ECB_bl_bypass_bit s;
       if f then do { s \<leftarrow> core2_Disable_BL_Bypass cpu s; Some (s\<lparr>bl_bypass_data_saved := True\<rparr>) }
       else Some s }
     else Some s }"

lemma init_workarounds_ok:
  assumes l: "unat (num_em_groups (driver_state s)) \<le> length (PMU_register_data s)"
  shows "\<exists>t. init_workarounds cpu s = Some t \<and> init_keeps cpu s t"
proof -
  obtain s1 where s1: "(if restore_ha_direct2core s \<noteq> None \<and> restore_qpi_direct2core s \<noteq> None
           then do { f \<leftarrow> any_group_flag ECB_direct2core_bit s;
             if f then do { s \<leftarrow> core2_Disable_Direct2core cpu s; Some (s\<lparr>direct2core_data_saved := True\<rparr>) }
             else Some s }
           else Some s) = Some s1" "init_keeps cpu s s1"
  proof (cases "restore_ha_direct2core s \<noteq> None \<and> restore_qpi_direct2core s \<noteq> None")
    case True
    then obtain ra rq where r: "restore_ha_direct2core s = Some ra" "restore_qpi_direct2core s = Some rq" by auto
    from any_group_flag_total[OF l] obtain f where f: "any_group_flag ECB_direct2core_bit s = Some f" by blast
    from disable_direct2core_ok[OF r, of cpu] obtain g ha qpi where
      g: "core2_Disable_Direct2core cpu s = Some (s\<lparr>pci_cfg := g, restore_ha_direct2core := Some (ra(cpu := ha)),
              restore_qpi_direct2core := Some (rq(cpu := qpi))\<rparr>)" by blast
    show thesis
      by (rule that[of "if f then s\<lparr>pci_cfg := g, restore_ha_direct2core := Some (ra(cpu := ha)),
              restore_qpi_direct2core := Some (rq(cpu := qpi)), direct2core_data_saved := True\<rparr> else s"])
        (simp_all add: r f g init_keeps_def SYS_Read_MSR_def)
  next
    case False
    show thesis by (rule that[of s]) (use False in \<open>auto simp: init_keeps_def\<close>)
  qed
  have l1: "unat (num_em_groups (driver_state s1)) \<le> length (PMU_register_data s1)"
    using l s1(2) by (simp add: init_keeps_def)
  have "\<exists>t. (if restore_bl_bypass s1 \<noteq> None
     then do { f \<leftarrow> any_group_flag ECB_bl_bypass_bit s1;
       if f then do { s \<leftarrow> core2_Disable_BL_Bypass cpu s1; Some (s\<lparr>bl_bypass_data_saved := True\<rparr>) }
       else Some s1 }
     else Some s1) = Some t \<and> init_keeps cpu s1 t"
  proof (cases "restore_bl_bypass s1")
    case None
    then show ?thesis by (simp add: init_keeps_def)
  next
    case (Some r)
    from any_group_flag_total[OF l1] obtain f where "any_group_flag ECB_bl_bypass_bit s1 = Some f" by blast
    moreover from disable_bl_bypass_ok[OF Some, of cpu] obtain t where
      "core2_Disable_BL_Bypass cpu s1 = Some t" "init_keeps cpu s1 t" by blast
    ultimately show ?thesis using Some by (cases f) (auto simp: init_keeps_def)
  qed
  then show ?thesis using s1 by (auto simp: init_workarounds_def intro: init_keeps_trans)
qed

text \<open>
  The states in which \<open>core2_Initialize\<close> may run on \<open>cpus\<close>: their nodes exist, the save array has
  their two slots, and there is register data for every group.
\<close>

definition init_ready :: "nat list \<Rightarrow> drv \<Rightarrow> bool" where
  "init_ready cpus s = (unat (num_em_groups (driver_state s)) \<le> length (PMU_register_data s) \<and>
     (case pmu_state s of None \<Rightarrow> False | Some a \<Rightarrow>
       list_all (\<lambda>c. pcb s c \<noteq> None \<and> 2 * c + 1 < length a) cpus))"

lemma core2_Initialize_alt:
  "core2_Initialize cpu s = (case pcb s cpu of None \<Rightarrow> Some s | Some p \<Rightarrow>
     case pmu_slot cpu s of None \<Rightarrow> Some (upd_pcpu cpu (p\<lparr>cs_pmu_state := None\<rparr>) s) | Some i \<Rightarrow> do {
       s \<leftarrow> save_pmu_state i (rd cpu IA32_DEBUG_CTRL s) (upd_pcpu cpu (p\<lparr>cs_pmu_state := Some i\<rparr>) s);
       s \<leftarrow> save_pmu_state (i + 1) (rd cpu IA32_PERF_GLOBAL_CTRL s) s;
       let s = (if ds_area_available (pcfg s) then wr cpu IA32_PEBS_ENABLE 0 s else s);
       if \<not> socket_master p then Some s
       else init_workarounds cpu (s\<lparr>direct2core_data_saved := False, bl_bypass_data_saved := False\<rparr>) })"
  unfolding core2_Initialize_def init_workarounds_def Let_def
  by (simp split: option.split)

lemma core2_Initialize_ok:
  assumes "unat (num_em_groups (driver_state s)) \<le> length (PMU_register_data s)"
    "pmu_state s = Some a" "pcb s c = Some p" "2 * c + 1 < length a"
  shows "\<exists>t. core2_Initialize c s = Some t \<and>
    pmu_state t = Some (a[2 * c := rd c IA32_DEBUG_CTRL s, 2 * c + 1 := rd c IA32_PERF_GLOBAL_CTRL s]) \<and>
    pcb t = (pcb s)(c \<mapsto> p\<lparr>cs_pmu_state := Some (2 * c)\<rparr>) \<and>
    PMU_register_data t = PMU_register_data s \<and> driver_state t = driver_state s \<and>
    (\<forall>c' r. c' \<noteq> c \<longrightarrow> SYS_Read_MSR c' r t = SYS_Read_MSR c' r s)"
proof -
  let ?p = "p\<lparr>cs_pmu_state := Some (2 * c)\<rparr>"
  let ?a = "a[2 * c := rd c IA32_DEBUG_CTRL s, 2 * c + 1 := rd c IA32_PERF_GLOBAL_CTRL s]"
  let ?s1 = "(upd_pcpu c ?p s)\<lparr>pmu_state := Some ?a\<rparr>"
  let ?s2 = "if ds_area_available (pcfg ?s1) then wr c IA32_PEBS_ENABLE 0 ?s1 else ?s1"
  let ?s3 = "?s2\<lparr>direct2core_data_saved := False, bl_bypass_data_saved := False\<rparr>"
  have r: "core2_Initialize c s = (if \<not> socket_master p then Some ?s2 else init_workarounds c ?s3)"
    using assms
    by (simp add: core2_Initialize_alt pmu_slot_def save_pmu_state_def Let_def mult.commute)
  have k: "pmu_state ?s2 = Some ?a" "pcb ?s2 = (pcb s)(c \<mapsto> ?p)" "PMU_register_data ?s2 = PMU_register_data s"
    "driver_state ?s2 = driver_state s" "c' \<noteq> c \<Longrightarrow> SYS_Read_MSR c' r ?s2 = SYS_Read_MSR c' r s" for c' r
    by simp_all
  have "unat (num_em_groups (driver_state ?s3)) \<le> length (PMU_register_data ?s3)" using assms(1) by simp
  from init_workarounds_ok[OF this, of c] obtain t where t: "init_workarounds c ?s3 = Some t" "init_keeps c ?s3 t" by blast
  show ?thesis
  proof (cases "socket_master p")
    case False
    then show ?thesis using r k by simp
  next
    case True
    then show ?thesis using r k t by (intro exI[of _ t]) (auto simp: init_keeps_def)
  qed
qed

text \<open>Every CPU of \<open>cpus\<close> has its two registers of state \<open>s\<close> in its slots of state \<open>t\<close>.\<close>

definition saved_from :: "nat list \<Rightarrow> drv \<Rightarrow> drv \<Rightarrow> bool" where
  "saved_from cpus s t = (case pmu_state t of None \<Rightarrow> False | Some a \<Rightarrow> list_all (\<lambda>c.
     2 * c + 1 < length a \<and> a ! (2 * c) = rd c IA32_DEBUG_CTRL s \<and> a ! (2 * c + 1) = rd c IA32_PERF_GLOBAL_CTRL s \<and>
     map_option cs_pmu_state (pcb t c) = Some (Some (2 * c))) cpus)"

lemma initialize_all:
  assumes "init_ready cpus s" "distinct cpus"
  shows "\<exists>t. foldm core2_Initialize cpus s = Some t \<and> saved_from cpus s t"
proof -
  from assms(1) obtain a where a: "pmu_state s = Some a"
    and ng: "unat (num_em_groups (driver_state s)) \<le> length (PMU_register_data s)"
    and cp: "\<And>c. c \<in> set cpus \<Longrightarrow> pcb s c \<noteq> None \<and> 2 * c + 1 < length a"
    by (auto simp: init_ready_def list_all_iff split: option.splits)
  let ?P = "\<lambda>pre t. saved_from pre s t \<and> map_option length (pmu_state t) = Some (length a) \<and>
    driver_state t = driver_state s \<and> PMU_register_data t = PMU_register_data s \<and>
    (\<forall>c. c \<notin> set pre \<longrightarrow> pcb t c = pcb s c \<and> (\<forall>r. SYS_Read_MSR c r t = SYS_Read_MSR c r s))"
  have "\<exists>t. foldm core2_Initialize cpus s = Some t \<and> ?P cpus t"
  proof (rule foldm_prefix_rule [where P = ?P])
    show "?P [] s" using a by (simp add: saved_from_def)
  next
    fix pre c t assume P: "?P pre t" and c: "c \<in> set cpus" and "\<exists>post. cpus = pre @ c # post"
    with assms(2) have cn: "c \<notin> set pre" by auto
    from P obtain b where b: "pmu_state t = Some b" "length b = length a" by auto
    from cp[OF c] P cn obtain p where p: "pcb t c = Some p" by auto
    have eq: "rd c r t = rd c r s" for r using P cn by blast
    from core2_Initialize_ok[OF _ b(1) p] ng P cp[OF c] b(2) obtain t' where
      t': "core2_Initialize c t = Some t'"
      "pmu_state t' = Some (b[2 * c := rd c IA32_DEBUG_CTRL t, 2 * c + 1 := rd c IA32_PERF_GLOBAL_CTRL t])"
      "pcb t' = (pcb t)(c \<mapsto> p\<lparr>cs_pmu_state := Some (2 * c)\<rparr>)"
      "PMU_register_data t' = PMU_register_data t" "driver_state t' = driver_state t"
      "\<forall>c' r. c' \<noteq> c \<longrightarrow> SYS_Read_MSR c' r t' = SYS_Read_MSR c' r t" by auto
    have idx: "2 * c' \<noteq> 2 * c + 1" "2 * c' + 1 \<noteq> 2 * c" for c' :: nat by presburger+
    have "saved_from (pre @ [c]) s t'"
      using P b cp[OF c] cn t'(2,3) eq idx
      by (auto simp: saved_from_def list_all_iff nth_list_update)
    then show "\<exists>t'. core2_Initialize c t = Some t' \<and> ?P (pre @ [c]) t'"
      using t' P b cn by (intro exI[of _ t']) auto
  qed
  then show ?thesis by blast
qed

text \<open>
  C8: the control registers survive a collection. Initialisation runs without a fault on any
  distinct CPUs that are ready for it; and if the collection, whatever it does to registers,
  configuration space and the other driver data, keeps the save array and the CPUs' pointers
  into it, then tear-down runs without a fault and gives every one of these CPUs the debug and
  global control values it had before initialisation, and clears its pointer.
\<close>

theorem core2_state_restored:
  assumes "init_ready cpus s" "distinct cpus"
  shows "\<exists>t. foldm core2_Initialize cpus s = Some t \<and>
    (\<forall>u. pmu_state u = pmu_state t \<and> (\<forall>c \<in> set cpus. map_option cs_pmu_state (pcb u c) = map_option cs_pmu_state (pcb t c)) \<longrightarrow>
      (\<exists>v. foldm core2_Destroy cpus u = Some v \<and>
        (\<forall>c \<in> set cpus. rd c IA32_DEBUG_CTRL v = rd c IA32_DEBUG_CTRL s \<and>
           rd c IA32_PERF_GLOBAL_CTRL v = rd c IA32_PERF_GLOBAL_CTRL s \<and>
           map_option cs_pmu_state (pcb v c) = Some None)))"
proof -
  from initialize_all[OF assms] obtain t where t: "foldm core2_Initialize cpus s = Some t" "saved_from cpus s t" by blast
  have "\<exists>v. foldm core2_Destroy cpus u = Some v \<and>
        (\<forall>c \<in> set cpus. rd c IA32_DEBUG_CTRL v = rd c IA32_DEBUG_CTRL s \<and>
           rd c IA32_PERF_GLOBAL_CTRL v = rd c IA32_PERF_GLOBAL_CTRL s \<and> map_option cs_pmu_state (pcb v c) = Some None)"
    if u: "pmu_state u = pmu_state t" "\<forall>c \<in> set cpus. map_option cs_pmu_state (pcb u c) = map_option cs_pmu_state (pcb t c)" for u
  proof -
    from t(2) u obtain a where a: "pmu_state u = Some a"
      and al: "\<And>c. c \<in> set cpus \<Longrightarrow> 2 * c + 1 < length a \<and> a ! (2 * c) = rd c IA32_DEBUG_CTRL s \<and>
        a ! (2 * c + 1) = rd c IA32_PERF_GLOBAL_CTRL s \<and> map_option cs_pmu_state (pcb u c) = Some (Some (2 * c))"
      by (auto simp: saved_from_def list_all_iff split: option.splits)
    let ?Q = "\<lambda>c v. rd c IA32_DEBUG_CTRL v = rd c IA32_DEBUG_CTRL s \<and>
           rd c IA32_PERF_GLOBAL_CTRL v = rd c IA32_PERF_GLOBAL_CTRL s \<and> map_option cs_pmu_state (pcb v c) = Some None"
    let ?P = "\<lambda>pre v. pmu_state v = pmu_state u \<and> (\<forall>c \<in> set pre. ?Q c v) \<and> (\<forall>c. c \<notin> set pre \<longrightarrow> pcb v c = pcb u c)"
    have "\<exists>v. foldm core2_Destroy cpus u = Some v \<and> ?P cpus v"
    proof (rule foldm_prefix_rule [where P = ?P])
      fix pre c v assume P: "?P pre v" and c: "c \<in> set cpus" and "\<exists>post. cpus = pre @ c # post"
      with assms(2) have cn: "c \<notin> set pre" by auto
      with P al[OF c] obtain p where p: "pcb v c = Some p" "cs_pmu_state p = Some (2 * c)" by auto
      have ne: "IA32_DEBUG_CTRL \<noteq> IA32_PERF_GLOBAL_CTRL" by (simp add: msr_defs)
      let ?v = "upd_pcpu c (p\<lparr>cs_pmu_state := None\<rparr>)
        (wr c IA32_PERF_GLOBAL_CTRL (a ! (2 * c + 1)) (wr c IA32_DEBUG_CTRL (a ! (2 * c)) v))"
      have "core2_Destroy c v = Some ?v"
        using P p a al[OF c] by (simp add: core2_Destroy_def read_pmu_state_def set_pcpu_def Let_def)
      moreover have "?P (pre @ [c]) ?v" using P al[OF c] cn ne by (auto simp: upd_pcpu_def)
      ultimately show "\<exists>v'. core2_Destroy c v = Some v' \<and> ?P (pre @ [c]) v'" by blast
    qed simp
    then show ?thesis by blast
  qed
  with t(1) show ?thesis by blast
qed

theorem core2_state_restored_witness:
  "\<exists>t v. foldm core2_Initialize [0] (demo IA32_PMC0) = Some t \<and>
    foldm core2_Destroy [0] (wr 0 IA32_DEBUG_CTRL 77 t) = Some v \<and> rd 0 IA32_DEBUG_CTRL v = 0"
proof -
  have r: "init_ready [0] (demo IA32_PMC0)" by (simp add: init_ready_def demo_defs)
  from core2_state_restored[OF r] obtain t where t: "foldm core2_Initialize [0] (demo IA32_PMC0) = Some t"
    "pmu_state u = pmu_state t \<Longrightarrow> pcb u = pcb t \<Longrightarrow> \<exists>v. foldm core2_Destroy [0] u = Some v \<and>
       rd 0 IA32_DEBUG_CTRL v = rd 0 IA32_DEBUG_CTRL (demo IA32_PMC0)" for u by fastforce
  have "rd 0 IA32_DEBUG_CTRL (demo IA32_PMC0) = 0" by (simp add: SYS_Read_MSR_def demo_defs)
  with t(1) t(2)[of "wr 0 IA32_DEBUG_CTRL 77 t"] show ?thesis by auto
qed

end
