(* ===== verification/Core2_Overflow.thy ===== *)
theory Core2_Overflow
  imports Core2_Correct
begin

text \<open>
  Overflow handling in core2.c: which samples an interrupt produces, what is reloaded and
  cleared, and what the Core i7 errata scan reports.
\<close>

section \<open>The overflow scan\<close>

text \<open>The status names the register's bit.\<close>

definition overflowed :: "drv \<Rightarrow> u64 \<Rightarrow> event_reg \<Rightarrow> bool" where
  "overflowed s st e = (case ovf_index s e of None \<Rightarrow> False
     | Some i \<Rightarrow> st AND push_bit (unat i) 1 \<noteq> 0)"

definition ovf_index_ok :: "drv \<Rightarrow> event_reg \<Rightarrow> bool" where
  "ovf_index_ok s e = (case ovf_index s e of None \<Rightarrow> True | Some i \<Rightarrow> i < 64)"

definition ovf_mask :: "event_reg \<Rightarrow> event_mask" where
  "ovf_mask e = (event_id_index e, event_flag True e)"

definition is_trigger :: "cpu_state \<Rightarrow> event_reg \<Rightarrow> bool" where
  "is_trigger p e = (ucast (event_id_index e) = trigger_event_num p)"

lemma is_trigger_count [simp]: "is_trigger (p\<lparr>trigger_count := x\<rparr>) e = is_trigger p e"
  by (simp add: is_trigger_def)

lemma wr_upd_pcpu: "SYS_Write_MSR c r v (upd_pcpu cpu p s) = upd_pcpu cpu p (SYS_Write_MSR c r v s)"
  by (simp add: SYS_Write_MSR_def upd_pcpu_def)

lemma ovf_index_pcfg: "pcfg t = pcfg s \<Longrightarrow> ovf_index t e = ovf_index s e"
  by (simp add: ovf_index_def)

lemma push_mask_take:
  "push_mask m (take MAX_OVERFLOW_EVENTS ms) = take MAX_OVERFLOW_EVENTS (ms @ [m])"
  by (simp add: push_mask_def)

lemma record_overflow_eq:
  assumes "pcb u cpu = Some p"
  shows "record_overflow True cpu e (u, masks) =
    Some (upd_pcpu cpu (if is_trigger p e then p\<lparr>trigger_count := trigger_count p - 1\<rparr> else p)
            (wr cpu (reg_id e) (reg_value e) u),
          push_mask (ovf_mask e) masks)"
  using assms upd_pcpu_same[of "wr cpu (reg_id e) (reg_value e) u" cpu p]
  by (simp add: record_overflow_def Let_def is_trigger_def ovf_mask_def)

text \<open>The state after the entries \<open>pre\<close> were scanned.\<close>

definition scanned :: "nat \<Rightarrow> cpu_state \<Rightarrow> u64 \<Rightarrow> drv \<Rightarrow> event_reg list \<Rightarrow> drv" where
  "scanned cpu p st s pre = (let ov = filter (overflowed s st) pre in
     upd_pcpu cpu (p\<lparr>trigger_count := trigger_count p - of_nat (length (filter (is_trigger p) ov))\<rparr>)
       (wr_regs cpu reg_value ov s))"

lemma scan_loop:
  assumes p: "pcb s cpu = Some p" and ok: "\<forall>e \<in> set es. ovf_index_ok s e"
  shows "foldm (core2_Check_Overflow_body None cpu) es (st, s, []) =
    Some (st, scanned cpu p st s es,
          take MAX_OVERFLOW_EVENTS (map ovf_mask (filter (overflowed s st) es)))"
proof -
  let ?st = "\<lambda>pre. (st, scanned cpu p st s pre, take MAX_OVERFLOW_EVENTS (map ovf_mask (filter (overflowed s st) pre)))"
  have "\<exists>r. foldm (core2_Check_Overflow_body None cpu) es (st, s, []) = Some r \<and> r = ?st es"
  proof (rule foldm_prefix_rule [where P = "\<lambda>pre r. r = ?st pre"])
    show "(st, s, []) = ?st []"
      using upd_pcpu_same[OF p] by (simp add: scanned_def)
  next
    fix pre e r assume r: "r = ?st pre" and e: "e \<in> set es"
    let ?u = "scanned cpu p st s pre"
    let ?p = "p\<lparr>trigger_count := trigger_count p - of_nat (length (filter (is_trigger p) (filter (overflowed s st) pre)))\<rparr>"
    have u: "pcb ?u cpu = Some ?p" "pcfg ?u = pcfg s" by (simp_all add: scanned_def Let_def)
    have step: "overflowed s st e \<Longrightarrow>
      upd_pcpu cpu (if is_trigger ?p e then ?p\<lparr>trigger_count := trigger_count ?p - 1\<rparr> else ?p)
        (wr cpu (reg_id e) (reg_value e) ?u) = scanned cpu p st s (pre @ [e])"
      by (simp add: scanned_def Let_def wr_upd_pcpu algebra_simps)
    have stay: "\<not> overflowed s st e \<Longrightarrow> scanned cpu p st s (pre @ [e]) = ?u" by (simp add: scanned_def Let_def)
    have "core2_Check_Overflow_body None cpu e (?st pre) = Some (?st (pre @ [e]))"
    proof (cases "ovf_index s e")
      case None
      then have "\<not> overflowed s st e" by (simp add: overflowed_def)
      with None stay show ?thesis
        by (simp add: core2_Check_Overflow_body_def ovf_index_pcfg[OF u(2)])
    next
      case (Some i)
      with ok e have i: "i < 64" by (auto simp: ovf_index_ok_def)
      show ?thesis
      proof (cases "overflowed s st e")
        case True
        then have "st AND push_bit (unat i) 1 \<noteq> 0" using Some by (simp add: overflowed_def)
        with Some i step[OF True] True show ?thesis
          by (simp add: core2_Check_Overflow_body_def ovf_index_pcfg[OF u(2)] bit_u64_Some
              record_overflow_eq[OF u(1)] push_mask_take Let_def)
      next
        case False
        then have "\<not> st AND push_bit (unat i) 1 \<noteq> 0" using Some by (simp add: overflowed_def)
        with Some i stay False show ?thesis
          by (simp add: core2_Check_Overflow_body_def ovf_index_pcfg[OF u(2)] bit_u64_Some Let_def)
      qed
    qed
    then show "\<exists>r'. core2_Check_Overflow_body None cpu e r = Some r' \<and> r' = ?st (pre @ [e])" using r by simp
  qed
  then show ?thesis by simp
qed

text \<open>
  C7: what an overflow interrupt reports and reloads (Core i7 tables). If the status could be
  read as \<open>st\<close> with \<open>clr\<close> to clear, the routine returns; the samples it hands out are exactly the
  events whose status bit is set, in entry order and cut at \<open>MAX_OVERFLOW_EVENTS\<close>, with their
  flags; every overflowed counter is reloaded and every other register keeps its value; the
  trigger count drops by the number of overflows of the trigger event; and \<open>clr\<close> is written to
  the overflow control register and kept as the reset mask.
\<close>

theorem core2_Check_Overflow_spec:
  assumes "read_overflow_status ge cpu s = Some (st, clr)" "pcb s cpu = Some p"
    and "cur_ecb cpu s = Some q" "ecb_wf q" "\<forall>e \<in> set (data_regs q). ovf_index_ok s e"
  defines "ov \<equiv> filter (overflowed s st) (data_regs q)"
  shows "\<exists>t. core2_Check_Overflow None ge cpu s = Some (t, take MAX_OVERFLOW_EVENTS (map ovf_mask ov)) \<and>
    (\<forall>e \<in> set ov. (\<forall>e' \<in> set ov. reg_id e' = reg_id e \<longrightarrow> reg_value e' = reg_value e) \<longrightarrow>
       reg_id e \<noteq> IA32_PERF_GLOBAL_OVF_CTRL \<longrightarrow> rd cpu (reg_id e) t = reg_value e) \<and>
    (\<forall>r. r \<notin> reg_id ` set ov \<longrightarrow> r \<noteq> IA32_PERF_GLOBAL_OVF_CTRL \<longrightarrow> rd cpu r t = rd cpu r s) \<and>
    rd cpu IA32_PERF_GLOBAL_OVF_CTRL t = clr \<and>
    pcb t cpu = Some (p\<lparr>trigger_count := trigger_count p - of_nat (length (filter (is_trigger p) ov)),
                        reset_mask := clr\<rparr>)"
proof -
  let ?s = "s\<lparr>sample_count := (sample_count s)(cpu := 0)\<rparr>"
  have q: "cur_ecb cpu ?s = Some q" using assms(3) by (simp add: cur_ecb_def)
  have ix: "ovf_index ?s e = ovf_index s e" for e by (rule ovf_index_pcfg) simp
  have ovs: "overflowed ?s st = overflowed s st" by (simp add: fun_eq_iff overflowed_def ix)
  have p: "pcb ?s cpu = Some p" using assms(2) by simp
  have "\<forall>e \<in> set (data_regs q). ovf_index_ok ?s e" using assms(5) by (simp add: ovf_index_ok_def ix)
  from scan_loop[OF p this, of st] have l:
    "foldm (core2_Check_Overflow_body None cpu) (data_regs q) (st, ?s, []) =
      Some (st, scanned cpu p st ?s (data_regs q), take MAX_OVERFLOW_EVENTS (map ovf_mask ov))"
    by (simp add: ovs ov_def)
  let ?p = "p\<lparr>trigger_count := trigger_count p - of_nat (length (filter (is_trigger p) ov)), reset_mask := clr\<rparr>"
  have sc: "scanned cpu p st ?s (data_regs q) =
      upd_pcpu cpu (p\<lparr>trigger_count := trigger_count p - of_nat (length (filter (is_trigger p) ov))\<rparr>) (wr_regs cpu reg_value ov ?s)"
    by (simp add: scanned_def ovs ov_def [symmetric] Let_def)
  let ?t = "upd_pcpu cpu ?p (wr cpu IA32_PERF_GLOBAL_OVF_CTRL clr (wr_regs cpu reg_value ov ?s))"
  have "core2_Check_Overflow None ge cpu s = Some (?t, take MAX_OVERFLOW_EVENTS (map ovf_mask ov))"
    using assms(1) l
    by (simp add: core2_Check_Overflow_def Let_def FOR_EACH_eq(4)[OF q assms(4)] finish_overflow_def sc wr_upd_pcpu)
  moreover have rt: "rd cpu r ?t = (if r = IA32_PERF_GLOBAL_OVF_CTRL then clr else rd cpu r (wr_regs cpu reg_value ov ?s))" for r
    by simp
  have in_ov: "rd cpu (reg_id e) ?t = reg_value e"
    if "e \<in> set ov" "\<forall>e' \<in> set ov. reg_id e' = reg_id e \<longrightarrow> reg_value e' = reg_value e"
      "reg_id e \<noteq> IA32_PERF_GLOBAL_OVF_CTRL" for e
    unfolding rt using read_wr_regs_in[OF that(1), of reg_value cpu ?s] that(2,3) by simp
  have out_ov: "rd cpu r ?t = rd cpu r s" if "r \<notin> reg_id ` set ov" "r \<noteq> IA32_PERF_GLOBAL_OVF_CTRL" for r
    unfolding rt using read_wr_regs_notin[OF that(1), of cpu reg_value ?s] that(2) by simp
  have "rd cpu IA32_PERF_GLOBAL_OVF_CTRL ?t = clr" "pcb ?t cpu = Some ?p" by simp_all
  ultimately show ?thesis using in_ov out_ov by blast
qed

lemma demo_ecb:
  "cur_ecb 0 (demo base) = Some (mk_ecb [mk_reg 0x186 0x60 0x4300C0 0, mk_reg 0x187 0x60 0x43003C 0]
     [mk_reg base 0x20 0xFF00 0, mk_reg (base + 1) 0x20 0xFF01 1] 3)"
  by (simp add: cur_ecb_def demo_defs)

lemma demo_msr: "SYS_Read_MSR c r (demo base) = 0"
  by (simp add: SYS_Read_MSR_def demo_defs)

theorem core2_Check_Overflow_spec_witness:
  "\<exists>t. core2_Check_Overflow None None 0 (wr 0 IA32_PERF_GLOBAL_STATUS 1 (demo IA32_PMC0)) = Some (t, [(0, 0)]) \<and>
    rd 0 0xC1 t = 0xFF00 \<and> rd 0 0xC2 t = 0 \<and> rd 0 IA32_PERF_GLOBAL_OVF_CTRL t = 1"
proof -
  let ?s = "wr 0 IA32_PERF_GLOBAL_STATUS 1 (demo IA32_PMC0)"
  let ?q = "mk_ecb [mk_reg 0x186 0x60 0x4300C0 0, mk_reg 0x187 0x60 0x43003C 0]
              [mk_reg 0xC1 0x20 0xFF00 0, mk_reg 0xC2 0x20 0xFF01 1] 3"
  have r: "read_overflow_status None 0 ?s = Some (1, 1)"
    by (simp add: read_overflow_status_def demo_def drv0_def)
  have p: "pcb ?s 0 = Some demo_cpu" by (simp add: demo_def)
  have q: "cur_ecb 0 ?s = Some ?q" by (simp add: demo_ecb IA32_PMC0_def)
  have d: "data_regs ?q = [mk_reg 0xC1 0x20 0xFF00 0, mk_reg 0xC2 0x20 0xFF01 1]" by simp
  have ix: "ovf_index ?s (mk_reg 0xC1 0x20 0xFF00 0) = Some 0" "ovf_index ?s (mk_reg 0xC2 0x20 0xFF01 1) = Some 1"
    by (simp_all add: ovf_index_def flag_defs IA32_PMC0_def)
  have ok: "\<forall>e \<in> set (data_regs ?q). ovf_index_ok ?s e" by (simp add: d ovf_index_ok_def ix)
  have ov: "filter (overflowed ?s 1) (data_regs ?q) = [mk_reg 0xC1 0x20 0xFF00 0]"
    by (simp add: d overflowed_def ix)
  have m: "take MAX_OVERFLOW_EVENTS (map ovf_mask [mk_reg 0xC1 0x20 0xFF00 0]) = [(0, 0)]"
    by (simp add: MAX_OVERFLOW_EVENTS_def ovf_mask_def event_flag_def flag_defs)
  have ne: "IA32_PERF_GLOBAL_OVF_CTRL \<noteq> 0xC1" "IA32_PERF_GLOBAL_OVF_CTRL \<noteq> 0xC2"
    by (simp_all add: IA32_PERF_GLOBAL_OVF_CTRL_def)
  obtain t where t: "core2_Check_Overflow None None 0 ?s = Some (t, [(0, 0)])"
    "rd 0 0xC1 t = 0xFF00" "\<forall>r. r \<noteq> 0xC1 \<longrightarrow> r \<noteq> IA32_PERF_GLOBAL_OVF_CTRL \<longrightarrow> rd 0 r t = rd 0 r ?s"
    "rd 0 IA32_PERF_GLOBAL_OVF_CTRL t = 1"
    using core2_Check_Overflow_spec[OF r p q _ ok] ne(1) unfolding ov m by auto
  have "rd 0 0xC2 ?s = 0" by (simp add: demo_msr IA32_PERF_GLOBAL_STATUS_def)
  then have "rd 0 0xC2 t = 0" using spec[OF t(3), of "0xC2"] ne(2) by simp
  with t show ?thesis by blast
qed

section \<open>The Core i7 errata scan\<close>

definition gp_bit :: "event_reg \<Rightarrow> u32" where
  "gp_bit e = ucast (reg_id e) - ucast IA32_PMC0"

definition fixed_bit :: "event_reg \<Rightarrow> u32" where
  "fixed_bit e = ucast (reg_id e) - ucast IA32_FIXED_CTR0 + 0x20"

definition errata_index_ok :: "event_reg \<Rightarrow> bool" where
  "errata_index_ok e = ((is_gp_reg_get e \<longrightarrow> gp_bit e < 64) \<and> (fixed_reg_get e \<longrightarrow> fixed_bit e < 64))"

text \<open>The register is the reason for status bit \<open>n\<close>: it wrapped a short while ago.\<close>

definition errata_reason :: "nat \<Rightarrow> drv \<Rightarrow> nat \<Rightarrow> event_reg \<Rightarrow> bool" where
  "errata_reason cpu s n e = (reg_value e \<noteq> 0 \<and> \<not> is_compound_ctr_sub_bit_set e \<and>
     (let value = rd cpu (reg_id e) s in
      reg_id e = COMPOUND_PERF_CTR \<and> n = unat COMPOUND_CTR_OVF_SHIFT \<and> (value = 0 \<or> in_window value) \<or>
      is_gp_reg_get e \<and> n = unat (gp_bit e) \<and> in_window value \<or>
      fixed_reg_get e \<and> n = unat (fixed_bit e) \<and> in_window value))"

definition errata_inv :: "nat \<Rightarrow> drv \<Rightarrow> event_reg list \<Rightarrow> u64 \<Rightarrow> bool \<times> u64 \<times> u64 \<Rightarrow> bool" where
  "errata_inv cpu s es st0 r = (case r of (_, st, clr) \<Rightarrow>
     (\<forall>n. bit st0 n \<longrightarrow> bit clr n) \<and> (\<forall>n. bit clr n \<longrightarrow> bit st n) \<and>
     (\<forall>n. bit st n \<longrightarrow> bit st0 n \<or> (\<exists>e \<in> set es. errata_reason cpu s n e)))"

lemma bit_pushed: "bit (2 ^ k :: u64) n \<longleftrightarrow> n = k \<and> k < 64"
  by (auto simp: bit_exp_iff)

lemma masked_bit_zero:
  fixes st clr :: u64
  assumes "st AND push_bit k 1 = 0" "\<And>n. bit clr n \<Longrightarrow> bit st n"
  shows "clr AND push_bit k 1 = 0"
proof (rule bit_word_eqI)
  fix n assume "n < LENGTH(64)"
  have "\<not> bit (st AND push_bit k 1) n" unfolding assms(1) by simp
  then show "bit (clr AND push_bit k 1) n = bit 0 n" using assms(2)[of n] by (auto simp: bit_and_iff)
qed

lemma errata_inv_grow:
  assumes "errata_inv cpu s es st0 (br, st, clr)" "k < 64" "e \<in> set es" "errata_reason cpu s k e"
  shows "errata_inv cpu s es st0 (br', st OR push_bit k 1, clr OR push_bit k 1)"
    and "errata_inv cpu s es st0 (br', st OR push_bit k 1, clr)"
  using assms by (auto simp: errata_inv_def bit_or_iff bit_pushed)

lemma errata_inv_flag: "errata_inv cpu s es st0 (br, st, clr) \<Longrightarrow> errata_inv cpu s es st0 (br', st, clr)"
  by (simp add: errata_inv_def)

lemma errata_step:
  assumes inv: "errata_inv cpu s es st0 (br, st, clr)" and e: "e \<in> set es" and ok: "errata_index_ok e"
  shows "\<exists>r. corei7_errata_body cpu s e (br, st, clr) = Some r \<and> errata_inv cpu s es st0 r"
proof (cases "br \<or> reg_value e = 0 \<or> is_compound_ctr_sub_bit_set e")
  case True
  then show ?thesis using inv by (auto simp: corei7_errata_body_def)
next
  case False
  then have nz: "reg_value e \<noteq> 0" "\<not> is_compound_ctr_sub_bit_set e" by auto
  let ?v = "rd cpu (reg_id e) s"
  consider (comp) "reg_id e = COMPOUND_PERF_CTR" | (gp) "reg_id e \<noteq> COMPOUND_PERF_CTR" "is_gp_reg_get e"
    | (fixed) "reg_id e \<noteq> COMPOUND_PERF_CTR" "\<not> is_gp_reg_get e" "fixed_reg_get e"
    | (none) "reg_id e \<noteq> COMPOUND_PERF_CTR" "\<not> is_gp_reg_get e" "\<not> fixed_reg_get e" by blast
  then show ?thesis
  proof cases
    case comp
    then have re: "?v = 0 \<or> in_window ?v \<Longrightarrow> errata_reason cpu s (unat COMPOUND_CTR_OVF_SHIFT) e"
      using nz by (auto simp: errata_reason_def Let_def)
    have lt: "unat COMPOUND_CTR_OVF_SHIFT < 64" by (simp add: COMPOUND_CTR_OVF_SHIFT_def)
    have b: "bit_u64 COMPOUND_CTR_OVF_SHIFT = Some (push_bit (unat COMPOUND_CTR_OVF_SHIFT) 1)"
      by (rule bit_u64_Some) (simp add: COMPOUND_CTR_OVF_SHIFT_def)
    show ?thesis
      using False comp b errata_inv_grow(2)[OF inv lt e re, of True] errata_inv_flag[OF inv, of True]
      by (simp add: corei7_errata_body_def Let_def)
  next
    case gp
    have lt: "gp_bit e < 64" using ok gp by (simp add: errata_index_ok_def)
    then have lt': "unat (gp_bit e) < 64" by (simp add: word_less_nat_alt)
    have re: "in_window ?v \<Longrightarrow> errata_reason cpu s (unat (gp_bit e)) e"
      using nz gp by (simp add: errata_reason_def Let_def)
    show ?thesis
      using False gp bit_u64_Some[OF lt] errata_inv_grow(1)[OF inv lt' e re, of False] errata_inv_flag[OF inv, of False]
      by (cases "in_window ?v") (auto simp: corei7_errata_body_def Let_def gp_bit_def [symmetric])
  next
    case fixed
    have lt: "fixed_bit e < 64" using ok fixed by (simp add: errata_index_ok_def)
    then have lt': "unat (fixed_bit e) < 64" by (simp add: word_less_nat_alt)
    have re: "in_window ?v \<Longrightarrow> errata_reason cpu s (unat (fixed_bit e)) e"
      using nz fixed by (simp add: errata_reason_def Let_def)
    have dead: "st AND push_bit (unat (fixed_bit e)) 1 = 0 \<Longrightarrow> clr AND push_bit (unat (fixed_bit e)) 1 = 0"
      by (rule masked_bit_zero[of st]) (use inv in \<open>auto simp: errata_inv_def\<close>)
    show ?thesis
      using False fixed bit_u64_Some[OF lt] errata_inv_grow(1)[OF inv lt' e re, of False] errata_inv_flag[OF inv, of False] dead
      by (cases "in_window ?v") (auto simp: corei7_errata_body_def Let_def fixed_bit_def [symmetric])
  next
    case none
    then show ?thesis using False errata_inv_flag[OF inv] by (simp add: corei7_errata_body_def)
  qed
qed

text \<open>
  The Core i7 overflow work-around only adds, and only for a reason. It returns on every
  block whose counters have a status bit; nothing that the hardware reported is lost, and every
  status bit it asks to clear is also one it reports, so no overflow is cleared unseen (which
  makes the branch that takes fixed counter 2 out of the report unreachable); and every bit it
  adds belongs to an enabled counter of the group whose value lies in the window after a wrap.
\<close>

theorem corei7_Check_Overflow_Errata_sound:
  assumes "cur_ecb cpu s = Some q" "ecb_wf q" "\<forall>e \<in> set (data_regs q). errata_index_ok e"
  shows "\<exists>st clr. corei7_Check_Overflow_Errata cpu s st0 = Some (st, clr) \<and>
    (\<forall>n. bit st0 n \<longrightarrow> bit clr n) \<and> (\<forall>n. bit clr n \<longrightarrow> bit st n) \<and>
    (\<forall>n. bit st n \<longrightarrow> bit st0 n \<or> (\<exists>e \<in> set (data_regs q). errata_reason cpu s n e))"
proof (cases "num_events (pcfg s) = 1")
  case True
  then show ?thesis by (simp add: corei7_Check_Overflow_Errata_def)
next
  case False
  have "\<exists>r. foldm (corei7_errata_body cpu s) (data_regs q) (False, st0, st0) = Some r \<and>
      errata_inv cpu s (data_regs q) st0 r"
  proof (rule foldm_rule)
    show "errata_inv cpu s (data_regs q) st0 (False, st0, st0)" by (simp add: errata_inv_def)
    fix e r assume e: "e \<in> set (data_regs q)" and r: "errata_inv cpu s (data_regs q) st0 r"
    obtain br st clr where "r = (br, st, clr)" by (cases r)
    with errata_step[of cpu s "data_regs q" st0 br st clr e] e r assms(3)
    show "\<exists>r'. corei7_errata_body cpu s e r = Some r' \<and> errata_inv cpu s (data_regs q) st0 r'" by blast
  qed
  with False show ?thesis
    by (auto simp: corei7_Check_Overflow_Errata_def FOR_EACH_eq(4)[OF assms(1,2)] errata_inv_def)
qed

theorem corei7_Check_Overflow_Errata_sound_witness:
  "\<exists>st clr. corei7_Check_Overflow_Errata 0 (wr 0 0xC2 5 (demo IA32_PMC0)) 1 = Some (st, clr) \<and>
    bit st 0 \<and> (bit clr 1 \<longrightarrow> bit st 1) \<and> \<not> bit st 40"
proof -
  let ?s = "wr 0 0xC2 5 (demo IA32_PMC0)"
  let ?q = "mk_ecb [mk_reg 0x186 0x60 0x4300C0 0, mk_reg 0x187 0x60 0x43003C 0]
              [mk_reg 0xC1 0x20 0xFF00 0, mk_reg 0xC2 0x20 0xFF01 1] 3"
  have q: "cur_ecb 0 ?s = Some ?q" by (simp add: demo_ecb IA32_PMC0_def)
  have d: "data_regs ?q = [mk_reg 0xC1 0x20 0xFF00 0, mk_reg 0xC2 0x20 0xFF01 1]" by simp
  have ok: "\<forall>e \<in> set (data_regs ?q). errata_index_ok e"
    by (simp add: d errata_index_ok_def flag_defs gp_bit_def IA32_PMC0_def)
  have no: "\<not> errata_reason 0 ?s 40 e" if "e \<in> set (data_regs ?q)" for e
    using that by (auto simp: d errata_reason_def Let_def flag_defs gp_bit_def msr_defs)
  have b: "bit (1 :: u64) 0" "\<not> bit (1 :: u64) 40" by (simp_all add: bit_1_iff)
  obtain st clr where r: "corei7_Check_Overflow_Errata 0 ?s 1 = Some (st, clr)"
    "\<forall>n. bit (1 :: u64) n \<longrightarrow> bit clr n" "\<forall>n. bit clr n \<longrightarrow> bit st n"
    "\<forall>n. bit st n \<longrightarrow> bit (1 :: u64) n \<or> (\<exists>e \<in> set (data_regs ?q). errata_reason 0 ?s n e)"
    using corei7_Check_Overflow_Errata_sound[OF q _ ok, of 1] by auto
  have "bit st 0" using r(2,3) b(1) by blast
  moreover have "\<not> bit st 40" using r(4) no b(2) by blast
  ultimately show ?thesis using r(1,3) by blast
qed

end
