(* ===== verification/Silvermont.thy ===== *)
theory Silvermont
  imports Core2_Correct
begin

text \<open>
  The PMU driver of silvermont.c, and its correctness: it shares the multiplexing tables and
  the rotation with core2.c, over the full-width counters, and adds an errata fix to the
  initial programming.
\<close>

section \<open>Operations\<close>

definition ENABLE_IA32_PERFEVTSEL0_CTR :: u64 where "ENABLE_IA32_PERFEVTSEL0_CTR = 0x400000"
definition ENABLE_FIXED_CTR0 :: u64 where "ENABLE_FIXED_CTR0 = 0x3"

definition silvermont_init_value :: "event_reg \<Rightarrow> u64" where
  "silvermont_init_value e =
     (if reg_id e = IA32_PERF_GLOBAL_CTRL then 0
      else if reg_id e = IA32_PEBS_ENABLE \<and> reg_value e \<noteq> 0 then 0
      else reg_value e)"

text \<open>The fix for fixed counter 0: if it is enabled, general-purpose counter 0 must be too.\<close>

definition fixed_ctr0_fix :: "nat \<Rightarrow> drv \<Rightarrow> drv" where
  "fixed_ctr0_fix cpu s =
     (if rd cpu IA32_FIXED_CTRL s AND ENABLE_FIXED_CTR0 \<noteq> 0
      then wr cpu IA32_PERFEVTSEL0 (rd cpu IA32_PERFEVTSEL0 s OR ENABLE_IA32_PERFEVTSEL0_CTR) s
      else s)"

definition silvermont_Write_PMU :: "errata \<Rightarrow> nat \<Rightarrow> drv \<Rightarrow> drv option" where
  "silvermont_Write_PMU hw_errata cpu s = do { pcpu \<leftarrow> pcb s cpu;
     s \<leftarrow> (if current_group pcpu = 0 \<and> em_mode (global_ec s) \<noteq> EM_DISABLED
           then em_init_tables IA32_FULL_PMC0 cpu s else Some s);
     s \<leftarrow> call_errata hw_errata cpu s;
     s \<leftarrow> FOR_EACH_REG_ENTRY cpu s (\<lambda>e s. Some (wr cpu (reg_id e) (silvermont_init_value e) s)) s;
     Some (fixed_ctr0_fix cpu s) }"

definition silvermont_Disable_PMU :: "nat \<Rightarrow> drv \<Rightarrow> drv option" where
  "silvermont_Disable_PMU cpu s =
     (if current_phase (driver_state s) \<noteq> RUNNING
      then do {
        let s = wr cpu IA32_PERF_GLOBAL_CTRL 0 s;
        let s = wr cpu IA32_PEBS_ENABLE 0 s;
        APIC_Disable_PMI cpu s }
      else Some s)"

definition silvermont_Enable_PMU :: "nat \<Rightarrow> drv \<Rightarrow> drv option" where
  "silvermont_Enable_PMU cpu s = do { pecb \<leftarrow> cur_ecb_ptr cpu s;
     if current_phase (driver_state s) = RUNNING
     then do {
       s \<leftarrow> APIC_Enable_Pmi cpu s;
       p \<leftarrow> pcb s cpu;
       s \<leftarrow> (if reset_mask p \<noteq> 0
             then do { g \<leftarrow> entry_value pecb 0; d \<leftarrow> entry_value pecb 3;
               let s = wr cpu IA32_PERF_GLOBAL_CTRL g s;
               let s = wr cpu IA32_DEBUG_CTRL d s;
               set_pcpu (reset_mask_update (\<lambda>_. 0)) cpu s }
             else Some s);
       if group_swap p \<noteq> 0
       then do { s \<leftarrow> set_pcpu (group_swap_update (\<lambda>_. 0)) cpu s;
         g \<leftarrow> entry_value pecb 0; v \<leftarrow> entry_value pecb 2; d \<leftarrow> entry_value pecb 3;
         let s = wr cpu IA32_PERF_GLOBAL_CTRL g s;
         let s = wr cpu IA32_PEBS_ENABLE v s;
         Some (wr cpu IA32_DEBUG_CTRL d s) }
       else Some s }
     else Some s }"

definition silvermont_Read_PMU_Data :: "nat \<Rightarrow> drv \<Rightarrow> drv option" where
  "silvermont_Read_PMU_Data cpu s = do { pecb \<leftarrow> cur_ecb cpu s;
     let start_index = ecb_num_events pecb * of_nat cpu;
     FOR_EACH_DATA_REG cpu s (\<lambda>e s.
       if is_compound_ctr_sub_bit_set e then Some s
       else do { b \<leftarrow> list_put (read_counter_info s) (unat (start_index + ucast (event_id_index e)))
                        (rd cpu (reg_id e) s);
                 Some (s\<lparr>read_counter_info := b\<rparr>) }) s }"

definition silvermont_ovf_index :: "event_reg \<Rightarrow> u32 option" where
  "silvermont_ovf_index e =
     (if fixed_reg_get e then Some (ucast (reg_id e) - ucast IA32_FIXED_CTR0 + 0x20)
      else if is_gp_reg_get e then Some (ucast (reg_id e) - ucast IA32_FULL_PMC0)
      else None)"

definition silvermont_Check_Overflow_body :: "ovf_errata \<Rightarrow> nat \<Rightarrow> event_reg
    \<Rightarrow> u64 \<times> drv \<times> event_mask list \<Rightarrow> (u64 \<times> drv \<times> event_mask list) option" where
  "silvermont_Check_Overflow_body ce cpu e = (\<lambda>(overflow_status, s, masks).
     case silvermont_ovf_index e of None \<Rightarrow> Some (overflow_status, s, masks)
     | Some index \<Rightarrow> do {
         let overflow_status = (case ce of Some f \<Rightarrow>
               (if fixed_reg_get e then f cpu s e overflow_status else overflow_status)
             | None \<Rightarrow> overflow_status);
         b \<leftarrow> bit_u64 index;
         if overflow_status AND b \<noteq> 0
         then do { (s, masks) \<leftarrow> record_overflow True cpu e (s, masks); Some (overflow_status, s, masks) }
         else Some (overflow_status, s, masks) })"

definition silvermont_Check_Overflow :: "ovf_errata \<Rightarrow> gp_errata \<Rightarrow> nat \<Rightarrow> drv \<Rightarrow> (drv \<times> event_mask list) option" where
  "silvermont_Check_Overflow ce ge cpu s = do {
     (overflow_status, overflow_status_clr) \<leftarrow> read_overflow_status ge cpu s;
     let s = s\<lparr>sample_count := (sample_count s)(cpu := 0)\<rparr>;
     (_, s, masks) \<leftarrow> FOR_EACH_DATA_REG cpu s (silvermont_Check_Overflow_body ce cpu) (overflow_status, s, []);
     s \<leftarrow> finish_overflow cpu overflow_status_clr s;
     Some (s, masks) }"

definition silvermont_Swap_Group :: "errata \<Rightarrow> nat \<Rightarrow> drv \<Rightarrow> drv option" where
  "silvermont_Swap_Group hw_errata cpu s = do { p \<leftarrow> pcb s cpu;
     let st_index = current_group p * max_gp_events (global_ec s);
     let next_group = current_group p + 1;
     let next_group = (if next_group \<ge> num_groups (global_ec s) then 0 else next_group);
     s \<leftarrow> (if \<not> event_based_counts (pcfg s) then em_save IA32_FULL_PMC0 cpu st_index s else Some s);
     s \<leftarrow> set_group cpu next_group s;
     s \<leftarrow> call_errata hw_errata cpu s;
     s \<leftarrow> FOR_EACH_CCCR_GP_REG cpu s (\<lambda>e s. Some (wr cpu (reg_id e) (reg_value e) s)) s;
     s \<leftarrow> (if event_based_counts (pcfg s)
           then FOR_EACH_DATA_REG cpu s (\<lambda>e s. do { p \<leftarrow> pcb s cpu;
                  Some (if ucast (event_id_index e) \<noteq> trigger_event_num p then wr cpu (reg_id e) 0 s else s) }) s
           else do { p \<leftarrow> pcb s cpu;
                  em_load IA32_FULL_PMC0 cpu (current_group p * max_gp_events (global_ec s)) s });
     s \<leftarrow> FOR_EACH_ESCR_REG cpu s (\<lambda>e s. Some (wr cpu (reg_id e) (reg_value e) s)) s;
     set_pcpu (\<lambda>p. p\<lparr>trigger_count := em_factor (global_ec s), reset_mask := 0, group_swap := 1\<rparr>) cpu s }"

definition silvermont_Initialize :: "nat \<Rightarrow> drv \<Rightarrow> drv option" where
  "silvermont_Initialize cpu s = (case pcb s cpu of None \<Rightarrow> Some s | Some p \<Rightarrow> do {
     let slot = pmu_slot cpu s;
     let s = upd_pcpu cpu (p\<lparr>cs_pmu_state := slot\<rparr>) s;
     case slot of None \<Rightarrow> Some s | Some i \<Rightarrow> do {
       s \<leftarrow> save_pmu_state i (rd cpu IA32_DEBUG_CTRL s) s;
       save_pmu_state (i + 1) (rd cpu IA32_PERF_GLOBAL_CTRL s) s } })"

definition silvermont_Destroy :: "nat \<Rightarrow> drv \<Rightarrow> drv option" where
  "silvermont_Destroy cpu s = (case pcb s cpu of None \<Rightarrow> Some s | Some p \<Rightarrow>
     case cs_pmu_state p of None \<Rightarrow> Some s | Some i \<Rightarrow> do {
       v \<leftarrow> read_pmu_state i s;
       let s = wr cpu IA32_DEBUG_CTRL v s;
       v \<leftarrow> read_pmu_state (i + 1) s;
       let s = wr cpu IA32_PERF_GLOBAL_CTRL v s;
       set_pcpu (cs_pmu_state_update (\<lambda>_. None)) cpu s })"

definition silvermont_Read_LBRs :: "nat \<Rightarrow> drv \<Rightarrow> u64 list" where
  "silvermont_Read_LBRs cpu s = map (\<lambda>r. SYS_Read_MSR cpu r s) (lbr_regs s)"

definition silvermont_Clean_Up :: "nat \<Rightarrow> drv \<Rightarrow> drv option" where
  "silvermont_Clean_Up cpu s =
     FOR_EACH_REG_ENTRY cpu s (\<lambda>e s. Some (if clean_up_get e then wr cpu (reg_id e) 0 s else s)) s"

definition silvermont_Read_Counts :: "nat \<Rightarrow> u32 \<Rightarrow> u64 list \<Rightarrow> drv \<Rightarrow> (u64 list \<times> drv) option" where
  "silvermont_Read_Counts cpu id_arg data s = do { p \<leftarrow> pcb s cpu;
     data \<leftarrow> list_put data 0 (ucast (current_group p + 1));
     FOR_EACH_DATA_REG cpu s (\<lambda>e (data, s).
       let event_id = ucast (event_id_index e) :: u32 in
       if event_id = id_arg
       then do { data \<leftarrow> list_put data (1 + unat event_id) (NOT (reg_value e - 1) AND max_bits e);
                 Some (data, s) }
       else do { data \<leftarrow> list_put data (1 + unat event_id) (rd cpu (reg_id e) s);
                 Some (data, wr cpu (reg_id e) 0 s) }) (data, s) }"

definition silvermont_Platform_Info :: "nat \<Rightarrow> (u64 \<times> u32) option \<Rightarrow> drv \<Rightarrow> (u64 \<times> u32) option" where
  "silvermont_Platform_Info cpu platform_data s =
     (case platform_data of None \<Rightarrow> None
      | Some _ \<Rightarrow> Some (SYS_Read_MSR cpu 0xCE s, ucast (SYS_Read_MSR cpu 0xCD s AND 0x03)))"

definition silvermont_dispatch :: dispatch_node where
  "silvermont_dispatch = \<lparr>d_init = silvermont_Initialize, d_fini = silvermont_Destroy,
     d_write = silvermont_Write_PMU None, d_freeze = silvermont_Disable_PMU,
     d_restart = silvermont_Enable_PMU, d_read_data = silvermont_Read_PMU_Data,
     d_check_overflow = silvermont_Check_Overflow None None,
     d_swap_group = silvermont_Swap_Group None, d_read_lbrs = silvermont_Read_LBRs,
     d_cleanup = silvermont_Clean_Up, d_hw_errata = None, d_read_power = None,
     d_check_overflow_errata = None, d_read_counts = silvermont_Read_Counts,
     d_check_overflow_gp_errata = None, d_platform_info = Some silvermont_Platform_Info\<rparr>"

section \<open>Rotation\<close>

lemma silvermont_swap_with: "silvermont_Swap_Group he cpu s = swap_with IA32_FULL_PMC0 he cpu s"
  by (simp only: silvermont_Swap_Group_def swap_with_def)

lemmas silvermont_swap_rotates = swap_with_rotates [where base = IA32_FULL_PMC0, folded silvermont_swap_with]

interpretation slmrot: group_rotation "\<lambda>s. rot_ok IA32_FULL_PMC0 cpu s \<and> errata_ok he" "rot_cur cpu" rot_cnt
  "\<lambda>g s. rot_row IA32_FULL_PMC0 cpu g s" "rot_live cpu" "silvermont_Swap_Group he cpu" for cpu he
proof (unfold_locales, goal_cases)
  case (1 s)
  then show ?case by (auto simp: rot_ok_def rot_cur_def rot_cnt_def em_ok_def split: option.splits)
next
  case (2 s)
  then show ?case using silvermont_swap_rotates[of cpu s he] unfolding rotated_def by blast
qed

text \<open>
  On Silvermont, too, a full rotation through the groups returns to the group it started
  from with the counters of that group unchanged.
\<close>

theorem silvermont_full_rotation:
  assumes "rot_ok IA32_FULL_PMC0 cpu s"
  shows "\<exists>t. iterm (d_swap_group silvermont_dispatch cpu) (unat (num_groups (global_ec s))) s = Some t \<and>
    rot_ok IA32_FULL_PMC0 cpu t \<and> rot_cur cpu t = rot_cur cpu s \<and> rot_live cpu t = rot_live cpu s"
  using slmrot.full_rotation[of cpu s None] assms
  by (auto simp: rot_cnt_def errata_ok_def silvermont_dispatch_def)

lemma demo_rot_ok_full: "rot_ok IA32_FULL_PMC0 0 (demo IA32_FULL_PMC0)"
  by (simp add: rot_ok_def em_ok_def demo_defs group_ok_def gp_window_def escr_clear_def flag_defs
      msr_defs word_le_nat_alt)

theorem silvermont_full_rotation_witness:
  "\<exists>t. iterm (d_swap_group silvermont_dispatch 0) 2 (demo IA32_FULL_PMC0) = Some t \<and>
    rot_live 0 t = rot_live 0 (demo IA32_FULL_PMC0)"
  using silvermont_full_rotation[OF demo_rot_ok_full] by (auto simp: demo_def)

section \<open>Initial programming\<close>

text \<open>
  Programming a Silvermont core. From the first group, programming returns; global control
  and PEBS enable, where the group has them, are 0; every other register a single entry names
  holds the entry's value, except that the event selection of counter 0 also has its enable bit
  set whenever the fixed counter 0 was enabled by the programming.
\<close>

theorem silvermont_Write_PMU_spec:
  assumes "em_ok IA32_FULL_PMC0 cpu s" "errata_ok he" "rot_cur cpu s = 0" "cur_ecb cpu s = Some q"
  shows "\<exists>t. silvermont_Write_PMU he cpu s = Some t \<and>
    (\<forall>r \<in> {IA32_PERF_GLOBAL_CTRL, IA32_PEBS_ENABLE}. r \<in> reg_id ` set (all_regs q) \<longrightarrow> rd cpu r t = 0) \<and>
    (\<forall>e \<in> set (all_regs q). (\<forall>e' \<in> set (all_regs q). reg_id e' = reg_id e \<longrightarrow> e' = e) \<longrightarrow>
       reg_id e \<notin> {IA32_PERF_GLOBAL_CTRL, IA32_PEBS_ENABLE, IA32_PERFEVTSEL0} \<longrightarrow> rd cpu (reg_id e) t = reg_value e) \<and>
    (rd cpu IA32_FIXED_CTRL t AND ENABLE_FIXED_CTR0 \<noteq> 0 \<longrightarrow>
       rd cpu IA32_PERFEVTSEL0 t AND ENABLE_IA32_PERFEVTSEL0_CTR = ENABLE_IA32_PERFEVTSEL0_CTR)"
proof -
  let ?B = IA32_FULL_PMC0
  from assms(1) obtain p where p: "pcb s cpu = Some p" by (auto elim: em_okE)
  have g0: "current_group p = 0" using assms(3) p by (simp add: rot_cur_def unat_eq_0)
  have wf: "ecb_wf q" using assms(1,4) by (auto elim: em_okE)
  from em_init_run[OF assms(1) p g0] obtain T where
    T: "(if em_mode (global_ec s) \<noteq> EM_DISABLED then em_init_tables ?B cpu s else Some s) =
        Some (upd_pcpu cpu (p\<lparr>em_tables := T, current_group := 0\<rparr>) s)" by blast
  let ?s1 = "upd_pcpu cpu (p\<lparr>em_tables := T, current_group := 0\<rparr>) s"
  from call_errata_ok[OF assms(2)] obtain s2 where
    s2: "call_errata he cpu ?s1 = Some s2" "msr_only cpu ?s1 s2" by blast
  have st: "pcb s2 cpu = Some (p\<lparr>em_tables := T, current_group := 0\<rparr>)"
    "PMU_register_data s2 = PMU_register_data s"
    using s2(2) by (simp_all add: msr_only_def)
  have ecb: "cur_ecb cpu s2 = Some q" using assms(4) p g0 st by (simp add: cur_ecb_def)
  let ?u = "wr_regs cpu silvermont_init_value (all_regs q) s2"
  let ?t = "fixed_ctr0_fix cpu ?u"
  have run: "silvermont_Write_PMU he cpu s = Some ?t"
    using p g0 T(1) s2(1) by (simp add: silvermont_Write_PMU_def FOR_EACH_eq(6)[OF ecb wf] foldm_wr)
  have ne: "IA32_PERF_GLOBAL_CTRL \<noteq> IA32_PERFEVTSEL0" "IA32_PEBS_ENABLE \<noteq> IA32_PERFEVTSEL0"
    "IA32_FIXED_CTRL \<noteq> IA32_PERFEVTSEL0" by (simp_all add: msr_defs)
  have keep: "rd cpu r ?t = rd cpu r ?u" if "r \<noteq> IA32_PERFEVTSEL0" for r
    using that by (simp add: fixed_ctr0_fix_def)
  have z: "rd cpu r ?u = 0" if "r \<in> {IA32_PERF_GLOBAL_CTRL, IA32_PEBS_ENABLE}" "r \<in> reg_id ` set (all_regs q)" for r
    by (rule read_wr_regs_const) (use that in \<open>auto simp: silvermont_init_value_def\<close>)
  have v: "rd cpu (reg_id e) ?u = reg_value e"
    if "e \<in> set (all_regs q)" "\<forall>e' \<in> set (all_regs q). reg_id e' = reg_id e \<longrightarrow> e' = e"
      "reg_id e \<notin> {IA32_PERF_GLOBAL_CTRL, IA32_PEBS_ENABLE, IA32_PERFEVTSEL0}" for e
    using read_wr_regs_in[OF that(1), of silvermont_init_value cpu s2] that(2,3)
    by (auto simp: silvermont_init_value_def)
  have "rd cpu IA32_PERFEVTSEL0 ?t AND ENABLE_IA32_PERFEVTSEL0_CTR = ENABLE_IA32_PERFEVTSEL0_CTR"
    if "rd cpu IA32_FIXED_CTRL ?t AND ENABLE_FIXED_CTR0 \<noteq> 0"
  proof -
    from that have "rd cpu IA32_FIXED_CTRL ?u AND ENABLE_FIXED_CTR0 \<noteq> 0" using keep[OF ne(3)] by simp
    then show ?thesis by (simp add: fixed_ctr0_fix_def)
  qed
  with run z v keep ne show ?thesis by (intro exI[of _ ?t]) auto
qed

theorem silvermont_Write_PMU_spec_witness:
  "\<exists>t. d_write silvermont_dispatch 0 (demo IA32_FULL_PMC0) = Some t \<and>
    rd 0 IA32_PERF_GLOBAL_CTRL t = 0 \<and> rd 0 0x187 t = 0x43003C"
proof -
  let ?q = "mk_ecb [mk_reg 0x186 0x60 0x4300C0 0, mk_reg 0x187 0x60 0x43003C 0]
              [mk_reg 0x4C1 0x20 0xFF00 0, mk_reg 0x4C2 0x20 0xFF01 1] 3"
  have q: "cur_ecb 0 (demo IA32_FULL_PMC0) = Some ?q"
    by (simp add: cur_ecb_def demo_defs msr_defs)
  have em: "em_ok IA32_FULL_PMC0 0 (demo IA32_FULL_PMC0)" using demo_rot_ok_full by (simp add: rot_ok_def)
  have m: "rot_cur 0 (demo IA32_FULL_PMC0) = 0" by (simp add: rot_cur_def demo_defs)
  have ne: "errata_ok None" by (simp add: errata_ok_def)
  have a: "all_regs ?q = mk_hdr 3 @ [mk_reg 0x186 0x60 0x4300C0 0, mk_reg 0x187 0x60 0x43003C 0,
      mk_reg 0x4C1 0x20 0xFF00 0, mk_reg 0x4C2 0x20 0xFF01 1]" by (simp add: mk_hdr_def)
  from silvermont_Write_PMU_spec[OF em ne m q] obtain t where
    t: "silvermont_Write_PMU None 0 (demo IA32_FULL_PMC0) = Some t"
    "IA32_PERF_GLOBAL_CTRL \<in> reg_id ` set (all_regs ?q) \<longrightarrow> rd 0 IA32_PERF_GLOBAL_CTRL t = 0"
    "\<forall>e \<in> set (all_regs ?q). (\<forall>e' \<in> set (all_regs ?q). reg_id e' = reg_id e \<longrightarrow> e' = e) \<longrightarrow>
       reg_id e \<notin> {IA32_PERF_GLOBAL_CTRL, IA32_PEBS_ENABLE, IA32_PERFEVTSEL0} \<longrightarrow> rd 0 (reg_id e) t = reg_value e"
    by blast
  have "rd 0 IA32_PERF_GLOBAL_CTRL t = 0"
    using t(2) by (simp add: a mk_hdr_def msr_defs)
  moreover have "rd 0 (reg_id (mk_reg 0x187 0x60 0x43003C 0)) t = reg_value (mk_reg 0x187 0x60 0x43003C 0)"
    by (rule t(3)[rule_format]) (auto simp: a mk_hdr_def msr_defs)
  ultimately show ?thesis using t(1) by (simp add: silvermont_dispatch_def)
qed

end
