(* ===== verification/CorePmu.thy ===== *)
theory CorePmu
  imports Core2_Correct
begin

text \<open>
  The PMU driver of core.c (Core Solo and Duo): one control register enables counting, there is
  no global status, and an overflow is found by comparing each counter with its reload value.
\<close>

section \<open>Operations\<close>

definition CORE_ENABLE_BIT :: u64 where "CORE_ENABLE_BIT = 0x0400000"
definition EM_INT_MASK :: u64 where "EM_INT_MASK = 0x0100000"

definition core_Write_PMU :: "nat \<Rightarrow> drv \<Rightarrow> drv option" where
  "core_Write_PMU cpu s = do { pcpu \<leftarrow> pcb s cpu;
     s \<leftarrow> (if current_group pcpu = 0 \<and> em_mode (global_ec s) \<noteq> EM_DISABLED
           then em_init_tables IA32_PMC0 cpu s else Some s);
     FOR_EACH_REG_ENTRY cpu s (\<lambda>e s. Some (wr cpu (reg_id e) (reg_value e) s)) s }"

definition core_Disable_PMU :: "nat \<Rightarrow> drv \<Rightarrow> drv option" where
  "core_Disable_PMU cpu s = do { pecb \<leftarrow> cur_ecb_ptr cpu s; v \<leftarrow> entry_value pecb 0;
     let s = wr cpu IA32_PERFEVTSEL0 v s;
     if current_phase (driver_state s) \<noteq> RUNNING then APIC_Disable_PMI cpu s else Some s }"

definition core_Enable_PMU :: "nat \<Rightarrow> drv \<Rightarrow> drv option" where
  "core_Enable_PMU cpu s = do { pecb \<leftarrow> cur_ecb_ptr cpu s;
     if current_phase (driver_state s) = RUNNING
     then do { s \<leftarrow> APIC_Enable_Pmi cpu s; v \<leftarrow> entry_value pecb 0;
       Some (wr cpu IA32_PERFEVTSEL0 (v OR CORE_ENABLE_BIT) s) }
     else Some s }"

definition core_ovf_body :: "nat \<Rightarrow> event_reg \<Rightarrow> drv \<times> event_mask list \<Rightarrow> (drv \<times> event_mask list) option" where
  "core_ovf_body cpu e = (\<lambda>(s, masks).
     let event_sel_reg = ucast IA32_PERFEVTSEL0 + (ucast (reg_id e) - ucast IA32_PMC0) :: u32;
         val = SYS_Read_MSR cpu event_sel_reg s
     in Some (if val AND EM_INT_MASK \<noteq> 0 \<and> rd cpu (reg_id e) s AND max_bits e < reg_value e
              then (wr cpu (reg_id e) (reg_value e) s, push_mask (event_id_index e, 0) masks)
              else (s, masks)))"

definition core_Check_Overflow :: "nat \<Rightarrow> drv \<Rightarrow> (drv \<times> event_mask list) option" where
  "core_Check_Overflow cpu s =
     (let s = s\<lparr>sample_count := (sample_count s)(cpu := 0)\<rparr>
      in FOR_EACH_DATA_REG cpu s (core_ovf_body cpu) (s, []))"

definition core_Read_PMU_Data :: "nat \<Rightarrow> drv \<Rightarrow> drv option" where
  "core_Read_PMU_Data cpu s =
     (let start_index = num_events (pcfg s) * of_nat cpu in
      FOR_EACH_DATA_REG cpu s (\<lambda>e s. do {
        b \<leftarrow> list_put (read_counter_info s) (unat (start_index + ucast (event_id_index e))) (rd cpu (reg_id e) s);
        Some (s\<lparr>read_counter_info := b\<rparr>) }) s)"

definition core_Swap_Group :: "nat \<Rightarrow> drv \<Rightarrow> drv option" where
  "core_Swap_Group cpu s = do { p \<leftarrow> pcb s cpu;
     let st_index = current_group p * max_gp_events (global_ec s);
     next_group \<leftarrow> (if num_groups (global_ec s) = 0 then None
                    else Some ((current_group p + 1) mod num_groups (global_ec s)));
     s \<leftarrow> (if \<not> event_based_counts (pcfg s) then em_save IA32_PMC0 cpu st_index s else Some s);
     s \<leftarrow> set_group cpu next_group s;
     s \<leftarrow> FOR_EACH_CCCR_GP_REG cpu s (\<lambda>e s. Some (wr cpu (reg_id e) (reg_value e) s)) s;
     if event_based_counts (pcfg s)
     then FOR_EACH_DATA_REG cpu s (\<lambda>e s. do { p \<leftarrow> pcb s cpu;
            Some (if ucast (event_id_index e) \<noteq> trigger_event_num p then wr cpu (reg_id e) 0 s else s) }) s
     else do { p \<leftarrow> pcb s cpu;
            em_load IA32_PMC0 cpu (current_group p * max_gp_events (global_ec s)) s } }"

definition core_Clean_Up :: "nat \<Rightarrow> drv \<Rightarrow> drv option" where
  "core_Clean_Up cpu s =
     FOR_EACH_REG_ENTRY cpu s (\<lambda>e s. Some (if clean_up_get e then wr cpu (reg_id e) 0 s else s)) s"

definition core_Read_Counts :: "nat \<Rightarrow> u32 \<Rightarrow> u64 list \<Rightarrow> drv \<Rightarrow> (u64 list \<times> drv) option" where
  "core_Read_Counts cpu id_arg data s = do { p \<leftarrow> pcb s cpu;
     data \<leftarrow> list_put data 0 (ucast (current_group p + 1));
     FOR_EACH_DATA_REG cpu s (\<lambda>e (data, s).
       let event_id = ucast (event_id_index e) :: u32 in
       if event_id = id_arg
       then do { data \<leftarrow> list_put data (1 + unat event_id) (NOT (reg_value e - 1) AND max_bits e);
                 Some (data, s) }
       else do { data \<leftarrow> list_put data (1 + unat event_id) (rd cpu (reg_id e) s);
                 Some (data, wr cpu (reg_id e) 0 s) }) (data, s) }"

definition core_Initialize :: "nat \<Rightarrow> drv \<Rightarrow> drv option" where "core_Initialize cpu s = Some s"
definition core_Destroy :: "nat \<Rightarrow> drv \<Rightarrow> drv option" where "core_Destroy cpu s = Some s"
definition core_Dummy1 :: "nat \<Rightarrow> drv \<Rightarrow> u64 list" where "core_Dummy1 cpu s = []"

definition core_dispatch :: dispatch_node where
  "core_dispatch = \<lparr>d_init = core_Initialize, d_fini = core_Destroy, d_write = core_Write_PMU,
     d_freeze = core_Disable_PMU, d_restart = core_Enable_PMU, d_read_data = core_Read_PMU_Data,
     d_check_overflow = core_Check_Overflow, d_swap_group = core_Swap_Group,
     d_read_lbrs = core_Dummy1, d_cleanup = core_Clean_Up, d_hw_errata = None, d_read_power = None,
     d_check_overflow_errata = None, d_read_counts = core_Read_Counts,
     d_check_overflow_gp_errata = None, d_platform_info = None\<rparr>"

section \<open>Rotation\<close>

lemma next_mod_u32:
  fixes g n :: u32
  assumes "unat g < unat n"
  shows "(g + 1) mod n = (if g + 1 \<ge> n then 0 else g + 1)"
proof (cases "g + 1 \<ge> n")
  case True
  then have "unat (g + 1) = unat n"
    using assms unat_plus1_lt[OF assms] by (simp add: word_le_nat_alt)
  then have "g + 1 = n" by (simp add: word_unat_eq_iff)
  then show ?thesis by simp
next
  case False
  then have "unat (g + 1) < unat n" by (simp add: word_le_nat_alt)
  then have "unat ((g + 1) mod n) = unat (g + 1)" by (simp add: unat_mod)
  with False show ?thesis by (simp add: word_unat_eq_iff)
qed

lemma core_swap_rotates:
  assumes ok: "rot_ok IA32_PMC0 cpu s"
  shows "\<exists>t. core_Swap_Group cpu s = Some t \<and> rotated IA32_PMC0 cpu s t"
proof -
  let ?B = IA32_PMC0
  let ?mx = "max_gp_events (global_ec s)" and ?n = "num_groups (global_ec s)"
  from ok have em: "em_ok ?B cpu s" and ebc: "\<not> event_based_counts (pcfg s)" by (simp_all add: rot_ok_def)
  from em obtain p q where p: "pcb s cpu = Some p" and q: "cur_ecb cpu s = Some q"
    and cur: "unat (current_group p) < unat ?n" by (auto elim: em_okE)
  define ng where "ng = (if current_group p + 1 \<ge> ?n then 0 else current_group p + 1)"
  have md: "?n \<noteq> 0" "(current_group p + 1) mod ?n = ng"
    using cur next_mod_u32[OF cur] by (auto simp: ng_def)
  from em_save_ok[OF em p q] obtain T where
    sv: "em_save ?B cpu (current_group p * ?mx) s = Some (upd_pcpu cpu (p\<lparr>em_tables := T\<rparr>) s)" and
    T: "length T = length (em_tables p)"
      "\<forall>e \<in> set (data_gp_regs q). T ! em_index ?B (current_group p * ?mx) e = rd cpu (reg_id e) s"
      "\<forall>i. i \<notin> em_index ?B (current_group p * ?mx) ` set (data_gp_regs q) \<longrightarrow> T ! i = em_tables p ! i"
    by blast
  have ngn: "unat ng < unat ?n" using next_group_eq[OF cur] cur unfolding ng_def by (auto split: if_splits)
  from em_ok_group[OF em ngn] obtain q' where q': "PMU_register_data s ! unat ng = Some q'" "ecb_wf q'"
    "gp_window ?B ?mx q'" "unat ng < length (PMU_register_data s)" by metis
  let ?p2 = "p\<lparr>em_tables := T, current_group := ng\<rparr>"
  let ?s2 = "upd_pcpu cpu ?p2 s"
  have sg: "set_group cpu ng (upd_pcpu cpu (p\<lparr>em_tables := T\<rparr>) s) = Some ?s2"
    by (simp add: set_group_def)
  have ecb2: "cur_ecb cpu ?s2 = Some q'" using q' by (simp add: cur_ecb_def)
  let ?s4 = "wr_regs cpu reg_value (cccr_gp_regs q') ?s2"
  have em4: "em_ok ?B cpu ?s4"
    by (rule em_ok_upd[OF em p, of ?p2]) (use T(1) ngn in simp_all)
  have ld: "em_load ?B cpu (ng * ?mx) ?s4 =
      Some (wr_regs cpu (\<lambda>e. T ! em_index ?B (ng * ?mx) e) (data_gp_regs q') ?s4)"
    and lv: "\<forall>e \<in> set (data_gp_regs q').
      rd cpu (reg_id e) (wr_regs cpu (\<lambda>e. T ! em_index ?B (ng * ?mx) e) (data_gp_regs q') ?s4) =
      T ! em_index ?B (ng * ?mx) e"
    using em_load_ok[OF em4, of ?p2 q'] ecb2 by simp_all
  let ?t = "wr_regs cpu (\<lambda>e. T ! em_index ?B (ng * ?mx) e) (data_gp_regs q') ?s4"
  have "core_Swap_Group cpu s = Some ?t"
    unfolding core_Swap_Group_def
    using p sv sg ebc ecb2 q'(2) ld md
    by (simp add: FOR_EACH_eq [where p = q'] foldm_wr Let_def del: wr_regs_simps)
  moreover have "rotated ?B cpu s ?t"
  proof (rule rotation_step[OF ok p q ng_def T q'(1)])
    show "\<forall>e \<in> set (data_gp_regs q'). rd cpu (reg_id e) ?t = T ! em_index ?B (ng * ?mx) e" by (rule lv)
    show "pcb ?t = (pcb s)(cpu \<mapsto> ?p2)" by simp
    show "em_tables ?p2 = T" by simp
    show "current_group ?p2 = ng" by simp
  qed simp_all
  ultimately show ?thesis by blast
qed

interpretation corerot: group_rotation "rot_ok IA32_PMC0 cpu" "rot_cur cpu" rot_cnt
  "\<lambda>g s. rot_row IA32_PMC0 cpu g s" "rot_live cpu" "core_Swap_Group cpu" for cpu
proof (unfold_locales, goal_cases)
  case (1 s)
  then show ?case by (auto simp: rot_ok_def rot_cur_def rot_cnt_def em_ok_def split: option.splits)
next
  case (2 s)
  then show ?case using core_swap_rotates[of cpu s] unfolding rotated_def by blast
qed

text \<open>
  The Core driver's swap, which takes the next group modulo the number of groups instead of
  comparing, rotates just the same: after as many swaps as there are groups, without a division
  fault, the starting group is current and its counters are as they were.
\<close>

theorem core_full_rotation:
  assumes "rot_ok IA32_PMC0 cpu s"
  shows "\<exists>t. iterm (core_Swap_Group cpu) (unat (num_groups (global_ec s))) s = Some t \<and>
    rot_ok IA32_PMC0 cpu t \<and> rot_cur cpu t = rot_cur cpu s \<and> rot_live cpu t = rot_live cpu s"
  using corerot.full_rotation[OF assms] by (simp add: rot_cnt_def)

theorem core_full_rotation_witness:
  "\<exists>t. iterm (core_Swap_Group 0) 2 (demo IA32_PMC0) = Some t \<and> rot_live 0 t = rot_live 0 (demo IA32_PMC0)"
  using core_full_rotation[OF demo_rot_ok] by (auto simp: demo_def)

end
