(* ===== verification/Pebs_Correct.thy ===== *)
theory Pebs_Correct
  imports Core2_Correct
begin

text \<open>
  Correctness of pebs.c: each CPU's record area lies in its own slot of the global memory and is
  aligned; the debug-store area is handed back; and a reset index means no pending record.
\<close>

section \<open>Memory writes touch memory only\<close>

lemma mem_wr_frame [simp]:
  "msr (mem_wr a v s) = msr s" "pcb (mem_wr a v s) = pcb s" "pcfg (mem_wr a v s) = pcfg s"
  "pebs_dispatch (mem_wr a v s) = pebs_dispatch s" "driver_state (mem_wr a v s) = driver_state s"
  "pebs_global_memory (mem_wr a v s) = pebs_global_memory s"
  "SYS_Read_MSR c r (mem_wr a v s) = SYS_Read_MSR c r s"
  by (simp_all add: mem_wr_def SYS_Read_MSR_def)

lemma mem_rd_wr: "mem_rd a (mem_wr a' v s) = (if a = a' then v else mem_rd a s)"
  by (simp add: mem_rd_def mem_wr_def)

lemma initialize_threshold_frame [simp]:
  "pcb (pebs_initialize_threshold k d n s) = pcb s" "pcfg (pebs_initialize_threshold k d n s) = pcfg s"
  "pebs_dispatch (pebs_initialize_threshold k d n s) = pebs_dispatch s"
  "pebs_global_memory (pebs_initialize_threshold k d n s) = pebs_global_memory s"
  "SYS_Read_MSR c r (pebs_initialize_threshold k d n s) = SYS_Read_MSR c r s"
  by (cases k; simp add: pebs_Corei7_Initialize_Threshold_def pebs_Core2_Initialize_Threshold_def)+

section \<open>No record pending after a reset\<close>

lemma dts_offset_inj [simp]: "(dts :: u64) + DTS_pebs_base = dts + DTS_pebs_index \<longleftrightarrow> False"
  by (simp add: dts_defs)

text \<open>
  C24: consuming a PEBS record. After \<open>PEBS_Reset_Index\<close>, in every PEBS mode, the overflow test
  adds nothing to the status and the sample's instruction pointer is left as the interrupt
  recorded it; and before it, whatever the records say, the overflow test only adds bits.
\<close>

theorem PEBS_Reset_Index_consumes:
  assumes "pcb s cpu = Some p" "pebs_dispatch s = Some k"
  shows "\<exists>t. PEBS_Reset_Index cpu s = Some t \<and> PEBS_Overflowed cpu st t = Some st \<and>
    PEBS_Modify_IP cpu samp is64 t = Some samp \<and>
    (\<exists>st'. PEBS_Overflowed cpu st s = Some st' \<and> (\<forall>n. bit st n \<longrightarrow> bit st' n))"
proof -
  let ?d = "dts_buffer p"
  let ?t = "if ?d \<noteq> 0 then mem_wr (?d + DTS_pebs_index) (mem_rd (?d + DTS_pebs_base) s) s else s"
  have r: "PEBS_Reset_Index cpu s = Some ?t" using assms by (simp add: PEBS_Reset_Index_def Let_def)
  have t: "pcb ?t cpu = Some p" "pebs_dispatch ?t = Some k" using assms by simp_all
  have eq: "?d \<noteq> 0 \<Longrightarrow> mem_rd (?d + DTS_pebs_index) ?t = mem_rd (?d + DTS_pebs_base) ?t"
    by (simp add: mem_rd_wr)
  note ovf = PEBS_Overflowed_def pebs_Corei7_Overflow_def pebs_Core2_Overflow_def
  have "PEBS_Overflowed cpu st ?t = Some st"
    by (cases k; cases "?d = 0") (use t eq in \<open>simp_all add: ovf Let_def\<close>)
  moreover have "PEBS_Modify_IP cpu samp is64 ?t = Some samp"
    by (cases k; cases "?d = 0")
      (use t eq in \<open>simp_all add: PEBS_Modify_IP_def pebs_Modify_IP_def pebs_Modify_IP_With_Eventing_IP_def Let_def\<close>)
  moreover have "\<exists>st'. PEBS_Overflowed cpu st s = Some st' \<and> (\<forall>n. bit st n \<longrightarrow> bit st' n)"
    by (cases k) (use assms in \<open>auto simp: ovf Let_def bit_or_iff\<close>)
  ultimately show ?thesis using r by blast
qed

definition demo_pebs :: drv where
  "demo_pebs = demo IA32_PMC0\<lparr>pebs_dispatch := Some haswell_pebs, pebs_global_memory := 0x100000,
     pcb := [0 \<mapsto> demo_cpu\<lparr>dts_buffer := 0x100000\<rparr>], kmem := (\<lambda>_. 0)(0x100028 := 0xB0),
     pcfg := (pcfg drv0)\<lparr>pebs_mode := 4\<rparr>\<rparr>"

theorem PEBS_Reset_Index_consumes_witness:
  "\<exists>t. PEBS_Reset_Index 0 demo_pebs = Some t \<and> PEBS_Overflowed 0 5 t = Some 5 \<and>
    PEBS_Modify_IP 0 \<lparr>u1_iip = 7, u1_ipsr = 8\<rparr> True t = Some \<lparr>u1_iip = 7, u1_ipsr = 8\<rparr>"
proof -
  have "pcb demo_pebs 0 = Some (demo_cpu\<lparr>dts_buffer := 0x100000\<rparr>)" "pebs_dispatch demo_pebs = Some haswell_pebs"
    by (simp_all add: demo_pebs_def)
  from PEBS_Reset_Index_consumes[OF this, of 5 "\<lparr>u1_iip = 7, u1_ipsr = 8\<rparr>" True] show ?thesis by blast
qed

section \<open>Slots\<close>

lemma unat_align_32:
  assumes "unat x + 31 < 2 ^ 64"
  shows "unat (ALIGN_32 x) = (unat x + 31) div 32 * 32"
proof -
  have "x + 31 AND NOT 31 = push_bit 5 (drop_bit 5 (x + 31))"
  proof -
    have m: "(31 :: u64) = mask 5" by (simp add: mask_eq_exp_minus_1)
    show ?thesis unfolding m by (rule bit_word_eqI) (auto simp: bit_simps)
  qed
  then have "unat (ALIGN_32 x) = take_bit 64 (push_bit 5 (drop_bit 5 (unat (x + 31))))"
    using take_bit_nat_eq_self[OF unsigned_less[of "x + 31"]]
    by (simp add: ALIGN_32_def unsigned_push_bit_eq unsigned_drop_bit_eq)
  also have "unat (x + 31) = unat x + 31" using assms by (subst unat_add_lem [THEN iffD1]) simp_all
  finally have "unat (ALIGN_32 x) = take_bit 64 (push_bit 5 (drop_bit 5 (unat x + 31)))" .
  also have "\<dots> = take_bit 64 ((unat x + 31) div 32 * 32)"
    by (simp add: push_bit_eq_mult drop_bit_eq_div)
  also have "\<dots> = (unat x + 31) div 32 * 32"
    by (intro take_bit_nat_eq_self le_less_trans[OF div_times_less_eq_dividend assms])
  finally show ?thesis .
qed

definition slot_size :: "u32 \<Rightarrow> nat" where
  "slot_size rec_size = 160 + 2 * unat rec_size"

lemma unat_buffer_size:
  assumes "unat rec_size < 0x10000"
  shows "unat (PER_CORE_BUFFER_SIZE rec_size) = slot_size rec_size"
    and "unat (ucast (PER_CORE_BUFFER_SIZE rec_size) :: u32) = slot_size rec_size"
proof -
  have 1: "unat (2 * rec_size) = 2 * unat rec_size"
    using assms by (subst unat_mult_lem [THEN iffD1]) simp_all
  have 2: "PER_CORE_BUFFER_SIZE rec_size = of_nat (slot_size rec_size)"
  proof -
    have "(ucast (2 * rec_size) :: u64) = of_nat (2 * unat rec_size)"
      using assms by (simp add: word_unat_eq_iff unat_of_nat 1 take_bit_nat_eq_self del: of_nat_mult of_nat_numeral)
    then show ?thesis by (simp add: PER_CORE_BUFFER_SIZE_def sizeof_DTS_BUFFER_EXT_NODE_def slot_size_def)
  qed
  have s: "slot_size rec_size < 0x40000" using assms by (simp add: slot_size_def)
  show "unat (PER_CORE_BUFFER_SIZE rec_size) = slot_size rec_size"
    unfolding 2 using s by (simp add: unat_of_nat take_bit_nat_eq_self)
  then show "unat (ucast (PER_CORE_BUFFER_SIZE rec_size) :: u32) = slot_size rec_size"
    using s by (simp add: unsigned_ucast_eq take_bit_nat_eq_self)
qed

lemma unat_slot:
  assumes "unat rec_size < 0x10000" "cpu < n" "n * slot_size rec_size < 2 ^ 32"
    "unat (pebs_global_memory s) + n * slot_size rec_size < 2 ^ 64"
  shows "unat (pebs_slot cpu rec_size s) = unat (pebs_global_memory s) + cpu * slot_size rec_size"
    and "cpu * slot_size rec_size + slot_size rec_size \<le> n * slot_size rec_size"
proof -
  let ?z = "slot_size rec_size"
  have "Suc cpu * ?z \<le> n * ?z" using assms(2) by (intro mult_right_mono) auto
  then show le: "cpu * ?z + ?z \<le> n * ?z" by simp
  have "cpu * 1 \<le> cpu * ?z" by (rule mult_le_mono2) (simp add: slot_size_def)
  then have "cpu \<le> cpu * ?z" unfolding mult_1_right .
  moreover have "cpu * ?z < 4294967296" using le assms(3) by (simp add: slot_size_def)
  ultimately have "cpu < 4294967296" by (rule le_less_trans)
  then have c: "unat (of_nat cpu :: u32) = cpu" by (rule unat_of_nat_u32)
  have 1: "unat (of_nat cpu * (ucast (PER_CORE_BUFFER_SIZE rec_size) :: u32)) = cpu * ?z"
    using le assms(3) by (subst unat_mult_lem [THEN iffD1]) (simp_all add: c unat_buffer_size[OF assms(1)])
  show "unat (pebs_slot cpu rec_size s) = unat (pebs_global_memory s) + cpu * ?z"
    unfolding pebs_slot_def
    using le assms(4) by (subst unat_add_lem [THEN iffD1]) (simp_all add: 1)
qed

text \<open>
  C25: the PEBS areas are disjoint and aligned. If the global area neither wraps the address
  space nor exceeds U32, the record area of a CPU (room for two records) starts at a multiple of
  32 behind the CPU's own header, ends inside the CPU's slot, and so lies wholly before the slot
  of every CPU with a higher number; and all slots lie inside the allocated area.
\<close>

theorem pebs_slots_disjoint:
  assumes "unat rec_size < 0x10000" "cpu < cpu'" "cpu' < n" "n * slot_size rec_size < 2 ^ 32"
    "unat (pebs_global_memory s) + n * slot_size rec_size < 2 ^ 64"
  shows "unat (pebs_record_base (pebs_slot cpu rec_size s)) mod 32 = 0 \<and>
    unat (pebs_slot cpu rec_size s) + 96 \<le> unat (pebs_record_base (pebs_slot cpu rec_size s)) \<and>
    unat (pebs_record_base (pebs_slot cpu rec_size s)) + 2 * unat rec_size
      \<le> unat (pebs_slot cpu rec_size s) + slot_size rec_size \<and>
    unat (pebs_slot cpu rec_size s) + slot_size rec_size \<le> unat (pebs_slot cpu' rec_size s) \<and>
    unat (pebs_slot cpu' rec_size s) + slot_size rec_size \<le> unat (pebs_global_memory s) + n * slot_size rec_size"
proof -
  let ?z = "slot_size rec_size" and ?d = "pebs_slot cpu rec_size s"
  have cn: "cpu < n" using assms(2,3) by simp
  note u = unat_slot[OF assms(1) cn assms(4,5)] and u' = unat_slot[OF assms(1,3,4,5)]
  have "Suc cpu * ?z \<le> cpu' * ?z" using assms(2) by (intro mult_right_mono) auto
  then have nxt: "cpu * ?z + ?z \<le> cpu' * ?z" by simp
  have lim: "unat ?d + ?z < 2 ^ 64" using u assms(5) by simp
  have b: "unat (?d + ucast sizeof_DTS_BUFFER_EXT_NODE) = unat ?d + 96"
    using lim by (subst unat_add_lem [THEN iffD1]) (simp_all add: sizeof_DTS_BUFFER_EXT_NODE_def slot_size_def)
  have al: "unat (ALIGN_32 (?d + ucast sizeof_DTS_BUFFER_EXT_NODE)) = (unat ?d + 96 + 31) div 32 * 32"
    using lim b by (subst unat_align_32) (simp_all add: slot_size_def)
  have low: "unat (x AND 0x1F) = unat x mod 32" for x :: u64
  proof -
    have "x AND 0x1F = take_bit 5 x" by (simp add: take_bit_eq_mask mask_eq_exp_minus_1)
    then show ?thesis by (simp add: unsigned_take_bit_eq take_bit_eq_mod unat_mod)
  qed
  have rb: "unat (pebs_record_base ?d) = (unat ?d + 96 + 31) div 32 * 32"
  proof (cases "(?d + ucast sizeof_DTS_BUFFER_EXT_NODE) AND 0x1F = 0")
    case True
    then have "(unat ?d + 96) mod 32 = 0" using low b by (metis unat_0)
    then have "(unat ?d + 96 + 31) div 32 * 32 = unat ?d + 96" by presburger
    with True b show ?thesis by (simp add: pebs_record_base_def Let_def)
  next
    case False
    with al show ?thesis by (simp add: pebs_record_base_def Let_def)
  qed
  have "unat ?d + 96 \<le> (unat ?d + 96 + 31) div 32 * 32" "(unat ?d + 96 + 31) div 32 * 32 \<le> unat ?d + 127"
    by presburger+
  then show ?thesis using rb u u' nxt by (auto simp: slot_size_def)
qed

theorem pebs_slots_disjoint_witness:
  "unat (pebs_record_base (pebs_slot 0 0xC0 demo_pebs)) mod 32 = 0 \<and>
   unat (pebs_record_base (pebs_slot 0 0xC0 demo_pebs)) + 2 * 0xC0 \<le> unat (pebs_slot 0 0xC0 demo_pebs) + 544"
  using pebs_slots_disjoint[of "0xC0" 0 1 4 demo_pebs] by (simp add: slot_size_def demo_pebs_def)

section \<open>The debug-store area\<close>

text \<open>PEBS is set up on a CPU only where it is available.\<close>

definition pebs_available :: "nat \<Rightarrow> drv \<Rightarrow> bool" where
  "pebs_available c s = (let v = rd c IA32_MISC_ENABLE s in v AND 0x80 \<noteq> 0 \<and> v AND 0x1000 = 0)"

text \<open>Without memory every CPU but the first writes through a pointer that is NULL plus its offset.\<close>

lemma alloc_without_memory:
  assumes "unat n < 0x10000" "0 < c" "Suc c * slot_size n < 2 ^ 32" "pebs_global_memory s = 0"
  shows "pebs_Alloc_DTS_Buffer c n s = None"
proof -
  have "unat (pebs_slot c n s) = c * slot_size n" using unat_slot[OF assms(1) _ assms(3), of c s] assms(3,4) by simp
  then have "pebs_slot c n s \<noteq> 0" using assms(2) by (auto simp: slot_size_def)
  then show ?thesis using assms(4) by (simp add: pebs_Alloc_DTS_Buffer_def Let_def)
qed

lemma alloc_dts_frame:
  assumes "pebs_dispatch s = Some k" "pebs_global_memory s \<noteq> 0"
  shows "\<exists>d t. pebs_Alloc_DTS_Buffer c n s = Some (d, t) \<and> pcb t = pcb s \<and> pcfg t = pcfg s \<and>
    pebs_dispatch t = pebs_dispatch s \<and> pebs_global_memory t = pebs_global_memory s \<and> (\<forall>c r. SYS_Read_MSR c r t = SYS_Read_MSR c r s)"
  using assms by (auto simp: pebs_Alloc_DTS_Buffer_def Let_def)

lemma allocate_buffers_ok:
  assumes "pcb s c = Some p" "pebs_dispatch s = Some k" "pebs_global_memory s \<noteq> 0"
  shows "\<exists>t p'. pebs_Allocate_Buffers n c s = Some t \<and> pcb t = (pcb s)(c \<mapsto> p') \<and> pcfg t = pcfg s \<and>
    pebs_dispatch t = pebs_dispatch s \<and> pebs_global_memory t = pebs_global_memory s \<and> (\<forall>c' r. c' \<noteq> c \<longrightarrow> SYS_Read_MSR c' r t = SYS_Read_MSR c' r s) \<and>
    old_dts_buffer p' = (if pebs_available c s then rd c IA32_DS_AREA s else old_dts_buffer p)"
proof -
  have ne: "IA32_MISC_ENABLE \<noteq> IA32_PEBS_ENABLE" "IA32_DS_AREA \<noteq> IA32_PEBS_ENABLE" by (simp_all add: msr_defs)
  let ?s = "wr c IA32_PEBS_ENABLE 0 s"
  let ?p = "p\<lparr>old_dts_buffer := rd c IA32_DS_AREA s\<rparr>"
  let ?s1 = "upd_pcpu c ?p ?s"
  have k: "pebs_dispatch ?s1 = Some k" "pebs_global_memory ?s1 \<noteq> 0" using assms(2,3) by (simp_all add: upd_pcpu_def)
  obtain d t where dt: "pebs_Alloc_DTS_Buffer c n ?s1 = Some (d, t)" "pcb t = pcb ?s1" "pcfg t = pcfg ?s1"
    "pebs_dispatch t = pebs_dispatch ?s1" "pebs_global_memory t = pebs_global_memory ?s1" "\<forall>c r. SYS_Read_MSR c r t = SYS_Read_MSR c r ?s1"
    using alloc_dts_frame[OF k, of c n] by blast
  show ?thesis
  proof (cases "pebs_available c s")
    case True
    let ?t = "wr c IA32_DS_AREA d (upd_pcpu c (?p\<lparr>dts_buffer := d\<rparr>) t)"
    have "pebs_Allocate_Buffers n c s = Some ?t"
      using True assms(1) dt(1,2) ne not_sym[OF ne(1)] not_sym[OF ne(2)]
      by (simp add: pebs_Allocate_Buffers_def pebs_available_def Let_def)
    moreover have "pebs_dispatch ?t = pebs_dispatch s" "pebs_global_memory ?t = pebs_global_memory s" using dt(4,5) by (simp_all add: upd_pcpu_def)
    ultimately show ?thesis using True dt by (intro exI[of _ ?t] exI[of _ "?p\<lparr>dts_buffer := d\<rparr>"]) auto
  next
    case False
    then have "pebs_Allocate_Buffers n c s = Some ?s"
      using ne not_sym[OF ne(1)] by (auto simp: pebs_Allocate_Buffers_def pebs_available_def Let_def)
    moreover have "pcb ?s = (pcb s)(c \<mapsto> p)" using assms(1) by auto
    ultimately show ?thesis using False by (intro exI[of _ ?s] exI[of _ p]) auto
  qed
qed

text \<open>
  C23: what a PEBS session leaves in the debug-store registers. When the buffers can be allocated (\<open>mem\<close> is not
  NULL), setting up and tearing down over
  distinct CPUs returns in every supported mode, whatever the collection does in between to
  registers and memory as long as it keeps the CPUs' saved pointers. A CPU on which PEBS is
  available gets back the debug-store area it had. A CPU on which it is not available was never
  saved, yet it is written too: it ends with whatever the saved-pointer field held beforehand.
\<close>

theorem PEBS_session_ds_area:
  assumes "distinct cpus" "\<forall>c \<in> set cpus. pcb s c \<noteq> None" "pebs_mode (pcfg s) \<in> {1, 2, 3, 4}" "mem \<noteq> 0"
  shows "\<exists>t. PEBS_Initialize cpus mem s = Some t \<and>
    (\<forall>u. pebs_mode (pcfg u) \<noteq> 0 \<and>
        (\<forall>c \<in> set cpus. map_option old_dts_buffer (pcb u c) = map_option old_dts_buffer (pcb t c)) \<longrightarrow>
      (\<exists>v. PEBS_Destroy cpus u = Some v \<and>
        (\<forall>c \<in> set cpus. rd c IA32_DS_AREA v =
           (if pebs_available c s then rd c IA32_DS_AREA s else old_dts_buffer (the (pcb s c))))))"
proof -
  obtain k n where kn: "pebs_select (pebs_mode (pcfg s)) (pebs_dispatch s) = (Some k, n)"
    using assms(3) by (auto simp: pebs_select_def)
  let ?s0 = "s\<lparr>pebs_dispatch := Some k, pebs_global_memory_size := scast (num_cpus (driver_state s)) * PER_CORE_BUFFER_SIZE n,
      pebs_global_memory := mem\<rparr>"
  have r0: "SYS_Read_MSR c r ?s0 = SYS_Read_MSR c r s" for c r by (simp add: SYS_Read_MSR_def)
  define want where "want c = (if pebs_available c s then rd c IA32_DS_AREA s else old_dts_buffer (the (pcb s c)))" for c
  let ?P = "\<lambda>pre t. pebs_dispatch t = Some k \<and> pebs_global_memory t = mem \<and> (\<forall>c \<in> set pre. map_option old_dts_buffer (pcb t c) = Some (want c)) \<and>
    (\<forall>c. c \<notin> set pre \<longrightarrow> pcb t c = pcb s c \<and> (\<forall>r. SYS_Read_MSR c r t = SYS_Read_MSR c r s))"
  have "\<exists>t. foldm (pebs_Allocate_Buffers n) cpus ?s0 = Some t \<and> ?P cpus t"
  proof (rule foldm_prefix_rule [where P = ?P])
    show "?P [] ?s0" by (simp add: r0)
  next
    fix pre c t assume P: "?P pre t" and c: "c \<in> set cpus" and "\<exists>post. cpus = pre @ c # post"
    with assms(1) have cn: "c \<notin> set pre" by auto
    with P assms(2) c obtain p where p: "pcb t c = Some p" "pcb s c = Some p" by auto
    from P cn have rd: "rd c r t = rd c r s" for r by blast
    then have av: "pebs_available c t = pebs_available c s" by (simp add: pebs_available_def)
    from P assms(4) have k: "pebs_dispatch t = Some k" "pebs_global_memory t \<noteq> 0" by blast+
    obtain t' p' where t': "pebs_Allocate_Buffers n c t = Some t'" "pcb t' = (pcb t)(c \<mapsto> p')"
      "pebs_dispatch t' = pebs_dispatch t" "pebs_global_memory t' = pebs_global_memory t" "\<forall>c' r. c' \<noteq> c \<longrightarrow> SYS_Read_MSR c' r t' = SYS_Read_MSR c' r t"
      "old_dts_buffer p' = (if pebs_available c t then rd c IA32_DS_AREA t else old_dts_buffer p)"
      using allocate_buffers_ok[OF p(1) k, of n] by blast
    have "old_dts_buffer p' = want c" using t'(6) av rd p(2) by (simp add: want_def)
    then have "?P (pre @ [c]) t'" using P t'(2-5) by auto
    with t'(1) show "\<exists>t'. pebs_Allocate_Buffers n c t = Some t' \<and> ?P (pre @ [c]) t'" by blast
  qed
  then obtain t where t: "foldm (pebs_Allocate_Buffers n) cpus ?s0 = Some t"
    "\<forall>c \<in> set cpus. map_option old_dts_buffer (pcb t c) = Some (want c)" by blast
  have "pebs_mode (pcfg s) \<noteq> 0" using assms(3) by auto
  then have run: "PEBS_Initialize cpus mem s = Some t" using t(1) kn by (simp add: PEBS_Initialize_def)
  have "\<exists>v. PEBS_Destroy cpus u = Some v \<and> (\<forall>c \<in> set cpus. rd c IA32_DS_AREA v = want c)"
    if u: "pebs_mode (pcfg u) \<noteq> 0" "\<forall>c \<in> set cpus. map_option old_dts_buffer (pcb u c) = map_option old_dts_buffer (pcb t c)" for u
  proof -
    let ?Q = "\<lambda>pre v. (\<forall>c \<in> set pre. rd c IA32_DS_AREA v = want c) \<and> (\<forall>c. c \<notin> set pre \<longrightarrow> pcb v c = pcb u c)"
    have "\<exists>v. foldm pebs_Deallocate_Buffers cpus u = Some v \<and> ?Q cpus v"
    proof (rule foldm_prefix_rule [where P = ?Q])
      fix pre c v assume Q: "?Q pre v" and c: "c \<in> set cpus" and "\<exists>post. cpus = pre @ c # post"
      with assms(1) have cn: "c \<notin> set pre" by auto
      from u(2) t(2) c have "map_option old_dts_buffer (pcb u c) = Some (want c)" by simp
      with Q cn obtain p where p: "pcb v c = Some p" "old_dts_buffer p = want c" by auto
      let ?v = "upd_pcpu c (p\<lparr>dts_buffer := 0\<rparr>) (wr c IA32_DS_AREA (want c) v)"
      have "pebs_Deallocate_Buffers c v = Some ?v" using p by (simp add: pebs_Deallocate_Buffers_def)
      moreover have "?Q (pre @ [c]) ?v" using Q cn by auto
      ultimately show "\<exists>v'. pebs_Deallocate_Buffers c v = Some v' \<and> ?Q (pre @ [c]) v'" by blast
    qed simp
    then obtain v where v: "foldm pebs_Deallocate_Buffers cpus u = Some v" "\<forall>c \<in> set cpus. rd c IA32_DS_AREA v = want c" by blast
    have "PEBS_Destroy cpus u = Some (v\<lparr>pebs_global_memory := 0, pebs_global_memory_size := 0\<rparr>)"
      using u(1) v(1) by (simp add: PEBS_Destroy_def)
    with v(2) show ?thesis by (auto simp: SYS_Read_MSR_def)
  qed
  with run show ?thesis unfolding want_def by blast
qed

theorem PEBS_session_ds_area_witness:
  "\<exists>t v. PEBS_Initialize [0] 0x100000 (wr 0 IA32_DS_AREA 9 (wr 0 IA32_MISC_ENABLE 0x80 demo_pebs)) = Some t \<and>
    PEBS_Destroy [0] t = Some v \<and> rd 0 IA32_DS_AREA v = 9"
proof -
  let ?s = "wr 0 IA32_DS_AREA 9 (wr 0 IA32_MISC_ENABLE 0x80 demo_pebs)"
  have h: "\<forall>c \<in> set [0]. pcb ?s c \<noteq> None" "pebs_mode (pcfg ?s) \<in> {1, 2, 3, 4}"
    by (simp_all add: demo_pebs_def)
  have av: "pebs_available 0 ?s" "rd 0 IA32_DS_AREA ?s = 9" by (simp_all add: pebs_available_def msr_defs)
  from PEBS_session_ds_area[OF _ h, of "0x100000"] obtain t where
    t: "PEBS_Initialize [0] 0x100000 ?s = Some t" "pebs_mode (pcfg t) \<noteq> 0 \<Longrightarrow>
      \<exists>v. PEBS_Destroy [0] t = Some v \<and> rd 0 IA32_DS_AREA v = 9" using av by fastforce
  have "pcfg t = pcfg ?s"
  proof -
    from h(1) obtain p where p: "pcb ?s 0 = Some p" by auto
    let ?s0 = "?s\<lparr>pebs_dispatch := Some haswell_pebs, pebs_global_memory_size := scast (num_cpus (driver_state ?s)) *
      PER_CORE_BUFFER_SIZE sizeof_PEBS_REC_EXT1_NODE, pebs_global_memory := 0x100000\<rparr>"
    have "pcb ?s0 0 = Some p" "pebs_dispatch ?s0 = Some haswell_pebs" "pebs_global_memory ?s0 \<noteq> 0" using p by simp_all
    from allocate_buffers_ok[OF this, of sizeof_PEBS_REC_EXT1_NODE] obtain t' where
      "pebs_Allocate_Buffers sizeof_PEBS_REC_EXT1_NODE 0 ?s0 = Some t'" "pcfg t' = pcfg ?s0" by blast
    with t(1) show ?thesis by (simp add: PEBS_Initialize_def pebs_select_def demo_pebs_def)
  qed
  then have "pebs_mode (pcfg t) \<noteq> 0" by (simp add: demo_pebs_def)
  from t(2)[OF this] t(1) show ?thesis by blast
qed

end
