(* ===== verification/Fifo.thy ===== *)
theory Fifo
  imports Prelude
begin

text \<open>
  The contract of a byte channel between a producer and a consumer: what is pending, what a
  record adds to it and what a read takes from it. Any run of operations that all succeed hands
  out the bytes in the order in which they were put in, none lost and none twice.
\<close>

datatype ('r, 'q) fifo_op = Put 'r | Get 'q

text \<open>A run of operations with the bytes that the reads handed out; a read carries its request.\<close>

fun run_fifo :: "('r \<Rightarrow> 's \<Rightarrow> 's option) \<Rightarrow> ('q \<Rightarrow> 's \<Rightarrow> ('b list \<times> 's) option) \<Rightarrow> ('r, 'q) fifo_op list
    \<Rightarrow> 's \<Rightarrow> ('b list \<times> 's) option" where
  "run_fifo put get [] s = Some ([], s)"
| "run_fifo put get (Put r # ops) s = do { s \<leftarrow> put r s; run_fifo put get ops s }"
| "run_fifo put get (Get q # ops) s = do { (d, s) \<leftarrow> get q s; (ds, s) \<leftarrow> run_fifo put get ops s; Some (d @ ds, s) }"

fun fifo_input :: "('r \<Rightarrow> 'b list) \<Rightarrow> ('r, 'q) fifo_op list \<Rightarrow> 'b list" where
  "fifo_input bytes [] = []"
| "fifo_input bytes (Put r # ops) = bytes r @ fifo_input bytes ops"
| "fifo_input bytes (Get q # ops) = fifo_input bytes ops"

locale fifo =
  fixes ok :: "'s \<Rightarrow> bool" and pending :: "'s \<Rightarrow> 'b list" and bytes :: "'r \<Rightarrow> 'b list"
    and put :: "'r \<Rightarrow> 's \<Rightarrow> 's option" and get :: "'q \<Rightarrow> 's \<Rightarrow> ('b list \<times> 's) option"
  assumes put_law: "ok s \<Longrightarrow> put r s = Some s' \<Longrightarrow> ok s' \<and> pending s' = pending s @ bytes r"
    and get_law: "ok s \<Longrightarrow> get q s = Some (d, s') \<Longrightarrow> ok s' \<and> pending s = d @ pending s'"
begin

lemma run_order:
  assumes "ok s" "run_fifo put get ops s = Some (out, t)"
  shows "ok t \<and> pending s @ fifo_input bytes ops = out @ pending t"
  using assms
proof (induction ops arbitrary: s out)
  case (Cons op ops)
  show ?case
  proof (cases op)
    case (Put r)
    with Cons.prems(2) obtain s' where s': "put r s = Some s'" "run_fifo put get ops s' = Some (out, t)"
      by (auto simp: bind_eq_Some_conv)
    from put_law[OF Cons.prems(1) s'(1)] Cons.IH[of s' out] s'(2) Put show ?thesis by simp
  next
    case (Get q)
    with Cons.prems(2) obtain d s' ds where s': "get q s = Some (d, s')" "run_fifo put get ops s' = Some (ds, t)"
      "out = d @ ds" by (auto simp: bind_eq_Some_conv)
    from get_law[OF Cons.prems(1) s'(1)] Cons.IH[of s' ds] s'(2,3) Get show ?thesis by simp
  qed
qed simp

lemma run_drained:
  assumes "ok s" "pending s = []" "run_fifo put get ops s = Some (out, t)" "pending t = []"
  shows "out = fifo_input bytes ops"
  using run_order[OF assms(1,3)] assms(2,4) by simp

end

end
