(* ===== verification/Output.thy ===== *)
theory Output
  imports Fifo
begin

text \<open>
  The sample and module buffers of output.c: each \<open>BUFFER_DESC\<close> has \<open>OUTPUT_NUM_BUFFERS\<close> buffers,
  one being filled while the other waits to be read. A pointer into a buffer is the pair of the
  buffer's index and an offset. Locks and wait queues are left out: a read that would wait is
  a result of its own, and resuming it is a separate operation.
\<close>

section \<open>State\<close>

definition OUTPUT_NUM_BUFFERS :: nat where "OUTPUT_NUM_BUFFERS = 2"

record outbuf_node =
  remaining_buffer_size :: u32
  current_buffer :: nat
  total_buffer_size :: u32
  buffer_full :: "u32 list"
  buffer :: "u8 list option list"

record output_state =
  cpu_buf :: "outbuf_node list"
  module_buf :: "outbuf_node option"
  flush :: bool
  flush_writers :: int
  abnormal_terminate :: bool

section \<open>Filling\<close>

definition put_bytes :: "nat \<times> nat \<Rightarrow> u8 list \<Rightarrow> outbuf_node \<Rightarrow> outbuf_node option" where
  "put_bytes loc bs o1 = do { b \<leftarrow> list_at (buffer o1) (fst loc); b \<leftarrow> b; b \<leftarrow> write_bytes (snd loc) bs b;
     Some (o1\<lparr>buffer := (buffer o1)[fst loc := Some b]\<rparr>) }"

text \<open>The loop over the other buffers: it takes the next one that is empty.\<close>

definition reserve_next :: "nat \<Rightarrow> (nat \<times> nat) option \<times> outbuf_node \<times> bool
    \<Rightarrow> ((nat \<times> nat) option \<times> outbuf_node \<times> bool) option" where
  "reserve_next i = (\<lambda>(outloc, o1, signal_full). let j = i mod OUTPUT_NUM_BUFFERS in do {
     f \<leftarrow> list_at (buffer_full o1) j;
     if f = 0 then do { b \<leftarrow> list_at (buffer o1) j;
       Some (map_option (\<lambda>_. (j, 0)) b,
             o1\<lparr>current_buffer := j, remaining_buffer_size := total_buffer_size o1\<rparr>, signal_full) }
     else Some (outloc, o1, False) })"

text \<open>The result: where to write (\<open>None\<close> for NULL), the new state, and whether a reader is woken.\<close>

definition OUTPUT_Reserve_Buffer_Space :: "u32 \<Rightarrow> outbuf_node \<Rightarrow> ((nat \<times> nat) option \<times> outbuf_node \<times> bool) option" where
  "OUTPUT_Reserve_Buffer_Space size1 o1 = do {
     (outloc, o1, signal_full) \<leftarrow>
       (if remaining_buffer_size o1 \<ge> size1
        then do { b \<leftarrow> list_at (buffer o1) (current_buffer o1);
          let off = unat (total_buffer_size o1 - remaining_buffer_size o1);
          (case b of Some _ \<Rightarrow> Some (Some (current_buffer o1, off), o1, False)
           | None \<Rightarrow> if off = 0 then Some (None, o1, False) else None) }
        else do {
          full \<leftarrow> list_put (buffer_full o1) (current_buffer o1) (total_buffer_size o1 - remaining_buffer_size o1);
          let start = current_buffer o1;
          foldm reserve_next [start + 1 ..< start + OUTPUT_NUM_BUFFERS] (None, o1\<lparr>buffer_full := full\<rparr>, True) });
     case outloc of None \<Rightarrow> Some (None, o1, signal_full)
     | Some loc \<Rightarrow> do {
         o1 \<leftarrow> put_bytes loc (replicate (unat size1) 0)
                 (o1\<lparr>remaining_buffer_size := remaining_buffer_size o1 - size1\<rparr>);
         Some (Some loc, o1, signal_full) } }"

definition output_Buffer_Fill :: "u8 list \<Rightarrow> u16 \<Rightarrow> outbuf_node \<Rightarrow> (nat \<times> outbuf_node) option" where
  "output_Buffer_Fill data size1 o1 = do {
     (outloc, o1, _) \<leftarrow> OUTPUT_Reserve_Buffer_Space (ucast size1) o1;
     case outloc of None \<Rightarrow> Some (0, o1)
     | Some loc \<Rightarrow> if unat size1 \<le> length data
         then do { o1 \<leftarrow> put_bytes loc (take (unat size1) data) o1; Some (unat size1, o1) }
         else None }"

definition OUTPUT_Module_Fill :: "u8 list \<Rightarrow> u16 \<Rightarrow> output_state \<Rightarrow> (nat \<times> output_state) option" where
  "OUTPUT_Module_Fill data size1 s = do { m \<leftarrow> module_buf s;
     (n, m) \<leftarrow> output_Buffer_Fill data size1 m;
     Some (n, s\<lparr>module_buf := Some m\<rparr>) }"

section \<open>Reading\<close>

text \<open>
  \<open>Would_Block cur\<close>: the reader sleeps until the flush flag is set or buffer \<open>cur\<close> is marked;
  \<open>Read_Bytes d eof\<close>: the bytes delivered, and whether the active-writer count goes down.
\<close>

datatype read_result = Would_Block nat | Read_No_Mem | Read_Bytes "u8 list" bool

text \<open>The circular search for a buffer that is marked; it ends where it began if there is none.\<close>

definition find_full :: "outbuf_node \<Rightarrow> (nat \<times> u32) option" where
  "find_full o1 = do {
     (_, cur, n) \<leftarrow> foldm (\<lambda>_ (found, cur, n). if found then Some (found, cur, n) else do {
         let cur = (if cur + 1 \<ge> OUTPUT_NUM_BUFFERS then 0 else cur + 1);
         n \<leftarrow> list_at (buffer_full o1) cur;
         Some (n \<noteq> 0, cur, n) }) [0 ..< OUTPUT_NUM_BUFFERS] (False, current_buffer o1, 0);
     Some (cur, n) }"

text \<open>From the point where the buffer and the byte count are known; \<open>uncopied\<close> is the answer of
  \<open>copy_to_user\<close>, \<open>count\<close> the size of the user's buffer.\<close>

definition output_Read_copy :: "nat \<Rightarrow> nat \<Rightarrow> bool \<Rightarrow> nat \<Rightarrow> u32 \<Rightarrow> outbuf_node \<Rightarrow> (read_result \<times> outbuf_node) option" where
  "output_Read_copy count uncopied abnormal cur to_copy o1 =
     (if unat to_copy > count then Some (Read_No_Mem, o1)
      else if abnormal then Some (Read_Bytes [] True, o1)
      else do {
        b \<leftarrow> list_at (buffer o1) cur;
        data \<leftarrow> (if to_copy = 0 then Some [] else do { bs \<leftarrow> b;
                   if unat to_copy \<le> length bs then Some (take (unat to_copy) bs) else None });
        full \<leftarrow> list_put (buffer_full o1) cur 0;
        let o1 = o1\<lparr>buffer_full := full\<rparr>;
        if uncopied \<noteq> 0 then Some (Read_Bytes (take (unat to_copy - uncopied) data) False, o1)
        else Some (Read_Bytes data (to_copy = 0), o1) })"

definition output_Read :: "nat \<Rightarrow> nat \<Rightarrow> bool \<Rightarrow> bool \<Rightarrow> outbuf_node \<Rightarrow> (read_result \<times> outbuf_node) option" where
  "output_Read count uncopied abnormal flushing o1 = do {
     (cur, to_copy) \<leftarrow> find_full o1;
     if \<not> flushing \<and> to_copy = 0 then Some (Would_Block cur, o1)
     else output_Read_copy count uncopied abnormal cur to_copy o1 }"

text \<open>The rest of the read after a wait on buffer \<open>cur\<close>.\<close>

definition output_Read_awakened :: "nat \<Rightarrow> nat \<Rightarrow> bool \<Rightarrow> nat \<Rightarrow> outbuf_node \<Rightarrow> (read_result \<times> outbuf_node) option" where
  "output_Read_awakened count uncopied abnormal cur o1 = do {
     to_copy \<leftarrow> list_at (buffer_full o1) cur;
     output_Read_copy count uncopied abnormal cur to_copy o1 }"

definition note_eof :: "read_result \<Rightarrow> output_state \<Rightarrow> output_state" where
  "note_eof r s = (case r of Read_Bytes _ True \<Rightarrow> s\<lparr>flush_writers := flush_writers s - 1\<rparr> | _ \<Rightarrow> s)"

definition OUTPUT_Module_Read :: "nat \<Rightarrow> nat \<Rightarrow> output_state \<Rightarrow> (read_result \<times> output_state) option" where
  "OUTPUT_Module_Read count uncopied s = do { m \<leftarrow> module_buf s;
     (r, m) \<leftarrow> output_Read count uncopied (abnormal_terminate s) (flush s) m;
     Some (r, note_eof r (s\<lparr>module_buf := Some m\<rparr>)) }"

definition OUTPUT_Sample_Read :: "nat \<Rightarrow> nat \<Rightarrow> nat \<Rightarrow> output_state \<Rightarrow> (read_result \<times> output_state) option" where
  "OUTPUT_Sample_Read minor count uncopied s = do { b \<leftarrow> list_at (cpu_buf s) minor;
     (r, b) \<leftarrow> output_Read count uncopied (abnormal_terminate s) (flush s) b;
     Some (r, note_eof r (s\<lparr>cpu_buf := (cpu_buf s)[minor := b]\<rparr>)) }"

section \<open>Setting up, flushing and tearing down\<close>

text \<open>
  \<open>alloc k\<close> tells whether the \<open>k\<close>-th request of \<open>CONTROL_Allocate_Memory\<close> can be met; the memory
  it gives is zeroed, and a request for no bytes is refused without asking. The count of requests
  is threaded through.
\<close>

type_synonym allocator = "nat \<Rightarrow> bool"

definition alloc_bytes :: "allocator \<Rightarrow> nat \<Rightarrow> nat \<Rightarrow> nat \<times> u8 list option" where
  "alloc_bytes alloc n k = (if n = 0 then (k, None)
     else (k + 1, if alloc k then Some (replicate n 0) else None))"

definition empty_output :: outbuf_node where
  "empty_output = \<lparr>remaining_buffer_size = 0, current_buffer = 0, total_buffer_size = 0,
     buffer_full = replicate OUTPUT_NUM_BUFFERS 0, buffer = replicate OUTPUT_NUM_BUFFERS None\<rparr>"

definition init_buffer :: "allocator \<Rightarrow> u32 \<Rightarrow> nat \<Rightarrow> nat \<times> bool \<times> outbuf_node \<Rightarrow> (nat \<times> bool \<times> outbuf_node) option" where
  "init_buffer alloc n j = (\<lambda>(k, good, o1). if \<not> good then Some (k, good, o1) else do {
     b \<leftarrow> list_at (buffer o1) j;
     let (k, b) = (case b of None \<Rightarrow> alloc_bytes alloc (unat n) k | Some bs \<Rightarrow> (k, Some bs));
     full \<leftarrow> list_put (buffer_full o1) j 0;
     Some (k, b \<noteq> None, o1\<lparr>buffer := (buffer o1)[j := b], buffer_full := full\<rparr>) })"

text \<open>
  The flag tells whether a descriptor with every buffer is returned; a failed call has already
  changed the descriptor it was given. A missing descriptor is allocated, which takes one request.
\<close>

definition output_Initialized_Buffers :: "allocator \<Rightarrow> u32 \<Rightarrow> u32 \<Rightarrow> nat \<Rightarrow> outbuf_node option
    \<Rightarrow> (nat \<times> bool \<times> outbuf_node) option" where
  "output_Initialized_Buffers alloc output_buffer_size factor k desc = do {
     let n = output_buffer_size * factor;
     let (k, good, o1) = (case desc of Some o1 \<Rightarrow> (k, True, o1) | None \<Rightarrow> (k + 1, alloc k, empty_output));
     (k, good, o1) \<leftarrow> foldm (init_buffer alloc n) [0 ..< OUTPUT_NUM_BUFFERS] (k, good, o1);
     Some (k, good, if good then o1\<lparr>current_buffer := 0, remaining_buffer_size := n, total_buffer_size := n\<rparr> else o1) }"

definition output_Free_Buffers :: "outbuf_node \<Rightarrow> outbuf_node option" where
  "output_Free_Buffers o1 = foldm (\<lambda>j o1. do { b \<leftarrow> list_put (buffer o1) j None; Some (o1\<lparr>buffer := b\<rparr>) })
     [0 ..< OUTPUT_NUM_BUFFERS] o1"

definition OUTPUT_Destroy :: "nat \<Rightarrow> output_state \<Rightarrow> output_state option" where
  "OUTPUT_Destroy num_cpus s = do {
     m \<leftarrow> (case module_buf s of None \<Rightarrow> Some None | Some m \<Rightarrow> do { m \<leftarrow> output_Free_Buffers m; Some (Some m) });
     foldm (\<lambda>i s. do { b \<leftarrow> list_at (cpu_buf s) i; b \<leftarrow> output_Free_Buffers b;
                       Some (s\<lparr>cpu_buf := (cpu_buf s)[i := b]\<rparr>) })
       [0 ..< num_cpus] (s\<lparr>module_buf := m\<rparr>) }"

definition MODULE_BUFF_SIZE :: u32 where "MODULE_BUFF_SIZE = 2"

text \<open>A failure frees what there is and answers \<open>OS_NO_MEM\<close>.\<close>

definition OUTPUT_Initialize :: "allocator \<Rightarrow> u32 \<Rightarrow> nat \<Rightarrow> output_state \<Rightarrow> (os_status \<times> output_state) option" where
  "OUTPUT_Initialize alloc output_buffer_size num_cpus s = do {
     (k, good, s) \<leftarrow> foldm (\<lambda>i (k, good, s). if \<not> good then Some (k, good, s) else do {
           b \<leftarrow> list_at (cpu_buf s) i;
           (k, good, b) \<leftarrow> output_Initialized_Buffers alloc output_buffer_size 1 k (Some b);
           Some (k, good, s\<lparr>cpu_buf := (cpu_buf s)[i := b]\<rparr>) })
         [0 ..< num_cpus] (0, True, s\<lparr>flush := False\<rparr>);
     if \<not> good then do { s \<leftarrow> OUTPUT_Destroy num_cpus s; Some (OS_NO_MEM, s) }
     else do {
       (k, good, m) \<leftarrow> output_Initialized_Buffers alloc output_buffer_size MODULE_BUFF_SIZE k (module_buf s);
       if good then Some (OS_SUCCESS, s\<lparr>module_buf := Some m\<rparr>)
       else do { s \<leftarrow> OUTPUT_Destroy num_cpus (s\<lparr>module_buf := None\<rparr>); Some (OS_NO_MEM, s) } } }"

definition flush_mark :: "outbuf_node \<Rightarrow> outbuf_node option" where
  "flush_mark o1 = do {
     full \<leftarrow> list_put (buffer_full o1) (current_buffer o1) (total_buffer_size o1 - remaining_buffer_size o1);
     Some (o1\<lparr>buffer_full := full\<rparr>) }"

definition flush_cpus :: "(nat \<Rightarrow> bool) \<Rightarrow> nat \<Rightarrow> output_state \<Rightarrow> output_state option" where
  "flush_cpus active num_cpus s = foldm (\<lambda>i s. if \<not> active i then Some s else do {
       b \<leftarrow> list_at (cpu_buf s) i; b \<leftarrow> flush_mark b; Some (s\<lparr>cpu_buf := (cpu_buf s)[i := b]\<rparr>) })
     [0 ..< num_cpus] s"

text \<open>
  \<open>OUTPUT_Flush\<close> up to its wait for the writers; \<open>active i\<close> is the CPU's initial mask. When the
  wait ends, the flush flag goes down again (\<open>OUTPUT_Flush_end\<close>).
\<close>

definition OUTPUT_Flush :: "(nat \<Rightarrow> bool) \<Rightarrow> nat \<Rightarrow> output_state \<Rightarrow> output_state option" where
  "OUTPUT_Flush active num_cpus s = do {
     s \<leftarrow> flush_cpus active num_cpus s;
     let s = s\<lparr>flush_writers := int (length (filter active [0 ..< num_cpus])) + 1, flush := True\<rparr>;
     s \<leftarrow> flush_cpus active num_cpus s;
     m \<leftarrow> module_buf s; m \<leftarrow> flush_mark m;
     Some (s\<lparr>module_buf := Some m\<rparr>) }"

definition OUTPUT_Flush_end :: "output_state \<Rightarrow> output_state option" where
  "OUTPUT_Flush_end s = (if flush_writers s = 0 then Some (s\<lparr>flush := False\<rparr>) else None)"

end
