(* ===== verification/Output_Correct.thy ===== *)
theory Output_Correct
  imports Output
begin

text \<open>
  The double buffering of output.c as a byte channel: while no record is refused, readers get
  the records in order, none lost and none twice; flushing hands over what is left. After a
  refused record that guarantee is gone, which a theorem shows.
\<close>

section \<open>Well-formed buffers\<close>

text \<open>Both buffers exist with the full size, and the one being filled is not marked.\<close>

definition out_ok :: "outbuf_node \<Rightarrow> bool" where
  "out_ok p = (\<exists>f0 f1 b0 b1. buffer_full p = [f0, f1] \<and> buffer p = [Some b0, Some b1] \<and>
     length b0 = unat (total_buffer_size p) \<and> length b1 = unat (total_buffer_size p) \<and>
     f0 \<le> total_buffer_size p \<and> f1 \<le> total_buffer_size p \<and>
     remaining_buffer_size p \<le> total_buffer_size p \<and>
     (current_buffer p = 0 \<and> f0 = 0 \<or> current_buffer p = 1 \<and> f1 = 0))"

definition used :: "outbuf_node \<Rightarrow> nat" where
  "used p = unat (total_buffer_size p) - unat (remaining_buffer_size p)"

definition out_bytes :: "nat \<Rightarrow> outbuf_node \<Rightarrow> u8 list" where
  "out_bytes j p = (case buffer p ! j of None \<Rightarrow> [] | Some b \<Rightarrow> b)"

text \<open>The bytes not yet handed out: the marked buffer first, then the one being filled.\<close>

definition out_pending :: "outbuf_node \<Rightarrow> u8 list" where
  "out_pending p = (let c = current_buffer p; n = 1 - c in
     take (unat (buffer_full p ! n)) (out_bytes n p) @ take (used p) (out_bytes c p))"

lemma unat_used: "remaining_buffer_size p \<le> total_buffer_size p \<Longrightarrow>
    unat (total_buffer_size p - remaining_buffer_size p) = used p"
  by (simp add: used_def unat_sub)

section \<open>Reserving and filling\<close>

text \<open>
  Writing \<open>bs\<close> behind the used part of the current buffer, whether there or, after a switch, at
  the start of the other one, appends \<open>bs\<close> to what is pending.
\<close>

definition append_at :: "outbuf_node \<Rightarrow> u8 list \<Rightarrow> outbuf_node" where
  "append_at p bs = p\<lparr>buffer := (buffer p)[current_buffer p :=
       Some (take (used p) (out_bytes (current_buffer p) p) @ bs @ drop (used p + length bs) (out_bytes (current_buffer p) p))],
     remaining_buffer_size := remaining_buffer_size p - of_nat (length bs)\<rparr>"

lemma unat_sub_len:
  assumes "length bs \<le> unat (r :: u32)"
  shows "unat (r - of_nat (length bs)) = unat r - length bs"
proof -
  have "unat (of_nat (length bs) :: u32) = length bs"
    by (rule unat_of_nat_u32) (use assms unat_lt_u32[of r] in linarith)
  then show ?thesis using assms by (subst unat_sub) (simp_all add: word_le_nat_alt)
qed

lemma append_at_ok:
  assumes ok: "out_ok p" and len: "length bs \<le> unat (remaining_buffer_size p)"
  shows "out_ok (append_at p bs)" and "out_pending (append_at p bs) = out_pending p @ bs"
    and "total_buffer_size (append_at p bs) = total_buffer_size p"
    and "used (append_at p bs) = used p + length bs"
proof -
  from ok obtain f0 f1 b0 b1 where d: "buffer_full p = [f0, f1]" "buffer p = [Some b0, Some b1]"
    "length b0 = unat (total_buffer_size p)" "length b1 = unat (total_buffer_size p)"
    "f0 \<le> total_buffer_size p" "f1 \<le> total_buffer_size p" "remaining_buffer_size p \<le> total_buffer_size p"
    "current_buffer p = 0 \<and> f0 = 0 \<or> current_buffer p = 1 \<and> f1 = 0" by (auto simp: out_ok_def)
  have r: "unat (remaining_buffer_size p - of_nat (length bs)) = unat (remaining_buffer_size p) - length bs"
    by (rule unat_sub_len[OF len])
  have le: "unat (remaining_buffer_size p) \<le> unat (total_buffer_size p)" using d(7) by (simp add: word_le_nat_alt)
  have le': "remaining_buffer_size p - of_nat (length bs) \<le> total_buffer_size p"
    using r le by (simp add: word_le_nat_alt)
  have fit: "used p + length bs \<le> unat (total_buffer_size p)" using le len by (simp add: used_def)
  show u: "used (append_at p bs) = used p + length bs"
    using le len by (simp add: used_def append_at_def r)
  show "out_ok (append_at p bs)"
    using d(8) by (elim disjE; use d fit le' in \<open>auto simp: out_ok_def append_at_def out_bytes_def\<close>)
  show "out_pending (append_at p bs) = out_pending p @ bs"
    using d(8)
    by (elim disjE; use d fit u in \<open>auto simp: out_pending_def append_at_def out_bytes_def Let_def used_def r\<close>)
  show "total_buffer_size (append_at p bs) = total_buffer_size p" by (simp add: append_at_def)
qed

text \<open>Switching to an unmarked buffer keeps what is pending.\<close>

definition switched :: "outbuf_node \<Rightarrow> outbuf_node" where
  "switched p = p\<lparr>buffer_full := (buffer_full p)[current_buffer p := total_buffer_size p - remaining_buffer_size p],
     current_buffer := 1 - current_buffer p, remaining_buffer_size := total_buffer_size p\<rparr>"

lemma switched_ok:
  assumes ok: "out_ok p" and free: "buffer_full p ! (1 - current_buffer p) = 0"
  shows "out_ok (switched p)" and "out_pending (switched p) = out_pending p" and "used (switched p) = 0"
proof -
  from ok obtain f0 f1 b0 b1 where d: "buffer_full p = [f0, f1]" "buffer p = [Some b0, Some b1]"
    "length b0 = unat (total_buffer_size p)" "length b1 = unat (total_buffer_size p)"
    "f0 \<le> total_buffer_size p" "f1 \<le> total_buffer_size p" "remaining_buffer_size p \<le> total_buffer_size p"
    "current_buffer p = 0 \<and> f0 = 0 \<or> current_buffer p = 1 \<and> f1 = 0" by (auto simp: out_ok_def)
  note u = unat_used[OF d(7)]
  have le: "total_buffer_size p - remaining_buffer_size p \<le> total_buffer_size p"
    using u d(7) by (simp add: word_le_nat_alt used_def)
  show "out_ok (switched p)"
    using d(8) by (elim disjE; use d le free in \<open>auto simp: out_ok_def switched_def\<close>)
  show "out_pending (switched p) = out_pending p"
    using d(8) by (elim disjE; use d u free in \<open>auto simp: out_pending_def switched_def Let_def out_bytes_def used_def\<close>)
  show "used (switched p) = 0" by (simp add: used_def switched_def)
qed

lemma put_bytes_cur:
  assumes "out_ok p" "length bs \<le> unat (remaining_buffer_size p)"
  shows "put_bytes (current_buffer p, used p) bs (p\<lparr>remaining_buffer_size := remaining_buffer_size p - of_nat (length bs)\<rparr>) =
    Some (append_at p bs)"
proof -
  from assms(1) obtain b0 b1 where d: "buffer p = [Some b0, Some b1]"
    "length b0 = unat (total_buffer_size p)" "length b1 = unat (total_buffer_size p)"
    "remaining_buffer_size p \<le> total_buffer_size p" "current_buffer p = 0 \<or> current_buffer p = 1" by (auto simp: out_ok_def)
  have fit: "used p + length bs \<le> unat (total_buffer_size p)"
    using assms(2) d(4) by (simp add: used_def word_le_nat_alt)
  show ?thesis
    using d(5) by (elim disjE; use d fit in \<open>simp add: put_bytes_def append_at_def out_bytes_def write_bytes_ok\<close>)
qed

lemma reserve_eq:
  assumes ok: "out_ok p" and sz: "size1 \<le> total_buffer_size p"
  shows "OUTPUT_Reserve_Buffer_Space size1 p =
    (if size1 \<le> remaining_buffer_size p
     then Some (Some (current_buffer p, used p), append_at p (replicate (unat size1) 0), False)
     else if buffer_full p ! (1 - current_buffer p) = 0
     then Some (Some (1 - current_buffer p, 0), append_at (switched p) (replicate (unat size1) 0), True)
     else Some (None, p\<lparr>buffer_full := (buffer_full p)[current_buffer p := total_buffer_size p - remaining_buffer_size p]\<rparr>, False))"
proof -
  from ok obtain f0 f1 b0 b1 where d: "buffer_full p = [f0, f1]" "buffer p = [Some b0, Some b1]"
    "current_buffer p = 0 \<or> current_buffer p = 1" "remaining_buffer_size p \<le> total_buffer_size p" by (auto simp: out_ok_def)
  consider (here) "size1 \<le> remaining_buffer_size p"
    | (switch) "\<not> size1 \<le> remaining_buffer_size p" "buffer_full p ! (1 - current_buffer p) = 0"
    | (refuse) "\<not> size1 \<le> remaining_buffer_size p" "buffer_full p ! (1 - current_buffer p) \<noteq> 0" by blast
  then show ?thesis
  proof cases
    case here
    have "length (replicate (unat size1) (0 :: u8)) \<le> unat (remaining_buffer_size p)"
      using here by (simp add: word_le_nat_alt)
    from put_bytes_cur[OF ok this] show ?thesis
      using here d unat_used[OF d(4)] by (auto simp: OUTPUT_Reserve_Buffer_Space_def Let_def)
  next
    case switch
    note sw = switched_ok[OF ok switch(2)]
    have "length (replicate (unat size1) (0 :: u8)) \<le> unat (remaining_buffer_size (switched p))"
      using sz by (simp add: word_le_nat_alt switched_def)
    from put_bytes_cur[OF sw(1) this] sw(3)
    have pb: "put_bytes (1 - current_buffer p, 0) (replicate (unat size1) 0)
        ((switched p)\<lparr>remaining_buffer_size := total_buffer_size p - size1\<rparr>) = Some (append_at (switched p) (replicate (unat size1) 0))"
      by (simp add: switched_def)
    from d(3) show ?thesis
    proof
      assume "current_buffer p = 0"
      then show ?thesis using switch pb d(1,2)
        by (simp add: OUTPUT_Reserve_Buffer_Space_def OUTPUT_NUM_BUFFERS_def reserve_next_def Let_def switched_def)
    next
      assume "current_buffer p = 1"
      then show ?thesis using switch pb d(1,2)
        by (simp add: OUTPUT_Reserve_Buffer_Space_def OUTPUT_NUM_BUFFERS_def reserve_next_def Let_def switched_def)
    qed
  next
    case refuse
    from d(3) show ?thesis
      by (elim disjE; use refuse d(1,2) in
        \<open>simp add: OUTPUT_Reserve_Buffer_Space_def OUTPUT_NUM_BUFFERS_def reserve_next_def Let_def\<close>)
  qed
qed

lemma put_bytes_over:
  assumes "out_ok p" "length bs \<le> unat (remaining_buffer_size p)" "length zs = length bs"
  shows "put_bytes (current_buffer p, used p) bs (append_at p zs) = Some (append_at p bs)"
proof -
  from assms(1) obtain b0 b1 where d: "buffer p = [Some b0, Some b1]"
    "length b0 = unat (total_buffer_size p)" "length b1 = unat (total_buffer_size p)"
    "remaining_buffer_size p \<le> total_buffer_size p" "current_buffer p = 0 \<or> current_buffer p = 1" by (auto simp: out_ok_def)
  have fit: "used p + length bs \<le> unat (total_buffer_size p)"
    using assms(2) d(4) by (simp add: used_def word_le_nat_alt)
  show ?thesis
    using d(5) by (elim disjE; use d fit assms(3) in \<open>simp add: put_bytes_def append_at_def out_bytes_def write_bytes_ok\<close>)
qed

lemma fill_eq:
  assumes ok: "out_ok p" and sz: "length data < 65536" "length data \<le> unat (total_buffer_size p)"
  shows "output_Buffer_Fill data (of_nat (length data)) p =
    (if length data \<le> unat (remaining_buffer_size p) then Some (length data, append_at p data)
     else if buffer_full p ! (1 - current_buffer p) = 0 then Some (length data, append_at (switched p) data)
     else Some (0, p\<lparr>buffer_full := (buffer_full p)[current_buffer p := total_buffer_size p - remaining_buffer_size p]\<rparr>))"
proof -
  let ?n = "of_nat (length data) :: u16"
  have n: "unat ?n = length data" using sz(1) by (simp add: unat_of_nat take_bit_nat_eq_self)
  then have n': "unat (ucast ?n :: u32) = length data" by simp
  have le: "(ucast ?n :: u32) \<le> total_buffer_size p" using sz(2) n' by (simp only: word_le_nat_alt)
  have c: "(ucast ?n :: u32) \<le> remaining_buffer_size p \<longleftrightarrow> length data \<le> unat (remaining_buffer_size p)"
    using n' by (simp only: word_le_nat_alt)
  have t: "take (unat ?n) data = data" using n by simp
  note r = reserve_eq[OF ok le, unfolded c n']
  show ?thesis
  proof (cases "length data \<le> unat (remaining_buffer_size p)")
    case True
    from put_bytes_over[OF ok True, of "replicate (length data) 0"] r True t n show ?thesis
      by (simp add: output_Buffer_Fill_def)
  next
    case False
    show ?thesis
    proof (cases "buffer_full p ! (1 - current_buffer p) = 0")
      case free: True
      note sw = switched_ok[OF ok free]
      have "length data \<le> unat (remaining_buffer_size (switched p))" using sz(2) by (simp add: switched_def)
      from put_bytes_over[OF sw(1) this, of "replicate (length data) 0"] r False free t n sw(3) show ?thesis
        by (simp add: output_Buffer_Fill_def switched_def)
    next
      case full: False
      with r False show ?thesis by (simp add: output_Buffer_Fill_def)
    qed
  qed
qed

section \<open>Reading\<close>

text \<open>Emptying the marked buffer.\<close>

definition emptied :: "nat \<Rightarrow> outbuf_node \<Rightarrow> outbuf_node" where
  "emptied j p = p\<lparr>buffer_full := (buffer_full p)[j := 0]\<rparr>"

lemma find_full_eq:
  assumes "length (buffer_full p) = 2" "current_buffer p < 2"
  shows "find_full p = Some (let c = current_buffer p in
    if buffer_full p ! (1 - c) \<noteq> 0 then (1 - c, buffer_full p ! (1 - c)) else (c, buffer_full p ! c))"
proof -
  from assms(1) obtain f0 f1 where f: "buffer_full p = [f0, f1]" by (auto simp: length_Suc_conv numeral_2_eq_2)
  have l: "[0 ..< 2] = [0, 1 :: nat]" by (simp add: upt_rec)
  from assms(2) have "current_buffer p = 0 \<or> current_buffer p = 1" by auto
  then show ?thesis
    by (elim disjE; simp add: find_full_def l OUTPUT_NUM_BUFFERS_def f Let_def)
qed

lemma read_marked:
  assumes ok: "out_ok p" and n: "buffer_full p ! (1 - current_buffer p) \<noteq> 0" "unat (buffer_full p ! (1 - current_buffer p)) \<le> count"
  shows "output_Read count 0 False fl p =
      Some (Read_Bytes (take (unat (buffer_full p ! (1 - current_buffer p))) (out_bytes (1 - current_buffer p) p)) False,
            emptied (1 - current_buffer p) p)"
    and "out_ok (emptied (1 - current_buffer p) p)"
    and "out_pending p = take (unat (buffer_full p ! (1 - current_buffer p))) (out_bytes (1 - current_buffer p) p) @
      out_pending (emptied (1 - current_buffer p) p)"
proof -
  from ok obtain f0 f1 b0 b1 where d: "buffer_full p = [f0, f1]" "buffer p = [Some b0, Some b1]"
    "length b0 = unat (total_buffer_size p)" "length b1 = unat (total_buffer_size p)"
    "f0 \<le> total_buffer_size p" "f1 \<le> total_buffer_size p" "remaining_buffer_size p \<le> total_buffer_size p"
    "current_buffer p = 0 \<and> f0 = 0 \<or> current_buffer p = 1 \<and> f1 = 0" by (auto simp: out_ok_def)
  have lens: "unat f0 \<le> length b0" "unat f1 \<le> length b1" using d(3-6) by (simp_all add: word_le_nat_alt)
  have ff: "find_full p = Some (1 - current_buffer p, buffer_full p ! (1 - current_buffer p))"
    using d(8) n(1) by (subst find_full_eq) (auto simp: d(1))
  show "output_Read count 0 False fl p =
      Some (Read_Bytes (take (unat (buffer_full p ! (1 - current_buffer p))) (out_bytes (1 - current_buffer p) p)) False,
            emptied (1 - current_buffer p) p)"
    using d(8) by (elim disjE; use n d(1,2) lens ff in
      \<open>auto simp: output_Read_def output_Read_copy_def out_bytes_def emptied_def unat_eq_0\<close>)
  show "out_ok (emptied (1 - current_buffer p) p)"
    using d(8) by (elim disjE; use d in \<open>auto simp: out_ok_def emptied_def\<close>)
  show "out_pending p = take (unat (buffer_full p ! (1 - current_buffer p))) (out_bytes (1 - current_buffer p) p) @
      out_pending (emptied (1 - current_buffer p) p)"
    using d(8) by (elim disjE; use d(1,2) in \<open>auto simp: out_pending_def emptied_def Let_def out_bytes_def used_def\<close>)
qed

lemma read_unmarked:
  assumes ok: "out_ok p" and n: "buffer_full p ! (1 - current_buffer p) = 0"
  shows "output_Read count u ab False p = Some (Would_Block (current_buffer p), p)"
proof -
  from ok have d: "length (buffer_full p) = 2" "current_buffer p < 2" "buffer_full p ! current_buffer p = 0"
    by (auto simp: out_ok_def)
  show ?thesis using n d(3) by (simp add: output_Read_def find_full_eq[OF d(1,2)] Let_def)
qed

section \<open>The byte channel\<close>

text \<open>A record that was stored whole; a read that delivered bytes.\<close>

definition out_put :: "u8 list \<Rightarrow> outbuf_node \<Rightarrow> outbuf_node option" where
  "out_put data p = (if length data < 65536 \<and> length data \<le> unat (total_buffer_size p) then do {
     (n, p) \<leftarrow> output_Buffer_Fill data (of_nat (length data)) p;
     if n = length data then Some p else None } else None)"

definition out_get :: "nat \<Rightarrow> outbuf_node \<Rightarrow> (u8 list \<times> outbuf_node) option" where
  "out_get count p = do { (r, p) \<leftarrow> output_Read count 0 False False p;
     case r of Read_Bytes d _ \<Rightarrow> Some (d, p) | _ \<Rightarrow> None }"

interpretation outq: fifo out_ok out_pending "\<lambda>d. d" out_put out_get
proof (unfold_locales, goal_cases)
  case (1 p data p')
  then have l: "length data < 65536" "length data \<le> unat (total_buffer_size p)"
    by (auto simp: out_put_def split: if_splits)
  show ?case
  proof (cases "length data \<le> unat (remaining_buffer_size p)")
    case True
    then have "p' = append_at p data" using 1(2) l by (simp add: out_put_def fill_eq[OF 1(1) l])
    then show ?thesis using append_at_ok[OF 1(1) True] by simp
  next
    case False
    then have ne: "data \<noteq> []" by auto
    have free: "buffer_full p ! (1 - current_buffer p) = 0"
      using 1(2) l False ne by (auto simp: out_put_def fill_eq[OF 1(1) l] split: if_splits)
    then have p': "p' = append_at (switched p) data" using 1(2) l False by (simp add: out_put_def fill_eq[OF 1(1) l])
    note sw = switched_ok[OF 1(1) free]
    have "length data \<le> unat (remaining_buffer_size (switched p))" using l(2) by (simp add: switched_def)
    from append_at_ok[OF sw(1) this] sw(2) p' show ?thesis by simp
  qed
next
  case (2 p count d p')
  show ?case
  proof (cases "buffer_full p ! (1 - current_buffer p) = 0")
    case True
    then show ?thesis using 2 read_unmarked[OF 2(1) True] by (simp add: out_get_def)
  next
    case False
    show ?thesis
    proof (cases "unat (buffer_full p ! (1 - current_buffer p)) \<le> count")
      case True
      from read_marked[OF 2(1) False True] 2(2) show ?thesis by (auto simp: out_get_def)
    next
      case small: False
      have "find_full p = Some (1 - current_buffer p, buffer_full p ! (1 - current_buffer p))"
        using 2(1) False by (subst find_full_eq) (auto simp: out_ok_def Let_def)
      then have "output_Read count 0 False False p = Some (Read_No_Mem, p)"
        using small False by (simp add: output_Read_def output_Read_copy_def)
      then show ?thesis using 2(2) by (simp add: out_get_def)
    qed
  qed
qed

text \<open>
  C5: a sample or module buffer is a first-in first-out channel. Start from any well-formed
  descriptor and run any sequence of stored records and delivering reads, for any size of the
  user's buffer. Then the bytes delivered, followed by what is still pending, are exactly what
  was pending at the start followed by the stored records in order: nothing is lost, duplicated
  or reordered across buffer switches, and the descriptor stays well formed.
\<close>

theorem output_buffer_fifo:
  assumes "out_ok p" "run_fifo out_put out_get ops p = Some (delivered, p')"
  shows "out_ok p' \<and> out_pending p @ fifo_input (\<lambda>d. d) ops = delivered @ out_pending p'"
  by (rule outq.run_order[OF assms])

definition demo_out :: outbuf_node where
  "demo_out = \<lparr>remaining_buffer_size = 4, current_buffer = 0, total_buffer_size = 4,
     buffer_full = [0, 0], buffer = [Some [0, 0, 0, 0], Some [0, 0, 0, 0]]\<rparr>"

lemmas out_eval = out_put_def out_get_def demo_out_def output_Buffer_Fill_def OUTPUT_Reserve_Buffer_Space_def
  put_bytes_def write_bytes_def reserve_next_def output_Read_def output_Read_copy_def find_full_def
  OUTPUT_NUM_BUFFERS_def upt_rec Let_def word_le_nat_alt

lemma demo_out_ok: "out_ok demo_out"
  by (simp add: out_ok_def demo_out_def)

lemma demo_out_run:
  "run_fifo out_put out_get [Put [1, 2, 3], Put [4, 5], Get 10, Put [6]] demo_out =
    Some ([1, 2, 3], \<lparr>remaining_buffer_size = 1, current_buffer = 1, total_buffer_size = 4,
      buffer_full = [0, 0], buffer = [Some [1, 2, 3, 0], Some [4, 5, 6, 0]]\<rparr>)"
  by (simp add: out_eval)

theorem output_buffer_fifo_witness:
  "out_pending demo_out @ [1, 2, 3, 4, 5, 6] = [1, 2, 3] @ [4, 5, 6 :: u8]"
proof -
  have "out_pending \<lparr>remaining_buffer_size = 1, current_buffer = 1, total_buffer_size = 4,
      buffer_full = [0, 0], buffer = [Some [1, 2, 3, 0], Some [4, 5, 6, 0]]\<rparr> = [4, 5, 6]"
    by (simp add: out_pending_def used_def out_bytes_def)
  with output_buffer_fifo[OF demo_out_ok demo_out_run] show ?thesis by simp
qed

text \<open>Filling that goes on when a record is refused.\<close>

definition out_try :: "u8 list \<Rightarrow> outbuf_node \<Rightarrow> outbuf_node option" where
  "out_try data p = do { (_, p) \<leftarrow> output_Buffer_Fill data (of_nat (length data)) p; Some p }"

text \<open>A read takes the other buffer if it is marked, else the current one.\<close>

lemma get_step:
  assumes "length (buffer_full p) = 2" "current_buffer p < 2"
    and "j = (if buffer_full p ! (1 - current_buffer p) \<noteq> 0 then 1 - current_buffer p else current_buffer p)"
    and "buffer_full p ! j \<noteq> 0" "unat (buffer_full p ! j) \<le> count" "j < length (buffer p)" "buffer p ! j = Some b" "unat (buffer_full p ! j) \<le> length b"
  shows "out_get count p = Some (take (unat (buffer_full p ! j)) b, emptied j p)"
proof -
  have "find_full p = Some (j, buffer_full p ! j)" using assms(1-3) by (subst find_full_eq) (auto simp: Let_def)
  moreover have "j < length (buffer_full p)" using assms(1-3) by auto
  ultimately show ?thesis
    using assms(4-8) by (simp add: out_get_def output_Read_def output_Read_copy_def emptied_def unat_eq_0)
qed

text \<open>What is in the two buffers: the one that waits to be read, and the one being filled.\<close>

definition waiting_bytes :: "outbuf_node \<Rightarrow> u8 list" where
  "waiting_bytes p = take (unat (buffer_full p ! (1 - current_buffer p))) (out_bytes (1 - current_buffer p) p)"

definition current_bytes :: "outbuf_node \<Rightarrow> u8 list" where
  "current_bytes p = take (used p) (out_bytes (current_buffer p) p)"

text \<open>
  C33: a refused record breaks the channel. Let the other buffer still wait to be read, let the current one hold data,
  and let a record arrive that does not fit in what it has left: the record is refused, but the buffer being filled is
  marked all the same. Two reads with enough room then take both buffers, but filling goes on behind the bytes already
  taken: when the next record that does not fit forces a switch, the bytes of the current buffer are handed out again.
\<close>

theorem output_refused_duplicates:
  assumes "out_ok p" "buffer_full p ! (1 - current_buffer p) \<noteq> 0" "0 < used p" "length r < 65536"
    and "unat (remaining_buffer_size p) < length r" "length r \<le> unat (total_buffer_size p)" "unat (total_buffer_size p) \<le> count"
  shows "(\<exists>q. output_Buffer_Fill r (of_nat (length r)) p = Some (0, q)) \<and>
    map_option fst (run_fifo out_try out_get [Put r, Get count, Get count, Put r, Get count] p) =
      Some (waiting_bytes p @ current_bytes p @ current_bytes p)"
proof -
  define c n where "c = current_buffer p" and "n = 1 - c"
  let ?m = "total_buffer_size p - remaining_buffer_size p"
  obtain bc bn where d: "length (buffer_full p) = 2" "length (buffer p) = 2" "c < 2" "n < 2" "c \<noteq> n" "1 - n = c"
    "buffer p ! c = Some bc" "buffer p ! n = Some bn" "length bc = unat (total_buffer_size p)" "length bn = unat (total_buffer_size p)"
    "buffer_full p ! n \<le> total_buffer_size p" "remaining_buffer_size p \<le> total_buffer_size p"
    using assms(1) by (fastforce simp: out_ok_def c_def n_def)
  have e: "current_buffer p = c" "Suc 0 - c = n" "Suc 0 - n = c" using d(6) by (simp_all add: c_def n_def)
  have m: "unat ?m = used p" "?m \<noteq> 0" "used p \<le> unat (total_buffer_size p)"
    using unat_used[OF d(12)] assms(3) by (auto simp: used_def unat_eq_0)
  have f: "unat (buffer_full p ! n) \<le> unat (total_buffer_size p)" using d(11) by (simp add: word_le_nat_alt)
  let ?p1 = "p\<lparr>buffer_full := (buffer_full p)[c := ?m]\<rparr>"
  have r: "output_Buffer_Fill r (of_nat (length r)) p = Some (0, ?p1)"
    using fill_eq[OF assms(1,4,6)] assms(2,5) by (simp add: c_def)
  have g1: "out_get count ?p1 = Some (waiting_bytes p, emptied n ?p1)"
    using get_step[of ?p1 n count bn] d f assms(2,7) by (simp add: waiting_bytes_def out_bytes_def e)
  let ?p2 = "emptied n ?p1"
  have c2: "current_buffer ?p2 = c" "buffer ?p2 = buffer p" "buffer_full ?p2 ! n = 0" "buffer_full ?p2 ! c = ?m" "length (buffer_full ?p2) = 2"
    using d by (simp_all add: emptied_def e)
  have g2: "out_get count ?p2 = Some (current_bytes p, emptied c ?p2)"
    using get_step[of ?p2 c count bc] d m assms(7) c2 by (simp add: current_bytes_def out_bytes_def e)
  let ?p3 = "emptied c ?p2"
  have p3: "?p3 = p\<lparr>buffer_full := [0, 0]\<rparr>"
    using d(1,3-6) by (auto simp: emptied_def length_Suc_conv numeral_2_eq_2 less_Suc_eq)
  have ok3: "out_ok ?p3" unfolding p3 using assms(1) by (auto simp: out_ok_def)
  have "current_buffer ?p3 = c" "buffer_full ?p3 ! n = 0" unfolding p3 using d(4) by (auto simp: c_def less_2_cases_iff)
  then have r3: "output_Buffer_Fill r (of_nat (length r)) ?p3 = Some (length r, append_at (switched ?p3) r)"
    using fill_eq[OF ok3 assms(4)] assms(5,6) by (simp add: emptied_def n_def)
  let ?p4 = "append_at (switched ?p3) r"
  have c4: "current_buffer ?p4 = n" "length (buffer_full ?p4) = 2" "buffer_full ?p4 ! c = ?m" "length (buffer ?p4) = 2" "buffer ?p4 ! c = Some bc"
    unfolding p3 using d by (auto simp: append_at_def switched_def e less_2_cases_iff)
  have g4: "out_get count ?p4 = Some (current_bytes p, emptied c ?p4)"
    using get_step[of ?p4 c count bc] d m assms(7) c4 by (simp add: current_bytes_def out_bytes_def e)
  show ?thesis using r g1 g2 r3 g4 by (simp add: out_try_def)
qed

theorem output_refused_duplicates_witness:
  "map_option fst (run_fifo out_try out_get [Put [6, 7, 8], Get 10, Get 10, Put [6, 7, 8], Get 10]
     \<lparr>remaining_buffer_size = 2, current_buffer = 1, total_buffer_size = 4, buffer_full = [3, 0],
       buffer = [Some [1, 2, 3, 0], Some [4, 5, 0, 0]]\<rparr>) = Some [1, 2, 3, 4, 5, 4, 5]"
proof -
  let ?p = "\<lparr>remaining_buffer_size = 2, current_buffer = 1, total_buffer_size = 4, buffer_full = [3, 0],
     buffer = [Some [1, 2, 3, 0], Some [4, 5, 0, 0 :: u8]]\<rparr>"
  have "out_ok ?p" by (simp add: out_ok_def word_le_nat_alt)
  from output_refused_duplicates[OF this, of "[6, 7, 8]" 10] show ?thesis
    by (simp add: used_def waiting_bytes_def current_bytes_def out_bytes_def)
qed

section \<open>Flushing\<close>










section \<open>Setting up\<close>

definition out_fresh :: "outbuf_node \<Rightarrow> bool" where
  "out_fresh p = (buffer p = [None, None] \<and> length (buffer_full p) = 2)"

definition out_shape :: "outbuf_node \<Rightarrow> bool" where
  "out_shape p = (length (buffer p) = 2)"

definition out_empty :: "u32 \<Rightarrow> outbuf_node \<Rightarrow> bool" where
  "out_empty n p = (out_ok p \<and> out_pending p = [] \<and> total_buffer_size p = n)"

lemma init_fresh:
  assumes "case desc of Some p \<Rightarrow> out_fresh p | None \<Rightarrow> True"
  shows "\<exists>k' good q. output_Initialized_Buffers alloc size1 factor k desc = Some (k', good, q) \<and> out_shape q \<and>
    (good \<longrightarrow> out_empty (size1 * factor) q)"
proof -
  obtain k1 g1 p where p: "(case desc of Some o1 \<Rightarrow> (k, True, o1) | None \<Rightarrow> (k + 1, alloc k, empty_output)) = (k1, g1, p)"
    and f: "out_fresh p"
    using assms by (cases desc) (auto simp: out_fresh_def empty_output_def OUTPUT_NUM_BUFFERS_def numeral_2_eq_2)
  from f obtain f0 f1 where d: "buffer p = [None, None]" "buffer_full p = [f0, f1]"
    by (auto simp: out_fresh_def length_Suc_conv numeral_2_eq_2)
  have l: "[0 ..< OUTPUT_NUM_BUFFERS] = [0, 1]" by (simp add: OUTPUT_NUM_BUFFERS_def upt_rec)
  let ?n = "size1 * factor"
  let ?b = "replicate (unat ?n) 0 :: u8 list"
  show ?thesis
  proof (cases "g1 \<and> unat ?n \<noteq> 0 \<and> alloc k1 \<and> alloc (k1 + 1)")
    case True
    let ?q = "p\<lparr>buffer := [Some ?b, Some ?b], buffer_full := [0, 0], current_buffer := 0,
      remaining_buffer_size := ?n, total_buffer_size := ?n\<rparr>"
    have "output_Initialized_Buffers alloc size1 factor k desc = Some (k1 + 2, True, ?q)"
      using True d p by (simp add: output_Initialized_Buffers_def l init_buffer_def alloc_bytes_def Let_def)
    moreover have "out_empty ?n ?q" by (simp add: out_empty_def out_ok_def out_pending_def used_def Let_def)
    moreover have "out_shape ?q" by (simp add: out_shape_def)
    ultimately show ?thesis by blast
  next
    case False
    then have "\<exists>k' q. output_Initialized_Buffers alloc size1 factor k desc = Some (k', False, q) \<and> out_shape q"
      using d p
      by (cases g1; cases "unat ?n = 0"; cases "alloc k1")
        (auto simp: output_Initialized_Buffers_def l init_buffer_def alloc_bytes_def Let_def out_shape_def unat_eq_0)
    then show ?thesis by auto
  qed
qed

lemma free_buffers_ok:
  assumes "out_shape p"
  shows "output_Free_Buffers p = Some (p\<lparr>buffer := [None, None]\<rparr>)"
proof -
  from assms obtain b0 b1 where "buffer p = [b0, b1]" by (auto simp: out_shape_def length_Suc_conv numeral_2_eq_2)
  moreover have "[0 ..< OUTPUT_NUM_BUFFERS] = [0, 1]" by (simp add: OUTPUT_NUM_BUFFERS_def upt_rec)
  ultimately show ?thesis by (simp add: output_Free_Buffers_def)
qed

lemma destroy_ok:
  assumes "n \<le> length (cpu_buf s)" "\<forall>i < n. out_shape (cpu_buf s ! i)"
    "case module_buf s of None \<Rightarrow> True | Some m \<Rightarrow> out_shape m"
  shows "\<exists>t. OUTPUT_Destroy n s = Some t \<and> (\<forall>i < n. buffer (cpu_buf t ! i) = [None, None])"
proof -
  obtain m where m: "(case module_buf s of None \<Rightarrow> Some None | Some m \<Rightarrow> do { m \<leftarrow> output_Free_Buffers m; Some (Some m) }) = Some m"
    using assms(3) by (cases "module_buf s") (auto simp: free_buffers_ok)
  let ?body = "\<lambda>i s. do { b \<leftarrow> list_at (cpu_buf s) i; b \<leftarrow> output_Free_Buffers b; Some (s\<lparr>cpu_buf := (cpu_buf s)[i := b]\<rparr>) }"
  have "\<exists>bs. foldm ?body [0 ..< k] (s\<lparr>module_buf := m\<rparr>) = Some (s\<lparr>module_buf := m, cpu_buf := bs\<rparr>) \<and>
      length bs = length (cpu_buf s) \<and> (\<forall>i < k. buffer (bs ! i) = [None, None]) \<and>
      (\<forall>i. k \<le> i \<longrightarrow> bs ! i = cpu_buf s ! i)" if "k \<le> n" for k
    using that
  proof (induction k)
    case 0
    then show ?case by (intro exI[of _ "cpu_buf s"]) simp
  next
    case (Suc k)
    then obtain bs where bs: "foldm ?body [0 ..< k] (s\<lparr>module_buf := m\<rparr>) = Some (s\<lparr>module_buf := m, cpu_buf := bs\<rparr>)"
      "length bs = length (cpu_buf s)" "\<forall>i < k. buffer (bs ! i) = [None, None]" "\<forall>i. k \<le> i \<longrightarrow> bs ! i = cpu_buf s ! i" by auto
    have "k < length bs" "out_shape (bs ! k)" using Suc.prems bs(2,4) assms(1,2) by auto
    with bs show ?case
      by (intro exI[of _ "bs[k := (bs ! k)\<lparr>buffer := [None, None]\<rparr>]"])
        (auto simp: foldm_append free_buffers_ok nth_list_update less_Suc_eq)
  qed
  from this[of n] m show ?thesis by (auto simp: OUTPUT_Destroy_def)
qed

text \<open>
  Allocation of the buffers is all or nothing for the CPUs. From descriptors without buffers,
  \<open>OUTPUT_Initialize\<close> always returns. On success every CPU's descriptor and the module's are well
  formed and empty, of one and of \<open>MODULE_BUFF_SIZE\<close> buffer sizes; on failure no CPU keeps a buffer,
  whichever request of the allocator was refused.
\<close>

theorem OUTPUT_Initialize_all_or_nothing:
  assumes "n \<le> length (cpu_buf s)" "\<forall>i < n. out_fresh (cpu_buf s ! i)"
    "case module_buf s of None \<Rightarrow> True | Some m \<Rightarrow> out_fresh m"
  shows "\<exists>r t. OUTPUT_Initialize alloc size1 n s = Some (r, t) \<and>
    (r = OS_SUCCESS \<longrightarrow> (\<forall>i < n. out_empty size1 (cpu_buf t ! i)) \<and>
       (\<exists>m. module_buf t = Some m \<and> out_empty (size1 * MODULE_BUFF_SIZE) m)) \<and>
    (r \<noteq> OS_SUCCESS \<longrightarrow> r = OS_NO_MEM \<and> (\<forall>i < n. buffer (cpu_buf t ! i) = [None, None]))"
proof -
  let ?body = "\<lambda>i (k, good, s). if \<not> good then Some (k, good, s) else do {
           b \<leftarrow> list_at (cpu_buf s) i;
           (k, good, b) \<leftarrow> output_Initialized_Buffers alloc size1 1 k (Some b);
           Some (k, good, s\<lparr>cpu_buf := (cpu_buf s)[i := b]\<rparr>) }"
  let ?s = "s\<lparr>flush := False\<rparr>"
  have loop: "\<exists>k good bs. foldm ?body [0 ..< j] (0, True, ?s) = Some (k, good, ?s\<lparr>cpu_buf := bs\<rparr>) \<and>
      length bs = length (cpu_buf s) \<and> (\<forall>i < n. out_shape (bs ! i)) \<and>
      (good \<longrightarrow> (\<forall>i < j. out_empty size1 (bs ! i)) \<and> (\<forall>i. j \<le> i \<longrightarrow> bs ! i = cpu_buf s ! i))" if "j \<le> n" for j
    using that
  proof (induction j)
    case 0
    have "\<forall>i < n. out_shape (cpu_buf s ! i)" using assms(2) by (simp add: out_fresh_def out_shape_def)
    then show ?case by (intro exI[of _ 0] exI[of _ True] exI[of _ "cpu_buf s"]) simp
  next
    case (Suc j)
    then obtain k good bs where bs: "foldm ?body [0 ..< j] (0, True, ?s) = Some (k, good, ?s\<lparr>cpu_buf := bs\<rparr>)"
      "length bs = length (cpu_buf s)" "\<forall>i < n. out_shape (bs ! i)"
      "good \<longrightarrow> (\<forall>i < j. out_empty size1 (bs ! i)) \<and> (\<forall>i. j \<le> i \<longrightarrow> bs ! i = cpu_buf s ! i)" by auto
    show ?case
    proof (cases good)
      case False
      with bs show ?thesis by (intro exI[of _ k] exI[of _ False] exI[of _ bs]) (simp add: foldm_append)
    next
      case True
      then have j: "j < length bs" "out_fresh (bs ! j)" using Suc.prems bs(2,4) assms(1,2) by auto
      from init_fresh[of "Some (bs ! j)" alloc size1 1 k] j(2) obtain k' g q where
        q: "output_Initialized_Buffers alloc size1 1 k (Some (bs ! j)) = Some (k', g, q)" "out_shape q" "g \<longrightarrow> out_empty size1 q"
        by auto
      have "foldm ?body [0 ..< Suc j] (0, True, ?s) = Some (k', g, ?s\<lparr>cpu_buf := bs[j := q]\<rparr>)"
        using bs(1) True j(1) q(1) by (simp add: foldm_append)
      moreover have "\<forall>i < n. out_shape (bs[j := q] ! i)" using bs(3) q(2) j(1) by (metis nth_list_update_eq nth_list_update_neq)
      ultimately show ?thesis
        using bs(2,4) True q(3) j(1)
        by (intro exI[of _ k'] exI[of _ g] exI[of _ "bs[j := q]"]) (auto simp: nth_list_update less_Suc_eq)
    qed
  qed
  from loop[of n] obtain k good bs where l: "foldm ?body [0 ..< n] (0, True, ?s) = Some (k, good, ?s\<lparr>cpu_buf := bs\<rparr>)"
    "length bs = length (cpu_buf s)" "\<forall>i < n. out_shape (bs ! i)" "good \<longrightarrow> (\<forall>i < n. out_empty size1 (bs ! i))" by auto
  let ?s1 = "?s\<lparr>cpu_buf := bs\<rparr>"
  have shape: "case module_buf ?s1 of None \<Rightarrow> True | Some m \<Rightarrow> out_shape m"
    using assms(3) by (auto simp: out_fresh_def out_shape_def split: option.splits)
  have n1: "n \<le> length (cpu_buf ?s1)" using assms(1) l(2) by simp
  show ?thesis
  proof (cases good)
    case False
    from destroy_ok[OF n1 _ shape] l(3) obtain t where
      "OUTPUT_Destroy n ?s1 = Some t" "\<forall>i < n. buffer (cpu_buf t ! i) = [None, None]" by auto
    with l(1) False show ?thesis
      by (intro exI[of _ OS_NO_MEM] exI[of _ t]) (simp add: OUTPUT_Initialize_def)
  next
    case True
    from init_fresh[OF assms(3), of alloc size1 MODULE_BUFF_SIZE k] obtain k' g m where
      m: "output_Initialized_Buffers alloc size1 MODULE_BUFF_SIZE k (module_buf s) = Some (k', g, m)"
      "g \<longrightarrow> out_empty (size1 * MODULE_BUFF_SIZE) m" by auto
    show ?thesis
    proof (cases g)
      case gT: True
      with True l(1) m(1) have run: "OUTPUT_Initialize alloc size1 n s = Some (OS_SUCCESS, ?s1\<lparr>module_buf := Some m\<rparr>)"
        by (simp add: OUTPUT_Initialize_def)
      with gT True l(4) m(2) show ?thesis by auto
    next
      case gF: False
      from destroy_ok[of n "?s1\<lparr>module_buf := None\<rparr>"] n1 l(3) obtain t where
        "OUTPUT_Destroy n (?s1\<lparr>module_buf := None\<rparr>) = Some t" "\<forall>i < n. buffer (cpu_buf t ! i) = [None, None]" by auto
      with l(1) True m(1) gF show ?thesis
        by (intro exI[of _ OS_NO_MEM] exI[of _ t]) (simp add: OUTPUT_Initialize_def)
    qed
  qed
qed

theorem OUTPUT_Initialize_all_or_nothing_witness:
  "\<exists>r t. OUTPUT_Initialize (\<lambda>k. k < 3) 8 2 \<lparr>cpu_buf = [empty_output, empty_output], module_buf = None,
      flush = False, flush_writers = 0, abnormal_terminate = False\<rparr> = Some (r, t) \<and>
    (r = OS_SUCCESS \<or> (\<forall>i < 2. buffer (cpu_buf t ! i) = [None, None]))"
proof -
  let ?s = "\<lparr>cpu_buf = [empty_output, empty_output], module_buf = None,
      flush = False, flush_writers = 0, abnormal_terminate = False\<rparr>"
  have f: "out_fresh empty_output" by (simp add: out_fresh_def empty_output_def OUTPUT_NUM_BUFFERS_def numeral_2_eq_2)
  have "\<forall>i < 2. out_fresh (cpu_buf ?s ! i)" using f by (auto simp: less_Suc_eq numeral_2_eq_2)
  from OUTPUT_Initialize_all_or_nothing[OF _ this, of "\<lambda>k. k < 3" 8] obtain r t where
    "OUTPUT_Initialize (\<lambda>k. k < 3) 8 2 ?s = Some (r, t)"
    "r \<noteq> OS_SUCCESS \<longrightarrow> r = OS_NO_MEM \<and> (\<forall>i < 2. buffer (cpu_buf t ! i) = [None, None])" by auto
  then show ?thesis by (cases r) auto
qed

end
