(* ===== verification/MemTracker.thy ===== *)
theory MemTracker
  imports Prelude "HOL-Library.Multiset"
begin

text \<open>
  The memory tracker of control.c: large allocations are recorded in a list of nodes with
  \<open>MEM_EL_MAX_ARRAY_SIZE\<close> slots each, so that a free can tell how the memory was obtained and
  unloading can return what was not freed. The doubly linked list of nodes is a list from head
  to tail; \<open>control_Memory_Tracker_Delete_Node\<close>, which unlinks and frees one, has its effect in its
  callers, where the node is dropped from the list (creation without memory for the array, unloading,
  compaction). The kernel's memory is the set of live allocations with the function that made each;
  freeing by the wrong function, or something not live, is a fault. What the kernel answers to
  a request (the address, 0 for NULL) is an argument.
\<close>

section \<open>State\<close>

datatype mem_kind = Kmalloc | Vmalloc | Pages

record mem_el =
  address :: u64
  el_size :: u32
  is_addr_vmalloc :: bool

record mem_state =
  mem_tr :: "mem_el list list"
  live :: "(u64 \<times> mem_kind) set"

definition MEM_EL_MAX_ARRAY_SIZE :: nat where "MEM_EL_MAX_ARRAY_SIZE = 32"
definition MAX_KMALLOC_SIZE :: u64 where "MAX_KMALLOC_SIZE = 0x1FFFF"

definition empty_el :: mem_el where
  "empty_el = \<lparr>address = 0, el_size = 0, is_addr_vmalloc = False\<rparr>"

definition kernel_alloc :: "mem_kind \<Rightarrow> u64 \<Rightarrow> mem_state \<Rightarrow> mem_state" where
  "kernel_alloc k a s = (if a = 0 then s else s\<lparr>live := insert (a, k) (live s)\<rparr>)"

definition kernel_free :: "mem_kind \<Rightarrow> u64 \<Rightarrow> mem_state \<Rightarrow> mem_state option" where
  "kernel_free k a s = (if (a, k) \<in> live s then Some (s\<lparr>live := live s - {(a, k)}\<rparr>) else None)"

section \<open>Operations\<close>

text \<open>\<open>node_ok\<close>: whether the kernel has memory for a new node and its array.\<close>

definition control_Memory_Tracker_Create_Node :: "bool \<Rightarrow> mem_el list list \<Rightarrow> bool \<times> mem_el list list" where
  "control_Memory_Tracker_Create_Node node_ok tr =
     (if node_ok then (True, tr @ [replicate MEM_EL_MAX_ARRAY_SIZE empty_el]) else (False, tr))"

text \<open>The scan of one node does not stop at a free slot, so it ends with the last one.\<close>

definition scan_node :: "mem_el list \<Rightarrow> nat option" where
  "scan_node node = fold (\<lambda>i found. if address (node ! i) = 0 then Some i else found) [0 ..< length node] None"

fun find_slot :: "nat \<Rightarrow> mem_el list list \<Rightarrow> (nat \<times> nat) option" where
  "find_slot k [] = None"
| "find_slot k (node # tr) = (case scan_node node of Some i \<Rightarrow> Some (k, i) | None \<Rightarrow> find_slot (k + 1) tr)"

definition set_slot :: "nat \<times> nat \<Rightarrow> mem_el \<Rightarrow> mem_el list list \<Rightarrow> mem_el list list" where
  "set_slot p e tr = tr[fst p := (tr ! fst p)[snd p := e]]"

definition control_Memory_Tracker_Add :: "bool \<Rightarrow> u64 \<Rightarrow> u64 \<Rightarrow> bool \<Rightarrow> mem_state \<Rightarrow> bool \<times> mem_state" where
  "control_Memory_Tracker_Add node_ok location sz vm s =
     (let e = \<lparr>address = location, el_size = ucast sz, is_addr_vmalloc = vm\<rparr> in
      case find_slot 0 (mem_tr s) of
        Some p \<Rightarrow> (True, s\<lparr>mem_tr := set_slot p e (mem_tr s)\<rparr>)
      | None \<Rightarrow> (case control_Memory_Tracker_Create_Node node_ok (mem_tr s) of
          (True, tr) \<Rightarrow> (True, s\<lparr>mem_tr := set_slot (length tr - 1, 0) e tr\<rparr>)
        | (False, tr) \<Rightarrow> (False, s)))"

definition CONTROL_Memory_Tracker_Init :: "mem_state \<Rightarrow> mem_state" where
  "CONTROL_Memory_Tracker_Init s = s\<lparr>mem_tr := []\<rparr>"

text \<open>The result: the address (0 for NULL) and the state.\<close>

definition CONTROL_Allocate_Memory :: "bool \<Rightarrow> u64 \<Rightarrow> u64 \<Rightarrow> mem_state \<Rightarrow> (u64 \<times> mem_state) option" where
  "CONTROL_Allocate_Memory node_ok a sz s =
     (if sz = 0 then Some (0, s)
      else if sz < MAX_KMALLOC_SIZE then Some (a, kernel_alloc Kmalloc a s)
      else (let s = kernel_alloc Vmalloc a s in
        if a \<noteq> 0
        then (case control_Memory_Tracker_Add node_ok a sz True s of
            (True, s) \<Rightarrow> Some (a, s)
          | (False, s) \<Rightarrow> do { s \<leftarrow> kernel_free Vmalloc a s; Some (0, s) })
        else Some (0, s)))"

text \<open>Here the answer is tracked before it is tested; freeing NULL pages is allowed.\<close>

definition CONTROL_Allocate_KMemory :: "bool \<Rightarrow> u64 \<Rightarrow> u64 \<Rightarrow> mem_state \<Rightarrow> (u64 \<times> mem_state) option" where
  "CONTROL_Allocate_KMemory node_ok a sz s =
     (if sz = 0 then Some (0, s)
      else if sz < MAX_KMALLOC_SIZE then Some (a, kernel_alloc Kmalloc a s)
      else (case control_Memory_Tracker_Add node_ok a sz False (kernel_alloc Pages a s) of
          (True, s) \<Rightarrow> Some (a, s)
        | (False, s) \<Rightarrow> if a = 0 then Some (0, s) else do { s \<leftarrow> kernel_free Pages a s; Some (0, s) }))"

fun find_address :: "nat \<Rightarrow> u64 \<Rightarrow> mem_el list list \<Rightarrow> (nat \<times> nat) option" where
  "find_address k a [] = None"
| "find_address k a (node # tr) = (case List.find (\<lambda>i. address (node ! i) = a) [0 ..< length node] of
     Some i \<Rightarrow> Some (k, i) | None \<Rightarrow> find_address (k + 1) a tr)"

definition CONTROL_Free_Memory :: "u64 \<Rightarrow> mem_state \<Rightarrow> mem_state option" where
  "CONTROL_Free_Memory location s =
     (if location = 0 then Some s
      else case find_address 0 location (mem_tr s) of
        Some p \<Rightarrow> do {
          s \<leftarrow> kernel_free (if is_addr_vmalloc (mem_tr s ! fst p ! snd p) then Vmalloc else Pages) location s;
          Some (s\<lparr>mem_tr := set_slot p empty_el (mem_tr s)\<rparr>) }
      | None \<Rightarrow> kernel_free Kmalloc location s)"

text \<open>Unloading: whatever is still tracked is returned, always as pages.\<close>

definition CONTROL_Memory_Tracker_Free :: "mem_state \<Rightarrow> mem_state option" where
  "CONTROL_Memory_Tracker_Free s = do {
     s \<leftarrow> foldm (\<lambda>e s. if address e \<noteq> 0 then kernel_free Pages (address e) s else Some s) (concat (mem_tr s)) s;
     Some (s\<lparr>mem_tr := []\<rparr>) }"

section \<open>Compaction\<close>

text \<open>
  The forward search for a node with a free slot, from slot \<open>n\<close> of node \<open>a\<close>; \<open>b\<close> and \<open>m\<close> are the
  position of the backward search. The inner loop runs to the end of the array even after a hit,
  so \<open>i\<close> ends past the last slot. Result: found, overlap, node, \<open>i\<close>.
\<close>

function search_empty :: "mem_el list list \<Rightarrow> nat \<Rightarrow> nat \<Rightarrow> nat \<Rightarrow> int \<Rightarrow> bool \<times> bool \<times> nat \<times> nat" where
  "search_empty tr a n b m =
     (if a \<ge> length tr then (False, False, a, n)
      else let node = tr ! a; i = max n (length node);
               found = (\<exists>k \<in> set [n ..< length node]. address (node ! k) = 0);
               overlap = (a = b \<and> int i \<ge> m)
           in if \<not> found \<and> \<not> overlap then search_empty tr (a + 1) 0 b m else (found, overlap, a, i))"
  by pat_completeness auto
termination by (relation "measure (\<lambda>(tr, a, _). length tr - a)") auto

text \<open>
  The backward search for a used slot, which deletes the empty nodes at the tail. Moving before
  the head reads through NULL, a fault. Result: found, overlap, node, \<open>j\<close>, the nodes left.
\<close>

fun search_used :: "nat \<Rightarrow> nat \<Rightarrow> nat \<Rightarrow> int \<Rightarrow> mem_el list list
    \<Rightarrow> (bool \<times> bool \<times> nat \<times> int \<times> mem_el list list) option" where
  "search_used a i b m tr = do { node \<leftarrow> list_at tr b;
     if m \<ge> int (length node) then None else
     let found = (\<exists>k \<in> set [0 ..< nat (m + 1)]. address (node ! k) \<noteq> 0);
         j = (if m \<ge> 0 then - 1 else m);
         overlap = (a = b \<and> j \<le> int i)
     in if \<not> found \<and> \<not> overlap
        then (case b of 0 \<Rightarrow> None | Suc b' \<Rightarrow> search_used a i b' (int (length (tr ! b')) - 1) (take b tr))
        else Some (found, overlap, b, j, tr) }"

declare search_empty.simps [simp del] search_used.simps [simp del]

partial_function (option) compaction_loop :: "nat \<Rightarrow> nat \<Rightarrow> nat \<Rightarrow> int \<Rightarrow> mem_el list list \<Rightarrow> mem_el list list option" where
  "compaction_loop a n b m tr =
     (case search_empty tr a n b m of (found, overlap, a, i) \<Rightarrow>
        if \<not> found \<or> overlap then Some tr
        else do {
          (found, overlap, b, j, tr) \<leftarrow> search_used a i b m tr;
          if \<not> found \<or> overlap then Some tr
          else do {
            node2 \<leftarrow> list_at tr b;
            e \<leftarrow> (if j < 0 then None else list_at node2 (nat j));
            node1 \<leftarrow> list_at tr a;
            node1 \<leftarrow> list_put node1 i e;
            let tr = tr[a := node1];
            compaction_loop a (i + 1) b (j - 1) (set_slot (b, nat j) empty_el tr) } })"

definition CONTROL_Memory_Tracker_Compaction :: "mem_state \<Rightarrow> mem_state option" where
  "CONTROL_Memory_Tracker_Compaction s =
     (let tr = mem_tr s in
      if tr = [] then Some s
      else do { tr \<leftarrow> compaction_loop 0 0 (length tr - 1) (int (length (last tr)) - 1) tr;
                Some (s\<lparr>mem_tr := tr\<rparr>) })"

end
