(* ===== verification/MemTracker_Correct.thy ===== *)
theory MemTracker_Correct
  imports MemTracker
begin

text \<open>
  Correctness of the memory tracker: it records exactly the large live allocations, so every
  live address can be freed, by the right function, in any order; unloading succeeds exactly if
  nothing from \<open>vmalloc\<close> is left; and compaction never moves an element.
\<close>

section \<open>The tracked elements\<close>

definition tracked :: "mem_el list list \<Rightarrow> mem_el list" where
  "tracked tr = filter (\<lambda>e. address e \<noteq> 0) (concat tr)"

definition el_kind :: "mem_el \<Rightarrow> mem_kind" where
  "el_kind e = (if is_addr_vmalloc e then Vmalloc else Pages)"

definition el_entry :: "mem_el \<Rightarrow> u64 \<times> mem_kind" where
  "el_entry e = (address e, el_kind e)"

definition slot_in :: "nat \<times> nat \<Rightarrow> mem_el list list \<Rightarrow> bool" where
  "slot_in p tr = (fst p < length tr \<and> snd p < length (tr ! fst p))"

lemma set_slot_mset:
  assumes "slot_in p tr"
  shows "mset (concat (set_slot p e tr)) = add_mset e (mset (concat tr) - {#tr ! fst p ! snd p#})"
    and "tr ! fst p ! snd p \<in># mset (concat tr)"
proof -
  obtain n i where p: "p = (n, i)" by (cases p)
  with assms have n: "n < length tr" and i: "i < length (tr ! n)" by (simp_all add: slot_in_def)
  have tr: "tr = take n tr @ (tr ! n) # drop (Suc n) tr" using n by (rule id_take_nth_drop)
  have m: "mset (concat tr) = mset (concat (take n tr)) + (mset (tr ! n) + mset (concat (drop (Suc n) tr)))"
    by (subst tr) (simp only: concat_append concat.simps mset_append)
  have mem: "tr ! n ! i \<in># mset (tr ! n)" using i by simp
  obtain M where M: "mset (tr ! n) = add_mset (tr ! n ! i) M" using mem by (metis multi_member_split)
  have "set_slot p e tr = take n tr @ (tr ! n)[i := e] # drop (Suc n) tr"
    by (simp only: set_slot_def p fst_conv snd_conv upd_conv_take_nth_drop[OF n])
  then have "mset (concat (set_slot p e tr)) =
      mset (concat (take n tr)) + (mset ((tr ! n)[i := e]) + mset (concat (drop (Suc n) tr)))"
    by (simp only: concat_append concat.simps mset_append)
  also have "\<dots> = add_mset e (mset (concat tr) - {#tr ! n ! i#})"
    unfolding m mset_update[OF i] M by simp
  finally show "mset (concat (set_slot p e tr)) = add_mset e (mset (concat tr) - {#tr ! fst p ! snd p#})" by (simp add: p)
  show "tr ! fst p ! snd p \<in># mset (concat tr)" unfolding m using mem by (simp add: p)
qed

lemma tracked_set_slot:
  assumes "slot_in p tr"
  shows "mset (tracked (set_slot p e tr)) =
    (if address e \<noteq> 0 then {#e#} else {#}) +
    (mset (tracked tr) - (if address (tr ! fst p ! snd p) \<noteq> 0 then {#tr ! fst p ! snd p#} else {#}))"
  using set_slot_mset(1)[OF assms, of e] set_slot_mset(2)[OF assms]
  by (auto simp: tracked_def mset_filter filter_diff_mset)

lemma set_slot_lengths:
  assumes "\<forall>node \<in> set tr. length node = n"
  shows "\<forall>node \<in> set (set_slot p e tr). length node = n"
proof (cases "fst p < length tr")
  case True
  then show ?thesis using assms by (auto simp: set_slot_def dest!: subsetD[OF set_update_subset_insert])
next
  case False
  then show ?thesis using assms by (simp add: set_slot_def not_less list_update_beyond)
qed

section \<open>Searching\<close>

lemma scan_node_spec:
  "case scan_node node of Some i \<Rightarrow> i < length node \<and> address (node ! i) = 0
   | None \<Rightarrow> \<forall>e \<in> set node. address e \<noteq> 0"
proof -
  let ?f = "\<lambda>i found. if address (node ! i) = 0 then Some i else found"
  have "case fold ?f [0 ..< k] None of Some i \<Rightarrow> i < k \<and> address (node ! i) = 0
      | None \<Rightarrow> \<forall>j < k. address (node ! j) \<noteq> 0" if "k \<le> length node" for k
    using that by (induction k) (auto simp: less_Suc_eq split: option.splits)
  from this[of "length node"] show ?thesis
    by (auto simp: scan_node_def all_set_conv_all_nth split: option.splits)
qed

lemma find_slot_spec:
  "case find_slot k tr of Some p \<Rightarrow> k \<le> fst p \<and> slot_in (fst p - k, snd p) tr \<and> address (tr ! (fst p - k) ! snd p) = 0
   | None \<Rightarrow> \<forall>node \<in> set tr. \<forall>e \<in> set node. address e \<noteq> 0"
proof (induction k tr rule: find_slot.induct)
  case (2 k node tr)
  show ?case
  proof (cases "scan_node node")
    case None
    with scan_node_spec[of node] 2 show ?thesis
      by (auto simp: slot_in_def nth_Cons' Suc_diff_le split: option.splits)
  next
    case (Some i)
    with scan_node_spec[of node] show ?thesis by (simp add: slot_in_def)
  qed
qed simp

lemma find_address_spec:
  "case find_address k a tr of Some p \<Rightarrow> k \<le> fst p \<and> slot_in (fst p - k, snd p) tr \<and> address (tr ! (fst p - k) ! snd p) = a
   | None \<Rightarrow> \<forall>node \<in> set tr. \<forall>e \<in> set node. address e \<noteq> a"
proof (induction k a tr rule: find_address.induct)
  case (2 k a node tr)
  show ?case
  proof (cases "List.find (\<lambda>i. address (node ! i) = a) [0 ..< length node]")
    case None
    then have "\<forall>e \<in> set node. address e \<noteq> a" by (auto simp: find_None_iff all_set_conv_all_nth)
    with None 2 show ?thesis by (auto simp: slot_in_def nth_Cons' Suc_diff_le split: option.splits)
  next
    case (Some i)
    then have "i < length node" "address (node ! i) = a" by (auto simp: find_Some_iff)
    with Some show ?thesis by (simp add: slot_in_def)
  qed
qed simp

section \<open>The invariant\<close>

definition trk_ok :: "mem_state \<Rightarrow> bool" where
  "trk_ok s = ((\<forall>node \<in> set (mem_tr s). length node = MEM_EL_MAX_ARRAY_SIZE) \<and>
     distinct (map address (tracked (mem_tr s))) \<and>
     el_entry ` set (tracked (mem_tr s)) = {x \<in> live s. snd x \<noteq> Kmalloc} \<and>
     (\<forall>x \<in> live s. \<forall>y \<in> live s. fst x = fst y \<longrightarrow> x = y) \<and> (\<forall>x \<in> live s. fst x \<noteq> 0))"

lemma trk_okD:
  assumes "trk_ok s"
  shows "\<forall>node \<in> set (mem_tr s). length node = MEM_EL_MAX_ARRAY_SIZE"
    "distinct (map address (tracked (mem_tr s)))"
    "el_entry ` set (tracked (mem_tr s)) = {x \<in> live s. snd x \<noteq> Kmalloc}"
    "\<And>x y. x \<in> live s \<Longrightarrow> y \<in> live s \<Longrightarrow> fst x = fst y \<Longrightarrow> x = y" "\<And>x. x \<in> live s \<Longrightarrow> fst x \<noteq> 0"
  using assms by (auto simp: trk_ok_def)

definition fresh :: "u64 \<Rightarrow> mem_state \<Rightarrow> bool" where
  "fresh a s = (a \<notin> fst ` live s)"

lemma add_ok:
  assumes ok: "trk_ok s" and a: "a \<noteq> 0" "fresh a s" and k: "k = (if vm then Vmalloc else Pages)"
  shows "\<exists>good t. control_Memory_Tracker_Add node_ok a sz vm (kernel_alloc k a s) = (good, t) \<and>
    (good \<longrightarrow> trk_ok t \<and> live t = insert (a, k) (live s)) \<and> (\<not> good \<longrightarrow> t = kernel_alloc k a s)"
proof -
  let ?e = "\<lparr>address = a, el_size = ucast sz, is_addr_vmalloc = vm\<rparr>"
  let ?s = "kernel_alloc k a s"
  note okD = trk_okD[OF ok]
  have s: "mem_tr ?s = mem_tr s" "live ?s = insert (a, k) (live s)" using a by (simp_all add: kernel_alloc_def)
  have kk: "k \<noteq> Kmalloc" "el_entry ?e = (a, k)" by (simp_all add: k el_entry_def el_kind_def)
  have an: "a \<notin> address ` set (tracked (mem_tr s))"
  proof
    assume "a \<in> address ` set (tracked (mem_tr s))"
    then have "a \<in> fst ` (el_entry ` set (tracked (mem_tr s)))" by (force simp: el_entry_def)
    then show False using okD(3) a(2) by (auto simp: fresh_def)
  qed
  have new: "trk_ok (?s\<lparr>mem_tr := set_slot p ?e tr\<rparr>)"
    if tr: "\<forall>node \<in> set tr. length node = MEM_EL_MAX_ARRAY_SIZE" "mset (tracked tr) = mset (tracked (mem_tr s))"
      and p: "slot_in p tr" "address (tr ! fst p ! snd p) = 0" for p tr
  proof -
    have m: "mset (tracked (set_slot p ?e tr)) = mset (?e # tracked (mem_tr s))"
      using tracked_set_slot[OF p(1), of ?e] p(2) a(1) tr(2) by simp
    then have st: "set (tracked (set_slot p ?e tr)) = insert ?e (set (tracked (mem_tr s)))"
      by (metis list.simps(15) set_mset_mset)
    have "mset (map address (tracked (set_slot p ?e tr))) = mset (map address (?e # tracked (mem_tr s)))"
      using m by (metis mset_map)
    then have "distinct (map address (tracked (set_slot p ?e tr))) = distinct (map address (?e # tracked (mem_tr s)))"
      by (rule mset_eq_imp_distinct_iff)
    then have "distinct (map address (tracked (set_slot p ?e tr)))" using an okD(2) by simp
    moreover have "el_entry ` set (tracked (set_slot p ?e tr)) = {x \<in> live ?s. snd x \<noteq> Kmalloc}"
      using okD(3) kk by (auto simp: st s(2))
    moreover have "x = y" if "x \<in> live ?s" "y \<in> live ?s" "fst x = fst y" for x y
      using that okD(4)[of x y] a(2) by (auto simp: s(2) fresh_def)
    moreover have "fst x \<noteq> 0" if "x \<in> live ?s" for x using that okD(5)[of x] a(1) by (auto simp: s(2))
    ultimately show ?thesis using set_slot_lengths[OF tr(1)] by (auto simp: trk_ok_def)
  qed
  show ?thesis
  proof (cases "find_slot 0 (mem_tr s)")
    case (Some p)
    with find_slot_spec[where k = 0 and tr = "mem_tr s"] have p: "slot_in p (mem_tr s)" "address (mem_tr s ! fst p ! snd p) = 0" by auto
    with new[OF okD(1) refl p] Some s show ?thesis
      by (intro exI[of _ True]) (simp add: control_Memory_Tracker_Add_def Let_def)
  next
    case None
    let ?tr = "mem_tr s @ [replicate MEM_EL_MAX_ARRAY_SIZE empty_el]"
    show ?thesis
    proof (cases node_ok)
      case True
      have len: "\<forall>node \<in> set ?tr. length node = MEM_EL_MAX_ARRAY_SIZE" using okD(1) by auto
      have m: "mset (tracked ?tr) = mset (tracked (mem_tr s))" by (simp add: tracked_def empty_el_def)
      have p: "slot_in (length ?tr - 1, 0) ?tr" "address (?tr ! fst (length ?tr - 1, 0 :: nat) ! snd (length ?tr - 1, 0 :: nat)) = 0"
        by (simp_all add: slot_in_def MEM_EL_MAX_ARRAY_SIZE_def empty_el_def)
      from new[OF len m p] True None s show ?thesis
        by (intro exI[of _ True]) (simp add: control_Memory_Tracker_Add_def control_Memory_Tracker_Create_Node_def Let_def)
    next
      case False
      with None s show ?thesis
        by (intro exI[of _ False]) (simp add: control_Memory_Tracker_Add_def control_Memory_Tracker_Create_Node_def Let_def)
    qed
  qed
qed

section \<open>Allocating and freeing\<close>

lemma kernel_kmalloc_ok:
  assumes ok: "trk_ok s" and a: "a \<noteq> 0" "fresh a s"
  shows "trk_ok (kernel_alloc Kmalloc a s)"
  using a trk_okD[OF ok] by (auto simp: trk_ok_def kernel_alloc_def fresh_def)

lemma add_null_ok:
  assumes ok: "trk_ok s"
  shows "trk_ok (snd (control_Memory_Tracker_Add node_ok 0 sz vm s)) \<and>
    live (snd (control_Memory_Tracker_Add node_ok 0 sz vm s)) = live s"
proof -
  let ?e = "\<lparr>address = 0, el_size = ucast sz, is_addr_vmalloc = vm\<rparr>"
  note okD = trk_okD[OF ok]
  have new: "trk_ok (s\<lparr>mem_tr := set_slot p ?e tr\<rparr>)"
    if tr: "\<forall>node \<in> set tr. length node = MEM_EL_MAX_ARRAY_SIZE" "mset (tracked tr) = mset (tracked (mem_tr s))"
      and p: "slot_in p tr" "address (tr ! fst p ! snd p) = 0" for p tr
  proof -
    have m: "mset (tracked (set_slot p ?e tr)) = mset (tracked (mem_tr s))"
      using tracked_set_slot[OF p(1), of ?e] p(2) tr(2) by simp
    then have "set (tracked (set_slot p ?e tr)) = set (tracked (mem_tr s))" by (rule mset_eq_setD)
    moreover have "mset (map address (tracked (set_slot p ?e tr))) = mset (map address (tracked (mem_tr s)))"
      using m by (metis mset_map)
    then have "distinct (map address (tracked (set_slot p ?e tr)))"
      using okD(2) mset_eq_imp_distinct_iff by blast
    ultimately show ?thesis using okD set_slot_lengths[OF tr(1)] by (auto simp: trk_ok_def)
  qed
  show ?thesis
  proof (cases "find_slot 0 (mem_tr s)")
    case (Some p)
    with find_slot_spec[where k = 0 and tr = "mem_tr s"]
    have p: "slot_in p (mem_tr s)" "address (mem_tr s ! fst p ! snd p) = 0" by auto
    with new[OF okD(1) refl p] Some show ?thesis by (simp add: control_Memory_Tracker_Add_def Let_def)
  next
    case None
    let ?tr = "mem_tr s @ [replicate MEM_EL_MAX_ARRAY_SIZE empty_el]"
    have len: "\<forall>node \<in> set ?tr. length node = MEM_EL_MAX_ARRAY_SIZE" using okD(1) by auto
    have m: "mset (tracked ?tr) = mset (tracked (mem_tr s))" by (simp add: tracked_def empty_el_def)
    have p: "slot_in (length ?tr - 1, 0) ?tr" "address (?tr ! fst (length ?tr - 1, 0 :: nat) ! snd (length ?tr - 1, 0 :: nat)) = 0"
      by (simp_all add: slot_in_def MEM_EL_MAX_ARRAY_SIZE_def empty_el_def)
    from new[OF len m p] None ok show ?thesis
      by (cases node_ok) (simp_all add: control_Memory_Tracker_Add_def control_Memory_Tracker_Create_Node_def Let_def)
  qed
qed

text \<open>The kind of memory a request of that size gets from each of the two allocators.\<close>

definition alloc_kind :: "mem_kind \<Rightarrow> u64 \<Rightarrow> mem_kind" where
  "alloc_kind large sz = (if sz < MAX_KMALLOC_SIZE then Kmalloc else large)"

text \<open>
  C18: allocation. With whatever address the kernel answers, as long as it is not one already in
  use, both allocators return without a fault and keep the tracker consistent; the address they
  return is the kernel's, now live with the kind its size asks for, or it is NULL and nothing is
  left allocated, also when the memory was there but could not be tracked.
\<close>

theorem CONTROL_Allocate_ok:
  assumes "trk_ok s" "fresh a s"
  shows "(\<exists>r t. CONTROL_Allocate_Memory node_ok a sz s = Some (r, t) \<and> trk_ok t \<and>
      (r = 0 \<and> live t = live s \<or> r = a \<and> a \<noteq> 0 \<and> live t = insert (a, alloc_kind Vmalloc sz) (live s))) \<and>
    (\<exists>r t. CONTROL_Allocate_KMemory node_ok a sz s = Some (r, t) \<and> trk_ok t \<and>
      (r = 0 \<and> live t = live s \<or> r = a \<and> a \<noteq> 0 \<and> live t = insert (a, alloc_kind Pages sz) (live s)))"
proof (intro conjI)
  have small: "trk_ok (kernel_alloc Kmalloc a s)" "a \<noteq> 0 \<Longrightarrow> live (kernel_alloc Kmalloc a s) = insert (a, Kmalloc) (live s)"
    "a = 0 \<Longrightarrow> kernel_alloc Kmalloc a s = s"
    using kernel_kmalloc_ok[OF assms(1) _ assms(2)] assms(1) by (cases "a = 0"; simp add: kernel_alloc_def)+
  have undo: "kernel_free k a (kernel_alloc k a s) = Some s" if "a \<noteq> 0" for k
  proof -
    have "insert (a, k) (live s) - {(a, k)} = live s" using assms(2) by (force simp: fresh_def)
    then show ?thesis using that by (simp add: kernel_free_def kernel_alloc_def)
  qed
  show "\<exists>r t. CONTROL_Allocate_Memory node_ok a sz s = Some (r, t) \<and> trk_ok t \<and>
      (r = 0 \<and> live t = live s \<or> r = a \<and> a \<noteq> 0 \<and> live t = insert (a, alloc_kind Vmalloc sz) (live s))"
  proof (cases "sz = 0 \<or> sz < MAX_KMALLOC_SIZE \<or> a = 0")
    case True
    then show ?thesis using small assms(1)
      by (cases "a = 0") (auto simp: CONTROL_Allocate_Memory_def alloc_kind_def kernel_alloc_def Let_def)
  next
    case False
    with add_ok[OF assms(1) _ assms(2), of Vmalloc True node_ok sz] obtain good t where
      t: "control_Memory_Tracker_Add node_ok a sz True (kernel_alloc Vmalloc a s) = (good, t)"
      "good \<longrightarrow> trk_ok t \<and> live t = insert (a, Vmalloc) (live s)" "\<not> good \<longrightarrow> t = kernel_alloc Vmalloc a s" by auto
    with False undo[of Vmalloc] assms(1) show ?thesis
      by (cases good) (simp_all add: CONTROL_Allocate_Memory_def alloc_kind_def Let_def)
  qed
  show "\<exists>r t. CONTROL_Allocate_KMemory node_ok a sz s = Some (r, t) \<and> trk_ok t \<and>
      (r = 0 \<and> live t = live s \<or> r = a \<and> a \<noteq> 0 \<and> live t = insert (a, alloc_kind Pages sz) (live s))"
  proof (cases "sz = 0 \<or> sz < MAX_KMALLOC_SIZE")
    case True
    then show ?thesis using small assms(1)
      by (cases "a = 0") (auto simp: CONTROL_Allocate_KMemory_def alloc_kind_def Let_def)
  next
    case large: False
    show ?thesis
    proof (cases "a = 0")
      case True
      obtain good t where t: "control_Memory_Tracker_Add node_ok 0 sz False s = (good, t)"
        by (cases "control_Memory_Tracker_Add node_ok 0 sz False s")
      with add_null_ok[OF assms(1), of node_ok sz False] have "trk_ok t" "live t = live s" by simp_all
      with t True large show ?thesis
        by (cases good) (simp_all add: CONTROL_Allocate_KMemory_def kernel_alloc_def)
    next
      case False
      with add_ok[OF assms(1) _ assms(2), of Pages False node_ok sz] obtain good t where
        t: "control_Memory_Tracker_Add node_ok a sz False (kernel_alloc Pages a s) = (good, t)"
        "good \<longrightarrow> trk_ok t \<and> live t = insert (a, Pages) (live s)" "\<not> good \<longrightarrow> t = kernel_alloc Pages a s" by auto
      with False large undo[of Pages] assms(1) show ?thesis
        by (cases good) (simp_all add: CONTROL_Allocate_KMemory_def alloc_kind_def)
    qed
  qed
qed

definition mem0 :: mem_state where "mem0 = \<lparr>mem_tr = [], live = {}\<rparr>"

lemma mem0_ok: "trk_ok mem0" by (simp add: trk_ok_def mem0_def tracked_def)

theorem CONTROL_Allocate_ok_witness:
  "\<exists>r t. CONTROL_Allocate_KMemory True 0x5000 0x40000 mem0 = Some (r, t) \<and> trk_ok t"
  using CONTROL_Allocate_ok[OF mem0_ok, of "0x5000" True "0x40000"] by (auto simp: fresh_def mem0_def)

section \<open>Freeing\<close>

lemma free_ok:
  assumes ok: "trk_ok s" and x: "(a, k) \<in> live s"
  shows "\<exists>t. CONTROL_Free_Memory a s = Some t \<and> trk_ok t \<and> live t = live s - {(a, k)}"
proof -
  note okD = trk_okD[OF ok]
  have a: "a \<noteq> 0" using okD(5)[OF x] by simp
  have live: "y \<in> live s \<Longrightarrow> fst y = a \<Longrightarrow> y = (a, k)" for y using okD(4)[OF _ x, of y] by simp
  show ?thesis
  proof (cases "find_address 0 a (mem_tr s)")
    case None
    with find_address_spec[where k = 0 and a = a and tr = "mem_tr s"]
    have none: "\<forall>e \<in> set (tracked (mem_tr s)). address e \<noteq> a" by (auto simp: tracked_def)
    have "k = Kmalloc"
    proof (rule ccontr)
      assume "k \<noteq> Kmalloc"
      with x okD(3) have "(a, k) \<in> el_entry ` set (tracked (mem_tr s))" by simp
      with none show False by (auto simp: el_entry_def)
    qed
    moreover have "trk_ok (s\<lparr>live := live s - {(a, Kmalloc)}\<rparr>)"
      using okD by (auto simp: trk_ok_def)
    ultimately show ?thesis using None a x by (simp add: CONTROL_Free_Memory_def kernel_free_def)
  next
    case (Some p)
    let ?e = "mem_tr s ! fst p ! snd p"
    from Some find_address_spec[where k = 0 and a = a and tr = "mem_tr s"]
    have p: "slot_in p (mem_tr s)" "address ?e = a" by auto
    then have mem: "?e \<in> set (tracked (mem_tr s))"
      using a set_slot_mset(2)[OF p(1)] by (simp add: tracked_def del: set_concat)
    then have "el_entry ?e \<in> {y \<in> live s. snd y \<noteq> Kmalloc}" using okD(3) by blast
    then have ek: "(a, el_kind ?e) \<in> live s" using p(2) by (simp add: el_entry_def)
    from live[OF ek] have k: "el_kind ?e = k" by simp
    let ?t = "s\<lparr>live := live s - {(a, k)}, mem_tr := set_slot p empty_el (mem_tr s)\<rparr>"
    have run: "CONTROL_Free_Memory a s = Some ?t"
      using Some a x k by (simp add: CONTROL_Free_Memory_def kernel_free_def el_kind_def [symmetric])
    have m: "mset (tracked (set_slot p empty_el (mem_tr s))) = mset (tracked (mem_tr s)) - {#?e#}"
      using tracked_set_slot[OF p(1), of empty_el] a p(2) by (simp add: empty_el_def)
    have m1: "mset (remove1 ?e (tracked (mem_tr s))) = mset (tracked (set_slot p empty_el (mem_tr s)))"
      using m by simp
    have dist: "distinct (map address (remove1 ?e (tracked (mem_tr s))))"
      using okD(2) by (simp add: distinct_map inj_on_def)
    have "mset (map address (tracked (set_slot p empty_el (mem_tr s)))) = mset (map address (remove1 ?e (tracked (mem_tr s))))"
      using m1 by (metis mset_map)
    then have d: "distinct (map address (tracked (set_slot p empty_el (mem_tr s))))"
      using dist mset_eq_imp_distinct_iff by blast
    have "distinct (tracked (mem_tr s))" using okD(2) by (simp add: distinct_map)
    then have st: "set (tracked (set_slot p empty_el (mem_tr s))) = set (tracked (mem_tr s)) - {?e}"
      using mset_eq_setD[OF m1] by (simp add: set_remove1_eq)
    have inj: "inj_on address (set (tracked (mem_tr s)))" using okD(2) by (simp add: distinct_map)
    have "el_entry ` (set (tracked (mem_tr s)) - {?e}) = {y \<in> live s. snd y \<noteq> Kmalloc} - {el_entry ?e}"
      using okD(3) mem inj_onD[OF inj] by (auto simp: el_entry_def)
    also have "\<dots> = {y \<in> live ?t. snd y \<noteq> Kmalloc}" using p(2) k by (auto simp: el_entry_def)
    finally have "trk_ok ?t"
      using okD d st set_slot_lengths[OF okD(1)] by (auto simp: trk_ok_def)
    with run show ?thesis by auto
  qed
qed

text \<open>
  The contract that the driver's clients use: any live address can be freed, and that is all
  that changes. Freeing everything, in whatever order, is a consequence of the contract.
\<close>

locale memory =
  fixes ok :: "'s \<Rightarrow> bool" and used_by :: "'s \<Rightarrow> ('a \<times> 'k) set" and free :: "'a \<Rightarrow> 's \<Rightarrow> 's option"
  assumes free_law: "ok s \<Longrightarrow> (a, k) \<in> used_by s \<Longrightarrow> \<exists>t. free a s = Some t \<and> ok t \<and> used_by t = used_by s - {(a, k)}"
    and one_kind: "ok s \<Longrightarrow> (a, k) \<in> used_by s \<Longrightarrow> (a, k') \<in> used_by s \<Longrightarrow> k = k'"
begin

lemma free_list:
  assumes "ok s" "distinct as" "set as \<subseteq> fst ` used_by s"
  shows "\<exists>t. foldm free as s = Some t \<and> ok t \<and> used_by t = {x \<in> used_by s. fst x \<notin> set as}"
  using assms
proof (induction as arbitrary: s)
  case (Cons a as)
  then obtain k where k: "(a, k) \<in> used_by s" by auto
  from free_law[OF Cons.prems(1) k] obtain s' where
    s': "free a s = Some s'" "ok s'" "used_by s' = used_by s - {(a, k)}" by blast
  have "set as \<subseteq> fst ` used_by s'"
  proof
    fix b assume b: "b \<in> set as"
    with Cons.prems(2,3) have "b \<noteq> a" "b \<in> fst ` used_by s" by auto
    then show "b \<in> fst ` used_by s'" by (force simp: s'(3))
  qed
  from Cons.IH[OF s'(2) _ this] Cons.prems(2) obtain t where
    t: "foldm free as s' = Some t" "ok t" "used_by t = {x \<in> used_by s'. fst x \<notin> set as}" by auto
  have one: "x \<in> used_by s \<Longrightarrow> fst x = a \<Longrightarrow> x = (a, k)" for x
    using one_kind[OF Cons.prems(1) k] by (cases x) auto
  have "used_by t = {x \<in> used_by s. fst x \<notin> set (a # as)}"
  proof (intro set_eqI iffI)
    fix x assume "x \<in> used_by t"
    then have "x \<in> used_by s" "x \<noteq> (a, k)" "fst x \<notin> set as" by (simp_all add: t(3) s'(3))
    with one[of x] show "x \<in> {x \<in> used_by s. fst x \<notin> set (a # as)}" by auto
  qed (auto simp: t(3) s'(3))
  with s'(1) t show ?case by auto
qed simp

end

interpretation trk: memory trk_ok live CONTROL_Free_Memory
proof (unfold_locales, goal_cases)
  case (1 s a k)
  then show ?case by (rule free_ok)
next
  case (2 s a k k')
  then show ?case using trk_okD(4)[OF 2(1), of "(a, k)" "(a, k')"] by simp
qed

text \<open>
  C19: memory can be freed in any order. From a consistent tracker, freeing any distinct live
  addresses one after the other returns without a fault, so each goes back through the function
  that allocated it, and leaves exactly the other allocations live and the tracker consistent.
\<close>

theorem CONTROL_Free_Memory_any_order:
  assumes "trk_ok s" "distinct as" "set as \<subseteq> fst ` live s"
  shows "\<exists>t. foldm CONTROL_Free_Memory as s = Some t \<and> trk_ok t \<and> live t = {x \<in> live s. fst x \<notin> set as}"
  by (rule trk.free_list[OF assms])

definition mem1 :: mem_state where
  "mem1 = \<lparr>mem_tr = [replicate 30 empty_el @ [\<lparr>address = 0x5000, el_size = 0x40000, is_addr_vmalloc = False\<rparr>,
      \<lparr>address = 0x9000, el_size = 0x40000, is_addr_vmalloc = True\<rparr>]],
    live = {(0x5000, Pages), (0x9000, Vmalloc), (0x100, Kmalloc)}\<rparr>"

lemma mem1_ok: "trk_ok mem1"
  by (auto simp: trk_ok_def mem1_def tracked_def empty_el_def MEM_EL_MAX_ARRAY_SIZE_def el_entry_def el_kind_def)

theorem CONTROL_Free_Memory_any_order_witness:
  "\<exists>t. foldm CONTROL_Free_Memory [0x9000, 0x100, 0x5000] mem1 = Some t \<and> live t = {}"
  using CONTROL_Free_Memory_any_order[OF mem1_ok, of "[0x9000, 0x100, 0x5000]"] by (auto simp: mem1_def)

text \<open>
  Unloading and \<open>vmalloc\<close>. With a consistent tracker, \<open>CONTROL_Memory_Tracker_Free\<close> returns all
  large allocations, leaving the small ones, exactly when none of them came from \<open>vmalloc\<close>; one
  left-over \<open>vmalloc\<close> allocation is handed to \<open>free_pages\<close>, a fault, although the tracker knows its kind.
\<close>

theorem CONTROL_Memory_Tracker_Free_iff:
  assumes "trk_ok s"
  shows "(if \<exists>a. (a, Vmalloc) \<in> live s then CONTROL_Memory_Tracker_Free s = None
     else CONTROL_Memory_Tracker_Free s = Some (s\<lparr>live := {x \<in> live s. snd x = Kmalloc}, mem_tr := []\<rparr>))"
proof -
  note okD = trk_okD[OF assms]
  let ?body = "\<lambda>e. kernel_free Pages (address e)"
  have fl: "foldm (\<lambda>e s. if address e \<noteq> 0 then kernel_free Pages (address e) s else Some s) (concat (mem_tr s)) s =
      foldm ?body (tracked (mem_tr s)) s"
  proof -
    have eq: "(\<lambda>e s. if address e \<noteq> 0 then kernel_free Pages (address e) s else Some s) =
        (\<lambda>e s. if address e = 0 then Some s else kernel_free Pages (address e) s)" by (simp add: fun_eq_iff)
    show ?thesis unfolding eq foldm_filter tracked_def ..
  qed
  have run: "foldm ?body es u = (if \<forall>e \<in> set es. (address e, Pages) \<in> live u
      then Some (u\<lparr>live := live u - (\<lambda>e. (address e, Pages)) ` set es\<rparr>) else None)"
    if "distinct (map address es)" for es u
    using that
  proof (induction es arbitrary: u)
    case (Cons e es)
    show ?case
    proof (cases "(address e, Pages) \<in> live u")
      case False
      then show ?thesis by (simp add: kernel_free_def)
    next
      case True
      let ?u = "u\<lparr>live := live u - {(address e, Pages)}\<rparr>"
      have "(\<forall>e' \<in> set es. (address e', Pages) \<in> live ?u) = (\<forall>e' \<in> set es. (address e', Pages) \<in> live u)"
        using Cons.prems by (auto simp: image_iff)
      moreover have "live u - {x} - X = live u - insert x X" for x X by blast
      ultimately show ?thesis using True Cons.IH[of ?u] Cons.prems by (simp add: kernel_free_def)
    qed
  qed simp
  have t: "(\<forall>e \<in> set (tracked (mem_tr s)). (address e, Pages) \<in> live s) = (\<forall>a. (a, Vmalloc) \<notin> live s)"
  proof
    assume L: "\<forall>e \<in> set (tracked (mem_tr s)). (address e, Pages) \<in> live s"
    show "\<forall>a. (a, Vmalloc) \<notin> live s"
    proof (intro allI notI)
      fix a assume a: "(a, Vmalloc) \<in> live s"
      then have "(a, Vmalloc) \<in> el_entry ` set (tracked (mem_tr s))" using okD(3) by auto
      then obtain e where "e \<in> set (tracked (mem_tr s))" "address e = a" by (auto simp: el_entry_def)
      with L have "(a, Pages) \<in> live s" by auto
      from okD(4)[OF this a] show False by simp
    qed
  next
    assume R: "\<forall>a. (a, Vmalloc) \<notin> live s"
    show "\<forall>e \<in> set (tracked (mem_tr s)). (address e, Pages) \<in> live s"
    proof
      fix e assume "e \<in> set (tracked (mem_tr s))"
      then have "el_entry e \<in> live s" using okD(3) by blast
      with R show "(address e, Pages) \<in> live s" by (auto simp: el_entry_def el_kind_def split: if_splits)
    qed
  qed
  show ?thesis
  proof (cases "\<exists>a. (a, Vmalloc) \<in> live s")
    case True
    then show ?thesis using run[OF okD(2), of s] t by (simp add: CONTROL_Memory_Tracker_Free_def fl)
  next
    case False
    have "(\<lambda>e. (address e, Pages)) ` set (tracked (mem_tr s)) = el_entry ` set (tracked (mem_tr s))"
    proof (rule image_cong[OF refl])
      fix e assume "e \<in> set (tracked (mem_tr s))"
      then have "el_entry e \<in> live s" using okD(3) by blast
      with False show "(address e, Pages) = el_entry e" by (auto simp: el_entry_def el_kind_def split: if_splits)
    qed
    then have "live s - (\<lambda>e. (address e, Pages)) ` set (tracked (mem_tr s)) = {x \<in> live s. snd x = Kmalloc}"
      using okD(3) by auto
    then show ?thesis using run[OF okD(2), of s] t False by (simp add: CONTROL_Memory_Tracker_Free_def fl)
  qed
qed

theorem CONTROL_Memory_Tracker_Free_iff_witness: "CONTROL_Memory_Tracker_Free mem1 = None"
  using CONTROL_Memory_Tracker_Free_iff[OF mem1_ok] by (auto simp: mem1_def split: if_splits)

section \<open>Compaction\<close>

definition has_hole :: "mem_el list \<Rightarrow> bool" where
  "has_hole node = (\<exists>e \<in> set node. address e = 0)"

definition has_used :: "mem_el list \<Rightarrow> bool" where
  "has_used node = (\<exists>e \<in> set node. address e \<noteq> 0)"

lemma ex_slot: "(\<exists>k \<in> set [0 ..< length xs]. P (xs ! k)) = (\<exists>x \<in> set xs. P x)"
  by (metis atLeastLessThan_iff in_set_conv_nth le0 set_upt)

lemma search_empty_spec:
  assumes "\<forall>node \<in> set tr. length node = L" "0 < L" "a \<le> b" "Suc b = length tr"
  shows "\<exists>found ov a'. search_empty tr a 0 b (int L - 1) = (found, ov, a', L) \<and> a \<le> a' \<and> a' \<le> b \<and>
    (\<forall>x. a \<le> x \<and> x < a' \<longrightarrow> \<not> has_hole (tr ! x)) \<and> (ov \<longleftrightarrow> a' = b) \<and> (\<not> ov \<longrightarrow> found \<and> has_hole (tr ! a'))"
  using assms(3)
proof (induction "b - a" arbitrary: a)
  case 0
  then have ab: "a = b" by simp
  have l: "length (tr ! a) = L" using assms(1,4) ab by simp
  have lt: "\<not> length tr \<le> b" using assms(4) by simp
  have r: "search_empty tr b 0 b (int L - 1) = (\<exists>k \<in> set [0 ..< L]. address (tr ! b ! k) = 0, True, b, L)"
    unfolding search_empty.simps[of tr b] Let_def using lt l ab by simp
  show ?case unfolding ab by (rule exI, rule exI, rule exI, rule conjI, rule r) auto
next
  case (Suc d)
  then have ab: "a < b" by simp
  have l: "length (tr ! a) = L" using assms(1,4) ab by simp
  have h: "(\<exists>k \<in> set [0 ..< length (tr ! a)]. address (tr ! a ! k) = 0) = has_hole (tr ! a)"
    unfolding has_hole_def by (rule ex_slot)
  have lt: "\<not> length tr \<le> a" using ab assms(4) by simp
  show ?case
  proof (cases "has_hole (tr ! a)")
    case True
    then have r: "search_empty tr a 0 b (int L - 1) = (True, False, a, L)"
      unfolding search_empty.simps[of tr a] Let_def h using ab lt l by simp
    show ?thesis by (rule exI, rule exI, rule exI, rule conjI, rule r) (use True ab in auto)
  next
    case False
    then have step: "search_empty tr a 0 b (int L - 1) = search_empty tr (a + 1) 0 b (int L - 1)"
      unfolding search_empty.simps[of tr a] Let_def h using ab lt by simp
    have pre: "d = b - (a + 1)" "a + 1 \<le> b" using Suc.hyps(2) ab by simp_all
    from Suc.hyps(1)[OF pre] obtain found ov a' where
      r: "search_empty tr (a + 1) 0 b (int L - 1) = (found, ov, a', L)" "a + 1 \<le> a'" "a' \<le> b"
      "\<forall>x. a + 1 \<le> x \<and> x < a' \<longrightarrow> \<not> has_hole (tr ! x)" "ov \<longleftrightarrow> a' = b" "\<not> ov \<longrightarrow> found \<and> has_hole (tr ! a')" by blast
    have "\<not> has_hole (tr ! x)" if "a \<le> x" "x < a'" for x
      using r(4) False that by (cases "x = a") auto
    with step r show ?thesis by auto
  qed
qed

lemma search_used_spec:
  assumes "\<forall>node \<in> set tr. length node = L" "0 < L" "a \<le> b" "Suc b = length tr"
  shows "\<exists>found ov b'. search_used a i b (int L - 1) tr = Some (found, ov, b', - 1, take (Suc b') tr) \<and> a \<le> b' \<and> b' \<le> b \<and>
    (\<forall>x. b' < x \<and> x \<le> b \<longrightarrow> \<not> has_used (tr ! x)) \<and> (ov \<longleftrightarrow> a = b') \<and> (\<not> ov \<longrightarrow> found \<and> has_used (tr ! b'))"
  using assms
proof (induction b arbitrary: tr)
  case 0
  then have ne: "tr \<noteq> []" by auto
  then have "length (tr ! 0) = L" using 0 nth_mem[of 0 tr] by simp
  with ne 0 show ?case by (subst search_used.simps) (auto simp: Let_def list_at_def)
next
  case (Suc b)
  have l: "length (tr ! Suc b) = L" using Suc.prems(1,4) by simp
  have h: "(\<exists>k \<in> {0 ..< L}. address (tr ! Suc b ! k) \<noteq> 0) = has_used (tr ! Suc b)"
    unfolding has_used_def using ex_slot[of "tr ! Suc b" "\<lambda>e. address e \<noteq> 0"] l by simp
  have at: "list_at tr (Suc b) = Some (tr ! Suc b)" using Suc.prems(4) by simp
  have whole: "take (Suc (Suc b)) tr = tr" using Suc.prems(4) by simp
  show ?case
  proof (cases "a = Suc b \<or> has_used (tr ! Suc b)")
    case True
    then have "search_used a i (Suc b) (int L - 1) tr = Some (has_used (tr ! Suc b), a = Suc b, Suc b, - 1, tr)"
      unfolding search_used.simps[of a i "Suc b"] at using Suc.prems(2) by (auto simp: Let_def h l)
    with True whole Suc.prems(3) show ?thesis by auto
  next
    case False
    have "length (tr ! b) = L" using Suc.prems(1,4) by simp
    with False have step: "search_used a i (Suc b) (int L - 1) tr = search_used a i b (int L - 1) (take (Suc b) tr)"
      unfolding search_used.simps[of a i "Suc b"] at using Suc.prems(2) by (simp add: Let_def h l)
    have pre: "\<forall>node \<in> set (take (Suc b) tr). length node = L" "a \<le> b" "Suc b = length (take (Suc b) tr)"
      using Suc.prems False by (auto dest: in_set_takeD)
    from Suc.IH[OF pre(1) Suc.prems(2) pre(2,3)] obtain found ov b' where
      r: "search_used a i b (int L - 1) (take (Suc b) tr) = Some (found, ov, b', - 1, take (Suc b') (take (Suc b) tr))"
      "a \<le> b'" "b' \<le> b" "\<forall>x. b' < x \<and> x \<le> b \<longrightarrow> \<not> has_used (take (Suc b) tr ! x)" "ov \<longleftrightarrow> a = b'"
      "\<not> ov \<longrightarrow> found \<and> has_used (take (Suc b) tr ! b')" by blast
    have "\<not> has_used (tr ! x)" if "b' < x" "x \<le> Suc b" for x
      using r(4) False that by (cases "x = Suc b") auto
    moreover have "take (Suc b') (take (Suc b) tr) = take (Suc b') tr" using r(3) by (simp add: min_def)
    ultimately show ?thesis using step r by auto
  qed
qed

lemma nothing_to_move:
  assumes "\<forall>x < a. \<not> has_hole (tr ! x)" "\<forall>y. a < y \<and> y < length tr \<longrightarrow> \<not> has_used (tr ! y)"
  shows "\<not> (\<exists>x y. x < y \<and> y < length tr \<and> has_hole (tr ! x) \<and> has_used (tr ! y))"
proof clarify
  fix x y assume xy: "x < y" "y < length tr" "has_hole (tr ! x)" "has_used (tr ! y)"
  then have "\<not> a < y" using assms(2) by blast
  with xy(1) have "x < a" by simp
  with assms(1) xy(3) show False by blast
qed

text \<open>The forward search has stopped at a node with a hole before the last one.\<close>

lemma compaction_backward:
  assumes "\<forall>node \<in> set (mem_tr s). length node = MEM_EL_MAX_ARRAY_SIZE" "mem_tr s \<noteq> []" "a < length (mem_tr s) - 1"
    "search_empty (mem_tr s) 0 0 (length (mem_tr s) - 1) (int MEM_EL_MAX_ARRAY_SIZE - 1) = (True, False, a, MEM_EL_MAX_ARRAY_SIZE)"
  shows "(\<exists>y. a < y \<and> y < length (mem_tr s) \<and> has_used (mem_tr s ! y) \<and> CONTROL_Memory_Tracker_Compaction s = None) \<or>
    (\<forall>y. a < y \<and> y < length (mem_tr s) \<longrightarrow> \<not> has_used (mem_tr s ! y)) \<and>
    CONTROL_Memory_Tracker_Compaction s = Some (s\<lparr>mem_tr := take (Suc a) (mem_tr s)\<rparr>)"
proof -
  let ?tr = "mem_tr s" and ?L = MEM_EL_MAX_ARRAY_SIZE and ?b = "length (mem_tr s) - 1"
  have L: "0 < ?L" by (simp add: MEM_EL_MAX_ARRAY_SIZE_def)
  have b: "Suc ?b = length ?tr" using assms(2) by simp
  have m: "int (length (last ?tr)) - 1 = int ?L - 1" using assms(1,2) by simp
  obtain found ov y where su: "search_used a ?L ?b (int ?L - 1) ?tr = Some (found, ov, y, - 1, take (Suc y) ?tr)"
    "a \<le> y" "y \<le> ?b" "\<forall>x. y < x \<and> x \<le> ?b \<longrightarrow> \<not> has_used (?tr ! x)" "ov \<longleftrightarrow> a = y" "\<not> ov \<longrightarrow> found \<and> has_used (?tr ! y)"
    using search_used_spec[OF assms(1) L less_imp_le[OF assms(3)] b, of ?L] by blast
  show ?thesis
  proof (cases ov)
    case True
    have "CONTROL_Memory_Tracker_Compaction s = Some (s\<lparr>mem_tr := take (Suc a) ?tr\<rparr>)"
      using assms(2,4) su(1,5) True unfolding CONTROL_Memory_Tracker_Compaction_def Let_def m
      by (subst compaction_loop.simps) simp
    then show ?thesis using su(4,5) True by auto
  next
    case False
    have "list_at (take (Suc y) ?tr) y = Some (?tr ! y)" using su(3) b by (simp add: list_at_def)
    then have "CONTROL_Memory_Tracker_Compaction s = None"
      using assms(2,4) su(1,6) False unfolding CONTROL_Memory_Tracker_Compaction_def Let_def m
      by (subst compaction_loop.simps) simp
    moreover have "a < y" "y < length ?tr" "has_used (?tr ! y)" using su(2,3,5,6) False b by auto
    ultimately show ?thesis by blast
  qed
qed

text \<open>
  C17: compaction never compacts. On any list of full-size nodes, if a node before the last used
  one has a free slot, \<open>CONTROL_Memory_Tracker_Compaction\<close> runs its searches past the ends of the
  arrays and faults on the exchange; otherwise it returns and the nodes are as before, except
  that unused nodes at the tail may be gone. In no case is an element moved.
\<close>

theorem CONTROL_Memory_Tracker_Compaction_spec:
  assumes "\<forall>node \<in> set (mem_tr s). length node = MEM_EL_MAX_ARRAY_SIZE"
  shows "(if \<exists>a b. a < b \<and> b < length (mem_tr s) \<and> has_hole (mem_tr s ! a) \<and> has_used (mem_tr s ! b)
     then CONTROL_Memory_Tracker_Compaction s = None
     else \<exists>k. CONTROL_Memory_Tracker_Compaction s = Some (s\<lparr>mem_tr := take k (mem_tr s)\<rparr>) \<and>
       (\<forall>node \<in> set (drop k (mem_tr s)). \<not> has_used node))"
proof (cases "mem_tr s = []")
  case True
  then show ?thesis by (simp add: CONTROL_Memory_Tracker_Compaction_def)
next
  case False
  let ?tr = "mem_tr s" and ?L = MEM_EL_MAX_ARRAY_SIZE and ?b = "length (mem_tr s) - 1"
  have L: "0 < ?L" by (simp add: MEM_EL_MAX_ARRAY_SIZE_def)
  have b: "Suc ?b = length ?tr" using False by simp
  have m: "int (length (last ?tr)) - 1 = int ?L - 1" using assms False by simp
  obtain found ov a where se: "search_empty ?tr 0 0 ?b (int ?L - 1) = (found, ov, a, ?L)" "a \<le> ?b"
    "\<forall>x < a. \<not> has_hole (?tr ! x)" "ov \<longleftrightarrow> a = ?b" "\<not> ov \<longrightarrow> found \<and> has_hole (?tr ! a)"
    using search_empty_spec[OF assms L _ b, of 0] by auto
  show ?thesis
  proof (cases ov)
    case True
    have "CONTROL_Memory_Tracker_Compaction s = Some s"
      using False se(1) True unfolding CONTROL_Memory_Tracker_Compaction_def Let_def m
      by (subst compaction_loop.simps) simp
    moreover have "\<not> (\<exists>a b. a < b \<and> b < length ?tr \<and> has_hole (?tr ! a) \<and> has_used (?tr ! b))"
      by (rule nothing_to_move[OF se(3)]) (use se(4) True in auto)
    ultimately show ?thesis by (auto intro!: exI[of _ "length ?tr"])
  next
    case no: False
    with se have "a < ?b" "search_empty ?tr 0 0 ?b (int ?L - 1) = (True, False, a, ?L)" by auto
    from compaction_backward[OF assms False this] show ?thesis
    proof (elim disjE exE conjE)
      fix y assume "a < y" "y < length ?tr" "has_used (?tr ! y)" "CONTROL_Memory_Tracker_Compaction s = None"
      moreover from this have "\<exists>a b. a < b \<and> b < length ?tr \<and> has_hole (?tr ! a) \<and> has_used (?tr ! b)"
        using se(5) no by blast
      ultimately show ?thesis by (simp only: if_True)
    next
      assume u: "\<forall>y. a < y \<and> y < length ?tr \<longrightarrow> \<not> has_used (?tr ! y)"
        and c: "CONTROL_Memory_Tracker_Compaction s = Some (s\<lparr>mem_tr := take (Suc a) ?tr\<rparr>)"
      have "\<forall>node \<in> set (drop (Suc a) ?tr). \<not> has_used node" using u by (auto simp: in_set_conv_nth)
      then show ?thesis using c nothing_to_move[OF se(3) u] by auto
    qed
  qed
qed

definition mem2 :: mem_state where
  "mem2 = mem1\<lparr>mem_tr := mem_tr mem1 @ mem_tr mem1\<rparr>"

theorem CONTROL_Memory_Tracker_Compaction_spec_witness:
  "CONTROL_Memory_Tracker_Compaction mem2 = None"
proof -
  have l: "\<forall>node \<in> set (mem_tr mem2). length node = MEM_EL_MAX_ARRAY_SIZE"
    by (simp add: mem2_def mem1_def MEM_EL_MAX_ARRAY_SIZE_def)
  have "\<exists>a b. a < b \<and> b < length (mem_tr mem2) \<and> has_hole (mem_tr mem2 ! a) \<and> has_used (mem_tr mem2 ! b)"
    by (intro exI[of _ 0] exI[of _ 1]) (simp add: mem2_def mem1_def has_hole_def has_used_def empty_el_def)
  with CONTROL_Memory_Tracker_Compaction_spec[OF l] show ?thesis by (simp only: if_True)
qed

end
