(* ===== verification/Pax.thy ===== *)
theory Pax
  imports Prelude
begin

text \<open>
  The PMU arbitration service of pax/pax.c: one reservation of the performance-monitoring unit,
  held by a process, released by it or taken over when it has died. First the handlers as the
  ioctl runs them from start to end, with the world they act in as a step relation; then the
  same code at the granularity of its single accesses to the shared status, for processes that
  run at the same time.
\<close>

section \<open>State\<close>

definition PAX_PMU_RESERVED :: u32 where "PAX_PMU_RESERVED = 1"
definition PAX_PMU_UNRESERVED :: u32 where "PAX_PMU_UNRESERVED = 0"
definition PAX_GUID_UNINITIALIZED :: u64 where "PAX_GUID_UNINITIALIZED = 0"

text \<open>\<open>pax_pid\<close> is the process that holds, or held last, the reservation.\<close>

record pax_status =
  guid :: u64
  pax_pid :: nat
  start_time :: u64
  is_reserved :: u32

record pax_info =
  managed_by :: u64
  pax_version :: u32

datatype pax_cmd = PAX_IOCTL_INFO | PAX_IOCTL_STATUS | PAX_IOCTL_RESERVE_ALL | PAX_IOCTL_UNRESERVE | PAX_IOCTL_OTHER

definition pax_Init :: "pax_info \<times> pax_status" where
  "pax_Init = (\<lparr>managed_by = 1, pax_version = 0x10001\<rparr>,
     \<lparr>guid = PAX_GUID_UNINITIALIZED, pax_pid = 0, start_time = 0, is_reserved = PAX_PMU_UNRESERVED\<rparr>)"

definition pax_Cleanup :: "pax_info \<Rightarrow> pax_info \<times> pax_status" where
  "pax_Cleanup i = (i\<lparr>managed_by := 0\<rparr>,
     \<lparr>guid = PAX_GUID_UNINITIALIZED, pax_pid = 0, start_time = 0, is_reserved = PAX_PMU_UNRESERVED\<rparr>)"

section \<open>Handlers\<close>

text \<open>\<open>alive pid\<close>: the kernel finds a task for the pid that is not a zombie and not dead. The
  routine ignores its argument and looks at the recorded pid.\<close>

definition pax_Process_Valid :: "(nat \<Rightarrow> bool) \<Rightarrow> nat \<Rightarrow> pax_status \<Rightarrow> bool" where
  "pax_Process_Valid alive pid s = alive (pax_pid s)"

text \<open>\<open>cmpxchg(&pax_status.is_reserved, old, new)\<close>: the previous value and the new status.\<close>

definition cmpxchg_reserved :: "u32 \<Rightarrow> u32 \<Rightarrow> pax_status \<Rightarrow> u32 \<times> pax_status" where
  "cmpxchg_reserved old new s = (is_reserved s, if is_reserved s = old then s\<lparr>is_reserved := new\<rparr> else s)"

definition pax_Unreserve :: "(nat \<Rightarrow> bool) \<Rightarrow> nat \<Rightarrow> pax_status \<Rightarrow> os_status \<times> pax_status" where
  "pax_Unreserve alive current s =
     (if is_reserved s = PAX_PMU_UNRESERVED then (OS_SUCCESS, s)
      else let s = (if pax_pid s = current \<or> \<not> pax_Process_Valid alive (pax_pid s) s
                    then snd (cmpxchg_reserved PAX_PMU_RESERVED PAX_PMU_UNRESERVED s) else s)
           in (if is_reserved s = PAX_PMU_UNRESERVED then OS_SUCCESS else OS_FAULT, s))"

definition pax_Reserve_All :: "(nat \<Rightarrow> bool) \<Rightarrow> u64 \<Rightarrow> nat \<Rightarrow> pax_status \<Rightarrow> os_status \<times> pax_status" where
  "pax_Reserve_All alive tsc current s =
     (let (unreserve_err, s) = (if is_reserved s = PAX_PMU_RESERVED then pax_Unreserve alive current s
                                else (OS_SUCCESS, s))
      in if unreserve_err \<noteq> OS_SUCCESS then (unreserve_err, s)
         else let (reservation, s) = cmpxchg_reserved PAX_PMU_UNRESERVED PAX_PMU_RESERVED s
              in if reservation = PAX_PMU_UNRESERVED \<and> is_reserved s = PAX_PMU_RESERVED
                 then (OS_SUCCESS, s\<lparr>start_time := tsc, pax_pid := current\<rparr>)
                 else (OS_FAULT, s))"

text \<open>\<open>copy_ok\<close> is the answer of \<open>copy_to_user\<close>; the middle of the result is what was copied out.\<close>

definition pax_Get_Info :: "bool \<Rightarrow> pax_info \<Rightarrow> os_status \<times> pax_info option" where
  "pax_Get_Info copy_ok i = (if copy_ok then (OS_SUCCESS, Some i) else (OS_FAULT, None))"

definition pax_Get_Status :: "bool \<Rightarrow> pax_status \<Rightarrow> os_status \<times> pax_status option" where
  "pax_Get_Status copy_ok s = (if copy_ok then (OS_SUCCESS, Some s) else (OS_FAULT, None))"

definition pax_Service_IOCTL :: "(nat \<Rightarrow> bool) \<Rightarrow> u64 \<Rightarrow> bool \<Rightarrow> nat \<Rightarrow> pax_cmd \<Rightarrow> pax_info \<Rightarrow> pax_status
    \<Rightarrow> os_status \<times> pax_info option \<times> pax_status option \<times> pax_status" where
  "pax_Service_IOCTL alive tsc copy_ok current cmd i s = (case cmd of
     PAX_IOCTL_INFO \<Rightarrow> (let (r, out) = pax_Get_Info copy_ok i in (r, out, None, s))
   | PAX_IOCTL_STATUS \<Rightarrow> (let (r, out) = pax_Get_Status copy_ok s in (r, None, out, s))
   | PAX_IOCTL_RESERVE_ALL \<Rightarrow> (let (r, s) = pax_Reserve_All alive tsc current s in (r, None, None, s))
   | PAX_IOCTL_UNRESERVE \<Rightarrow> (let (r, s) = pax_Unreserve alive current s in (r, None, None, s))
   | PAX_IOCTL_OTHER \<Rightarrow> (OS_ILLEGAL_IOCTL, None, None, s))"

section \<open>The world, one ioctl at a time\<close>

text \<open>\<open>w_holds p\<close>: process \<open>p\<close> was granted the reservation and has not given it back.\<close>

record pax_world =
  w_status :: pax_status
  w_alive :: "nat \<Rightarrow> bool"
  w_holds :: "nat \<Rightarrow> bool"

inductive pax_step :: "pax_world \<Rightarrow> pax_world \<Rightarrow> bool" where
  reserve: "w_alive w p \<Longrightarrow> pax_Reserve_All (w_alive w) tsc p (w_status w) = (r, st) \<Longrightarrow>
    pax_step w (w\<lparr>w_status := st, w_holds := (w_holds w)(p := (r = OS_SUCCESS))\<rparr>)"
| unreserve: "w_alive w p \<Longrightarrow> pax_Unreserve (w_alive w) p (w_status w) = (r, st) \<Longrightarrow>
    pax_step w (w\<lparr>w_status := st, w_holds := (w_holds w)(p := False)\<rparr>)"
| exit: "w_alive w p \<Longrightarrow> pax_step w (w\<lparr>w_alive := (w_alive w)(p := False)\<rparr>)"
| spawn: "\<not> w_alive w p \<Longrightarrow> pax_step w (w\<lparr>w_alive := (w_alive w)(p := True), w_holds := (w_holds w)(p := False)\<rparr>)"

inductive pax_reachable :: "pax_world \<Rightarrow> bool" where
  start: "pax_reachable \<lparr>w_status = snd pax_Init, w_alive = al, w_holds = (\<lambda>_. False)\<rparr>"
| next_step: "pax_reachable w \<Longrightarrow> pax_step w w' \<Longrightarrow> pax_reachable w'"

inductive_cases pax_stepE: "pax_step w w'"

section \<open>The same code, one access at a time\<close>

text \<open>
  Where a process is: before the first test of \<open>Reserve_All\<close>; inside its call of \<open>Unreserve\<close>
  (flag True) or in an \<open>Unreserve\<close> of its own; at the exchange, the re-test and the two stores.
\<close>

datatype pax_pc = P_Idle | P_Reserve | P_Unres bool | P_Unres_own bool | P_Unres_cas bool
  | P_Unres_ret bool | P_Cas | P_Check | P_Time | P_Pid | P_Return os_status

fun pax_micro :: "(nat \<Rightarrow> bool) \<Rightarrow> u64 \<Rightarrow> nat \<Rightarrow> pax_pc \<times> pax_status \<Rightarrow> pax_pc \<times> pax_status" where
  "pax_micro alive tsc p (P_Reserve, s) = (if is_reserved s = PAX_PMU_RESERVED then P_Unres True else P_Cas, s)"
| "pax_micro alive tsc p (P_Unres b, s) =
     (if is_reserved s = PAX_PMU_UNRESERVED then (if b then P_Cas else P_Return OS_SUCCESS) else P_Unres_own b, s)"
| "pax_micro alive tsc p (P_Unres_own b, s) =
     (if pax_pid s = p \<or> \<not> pax_Process_Valid alive (pax_pid s) s then P_Unres_cas b else P_Unres_ret b, s)"
| "pax_micro alive tsc p (P_Unres_cas b, s) =
     (P_Unres_ret b, snd (cmpxchg_reserved PAX_PMU_RESERVED PAX_PMU_UNRESERVED s))"
| "pax_micro alive tsc p (P_Unres_ret b, s) =
     (if is_reserved s = PAX_PMU_UNRESERVED then (if b then P_Cas else P_Return OS_SUCCESS) else P_Return OS_FAULT, s)"
| "pax_micro alive tsc p (P_Cas, s) =
     (let (reservation, s) = cmpxchg_reserved PAX_PMU_UNRESERVED PAX_PMU_RESERVED s
      in (if reservation = PAX_PMU_UNRESERVED then P_Check else P_Return OS_FAULT, s))"
| "pax_micro alive tsc p (P_Check, s) = (if is_reserved s = PAX_PMU_RESERVED then P_Time else P_Return OS_FAULT, s)"
| "pax_micro alive tsc p (P_Time, s) = (P_Pid, s\<lparr>start_time := tsc\<rparr>)"
| "pax_micro alive tsc p (P_Pid, s) = (P_Return OS_SUCCESS, s\<lparr>pax_pid := p\<rparr>)"
| "pax_micro alive tsc p (P_Idle, s) = (P_Idle, s)"
| "pax_micro alive tsc p (P_Return r, s) = (P_Return r, s)"

text \<open>A schedule names the process that makes the next access.\<close>

fun pax_run :: "(nat \<Rightarrow> bool) \<Rightarrow> u64 \<Rightarrow> nat list \<Rightarrow> (nat \<Rightarrow> pax_pc) \<times> pax_status \<Rightarrow> (nat \<Rightarrow> pax_pc) \<times> pax_status" where
  "pax_run alive tsc [] c = c"
| "pax_run alive tsc (p # ps) c = (let (pc, s) = pax_micro alive tsc p (fst c p, snd c)
     in pax_run alive tsc ps ((fst c)(p := pc), s))"

section \<open>Correctness\<close>

lemmas pax_consts = PAX_PMU_RESERVED_def PAX_PMU_UNRESERVED_def
lemmas pax_defs = pax_consts pax_Unreserve_def pax_Reserve_All_def cmpxchg_reserved_def pax_Process_Valid_def

definition pax_wf :: "pax_status \<Rightarrow> bool" where
  "pax_wf s = (is_reserved s = PAX_PMU_RESERVED \<or> is_reserved s = PAX_PMU_UNRESERVED)"

definition pax_granted :: "(nat \<Rightarrow> bool) \<Rightarrow> nat \<Rightarrow> pax_status \<Rightarrow> bool" where
  "pax_granted alive p s =
     (is_reserved s = PAX_PMU_UNRESERVED \<or> pax_pid s = p \<or> \<not> alive (pax_pid s))"

lemma pax_Unreserve_eq:
  "pax_wf s \<Longrightarrow> pax_Unreserve alive p s =
     (if pax_granted alive p s then (OS_SUCCESS, s\<lparr>is_reserved := PAX_PMU_UNRESERVED\<rparr>) else (OS_FAULT, s))"
  by (auto simp: pax_granted_def pax_defs pax_wf_def Let_def)

lemma pax_Reserve_All_eq:
  "pax_wf s \<Longrightarrow> pax_Reserve_All alive tsc p s =
     (if pax_granted alive p s
      then (OS_SUCCESS, s\<lparr>is_reserved := PAX_PMU_RESERVED, start_time := tsc, pax_pid := p\<rparr>)
      else (OS_FAULT, s))"
  by (auto simp: pax_granted_def pax_defs pax_wf_def Let_def)

text \<open>
  When a reservation is granted. On a status that is reserved or unreserved, \<open>Reserve_All\<close>
  succeeds exactly if nothing is reserved, or the caller holds the reservation, or its holder is
  dead; then the caller is recorded with the time. Otherwise it fails and changes nothing. And
  \<open>Unreserve\<close> succeeds under the same condition, leaving the unit unreserved.
\<close>

theorem pax_outcomes:
  assumes "pax_wf s"
  shows "pax_Reserve_All alive tsc p s =
      (if is_reserved s = PAX_PMU_UNRESERVED \<or> pax_pid s = p \<or> \<not> alive (pax_pid s)
       then (OS_SUCCESS, s\<lparr>is_reserved := PAX_PMU_RESERVED, start_time := tsc, pax_pid := p\<rparr>)
       else (OS_FAULT, s)) \<and>
    pax_Unreserve alive p s =
      (if is_reserved s = PAX_PMU_UNRESERVED \<or> pax_pid s = p \<or> \<not> alive (pax_pid s)
       then (OS_SUCCESS, s\<lparr>is_reserved := PAX_PMU_UNRESERVED\<rparr>) else (OS_FAULT, s))"
  using assms by (simp add: pax_Unreserve_eq pax_Reserve_All_eq pax_granted_def)

theorem pax_outcomes_witness:
  "pax_Reserve_All (\<lambda>_. True) 7 3 (snd pax_Init) =
    (OS_SUCCESS, \<lparr>guid = 0, pax_pid = 3, start_time = 7, is_reserved = 1\<rparr>)"
  using pax_outcomes[of "snd pax_Init" "\<lambda>_. True" 7 3]
  by (simp add: pax_wf_def pax_Init_def PAX_GUID_UNINITIALIZED_def pax_consts)

definition pax_inv :: "pax_world \<Rightarrow> bool" where
  "pax_inv w = (pax_wf (w_status w) \<and>
     (\<forall>p. w_alive w p \<and> w_holds w p \<longrightarrow> is_reserved (w_status w) = PAX_PMU_RESERVED \<and> pax_pid (w_status w) = p))"

lemma pax_wf_updates [simp]:
  "pax_wf (s\<lparr>is_reserved := PAX_PMU_UNRESERVED\<rparr>)"
  "pax_wf (s\<lparr>is_reserved := PAX_PMU_RESERVED, start_time := t, pax_pid := p\<rparr>)"
  "pax_wf (s\<lparr>is_reserved := PAX_PMU_RESERVED, start_time := t\<rparr>)"
  by (simp_all add: pax_wf_def)

lemma pax_step_inv:
  assumes "pax_step w w'" "pax_inv w"
  shows "pax_inv w'"
proof -
  have wf: "pax_wf (w_status w)" using assms(2) by (simp add: pax_inv_def)
  have holder: "\<And>q. w_alive w q \<Longrightarrow> w_holds w q \<Longrightarrow>
      is_reserved (w_status w) = PAX_PMU_RESERVED \<and> pax_pid (w_status w) = q"
    using assms(2) by (simp add: pax_inv_def)
  have ne: "PAX_PMU_RESERVED \<noteq> PAX_PMU_UNRESERVED" by (simp add: pax_consts)
  from assms(1) show ?thesis
  proof cases
    case (reserve p tsc r st)
    then show ?thesis
      using wf holder ne by (auto simp: pax_inv_def pax_Reserve_All_eq pax_granted_def split: if_splits)
  next
    case (unreserve p r st)
    then show ?thesis
      using wf ne by (auto simp: pax_inv_def pax_Unreserve_eq pax_granted_def dest: holder split: if_splits)
  next
    case (exit p)
    then show ?thesis using wf holder by (auto simp: pax_inv_def)
  next
    case (spawn p)
    then show ?thesis using wf holder by (auto simp: pax_inv_def)
  qed
qed

lemma pax_reachable_inv: "pax_reachable w \<Longrightarrow> pax_inv w"
proof (induction rule: pax_reachable.induct)
  case (start al)
  show ?case by (simp add: pax_inv_def pax_wf_def pax_Init_def)
qed (rule pax_step_inv)

text \<open>
  C16: mutual exclusion. However processes start, end, reserve and release, when each ioctl runs
  to its end before the next one starts: two live processes that were both granted the
  reservation and have not given it back are the same process, and it is the one on record.
\<close>

theorem pax_mutual_exclusion:
  assumes "pax_reachable w" "w_alive w p" "w_holds w p" "w_alive w q" "w_holds w q"
  shows "p = q \<and> pax_pid (w_status w) = p \<and> is_reserved (w_status w) = PAX_PMU_RESERVED"
  using pax_reachable_inv[OF assms(1)] assms(2-5) by (auto simp: pax_inv_def)

lemma pax_demo_reachable:
  "pax_reachable \<lparr>w_status = \<lparr>guid = 0, pax_pid = 3, start_time = 7, is_reserved = 1\<rparr>,
     w_alive = (\<lambda>p. p = 3 \<or> p = 4), w_holds = (\<lambda>p. p = 3)\<rparr>"
proof -
  let ?w = "\<lparr>w_status = snd pax_Init, w_alive = (\<lambda>p. p = 3 \<or> p = (4::nat)), w_holds = (\<lambda>_. False)\<rparr>"
  have "pax_step ?w (?w\<lparr>w_status := \<lparr>guid = 0, pax_pid = 3, start_time = 7, is_reserved = 1\<rparr>,
      w_holds := (w_holds ?w)(3 := (OS_SUCCESS = OS_SUCCESS))\<rparr>)"
    by (rule pax_step.reserve[where tsc = 7])
      (simp_all add: pax_Reserve_All_eq pax_granted_def pax_wf_def pax_Init_def pax_consts
        PAX_GUID_UNINITIALIZED_def)
  from pax_reachable.next_step[OF pax_reachable.start this] show ?thesis
    by (simp add: fun_upd_def if_bool_eq_disj)
qed

theorem pax_mutual_exclusion_witness:
  "is_reserved \<lparr>guid = 0, pax_pid = 3, start_time = 7, is_reserved = 1\<rparr> = PAX_PMU_RESERVED"
  using pax_mutual_exclusion[OF pax_demo_reachable, of 3 3] by simp

text \<open>
  C34: interleaved reservations can both be granted. From the initial status, process 1 passes
  the exchange and the re-test but has not yet stored its pid; process 2 finds the unit reserved,
  looks up the pid 0 of the initial status, for which there is no task, releases the reservation
  and reserves the unit. Both return success, both are alive.
\<close>

theorem pax_race:
  assumes "\<not> alive 0" "p \<noteq> q"
  shows "\<exists>sched c. pax_run alive tsc sched ((\<lambda>_. P_Reserve), snd pax_Init) = c \<and>
    fst c p = P_Return OS_SUCCESS \<and> fst c q = P_Return OS_SUCCESS"
proof (intro exI conjI, rule refl)
  let ?sched = "[p, p, p, q, q, q, q, q, q, q, q, q, q, p, p]"
  let ?c = "pax_run alive tsc ?sched ((\<lambda>_. P_Reserve), snd pax_Init)"
  show "fst ?c p = P_Return OS_SUCCESS" "fst ?c q = P_Return OS_SUCCESS"
    using assms by (simp_all add: pax_defs pax_Init_def)
qed

theorem pax_race_witness:
  "\<exists>sched c. pax_run (\<lambda>p. p = 1 \<or> p = 2) 5 sched ((\<lambda>_. P_Reserve), snd pax_Init) = c \<and>
    fst c 1 = P_Return OS_SUCCESS \<and> fst c 2 = P_Return OS_SUCCESS"
  by (rule pax_race) simp_all

end
