(* ===== verification/Cpumon.thy ===== *)
theory Cpumon
  imports Emux Apic
begin

text \<open>
  Hooking the performance interrupt (cpumon.c and the mapping part of apic.c, 64-bit build): the
  old handler of every CPU is saved, the driver's handler goes into the interrupt descriptor
  table, the local APIC is mapped and its performance entry installed masked; removal masks the
  entry and puts the saved handler back. CPUs may share a table.
\<close>

section \<open>Running a function on every CPU\<close>

text \<open>
  \<open>CONTROL_Invoke_Parallel_Service\<close> of control.c: the other CPUs run the function through
  \<open>smp_call_function\<close>, then the calling CPU \<open>me\<close> runs it unless it is excluded. The call blocks; the
  functions the driver passes touch the state of the CPU they run on, and here they run in
  index order.
\<close>

definition parallel_order :: "bool \<Rightarrow> nat \<Rightarrow> nat \<Rightarrow> nat list" where
  "parallel_order exclude me n = filter (\<lambda>i. i \<noteq> me) [0 ..< n] @ (if exclude then [] else [me])"

definition CONTROL_Invoke_Parallel_Service ::
    "bool \<Rightarrow> nat \<Rightarrow> nat \<Rightarrow> (nat \<Rightarrow> 's \<Rightarrow> 's option) \<Rightarrow> 's \<Rightarrow> 's option" where
  "CONTROL_Invoke_Parallel_Service exclude me n f s = foldm f (parallel_order exclude me n) s"

abbreviation CONTROL_Invoke_Parallel :: "nat \<Rightarrow> nat \<Rightarrow> (nat \<Rightarrow> 's \<Rightarrow> 's option) \<Rightarrow> 's \<Rightarrow> 's option" where
  "CONTROL_Invoke_Parallel \<equiv> CONTROL_Invoke_Parallel_Service False"

abbreviation CONTROL_Invoke_Parallel_XS :: "nat \<Rightarrow> nat \<Rightarrow> (nat \<Rightarrow> 's \<Rightarrow> 's option) \<Rightarrow> 's \<Rightarrow> 's option" where
  "CONTROL_Invoke_Parallel_XS \<equiv> CONTROL_Invoke_Parallel_Service True"

lemma parallel_order_set: "me < n \<Longrightarrow> set (parallel_order ex me n) = {0 ..< n} - (if ex then {me} else {})"
  by (auto simp: parallel_order_def)

lemma parallel_order_distinct: "distinct (parallel_order ex me n)"
  by (auto simp: parallel_order_def)

section \<open>State\<close>

text \<open>
  A gate holds the handler's address in three parts and other attributes, which no code here
  reads. \<open>idt_of\<close> is the table a CPU has loaded, \<open>gate\<close> the performance-vector gate of each table,
  \<open>perfvec_handler\<close> the address of \<open>SYS_Perfvec_Handler\<close>, \<open>ports\<close> the two interrupt-mask ports.
\<close>

record gate_struct =
  offset_low :: u16
  offset_middle :: u16
  offset_high :: u32
  gate_attr :: u32

record cpumon_state =
  idt_of :: "nat \<Rightarrow> u64"
  gate :: "u64 \<Rightarrow> gate_struct"
  cs_idt_base :: "nat \<Rightarrow> u64"
  cs_saved_ih :: "nat \<Rightarrow> u64"
  perfvec_handler :: u64
  ports :: "u16 \<Rightarrow> u8"

section \<open>Interrupt descriptor tables\<close>

definition gate_addr :: "gate_struct \<Rightarrow> u64" where
  "gate_addr g = (push_bit 32 (ucast (offset_high g)) OR push_bit 16 (ucast (offset_middle g))) OR ucast (offset_low g)"

text \<open>\<open>pack\<close> is the kernel's \<open>pack_gate\<close> with the attributes the code passes to it.\<close>

definition cpumon_Set_IDT_Func :: "(u64 \<Rightarrow> gate_struct) \<Rightarrow> u64 \<Rightarrow> u64 \<Rightarrow> cpumon_state \<Rightarrow> cpumon_state" where
  "cpumon_Set_IDT_Func pack idt func k = k\<lparr>gate := (gate k)(idt := pack func)\<rparr>"

definition cpumon_Save_Cpu :: "nat \<Rightarrow> cpumon_state \<times> drv \<Rightarrow> (cpumon_state \<times> drv) option" where
  "cpumon_Save_Cpu cpu = (\<lambda>(k, s). do { _ \<leftarrow> pcb s cpu;
     let idt = idt_of k cpu;
     Some (k\<lparr>cs_idt_base := (cs_idt_base k)(cpu := idt),
             cs_saved_ih := (cs_saved_ih k)(cpu := gate_addr (gate k idt))\<rparr>, s) })"

definition cpumon_Init_Cpu :: "(u64 \<Rightarrow> gate_struct) \<Rightarrow> nat \<Rightarrow> cpumon_state \<times> drv \<Rightarrow> (cpumon_state \<times> drv) option" where
  "cpumon_Init_Cpu pack cpu = (\<lambda>(k, s). do { _ \<leftarrow> pcb s cpu;
     Some (cpumon_Set_IDT_Func pack (cs_idt_base k cpu) (perfvec_handler k) k, s) })"

definition cpumon_Destroy_Cpu :: "(u64 \<Rightarrow> gate_struct) \<Rightarrow> nat \<Rightarrow> cpumon_state \<times> drv \<Rightarrow> (cpumon_state \<times> drv) option" where
  "cpumon_Destroy_Cpu pack cpu = (\<lambda>(k, s). do { _ \<leftarrow> pcb s cpu;
     s \<leftarrow> APIC_Disable_PMI cpu s;
     Some (cpumon_Set_IDT_Func pack (cs_idt_base k cpu) (cs_saved_ih k cpu) k, s) })"

section \<open>Mapping the local APIC\<close>

definition DRV_APIC_BASE_MSR :: u32 where "DRV_APIC_BASE_MSR = 0x1B"
definition DRV_X2APIC_ENABLED :: u64 where "DRV_X2APIC_ENABLED = 0xC00"
definition DRV_APIC_LCL_ID_MSR :: u32 where "DRV_APIC_LCL_ID_MSR = 0x802"
definition DRV_APIC_LCL_ID :: u32 where "DRV_APIC_LCL_ID = 0x20"
definition DRV_APIC_LCL_SVR :: u32 where "DRV_APIC_LCL_SVR = 0xF0"

text \<open>The registers \<open>APIC_Init\<close> writes to set up the virtual wire, in order.\<close>

definition virtual_wire_writes :: "(u32 \<times> u32) list" where
  "virtual_wire_writes = [(DRV_APIC_LCL_SVR, 0x01FF), (0x80, 0xF0), (DRV_APIC_LCL_ID, 0), (0xD0, 0),
     (0xE0, - 1), (0x320, DRV_LVT_MASK), (0x370, DRV_LVT_MASK), (0x350, 0x700 + 0), (0x360, 0x400 + 0x8000),
     (0x80, 0)]"

text \<open>
  \<open>linear\<close> is the variable behind the parameter, shared by all the calls; \<open>remap\<close> is the answer of
  \<open>ioremap_nocache\<close> for a physical address, 0 for NULL. The ports are masked and restored.
\<close>

definition APIC_Init :: "(u64 \<Rightarrow> u64) \<Rightarrow> nat \<Rightarrow> u64 \<times> cpumon_state \<times> drv \<Rightarrow> (u64 \<times> cpumon_state \<times> drv) option" where
  "APIC_Init remap cpu = (\<lambda>(linear, k, s). do { pcpu \<leftarrow> pcb s cpu;
     let addr = SYS_Read_MSR cpu DRV_APIC_BASE_MSR s;
     if addr AND DRV_X2APIC_ENABLED = DRV_X2APIC_ENABLED
     then Some (linear, k, upd_pcpu cpu (pcpu\<lparr>apic_id := ucast (drop_bit 24 (SYS_Read_MSR cpu DRV_APIC_LCL_ID_MSR s))\<rparr>)
                  (s\<lparr>drv_x2apic_enabled := True\<rparr>))
     else do {
       let phys = addr AND 0xFFFFF000;
       let la = (if linear = 0 then remap (phys AND 0xFFFFF000) else linear);
       let linear = (if linear = 0 then la else linear);
       let pcpu = pcpu\<lparr>apic_physical_addr := phys, apic_linear_addr := la\<rparr>;
       if la = 0 then Some (linear, k, upd_pcpu cpu pcpu s)
       else do {
         let pcpu = pcpu\<lparr>apic_id := signed_drop_bit 24 (apic_mmio s cpu DRV_APIC_LCL_ID)\<rparr>;
         let s = upd_pcpu cpu pcpu s;
         if addr AND 0x800 = 0 \<or> apic_mmio s cpu DRV_APIC_LCL_SVR AND 0x100 = 0
         then do {
           let pic0 = ports k 0x21; let pic1 = ports k 0xA1;
           let k = k\<lparr>ports := (ports k)(0xA1 := 0xFF, 0x21 := 0xFF)\<rparr>;
           let s = SYS_Write_MSR cpu DRV_APIC_BASE_MSR (addr OR 0x800) s;
           let s = fold (\<lambda>(r, v). apic_put cpu r v) virtual_wire_writes s;
           Some (linear, k\<lparr>ports := (ports k)(0x21 := pic0, 0xA1 := pic1)\<rparr>, s) }
         else Some (linear, k, s) } } })"

section \<open>Installing and removing the hooks\<close>

definition CPUMON_Install_Cpuhooks :: "(u64 \<Rightarrow> gate_struct) \<Rightarrow> (u64 \<Rightarrow> u64) \<Rightarrow> nat \<Rightarrow> nat
    \<Rightarrow> cpumon_state \<times> drv \<Rightarrow> (cpumon_state \<times> drv) option" where
  "CPUMON_Install_Cpuhooks pack remap me n ks = do {
     ks \<leftarrow> CONTROL_Invoke_Parallel me n cpumon_Save_Cpu ks;
     ks \<leftarrow> CONTROL_Invoke_Parallel me n (cpumon_Init_Cpu pack) ks;
     lks \<leftarrow> APIC_Init remap me (0, ks);
     lks \<leftarrow> CONTROL_Invoke_Parallel me n (APIC_Init remap) lks;
     let (_, k, s) = lks;
     s \<leftarrow> CONTROL_Invoke_Parallel me n APIC_Install_Interrupt_Handler s;
     Some (k, s) }"

text \<open>Unmapping the APIC page (\<open>APIC_Unmap\<close>) changes no state the driver reads.\<close>

definition CPUMON_Remove_Cpuhooks :: "(u64 \<Rightarrow> gate_struct) \<Rightarrow> nat \<Rightarrow> nat
    \<Rightarrow> cpumon_state \<times> drv \<Rightarrow> (cpumon_state \<times> drv) option" where
  "CPUMON_Remove_Cpuhooks pack me n ks = do {
     ks \<leftarrow> cpumon_Destroy_Cpu pack me ks;
     (k, s) \<leftarrow> CONTROL_Invoke_Parallel_XS me n (cpumon_Destroy_Cpu pack) ks;
     s \<leftarrow> foldm APIC_Deinit_Phase1 [0 ..< n] s;
     Some (k, s) }"

section \<open>What the passes over the CPUs do\<close>

definition saved :: "nat set \<Rightarrow> cpumon_state \<Rightarrow> cpumon_state" where
  "saved C k = k\<lparr>cs_idt_base := \<lambda>c. if c \<in> C then idt_of k c else cs_idt_base k c,
     cs_saved_ih := \<lambda>c. if c \<in> C then gate_addr (gate k (idt_of k c)) else cs_saved_ih k c\<rparr>"

definition gates_set :: "nat set \<Rightarrow> (u64 \<Rightarrow> gate_struct) \<Rightarrow> cpumon_state \<Rightarrow> cpumon_state" where
  "gates_set C g k = k\<lparr>gate := \<lambda>t. if t \<in> cs_idt_base k ` C then g t else gate k t\<rparr>"

definition nodes_ok :: "nat \<Rightarrow> drv \<Rightarrow> bool" where
  "nodes_ok n s = (\<forall>c < n. pcb s c \<noteq> None)"

lemma nodes_okD: "nodes_ok n s \<Longrightarrow> c < n \<Longrightarrow> \<exists>p. pcb s c = Some p"
  by (auto simp: nodes_ok_def)

lemma nodes_ok_in: "nodes_ok n s \<Longrightarrow> set cs \<subseteq> {0 ..< n} \<Longrightarrow> c \<in> set cs \<Longrightarrow> \<exists>p. pcb s c = Some p"
  by (rule nodes_okD) auto

lemma nodes_ok_upd [simp]: "nodes_ok n s \<Longrightarrow> nodes_ok n (upd_pcpu c p s)"
  by (simp add: nodes_ok_def upd_pcpu_def)

lemma nodes_ok_cong: "pcb t = pcb s \<Longrightarrow> nodes_ok n t = nodes_ok n s"
  by (simp add: nodes_ok_def)

lemma Save_all:
  assumes "nodes_ok n s" "set cs \<subseteq> {0 ..< n}"
  shows "foldm cpumon_Save_Cpu cs (k, s) = Some (saved (set cs) k, s)"
proof -
  have "\<exists>ks. foldm cpumon_Save_Cpu cs (k, s) = Some ks \<and> ks = (saved (set cs) k, s)"
  proof (rule foldm_prefix_rule[where P = "\<lambda>pre ks. ks = (saved (set pre) k, s)"])
    show "(k, s) = (saved (set []) k, s)" by (simp add: saved_def)
  next
    fix pre c ks
    assume ks: "ks = (saved (set pre) k, s)" and c: "c \<in> set cs"
    from nodes_ok_in[OF assms c] obtain p where "pcb s c = Some p" by blast
    then show "\<exists>ks'. cpumon_Save_Cpu c ks = Some ks' \<and> ks' = (saved (set (pre @ [c])) k, s)"
      by (auto simp: ks cpumon_Save_Cpu_def saved_def Let_def fun_eq_iff)
  qed
  then show ?thesis by simp
qed

lemma Init_all:
  assumes "nodes_ok n s" "set cs \<subseteq> {0 ..< n}"
  shows "foldm (cpumon_Init_Cpu pack) cs (k, s) =
    Some (gates_set (set cs) (\<lambda>_. pack (perfvec_handler k)) k, s)"
proof -
  let ?P = "\<lambda>pre ks. ks = (gates_set (set pre) (\<lambda>_. pack (perfvec_handler k)) k, s)"
  have "\<exists>ks. foldm (cpumon_Init_Cpu pack) cs (k, s) = Some ks \<and> ?P cs ks"
  proof (rule foldm_prefix_rule[where P = ?P])
    show "?P [] (k, s)" by (simp add: gates_set_def)
  next
    fix pre c ks
    assume ks: "?P pre ks" and c: "c \<in> set cs"
    from nodes_ok_in[OF assms c] obtain p where "pcb s c = Some p" by blast
    then show "\<exists>ks'. cpumon_Init_Cpu pack c ks = Some ks' \<and> ?P (pre @ [c]) ks'"
      by (auto simp: ks cpumon_Init_Cpu_def cpumon_Set_IDT_Func_def gates_set_def fun_eq_iff)
  qed
  then show ?thesis by simp
qed

text \<open>\<open>APIC_Init\<close> leaves the tables alone, and the interrupt masks of the ports as it found them.\<close>

lemma fold_apic_put_frame [simp]:
  "pcb (fold (\<lambda>(r, v). apic_put cpu r v) ws s) = pcb s"
  "drv_x2apic_enabled (fold (\<lambda>(r, v). apic_put cpu r v) ws s) = drv_x2apic_enabled s"
  "cpu_perf_vector (fold (\<lambda>(r, v). apic_put cpu r v) ws s) = cpu_perf_vector s"
  by (induction ws arbitrary: s) (auto split: prod.splits)

definition init_frame :: "nat \<Rightarrow> cpumon_state \<Rightarrow> u32 \<Rightarrow> u64 \<times> cpumon_state \<times> drv \<Rightarrow> bool" where
  "init_frame n k v x = (fst (snd x) = k \<and> nodes_ok n (snd (snd x)) \<and> cpu_perf_vector (snd (snd x)) = v)"

lemma APIC_Init_frame:
  assumes "init_frame n k v x" "cpu < n"
  shows "\<exists>y. APIC_Init remap cpu x = Some y \<and> init_frame n k v y"
proof -
  obtain l s where x: "x = (l, k, s)" and s: "nodes_ok n s" "cpu_perf_vector s = v"
    using assms(1) by (cases x) (auto simp: init_frame_def)
  from s(1) assms(2) obtain p where p: "pcb s cpu = Some p" by (auto dest: nodes_okD)
  have k: "k\<lparr>ports := (ports k)(0xA1 := a, 0x21 := b, 0x21 := ports k 0x21, 0xA1 := ports k 0xA1)\<rparr> = k" for a b
    by (cases k) (auto simp: fun_eq_iff)
  have v: "cpu_perf_vector (upd_pcpu cpu q s) = v" "cpu_perf_vector (upd_pcpu cpu q (s\<lparr>drv_x2apic_enabled := True\<rparr>)) = v"
    "nodes_ok n (upd_pcpu cpu q (s\<lparr>drv_x2apic_enabled := True\<rparr>))" for q
    using s by (simp_all add: upd_pcpu_def nodes_ok_def)
  have nk: "nodes_ok n (fold (\<lambda>(r, v). apic_put cpu r v) ws (SYS_Write_MSR cpu r w (upd_pcpu cpu q s)))" for ws r w q
    using s(1) by (simp add: nodes_ok_def upd_pcpu_def)
  show ?thesis
    unfolding x APIC_Init_def Let_def
    using p s v nk by (simp add: init_frame_def k)
qed

lemma APIC_Init_all:
  assumes "init_frame n k v x" "set cs \<subseteq> {0 ..< n}"
  shows "\<exists>y. foldm (APIC_Init remap) cs x = Some y \<and> init_frame n k v y"
  by (rule foldm_rule[where P = "init_frame n k v", OF assms(1)]) (use APIC_Init_frame assms(2) in fastforce)

text \<open>The performance entry of every CPU whose APIC can be reached holds the vector, masked.\<close>

definition pmi_masked :: "u32 \<Rightarrow> nat \<Rightarrow> drv \<Rightarrow> bool" where
  "pmi_masked v c s = (apic_mapped c s \<longrightarrow> lvt_pmi c s = v OR DRV_LVT_MASK)"

text \<open>
  An operation that sets the entry of the CPU it runs on and touches nothing of the others sets
  the entries of all the CPUs of a list.
\<close>

definition pmi_frame :: "nat \<Rightarrow> nat \<Rightarrow> drv \<Rightarrow> drv \<Rightarrow> bool" where
  "pmi_frame n c s t = (pcb t = pcb s \<and> drv_x2apic_enabled t = drv_x2apic_enabled s \<and>
     cpu_perf_vector t = cpu_perf_vector s \<and> pmi_masked (cpu_perf_vector s) c t \<and>
     (\<forall>d. d \<noteq> c \<longrightarrow> lvt_pmi d t = lvt_pmi d s))"

lemma ucast_u32_u64_u32 [simp]: "ucast (ucast (x :: u32) :: u64) = x"
  by (rule bit_word_eqI) (simp add: bit_simps)

lemma mask_write:
  assumes "pcb s c = Some p"
  shows "\<exists>t. APIC_Install_Interrupt_Handler c s = Some t \<and> pmi_frame n c s t"
    and "\<exists>t. APIC_Disable_PMI c s = Some t \<and> pmi_frame n c s t"
  using assms by (auto simp: APIC_Install_Interrupt_Handler_def APIC_Disable_PMI_def pmi_frame_def
      pmi_masked_def apic_mapped_def lvt_pmi_def apic_put_def)

lemma pmi_frame_mapped: "pmi_frame n c s t \<Longrightarrow> apic_mapped d t = apic_mapped d s"
  by (simp add: pmi_frame_def apic_mapped_def)

lemma mask_all:
  assumes op: "\<And>c s p. pcb s c = Some p \<Longrightarrow> \<exists>t. f c s = Some t \<and> pmi_frame n c s t"
    and "nodes_ok n s" "set cs \<subseteq> {0 ..< n}"
  shows "\<exists>t. foldm f cs s = Some t \<and> pcb t = pcb s \<and> drv_x2apic_enabled t = drv_x2apic_enabled s \<and>
    cpu_perf_vector t = cpu_perf_vector s \<and> (\<forall>c \<in> set cs. pmi_masked (cpu_perf_vector s) c t)"
proof (rule foldm_prefix_rule[where P = "\<lambda>pre t. pcb t = pcb s \<and> drv_x2apic_enabled t = drv_x2apic_enabled s \<and>
    cpu_perf_vector t = cpu_perf_vector s \<and> (\<forall>c \<in> set pre. pmi_masked (cpu_perf_vector s) c t)"], goal_cases)
  case (2 pre c t)
  from nodes_ok_in[OF assms(2,3) 2(2)] 2(1) obtain p where "pcb t c = Some p" by auto
  from op[OF this] obtain u where u: "f c t = Some u" "pmi_frame n c t u" by blast
  have "pmi_masked (cpu_perf_vector s) d u" if "d \<in> set pre" for d
  proof (cases "d = c")
    case False
    with that 2(1) u(2) show ?thesis
      using pmi_frame_mapped[OF u(2), of d] by (simp add: pmi_masked_def pmi_frame_def)
  qed (use 2(1) u(2) in \<open>simp add: pmi_frame_def\<close>)
  then show ?case using 2(1) u by (auto simp: pmi_frame_def)
qed simp

lemma install_masks:
  assumes "nodes_ok n s" "set cs \<subseteq> {0 ..< n}"
  shows "\<exists>t. foldm APIC_Install_Interrupt_Handler cs s = Some t \<and> pcb t = pcb s \<and>
    drv_x2apic_enabled t = drv_x2apic_enabled s \<and> cpu_perf_vector t = cpu_perf_vector s \<and>
    (\<forall>c \<in> set cs. pmi_masked (cpu_perf_vector s) c t)"
  by (rule mask_all[OF _ assms]) (rule mask_write(1))

lemma disable_masks:
  assumes "nodes_ok n s" "set cs \<subseteq> {0 ..< n}"
  shows "\<exists>t. foldm APIC_Disable_PMI cs s = Some t \<and> pcb t = pcb s \<and>
    drv_x2apic_enabled t = drv_x2apic_enabled s \<and> cpu_perf_vector t = cpu_perf_vector s \<and>
    (\<forall>c \<in> set cs. pmi_masked (cpu_perf_vector s) c t)"
  by (rule mask_all[OF _ assms]) (rule mask_write(2))

lemma Destroy_all:
  assumes "nodes_ok n s" "set cs \<subseteq> {0 ..< n}"
    and g: "\<And>c. c < n \<Longrightarrow> pack (cs_saved_ih k c) = g (cs_idt_base k c)"
  shows "\<exists>t. foldm (cpumon_Destroy_Cpu pack) cs (k, s) = Some (gates_set (set cs) g k, t) \<and>
    foldm APIC_Disable_PMI cs s = Some t"
proof -
  let ?P = "\<lambda>pre ks. fst ks = gates_set (set pre) g k \<and> pcb (snd ks) = pcb s \<and>
    foldm APIC_Disable_PMI pre s = Some (snd ks)"
  have "\<exists>ks. foldm (cpumon_Destroy_Cpu pack) cs (k, s) = Some ks \<and> ?P cs ks"
  proof (rule foldm_prefix_rule[where P = ?P])
    show "?P [] (k, s)" by (simp add: gates_set_def)
  next
    fix pre c ks
    assume ks: "?P pre ks" and c: "c \<in> set cs"
    obtain t where t: "ks = (gates_set (set pre) g k, t)" "pcb t = pcb s"
      "foldm APIC_Disable_PMI pre s = Some t" using ks by (cases ks) auto
    from nodes_ok_in[OF assms(1,2) c] obtain p where p: "pcb t c = Some p" using t(2) by auto
    from mask_write(2)[OF p, of n] obtain u where u: "APIC_Disable_PMI c t = Some u" "pcb u = pcb t"
      by (auto simp: pmi_frame_def)
    have "c < n" using assms(2) c by auto
    then show "\<exists>ks'. cpumon_Destroy_Cpu pack c ks = Some ks' \<and> ?P (pre @ [c]) ks'"
      using p u t(2,3) g by (auto simp: t(1) cpumon_Destroy_Cpu_def cpumon_Set_IDT_Func_def gates_set_def
          fun_eq_iff foldm_append)
  qed
  then show ?thesis by (metis prod.collapse)
qed

lemma Deinit_all:
  assumes "nodes_ok n s"
  shows "\<exists>t. foldm APIC_Deinit_Phase1 [0 ..< n] s = Some t \<and> drv_x2apic_enabled t = drv_x2apic_enabled s \<and>
    (\<forall>c < n. \<not> drv_x2apic_enabled s \<longrightarrow> (\<exists>p. pcb t c = Some p \<and> apic_linear_addr p = 0)) \<and>
    (\<forall>c. lvt_pmi c t = lvt_pmi c s)"
proof -
  let ?P = "\<lambda>pre t. nodes_ok n t \<and> drv_x2apic_enabled t = drv_x2apic_enabled s \<and>
    (\<forall>c \<in> set pre. \<not> drv_x2apic_enabled s \<longrightarrow> (\<exists>p. pcb t c = Some p \<and> apic_linear_addr p = 0)) \<and>
    (\<forall>c. lvt_pmi c t = lvt_pmi c s)"
  have "\<exists>t. foldm APIC_Deinit_Phase1 [0 ..< n] s = Some t \<and> ?P [0 ..< n] t"
  proof (rule foldm_prefix_rule[where P = ?P])
    show "?P [] s" using assms by simp
  next
    fix pre c t
    assume P: "?P pre t" and c: "c \<in> set [0 ..< n]"
    from P c obtain p where p: "pcb t c = Some p" by (auto dest: nodes_okD)
    have l: "lvt_pmi d (upd_pcpu c q t) = lvt_pmi d t" for d q by (simp add: lvt_pmi_def upd_pcpu_def SYS_Read_MSR_def)
    from P p l show "\<exists>t'. APIC_Deinit_Phase1 c t = Some t' \<and> ?P (pre @ [c]) t'"
      by (auto simp: APIC_Deinit_Phase1_def)
  qed
  then show ?thesis by auto
qed

section \<open>Installing and removing\<close>

lemma Install_hooks_eq:
  assumes nodes: "\<forall>c < n. pcb s c \<noteq> None" and me: "me < n"
  shows "\<exists>k' s'. CPUMON_Install_Cpuhooks pack remap me n (k, s) = Some (k', s') \<and>
    k' = gates_set {0 ..< n} (\<lambda>_. pack (perfvec_handler k)) (saved {0 ..< n} k) \<and>
    (\<forall>c < n. apic_mapped c s' \<longrightarrow> lvt_pmi c s' = cpu_perf_vector s OR DRV_LVT_MASK)"
proof -
  let ?cs = "parallel_order False me n"
  have cs: "set ?cs = {0 ..< n}" "set ?cs \<subseteq> {0 ..< n}" using me by (simp_all add: parallel_order_set)
  have n: "nodes_ok n s" using nodes by (simp add: nodes_ok_def)
  let ?k1 = "saved (set ?cs) k"
  let ?k2 = "gates_set (set ?cs) (\<lambda>_. pack (perfvec_handler ?k1)) ?k1"
  have i0: "init_frame n ?k2 (cpu_perf_vector s) (0, ?k2, s)" using n by (simp add: init_frame_def)
  from APIC_Init_frame[OF i0 me] obtain x where x: "APIC_Init remap me (0, ?k2, s) = Some x"
    "init_frame n ?k2 (cpu_perf_vector s) x" by blast
  from APIC_Init_all[OF x(2) cs(2)] obtain y where y: "foldm (APIC_Init remap) ?cs x = Some y"
    "init_frame n ?k2 (cpu_perf_vector s) y" by blast
  obtain l t where t: "y = (l, ?k2, t)" "nodes_ok n t" "cpu_perf_vector t = cpu_perf_vector s"
    using y(2) by (cases y) (auto simp: init_frame_def)
  from install_masks[OF t(2) cs(2)] t(3) obtain u where
    u: "foldm APIC_Install_Interrupt_Handler ?cs t = Some u" "\<forall>c < n. pmi_masked (cpu_perf_vector s) c u"
    by (auto simp: cs(1))
  have "CPUMON_Install_Cpuhooks pack remap me n (k, s) = Some (?k2, u)"
    by (simp add: CPUMON_Install_Cpuhooks_def CONTROL_Invoke_Parallel_Service_def Save_all[OF n cs(2)]
        Init_all[OF n cs(2)] x(1) y(1) t(1) u(1))
  moreover have "?k2 = gates_set {0 ..< n} (\<lambda>_. pack (perfvec_handler k)) (saved {0 ..< n} k)"
    unfolding cs(1) by (simp add: saved_def)
  ultimately show ?thesis using u(2) by (auto simp: pmi_masked_def)
qed

lemma Install_hooks_saved:
  assumes "\<forall>c < n. pcb s c \<noteq> None" "me < n" "CPUMON_Install_Cpuhooks pack remap me n (k, s) = Some (k1, s1)" "c < n"
  shows "cs_idt_base k1 c = idt_of k c" "cs_saved_ih k1 c = gate_addr (gate k (idt_of k c))"
  using Install_hooks_eq[OF assms(1,2), of pack remap k] assms(3,4) by (auto simp: gates_set_def saved_def)

text \<open>
  Installing the hooks. If every CPU has a state node, installation returns; then on every
  CPU the gate of the performance interrupt holds the driver's handler, the old handler is
  saved as it was before any CPU was changed, even where CPUs share a table, and the performance
  entry of each reachable APIC holds the vector, masked. Gates of other tables, and the masks
  of the ports, are unchanged.
\<close>

theorem Install_hooks:
  assumes nodes: "\<forall>c < n. pcb s c \<noteq> None" and me: "me < n"
    and pack: "\<And>f. gate_addr (pack f) = f"
  shows "\<exists>k' s'. CPUMON_Install_Cpuhooks pack remap me n (k, s) = Some (k', s') \<and>
    (\<forall>c < n. gate_addr (gate k' (idt_of k c)) = perfvec_handler k \<and>
       cs_idt_base k' c = idt_of k c \<and> cs_saved_ih k' c = gate_addr (gate k (idt_of k c)) \<and>
       (apic_mapped c s' \<longrightarrow> lvt_pmi c s' = cpu_perf_vector s OR DRV_LVT_MASK)) \<and>
    (\<forall>t. t \<notin> idt_of k ` {0 ..< n} \<longrightarrow> gate k' t = gate k t) \<and> ports k' = ports k"
proof -
  from Install_hooks_eq[OF nodes me, of pack remap k] obtain s' where
    s': "CPUMON_Install_Cpuhooks pack remap me n (k, s) =
      Some (gates_set {0 ..< n} (\<lambda>_. pack (perfvec_handler k)) (saved {0 ..< n} k), s')"
    "\<forall>c < n. apic_mapped c s' \<longrightarrow> lvt_pmi c s' = cpu_perf_vector s OR DRV_LVT_MASK" by blast
  show ?thesis
    by (intro exI conjI, rule s'(1)) (use s'(2) in \<open>auto simp: gates_set_def saved_def pack\<close>)
qed

text \<open>A two-CPU machine whose CPUs share one table, and the kernel's packing of a gate.\<close>

definition demo_pack :: "u64 \<Rightarrow> gate_struct" where
  "demo_pack f = \<lparr>offset_low = ucast f, offset_middle = ucast (drop_bit 16 f),
     offset_high = ucast (drop_bit 32 f), gate_attr = 0x8E00\<rparr>"

lemma demo_pack_addr: "gate_addr (demo_pack f) = f"
proof (rule bit_word_eqI)
  fix n assume n: "n < LENGTH(64)"
  show "bit (gate_addr (demo_pack f)) n = bit f n"
    using n by (cases "n < 16"; cases "n < 32") (auto simp: gate_addr_def demo_pack_def bit_simps)
qed

definition demo_hooks :: cpumon_state where
  "demo_hooks = \<lparr>idt_of = \<lambda>_. 5, gate = \<lambda>t. demo_pack (t + 0xFFFF81000000), cs_idt_base = \<lambda>_. 0,
     cs_saved_ih = \<lambda>_. 0, perfvec_handler = 0xA0001000, ports = \<lambda>_. 0\<rparr>"

definition demo_nodes :: drv where
  "demo_nodes = drv0\<lparr>pcb := [0 \<mapsto> cpu0, 1 \<mapsto> cpu0]\<rparr>"

lemma demo_nodes_ok: "\<forall>c < 2. pcb demo_nodes c \<noteq> None"
  by (auto simp: demo_nodes_def less_2_cases_iff)

theorem Install_hooks_witness:
  "\<exists>k' s'. CPUMON_Install_Cpuhooks demo_pack (\<lambda>a. a) 1 2 (demo_hooks, demo_nodes) = Some (k', s') \<and>
    gate_addr (gate k' 5) = 0xA0001000 \<and> cs_saved_ih k' 0 = 0xFFFF81000005 \<and> cs_saved_ih k' 1 = 0xFFFF81000005"
  using Install_hooks[OF demo_nodes_ok, of 1 demo_pack "\<lambda>a. a" demo_hooks, OF _ demo_pack_addr]
  by (fastforce simp: demo_hooks_def demo_pack_addr)

lemma Remove_hooks_eq:
  assumes n: "nodes_ok n s" and me: "me < n"
    and g: "\<And>c. c < n \<Longrightarrow> pack (cs_saved_ih k c) = g (cs_idt_base k c)"
  shows "\<exists>t. CPUMON_Remove_Cpuhooks pack me n (k, s) = Some (gates_set {0 ..< n} g k, t) \<and>
    (\<forall>c < n. apic_mapped c s \<longrightarrow> lvt_pmi c t = cpu_perf_vector s OR DRV_LVT_MASK) \<and>
    (\<not> drv_x2apic_enabled s \<longrightarrow> (\<forall>c < n. \<exists>p. pcb t c = Some p \<and> apic_linear_addr p = 0))"
proof -
  let ?cs = "me # parallel_order True me n"
  have cs: "set ?cs = {0 ..< n}" "set ?cs \<subseteq> {0 ..< n}" using me by (auto simp: parallel_order_set)
  from Destroy_all[OF n cs(2), of pack k g] g obtain t where
    t: "foldm (cpumon_Destroy_Cpu pack) ?cs (k, s) = Some (gates_set {0 ..< n} g k, t)"
    "foldm APIC_Disable_PMI ?cs s = Some t" unfolding cs(1) by blast
  from disable_masks[OF n cs(2)] t(2) have dm: "pcb t = pcb s" "drv_x2apic_enabled t = drv_x2apic_enabled s"
    "\<forall>c < n. pmi_masked (cpu_perf_vector s) c t" unfolding cs(1) by auto
  have nt: "nodes_ok n t" using n dm(1) by (simp add: nodes_ok_def)
  from Deinit_all[OF nt] obtain u where u: "foldm APIC_Deinit_Phase1 [0 ..< n] t = Some u"
    "\<forall>c < n. \<not> drv_x2apic_enabled t \<longrightarrow> (\<exists>p. pcb u c = Some p \<and> apic_linear_addr p = 0)"
    "\<forall>c. lvt_pmi c u = lvt_pmi c t" by blast
  from t(1) obtain x where x: "cpumon_Destroy_Cpu pack me (k, s) = Some x"
    "foldm (cpumon_Destroy_Cpu pack) (parallel_order True me n) x = Some (gates_set {0 ..< n} g k, t)"
    by (auto simp: bind_eq_Some_conv)
  have "CPUMON_Remove_Cpuhooks pack me n (k, s) = Some (gates_set {0 ..< n} g k, u)"
    using x u(1) by (simp add: CPUMON_Remove_Cpuhooks_def CONTROL_Invoke_Parallel_Service_def)
  moreover have "lvt_pmi c u = cpu_perf_vector s OR DRV_LVT_MASK" if "c < n" "apic_mapped c s" for c
  proof -
    have "apic_mapped c t" using that(2) dm(1,2) by (simp add: apic_mapped_def)
    with that(1) dm(3) u(3) show ?thesis by (simp add: pmi_masked_def)
  qed
  ultimately show ?thesis using u(2) dm(2) by blast
qed

text \<open>
  C22: removing the hooks undoes installing them. Installation is followed by a session that keeps the
  saved tables and handlers, and by removal. Then removal returns, and the gate of the
  performance interrupt of every CPU again holds the address it held before the installation;
  gates of other tables are as the session left them, the performance entries are masked, and no
  CPU keeps an address of the unmapped APIC page.
\<close>

theorem Remove_restores_handlers:
  assumes nodes: "\<forall>c < n. pcb s c \<noteq> None" and me: "me < n" "me' < n"
    and pack: "\<And>f. gate_addr (pack f) = f"
    and ins: "CPUMON_Install_Cpuhooks pack remap me n (k, s) = Some (k1, s1)"
    and ses: "cs_idt_base k2 = cs_idt_base k1" "cs_saved_ih k2 = cs_saved_ih k1" "\<forall>c < n. pcb s2 c \<noteq> None"
  shows "\<exists>k3 s3. CPUMON_Remove_Cpuhooks pack me' n (k2, s2) = Some (k3, s3) \<and>
    (\<forall>c < n. gate_addr (gate k3 (idt_of k c)) = gate_addr (gate k (idt_of k c)) \<and>
       (apic_mapped c s2 \<longrightarrow> lvt_pmi c s3 = cpu_perf_vector s2 OR DRV_LVT_MASK)) \<and>
    (\<forall>t. t \<notin> idt_of k ` {0 ..< n} \<longrightarrow> gate k3 t = gate k2 t) \<and>
    (\<not> drv_x2apic_enabled s2 \<longrightarrow> (\<forall>c < n. \<exists>p. pcb s3 c = Some p \<and> apic_linear_addr p = 0))"
proof -
  from Install_hooks_saved[OF nodes me(1) ins] ses have
    b: "\<And>c. c < n \<Longrightarrow> cs_idt_base k2 c = idt_of k c"
    "\<And>c. c < n \<Longrightarrow> cs_saved_ih k2 c = gate_addr (gate k (idt_of k c))" by simp_all
  let ?g = "\<lambda>t. pack (gate_addr (gate k t))"
  have n2: "nodes_ok n s2" using ses(3) by (simp add: nodes_ok_def)
  have "pack (cs_saved_ih k2 c) = ?g (cs_idt_base k2 c)" if "c < n" for c using b that by simp
  from Remove_hooks_eq[OF n2 me(2), of pack k2 ?g, OF this] obtain t where
    t: "CPUMON_Remove_Cpuhooks pack me' n (k2, s2) = Some (gates_set {0 ..< n} ?g k2, t)"
    "\<forall>c < n. apic_mapped c s2 \<longrightarrow> lvt_pmi c t = cpu_perf_vector s2 OR DRV_LVT_MASK"
    "\<not> drv_x2apic_enabled s2 \<longrightarrow> (\<forall>c < n. \<exists>p. pcb t c = Some p \<and> apic_linear_addr p = 0)" by blast
  have im: "cs_idt_base k2 ` {0 ..< n} = idt_of k ` {0 ..< n}" using b(1) by (simp add: image_def)
  have "gate_addr (gate (gates_set {0 ..< n} ?g k2) (idt_of k c)) = gate_addr (gate k (idt_of k c))" if "c < n" for c
    using that by (auto simp: gates_set_def im pack)
  moreover have "gate (gates_set {0 ..< n} ?g k2) d = gate k2 d" if "d \<notin> idt_of k ` {0 ..< n}" for d
    using that by (auto simp: gates_set_def im)
  ultimately show ?thesis using t by blast
qed

lemma demo_install:
  "\<exists>k' s'. CPUMON_Install_Cpuhooks demo_pack (\<lambda>a. a) 1 2 (demo_hooks, demo_nodes) = Some (k', s')"
  using Install_hooks_eq[OF demo_nodes_ok, of 1 demo_pack "\<lambda>a. a" demo_hooks] by auto

theorem Remove_restores_handlers_witness:
  "\<exists>k1 s1 k3 s3. CPUMON_Install_Cpuhooks demo_pack (\<lambda>a. a) 1 2 (demo_hooks, demo_nodes) = Some (k1, s1) \<and>
    CPUMON_Remove_Cpuhooks demo_pack 0 2 (k1, demo_nodes) = Some (k3, s3) \<and> gate_addr (gate k3 5) = 0xFFFF81000005"
proof -
  from demo_install obtain k1 s1 where
    i: "CPUMON_Install_Cpuhooks demo_pack (\<lambda>a. a) 1 2 (demo_hooks, demo_nodes) = Some (k1, s1)" by blast
  from Remove_restores_handlers[OF demo_nodes_ok _ _ demo_pack_addr i refl refl demo_nodes_ok, of 0] i
  show ?thesis by (fastforce simp: demo_hooks_def demo_pack_addr)
qed

end
