(* ===== verification/Uncore.thy ===== *)
theory Uncore
  imports Cpumon Silvermont CorePmu
begin

text \<open>
  The uncore units: the device table of inc/lwpmudrv.h, the four uncore drivers (corei7_unc.c,
  snbunc_cbo.c, haswellunc_ncu.c over MSRs; snbunc_imc.c over memory-mapped registers), and the
  dispatch tables by name, with \<open>UTILITY_Configure_CPU\<close> of utility.c. A pointer to one of the
  static tables is the table's name, so a device can hold it and a NULL entry can be called.
\<close>

section \<open>State\<close>

datatype dispatch_name = Core2_dispatch | Corei7_dispatch | Corei7_htoff | Corei7_dispatch_2
  | Corei7_htoff_2 | Silvermont_dispatch | Corei7_unc | Snbunc_imc | Snbunc_cbo | Haswellunc_ncu

text \<open>\<open>LWPMU_DEVICE_NODE\<close>: arrays are lists, NULL the empty list.\<close>

record lwpmu_device =
  PMU_register_data_unc :: "ecb option list"
  dispatch_unc :: "dispatch_name option"
  em_groups_count_unc :: nat
  pcfg_unc :: "drv_config option"
  acc_per_thread :: "u64 list list"
  prev_val_per_thread :: "u64 list list"
  counter_mask :: u64
  unc_num_events :: u64
  num_units :: u32

text \<open>
  \<open>mmio\<close> is what \<open>readl\<close> finds at a mapped address; \<open>imc_address\<close> is the global
  \<open>virtual_address\<close> of snbunc_imc.c and \<open>imc_mapped\<close> tells whether a mapping is in place there.
\<close>

record unc_state =
  hw :: drv
  devices :: "lwpmu_device list"
  num_devices :: u32
  invoking_processor_id :: nat
  imc_address :: u64
  imc_mapped :: bool
  mmio :: "u64 \<Rightarrow> u32"
  read_unc_ctr_info :: "u64 list"

definition on_hw :: "(drv \<Rightarrow> drv option) \<Rightarrow> unc_state \<Rightarrow> unc_state option" where
  "on_hw f u = do { s \<leftarrow> f (hw u); Some (u\<lparr>hw := s\<rparr>) }"

definition upd_device :: "nat \<Rightarrow> (lwpmu_device \<Rightarrow> lwpmu_device) \<Rightarrow> unc_state \<Rightarrow> unc_state option" where
  "upd_device i f u = do { d \<leftarrow> list_at (devices u) i; Some (u\<lparr>devices := (devices u)[i := f d]\<rparr>) }"

text \<open>\<open>LWPMU_DEVICE_PMU_register_data(&devices[i])[0]\<close>, as a pointer and dereferenced.\<close>

definition unc_ecb_ptr :: "nat \<Rightarrow> unc_state \<Rightarrow> ecb option option" where
  "unc_ecb_ptr i u = do { d \<leftarrow> list_at (devices u) i; list_at (PMU_register_data_unc d) 0 }"

definition unc_ecb :: "nat \<Rightarrow> unc_state \<Rightarrow> ecb option" where
  "unc_ecb i u = do { q \<leftarrow> unc_ecb_ptr i u; q }"

definition FOR_EACH_REG_ENTRY_UNC :: "nat \<Rightarrow> unc_state \<Rightarrow> (event_reg \<Rightarrow> 's \<Rightarrow> 's option) \<Rightarrow> 's \<Rightarrow> 's option" where
  "FOR_EACH_REG_ENTRY_UNC i u body s = do { pecb \<leftarrow> unc_ecb i u;
     for_each 0 (num_entries pecb) (\<lambda>e. reg_id e = 0) body pecb s }"

definition FOR_EACH_DATA_REG_UNC :: "nat \<Rightarrow> unc_state \<Rightarrow> (event_reg \<Rightarrow> 's \<Rightarrow> 's option) \<Rightarrow> 's \<Rightarrow> 's option" where
  "FOR_EACH_DATA_REG_UNC i u body s = do { pecb \<leftarrow> unc_ecb i u;
     for_each (data_start pecb) (data_pop pecb) (\<lambda>e. reg_id e = 0) body pecb s }"

text \<open>The body of the memory-mapped loop gets the register's offset from the start of the mapping.\<close>

definition FOR_EACH_PCI_DATA_REG :: "nat \<Rightarrow> unc_state \<Rightarrow> (u32 \<Rightarrow> event_reg \<Rightarrow> 's \<Rightarrow> 's option) \<Rightarrow> 's \<Rightarrow> 's option" where
  "FOR_EACH_PCI_DATA_REG i u body s = do { pecb \<leftarrow> unc_ecb i u;
     for_each (data_start pecb) (data_pop pecb) (\<lambda>e. pci_id_offset e = 0)
       (\<lambda>e. body (pci_id_offset e - base_offset_for_mmio (pcidev_entry_node pecb)) e) pecb s }"

section \<open>The MSR-based drivers\<close>

text \<open>
  The three drivers differ in the name of their global control register. Programming clears it
  and writes the other registers; the first mask of a counter is kept for overflow detection.
\<close>

definition note_counter_mask :: "nat \<Rightarrow> event_reg \<Rightarrow> unc_state \<Rightarrow> unc_state option" where
  "note_counter_mask i e = upd_device i (\<lambda>d. if counter_mask d = 0 then d\<lparr>counter_mask := max_bits e\<rparr> else d)"

definition unc_write_entry :: "u16 \<Rightarrow> nat \<Rightarrow> nat \<Rightarrow> event_reg \<Rightarrow> unc_state \<Rightarrow> unc_state option" where
  "unc_write_entry ctl i cpu e u =
     (if reg_id e = ctl then Some (u\<lparr>hw := wr cpu (reg_id e) 0 (hw u)\<rparr>)
      else note_counter_mask i e (u\<lparr>hw := wr cpu (reg_id e) (reg_value e) (hw u)\<rparr>))"

definition unc_restart :: "u16 \<Rightarrow> nat \<Rightarrow> nat \<Rightarrow> unc_state \<Rightarrow> unc_state option" where
  "unc_restart ctl i cpu u = do { pecb \<leftarrow> unc_ecb_ptr i u;
     if current_phase (driver_state (hw u)) = RUNNING
     then do { v \<leftarrow> entry_value pecb 0; Some (u\<lparr>hw := wr cpu ctl v (hw u)\<rparr>) }
     else Some u }"

definition unc_clean_up :: "nat \<Rightarrow> nat \<Rightarrow> unc_state \<Rightarrow> unc_state option" where
  "unc_clean_up i cpu u = FOR_EACH_REG_ENTRY_UNC i u
     (\<lambda>e u. Some (if clean_up_get e then u\<lparr>hw := wr cpu (reg_id e) 0 (hw u)\<rparr> else u)) u"

text \<open>The first word of the result is the group number; the counts follow.\<close>

definition unc_counts :: "nat \<Rightarrow> nat \<Rightarrow> u64 list \<Rightarrow> unc_state \<Rightarrow> u64 list option" where
  "unc_counts i cpu d u = do { d \<leftarrow> list_put d 0 1;
     FOR_EACH_DATA_REG_UNC i u
       (\<lambda>e d. list_put d (1 + unat (event_id_index_local e)) (rd cpu (reg_id e) (hw u))) d }"

text \<open>
  The three \<open>Read_PMU_Data\<close> routines loop with \<open>FOR_EACH_DATA_REG\<close>, over the registers of the
  core's current group, and store in the core's array.
\<close>

definition unc_read_data :: "nat \<Rightarrow> drv \<Rightarrow> drv option" where
  "unc_read_data cpu s = (let start_index = num_events (pcfg s) * of_nat cpu in
     FOR_EACH_DATA_REG cpu s (\<lambda>e s. do {
       b \<leftarrow> list_put (read_counter_info s) (unat (start_index + ucast (event_id_index e))) (rd cpu (reg_id e) s);
       Some (s\<lparr>read_counter_info := b\<rparr>) }) s)"

definition UNC_UCLK_PERF_GLOBAL_CTRL :: u16 where "UNC_UCLK_PERF_GLOBAL_CTRL = 0x391"
definition CBO_PERF_GLOBAL_CTRL :: u16 where "CBO_PERF_GLOBAL_CTRL = 0x391"
definition NCU_PERF_GLOBAL_CTRL :: u16 where "NCU_PERF_GLOBAL_CTRL = 0x391"

definition corei7_unc_Write_PMU :: "nat \<Rightarrow> nat \<Rightarrow> unc_state \<Rightarrow> unc_state option" where
  "corei7_unc_Write_PMU i cpu u = FOR_EACH_REG_ENTRY_UNC i u (unc_write_entry UNC_UCLK_PERF_GLOBAL_CTRL i cpu) u"
definition corei7_unc_Disable_PMU :: "nat \<Rightarrow> unc_state \<Rightarrow> unc_state option" where
  "corei7_unc_Disable_PMU cpu u = Some (u\<lparr>hw := wr cpu UNC_UCLK_PERF_GLOBAL_CTRL 0 (hw u)\<rparr>)"
definition corei7_unc_Enable_PMU :: "nat \<Rightarrow> nat \<Rightarrow> unc_state \<Rightarrow> unc_state option" where
  "corei7_unc_Enable_PMU i cpu u = unc_restart UNC_UCLK_PERF_GLOBAL_CTRL i cpu u"
definition corei7_unc_Read_PMU_Data :: "nat \<Rightarrow> unc_state \<Rightarrow> unc_state option" where
  "corei7_unc_Read_PMU_Data cpu u = on_hw (unc_read_data cpu) u"
definition corei7_unc_Clean_Up :: "nat \<Rightarrow> nat \<Rightarrow> unc_state \<Rightarrow> unc_state option" where
  "corei7_unc_Clean_Up i cpu u = unc_clean_up i cpu u"
definition corei7_unc_Read_Counts :: "nat \<Rightarrow> nat \<Rightarrow> u64 list \<Rightarrow> unc_state \<Rightarrow> u64 list option" where
  "corei7_unc_Read_Counts i cpu d u = unc_counts i cpu d u"

definition snbunc_cbo_Write_PMU :: "nat \<Rightarrow> nat \<Rightarrow> unc_state \<Rightarrow> unc_state option" where
  "snbunc_cbo_Write_PMU i cpu u = FOR_EACH_REG_ENTRY_UNC i u (unc_write_entry CBO_PERF_GLOBAL_CTRL i cpu) u"
definition snbunc_cbo_Disable_PMU :: "nat \<Rightarrow> unc_state \<Rightarrow> unc_state option" where
  "snbunc_cbo_Disable_PMU cpu u = Some (u\<lparr>hw := wr cpu CBO_PERF_GLOBAL_CTRL 0 (hw u)\<rparr>)"
definition snbunc_cbo_Enable_PMU :: "nat \<Rightarrow> nat \<Rightarrow> unc_state \<Rightarrow> unc_state option" where
  "snbunc_cbo_Enable_PMU i cpu u = unc_restart CBO_PERF_GLOBAL_CTRL i cpu u"
definition snbunc_cbo_Read_PMU_Data :: "nat \<Rightarrow> unc_state \<Rightarrow> unc_state option" where
  "snbunc_cbo_Read_PMU_Data cpu u = on_hw (unc_read_data cpu) u"
definition snbunc_cbo_Clean_Up :: "nat \<Rightarrow> nat \<Rightarrow> unc_state \<Rightarrow> unc_state option" where
  "snbunc_cbo_Clean_Up i cpu u = unc_clean_up i cpu u"
definition snbunc_cbo_Read_Counts :: "nat \<Rightarrow> nat \<Rightarrow> u64 list \<Rightarrow> unc_state \<Rightarrow> u64 list option" where
  "snbunc_cbo_Read_Counts i cpu d u = unc_counts i cpu d u"

definition haswellunc_ncu_Write_PMU :: "nat \<Rightarrow> nat \<Rightarrow> unc_state \<Rightarrow> unc_state option" where
  "haswellunc_ncu_Write_PMU i cpu u = FOR_EACH_REG_ENTRY_UNC i u (unc_write_entry NCU_PERF_GLOBAL_CTRL i cpu) u"
definition haswellunc_ncu_Disable_PMU :: "nat \<Rightarrow> unc_state \<Rightarrow> unc_state option" where
  "haswellunc_ncu_Disable_PMU cpu u = Some (u\<lparr>hw := wr cpu NCU_PERF_GLOBAL_CTRL 0 (hw u)\<rparr>)"
definition haswellunc_ncu_Enable_PMU :: "nat \<Rightarrow> nat \<Rightarrow> unc_state \<Rightarrow> unc_state option" where
  "haswellunc_ncu_Enable_PMU i cpu u = unc_restart NCU_PERF_GLOBAL_CTRL i cpu u"
definition haswellunc_ncu_Read_PMU_Data :: "nat \<Rightarrow> unc_state \<Rightarrow> unc_state option" where
  "haswellunc_ncu_Read_PMU_Data cpu u = on_hw (unc_read_data cpu) u"
definition haswellunc_ncu_Clean_Up :: "nat \<Rightarrow> nat \<Rightarrow> unc_state \<Rightarrow> unc_state option" where
  "haswellunc_ncu_Clean_Up i cpu u = unc_clean_up i cpu u"
definition haswellunc_ncu_Read_Counts :: "nat \<Rightarrow> nat \<Rightarrow> u64 list \<Rightarrow> unc_state \<Rightarrow> u64 list option" where
  "haswellunc_ncu_Read_Counts i cpu d u = unc_counts i cpu d u"

section \<open>The memory controller\<close>

definition NEXT_ADDR_OFFSET :: u32 where "NEXT_ADDR_OFFSET = 4"
definition SNBUNC_IMC_BAR_ADDR_SHIFT :: nat where "SNBUNC_IMC_BAR_ADDR_SHIFT = 32"
definition SNBUNC_IMC_BAR_ADDR_MASK :: u64 where "SNBUNC_IMC_BAR_ADDR_MASK = 0x0007FFFFF8000"

text \<open>A read with no mapping in place is a fault.\<close>

definition imc_readl :: "u32 \<Rightarrow> unc_state \<Rightarrow> u32 option" where
  "imc_readl off u = (if \<not> imc_mapped u then None else Some (mmio u (imc_address u + ucast off)))"

definition imc_bar :: "pci_device_entry \<Rightarrow> drv \<Rightarrow> u64" where
  "imc_bar n s = (let a = FORM_PCI_ADDR (pd_bus_no n) (pd_dev_no n) (pd_func_no n);
       bar_lo = PCI_Read_Ulong (a (bar_offset n)) s;
       bar_hi = PCI_Read_Ulong (a (bar_offset n + NEXT_ADDR_OFFSET)) s
     in (push_bit SNBUNC_IMC_BAR_ADDR_SHIFT (ucast bar_hi) OR ucast bar_lo) AND SNBUNC_IMC_BAR_ADDR_MASK)"

definition imc_note_prev :: "nat \<Rightarrow> nat \<Rightarrow> u64 \<Rightarrow> nat \<Rightarrow> unc_state \<Rightarrow> unc_state option" where
  "imc_note_prev i k v j u = do { d \<leftarrow> list_at (devices u) i; row \<leftarrow> list_at (prev_val_per_thread d) j;
     row \<leftarrow> list_put row k v;
     upd_device i (\<lambda>d. d\<lparr>prev_val_per_thread := (prev_val_per_thread d)[j := row]\<rparr>) u }"

text \<open>\<open>remap\<close> is the answer of \<open>ioremap_nocache\<close> for a physical address.\<close>

definition snbunc_imc_Write_PMU :: "(u64 \<Rightarrow> u64) \<Rightarrow> nat \<Rightarrow> nat \<Rightarrow> unc_state \<Rightarrow> unc_state option" where
  "snbunc_imc_Write_PMU remap i cpu u = do { q \<leftarrow> unc_ecb_ptr i u;
     if cpu \<noteq> invoking_processor_id u then Some u
     else do { pecb \<leftarrow> q;
       let n = (pcidev_entry_node pecb)\<lparr>bar_address := imc_bar (pcidev_entry_node pecb) (hw u)\<rparr>;
       u \<leftarrow> upd_device i (\<lambda>d. d\<lparr>PMU_register_data_unc :=
              (PMU_register_data_unc d)[0 := Some (pecb\<lparr>pcidev_entry_node := n\<rparr>)]\<rparr>) u;
       let va = remap (bar_address n + ucast (base_offset_for_mmio n));
       let u = u\<lparr>imc_address := va, imc_mapped := (va \<noteq> 0)\<rparr>;
       FOR_EACH_PCI_DATA_REG i u (\<lambda>off e u. do { v \<leftarrow> imc_readl off u;
           u \<leftarrow> foldm (imc_note_prev i (unat (event_id_index_local e) + 1) (ucast v))
                  [0 ..< unat (num_cpus (driver_state (hw u)))] u;
           note_counter_mask i e u }) u } }"

definition snbunc_imc_Disable_PMU :: "nat \<Rightarrow> unc_state \<Rightarrow> unc_state option" where
  "snbunc_imc_Disable_PMU cpu u = Some (if cpu = invoking_processor_id u \<and>
     current_phase (driver_state (hw u)) = STOPPED then u\<lparr>imc_mapped := False\<rparr> else u)"
definition snbunc_imc_Clean_Up :: "nat \<Rightarrow> unc_state \<Rightarrow> unc_state option" where
  "snbunc_imc_Clean_Up cpu u = Some u"

definition snbunc_imc_Read_Counts :: "nat \<Rightarrow> nat \<Rightarrow> u64 list \<Rightarrow> unc_state \<Rightarrow> u64 list option" where
  "snbunc_imc_Read_Counts i cpu d u = do { d \<leftarrow> list_put d 0 1;
     FOR_EACH_PCI_DATA_REG i u (\<lambda>off e d. do { v \<leftarrow> imc_readl off u;
       list_put d (1 + unat (event_id_index_local e)) (ucast v) }) d }"

definition snbunc_imc_Read_PMU_Data :: "nat \<Rightarrow> nat \<Rightarrow> unc_state \<Rightarrow> unc_state option" where
  "snbunc_imc_Read_PMU_Data i cpu u = do { d \<leftarrow> list_at (devices u) i; cfg \<leftarrow> pcfg_unc d;
     let start_index = emon_unc_offset cfg;
     p \<leftarrow> pcb (hw u) cpu;
     if \<not> socket_master p then Some u
     else FOR_EACH_PCI_DATA_REG i u (\<lambda>off e u. do { v \<leftarrow> imc_readl off u;
       b \<leftarrow> list_put (read_unc_ctr_info u)
              (unat (start_index + ucast (event_id_index e) + ucast (emon_event_id_index_local e))) (ucast v);
       Some (u\<lparr>read_unc_ctr_info := b\<rparr>) }) u }"

section \<open>Dispatch tables by name\<close>

text \<open>
  An operation gets the argument the caller passes, \<open>None\<close> for NULL and \<open>Some i\<close> for a pointer to
  the index \<open>i\<close>, and the CPU it runs on; the core drivers ignore the argument.
\<close>

type_synonym disp_op = "nat option \<Rightarrow> nat \<Rightarrow> unc_state \<Rightarrow> unc_state option"

record disp_table =
  t_init :: "disp_op option"
  t_fini :: "disp_op option"
  t_write :: "disp_op option"
  t_freeze :: "disp_op option"
  t_restart :: "disp_op option"
  t_read_data :: "disp_op option"
  t_check_overflow :: "(nat \<Rightarrow> drv \<Rightarrow> (drv \<times> event_mask list) option) option"
  t_swap_group :: "(nat \<Rightarrow> drv \<Rightarrow> drv option) option"
  t_read_lbrs :: "(nat \<Rightarrow> drv \<Rightarrow> u64 list) option"
  t_cleanup :: "disp_op option"
  t_read_power :: "(nat \<Rightarrow> drv \<Rightarrow> u64 list) option"
  t_read_counts :: "(nat \<Rightarrow> nat \<Rightarrow> u64 list \<Rightarrow> unc_state \<Rightarrow> (u64 list \<times> unc_state) option) option"

definition core_op :: "(nat \<Rightarrow> drv \<Rightarrow> drv option) \<Rightarrow> disp_op option" where
  "core_op f = Some (\<lambda>_ cpu. on_hw (f cpu))"

definition unc_op :: "(nat \<Rightarrow> nat \<Rightarrow> unc_state \<Rightarrow> unc_state option) \<Rightarrow> disp_op option" where
  "unc_op f = Some (\<lambda>param cpu u. do { i \<leftarrow> param; f i cpu u })"

definition cpu_op :: "(nat \<Rightarrow> unc_state \<Rightarrow> unc_state option) \<Rightarrow> disp_op option" where
  "cpu_op f = Some (\<lambda>_ cpu. f cpu)"

definition core_table :: "dispatch_node \<Rightarrow> disp_table" where
  "core_table n = \<lparr>t_init = core_op (d_init n), t_fini = core_op (d_fini n), t_write = core_op (d_write n),
     t_freeze = core_op (d_freeze n), t_restart = core_op (d_restart n), t_read_data = core_op (d_read_data n),
     t_check_overflow = Some (d_check_overflow n), t_swap_group = Some (d_swap_group n),
     t_read_lbrs = Some (d_read_lbrs n), t_cleanup = core_op (d_cleanup n), t_read_power = d_read_power n,
     t_read_counts = Some (\<lambda>cpu ident d u. do { (d, s) \<leftarrow> d_read_counts n cpu (of_nat ident) d (hw u);
                                             Some (d, u\<lparr>hw := s\<rparr>) })\<rparr>"

definition unc_table :: "disp_op option \<Rightarrow> disp_op option \<Rightarrow> disp_op option \<Rightarrow> disp_op option \<Rightarrow> disp_op option
    \<Rightarrow> (nat \<Rightarrow> nat \<Rightarrow> u64 list \<Rightarrow> unc_state \<Rightarrow> u64 list option) \<Rightarrow> disp_table" where
  "unc_table w fr re rdat cl rc = \<lparr>t_init = None, t_fini = None, t_write = w, t_freeze = fr, t_restart = re,
     t_read_data = rdat, t_check_overflow = None, t_swap_group = None, t_read_lbrs = None, t_cleanup = cl,
     t_read_power = None,
     t_read_counts = Some (\<lambda>cpu ident d u. do { d \<leftarrow> rc ident cpu d u; Some (d, u) })\<rparr>"

fun table_of :: "(u64 \<Rightarrow> u64) \<Rightarrow> dispatch_name \<Rightarrow> disp_table" where
  "table_of remap Core2_dispatch = core_table core2_dispatch"
| "table_of remap Corei7_dispatch = core_table corei7_dispatch"
| "table_of remap Corei7_htoff = core_table corei7_dispatch_htoff_mode"
| "table_of remap Corei7_dispatch_2 = core_table corei7_dispatch_2"
| "table_of remap Corei7_htoff_2 = core_table corei7_dispatch_htoff_mode_2"
| "table_of remap Silvermont_dispatch = core_table silvermont_dispatch"
| "table_of remap Corei7_unc = unc_table (unc_op corei7_unc_Write_PMU) (cpu_op corei7_unc_Disable_PMU)
     (unc_op corei7_unc_Enable_PMU) (cpu_op corei7_unc_Read_PMU_Data) (unc_op corei7_unc_Clean_Up)
     corei7_unc_Read_Counts"
| "table_of remap Snbunc_cbo = unc_table (unc_op snbunc_cbo_Write_PMU) (cpu_op snbunc_cbo_Disable_PMU)
     (unc_op snbunc_cbo_Enable_PMU) (cpu_op snbunc_cbo_Read_PMU_Data) (unc_op snbunc_cbo_Clean_Up)
     snbunc_cbo_Read_Counts"
| "table_of remap Haswellunc_ncu = unc_table (unc_op haswellunc_ncu_Write_PMU) (cpu_op haswellunc_ncu_Disable_PMU)
     (unc_op haswellunc_ncu_Enable_PMU) (cpu_op haswellunc_ncu_Read_PMU_Data) (unc_op haswellunc_ncu_Clean_Up)
     haswellunc_ncu_Read_Counts"
| "table_of remap Snbunc_imc = unc_table (unc_op (snbunc_imc_Write_PMU remap)) (cpu_op snbunc_imc_Disable_PMU)
     None (unc_op snbunc_imc_Read_PMU_Data) (cpu_op snbunc_imc_Clean_Up) snbunc_imc_Read_Counts"

text \<open>
  The identifiers of the 64-bit \<open>DRV_BIGCORE\<close> build (Makefile); the other cases of the switch
  name tables that are not in the sources.
\<close>

definition UTILITY_Configure_CPU :: "u32 \<Rightarrow> dispatch_name option" where
  "UTILITY_Configure_CPU n =
     (if n = 1 then Some Core2_dispatch else if n = 6 then Some Silvermont_dispatch
      else if n = 2 then Some Corei7_dispatch else if n = 3 then Some Corei7_htoff
      else if n = 4 then Some Corei7_dispatch_2 else if n = 5 then Some Corei7_htoff_2
      else if n = 100 then Some Corei7_unc else if n = 200 then Some Snbunc_imc
      else if n = 201 then Some Snbunc_cbo else if n = 500 then Some Haswellunc_ncu
      else None)"

end
