(* ===== verification/Uncore_Correct.thy ===== *)
theory Uncore_Correct
  imports Uncore Instances
begin

text \<open>
  The life cycle of an MSR-based uncore unit: programming leaves it stopped, restarting a running
  session starts it, freezing stops it. And what the routines that read its data read.
\<close>

section \<open>The programming loop\<close>

definition unc_regs :: "ecb \<Rightarrow> event_reg list" where
  "unc_regs q = filter (\<lambda>e. reg_id e \<noteq> 0) (ecb_part 0 (num_entries q) q)"

lemma FOR_EACH_UNC_eq:
  assumes "unc_ecb i u = Some q" "part_ok 0 (num_entries q) q"
  shows "FOR_EACH_REG_ENTRY_UNC i u body s = foldm body (unc_regs q) s"
  using assms by (simp add: FOR_EACH_REG_ENTRY_UNC_def for_each_eq unc_regs_def)

text \<open>What the loop writes to a register.\<close>

definition unc_value :: "u16 \<Rightarrow> event_reg \<Rightarrow> u64" where
  "unc_value ctl e = (if reg_id e = ctl then 0 else reg_value e)"

definition same_block :: "nat \<Rightarrow> unc_state \<Rightarrow> unc_state \<Rightarrow> bool" where
  "same_block i u v = (i < length (devices v) \<and> length (devices v) = length (devices u) \<and>
     PMU_register_data_unc (devices v ! i) = PMU_register_data_unc (devices u ! i) \<and>
     (\<forall>j. j \<noteq> i \<longrightarrow> devices v ! j = devices u ! j))"

lemma unc_write_loop:
  assumes "i < length (devices u)"
  shows "\<exists>v. foldm (unc_write_entry ctl i cpu) es u = Some v \<and> hw v = wr_regs cpu (unc_value ctl) es (hw u) \<and>
    same_block i u v"
proof -
  let ?P = "\<lambda>pre v. hw v = wr_regs cpu (unc_value ctl) pre (hw u) \<and> same_block i u v"
  show ?thesis
  proof (rule foldm_prefix_rule[where P = ?P])
    show "?P [] u" using assms by (simp add: same_block_def)
  next
    fix pre e v
    assume P: "?P pre v"
    then have i: "i < length (devices v)" by (simp add: same_block_def)
    with P show "\<exists>v'. unc_write_entry ctl i cpu e v = Some v' \<and> ?P (pre @ [e]) v'"
      by (auto simp: unc_write_entry_def note_counter_mask_def upd_device_def unc_value_def same_block_def)
  qed
qed

lemma unc_ecb_device: "unc_ecb i u = Some q \<Longrightarrow> i < length (devices u)"
  by (auto simp: unc_ecb_def unc_ecb_ptr_def bind_eq_Some_conv list_at_eq_Some)

lemma same_block_ptr: "same_block i u v \<Longrightarrow> unc_ecb_ptr i v = unc_ecb_ptr i u"
  by (simp add: same_block_def unc_ecb_ptr_def)

text \<open>
  An uncore unit from programming to freezing (shown for the core i7 unit; the other two differ
  in the name of the register). The unit's block is well formed, names the global control register
  and no register twice. Then programming returns and leaves the unit stopped and every other
  register of the block with its value; restarting it in a running session gives the global
  control register the value of the block's first entry, outside one it changes nothing; and
  freezing stops the unit. Other CPUs' registers and the core's block are never touched.
\<close>

theorem uncore_life_cycle:
  assumes blk: "unc_ecb i u = Some q" "part_ok 0 (num_entries q) q" "entries q \<noteq> []"
    and regs: "distinct (map reg_id (unc_regs q))" "UNC_UCLK_PERF_GLOBAL_CTRL \<in> reg_id ` set (unc_regs q)"
  shows "\<exists>v x. corei7_unc_Write_PMU i cpu u = Some v \<and>
    rd cpu UNC_UCLK_PERF_GLOBAL_CTRL (hw v) = 0 \<and>
    (\<forall>e \<in> set (unc_regs q). reg_id e \<noteq> UNC_UCLK_PERF_GLOBAL_CTRL \<longrightarrow> rd cpu (reg_id e) (hw v) = reg_value e) \<and>
    (\<forall>c r. c \<noteq> cpu \<longrightarrow> SYS_Read_MSR c r (hw v) = SYS_Read_MSR c r (hw u)) \<and>
    PMU_register_data (hw v) = PMU_register_data (hw u) \<and>
    corei7_unc_Enable_PMU i cpu v = Some x \<and>
    (if current_phase (driver_state (hw u)) = RUNNING
     then rd cpu UNC_UCLK_PERF_GLOBAL_CTRL (hw x) = reg_value (entries q ! 0) else x = v) \<and>
    (\<exists>y. corei7_unc_Disable_PMU cpu x = Some y \<and> rd cpu UNC_UCLK_PERF_GLOBAL_CTRL (hw y) = 0)"
proof -
  let ?ctl = UNC_UCLK_PERF_GLOBAL_CTRL
  from unc_write_loop[OF unc_ecb_device[OF blk(1)], of ?ctl cpu "unc_regs q"] obtain v where
    v: "corei7_unc_Write_PMU i cpu u = Some v" "hw v = wr_regs cpu (unc_value ?ctl) (unc_regs q) (hw u)" "same_block i u v"
    by (auto simp: corei7_unc_Write_PMU_def FOR_EACH_UNC_eq[OF blk(1,2)])
  have val: "rd cpu (reg_id e) (hw v) = unc_value ?ctl e" if "e \<in> set (unc_regs q)" for e
    unfolding v(2)
    by (rule read_wr_regs_in[OF that]) (use regs(1) that in \<open>auto simp: distinct_map dest: inj_onD\<close>)
  have ctl: "rd cpu ?ctl (hw v) = 0" using regs(2) val by (force simp: unc_value_def)
  have ptr: "unc_ecb_ptr i v = Some (Some q)"
    using blk(1) same_block_ptr[OF v(3)] by (auto simp: unc_ecb_def bind_eq_Some_conv)
  have e0: "entry_value (Some q) 0 = Some (reg_value (entries q ! 0))"
    using blk(3) by (simp add: entry_value_def)
  have ph: "driver_state (hw v) = driver_state (hw u)" using v(2) by simp
  obtain x where x: "corei7_unc_Enable_PMU i cpu v = Some x"
    "if current_phase (driver_state (hw u)) = RUNNING
     then rd cpu ?ctl (hw x) = reg_value (entries q ! 0) else x = v"
    by (cases "current_phase (driver_state (hw u)) = RUNNING")
      (simp_all add: corei7_unc_Enable_PMU_def unc_restart_def ptr e0 ph)
  have y: "\<exists>y. corei7_unc_Disable_PMU cpu x = Some y \<and> rd cpu ?ctl (hw y) = 0"
    by (simp add: corei7_unc_Disable_PMU_def)
  show ?thesis
    by (intro exI[of _ v] exI[of _ x] conjI v(1) ctl x y) (use val v(2) in \<open>auto simp: unc_value_def\<close>)
qed

definition demo_unc_block :: ecb where
  "demo_unc_block = (mk_ecb [] [] 3)\<lparr>num_entries := 3, entries :=
     [mk_reg 0x391 0x40 1 0, mk_reg 0x3C0 0x40 0x4001BC 0, mk_reg 0x3B0 0x20 0 0]\<rparr>"

definition demo_unc :: unc_state where
  "demo_unc = \<lparr>hw = drv0, devices = [\<lparr>PMU_register_data_unc = [Some demo_unc_block], dispatch_unc = Some Corei7_unc,
       em_groups_count_unc = 1, pcfg_unc = Some (pcfg drv0), acc_per_thread = [], prev_val_per_thread = [],
       counter_mask = 0, unc_num_events = 1, num_units = 1\<rparr>],
     num_devices = 1, invoking_processor_id = 0, imc_address = 0, imc_mapped = False, mmio = \<lambda>_. 0,
     read_unc_ctr_info = []\<rparr>"

lemma demo_unc_regs:
  "unc_regs demo_unc_block = [mk_reg 0x391 0x40 1 0, mk_reg 0x3C0 0x40 0x4001BC 0, mk_reg 0x3B0 0x20 0 0]"
  by (simp add: unc_regs_def ecb_part_def demo_unc_block_def)

theorem uncore_life_cycle_witness:
  "\<exists>v x. corei7_unc_Write_PMU 0 2 demo_unc = Some v \<and> rd 2 0x391 (hw v) = 0 \<and> rd 2 0x3C0 (hw v) = 0x4001BC \<and>
    corei7_unc_Enable_PMU 0 2 v = Some x"
proof -
  have 1: "unc_ecb 0 demo_unc = Some demo_unc_block" by (simp add: unc_ecb_def unc_ecb_ptr_def demo_unc_def)
  have 2: "part_ok 0 (num_entries demo_unc_block) demo_unc_block" "entries demo_unc_block \<noteq> []"
    by (simp_all add: part_ok_def demo_unc_block_def)
  have 3: "distinct (map reg_id (unc_regs demo_unc_block))"
    "UNC_UCLK_PERF_GLOBAL_CTRL \<in> reg_id ` set (unc_regs demo_unc_block)"
    by (simp_all add: demo_unc_regs UNC_UCLK_PERF_GLOBAL_CTRL_def)
  from uncore_life_cycle[OF 1 2 3, of 2] show ?thesis
    by (auto simp: demo_unc_regs UNC_UCLK_PERF_GLOBAL_CTRL_def)
qed

text \<open>
  Reading the units' data reads the core. The routine that should read a unit's counters takes
  the registers from the core's current group: whatever the device table holds, or even if it is
  empty, it does the same to the machine.
\<close>

lemma uncore_read_ignores_unit:
  "corei7_unc_Read_PMU_Data cpu (u\<lparr>devices := ds\<rparr>) =
     map_option (\<lambda>v. v\<lparr>devices := ds\<rparr>) (corei7_unc_Read_PMU_Data cpu u)"
  by (cases u; cases "unc_read_data cpu (hw u)") (simp_all add: corei7_unc_Read_PMU_Data_def on_hw_def)

end
