(* ===== verification/Globals.thy ===== *)
theory Globals
  imports Uncore Output
begin

text \<open>
  The global variables of the sampling driver (lwpmudrv.c, pmi.c), collected in one record over
  the state of the hardware and the units, the sample buffers and the interrupt hooks; and the
  records of a sample buffer as bytes, with the little-endian accessors the interrupt handler
  writes them with.
\<close>

section \<open>The driver's globals\<close>

record event_desc =
  ed_sample_size :: u32
  pebs_offset :: u32
  pebs_size :: u32
  lbr_offset :: u32
  lbr_num_regs :: u32
  latency_offset_in_sample :: u32
  latency_size_in_sample :: u32
  latency_size_from_pebs_record :: u32
  latency_offset_in_pebs_record :: u32
  power_offset_in_sample :: u32
  ebc_offset :: u32
  uncore_ebc_offset :: u32
  eventing_ip_offset :: u32
  hle_offset :: u32
  gfx_offset :: u32
  pwr_offset :: u32

text \<open>
  \<open>pcfg_set\<close> and \<open>ec_set\<close>: the pointers \<open>pcfg\<close> and \<open>global_ec\<close> are not NULL; the structures they
  point to are fields of \<open>hw\<close>. A CPU's timer is absent (NULL), initialised, or armed with a
  delay. \<open>gdt_base\<close> and \<open>gdt_limit\<close> describe the segment table.
\<close>

record session =
  un :: unc_state
  pcfg_set :: bool
  ec_set :: bool
  disp :: "dispatch_name option"
  cur_device :: u32
  desc_data :: "event_desc option list"
  desc_count :: nat
  em_groups_count :: nat
  cpu_mask_bits :: "u8 list option"
  outp :: output_state
  in_finish_code :: bool
  control_pid :: nat
  cpumon :: cpumon_state
  in_interrupt :: "nat \<Rightarrow> u32"
  os_hooks :: bool
  em_timer :: "nat \<Rightarrow> u64 option option"
  num_packages :: u32
  tsc_info :: "u64 list"
  cpu0_tsc :: u64
  cr4 :: "nat \<Rightarrow> u64"
  gdt_base :: u64
  gdt_limit :: u16

abbreviation drv_of :: "session \<Rightarrow> drv" where "drv_of z \<equiv> hw (un z)"

abbreviation phase_of :: "session \<Rightarrow> phase" where
  "phase_of z \<equiv> current_phase (driver_state (drv_of z))"

definition on_drv :: "(drv \<Rightarrow> drv option) \<Rightarrow> session \<Rightarrow> session option" where
  "on_drv f z = do { u \<leftarrow> on_hw f (un z); Some (z\<lparr>un := u\<rparr>) }"

definition upd_drv :: "(drv \<Rightarrow> drv) \<Rightarrow> session \<Rightarrow> session" where
  "upd_drv f z = z\<lparr>un := (un z)\<lparr>hw := f (drv_of z)\<rparr>\<rparr>"

definition set_phase :: "phase \<Rightarrow> session \<Rightarrow> session" where
  "set_phase ph = upd_drv (\<lambda>s. s\<lparr>driver_state := (driver_state s)\<lparr>current_phase := ph\<rparr>\<rparr>)"

lemma drv_of_upd_drv [simp]: "drv_of (upd_drv f z) = f (drv_of z)"
  by (simp add: upd_drv_def)

lemma upd_drv_frame [simp]:
  "pcfg_set (upd_drv f z) = pcfg_set z" "ec_set (upd_drv f z) = ec_set z" "disp (upd_drv f z) = disp z"
  "outp (upd_drv f z) = outp z" "desc_data (upd_drv f z) = desc_data z" "cpumon (upd_drv f z) = cpumon z"
  "in_interrupt (upd_drv f z) = in_interrupt z" "devices (un (upd_drv f z)) = devices (un z)"
  "num_devices (un (upd_drv f z)) = num_devices (un z)" "in_finish_code (upd_drv f z) = in_finish_code z"
  "cpu_mask_bits (upd_drv f z) = cpu_mask_bits z"
  by (simp_all add: upd_drv_def)

text \<open>A routine of the dispatch table: no table, or a NULL entry, is a fault.\<close>

definition call_op :: "(disp_table \<Rightarrow> disp_op option) \<Rightarrow> (u64 \<Rightarrow> u64) \<Rightarrow> dispatch_name option \<Rightarrow> disp_op" where
  "call_op sel remap d param cpu u = do { n \<leftarrow> d; f \<leftarrow> sel (table_of remap n); f param cpu u }"

section \<open>Words in the sample buffers\<close>

text \<open>Accesses to a buffer, at an offset from a place in it.\<close>

definition get_bytes :: "nat \<times> nat \<Rightarrow> nat \<Rightarrow> nat \<Rightarrow> outbuf_node \<Rightarrow> u8 list option" where
  "get_bytes loc off n o1 = do { b \<leftarrow> list_at (buffer o1) (fst loc); bs \<leftarrow> b;
     if snd loc + off + n \<le> length bs then Some (take n (drop (snd loc + off) bs)) else None }"

definition get_le :: "nat \<Rightarrow> nat \<times> nat \<Rightarrow> nat \<Rightarrow> outbuf_node \<Rightarrow> u64 option" where
  "get_le n loc off o1 = do { bs \<leftarrow> get_bytes loc off n o1; Some (of_le bs) }"

definition put_le :: "nat \<Rightarrow> nat \<times> nat \<Rightarrow> nat \<Rightarrow> u64 \<Rightarrow> outbuf_node \<Rightarrow> outbuf_node option" where
  "put_le n loc off v o1 = put_bytes (fst loc, snd loc + off) (le_bytes n v) o1"

text \<open>A bit field of width \<open>w\<close> from bit \<open>lo\<close> of a stored word.\<close>

definition put_bits :: "nat \<Rightarrow> nat \<times> nat \<Rightarrow> nat \<Rightarrow> nat \<Rightarrow> nat \<Rightarrow> u64 \<Rightarrow> outbuf_node \<Rightarrow> outbuf_node option" where
  "put_bits n loc off lo w v o1 = do { x \<leftarrow> get_le n loc off o1;
     put_le n loc off ((x AND NOT (push_bit lo (mask w))) OR push_bit lo (take_bit w v)) o1 }"

definition get_bits :: "nat \<Rightarrow> nat \<times> nat \<Rightarrow> nat \<Rightarrow> nat \<Rightarrow> nat \<Rightarrow> outbuf_node \<Rightarrow> u64 option" where
  "get_bits n loc off lo w o1 = do { x \<leftarrow> get_le n loc off o1; Some (take_bit w (drop_bit lo x)) }"

text \<open>The 64-bit words from a place to the end of its buffer, and storing them back.\<close>

fun words_of :: "nat \<Rightarrow> u8 list \<Rightarrow> u64 list" where
  "words_of 0 bs = []"
| "words_of (Suc n) bs = of_le (take 8 bs) # words_of n (drop 8 bs)"

definition get_words :: "nat \<times> nat \<Rightarrow> nat \<Rightarrow> outbuf_node \<Rightarrow> u64 list option" where
  "get_words loc off o1 = do { b \<leftarrow> list_at (buffer o1) (fst loc); bs \<leftarrow> b;
     Some (words_of ((length bs - (snd loc + off)) div 8) (drop (snd loc + off) bs)) }"

definition put_words :: "nat \<times> nat \<Rightarrow> nat \<Rightarrow> u64 list \<Rightarrow> outbuf_node \<Rightarrow> outbuf_node option" where
  "put_words loc off ws o1 = put_bytes (fst loc, snd loc + off) (concat (map (le_bytes 8) ws)) o1"

end
