(* ===== verification/Pmi.thy ===== *)
theory Pmi
  imports Globals
begin

text \<open>
  The 64-bit performance-interrupt handler of pmi.c: it stops the counters, finds the events that
  overflowed, writes one sample record per event into the CPU's buffer, and starts the counters
  again. With \<open>PEBS_Fill_Buffer\<close> of pebs.c, which copies the hardware's record into the sample.
\<close>

section \<open>The sample record\<close>

text \<open>Where the fields of \<open>SampleRecordPC\<close> lie; \<open>eip\<close>, \<open>eflags\<close> and \<open>csd\<close> share the words of \<open>iip\<close>
  and \<open>ipsr\<close>.\<close>

definition rec_descriptor_id :: nat where "rec_descriptor_id = 0"
definition rec_iip :: nat where "rec_iip = 8"
definition rec_eip :: nat where "rec_eip = 8"
definition rec_eflags :: nat where "rec_eflags = 12"
definition rec_ipsr :: nat where "rec_ipsr = 16"
definition rec_csd_low :: nat where "rec_csd_low = 16"
definition rec_csd_high :: nat where "rec_csd_high = 20"
definition rec_cs :: nat where "rec_cs = 24"
definition rec_cpu_and_os :: nat where "rec_cpu_and_os = 26"
definition rec_tid :: nat where "rec_tid = 28"
definition rec_pid :: nat where "rec_pid = 32"
definition rec_bits2 :: nat where "rec_bits2 = 36"
definition rec_tsc :: nat where "rec_tsc = 40"

lemmas rec_defs = rec_descriptor_id_def rec_iip_def rec_eip_def rec_eflags_def rec_ipsr_def
  rec_csd_low_def rec_csd_high_def rec_cs_def rec_cpu_and_os_def rec_tid_def rec_pid_def
  rec_bits2_def rec_tsc_def

record pt_regs =
  r_cs :: u64
  r_rip :: u64
  r_eflags :: u64

text \<open>What interrupted: registers, process, thread and time stamp.\<close>

record pmi_context =
  regs :: pt_regs
  cur_pid :: u32
  cur_tid :: u32
  cur_tsc :: u64

definition IS_LDT_BIT :: u32 where "IS_LDT_BIT = 0x4"
definition SEGMENT_SHIFT :: nat where "SEGMENT_SHIFT = 3"

text \<open>The two words stored for the segment descriptor; \<open>None\<close> when the call stores nothing.\<close>

definition pmi_Get_CSD :: "u32 \<Rightarrow> session \<Rightarrow> bool \<times> (u32 \<times> u32) option" where
  "pmi_Get_CSD seg z =
     (let gdt_max_addr = gdt_base z + ucast (gdt_limit z) in
      if seg AND IS_LDT_BIT \<noteq> 0 then (False, Some (0, 0))
      else let csd = gdt_base z + 8 * ucast (drop_bit SEGMENT_SHIFT seg) in
           if csd \<ge> gdt_max_addr then (False, None)
           else let d = mem_rd csd (drv_of z) in (True, Some (ucast d, ucast (drop_bit 32 d))))"

text \<open>The header of a record; the flag tells whether the interrupted code was 64-bit code.\<close>

definition pmi_ip :: "pt_regs \<Rightarrow> nat \<times> nat \<Rightarrow> outbuf_node \<Rightarrow> (bool \<times> outbuf_node) option" where
  "pmi_ip r loc o1 = do {
     high \<leftarrow> get_le 4 loc rec_csd_high o1;
     let is_64bit_addr = bit high 21;
     let dpl = take_bit 2 (drop_bit 13 high);
     o1 \<leftarrow> (if is_64bit_addr
       then do { o1 \<leftarrow> put_le 8 loc rec_iip (r_rip r) o1;
                 o1 \<leftarrow> put_le 8 loc rec_ipsr ((r_eflags r AND 0xFFFFFFFF) OR push_bit 32 dpl) o1;
                 put_bits 4 loc rec_bits2 29 1 1 o1 }
       else do { o1 \<leftarrow> put_le 4 loc rec_eip (r_rip r) o1;
                 o1 \<leftarrow> put_le 4 loc rec_eflags (r_eflags r) o1;
                 put_bits 4 loc rec_bits2 29 1 0 o1 });
     Some (is_64bit_addr, o1) }"

definition pmi_header :: "nat \<Rightarrow> pmi_context \<Rightarrow> u8 \<Rightarrow> (u32 \<times> u32) option \<Rightarrow> nat \<times> nat
    \<Rightarrow> outbuf_node \<Rightarrow> (bool \<times> outbuf_node) option" where
  "pmi_header cpu c ev csd loc o1 = do {
     o1 \<leftarrow> put_le 8 loc rec_descriptor_id (ucast ev) o1;
     o1 \<leftarrow> put_le 8 loc rec_tsc (cur_tsc c) o1;
     o1 \<leftarrow> put_bits 4 loc rec_bits2 30 1 1 o1;
     o1 \<leftarrow> put_le 4 loc rec_pid (ucast (cur_pid c)) o1;
     o1 \<leftarrow> put_le 4 loc rec_tid (ucast (cur_tid c)) o1;
     o1 \<leftarrow> put_bits 2 loc rec_cpu_and_os 0 12 (of_nat cpu) o1;
     o1 \<leftarrow> put_le 2 loc rec_cs (r_cs (regs c)) o1;
     o1 \<leftarrow> (case csd of None \<Rightarrow> Some o1 | Some (lo, hi) \<Rightarrow> do {
             o1 \<leftarrow> put_le 4 loc rec_csd_low (ucast lo) o1; put_le 4 loc rec_csd_high (ucast hi) o1 });
     (is64, o1) \<leftarrow> pmi_ip (regs c) loc o1;
     o1 \<leftarrow> put_bits 4 loc rec_bits2 20 8 (ucast ev) o1;
     Some (is64, o1) }"

section \<open>The sections after the header\<close>

definition mem_bytes :: "u64 \<Rightarrow> nat \<Rightarrow> drv \<Rightarrow> u8 list" where
  "mem_bytes a n s = take n (concat (map (\<lambda>k. le_bytes 8 (mem_rd (a + 8 * of_nat k) s)) [0 ..< n div 8 + 1]))"

definition PEBS_hle_info :: u64 where "PEBS_hle_info = 0xB8"
definition sizeof_DEAR_INFO_NODE :: nat where "sizeof_DEAR_INFO_NODE = 40"

definition when_set :: "u32 \<Rightarrow> (nat \<Rightarrow> 's \<Rightarrow> 's option) \<Rightarrow> 's \<Rightarrow> 's option" where
  "when_set off f s = (if off \<noteq> 0 then f (unat off) s else Some s)"

text \<open>
  The memory-access information is assembled in a local structure of 40 bytes, whose node id
  (bytes 24 to 31) becomes 0xFFFF; copying more than that into it is a fault.
\<close>

definition PEBS_Fill_Buffer :: "nat \<Rightarrow> event_desc \<Rightarrow> drv \<Rightarrow> nat \<times> nat \<Rightarrow> outbuf_node \<Rightarrow> outbuf_node option" where
  "PEBS_Fill_Buffer cpu ed s loc o1 = do { pcpu \<leftarrow> pcb s cpu;
     let dtes = dts_buffer pcpu;
     if dtes = 0 then Some o1 else
     let pb = mem_rd (dtes + DTS_pebs_base) s in
     if pb = mem_rd (dtes + DTS_pebs_index) s then Some o1
     else do {
       o1 \<leftarrow> when_set (pebs_offset ed)
              (\<lambda>off. put_bytes (fst loc, snd loc + off) (mem_bytes pb (unat (pebs_size ed)) s)) o1;
       o1 \<leftarrow> when_set (eventing_ip_offset ed) (\<lambda>off. put_le 8 loc off (mem_rd (pb + PEBS_eventing_ip) s)) o1;
       o1 \<leftarrow> when_set (hle_offset ed) (\<lambda>off. put_le 8 loc off (mem_rd (pb + PEBS_hle_info) s)) o1;
       when_set (latency_offset_in_sample ed) (\<lambda>off o1.
         let n = unat (latency_size_from_pebs_record ed) in
         if n > sizeof_DEAR_INFO_NODE then None
         else let dear = mem_bytes (pb + ucast (latency_offset_in_pebs_record ed)) n s
                         @ replicate (sizeof_DEAR_INFO_NODE - n) 0
              in put_bytes (fst loc, snd loc + off) (take 24 dear @ le_bytes 8 0xFFFF @ drop 32 dear) o1) o1 } }"

definition pmi_precise :: "nat \<Rightarrow> event_desc \<Rightarrow> bool \<Rightarrow> drv \<Rightarrow> nat \<times> nat \<Rightarrow> outbuf_node \<Rightarrow> outbuf_node option" where
  "pmi_precise cpu ed is64 s loc o1 = do {
     o1 \<leftarrow> (if pebs_offset ed \<noteq> 0 \<or> latency_offset_in_sample ed \<noteq> 0
            then PEBS_Fill_Buffer cpu ed s loc o1 else Some o1);
     iip \<leftarrow> get_le 8 loc rec_iip o1;
     ipsr \<leftarrow> get_le 8 loc rec_ipsr o1;
     p \<leftarrow> PEBS_Modify_IP cpu \<lparr>u1_iip = iip, u1_ipsr = ipsr\<rparr> is64 s;
     o1 \<leftarrow> put_le 8 loc rec_iip (u1_iip p) o1;
     put_le 8 loc rec_ipsr (u1_ipsr p) o1 }"

text \<open>
  One event of an uncore unit: the difference to the last reading, with the wrap of the counter
  made up for, is added to the CPU's sum, and the sum replaces the reading in the sample.
\<close>

definition unc_diff :: "u64 \<Rightarrow> u64 \<Rightarrow> u64 \<Rightarrow> u64" where
  "unc_diff cmask prev cur = (if cur < prev then cmask - prev + cur else cur - prev)"

definition unc_accumulate :: "nat \<Rightarrow> nat \<Rightarrow> nat \<times> nat \<Rightarrow> nat \<Rightarrow> nat \<Rightarrow> outbuf_node \<times> unc_state
    \<Rightarrow> (outbuf_node \<times> unc_state) option" where
  "unc_accumulate cpu i loc roff k = (\<lambda>(o1, u). do {
     r \<leftarrow> get_le 8 loc (roff + 8 * k) o1;
     d \<leftarrow> list_at (devices u) i;
     prow \<leftarrow> list_at (prev_val_per_thread d) cpu; p \<leftarrow> list_at prow k;
     arow \<leftarrow> list_at (acc_per_thread d) cpu; a \<leftarrow> list_at arow k;
     let a = a + unc_diff (counter_mask d) p r;
     u \<leftarrow> upd_device i (\<lambda>d. d\<lparr>acc_per_thread := (acc_per_thread d)[cpu := arow[k := a]],
                              prev_val_per_thread := (prev_val_per_thread d)[cpu := prow[k := r]]\<rparr>) u;
     o1 \<leftarrow> put_le 8 loc (roff + 8 * k) a o1;
     Some (o1, u) })"

definition pmi_device :: "(u64 \<Rightarrow> u64) \<Rightarrow> nat \<Rightarrow> nat \<times> nat \<Rightarrow> nat \<Rightarrow> outbuf_node \<times> unc_state
    \<Rightarrow> (outbuf_node \<times> unc_state) option" where
  "pmi_device remap cpu loc i = (\<lambda>(o1, u). do { d \<leftarrow> list_at (devices u) i;
     case pcfg_unc d of None \<Rightarrow> Some (o1, u)
     | Some cfg \<Rightarrow> if \<not> event_based_counts cfg then Some (o1, u) else do {
         n \<leftarrow> dispatch_unc d; rc \<leftarrow> t_read_counts (table_of remap n);
         let roff = unat (results_offset cfg);
         ws \<leftarrow> get_words loc roff o1;
         (ws, u) \<leftarrow> rc cpu i ws u;
         o1 \<leftarrow> put_words loc roff ws o1;
         o1 \<leftarrow> put_bits 2 loc rec_cpu_and_os 15 1 1 o1;
         d \<leftarrow> list_at (devices u) i;
         foldm (unc_accumulate cpu i loc roff) [1 ..< unat (unc_num_events d + 1)] (o1, u) } })"

section \<open>One overflowed event\<close>

text \<open>Without space in the buffer the event is dropped.\<close>

definition pmi_sections :: "(u64 \<Rightarrow> u64) \<Rightarrow> dispatch_name \<Rightarrow> nat \<Rightarrow> event_mask \<Rightarrow> event_desc \<Rightarrow> bool
    \<Rightarrow> nat \<times> nat \<Rightarrow> outbuf_node \<times> unc_state \<Rightarrow> (outbuf_node \<times> unc_state) option" where
  "pmi_sections remap dn cpu m ed is64 loc = (\<lambda>(o1, u). do {
     let cfg = pcfg (hw u);
     let t = table_of remap dn;
     o1 \<leftarrow> (if bit (snd m) 0 then pmi_precise cpu ed is64 (hw u) loc o1 else Some o1);
     o1 \<leftarrow> (if collect_lbrs cfg \<and> bit (snd m) 1
            then do { f \<leftarrow> t_read_lbrs t; put_words loc (unat (lbr_offset ed)) (f cpu (hw u)) o1 } else Some o1);
     o1 \<leftarrow> (if power_capture cfg
            then do { f \<leftarrow> t_read_power t; put_words loc (unat (power_offset_in_sample ed)) (f cpu (hw u)) o1 }
            else Some o1);
     (o1, u) \<leftarrow> (if event_based_counts cfg
            then do { f \<leftarrow> t_read_counts t; ws \<leftarrow> get_words loc (unat (ebc_offset ed)) o1;
                      (ws, u) \<leftarrow> f cpu (unat (fst m)) ws u;
                      o1 \<leftarrow> put_words loc (unat (ebc_offset ed)) ws o1; Some (o1, u) }
            else Some (o1, u));
     foldm (pmi_device remap cpu loc) [0 ..< unat (num_devices u)] (o1, u) })"

definition pmi_record :: "(u64 \<Rightarrow> u64) \<Rightarrow> dispatch_name \<Rightarrow> nat \<Rightarrow> pmi_context \<Rightarrow> event_mask \<Rightarrow> session \<Rightarrow> session option" where
  "pmi_record remap dn cpu c m z = do {
     q \<leftarrow> list_at (desc_data z) (unat (fst m)); ed \<leftarrow> q;
     o1 \<leftarrow> list_at (cpu_buf (outp z)) cpu;
     (loc, o1, _) \<leftarrow> OUTPUT_Reserve_Buffer_Space (ed_sample_size ed) o1;
     let put = (\<lambda>o1 z. z\<lparr>outp := (outp z)\<lparr>cpu_buf := (cpu_buf (outp z))[cpu := o1]\<rparr>\<rparr>);
     case loc of None \<Rightarrow> Some (put o1 z)
     | Some loc \<Rightarrow> do {
         s \<leftarrow> set_pcpu (num_samples_update (\<lambda>n. n + 1)) cpu (drv_of z);
         let z = upd_drv (\<lambda>_. s) z;
         (is64, o1) \<leftarrow> pmi_header cpu c (fst m) (snd (pmi_Get_CSD (ucast (ucast (r_cs (regs c)) :: u16)) z)) loc o1;
         (o1, u) \<leftarrow> pmi_sections remap dn cpu m ed is64 loc (o1, un z);
         Some (put o1 (z\<lparr>un := u\<rparr>)) } }"

section \<open>The handler\<close>

definition pmi_samples :: "(u64 \<Rightarrow> u64) \<Rightarrow> dispatch_name \<Rightarrow> nat \<Rightarrow> pmi_context \<Rightarrow> event_mask list \<Rightarrow> session \<Rightarrow> session option" where
  "pmi_samples remap dn cpu c masks z = do { p \<leftarrow> pcb (drv_of z) cpu;
     if phase_of z = RUNNING \<and> accept_interrupt p \<noteq> 0
     then if \<not> pcfg_set z then None
       else if target_pid (pcfg (drv_of z)) > 0 \<and> ucast (cur_pid c) \<noteq> target_pid (pcfg (drv_of z)) then Some z
       else foldm (pmi_record remap dn cpu c) masks z
     else Some z }"

definition PMI_Interrupt_Handler :: "(u64 \<Rightarrow> u64) \<Rightarrow> nat \<Rightarrow> pmi_context \<Rightarrow> session \<Rightarrow> session option" where
  "PMI_Interrupt_Handler remap cpu c z = do {
     u \<leftarrow> call_op t_freeze remap (disp z) None cpu (un z);
     let z = z\<lparr>un := u, in_interrupt := (in_interrupt z)(cpu := in_interrupt z cpu + 1)\<rparr>;
     dn \<leftarrow> disp z; chk \<leftarrow> t_check_overflow (table_of remap dn);
     (s, masks) \<leftarrow> chk cpu (drv_of z);
     z \<leftarrow> pmi_samples remap dn cpu c masks (upd_drv (\<lambda>_. s) z);
     z \<leftarrow> (if \<not> pcfg_set z then None
           else if pebs_mode (pcfg (drv_of z)) \<noteq> 0 then on_drv (PEBS_Reset_Index cpu) z else Some z);
     z \<leftarrow> on_drv (APIC_Ack_Eoi cpu) z;
     p \<leftarrow> pcb (drv_of z) cpu;
     z \<leftarrow> (if trigger_count p = 0 then do { f \<leftarrow> t_swap_group (table_of remap dn); on_drv (f cpu) z } else Some z);
     u \<leftarrow> call_op t_restart remap (disp z) None cpu (un z);
     Some (z\<lparr>un := u, in_interrupt := (in_interrupt z)(cpu := 0)\<rparr>) }"

end
