(* ===== verification/Pmi_Correct.thy ===== *)
theory Pmi_Correct
  imports Pmi Output_Correct Instances
begin

text \<open>
  What the interrupt handler delivers: one record per event that finds room, appended to the
  CPU's byte stream, whose fields read back as what was interrupted; no record outside a
  running session; and what the uncore sums count.
\<close>

section \<open>Regions of a buffer\<close>

text \<open>Reading and writing \<open>n\<close> bytes at offset \<open>k\<close> of a byte list.\<close>

definition rd_at :: "nat \<Rightarrow> nat \<Rightarrow> u8 list \<Rightarrow> u64" where
  "rd_at n k R = of_le (take n (drop k R))"

definition wr_at :: "nat \<Rightarrow> u8 list \<Rightarrow> u8 list \<Rightarrow> u8 list" where
  "wr_at k bs R = take k R @ bs @ drop (k + length bs) R"

lemma length_wr_at [simp]: "k + length bs \<le> length R \<Longrightarrow> length (wr_at k bs R) = length R"
  by (simp add: wr_at_def)

lemma rd_wr_same [simp]:
  "n \<le> 8 \<Longrightarrow> k + n \<le> length R \<Longrightarrow> rd_at n k (wr_at k (le_bytes n v) R) = take_bit (8 * n) v"
  by (simp add: rd_at_def wr_at_def of_le_bytes)

lemma rd_wr_other [simp]:
  assumes "k + length bs \<le> length R" "j + m \<le> k \<or> k + length bs \<le> j"
  shows "rd_at m j (wr_at k bs R) = rd_at m j R"
  using assms(2)
proof
  assume *: "j + m \<le> k"
  with assms(1) have "take m (drop j (wr_at k bs R)) = take m (drop j R)"
    by (simp add: wr_at_def drop_take)
  then show ?thesis by (simp add: rd_at_def)
next
  assume "k + length bs \<le> j"
  with assms(1) have "drop j (wr_at k bs R) = drop j R" by (simp add: wr_at_def)
  then show ?thesis by (simp add: rd_at_def)
qed

lemma drop_wr_at: "k + length bs \<le> j \<Longrightarrow> k + length bs \<le> length R \<Longrightarrow> drop j (wr_at k bs R) = drop j R"
  by (simp add: wr_at_def)

text \<open>A buffer whose part from \<open>length A\<close> on is \<open>R\<close>.\<close>

definition region :: "nat \<Rightarrow> u8 list \<Rightarrow> u8 list \<Rightarrow> u8 list \<Rightarrow> outbuf_node \<Rightarrow> outbuf_node" where
  "region b A C R o1 = o1\<lparr>buffer := (buffer o1)[b := Some (A @ R @ C)]\<rparr>"

lemma region_put_le:
  assumes "b < length (buffer o1)" "k + n \<le> length R"
  shows "put_le n (b, length A) k v (region b A C R o1) = Some (region b A C (wr_at k (le_bytes n v) R) o1)"
  using assms by (simp add: put_le_def put_bytes_def region_def wr_at_def write_bytes_def)

lemma region_get_le:
  assumes "b < length (buffer o1)" "k + n \<le> length R"
  shows "get_le n (b, length A) k (region b A C R o1) = Some (rd_at n k R)"
  using assms by (simp add: get_le_def get_bytes_def region_def rd_at_def)

definition wr_bits :: "nat \<Rightarrow> nat \<Rightarrow> nat \<Rightarrow> nat \<Rightarrow> u64 \<Rightarrow> u8 list \<Rightarrow> u8 list" where
  "wr_bits n k lo w v R = wr_at k (le_bytes n ((rd_at n k R AND NOT (push_bit lo (mask w))) OR push_bit lo (take_bit w v))) R"

lemma region_put_bits:
  assumes "b < length (buffer o1)" "k + n \<le> length R"
  shows "put_bits n (b, length A) k lo w v (region b A C R o1) = Some (region b A C (wr_bits n k lo w v R) o1)"
  using assms by (simp add: put_bits_def region_get_le region_put_le wr_bits_def)

lemma wr_bits_simps [simp]:
  "k + n \<le> length R \<Longrightarrow> length (wr_bits n k lo w v R) = length R"
  "k + n \<le> length R \<Longrightarrow> j + m \<le> k \<or> k + n \<le> j \<Longrightarrow> rd_at m j (wr_bits n k lo w v R) = rd_at m j R"
  "k + n \<le> j \<Longrightarrow> k + n \<le> length R \<Longrightarrow> drop j (wr_bits n k lo w v R) = drop j R"
  by (simp_all add: wr_bits_def drop_wr_at)

lemma rd_wr_bits_same:
  assumes "n \<le> 8" "k + n \<le> length R"
  shows "rd_at n k (wr_bits n k lo w v R) =
    take_bit (8 * n) ((rd_at n k R AND NOT (push_bit lo (mask w))) OR push_bit lo (take_bit w v))"
  using assms by (simp add: wr_bits_def)

text \<open>A field is what was last written to it, and other fields are kept.\<close>

lemma bit_wr_bits:
  assumes "n \<le> 8" "k + n \<le> length R" "j < 8 * n"
  shows "bit (rd_at n k (wr_bits n k lo w v R)) j =
    (if lo \<le> j \<and> j < lo + w then bit v (j - lo) else bit (rd_at n k R) j)"
  using assms by (auto simp: rd_wr_bits_same bit_simps)

section \<open>The header\<close>

text \<open>What \<open>pmi_header\<close> makes of the bytes of a record.\<close>

definition hdr_base :: "nat \<Rightarrow> pmi_context \<Rightarrow> u8 \<Rightarrow> u8 list \<Rightarrow> u8 list" where
  "hdr_base cpu c ev R = wr_at rec_cs (le_bytes 2 (r_cs (regs c)))
     (wr_bits 2 rec_cpu_and_os 0 12 (of_nat cpu)
       (wr_at rec_tid (le_bytes 4 (ucast (cur_tid c)))
         (wr_at rec_pid (le_bytes 4 (ucast (cur_pid c)))
           (wr_bits 4 rec_bits2 30 1 1
             (wr_at rec_tsc (le_bytes 8 (cur_tsc c)) (wr_at rec_descriptor_id (le_bytes 8 (ucast ev)) R))))))"

definition hdr_csd :: "(u32 \<times> u32) option \<Rightarrow> u8 list \<Rightarrow> u8 list" where
  "hdr_csd csd R = (case csd of None \<Rightarrow> R
     | Some (lo, hi) \<Rightarrow> wr_at rec_csd_high (le_bytes 4 (ucast hi)) (wr_at rec_csd_low (le_bytes 4 (ucast lo)) R))"

definition hdr_ip :: "pt_regs \<Rightarrow> u8 list \<Rightarrow> u8 list" where
  "hdr_ip r R = (let high = rd_at 4 rec_csd_high R in
     if bit high 21
     then wr_bits 4 rec_bits2 29 1 1 (wr_at rec_ipsr (le_bytes 8 ((r_eflags r AND 0xFFFFFFFF) OR
            push_bit 32 (take_bit 2 (drop_bit 13 high)))) (wr_at rec_iip (le_bytes 8 (r_rip r)) R))
     else wr_bits 4 rec_bits2 29 1 0 (wr_at rec_eflags (le_bytes 4 (r_eflags r)) (wr_at rec_eip (le_bytes 4 (r_rip r)) R)))"

definition hdr_bytes :: "nat \<Rightarrow> pmi_context \<Rightarrow> u8 \<Rightarrow> (u32 \<times> u32) option \<Rightarrow> u8 list \<Rightarrow> u8 list" where
  "hdr_bytes cpu c ev csd R = wr_bits 4 rec_bits2 20 8 (ucast ev) (hdr_ip (regs c) (hdr_csd csd (hdr_base cpu c ev R)))"

lemma hdr_lengths [simp]:
  assumes "48 \<le> length R"
  shows "length (hdr_base cpu c ev R) = length R" "length (hdr_csd csd R) = length R" "length (hdr_ip r R) = length R"
  using assms by (simp_all add: hdr_base_def hdr_csd_def hdr_ip_def rec_defs Let_def split: option.splits)

lemma region_header:
  assumes "b < length (buffer o1)" "48 \<le> length R"
  shows "pmi_header cpu c ev csd (b, length A) (region b A C R o1) =
    Some (bit (rd_at 4 rec_csd_high (hdr_csd csd (hdr_base cpu c ev R))) 21, region b A C (hdr_bytes cpu c ev csd R) o1)"
proof -
  have ip: "pmi_ip (regs c) (b, length A) (region b A C Q o1) =
      Some (bit (rd_at 4 rec_csd_high Q) 21, region b A C (hdr_ip (regs c) Q) o1)" if "48 \<le> length Q" for Q
    using assms(1) that by (simp add: pmi_ip_def hdr_ip_def region_get_le region_put_le region_put_bits rec_defs Let_def)
  note step = region_put_le[OF assms(1)] region_put_bits[OF assms(1)] region_get_le[OF assms(1)]
  show ?thesis
    unfolding pmi_header_def hdr_bytes_def hdr_base_def hdr_csd_def
    using assms(2) by (cases csd) (auto simp: step ip[unfolded rec_defs] rec_defs)
qed

text \<open>Each part leaves the fields of the others alone.\<close>

lemma hdr_ip_keep:
  assumes "48 \<le> length R" "j + m \<le> 8 \<or> 24 \<le> j \<and> j + m \<le> 36 \<or> 40 \<le> j"
  shows "rd_at m j (hdr_ip r R) = rd_at m j R"
  using assms(2)
  by (elim disjE conjE; unfold hdr_ip_def Let_def rec_defs; split if_split; use assms(1) in simp)

lemma hdr_csd_keep:
  assumes "48 \<le> length R" "j + m \<le> 16 \<or> 24 \<le> j"
  shows "rd_at m j (hdr_csd csd R) = rd_at m j R"
  using assms(2) by (elim disjE; use assms(1) in \<open>auto simp: hdr_csd_def rec_defs split: option.splits\<close>)

lemma hdr_drop:
  assumes "48 \<le> length R"
  shows "drop 48 (hdr_ip r R) = drop 48 R" "drop 48 (hdr_csd csd R) = drop 48 R" "drop 48 (hdr_base cpu c ev R) = drop 48 R"
proof -
  show "drop 48 (hdr_ip r R) = drop 48 R"
    unfolding hdr_ip_def Let_def rec_defs by (split if_split) (use assms in \<open>simp add: drop_wr_at\<close>)
  show "drop 48 (hdr_csd csd R) = drop 48 R"
    using assms by (auto simp: hdr_csd_def rec_defs drop_wr_at split: option.splits)
  show "drop 48 (hdr_base cpu c ev R) = drop 48 R"
    using assms by (simp add: hdr_base_def rec_defs drop_wr_at)
qed

lemma take_bit_32_ucast [simp]: "take_bit 32 (ucast (x :: u32)) = (ucast x :: u64)"
  by (rule bit_word_eqI) (auto simp: bit_simps dest: bit_imp_le_length)

text \<open>The fields read back.\<close>

lemma hdr_fields:
  fixes cpu :: nat and c :: pmi_context and ev :: u8 and csd :: "(u32 \<times> u32) option"
  assumes "48 \<le> length R"
  defines "H \<equiv> hdr_bytes cpu c ev csd R"
  shows "length H = length R" "drop 48 H = drop 48 R"
    "rd_at 8 rec_descriptor_id H = ucast ev"
    "rd_at 8 rec_tsc H = cur_tsc c"
    "rd_at 4 rec_pid H = ucast (cur_pid c)"
    "rd_at 4 rec_tid H = ucast (cur_tid c)"
    "rd_at 2 rec_cs H = take_bit 16 (r_cs (regs c))"
    "j < 12 \<Longrightarrow> bit (rd_at 2 rec_cpu_and_os H) j = bit (of_nat cpu :: u64) j"
    "j < 8 \<Longrightarrow> bit (rd_at 4 rec_bits2 H) (20 + j) = bit ev j"
proof -
  note keep = H_def hdr_bytes_def rec_defs hdr_ip_keep hdr_csd_keep hdr_drop
  note base = hdr_base_def rec_defs take_bit_word_eq_self
  show "length H = length R" using assms(1) by (simp add: keep)
  show "drop 48 H = drop 48 R" using assms(1) by (simp add: keep)
  show "rd_at 8 rec_descriptor_id H = ucast ev" using assms(1) by (simp add: keep) (simp add: base)
  show "rd_at 8 rec_tsc H = cur_tsc c" using assms(1) by (simp add: keep) (simp add: base)
  show "rd_at 4 rec_pid H = ucast (cur_pid c)" using assms(1) by (simp add: keep) (simp add: base)
  show "rd_at 4 rec_tid H = ucast (cur_tid c)" using assms(1) by (simp add: keep) (simp add: base)
  show "rd_at 2 rec_cs H = take_bit 16 (r_cs (regs c))" using assms(1) by (simp add: keep) (simp add: base)
  show "bit (rd_at 2 rec_cpu_and_os H) j = bit (of_nat cpu :: u64) j" if "j < 12"
    using assms(1) that by (simp add: keep) (simp add: base bit_wr_bits)
  show "bit (rd_at 4 rec_bits2 H) (20 + j) = bit ev j" if "j < 8"
    using assms(1) that by (simp add: H_def hdr_bytes_def rec_defs bit_wr_bits bit_simps)
qed








section \<open>One record\<close>

lemma append_at_region:
  assumes "out_ok p" "length bs \<le> unat (remaining_buffer_size p)"
  shows "\<exists>A C q. (\<forall>bs'. length bs' = length bs \<longrightarrow> append_at p bs' = region (current_buffer p) A C bs' q) \<and>
    length A = used p \<and> current_buffer p < length (buffer q)"
proof -
  let ?c = "current_buffer p"
  let ?A = "take (used p) (out_bytes ?c p)"
  let ?C = "drop (used p + length bs) (out_bytes ?c p)"
  let ?q = "p\<lparr>remaining_buffer_size := remaining_buffer_size p - of_nat (length bs)\<rparr>"
  from assms(1) obtain b0 b1 where d: "buffer p = [Some b0, Some b1]"
    "length b0 = unat (total_buffer_size p)" "length b1 = unat (total_buffer_size p)"
    "?c = 0 \<or> ?c = 1" by (auto simp: out_ok_def)
  have "append_at p bs' = region ?c ?A ?C bs' ?q" if "length bs' = length bs" for bs'
    using that by (simp add: append_at_def region_def)
  moreover have "length ?A = used p" using d(4) by (elim disjE; use d(1-3) in \<open>simp add: out_bytes_def used_def\<close>)
  moreover have "?c < length (buffer ?q)" using d(1,4) by auto
  ultimately show ?thesis by blast
qed

text \<open>An event with no section after the header, and no uncore unit that counts per event.\<close>

definition plain_event :: "event_mask \<Rightarrow> unc_state \<Rightarrow> bool" where
  "plain_event m u = (\<not> bit (snd m) 0 \<and> \<not> (collect_lbrs (pcfg (hw u)) \<and> bit (snd m) 1) \<and>
     \<not> power_capture (pcfg (hw u)) \<and> \<not> event_based_counts (pcfg (hw u)) \<and>
     unat (num_devices u) \<le> length (devices u) \<and>
     list_all (\<lambda>d. case pcfg_unc d of None \<Rightarrow> True | Some cfg \<Rightarrow> \<not> event_based_counts cfg) (devices u))"

lemma plain_sections:
  assumes "plain_event m u"
  shows "pmi_sections remap dn cpu m ed is64 loc (o1, u) = Some (o1, u)"
proof -
  have dev: "pmi_device remap cpu loc i (o1, u) = Some (o1, u)" if "i < unat (num_devices u)" for i
  proof -
    have i: "i < length (devices u)" using assms that by (simp add: plain_event_def)
    with assms have "case pcfg_unc (devices u ! i) of None \<Rightarrow> True | Some cfg \<Rightarrow> \<not> event_based_counts cfg"
      by (simp add: plain_event_def list_all_length)
    with i show ?thesis by (simp add: pmi_device_def split: option.splits)
  qed
  have "\<exists>x. foldm (pmi_device remap cpu loc) [0 ..< unat (num_devices u)] (o1, u) = Some x \<and> x = (o1, u)"
    by (rule foldm_rule[where P = "\<lambda>x. x = (o1, u)"]) (use dev in auto)
  then show ?thesis
    using assms by (auto simp: pmi_sections_def plain_event_def Let_def)
qed

definition put_cpu_buf :: "nat \<Rightarrow> outbuf_node \<Rightarrow> session \<Rightarrow> session" where
  "put_cpu_buf cpu o1 z = z\<lparr>outp := (outp z)\<lparr>cpu_buf := (cpu_buf (outp z))[cpu := o1]\<rparr>\<rparr>"

definition count_sample :: "nat \<Rightarrow> session \<Rightarrow> session" where
  "count_sample cpu = upd_drv (\<lambda>s. case pcb s cpu of None \<Rightarrow> s | Some p \<Rightarrow> upd_pcpu cpu (p\<lparr>num_samples := num_samples p + 1\<rparr>) s)"

lemma count_sample_plain [simp]: "plain_event m (un (count_sample cpu z)) = plain_event m (un z)"
  by (simp add: plain_event_def count_sample_def upd_drv_def upd_pcpu_def split: option.splits)

lemma count_sample_frame [simp]:
  "outp (count_sample cpu z) = outp z" "desc_data (count_sample cpu z) = desc_data z"
  "pcfg_set (count_sample cpu z) = pcfg_set z" "disp (count_sample cpu z) = disp z"
  by (simp_all add: count_sample_def)

definition csd_of :: "pmi_context \<Rightarrow> session \<Rightarrow> (u32 \<times> u32) option" where
  "csd_of c z = snd (pmi_Get_CSD (ucast (ucast (r_cs (regs c)) :: u16)) z)"

lemma csd_of_count [simp]: "csd_of c (count_sample cpu z) = csd_of c z"
  by (simp add: csd_of_def pmi_Get_CSD_def count_sample_def upd_drv_def upd_pcpu_def mem_rd_def Let_def split: option.splits)

text \<open>The bytes of a plain record.\<close>

definition record_bytes :: "nat \<Rightarrow> pmi_context \<Rightarrow> u8 \<Rightarrow> (u32 \<times> u32) option \<Rightarrow> nat \<Rightarrow> u8 list" where
  "record_bytes cpu c ev csd n = hdr_bytes cpu c ev csd (replicate n 0)"

lemma header_on_append:
  assumes "out_ok p" "n \<le> unat (remaining_buffer_size p)" "48 \<le> n"
  shows "\<exists>b. pmi_header cpu c ev csd (current_buffer p, used p) (append_at p (replicate n 0)) =
    Some (b, append_at p (record_bytes cpu c ev csd n))"
proof -
  obtain A C q where r: "\<And>bs'. length bs' = n \<Longrightarrow> append_at p bs' = region (current_buffer p) A C bs' q"
    "length A = used p" "current_buffer p < length (buffer q)"
    using append_at_region[OF assms(1), of "replicate n 0"] assms(2) by auto
  have "length (record_bytes cpu c ev csd n) = n"
    using hdr_fields(1)[of "replicate n 0"] assms(3) by (simp add: record_bytes_def)
  then show ?thesis
    using region_header[OF r(3), of "replicate n 0" cpu c ev csd A C] assms(3) r(2)
    by (simp add: r(1) record_bytes_def)
qed

lemma pmi_record_step:
  assumes ok: "out_ok p" "cpu < length (cpu_buf (outp z))" "cpu_buf (outp z) ! cpu = p"
    and ed: "unat (fst m) < length (desc_data z)" "desc_data z ! unat (fst m) = Some ed"
    and sz: "48 \<le> ed_sample_size ed" "ed_sample_size ed \<le> total_buffer_size p"
    and plain: "plain_event m (un z)" and node: "pcb (drv_of z) cpu = Some q"
  shows "pmi_record remap dn cpu c m z = Some (
    if ed_sample_size ed \<le> remaining_buffer_size p
    then put_cpu_buf cpu (append_at p (record_bytes cpu c (fst m) (csd_of c z) (unat (ed_sample_size ed)))) (count_sample cpu z)
    else if buffer_full p ! (1 - current_buffer p) = 0
    then put_cpu_buf cpu (append_at (switched p) (record_bytes cpu c (fst m) (csd_of c z) (unat (ed_sample_size ed)))) (count_sample cpu z)
    else put_cpu_buf cpu (p\<lparr>buffer_full := (buffer_full p)[current_buffer p := total_buffer_size p - remaining_buffer_size p]\<rparr>) z)"
proof -
  let ?n = "unat (ed_sample_size ed)"
  have n: "48 \<le> ?n" using sz(1) by (simp add: word_le_nat_alt)
  have cs: "set_pcpu (num_samples_update (\<lambda>n. n + 1)) cpu (drv_of z) = Some (drv_of (count_sample cpu z))"
  proof -
    have "num_samples_update (\<lambda>n. n + 1) q = q\<lparr>num_samples := num_samples q + 1\<rparr>" by (cases q) simp
    note eq = this
    show ?thesis using node by (simp add: set_pcpu_def count_sample_def eq)
  qed
  have z': "upd_drv (\<lambda>_. drv_of (count_sample cpu z)) z = count_sample cpu z"
    by (simp add: upd_drv_def count_sample_def)
  have pl: "plain_event m (un (count_sample cpu z))" using plain by simp
  have cd: "snd (pmi_Get_CSD (ucast (ucast (r_cs (regs c)) :: u16)) (count_sample cpu z)) = csd_of c z"
    using csd_of_count[of c cpu z] by (simp add: csd_of_def)
  have un: "count_sample cpu z\<lparr>un := un (count_sample cpu z)\<rparr> = count_sample cpu z" by simp
  have buf: "list_at (cpu_buf (outp z)) cpu = Some p" using ok(2,3) by simp
  have fin: "pmi_record remap dn cpu c m z = Some (put_cpu_buf cpu o2 (count_sample cpu z))"
    if r: "OUTPUT_Reserve_Buffer_Space (ed_sample_size ed) p = Some (Some loc, o1, w)"
      and h: "pmi_header cpu c (fst m) (csd_of c z) loc o1 = Some (b, o2)" for loc o1 w b o2
    using ed by (simp add: pmi_record_def buf r cs z' cd h plain_sections[OF pl] put_cpu_buf_def Let_def)
  note R = reserve_eq[OF ok(1) sz(2)]
  show ?thesis
  proof (cases "ed_sample_size ed \<le> remaining_buffer_size p")
    case True
    then have "?n \<le> unat (remaining_buffer_size p)" by (simp add: word_le_nat_alt)
    from header_on_append[OF ok(1) this n] obtain b where h:
      "pmi_header cpu c (fst m) (csd_of c z) (current_buffer p, used p) (append_at p (replicate ?n 0)) =
        Some (b, append_at p (record_bytes cpu c (fst m) (csd_of c z) ?n))" by blast
    have r: "OUTPUT_Reserve_Buffer_Space (ed_sample_size ed) p =
        Some (Some (current_buffer p, used p), append_at p (replicate ?n 0), False)" using True R by simp
    from fin[OF r h] True show ?thesis by simp
  next
    case here: False
    show ?thesis
    proof (cases "buffer_full p ! (1 - current_buffer p) = 0")
      case True
      have sw: "out_ok (switched p)" "used (switched p) = 0" "current_buffer (switched p) = 1 - current_buffer p"
        using switched_ok[OF ok(1) True] by (simp_all add: switched_def)
      have "?n \<le> unat (remaining_buffer_size (switched p))" using sz(2) by (simp add: switched_def word_le_nat_alt)
      from header_on_append[OF sw(1) this n] obtain b where h:
        "pmi_header cpu c (fst m) (csd_of c z) (1 - current_buffer p, 0) (append_at (switched p) (replicate ?n 0)) =
          Some (b, append_at (switched p) (record_bytes cpu c (fst m) (csd_of c z) ?n))"
        unfolding sw(2,3) by blast
      have r: "OUTPUT_Reserve_Buffer_Space (ed_sample_size ed) p =
          Some (Some (1 - current_buffer p, 0), append_at (switched p) (replicate ?n 0), True)" using True here R by simp
      from fin[OF r h] True here show ?thesis by simp
    next
      case False
      with here R ed show ?thesis by (simp add: pmi_record_def buf put_cpu_buf_def Let_def)
    qed
  qed
qed

section \<open>All the events of an interrupt\<close>

definition cpu_pending :: "nat \<Rightarrow> session \<Rightarrow> u8 list" where
  "cpu_pending cpu z = out_pending (cpu_buf (outp z) ! cpu)"

definition samples_of :: "nat \<Rightarrow> session \<Rightarrow> u64" where
  "samples_of cpu z = (case pcb (drv_of z) cpu of None \<Rightarrow> 0 | Some p \<Rightarrow> num_samples p)"

definition size_of :: "session \<Rightarrow> event_mask \<Rightarrow> nat" where
  "size_of z m = (case desc_data z ! unat (fst m) of None \<Rightarrow> 0 | Some ed \<Rightarrow> unat (ed_sample_size ed))"

text \<open>
  The session can take the events: the CPU's buffer is in order, each event has a descriptor whose
  record holds a header and fits a buffer, and the records together fit the current buffer, or
  the other buffer if that is free.
\<close>

definition event_ok :: "session \<Rightarrow> event_mask \<Rightarrow> bool" where
  "event_ok z m = (plain_event m (un z) \<and> unat (fst m) < length (desc_data z) \<and>
     desc_data z ! unat (fst m) \<noteq> None \<and> 48 \<le> size_of z m)"

definition room_for :: "outbuf_node \<Rightarrow> nat \<Rightarrow> bool" where
  "room_for p n = (n \<le> unat (remaining_buffer_size p) \<or>
     buffer_full p ! (1 - current_buffer p) = 0 \<and> n \<le> unat (total_buffer_size p))"

definition samples_ok :: "nat \<Rightarrow> event_mask list \<Rightarrow> session \<Rightarrow> bool" where
  "samples_ok cpu masks z = (cpu < length (cpu_buf (outp z)) \<and> out_ok (cpu_buf (outp z) ! cpu) \<and>
     pcb (drv_of z) cpu \<noteq> None \<and> list_all (event_ok z) masks \<and>
     room_for (cpu_buf (outp z) ! cpu) (sum_list (map (size_of z) masks)))"

definition sample_of :: "nat \<Rightarrow> pmi_context \<Rightarrow> session \<Rightarrow> event_mask \<Rightarrow> u8 list" where
  "sample_of cpu c z m = record_bytes cpu c (fst m) (csd_of c z) (size_of z m)"

lemma put_cpu_buf_frame [simp]:
  "desc_data (put_cpu_buf cpu o1 z) = desc_data z" "un (put_cpu_buf cpu o1 z) = un z"
  "csd_of c (put_cpu_buf cpu o1 z) = csd_of c z" "size_of (put_cpu_buf cpu o1 z) = size_of z"
  "samples_of cpu (put_cpu_buf cpu o1 z) = samples_of cpu z" "event_ok (put_cpu_buf cpu o1 z) = event_ok z"
  "sample_of cpu c (put_cpu_buf cpu o1 z) = sample_of cpu c z"
  by (simp_all add: put_cpu_buf_def csd_of_def pmi_Get_CSD_def size_of_def samples_of_def event_ok_def
      sample_of_def Let_def fun_eq_iff)

lemma count_sample_more [simp]:
  "size_of (count_sample cpu z) = size_of z" "event_ok (count_sample cpu z) = event_ok z"
  "sample_of cpu c (count_sample cpu z) = sample_of cpu c z"
  by (simp_all add: size_of_def event_ok_def sample_of_def fun_eq_iff)

lemma put_cpu_buf_get [simp]:
  "cpu < length (cpu_buf (outp z)) \<Longrightarrow> cpu_buf (outp (put_cpu_buf cpu o1 z)) ! cpu = o1"
  "length (cpu_buf (outp (put_cpu_buf cpu o1 z))) = length (cpu_buf (outp z))"
  "d \<noteq> cpu \<Longrightarrow> cpu_buf (outp (put_cpu_buf cpu o1 z)) ! d = cpu_buf (outp z) ! d"
  by (simp_all add: put_cpu_buf_def)

lemma samples_of_count:
  "pcb (drv_of z) cpu \<noteq> None \<Longrightarrow> samples_of cpu (count_sample cpu z) = samples_of cpu z + 1"
  "pcb (drv_of z) cpu \<noteq> None \<Longrightarrow> pcb (drv_of (count_sample cpu z)) cpu \<noteq> None"
  by (auto simp: samples_of_def count_sample_def)

lemma length_record_bytes: "48 \<le> n \<Longrightarrow> length (record_bytes cpu c ev csd n) = n"
  using hdr_fields(1)[of "replicate n 0"] by (simp add: record_bytes_def)

lemma append_at_full: "buffer_full (append_at p bs) = buffer_full p" "current_buffer (append_at p bs) = current_buffer p"
  by (simp_all add: append_at_def)

text \<open>One event of several: its record is appended and the rest still fits.\<close>

lemma sample_step:
  assumes "samples_ok cpu (m # ms) z"
  shows "\<exists>z'. pmi_record remap dn cpu c m z = Some z' \<and> samples_ok cpu ms z' \<and>
    cpu_pending cpu z' = cpu_pending cpu z @ sample_of cpu c z m \<and> samples_of cpu z' = samples_of cpu z + 1 \<and>
    sample_of cpu c z' = sample_of cpu c z \<and>
    (\<forall>d. d \<noteq> cpu \<longrightarrow> cpu_buf (outp z') ! d = cpu_buf (outp z) ! d)"
proof -
  let ?p = "cpu_buf (outp z) ! cpu" and ?n = "size_of z m" and ?r = "sum_list (map (size_of z) ms)"
  from assms have ok: "cpu < length (cpu_buf (outp z))" "out_ok ?p" "event_ok z m" "list_all (event_ok z) ms"
    "room_for ?p (?n + ?r)" and node: "pcb (drv_of z) cpu \<noteq> None" by (simp_all add: samples_ok_def)
  from ok(3) obtain ed where ed: "unat (fst m) < length (desc_data z)" "desc_data z ! unat (fst m) = Some ed"
    "plain_event m (un z)" "unat (ed_sample_size ed) = ?n" "48 \<le> ?n"
    by (auto simp: event_ok_def size_of_def)
  have le: "unat (remaining_buffer_size ?p) \<le> unat (total_buffer_size ?p)"
    using ok(2) by (auto simp: out_ok_def word_le_nat_alt)
  have nt: "?n \<le> unat (total_buffer_size ?p)" using ok(5) le by (auto simp: room_for_def)
  have sz: "48 \<le> ed_sample_size ed" "ed_sample_size ed \<le> total_buffer_size ?p"
    using ed(4,5) nt by (simp_all add: word_le_nat_alt)
  obtain q where q: "pcb (drv_of z) cpu = Some q" using node by blast
  have len: "length (sample_of cpu c z m) = ?n" by (simp add: sample_of_def length_record_bytes ed(5))
  note R = pmi_record_step[OF ok(2) ok(1) refl ed(1,2) sz ed(3) q, of remap dn c, folded ed(4)]
  have fin: "\<exists>z'. pmi_record remap dn cpu c m z = Some z' \<and> samples_ok cpu ms z' \<and>
      cpu_pending cpu z' = cpu_pending cpu z @ sample_of cpu c z m \<and> samples_of cpu z' = samples_of cpu z + 1 \<and>
      sample_of cpu c z' = sample_of cpu c z \<and> (\<forall>d. d \<noteq> cpu \<longrightarrow> cpu_buf (outp z') ! d = cpu_buf (outp z) ! d)"
    if r: "pmi_record remap dn cpu c m z = Some (put_cpu_buf cpu o1 (count_sample cpu z))"
      and o1: "out_ok o1" "out_pending o1 = out_pending ?p @ sample_of cpu c z m" "room_for o1 ?r" for o1
  proof (intro exI conjI, rule r)
    show "samples_ok cpu ms (put_cpu_buf cpu o1 (count_sample cpu z))"
      using ok(1,4) o1 node samples_of_count(2)[OF node] by (simp add: samples_ok_def)
  qed (use ok(1) o1(2) samples_of_count(1)[OF node] in \<open>simp_all add: cpu_pending_def\<close>)
  show ?thesis
  proof (cases "ed_sample_size ed \<le> remaining_buffer_size ?p")
    case True
    then have nr: "?n \<le> unat (remaining_buffer_size ?p)" using ed(4) by (simp add: word_le_nat_alt)
    let ?o = "append_at ?p (sample_of cpu c z m)"
    have "unat (remaining_buffer_size ?o) = unat (remaining_buffer_size ?p) - ?n"
      using unat_sub_len[of "sample_of cpu c z m" "remaining_buffer_size ?p"] nr len by (simp add: append_at_def)
    then have "room_for ?o ?r"
      using ok(5) by (auto simp: room_for_def append_at_full append_at_ok(3)[OF ok(2), of "sample_of cpu c z m"] nr len)
    with append_at_ok(1,2)[OF ok(2), of "sample_of cpu c z m"] nr len show ?thesis
      by (intro fin) (use R True in \<open>simp_all add: sample_of_def ed(4)\<close>)
  next
    case False
    then have nr: "\<not> ?n \<le> unat (remaining_buffer_size ?p)" using ed(4) by (simp add: word_le_nat_alt)
    with ok(5) have free: "buffer_full ?p ! (1 - current_buffer ?p) = 0" "?n + ?r \<le> unat (total_buffer_size ?p)"
      by (auto simp: room_for_def)
    note sw = switched_ok[OF ok(2) free(1)]
    let ?o = "append_at (switched ?p) (sample_of cpu c z m)"
    have rem: "remaining_buffer_size (switched ?p) = total_buffer_size ?p" by (simp add: switched_def)
    have "unat (remaining_buffer_size ?o) = unat (total_buffer_size ?p) - ?n"
      using unat_sub_len[of "sample_of cpu c z m" "total_buffer_size ?p"] nt len by (simp add: append_at_def rem)
    then have "room_for ?o ?r" using free(2) by (auto simp: room_for_def)
    with append_at_ok(1,2)[OF sw(1), of "sample_of cpu c z m"] nt len sw(2) show ?thesis
      by (intro fin) (use R False free(1) in \<open>simp_all add: sample_of_def rem ed(4)\<close>)
  qed
qed

lemma samples_run:
  assumes "samples_ok cpu masks z"
  shows "\<exists>z'. foldm (pmi_record remap dn cpu c) masks z = Some z' \<and>
    cpu_pending cpu z' = cpu_pending cpu z @ concat (map (sample_of cpu c z) masks) \<and>
    samples_of cpu z' = samples_of cpu z + of_nat (length masks) \<and>
    (\<forall>d. d \<noteq> cpu \<longrightarrow> cpu_buf (outp z') ! d = cpu_buf (outp z) ! d)"
  using assms
proof (induction masks arbitrary: z)
  case (Cons m ms)
  from sample_step[OF Cons.prems, of remap dn c] obtain z1 where
    z1: "pmi_record remap dn cpu c m z = Some z1" "samples_ok cpu ms z1"
    "cpu_pending cpu z1 = cpu_pending cpu z @ sample_of cpu c z m" "samples_of cpu z1 = samples_of cpu z + 1"
    "sample_of cpu c z1 = sample_of cpu c z" "\<forall>d. d \<noteq> cpu \<longrightarrow> cpu_buf (outp z1) ! d = cpu_buf (outp z) ! d"
    by blast
  from Cons.IH[OF z1(2)] z1 show ?case by (auto simp: algebra_simps)
qed simp

section \<open>Counts of the uncore units\<close>

definition acc_row :: "nat \<Rightarrow> nat \<Rightarrow> unc_state \<Rightarrow> u64 list" where
  "acc_row i cpu u = acc_per_thread (devices u ! i) ! cpu"
definition prev_row :: "nat \<Rightarrow> nat \<Rightarrow> unc_state \<Rightarrow> u64 list" where
  "prev_row i cpu u = prev_val_per_thread (devices u ! i) ! cpu"

text \<open>The unit's arrays have a row for the CPU with at least \<open>n\<close> entries.\<close>

definition rows_ok :: "nat \<Rightarrow> nat \<Rightarrow> nat \<Rightarrow> unc_state \<Rightarrow> bool" where
  "rows_ok n i cpu u = (i < length (devices u) \<and> cpu < length (acc_per_thread (devices u ! i)) \<and>
     cpu < length (prev_val_per_thread (devices u ! i)) \<and> n \<le> length (acc_row i cpu u) \<and> n \<le> length (prev_row i cpu u))"

lemma accumulate_step:
  assumes "rows_ok n i cpu u" "k < n" "b < length (buffer o1)" "roff + 8 * k + 8 \<le> length R"
  shows "\<exists>u'. unc_accumulate cpu i (b, length A) roff k (region b A C R o1, u) =
      Some (region b A C (wr_at (roff + 8 * k) (le_bytes 8 (acc_row i cpu u' ! k)) R) o1, u') \<and>
    rows_ok n i cpu u' \<and> counter_mask (devices u' ! i) = counter_mask (devices u ! i) \<and>
    acc_row i cpu u' = (acc_row i cpu u)[k := acc_row i cpu u ! k +
      unc_diff (counter_mask (devices u ! i)) (prev_row i cpu u ! k) (rd_at 8 (roff + 8 * k) R)] \<and>
    prev_row i cpu u' = (prev_row i cpu u)[k := rd_at 8 (roff + 8 * k) R]"
  using assms
  by (simp add: unc_accumulate_def region_get_le region_put_le upd_device_def rows_ok_def acc_row_def prev_row_def
      Let_def)

text \<open>Event \<open>k\<close> has been summed up, or is as it was.\<close>

definition acc_done :: "nat \<Rightarrow> nat \<Rightarrow> nat \<Rightarrow> unc_state \<Rightarrow> u8 list \<Rightarrow> unc_state \<Rightarrow> u8 list \<Rightarrow> nat \<Rightarrow> bool" where
  "acc_done i cpu roff u R u' R' k =
     (acc_row i cpu u' ! k = acc_row i cpu u ! k +
        unc_diff (counter_mask (devices u ! i)) (prev_row i cpu u ! k) (rd_at 8 (roff + 8 * k) R) \<and>
      prev_row i cpu u' ! k = rd_at 8 (roff + 8 * k) R \<and> rd_at 8 (roff + 8 * k) R' = acc_row i cpu u' ! k)"

definition acc_kept :: "nat \<Rightarrow> nat \<Rightarrow> nat \<Rightarrow> unc_state \<Rightarrow> u8 list \<Rightarrow> unc_state \<Rightarrow> u8 list \<Rightarrow> nat \<Rightarrow> bool" where
  "acc_kept i cpu roff u R u' R' k =
     (acc_row i cpu u' ! k = acc_row i cpu u ! k \<and> prev_row i cpu u' ! k = prev_row i cpu u ! k \<and>
      rd_at 8 (roff + 8 * k) R' = rd_at 8 (roff + 8 * k) R)"

text \<open>The readings become sums, in the loop of \<open>pmi_device\<close> over the events \<open>1\<close> to \<open>n\<close>.\<close>

lemma accumulate_loop:
  assumes "rows_ok (n + 1) i cpu u" "b < length (buffer o1)" "roff + 8 * (n + 1) \<le> length R"
  shows "\<exists>u' R'. foldm (unc_accumulate cpu i (b, length A) roff) [1 ..< n + 1] (region b A C R o1, u) =
      Some (region b A C R' o1, u') \<and> length R' = length R \<and> rows_ok (n + 1) i cpu u' \<and>
    (\<forall>k. 1 \<le> k \<and> k \<le> n \<longrightarrow> acc_done i cpu roff u R u' R' k)"
proof -
  let ?P = "\<lambda>pre x. \<exists>R' u'. x = (region b A C R' o1, u') \<and> length R' = length R \<and> rows_ok (n + 1) i cpu u' \<and>
    counter_mask (devices u' ! i) = counter_mask (devices u ! i) \<and>
    (\<forall>k \<in> set pre. acc_done i cpu roff u R u' R' k) \<and>
    (\<forall>k. k \<le> n \<and> k \<notin> set pre \<longrightarrow> acc_kept i cpu roff u R u' R' k)"
  have "\<exists>x. foldm (unc_accumulate cpu i (b, length A) roff) [1 ..< n + 1] (region b A C R o1, u) = Some x \<and>
      ?P [1 ..< n + 1] x"
  proof (rule foldm_prefix_rule[where P = ?P])
    show "?P [] (region b A C R o1, u)" using assms(1) by (auto simp: acc_kept_def)
  next
    fix pre k x
    assume P: "?P pre x" and k: "k \<in> set [1 ..< n + 1]" and post: "\<exists>post. [1 ..< n + 1] = pre @ k # post"
    from P obtain R1 u1 where x: "x = (region b A C R1 o1, u1)" "length R1 = length R" "rows_ok (n + 1) i cpu u1"
      "counter_mask (devices u1 ! i) = counter_mask (devices u ! i)"
      and done1: "\<forall>k \<in> set pre. acc_done i cpu roff u R u1 R1 k"
      and kept1: "\<forall>k. k \<le> n \<and> k \<notin> set pre \<longrightarrow> acc_kept i cpu roff u R u1 R1 k" by blast
    have notin: "k \<notin> set pre" using post by (metis distinct.simps(2) distinct_append distinct_upt not_distinct_conv_prefix)
    have kn: "k < n + 1" "roff + 8 * k + 8 \<le> length R1" using k assms(3) x(2) by auto
    from accumulate_step[OF x(3) kn(1) assms(2) kn(2), of A C] obtain u2 where
      u2: "unc_accumulate cpu i (b, length A) roff k (region b A C R1 o1, u1) =
        Some (region b A C (wr_at (roff + 8 * k) (le_bytes 8 (acc_row i cpu u2 ! k)) R1) o1, u2)"
      "rows_ok (n + 1) i cpu u2" "counter_mask (devices u2 ! i) = counter_mask (devices u1 ! i)"
      "acc_row i cpu u2 = (acc_row i cpu u1)[k := acc_row i cpu u1 ! k +
        unc_diff (counter_mask (devices u1 ! i)) (prev_row i cpu u1 ! k) (rd_at 8 (roff + 8 * k) R1)]"
      "prev_row i cpu u2 = (prev_row i cpu u1)[k := rd_at 8 (roff + 8 * k) R1]" by blast
    let ?R2 = "wr_at (roff + 8 * k) (le_bytes 8 (acc_row i cpu u2 ! k)) R1"
    have len: "k < length (acc_row i cpu u1)" "k < length (prev_row i cpu u1)" using x(3) kn(1) by (auto simp: rows_ok_def)
    have other: "rd_at 8 (roff + 8 * j) ?R2 = rd_at 8 (roff + 8 * j) R1" if "j \<noteq> k" for j
    proof -
      from that have "roff + 8 * j + 8 \<le> roff + 8 * k \<or> roff + 8 * k + 8 \<le> roff + 8 * j" by linarith
      then show ?thesis using kn(2) by (intro rd_wr_other) auto
    qed
    have same: "rd_at 8 (roff + 8 * k) ?R2 = acc_row i cpu u2 ! k"
      using kn(2) by (simp add: take_bit_word_eq_self)
    have "acc_kept i cpu roff u R u1 R1 k" using kept1 notin kn(1) by simp
    then have "acc_done i cpu roff u R u2 ?R2 k"
      using len same x(4) by (simp add: acc_done_def acc_kept_def u2(4,5))
    moreover have "acc_done i cpu roff u R u2 ?R2 j" if "acc_done i cpu roff u R u1 R1 j" "j \<noteq> k" for j
      using that other[OF that(2)] by (simp add: acc_done_def u2(4,5))
    moreover have "acc_kept i cpu roff u R u2 ?R2 j" if "acc_kept i cpu roff u R u1 R1 j" "j \<noteq> k" for j
      using that other[OF that(2)] by (simp add: acc_kept_def u2(4,5))
    moreover have "length ?R2 = length R" using kn(2) x(2) by simp
    ultimately have "?P (pre @ [k]) (region b A C ?R2 o1, u2)"
      using u2(2,3) x(4) done1 kept1 notin by (intro exI[of _ ?R2] exI[of _ u2]) (metis Un_iff empty_iff insert_iff list.set(1) list.simps(15) set_append)
    with u2(1) x(1) show "\<exists>y. unc_accumulate cpu i (b, length A) roff k x = Some y \<and> ?P (pre @ [k]) y"
      by blast
  qed
  then obtain R' u' where r: "foldm (unc_accumulate cpu i (b, length A) roff) [1 ..< n + 1] (region b A C R o1, u) =
      Some (region b A C R' o1, u')" "length R' = length R" "rows_ok (n + 1) i cpu u'"
    "\<forall>k \<in> set [1 ..< n + 1]. acc_done i cpu roff u R u' R' k" by blast
  have "acc_done i cpu roff u R u' R' k" if "1 \<le> k \<and> k \<le> n" for k
    by (rule bspec[OF r(4)]) (use that in auto)
  with r(1-3) show ?thesis by blast
qed

text \<open>The difference of two readings of a \<open>w\<close>-bit counter.\<close>

lemma unc_diff_wrap:
  assumes "w < 64" "p < 2 ^ w" "d < 2 ^ w"
  shows "unc_diff (mask w) (of_nat p) (of_nat ((p + d) mod 2 ^ w)) = (of_nat (d - (p + d) div 2 ^ w) :: u64)"
proof -
  have big: "(2::nat) ^ w < 2 ^ 64" using assms(1) by (simp only: power_strict_increasing_iff)
  have un: "unat (of_nat x :: u64) = x" if "x < 2 ^ w" for x
    using that big by (simp add: unat_of_nat take_bit_nat_eq_self)
  let ?q = "(p + d) mod 2 ^ w"
  have q: "?q < 2 ^ w" by simp
  have m: "(mask w :: u64) = of_nat (2 ^ w - 1)" by (simp add: mask_eq_exp_minus_1 of_nat_diff)
  show ?thesis
  proof (cases "p + d < 2 ^ w")
    case True
    then have "\<not> (of_nat ?q :: u64) < of_nat p" using un[of "p + d"] un[OF assms(2)] by (simp add: word_less_nat_alt)
    with True show ?thesis by (simp add: unc_diff_def)
  next
    case False
    then have eq: "p + d - 2 ^ w < 2 ^ w" "?q = p + d - 2 ^ w" "(p + d) div 2 ^ w = 1"
      using assms(2,3) by (simp_all add: mod_if div_nat_eqI)
    have lt: "(of_nat ?q :: u64) < of_nat p"
      using False assms(2,3) un[OF q] un[OF assms(2)] eq(2) by (simp add: word_less_nat_alt)
    have "(mask w :: u64) - of_nat p + of_nat ?q = of_nat (2 ^ w - 1 - p + ?q)"
      using assms(2) by (simp add: m of_nat_diff)
    also have "2 ^ w - 1 - p + ?q = d - 1" using False assms(2,3) eq(2) by simp
    finally show ?thesis using lt eq(3) by (simp add: unc_diff_def)
  qed
qed

section \<open>The driver's state in the handler\<close>

lemma FOR_EACH_inv:
  assumes "\<And>e s s'. Q s \<Longrightarrow> body e s = Some s' \<Longrightarrow> Q s'" "Q s"
  shows "FOR_EACH_DATA_REG cpu d body s = Some t \<Longrightarrow> Q t" "FOR_EACH_CCCR_REG cpu d body s = Some t \<Longrightarrow> Q t"
proof -
  have *: "for_each st n skip body p s = Some t \<Longrightarrow> Q t" for st n skip p
    unfolding for_each_def
    by (erule foldm_inv[where P = Q]) (use assms in \<open>auto simp: bind_eq_Some_conv split: if_splits\<close>)
  show "FOR_EACH_DATA_REG cpu d body s = Some t \<Longrightarrow> Q t" "FOR_EACH_CCCR_REG cpu d body s = Some t \<Longrightarrow> Q t"
    using * by (auto simp: FOR_EACH_defs bind_eq_Some_conv)
qed

text \<open>Freezing the counters and looking for overflows leave the session's state alone.\<close>

lemma disable_state:
  "core2_Disable_PMU cpu s = Some t \<Longrightarrow> driver_state t = driver_state s"
  "silvermont_Disable_PMU cpu s = Some t \<Longrightarrow> driver_state t = driver_state s"
proof -
  have apic: "APIC_Disable_PMI cpu s = Some t \<Longrightarrow> driver_state t = driver_state s" for s t
    by (auto simp: APIC_Disable_PMI_def bind_eq_Some_conv split: if_splits)
  show "driver_state t = driver_state s" if d: "core2_Disable_PMU cpu s = Some t"
  proof (cases "current_phase (driver_state s) = RUNNING")
    case False
    let ?s0 = "if pebs_mode (pcfg s) \<noteq> 0 then wr cpu IA32_PEBS_ENABLE 0 (wr cpu IA32_PERF_GLOBAL_CTRL 0 s)
               else wr cpu IA32_PERF_GLOBAL_CTRL 0 s"
    from d False obtain s1 where s1: "FOR_EACH_CCCR_REG cpu ?s0 (\<lambda>e s. Some (if is_compound_ctr_bit_set e
        then wr cpu COMPOUND_CTR_CTL 0 s else s)) ?s0 = Some s1" "APIC_Disable_PMI cpu s1 = Some t"
      by (auto simp: core2_Disable_PMU_def bind_eq_Some_conv Let_def split: if_splits)
    have "driver_state s1 = driver_state s"
      by (rule FOR_EACH_inv(2)[OF _ _ s1(1), where Q = "\<lambda>x. driver_state x = driver_state s"]) (auto split: if_splits)
    with apic[OF s1(2)] show ?thesis by simp
  qed (use d in \<open>simp add: core2_Disable_PMU_def\<close>)
  show "silvermont_Disable_PMU cpu s = Some t \<Longrightarrow> driver_state t = driver_state s"
    by (auto simp: silvermont_Disable_PMU_def Let_def dest: apic split: if_splits)
qed

lemma record_overflow_state:
  "record_overflow w cpu e (s, ms) = Some (t, ms') \<Longrightarrow> driver_state t = driver_state s"
  by (auto simp: record_overflow_def bind_eq_Some_conv Let_def split: if_splits)

lemma check_overflow_state:
  "core2_Check_Overflow ce ge cpu s = Some (t, ms) \<Longrightarrow> driver_state t = driver_state s"
  "core2_Check_Overflow_Htoff_Mode ge cpu s = Some (t, ms) \<Longrightarrow> driver_state t = driver_state s"
  "silvermont_Check_Overflow ce ge cpu s = Some (t, ms) \<Longrightarrow> driver_state t = driver_state s"
proof -
  let ?s0 = "s\<lparr>sample_count := (sample_count s)(cpu := 0)\<rparr>" and ?Q = "\<lambda>x. driver_state (fst (snd x)) = driver_state s"
  have fin: "finish_overflow cpu c x = Some y \<Longrightarrow> driver_state y = driver_state x" for c x y
    by (auto simp: finish_overflow_def bind_eq_Some_conv Let_def)
  have loop: "driver_state t = driver_state s"
    if r: "FOR_EACH_DATA_REG cpu ?s0 body (st, ?s0, []) = Some (a, x, ms)" "finish_overflow cpu c x = Some t"
      and body: "\<And>e x y. ?Q x \<Longrightarrow> body e x = Some y \<Longrightarrow> ?Q y" for st body a x c
    using FOR_EACH_inv(1)[where Q = ?Q, OF body _ r(1)] fin[OF r(2)] by simp
  show "core2_Check_Overflow ce ge cpu s = Some (t, ms) \<Longrightarrow> driver_state t = driver_state s"
    by (auto simp: core2_Check_Overflow_def bind_eq_Some_conv Let_def elim!: loop)
      (auto simp: core2_Check_Overflow_body_def bind_eq_Some_conv Let_def dest!: record_overflow_state
        split: option.splits if_splits)
  show "core2_Check_Overflow_Htoff_Mode ge cpu s = Some (t, ms) \<Longrightarrow> driver_state t = driver_state s"
    by (auto simp: core2_Check_Overflow_Htoff_Mode_def bind_eq_Some_conv Let_def elim!: loop)
      (auto simp: core2_Check_Overflow_Htoff_body_def bind_eq_Some_conv dest!: record_overflow_state
        split: option.splits if_splits)
  show "silvermont_Check_Overflow ce ge cpu s = Some (t, ms) \<Longrightarrow> driver_state t = driver_state s"
    by (auto simp: silvermont_Check_Overflow_def bind_eq_Some_conv Let_def elim!: loop)
      (auto simp: silvermont_Check_Overflow_body_def bind_eq_Some_conv Let_def dest!: record_overflow_state
        split: option.splits if_splits)
qed

lemma table_state:
  "call_op t_freeze remap (Some n) prm cpu u = Some u' \<Longrightarrow> driver_state (hw u') = driver_state (hw u)"
  "t_check_overflow (table_of remap n) = Some f \<Longrightarrow> f cpu s = Some (t, ms) \<Longrightarrow> driver_state t = driver_state s"
proof -
  note tables = call_op_def core_table_def unc_table_def core_op_def cpu_op_def on_hw_def
    core2_dispatch_def corei7_dispatch_def corei7_dispatch_2_def corei7_dispatch_htoff_mode_def
    corei7_dispatch_htoff_mode_2_def silvermont_dispatch_def corei7_unc_Disable_PMU_def
    snbunc_cbo_Disable_PMU_def haswellunc_ncu_Disable_PMU_def snbunc_imc_Disable_PMU_def
  show "call_op t_freeze remap (Some n) prm cpu u = Some u' \<Longrightarrow> driver_state (hw u') = driver_state (hw u)"
    by (cases n) (auto simp: tables bind_eq_Some_conv dest: disable_state split: if_splits)
  show "t_check_overflow (table_of remap n) = Some f \<Longrightarrow> f cpu s = Some (t, ms) \<Longrightarrow> driver_state t = driver_state s"
    by (cases n) (auto simp: tables dest: check_overflow_state)
qed

lemma on_drv_frame: "on_drv f z = Some z' \<Longrightarrow> outp z' = outp z \<and> disp z' = disp z"
  by (auto simp: on_drv_def on_hw_def bind_eq_Some_conv)

section \<open>Properties\<close>

text \<open>
  C3: the samples of an interrupt. In a running session, on a CPU that accepts interrupts and for
  a process that is not filtered out, when the records of the overflowed events fit (see
  \<open>samples_ok\<close>) and have no section after the header: the handler's sampling part returns, the
  CPU's byte stream has grown by exactly one record per event, in order, the CPU's sample count by
  their number, and the buffers of the other CPUs are untouched.
\<close>

theorem PMI_samples_appended:
  assumes "samples_ok cpu masks z" "phase_of z = RUNNING" "pcfg_set z"
    "pcb (drv_of z) cpu = Some p" "accept_interrupt p \<noteq> 0"
    "target_pid (pcfg (drv_of z)) = 0 \<or> target_pid (pcfg (drv_of z)) = ucast (cur_pid c)"
  shows "\<exists>z'. pmi_samples remap dn cpu c masks z = Some z' \<and>
    cpu_pending cpu z' = cpu_pending cpu z @
      concat (map (\<lambda>m. record_bytes cpu c (fst m) (csd_of c z) (size_of z m)) masks) \<and>
    samples_of cpu z' = samples_of cpu z + of_nat (length masks) \<and>
    (\<forall>d. d \<noteq> cpu \<longrightarrow> cpu_buf (outp z') ! d = cpu_buf (outp z) ! d)"
  using samples_run[OF assms(1), of remap dn c] assms(2-6)
  by (auto simp: pmi_samples_def sample_of_def[abs_def])


text \<open>A session on one CPU with two buffers of 128 bytes and records of 64 bytes.\<close>

definition demo_desc :: event_desc where
  "demo_desc = \<lparr>ed_sample_size = 64, pebs_offset = 0, pebs_size = 0, lbr_offset = 0, lbr_num_regs = 0,
     latency_offset_in_sample = 0, latency_size_in_sample = 0, latency_size_from_pebs_record = 0,
     latency_offset_in_pebs_record = 0, power_offset_in_sample = 0, ebc_offset = 0, uncore_ebc_offset = 0,
     eventing_ip_offset = 0, hle_offset = 0, gfx_offset = 0, pwr_offset = 0\<rparr>"

definition demo_buf :: outbuf_node where
  "demo_buf = \<lparr>remaining_buffer_size = 128, current_buffer = 0, total_buffer_size = 128,
     buffer_full = [0, 0], buffer = [Some (replicate 128 0), Some (replicate 128 0)]\<rparr>"

definition demo_session :: "phase \<Rightarrow> session" where
  "demo_session ph = \<lparr>un = \<lparr>hw = (demo IA32_PMC0)\<lparr>PMU_register_data := [Some (mk_ecb [] [] 3)],
       pcb := [0 \<mapsto> demo_cpu\<lparr>accept_interrupt := 1, trigger_count := 5\<rparr>],
       driver_state := (driver_state drv0)\<lparr>current_phase := ph\<rparr>\<rparr>,
       devices = [], num_devices = 0, invoking_processor_id = 0, imc_address = 0, imc_mapped = False,
       mmio = \<lambda>_. 0, read_unc_ctr_info = []\<rparr>,
     pcfg_set = True, ec_set = True, disp = Some Core2_dispatch, cur_device = 0,
     desc_data = [Some demo_desc, Some demo_desc], desc_count = 2, em_groups_count = 1, cpu_mask_bits = None,
     outp = \<lparr>cpu_buf = [demo_buf], module_buf = None, flush = False, flush_writers = 0, abnormal_terminate = False\<rparr>,
     in_finish_code = False, control_pid = 1, cpumon = demo_hooks, in_interrupt = \<lambda>_. 0, os_hooks = True,
     em_timer = \<lambda>_. None, num_packages = 1, tsc_info = [0], cpu0_tsc = 0, cr4 = (\<lambda>_. 0), gdt_base = 0x1000, gdt_limit = 0xFF\<rparr>"

definition demo_context :: pmi_context where
  "demo_context = \<lparr>regs = \<lparr>r_cs = 0x33, r_rip = 0x400123, r_eflags = 0x246\<rparr>, cur_pid = 7, cur_tid = 8, cur_tsc = 99\<rparr>"

lemma demo_buf_ok: "out_ok demo_buf"
  by (simp add: out_ok_def demo_buf_def)

lemma demo_samples_ok: "samples_ok 0 [(0, 0), (1, 0)] (demo_session RUNNING)"
  by (simp add: samples_ok_def event_ok_def plain_event_def size_of_def room_for_def demo_session_def
      demo_buf_ok demo_defs demo_desc_def) (simp add: demo_buf_def)

theorem PMI_samples_appended_witness:
  "\<exists>z'. pmi_samples (\<lambda>a. a) Core2_dispatch 0 demo_context [(0, 0), (1, 0)] (demo_session RUNNING) = Some z' \<and>
    samples_of 0 z' = 2 \<and> length (cpu_pending 0 z') = 128"
proof -
  obtain z' where z': "pmi_samples (\<lambda>a. a) Core2_dispatch 0 demo_context [(0, 0), (1, 0)] (demo_session RUNNING) = Some z'"
    "cpu_pending 0 z' = cpu_pending 0 (demo_session RUNNING) @ concat (map (\<lambda>m. record_bytes 0 demo_context (fst m)
       (csd_of demo_context (demo_session RUNNING)) (size_of (demo_session RUNNING) m)) [(0, 0), (1, 0)])"
    "samples_of 0 z' = samples_of 0 (demo_session RUNNING) + of_nat (length [(0 :: u8, 0 :: u8), (1, 0)])"
    using PMI_samples_appended[OF demo_samples_ok, of "demo_cpu\<lparr>accept_interrupt := 1, trigger_count := 5\<rparr>"
        demo_context "\<lambda>a. a" Core2_dispatch]
    by (fastforce simp: demo_session_def demo_defs)
  have "length (cpu_pending 0 z') = 128"
    unfolding z'(2)
    by (simp add: length_record_bytes size_of_def) (simp add: cpu_pending_def demo_session_def demo_buf_def
        demo_desc_def out_pending_def used_def out_bytes_def length_record_bytes)
  with z'(1,3) show ?thesis by (simp add: samples_of_def demo_session_def demo_defs)
qed


text \<open>
  No sample outside a running session. If the handler returns while the session is not
  running, whatever dispatch table is in place, no buffer has changed.
\<close>

theorem PMI_no_sample:
  assumes "PMI_Interrupt_Handler remap cpu c z = Some z'" "phase_of z \<noteq> RUNNING"
  shows "outp z' = outp z"
proof -
  from assms(1) obtain n where n: "disp z = Some n"
    by (cases "disp z") (auto simp: PMI_Interrupt_Handler_def call_op_def)
  from assms(1) n obtain u f s ms where u: "call_op t_freeze remap (Some n) None cpu (un z) = Some u"
    "t_check_overflow (table_of remap n) = Some f" "f cpu (hw u) = Some (s, ms)"
    by (auto simp: PMI_Interrupt_Handler_def bind_eq_Some_conv Let_def)
  have ph: "current_phase (driver_state s) \<noteq> RUNNING"
    using table_state(1)[OF u(1)] table_state(2)[OF u(2,3)] assms(2) by simp
  let ?z1 = "upd_drv (\<lambda>_. s) (z\<lparr>un := u, in_interrupt := (in_interrupt z)(cpu := in_interrupt z cpu + 1)\<rparr>)"
  have s: "outp z2 = outp z" if "pmi_samples remap n cpu c ms ?z1 = Some z2" for z2
    using that ph by (auto simp: pmi_samples_def bind_eq_Some_conv)
  show ?thesis
    using assms(1) n u
    by (auto simp: PMI_Interrupt_Handler_def bind_eq_Some_conv Let_def dest!: s on_drv_frame split: if_splits)
qed

lemma demo_handler_returns:
  "\<exists>z'. PMI_Interrupt_Handler (\<lambda>a. a) 0 demo_context (demo_session IDLE) = Some z'"
  by (simp add: PMI_Interrupt_Handler_def call_op_def core_table_def core_op_def on_hw_def core2_dispatch_def
      core2_Disable_PMU_def core2_Check_Overflow_def core2_Enable_PMU_def read_overflow_status_def
      finish_overflow_def pmi_samples_def on_drv_def APIC_Ack_Eoi_def APIC_Disable_PMI_def FOR_EACH_eq
      demo_session_def demo_defs cur_ecb_def cur_ecb_ptr_def Let_def upd_drv_def mk_hdr_def
      is_compound_ctr_bit_set_def EVENT_REG_compound_ctr_bit_def)

theorem PMI_no_sample_witness:
  "\<exists>z'. PMI_Interrupt_Handler (\<lambda>a. a) 0 demo_context (demo_session IDLE) = Some z' \<and>
    outp z' = outp (demo_session IDLE)"
proof -
  from demo_handler_returns obtain z' where
    z': "PMI_Interrupt_Handler (\<lambda>a. a) 0 demo_context (demo_session IDLE) = Some z'" by blast
  moreover have "phase_of (demo_session IDLE) \<noteq> RUNNING" by (simp add: demo_session_def)
  ultimately show ?thesis using PMI_no_sample by blast
qed

text \<open>
  C32: what the uncore sums count. The unit's counters have \<open>w\<close> bits and the mask says so; counter
  \<open>k\<close> stood at \<open>p k\<close> at the last sample and has counted \<open>d k\<close> events since, fewer than \<open>2 ^ w\<close>. Then the
  handler's loop adds \<open>d k\<close> to the CPU's sum, less one if the counter wrapped in between; it stores
  the sum in the sample and the reading for the next time. One event is lost with every wrap.
\<close>

theorem uncore_sums:
  assumes "rows_ok (n + 1) i cpu u" "b < length (buffer o1)" "roff + 8 * (n + 1) \<le> length R"
    and w: "w < 64" "counter_mask (devices u ! i) = mask w"
    and cnt: "\<And>k. 1 \<le> k \<Longrightarrow> k \<le> n \<Longrightarrow> p k < 2 ^ w \<and> d k < 2 ^ w \<and>
      prev_row i cpu u ! k = of_nat (p k) \<and> rd_at 8 (roff + 8 * k) R = of_nat ((p k + d k) mod 2 ^ w)"
  shows "\<exists>u' R'. foldm (unc_accumulate cpu i (b, length A) roff) [1 ..< n + 1] (region b A C R o1, u) =
      Some (region b A C R' o1, u') \<and>
    (\<forall>k. 1 \<le> k \<and> k \<le> n \<longrightarrow>
      acc_row i cpu u' ! k = acc_row i cpu u ! k + of_nat (if p k + d k < 2 ^ w then d k else d k - 1) \<and>
      prev_row i cpu u' ! k = of_nat ((p k + d k) mod 2 ^ w) \<and>
      rd_at 8 (roff + 8 * k) R' = acc_row i cpu u' ! k)"
proof -
  from accumulate_loop[OF assms(1-3), of A C] obtain u' R' where
    r: "foldm (unc_accumulate cpu i (b, length A) roff) [1 ..< n + 1] (region b A C R o1, u) =
      Some (region b A C R' o1, u')" "\<And>k. 1 \<le> k \<and> k \<le> n \<Longrightarrow> acc_done i cpu roff u R u' R' k" by blast
  have "(p k + d k) div 2 ^ w = (if p k + d k < 2 ^ w then 0 else 1)" if "1 \<le> k \<and> k \<le> n" for k
    using cnt[of k] that by (auto intro!: div_nat_eqI)
  then have "unc_diff (mask w) (of_nat (p k)) (of_nat ((p k + d k) mod 2 ^ w)) =
      (of_nat (if p k + d k < 2 ^ w then d k else d k - 1) :: u64)" if "1 \<le> k \<and> k \<le> n" for k
    using unc_diff_wrap[OF w(1), of "p k" "d k"] cnt[of k] that by auto
  then have "acc_row i cpu u' ! k = acc_row i cpu u ! k + of_nat (if p k + d k < 2 ^ w then d k else d k - 1) \<and>
      prev_row i cpu u' ! k = of_nat ((p k + d k) mod 2 ^ w) \<and>
      rd_at 8 (roff + 8 * k) R' = acc_row i cpu u' ! k" if "1 \<le> k \<and> k \<le> n" for k
    using r(2)[OF that] cnt[of k] that w(2) by (simp add: acc_done_def)
  with r(1) show ?thesis by blast
qed

text \<open>A counter of 8 bits that went from 250 over the wrap to 4: ten events, of which nine are counted.\<close>

definition demo_unit :: unc_state where
  "demo_unit = un (demo_session RUNNING)\<lparr>devices := [\<lparr>PMU_register_data_unc = [], dispatch_unc = None,
     em_groups_count_unc = 0, pcfg_unc = None, acc_per_thread = [[0, 100]], prev_val_per_thread = [[0, 250]],
     counter_mask = 0xFF, unc_num_events = 1, num_units = 1\<rparr>]\<rparr>"

theorem uncore_sums_witness:
  "\<exists>u' R'. foldm (unc_accumulate 0 0 (0, 0) 0) [1] (region 0 [] [] (replicate 8 0 @ le_bytes 8 4) demo_out, demo_unit) =
      Some (region 0 [] [] R' demo_out, u') \<and> acc_row 0 0 u' ! 1 = 109"
proof -
  have 1: "rows_ok (1 + 1) 0 0 demo_unit"
    by (simp add: rows_ok_def acc_row_def prev_row_def demo_unit_def)
  have 2: "0 < length (buffer demo_out)" by (simp add: demo_out_def)
  have 3: "0 + 8 * (1 + 1) \<le> length (replicate 8 (0 :: u8) @ le_bytes 8 4)" by simp
  have 4: "counter_mask (devices demo_unit ! 0) = mask 8" by (simp add: demo_unit_def mask_eq_exp_minus_1)
  have 5: "(250 :: nat) < 2 ^ 8 \<and> (10 :: nat) < 2 ^ 8 \<and> prev_row 0 0 demo_unit ! k = of_nat 250 \<and>
      rd_at 8 (0 + 8 * k) (replicate 8 0 @ le_bytes 8 4) = of_nat ((250 + 10) mod 2 ^ 8)" if "1 \<le> k" "k \<le> 1" for k
  proof -
    have "k = 1" using that by simp
    then show ?thesis by (simp add: prev_row_def demo_unit_def rd_at_def)
  qed
  have a: "acc_row 0 0 demo_unit ! 1 = 100" by (simp add: acc_row_def demo_unit_def)
  from uncore_sums[where p = "\<lambda>_. 250" and d = "\<lambda>_. 10" and A = "[]" and C = "[]", OF 1 2 3 _ 4 5] obtain u' R' where
    "foldm (unc_accumulate 0 0 (0, length ([] :: u8 list)) 0) [1 ..< 1 + 1]
      (region 0 [] [] (replicate 8 0 @ le_bytes 8 4) demo_out, demo_unit) = Some (region 0 [] [] R' demo_out, u')"
    "acc_row 0 0 u' ! 1 = acc_row 0 0 demo_unit ! 1 + of_nat (if (250 :: nat) + 10 < 2 ^ 8 then 10 else 10 - 1)"
    by auto
  with a show ?thesis by auto
qed

end
