(* ===== verification/Eventmux.thy ===== *)
theory Eventmux
  imports Globals
begin

text \<open>
  The multiplexing tables and timers of eventmux.c, and what the session operations share: the
  environment an operation runs in, and calls of dispatch-table routines on all CPUs.
\<close>

section \<open>The environment of an operation\<close>

text \<open>
  \<open>me\<close> is the calling CPU; \<open>alloc k\<close> tells whether the operation's \<open>k\<close>-th allocation is met;
  \<open>remap\<close> and \<open>pack\<close> are the kernel's \<open>ioremap_nocache\<close> and \<open>pack_gate\<close>; \<open>pebs_mem\<close> the
  address of the PEBS buffers; \<open>tsc\<close> what each CPU's time-stamp counter reads; \<open>jiffies_of\<close> is
  \<open>msecs_to_jiffies\<close>; \<open>enum_modules\<close> what \<open>LINUXOS_Enum_Process_Modules\<close> answers and adds to the
  buffers; \<open>drain\<close> what the readers do while \<open>OUTPUT_Flush\<close> waits for them.
\<close>

record env =
  me :: nat
  alloc :: allocator
  remap :: "u64 \<Rightarrow> u64"
  pack :: "u64 \<Rightarrow> gate_struct"
  pebs_mem :: u64
  buffer_size :: u32
  caller_pid :: nat
  tsc :: "nat \<Rightarrow> u64"
  jiffies_of :: "32 word \<Rightarrow> u64"
  enum_modules :: "output_state \<Rightarrow> os_status \<times> output_state"
  drain :: "output_state \<Rightarrow> output_state"
  gdt :: "u64 \<times> u16"

definition ncpus :: "session \<Rightarrow> nat" where
  "ncpus z = unat (num_cpus (driver_state (drv_of z)))"

text \<open>A request for no bytes is refused.\<close>

definition allocates :: "env \<Rightarrow> nat \<Rightarrow> nat \<Rightarrow> bool" where
  "allocates e k n = (n \<noteq> 0 \<and> alloc e k)"

definition on_all_cpus :: "env \<Rightarrow> (nat \<Rightarrow> session \<Rightarrow> session option) \<Rightarrow> session \<Rightarrow> session option" where
  "on_all_cpus e f z = CONTROL_Invoke_Parallel (me e) (ncpus z) f z"

definition run_all :: "env \<Rightarrow> (disp_table \<Rightarrow> disp_op option) \<Rightarrow> dispatch_name option \<Rightarrow> nat option
    \<Rightarrow> session \<Rightarrow> session option" where
  "run_all e sel d param z = on_all_cpus e (\<lambda>cpu z. do {
     u \<leftarrow> call_op sel (remap e) d param cpu (un z); Some (z\<lparr>un := u\<rparr>) }) z"

text \<open>A change to every CPU's state node, in a loop over the CPUs.\<close>

definition for_cpus :: "(nat \<Rightarrow> cpu_state \<Rightarrow> cpu_state option) \<Rightarrow> session \<Rightarrow> session option" where
  "for_cpus f z = foldm (\<lambda>i z. do { p \<leftarrow> pcb (drv_of z) i; p \<leftarrow> f i p; Some (upd_drv (upd_pcpu i p) z) })
     [0 ..< ncpus z] z"

section \<open>Tables\<close>

definition sizeof_S64 :: u32 where "sizeof_S64 = 8"

text \<open>
  A CPU's table is a part of one block. Its offset is a product of 32 bits; where the part does not lie in the block of
  \<open>block\<close> bytes, the pointer must not be used, and the model stops.
\<close>

definition eventmux_Allocate_Groups :: "u32 \<Rightarrow> u32 \<Rightarrow> nat \<Rightarrow> session \<Rightarrow> session option" where
  "eventmux_Allocate_Groups block alloc_size cpu z = do { p \<leftarrow> pcb (drv_of z) cpu;
     let offset = alloc_size * of_nat cpu;
     if unat offset + unat alloc_size \<le> unat block
     then Some (upd_drv (upd_pcpu cpu (p\<lparr>em_tables := replicate (unat alloc_size div 8) 0\<rparr>)) z) else None }"

definition eventmux_Deallocate_Groups :: "nat \<Rightarrow> session \<Rightarrow> session option" where
  "eventmux_Deallocate_Groups cpu z = do { p \<leftarrow> pcb (drv_of z) cpu;
     Some (upd_drv (upd_pcpu cpu (p\<lparr>em_tables := []\<rparr>)) z) }"

section \<open>Timers\<close>

definition eventmux_Timer_Callback_Thread :: "(u64 \<Rightarrow> u64) \<Rightarrow> u64 \<Rightarrow> nat \<Rightarrow> session \<Rightarrow> session option" where
  "eventmux_Timer_Callback_Thread rm arg cpu z = do { p \<leftarrow> pcb (drv_of z) cpu;
     if em_tables p = [] then Some z
     else do { n \<leftarrow> disp z; f \<leftarrow> t_swap_group (table_of rm n); z \<leftarrow> on_drv (f cpu) z;
       _ \<leftarrow> em_timer z cpu;
       Some (z\<lparr>em_timer := (em_timer z)(cpu \<mapsto> Some arg)\<rparr>) } }"

text \<open>A timer that cannot be allocated is left NULL, with a message only.\<close>

definition eventmux_Prepare_Timer_Threads :: "env \<Rightarrow> nat \<Rightarrow> nat \<times> session \<Rightarrow> (nat \<times> session) option" where
  "eventmux_Prepare_Timer_Threads e cpu = (\<lambda>(k, z). do { _ \<leftarrow> pcb (drv_of z) cpu;
     Some (k + 1, z\<lparr>em_timer := (em_timer z)(cpu := if alloc e k then Some None else None)\<rparr>) })"

definition eventmux_Cancel_Timers :: "session \<Rightarrow> session option" where
  "eventmux_Cancel_Timers z = foldm (\<lambda>i z. do { _ \<leftarrow> pcb (drv_of z) i; _ \<leftarrow> em_timer z i;
       Some (z\<lparr>em_timer := (em_timer z)(i \<mapsto> None)\<rparr>) })
     [0 ..< unat (active_cpus (driver_state (drv_of z)))] z"

definition eventmux_Start_Timers :: "u64 \<Rightarrow> nat \<Rightarrow> session \<Rightarrow> session option" where
  "eventmux_Start_Timers delay cpu z = do { _ \<leftarrow> pcb (drv_of z) cpu; _ \<leftarrow> em_timer z cpu;
     Some (z\<lparr>em_timer := (em_timer z)(cpu \<mapsto> Some delay)\<rparr>) }"

definition EVENTMUX_Start :: "env \<Rightarrow> session \<Rightarrow> session option" where
  "EVENTMUX_Start e z =
     (if \<not> ec_set z then None
      else let ec = global_ec (drv_of z) in
        if em_mode ec \<noteq> EM_TIMER_BASED \<or> num_groups ec = 1 then Some z
        else on_all_cpus e (eventmux_Start_Timers (jiffies_of e (em_factor ec))) z)"

text \<open>
  The size of a CPU's table and the size of all are computed in 32 bits, the latter as a signed number: a negative one
  asks for more than any allocator has. When the tables cannot be allocated, the code
  stores NULL plus the CPU's offset, an address it must not use; the model stops there.
  \<open>k\<close> is the number of allocations made so far.
\<close>

definition EVENTMUX_Initialize :: "env \<Rightarrow> nat \<Rightarrow> session \<Rightarrow> session option" where
  "EVENTMUX_Initialize e k z = (let ec = global_ec (drv_of z) in
     if em_mode ec = EM_DISABLED \<or> num_groups ec = 1 then Some z
     else do {
       let size_of_vector = num_groups ec * max_gp_events ec * sizeof_S64;
       let em_tables_size = num_cpus (driver_state (drv_of z)) * size_of_vector;
       z \<leftarrow> (if size_of_vector = 0 \<or> 0 < sint em_tables_size \<and> alloc e k
             then on_all_cpus e (eventmux_Allocate_Groups em_tables_size size_of_vector) z else None);
       if em_mode ec = EM_TIMER_BASED
       then do { (_, z) \<leftarrow> CONTROL_Invoke_Parallel (me e) (ncpus z) (eventmux_Prepare_Timer_Threads e) (k + 1, z); Some z }
       else Some z })"

definition EVENTMUX_Destroy :: "env \<Rightarrow> session \<Rightarrow> session option" where
  "EVENTMUX_Destroy e z =
     (if \<not> ec_set z then Some z
      else let ec = global_ec (drv_of z) in
        if em_mode ec = EM_DISABLED \<or> num_groups ec = 1 then Some z
        else do {
          z \<leftarrow> (if em_mode ec = EM_TIMER_BASED then eventmux_Cancel_Timers z else Some z);
          on_all_cpus e eventmux_Deallocate_Groups z })"

end
