(* ===== verification/Session.thy ===== *)
theory Session
  imports Eventmux
begin

text \<open>
  The requests of the sampling driver (lwpmudrv.c): reserving, configuring, starting, pausing,
  resuming, stopping and terminating a session, with the clean-up, one definition per handler, and
  the dispatch of the ioctl commands. A handler's result is its status and the new state; a
  dereferenced NULL pointer, an access past an array, and a loop that waits for something this
  sequential model cannot make happen are faults.
\<close>

section \<open>Arguments from user space\<close>

text \<open>
  A NULL pointer; a buffer \<open>copy_from_user\<close> fails on, with what the destination then holds; or the
  data. Lengths are checked by the callers of \<open>bad_size\<close>.
\<close>

datatype 'a user_buf = Null_Buf | Unreadable 'a | Readable 'a

record 'a user_arg =
  size_ok :: bool
  ubuf :: "'a user_buf"

definition no_arg :: "'a user_arg \<Rightarrow> bool" where
  "no_arg a = (case ubuf a of Null_Buf \<Rightarrow> True | _ \<Rightarrow> False)"

text \<open>What the copy leaves in the destination, and whether it was complete.\<close>

definition copied :: "'a user_buf \<Rightarrow> ('a \<times> bool) option" where
  "copied b = (case b of Null_Buf \<Rightarrow> None | Unreadable x \<Rightarrow> Some (x, False) | Readable x \<Rightarrow> Some (x, True))"

type_synonym result = "(os_status \<times> session) option"

section \<open>Buffers for the work-arounds\<close>

text \<open>
  The rows of the two tables are allocated one by one and not checked; the code faults when it uses
  a row it did not get, the model already here. The count of allocations is threaded through.
\<close>

definition alloc_rows :: "env \<Rightarrow> nat \<Rightarrow> nat \<Rightarrow> bool" where
  "alloc_rows e k n = list_all (alloc e) [k ..< k + n]"

definition lwpmudrv_Allocate_Restore_Buffer :: "env \<Rightarrow> session \<Rightarrow> result" where
  "lwpmudrv_Allocate_Restore_Buffer e z =
     (let n = ncpus z; s = drv_of z; k1 = (if restore_ha_direct2core s = None then n + 1 else 0);
          k2 = k1 + (if restore_qpi_direct2core s = None then n + 1 else 0) in
      if restore_ha_direct2core s = None \<and> \<not> allocates e 0 n then Some (OS_NO_MEM, z)
      else if restore_ha_direct2core s = None \<and> \<not> alloc_rows e 1 n then None
      else let z = (if restore_ha_direct2core s = None
                    then upd_drv (\<lambda>s. s\<lparr>restore_ha_direct2core := Some (\<lambda>_ _. 0)\<rparr>) z else z) in
      if restore_qpi_direct2core s = None \<and> \<not> allocates e k1 n then Some (OS_NO_MEM, z)
      else if restore_qpi_direct2core s = None \<and> \<not> alloc_rows e (k1 + 1) n then None
      else let z = (if restore_qpi_direct2core s = None
                    then upd_drv (\<lambda>s. s\<lparr>restore_qpi_direct2core := Some (\<lambda>_ _. 0)\<rparr>) z else z) in
      if restore_bl_bypass s = None \<and> \<not> allocates e k2 n then Some (OS_NO_MEM, z)
      else Some (OS_SUCCESS, if restore_bl_bypass s = None
                   then upd_drv (\<lambda>s. s\<lparr>restore_bl_bypass := Some (\<lambda>_. 0)\<rparr>) z else z))"

definition lwpmudrv_Free_Restore_Buffer :: "session \<Rightarrow> session" where
  "lwpmudrv_Free_Restore_Buffer =
     upd_drv (\<lambda>s. s\<lparr>restore_ha_direct2core := None, restore_qpi_direct2core := None, restore_bl_bypass := None\<rparr>)"

section \<open>Reserving and initialising\<close>

definition lwpmudrv_Initialize_State :: "32 word \<Rightarrow> session \<Rightarrow> os_status \<times> session" where
  "lwpmudrv_Initialize_State online z = (OS_SUCCESS, upd_drv (\<lambda>s. s\<lparr>driver_state := (driver_state s)\<lparr>
     num_cpus := online, active_cpus := online, num_em_groups := 0, current_phase := UNINITIALIZED\<rparr>\<rparr>) z)"

text \<open>The flag is what the caller reads: whether someone else holds the driver.\<close>

definition lwpmudrv_Reserve :: "bool \<Rightarrow> session \<Rightarrow> os_status \<times> bool option \<times> session" where
  "lwpmudrv_Reserve arg_ok z =
     (if \<not> arg_ok then (OS_FAULT, None, z)
      else (OS_SUCCESS, Some (phase_of z \<noteq> UNINITIALIZED),
            if phase_of z = UNINITIALIZED then set_phase RESERVED z else z))"

definition free_groups :: "u32 \<Rightarrow> 'a list \<Rightarrow> bool" where
  "free_groups n xs = (xs = [] \<or> unat n \<le> length xs)"

text \<open>Freeing what a device holds; the group count comes from the core's configuration.\<close>

definition clean_device :: "nat \<Rightarrow> session \<Rightarrow> session option" where
  "clean_device i z = do { d \<leftarrow> list_at (devices (un z)) i;
     if PMU_register_data_unc d \<noteq> [] \<and> (\<not> ec_set z \<or> \<not> free_groups (num_groups_unc (global_ec (drv_of z))) (PMU_register_data_unc d))
     then None
     else if (acc_per_thread d \<noteq> [] \<and> length (acc_per_thread d) < ncpus z) \<or>
             (prev_val_per_thread d \<noteq> [] \<and> length (prev_val_per_thread d) < ncpus z) then None
     else do { u \<leftarrow> upd_device i (\<lambda>d. d\<lparr>PMU_register_data_unc := [], pcfg_unc := None, acc_per_thread := [],
                                       prev_val_per_thread := []\<rparr>) (un z);
               Some (z\<lparr>un := u\<rparr>) } }"

definition signal_end :: "session \<Rightarrow> session" where
  "signal_end z = (upd_drv (\<lambda>s. s\<lparr>driver_state := (driver_state s)\<lparr>num_em_groups := 0, num_descriptors := 0\<rparr>\<rparr>) z)\<lparr>
     un := (un (upd_drv (\<lambda>s. s\<lparr>driver_state := (driver_state s)\<lparr>num_em_groups := 0, num_descriptors := 0\<rparr>\<rparr>) z))\<lparr>num_devices := 0\<rparr>,
     outp := (outp z)\<lparr>abnormal_terminate := False\<rparr>, control_pid := 0\<rparr>"

definition lwpmudrv_Clean_Up :: "env \<Rightarrow> bool \<Rightarrow> session \<Rightarrow> session option" where
  "lwpmudrv_Clean_Up e finish z =
     (if \<not> pcfg_set z then None
      else if use_pcl (pcfg (drv_of z)) then Some (signal_end (z\<lparr>pcfg_set := False\<rparr>))
      else if \<not> free_groups (num_em_groups (driver_state (drv_of z))) (PMU_register_data (drv_of z)) then None
      else do {
        z \<leftarrow> (if devices (un z) = [] then Some z
              else do { z \<leftarrow> foldm clean_device [0 ..< unat (num_devices (un z))] z;
                        Some (z\<lparr>un := (un z)\<lparr>devices := []\<rparr>\<rparr>) });
        if \<not> free_groups (num_descriptors (driver_state (drv_of z))) (desc_data z) then None
        else do {
          let z = (upd_drv (\<lambda>s. s\<lparr>PMU_register_data := [], lbr_regs := []\<rparr>) z)\<lparr>desc_data := [], ec_set := False, pcfg_set := False\<rparr>;
          z \<leftarrow> (if finish then run_all e t_fini (disp z) None z else Some z);
          let z = (upd_drv (\<lambda>s. s\<lparr>pcb := \<lambda>_. None, pmu_state := None\<rparr>) z)\<lparr>cpu_mask_bits := None\<rparr>;
          Some (signal_end z) } })"

text \<open>The part of \<open>lwpmudrv_Initialize\<close> for sampling, after the dispatch table has been chosen.\<close>

definition Initialize_sampling :: "env \<Rightarrow> session \<Rightarrow> result" where
  "Initialize_sampling e z =
     (if cpu_buf (outp z) = [] \<and> \<not> allocates e 3 (ncpus z) then Some (OS_NO_MEM, z)
      else do {
        let o1 = (if cpu_buf (outp z) = [] then (outp z)\<lparr>cpu_buf := replicate (ncpus z) empty_output\<rparr> else outp z);
        (status, o1) \<leftarrow> OUTPUT_Initialize (\<lambda>k. alloc e (k + 4)) (buffer_size e) (ncpus z) o1;
        let z = z\<lparr>outp := o1\<rparr>;
        if status \<noteq> OS_SUCCESS
        then do { z \<leftarrow> lwpmudrv_Clean_Up e False (set_phase UNINITIALIZED z); Some (status, z) }
        else do {
          (k, s) \<leftarrow> CPUMON_Install_Cpuhooks (pack e) (remap e) (me e) (ncpus z) (cpumon z, drv_of z);
          let z = (upd_drv (\<lambda>_. s) z)\<lparr>cpumon := k\<rparr>;
          z \<leftarrow> on_drv (PEBS_Initialize (parallel_order False (me e) (ncpus z)) (pebs_mem e)) z;
          Some (OS_SUCCESS, z\<lparr>gdt_base := fst (gdt e), gdt_limit := snd (gdt e), os_hooks := True\<rparr>) } })"

text \<open>A freshly allocated CPU node is zero; the fields the loop sets come on top.\<close>

definition fresh_cpu :: cpu_state where
  "fresh_cpu = cpu0\<lparr>accept_interrupt := 1, initial_mask := 1, group_swap := 1, reset_mask := 0, num_samples := 0\<rparr>"

definition fresh_nodes :: "session \<Rightarrow> session" where
  "fresh_nodes z = (upd_drv (\<lambda>s. s\<lparr>pcb := \<lambda>i. if i < ncpus z then Some fresh_cpu else None\<rparr>) z)\<lparr>
     in_interrupt := \<lambda>_. 0, em_timer := \<lambda>_. None,
     cpumon := (cpumon z)\<lparr>cs_idt_base := \<lambda>_. 0, cs_saved_ih := \<lambda>_. 0\<rparr>\<rparr>"

definition lwpmudrv_Initialize :: "env \<Rightarrow> drv_config user_buf \<Rightarrow> session \<Rightarrow> result" where
  "lwpmudrv_Initialize e buf z = (case copied buf of None \<Rightarrow> Some (OS_FAULT, z) | Some (cfg, complete) \<Rightarrow>
     if phase_of z \<noteq> RESERVED then Some (OS_IN_PROGRESS, z)
     else let z = set_phase IDLE z in
     if \<not> alloc e 0 then Some (OS_NO_MEM, z\<lparr>pcfg_set := False\<rparr>)
     else let z = (upd_drv (\<lambda>s. s\<lparr>pcfg := cfg\<rparr>) z)\<lparr>pcfg_set := True\<rparr> in
     if \<not> complete then Some (OS_FAULT, z)
     else if use_pcl cfg then Some (OS_SUCCESS, z)
     else if \<not> allocates e 1 (ncpus z) then Some (OS_NO_MEM, upd_drv (\<lambda>s. s\<lparr>pcb := \<lambda>_. None\<rparr>) z)
     else if \<not> alloc e 2 then Some (OS_NO_MEM, upd_drv (\<lambda>s. s\<lparr>pmu_state := None,
            pcb := \<lambda>i. if i < ncpus z then Some cpu0 else None\<rparr>) z)
     else let z = fresh_nodes (upd_drv (\<lambda>s. s\<lparr>pmu_state := Some (replicate (ncpus z * 2) 0)\<rparr>) z);
              z = (if disp z = None then z\<lparr>disp := UTILITY_Configure_CPU (dispatch_id cfg)\<rparr> else z) in
     if disp z = None then Some (OS_FAULT, z)
     else let z = z\<lparr>control_pid := caller_pid e\<rparr> in
     if counting_mode cfg then Some (OS_SUCCESS, z) else Initialize_sampling e z)"

definition lwpmudrv_Terminate :: "env \<Rightarrow> session \<Rightarrow> result" where
  "lwpmudrv_Terminate e z =
     (if phase_of z = UNINITIALIZED then Some (OS_SUCCESS, z)
      else if phase_of z \<noteq> STOPPED then Some (OS_IN_PROGRESS, z)
      else do { z \<leftarrow> lwpmudrv_Clean_Up e True (set_phase UNINITIALIZED z); Some (OS_SUCCESS, z) })"

section \<open>The uncore devices\<close>

definition lwpmudrv_Initialize_Num_Devices :: "env \<Rightarrow> u32 user_arg \<Rightarrow> session \<Rightarrow> result" where
  "lwpmudrv_Initialize_Num_Devices e a z =
     (if \<not> size_ok a \<or> no_arg a then Some (OS_FAULT, z)
      else do { (n, complete) \<leftarrow> copied (ubuf a);
        let z = z\<lparr>un := (un z)\<lparr>num_devices := n\<rparr>\<rparr>;
        if \<not> complete then Some (OS_FAULT, z)
        else let ds = (if n = 0 then devices (un z)
               else if alloc e 0 then replicate (unat n) \<lparr>PMU_register_data_unc = [], dispatch_unc = None,
                 em_groups_count_unc = 0, pcfg_unc = None, acc_per_thread = [], prev_val_per_thread = [],
                 counter_mask = 0, unc_num_events = 0, num_units = 0\<rparr> else [])
             in Some (OS_SUCCESS, z\<lparr>un := (un z)\<lparr>devices := ds\<rparr>, cur_device := 0\<rparr>) })"

text \<open>The device's configuration is not checked for having been allocated before the copy.\<close>

definition upd_dev :: "nat \<Rightarrow> (lwpmu_device \<Rightarrow> lwpmu_device) \<Rightarrow> session \<Rightarrow> session option" where
  "upd_dev i f z = do { u \<leftarrow> upd_device i f (un z); Some (z\<lparr>un := u\<rparr>) }"

definition lwpmudrv_Initialize_UNC :: "env \<Rightarrow> drv_config user_arg \<Rightarrow> session \<Rightarrow> result" where
  "lwpmudrv_Initialize_UNC e a z =
     (if phase_of z \<noteq> IDLE then Some (OS_IN_PROGRESS, z)
      else if cur_device z \<ge> num_devices (un z) then Some (OS_FAULT, z)
      else if no_arg a then Some (OS_FAULT, z)
      else if \<not> size_ok a then Some (OS_FAULT, z)
      else if \<not> alloc e 0 then None
      else do { (cfg, complete) \<leftarrow> copied (ubuf a);
        z \<leftarrow> upd_dev (unat (cur_device z)) (\<lambda>d. d\<lparr>pcfg_unc := Some cfg\<rparr>) z;
        if \<not> complete then Some (OS_FAULT, z)
        else do { let n = UTILITY_Configure_CPU (dispatch_id cfg);
          z \<leftarrow> upd_dev (unat (cur_device z)) (\<lambda>d. d\<lparr>dispatch_unc := n\<rparr>) z;
          Some (if n = None then OS_FAULT else OS_SUCCESS, z) } })"

definition lwpmudrv_Set_Device_Num_Units :: "u32 user_arg \<Rightarrow> session \<Rightarrow> result" where
  "lwpmudrv_Set_Device_Num_Units a z =
     (if phase_of z \<noteq> IDLE then Some (OS_SUCCESS, z)
      else if \<not> size_ok a \<or> no_arg a then Some (OS_NO_MEM, z)
      else do { (n, complete) \<leftarrow> copied (ubuf a);
        if \<not> complete then None
        else do { z \<leftarrow> upd_dev (unat (cur_device z)) (\<lambda>d. d\<lparr>num_units := n\<rparr>) z;
                  Some (OS_SUCCESS, z\<lparr>cur_device := cur_device z + 1\<rparr>) } })"

text \<open>A routine of every device that has one, on all CPUs; \<open>ebc\<close>: only of units that count per
  event, \<open>note_me\<close>: recording the calling CPU first.\<close>

definition call_device :: "env \<Rightarrow> (disp_table \<Rightarrow> disp_op option) \<Rightarrow> bool \<Rightarrow> bool \<Rightarrow> nat \<Rightarrow> session \<Rightarrow> session option" where
  "call_device e sel ebc note_me j z = do { d \<leftarrow> list_at (devices (un z)) j;
     case (pcfg_unc d, dispatch_unc d) of
       (Some cfg, Some n) \<Rightarrow>
         if (ebc \<longrightarrow> event_based_counts cfg) \<and> sel (table_of (remap e) n) \<noteq> None
         then run_all e sel (Some n) (Some j)
                (if note_me then z\<lparr>un := (un z)\<lparr>invoking_processor_id := me e\<rparr>\<rparr> else z)
         else Some z
     | _ \<Rightarrow> Some z }"

definition call_devices :: "env \<Rightarrow> (disp_table \<Rightarrow> disp_op option) \<Rightarrow> bool \<Rightarrow> bool \<Rightarrow> session \<Rightarrow> session option" where
  "call_devices e sel ebc note_me z = foldm (call_device e sel ebc note_me) [0 ..< unat (num_devices (un z))] z"

end
