(* ===== verification/Configure.thy ===== *)
theory Configure
  imports Session
begin

text \<open>
  The requests of lwpmudrv.c that configure an idle session (event multiplexing, event groups of
  the core and of the uncore units, sample descriptors, branch and power registers, CPU mask and
  topology) and those that only answer a question.
\<close>

section \<open>Event groups\<close>

definition lwpmudrv_Set_EM_Config :: "env \<Rightarrow> event_config user_arg \<Rightarrow> session \<Rightarrow> result" where
  "lwpmudrv_Set_EM_Config e a z =
     (if phase_of z \<noteq> IDLE then Some (OS_IN_PROGRESS, z)
      else if no_arg a \<or> \<not> size_ok a then Some (OS_NO_MEM, z)
      else if \<not> alloc e 0 then Some (OS_NO_MEM, z\<lparr>ec_set := False\<rparr>)
      else do { (ec, complete) \<leftarrow> copied (ubuf a);
        let z = (upd_drv (\<lambda>s. s\<lparr>global_ec := ec\<rparr>) z)\<lparr>ec_set := True\<rparr>;
        if \<not> complete then Some (OS_FAULT, z)
        else do {
          z \<leftarrow> for_cpus (\<lambda>_ p. Some (p\<lparr>trigger_count := em_factor ec, trigger_event_num := em_event_num ec\<rparr>)) z;
          let z = upd_drv (\<lambda>s. s\<lparr>driver_state := (driver_state s)\<lparr>num_em_groups := num_groups ec\<rparr>,
                     PMU_register_data := (if allocates e 1 (unat (num_groups ec))
                                           then replicate (unat (num_groups ec)) None else [])\<rparr>) z;
          z \<leftarrow> EVENTMUX_Initialize e 2 z;
          Some (OS_SUCCESS, z\<lparr>em_groups_count := 0\<rparr>) } })"

definition lwpmudrv_Set_EM_Config_UNC :: "env \<Rightarrow> session \<Rightarrow> result" where
  "lwpmudrv_Set_EM_Config_UNC e z =
     (if phase_of z \<noteq> IDLE then Some (OS_IN_PROGRESS, z)
      else if \<not> ec_set z then None
      else do { let n = unat (num_groups_unc (global_ec (drv_of z)));
        z \<leftarrow> upd_dev (unat (cur_device z)) (\<lambda>d. d\<lparr>
               PMU_register_data_unc := (if allocates e 0 n then replicate n None else []),
               em_groups_count_unc := 0\<rparr>) z;
        Some (OS_SUCCESS, z) })"

definition lwpmudrv_Configure_Events :: "env \<Rightarrow> ecb user_arg \<Rightarrow> session \<Rightarrow> result" where
  "lwpmudrv_Configure_Events e a z =
     (if phase_of z \<noteq> IDLE then Some (OS_IN_PROGRESS, z)
      else if int (em_groups_count z) \<ge> sint (num_em_groups (driver_state (drv_of z))) then Some (OS_SUCCESS, z)
      else if no_arg a \<or> \<not> size_ok a then Some (OS_FAULT, z)
      else if \<not> alloc e 0 then do {
        r \<leftarrow> list_put (PMU_register_data (drv_of z)) (em_groups_count z) None;
        Some (OS_NO_MEM, upd_drv (\<lambda>s. s\<lparr>PMU_register_data := r\<rparr>) z) }
      else do { (b, complete) \<leftarrow> copied (ubuf a);
        r \<leftarrow> list_put (PMU_register_data (drv_of z)) (em_groups_count z) (Some b);
        let z = upd_drv (\<lambda>s. s\<lparr>PMU_register_data := r\<rparr>) z;
        Some (if complete then (OS_SUCCESS, z\<lparr>em_groups_count := em_groups_count z + 1\<rparr>)
              else (OS_NO_MEM, z)) })"

text \<open>
  The sums and last readings get a row per CPU, of one word more than there are events; the
  allocations of the rows are not checked. The limit on the groups is the core's.
\<close>

definition unc_rows :: "env \<Rightarrow> ecb \<Rightarrow> session \<Rightarrow> u64 list list option" where
  "unc_rows e pecb z = (let n = unat (ecb_num_events pecb + 1) in
     if ncpus z \<noteq> 0 \<and> n \<noteq> 0 \<and> \<not> alloc_rows e 1 (2 * ncpus z + 2) then None
     else Some (replicate (ncpus z) (replicate n 0)))"

definition lwpmudrv_Configure_Events_UNC :: "env \<Rightarrow> ecb user_arg \<Rightarrow> session \<Rightarrow> result" where
  "lwpmudrv_Configure_Events_UNC e a z =
     (if phase_of z \<noteq> IDLE then Some (OS_IN_PROGRESS, z)
      else do { let i = unat (cur_device z);
        d \<leftarrow> list_at (devices (un z)) i;
        let n = em_groups_count_unc d;
        if int n \<ge> sint (num_em_groups (driver_state (drv_of z))) then Some (OS_SUCCESS, z)
        else if no_arg a \<or> \<not> size_ok a then Some (OS_FAULT, z)
        else if \<not> alloc e 0 then do {
          r \<leftarrow> list_put (PMU_register_data_unc d) n None;
          z \<leftarrow> upd_dev i (\<lambda>d. d\<lparr>PMU_register_data_unc := r\<rparr>) z;
          Some (OS_NO_MEM, z) }
        else do { (b, complete) \<leftarrow> copied (ubuf a);
          r \<leftarrow> list_put (PMU_register_data_unc d) n (Some b);
          z \<leftarrow> upd_dev i (\<lambda>d. d\<lparr>PMU_register_data_unc := r\<rparr>) z;
          if \<not> complete then Some (OS_NO_MEM, z)
          else do { q \<leftarrow> list_at r 0; pecb \<leftarrow> q;
            rows \<leftarrow> unc_rows e pecb z;
            z \<leftarrow> upd_dev i (\<lambda>d. d\<lparr>unc_num_events := ucast (ecb_num_events pecb), acc_per_thread := rows,
                   prev_val_per_thread := rows, em_groups_count_unc := n + 1\<rparr>) z;
            Some (OS_SUCCESS, z) } } })"

section \<open>Sample descriptors and register lists\<close>

definition lwpmudrv_Set_Sample_Descriptors :: "env \<Rightarrow> u32 user_arg \<Rightarrow> session \<Rightarrow> result" where
  "lwpmudrv_Set_Sample_Descriptors e a z =
     (if phase_of z \<noteq> IDLE then Some (OS_IN_PROGRESS, z)
      else if \<not> size_ok a \<or> no_arg a then Some (OS_SUCCESS, z)
      else do { (n, complete) \<leftarrow> copied (ubuf a);
        let z = (upd_drv (\<lambda>s. s\<lparr>driver_state := (driver_state s)\<lparr>num_descriptors := n\<rparr>\<rparr>) z)\<lparr>desc_count := 0\<rparr>;
        if \<not> complete then Some (OS_FAULT, z)
        else Some (OS_SUCCESS, z\<lparr>desc_data := (if allocates e 0 (unat n) then replicate (unat n) None else [])\<rparr>) })"

text \<open>A failed allocation is copied to, a failed copy is taken for a complete one.\<close>

definition lwpmudrv_Configure_Descriptors :: "env \<Rightarrow> event_desc user_arg \<Rightarrow> session \<Rightarrow> result" where
  "lwpmudrv_Configure_Descriptors e a z =
     (if phase_of z \<noteq> IDLE then Some (OS_IN_PROGRESS, z)
      else if int (desc_count z) \<ge> sint (num_descriptors (driver_state (drv_of z))) then Some (OS_SUCCESS, z)
      else if \<not> size_ok a \<or> no_arg a then Some (OS_FAULT, z)
      else if \<not> alloc e 0 then None
      else do { (ed, _) \<leftarrow> copied (ubuf a);
        r \<leftarrow> list_put (desc_data z) (desc_count z) (Some ed);
        Some (OS_SUCCESS, z\<lparr>desc_data := r, desc_count := desc_count z + 1\<rparr>) })"

definition lwpmudrv_LBR_Info :: "env \<Rightarrow> u32 list user_arg \<Rightarrow> session \<Rightarrow> result" where
  "lwpmudrv_LBR_Info e a z =
     (if phase_of z \<noteq> IDLE then Some (OS_IN_PROGRESS, z)
      else if \<not> pcfg_set z then None
      else if \<not> collect_lbrs (pcfg (drv_of z)) then Some (OS_SUCCESS, z)
      else if \<not> size_ok a \<or> no_arg a then Some (OS_FAULT, z)
      else if \<not> alloc e 0 then None
      else do { (l, complete) \<leftarrow> copied (ubuf a);
        Some (if complete then OS_SUCCESS else OS_FAULT, upd_drv (\<lambda>s. s\<lparr>lbr_regs := l\<rparr>) z) })"

definition lwpmudrv_PWR_Info :: "env \<Rightarrow> u32 list user_arg \<Rightarrow> session \<Rightarrow> result" where
  "lwpmudrv_PWR_Info e a z =
     (if \<not> pcfg_set z then None
      else if \<not> power_capture (pcfg (drv_of z)) then Some (OS_SUCCESS, z)
      else if \<not> size_ok a \<or> no_arg a then Some (OS_FAULT, z)
      else if \<not> alloc e 0 then None
      else do { (l, complete) \<leftarrow> copied (ubuf a);
        Some (if complete then OS_SUCCESS else OS_FAULT, upd_drv (\<lambda>s. s\<lparr>pwr_regs := l\<rparr>) z) })"

section \<open>CPU mask and topology\<close>

text \<open>The mask is one byte per CPU; a buffer with fewer bytes than CPUs is read past its end.\<close>

definition apply_mask :: "u8 list \<Rightarrow> nat \<Rightarrow> cpu_state \<Rightarrow> cpu_state option" where
  "apply_mask bits i p = do { b \<leftarrow> list_at bits i; let v = (if b \<noteq> 0 then 1 else 0);
     Some (p\<lparr>accept_interrupt := v, initial_mask := v\<rparr>) }"

definition lwpmudrv_Set_CPU_Mask :: "env \<Rightarrow> u8 list user_arg \<Rightarrow> session \<Rightarrow> result" where
  "lwpmudrv_Set_CPU_Mask e a z =
     (if phase_of z \<noteq> IDLE then Some (OS_IN_PROGRESS, z)
      else if \<not> size_ok a \<or> no_arg a then Some (OS_INVALID, z)
      else if \<not> alloc e 0 then Some (OS_NO_MEM, z\<lparr>cpu_mask_bits := None\<rparr>)
      else do { (bits, complete) \<leftarrow> copied (ubuf a);
        let z = z\<lparr>cpu_mask_bits := Some bits\<rparr>;
        if \<not> complete then Some (OS_FAULT, z)
        else do { z \<leftarrow> for_cpus (apply_mask bits) z; Some (OS_SUCCESS, z) } })"

record topology_info =
  ti_cpu_number :: u32
  ti_socket_master :: "32 word"
  ti_core_master :: "32 word"
  ti_thr_master :: "32 word"
  ti_cpu_module_num :: u32
  ti_cpu_module_master :: u32

text \<open>The CPU number comes from the user and is not compared with the number of CPUs.\<close>

definition topology_entry :: "topology_info list \<Rightarrow> nat \<Rightarrow> session \<Rightarrow> session option" where
  "topology_entry topo iter z = do { dt \<leftarrow> list_at topo iter;
     p \<leftarrow> pcb (drv_of z) (unat (ti_cpu_number dt));
     let p = p\<lparr>socket_master := (ti_socket_master dt \<noteq> 0), core_master := (ti_core_master dt \<noteq> 0),
               thr_master := (ti_thr_master dt \<noteq> 0), cpu_module_num := ucast (ti_cpu_module_num dt),
               cpu_module_master := ucast (ti_cpu_module_master dt)\<rparr>;
     Some ((upd_drv (upd_pcpu (unat (ti_cpu_number dt)) p) z)\<lparr>num_packages := num_packages z + ti_socket_master dt\<rparr>) }"

text \<open>\<open>pcb\<close> is NULL when CPU 0 has no node.\<close>

definition no_pcb :: "session \<Rightarrow> bool" where
  "no_pcb z = (pcb (drv_of z) 0 = None)"

definition lwpmudrv_Setup_Cpu_Topology :: "env \<Rightarrow> topology_info list user_arg \<Rightarrow> session \<Rightarrow> result" where
  "lwpmudrv_Setup_Cpu_Topology e a z =
     (if phase_of z \<noteq> IDLE then Some (OS_IN_PROGRESS, z)
      else if \<not> size_ok a \<or> no_arg a \<or> no_pcb z then Some (OS_NO_MEM, z)
      else if \<not> alloc e 0 then Some (OS_NO_MEM, z)
      else do { (topo, complete) \<leftarrow> copied (ubuf a);
        if \<not> complete then Some (OS_FAULT, z)
        else do { z \<leftarrow> foldm (topology_entry topo) [0 ..< ncpus z] z; Some (OS_SUCCESS, z) } })"

section \<open>Questions\<close>

text \<open>
  The buffer an answer goes to: of an unsuitable length or NULL, not writable, or writable. The
  answers are lists of words.
\<close>

datatype reply_buf = Bad_Length | Not_Writable | Writable

type_synonym answer = "os_status \<times> u64 list"

definition put_user :: "reply_buf \<Rightarrow> u64 list \<Rightarrow> answer" where
  "put_user b ws = (case b of Writable \<Rightarrow> (OS_SUCCESS, ws) | _ \<Rightarrow> (OS_FAULT, []))"

definition phase_code :: "phase \<Rightarrow> u64" where
  "phase_code ph = (case ph of UNINITIALIZED \<Rightarrow> 0 | RESERVED \<Rightarrow> 1 | IDLE \<Rightarrow> 2 | PAUSED \<Rightarrow> 3 | STOPPED \<Rightarrow> 4
     | RUNNING \<Rightarrow> 5 | PAUSING \<Rightarrow> 6 | PREPARE_STOP \<Rightarrow> 7)"

definition lwpmudrv_Version :: "u32 \<Rightarrow> reply_buf \<Rightarrow> answer" where
  "lwpmudrv_Version sep_version b = put_user b [ucast sep_version]"

definition lwpmudrv_Get_Driver_State :: "reply_buf \<Rightarrow> session \<Rightarrow> answer" where
  "lwpmudrv_Get_Driver_State b z = put_user b [phase_code (phase_of z)]"

definition lwpmudrv_Get_Num_Cores :: "reply_buf \<Rightarrow> session \<Rightarrow> answer" where
  "lwpmudrv_Get_Num_Cores b z = put_user b [ucast (num_cpus (driver_state (drv_of z)))]"

definition lwpmudrv_Get_Num_Samples :: "reply_buf \<Rightarrow> session \<Rightarrow> answer option" where
  "lwpmudrv_Get_Num_Samples b z =
     (if no_pcb z then Some (OS_FAULT, [])
      else if b = Bad_Length then Some (OS_NO_MEM, [])
      else do { n \<leftarrow> foldm (\<lambda>i n. do { p \<leftarrow> pcb (drv_of z) i; Some (n + num_samples p) }) [0 ..< ncpus z] 0;
                Some (put_user b [n]) })"

definition TSC_SKEW :: "nat \<Rightarrow> session \<Rightarrow> u64 option" where
  "TSC_SKEW cpu z = do { a \<leftarrow> list_at (tsc_info z) cpu; b \<leftarrow> list_at (tsc_info z) 0; Some (a - b) }"

text \<open>\<open>clock\<close> is the kernel's \<open>cpu_clock\<close> of the calling CPU.\<close>

definition lwpmudrv_Get_Normalized_TSC :: "env \<Rightarrow> u64 \<Rightarrow> reply_buf \<Rightarrow> session \<Rightarrow> answer option" where
  "lwpmudrv_Get_Normalized_TSC e clock b z =
     (if b = Bad_Length then Some (OS_FAULT, [])
      else do {
        t \<leftarrow> (if no_pcb z then Some 0 else do { k \<leftarrow> TSC_SKEW (me e) z; Some (tsc e (me e) - k) });
        let t = (if pcfg_set z \<and> use_pcl (pcfg (drv_of z)) then clock else t);
        Some (put_user b [t]) })"

definition lwpmudrv_Get_TSC_Skew_Info :: "env \<Rightarrow> reply_buf \<Rightarrow> session \<Rightarrow> answer option" where
  "lwpmudrv_Get_TSC_Skew_Info e b z =
     (if b = Bad_Length then Some (OS_FAULT, [])
      else if phase_of z \<noteq> STOPPED then Some (OS_IN_PROGRESS, [])
      else if \<not> allocates e 0 (ncpus z) then Some (OS_NO_MEM, [])
      else do { ws \<leftarrow> foldm (\<lambda>i ws. do { k \<leftarrow> TSC_SKEW i z; Some (ws @ [k]) }) [0 ..< ncpus z] [];
                Some (put_user b ws) })"

section \<open>Reading registers\<close>

text \<open>
  Every CPU reads the register into its slot; number 0 is not read and leaves the slot zero. The
  answer needs a buffer of as many bytes as there are CPUs, but a word is copied for each.
\<close>

definition lwpmudrv_Read_MSR :: "u32 \<Rightarrow> nat \<Rightarrow> u64 list \<times> session \<Rightarrow> (u64 list \<times> session) option" where
  "lwpmudrv_Read_MSR reg_num cpu = (\<lambda>(node, z).
     if reg_num = 0 then Some (node, z)
     else do { node \<leftarrow> list_put node cpu (SYS_Read_MSR cpu reg_num (drv_of z)); Some (node, z) })"

definition lwpmudrv_Read_MSR_All_Cores :: "env \<Rightarrow> u32 \<Rightarrow> nat \<Rightarrow> reply_buf \<Rightarrow> session \<Rightarrow> answer option" where
  "lwpmudrv_Read_MSR_All_Cores e reg_num w_len b z =
     (if b = Bad_Length then Some (OS_FAULT, [])
      else if \<not> allocates e 0 (ncpus z) then Some (OS_NO_MEM, [])
      else do {
        (vals, _) \<leftarrow> CONTROL_Invoke_Parallel (me e) (ncpus z) (lwpmudrv_Read_MSR reg_num) (replicate (ncpus z) 0, z);
        if w_len < ncpus z then Some (OS_SUCCESS, [])
        else Some (put_user b vals) })"

text \<open>
  The counters of the core and of the counting uncore units, gathered for the user. \<open>n\<close> is the
  length of the user's buffer in words. The walk over a unit's data registers skips entries after
  the first of an event, and keeps an index of the event within its block.
\<close>

definition event_index_step :: "u32 \<times> u32 \<Rightarrow> u32 \<Rightarrow> u32 \<times> u32" where
  "event_index_step pe cur = (let prev = (if fst pe = 0 then cur else fst pe) in
     if prev < cur then (cur, snd pe + 1) else (cur, 0))"

definition unc_ver2_skip :: "ecb \<Rightarrow> event_reg \<Rightarrow> bool" where
  "unc_ver2_skip q e = ((ecb_flags q AND ECB_pci_id_offset_bit \<noteq> 0 \<and> pci_id_offset e = 0) \<or> reg_id e = 0 \<or>
     emon_event_id_index_local e \<noteq> 0)"

definition copy_counter :: "u32 \<Rightarrow> session \<Rightarrow> session option" where
  "copy_counter j z = do { v \<leftarrow> list_at (read_unc_ctr_info (un z)) (unat j);
     r \<leftarrow> list_put (read_counter_info (drv_of z)) (unat j) v;
     Some (upd_drv (\<lambda>s. s\<lparr>read_counter_info := r\<rparr>) z) }"

definition gather_entry :: "u32 \<Rightarrow> u32 \<Rightarrow> event_reg \<Rightarrow> (u32 \<times> u32) \<times> session \<Rightarrow> ((u32 \<times> u32) \<times> session) option" where
  "gather_entry start_index units e = (\<lambda>(ev, z). do {
     let ev = event_index_step ev (ucast (event_id_index e));
     z \<leftarrow> (if is_multi_pkg_bit_set e
       then foldm (\<lambda>pkg. foldm (\<lambda>inst. copy_counter (start_index + snd ev * num_packages z * units
              + ucast (event_id_index e) + of_nat inst + of_nat pkg * units)) [0 ..< unat units])
            [0 ..< unat (num_packages z)] z
       else copy_counter (start_index + ucast (event_id_index e) + ucast (emon_event_id_index_local e)) z);
     Some (ev, z) })"

definition gather_device :: "env \<Rightarrow> nat \<Rightarrow> (u32 \<times> u32) \<times> session \<Rightarrow> ((u32 \<times> u32) \<times> session) option" where
  "gather_device e i = (\<lambda>(ev, z). do { d \<leftarrow> list_at (devices (un z)) i;
     case (pcfg_unc d, dispatch_unc d) of
       (Some cfg, Some n) \<Rightarrow>
         if t_read_data (table_of (remap e) n) = None \<or> \<not> emon_mode cfg then Some (ev, z)
         else do { q \<leftarrow> unc_ecb_ptr i (un z);
           z \<leftarrow> run_all e t_read_data (Some n) (Some i) (z\<lparr>un := (un z)\<lparr>invoking_processor_id := me e\<rparr>\<rparr>);
           pecb \<leftarrow> unc_ecb i (un z);
           for_each (data_start pecb) (data_pop pecb) (unc_ver2_skip pecb)
             (gather_entry (emon_unc_offset cfg) (num_units d)) pecb (ev, z) }
     | _ \<Rightarrow> Some (ev, z) })"

definition lwpmudrv_Read_MSRs :: "env \<Rightarrow> nat \<Rightarrow> reply_buf \<Rightarrow> session \<Rightarrow> (answer \<times> session) option" where
  "lwpmudrv_Read_MSRs e n b z =
     (if n = 0 \<or> b = Bad_Length then Some ((OS_SUCCESS, []), z)
      else if \<not> alloc e 0 then Some ((OS_NO_MEM, []), upd_drv (\<lambda>s. s\<lparr>read_counter_info := []\<rparr>) z)
      else let z = upd_drv (\<lambda>s. s\<lparr>read_counter_info := replicate n 0\<rparr>) z in
      if \<not> alloc e 1 then Some ((OS_NO_MEM, []), z\<lparr>un := (un z)\<lparr>read_unc_ctr_info := []\<rparr>\<rparr>)
      else do {
        z \<leftarrow> run_all e t_read_data (disp z) None (z\<lparr>un := (un z)\<lparr>read_unc_ctr_info := replicate n 0\<rparr>\<rparr>);
        (_, z) \<leftarrow> foldm (gather_device e) [0 ..< unat (num_devices (un z))] ((0, 0), z);
        let ans = put_user b (read_counter_info (drv_of z));
        let z = upd_drv (\<lambda>s. s\<lparr>read_counter_info := []\<rparr>) z;
        Some (ans, z\<lparr>un := (un z)\<lparr>read_unc_ctr_info := []\<rparr>\<rparr>) })"

end
