(* ===== verification/Running.thy ===== *)
theory Running
  imports Configure
begin

text \<open>
  Programming, starting, pausing, resuming and stopping a session (lwpmudrv.c), and the dispatch of
  the ioctl commands. The model is of the default build of the Makefile (with \<open>EMON\<close>) without the
  chipset code; the barrier at which the CPUs meet before they read their time-stamp counters is
  left out.
\<close>

section \<open>Programming and starting\<close>

definition lwpmudrv_Init_PMU :: "env \<Rightarrow> session \<Rightarrow> result" where
  "lwpmudrv_Init_PMU e z =
     (if pcfg_set z \<and> use_pcl (pcfg (drv_of z)) then Some (OS_SUCCESS, z)
      else if phase_of z \<noteq> IDLE then Some (OS_IN_PROGRESS, z)
      else if num_em_groups (driver_state (drv_of z)) = 0 then Some (OS_SUCCESS, z)
      else do {
        (_, z) \<leftarrow> lwpmudrv_Allocate_Restore_Buffer e z;
        z \<leftarrow> run_all e t_init (disp z) None z;
        z \<leftarrow> run_all e t_write (disp z) None z;
        z \<leftarrow> call_devices e t_write False True z;
        Some (OS_SUCCESS, z) })"

definition CR4_PCE :: u64 where "CR4_PCE = 0x100"

definition lwpmudrv_Set_CR4_PCE_Bit :: "nat \<Rightarrow> session \<Rightarrow> session option" where
  "lwpmudrv_Set_CR4_PCE_Bit cpu z = Some (z\<lparr>cr4 := (cr4 z)(cpu := cr4 z cpu OR CR4_PCE)\<rparr>)"

definition lwpmudrv_Clear_CR4_PCE_Bit :: "nat \<Rightarrow> session \<Rightarrow> session option" where
  "lwpmudrv_Clear_CR4_PCE_Bit cpu z = Some (z\<lparr>cr4 := (cr4 z)(cpu := cr4 z cpu AND NOT CR4_PCE)\<rparr>)"

definition lwpmudrv_Fill_TSC_Info :: "env \<Rightarrow> nat \<Rightarrow> session \<Rightarrow> session option" where
  "lwpmudrv_Fill_TSC_Info e cpu z = do { t \<leftarrow> list_put (tsc_info z) cpu (tsc e cpu); Some (z\<lparr>tsc_info := t\<rparr>) }"

definition lwpmudrv_Start :: "env \<Rightarrow> session \<Rightarrow> result" where
  "lwpmudrv_Start e z =
     (if phase_of z \<noteq> IDLE then Some (OS_IN_PROGRESS, z)
      else let z = set_phase RUNNING z in
      if \<not> pcfg_set z then None
      else if use_pcl (pcfg (drv_of z))
      then Some (OS_SUCCESS, if start_paused (pcfg (drv_of z)) then set_phase PAUSED z else z)
      else do {
        z \<leftarrow> on_all_cpus e lwpmudrv_Set_CR4_PCE_Bit z;
        z \<leftarrow> on_all_cpus e (lwpmudrv_Fill_TSC_Info e) z;
        t0 \<leftarrow> list_at (tsc_info z) 0;
        let z = z\<lparr>cpu0_tsc := t0\<rparr>;
        z \<leftarrow> (if start_paused (pcfg (drv_of z)) then Some (set_phase PAUSED z)
              else run_all e t_restart (disp z) None z);
        z \<leftarrow> call_devices e t_restart True False z;
        z \<leftarrow> EVENTMUX_Start e z;
        Some (OS_SUCCESS, z) })"

section \<open>Pausing and resuming\<close>

text \<open>
  The loop that waits for the interrupt handlers to leave ends when no CPU is in one. Here nothing
  else runs meanwhile, so with a handler under way the request does not return.
\<close>

definition quiet :: "session \<Rightarrow> bool" where
  "quiet z = list_all (\<lambda>i. in_interrupt z i = 0) [0 ..< ncpus z]"

definition refuse_interrupts :: "session \<Rightarrow> session option" where
  "refuse_interrupts z = for_cpus (\<lambda>_ p. Some (p\<lparr>accept_interrupt := 0\<rparr>)) z"

definition wait_and_freeze :: "env \<Rightarrow> session \<Rightarrow> session option" where
  "wait_and_freeze e z = do { z \<leftarrow> refuse_interrupts z;
     if quiet z then run_all e t_freeze (disp z) None z else None }"

definition lwpmudrv_Pause :: "env \<Rightarrow> session \<Rightarrow> result" where
  "lwpmudrv_Pause e z =
     (if phase_of z \<noteq> RUNNING then Some (OS_SUCCESS, z)
      else if \<not> pcfg_set z then None
      else do {
        let z = set_phase PAUSING z;
        z \<leftarrow> (if use_pcl (pcfg (drv_of z)) then Some z else wait_and_freeze e z);
        z \<leftarrow> call_devices e t_freeze True True (set_phase PAUSED z);
        Some (OS_SUCCESS, z) })"

definition accept_again :: "u8 list option \<Rightarrow> nat \<Rightarrow> cpu_state \<Rightarrow> cpu_state option" where
  "accept_again m i p = (case m of
       None \<Rightarrow> Some (p\<lparr>accept_interrupt := 1, group_swap := 1\<rparr>)
     | Some bits \<Rightarrow> do { b \<leftarrow> list_at bits i; Some (p\<lparr>accept_interrupt := (if b \<noteq> 0 then 1 else 0), group_swap := 1\<rparr>) })"

text \<open>While another thread is pausing, resuming waits for it.\<close>

definition lwpmudrv_Resume :: "env \<Rightarrow> session \<Rightarrow> result" where
  "lwpmudrv_Resume e z =
     (if phase_of z = PAUSING then None
      else if phase_of z \<noteq> PAUSED then Some (OS_SUCCESS, z)
      else do {
        z \<leftarrow> for_cpus (accept_again (cpu_mask_bits z)) (set_phase RUNNING z);
        z \<leftarrow> (if \<not> pcfg_set z then None
              else if use_pcl (pcfg (drv_of z)) then Some z
              else run_all e t_restart (disp z) None z);
        z \<leftarrow> call_devices e t_restart True False z;
        Some (OS_SUCCESS, z) })"

definition lwpmudrv_Switch_Group :: "env \<Rightarrow> session \<Rightarrow> result" where
  "lwpmudrv_Switch_Group e z =
     (if phase_of z \<noteq> RUNNING \<and> phase_of z \<noteq> PAUSED then Some (OS_SUCCESS, z)
      else do {
        (status, z) \<leftarrow> lwpmudrv_Pause e z;
        z \<leftarrow> for_cpus (\<lambda>_ p. Some (p\<lparr>current_group := current_group p + 1\<rparr>)) z;
        z \<leftarrow> run_all e t_write (disp z) None z;
        if pcfg_set z \<and> \<not> start_paused (pcfg (drv_of z))
        then do { (_, z) \<leftarrow> lwpmudrv_Resume e z; Some (status, z) }
        else Some (status, z) })"

text \<open>No dispatch table has a \<open>trigger_read\<close> routine.\<close>

definition lwpmudrv_Trigger_Read :: "session \<Rightarrow> result" where
  "lwpmudrv_Trigger_Read z =
     (if pcfg_set z \<and> use_pcl (pcfg (drv_of z)) then Some (OS_SUCCESS, z)
      else do { z \<leftarrow> foldm (\<lambda>i z. do { _ \<leftarrow> list_at (devices (un z)) i; Some z }) [0 ..< unat (num_devices (un z))] z;
                Some (OS_SUCCESS, z) })"

section \<open>Reading counters of a running session\<close>

definition lwpmudrv_Switch_To_Next_Group :: "nat \<Rightarrow> session \<Rightarrow> session option" where
  "lwpmudrv_Switch_To_Next_Group cpu z = do { p \<leftarrow> pcb (drv_of z) cpu;
     if \<not> ec_set z \<or> num_groups (global_ec (drv_of z)) = 0 then None
     else Some (upd_drv (upd_pcpu cpu (p\<lparr>current_group :=
            (current_group p + 1) mod num_groups (global_ec (drv_of z))\<rparr>)) z) }"

text \<open>The difference of the time stamps comes first; the counters follow, behind it.\<close>

definition read_counters :: "env \<Rightarrow> bool \<Rightarrow> nat \<Rightarrow> reply_buf \<Rightarrow> session \<Rightarrow> (answer \<times> session) option" where
  "read_counters e next_group n b z =
     (if b = Bad_Length \<or> n = 0 then Some ((OS_FAULT, []), z)
      else if b = Not_Writable then None
      else do {
        let diff = tsc e 0 - cpu0_tsc z;
        (_, z) \<leftarrow> lwpmudrv_Pause e (z\<lparr>cpu0_tsc := tsc e 0\<rparr>);
        ((_, ws), z) \<leftarrow> lwpmudrv_Read_MSRs e n b z;
        z \<leftarrow> (if next_group then on_all_cpus e lwpmudrv_Switch_To_Next_Group z else Some z);
        z \<leftarrow> run_all e t_write (disp z) None z;
        (status, z) \<leftarrow> lwpmudrv_Resume e z;
        Some ((status, diff # ws), z) })"

definition lwpmudrv_Read_Counters_And_Switch_Group where
  "lwpmudrv_Read_Counters_And_Switch_Group e n b z = read_counters e True n b z"

definition lwpmudrv_Read_And_Reset_Counters where
  "lwpmudrv_Read_And_Reset_Counters e n b z = read_counters e False n b z"

definition lwpmudrv_Write_MSR :: "u32 \<Rightarrow> u64 \<Rightarrow> nat \<Rightarrow> session \<Rightarrow> session option" where
  "lwpmudrv_Write_MSR reg_num val cpu z =
     Some (if reg_num = 0 then z else upd_drv (SYS_Write_MSR cpu reg_num val) z)"

definition lwpmudrv_Write_MSR_All_Cores :: "env \<Rightarrow> (u32 \<times> u64) user_arg \<Rightarrow> session \<Rightarrow> result" where
  "lwpmudrv_Write_MSR_All_Cores e a z =
     (if \<not> size_ok a \<or> no_arg a then Some (OS_FAULT, z)
      else do { ((reg_num, val), complete) \<leftarrow> copied (ubuf a);
        if \<not> complete then None
        else if \<not> allocates e 0 (ncpus z) then Some (OS_NO_MEM, z)
        else do { z \<leftarrow> on_all_cpus e (lwpmudrv_Write_MSR reg_num val) z; Some (OS_SUCCESS, z) } })"

section \<open>Stopping\<close>

definition lwpmudrv_Prepare_Stop :: "env \<Rightarrow> session \<Rightarrow> result" where
  "lwpmudrv_Prepare_Stop e z =
     (let current_state = phase_of z; z = set_phase PREPARE_STOP z in
      if current_state = UNINITIALIZED \<or> \<not> pcfg_set z \<or> use_pcl (pcfg (drv_of z)) then Some (OS_SUCCESS, z)
      else do {
        z \<leftarrow> (if current_state \<noteq> IDLE \<and> current_state \<noteq> RESERVED then wait_and_freeze e z else Some z);
        z \<leftarrow> call_devices e t_freeze True True z;
        z \<leftarrow> (if disp z \<noteq> None then run_all e t_cleanup (disp z) None z else Some z);
        z \<leftarrow> on_all_cpus e lwpmudrv_Clear_CR4_PCE_Bit (lwpmudrv_Free_Restore_Buffer z);
        Some (OS_SUCCESS, z) })"

definition mask_of :: "session \<Rightarrow> nat \<Rightarrow> bool" where
  "mask_of z i = (case pcb (drv_of z) i of None \<Rightarrow> False | Some p \<Rightarrow> initial_mask p \<noteq> 0)"

text \<open>The sampling part: hooks and modules, the buffers, the interrupt, PEBS and the timers.\<close>

definition end_sampling :: "env \<Rightarrow> session \<Rightarrow> result" where
  "end_sampling e z = do {
     let (status, z) = (if abnormal_terminate (outp z) then (OS_SUCCESS, z)
            else let z = z\<lparr>os_hooks := False\<rparr> in
              if phase_of z \<noteq> IDLE \<and> phase_of z \<noteq> RESERVED
              then let (status, o1) = enum_modules e (outp z) in (status, z\<lparr>outp := o1\<rparr>)
              else (OS_SUCCESS, z));
     _ \<leftarrow> for_cpus (\<lambda>_ p. Some p) z;
     o1 \<leftarrow> OUTPUT_Flush (mask_of z) (ncpus z) (outp z);
     o1 \<leftarrow> OUTPUT_Flush_end (drain e o1);
     (k, s) \<leftarrow> CPUMON_Remove_Cpuhooks (pack e) (me e) (ncpus z) (cpumon z, drv_of z);
     let z = (upd_drv (\<lambda>_. s) z)\<lparr>outp := o1, cpumon := k\<rparr>;
     z \<leftarrow> on_drv (PEBS_Destroy (parallel_order False (me e) (ncpus z))) z;
     z \<leftarrow> EVENTMUX_Destroy e z;
     Some (status, z) }"

definition lwpmudrv_Finish_Stop :: "env \<Rightarrow> session \<Rightarrow> result" where
  "lwpmudrv_Finish_Stop e z =
     (if in_finish_code z then Some (OS_SUCCESS, z)
      else if \<not> pcfg_set z then None
      else do {
        (status, z) \<leftarrow> (if counting_mode (pcfg (drv_of z)) then Some (OS_SUCCESS, z\<lparr>in_finish_code := True\<rparr>)
                        else end_sampling e (z\<lparr>in_finish_code := True\<rparr>));
        Some (status, (set_phase STOPPED z)\<lparr>in_finish_code := False\<rparr>) })"

text \<open>After the death of the process that held the driver.\<close>

definition LWPMUDRV_Abnormal_Terminate :: "env \<Rightarrow> session \<Rightarrow> result" where
  "LWPMUDRV_Abnormal_Terminate e z = do {
     (_, z) \<leftarrow> lwpmudrv_Prepare_Stop e (z\<lparr>outp := (outp z)\<lparr>abnormal_terminate := True\<rparr>\<rparr>);
     (_, z) \<leftarrow> lwpmudrv_Finish_Stop e z;
     lwpmudrv_Terminate e z }"

section \<open>The ioctl commands\<close>

datatype request = DRV_OPERATION_VERSION u32 reply_buf
  | DRV_OPERATION_RESERVE bool
  | DRV_OPERATION_INIT "drv_config user_buf"
  | DRV_OPERATION_INIT_PMU
  | DRV_OPERATION_SET_CPU_MASK "u8 list user_arg"
  | DRV_OPERATION_START
  | DRV_OPERATION_STOP
  | DRV_OPERATION_PAUSE
  | DRV_OPERATION_RESUME
  | DRV_OPERATION_EM_GROUPS "event_config user_arg"
  | DRV_OPERATION_EM_CONFIG_NEXT "ecb user_arg"
  | DRV_OPERATION_NUM_DESCRIPTOR "u32 user_arg"
  | DRV_OPERATION_DESC_NEXT "event_desc user_arg"
  | DRV_OPERATION_GET_DRIVER_STATE reply_buf
  | DRV_OPERATION_GET_NORMALIZED_TSC u64 reply_buf
  | DRV_OPERATION_NUM_CORES reply_buf
  | DRV_OPERATION_TSC_SKEW_INFO reply_buf
  | DRV_OPERATION_TERMINATE
  | DRV_OPERATION_SET_CPU_TOPOLOGY "topology_info list user_arg"
  | DRV_OPERATION_READ_MSRS nat reply_buf
  | DRV_OPERATION_SWITCH_GROUP
  | DRV_OPERATION_READ_MSR u32 nat reply_buf
  | DRV_OPERATION_WRITE_MSR "(u32 \<times> u64) user_arg"
  | DRV_OPERATION_READ_SWITCH_GROUP nat reply_buf
  | DRV_OPERATION_READ_AND_RESET nat reply_buf
  | DRV_OPERATION_INIT_UNC "drv_config user_arg"
  | DRV_OPERATION_EM_GROUPS_UNC
  | DRV_OPERATION_EM_CONFIG_NEXT_UNC "ecb user_arg"
  | DRV_OPERATION_LBR_INFO "u32 list user_arg"
  | DRV_OPERATION_PWR_INFO "u32 list user_arg"
  | DRV_OPERATION_INIT_NUM_DEV "u32 user_arg"
  | DRV_OPERATION_GET_NUM_SAMPLES reply_buf
  | DRV_OPERATION_SET_DEVICE_NUM_UNITS "u32 user_arg"
  | DRV_OPERATION_TIMER_TRIGGER_READ
  | Unknown_Operation

definition acked :: "(os_status \<times> session) \<Rightarrow> answer \<times> session" where
  "acked r = ((fst r, []), snd r)"

definition told :: "session \<Rightarrow> answer \<Rightarrow> answer \<times> session" where
  "told z a = (a, z)"

fun handle :: "env \<Rightarrow> request \<Rightarrow> session \<Rightarrow> (answer \<times> session) option" where
  "handle e (DRV_OPERATION_VERSION v b) z = Some (told z (lwpmudrv_Version v b))"
| "handle e (DRV_OPERATION_RESERVE ok) z = (case lwpmudrv_Reserve ok z of (status, flag, z) \<Rightarrow>
     Some ((status, case flag of None \<Rightarrow> [] | Some f \<Rightarrow> [of_bool f]), z))"
| "handle e (DRV_OPERATION_INIT b) z = map_option acked (lwpmudrv_Initialize e b z)"
| "handle e DRV_OPERATION_INIT_PMU z = map_option acked (lwpmudrv_Init_PMU e z)"
| "handle e (DRV_OPERATION_SET_CPU_MASK a) z = map_option acked (lwpmudrv_Set_CPU_Mask e a z)"
| "handle e DRV_OPERATION_START z = map_option acked (lwpmudrv_Start e z)"
| "handle e DRV_OPERATION_STOP z = map_option acked (lwpmudrv_Prepare_Stop e z)"
| "handle e DRV_OPERATION_PAUSE z = map_option acked (lwpmudrv_Pause e z)"
| "handle e DRV_OPERATION_RESUME z = map_option acked (lwpmudrv_Resume e z)"
| "handle e (DRV_OPERATION_EM_GROUPS a) z = map_option acked (lwpmudrv_Set_EM_Config e a z)"
| "handle e (DRV_OPERATION_EM_CONFIG_NEXT a) z = map_option acked (lwpmudrv_Configure_Events e a z)"
| "handle e (DRV_OPERATION_NUM_DESCRIPTOR a) z = map_option acked (lwpmudrv_Set_Sample_Descriptors e a z)"
| "handle e (DRV_OPERATION_DESC_NEXT a) z = map_option acked (lwpmudrv_Configure_Descriptors e a z)"
| "handle e (DRV_OPERATION_GET_DRIVER_STATE b) z = Some (told z (lwpmudrv_Get_Driver_State b z))"
| "handle e (DRV_OPERATION_GET_NORMALIZED_TSC clock b) z = map_option (told z) (lwpmudrv_Get_Normalized_TSC e clock b z)"
| "handle e (DRV_OPERATION_NUM_CORES b) z = Some (told z (lwpmudrv_Get_Num_Cores b z))"
| "handle e (DRV_OPERATION_TSC_SKEW_INFO b) z = map_option (told z) (lwpmudrv_Get_TSC_Skew_Info e b z)"
| "handle e DRV_OPERATION_TERMINATE z = map_option acked (lwpmudrv_Terminate e z)"
| "handle e (DRV_OPERATION_SET_CPU_TOPOLOGY a) z = map_option acked (lwpmudrv_Setup_Cpu_Topology e a z)"
| "handle e (DRV_OPERATION_READ_MSRS n b) z = lwpmudrv_Read_MSRs e n b z"
| "handle e DRV_OPERATION_SWITCH_GROUP z = map_option acked (lwpmudrv_Switch_Group e z)"
| "handle e (DRV_OPERATION_READ_MSR r n b) z = map_option (told z) (lwpmudrv_Read_MSR_All_Cores e r n b z)"
| "handle e (DRV_OPERATION_WRITE_MSR a) z = map_option acked (lwpmudrv_Write_MSR_All_Cores e a z)"
| "handle e (DRV_OPERATION_READ_SWITCH_GROUP n b) z = lwpmudrv_Read_Counters_And_Switch_Group e n b z"
| "handle e (DRV_OPERATION_READ_AND_RESET n b) z = lwpmudrv_Read_And_Reset_Counters e n b z"
| "handle e (DRV_OPERATION_INIT_UNC a) z = map_option acked (lwpmudrv_Initialize_UNC e a z)"
| "handle e DRV_OPERATION_EM_GROUPS_UNC z = map_option acked (lwpmudrv_Set_EM_Config_UNC e z)"
| "handle e (DRV_OPERATION_EM_CONFIG_NEXT_UNC a) z = map_option acked (lwpmudrv_Configure_Events_UNC e a z)"
| "handle e (DRV_OPERATION_LBR_INFO a) z = map_option acked (lwpmudrv_LBR_Info e a z)"
| "handle e (DRV_OPERATION_PWR_INFO a) z = map_option acked (lwpmudrv_PWR_Info e a z)"
| "handle e (DRV_OPERATION_INIT_NUM_DEV a) z = map_option acked (lwpmudrv_Initialize_Num_Devices e a z)"
| "handle e (DRV_OPERATION_GET_NUM_SAMPLES b) z = map_option (told z) (lwpmudrv_Get_Num_Samples b z)"
| "handle e (DRV_OPERATION_SET_DEVICE_NUM_UNITS a) z = map_option acked (lwpmudrv_Set_Device_Num_Units a z)"
| "handle e DRV_OPERATION_TIMER_TRIGGER_READ z = map_option (\<lambda>r. ((OS_SUCCESS, []), snd r)) (lwpmudrv_Trigger_Read z)"
| "handle e Unknown_Operation z = Some ((OS_ILLEGAL_IOCTL, []), z)"

text \<open>
  A stop is finished outside the lock, when the phase is still the one its preparation left. The
  compaction of the memory tracker after it does not touch this state.
\<close>

definition lwpmu_Service_IOCTL :: "env \<Rightarrow> request \<Rightarrow> session \<Rightarrow> (answer \<times> session) option" where
  "lwpmu_Service_IOCTL e r z = do { (a, z) \<leftarrow> handle e r z;
     if r = DRV_OPERATION_STOP \<and> phase_of z = PREPARE_STOP
     then map_option acked (lwpmudrv_Finish_Stop e z)
     else Some (a, z) }"

end
