(* ===== verification/Frame.thy ===== *)
theory Frame
  imports Running
begin

text \<open>
  What the routines of the dispatch tables leave alone: none of those that a request runs on all
  CPUs changes the global driver state, so only the request handlers move the phase. The facts go
  from a returned result to the state before, through binds and loops.
\<close>

named_theorems keeps \<open>a result that keeps the global driver state\<close>

section \<open>Loops\<close>

lemma foldm_keeps:
  assumes "foldm f xs s = Some t" "\<And>x s t. f x s = Some t \<Longrightarrow> g t = g s"
  shows "g t = g s"
  using foldm_inv[OF assms(1), of "\<lambda>t. g t = g s"] assms(2) by simp

lemma for_each_keeps:
  assumes "for_each a n skip body pecb s = Some t" "\<And>e s t. body e s = Some t \<Longrightarrow> g t = g s"
  shows "g t = g s"
  using assms(1) unfolding for_each_def
  by (rule foldm_keeps) (auto simp: bind_eq_Some_conv split: if_splits dest: assms(2))

lemma FOR_EACH_keeps:
  assumes body: "\<And>e s t. body e s = Some t \<Longrightarrow> g t = g s"
  shows "FOR_EACH_CCCR_REG cpu d body s = Some t \<Longrightarrow> g t = g s"
    and "FOR_EACH_CCCR_GP_REG cpu d body s = Some t \<Longrightarrow> g t = g s"
    and "FOR_EACH_ESCR_REG cpu d body s = Some t \<Longrightarrow> g t = g s"
    and "FOR_EACH_DATA_REG cpu d body s = Some t \<Longrightarrow> g t = g s"
    and "FOR_EACH_DATA_GP_REG cpu d body s = Some t \<Longrightarrow> g t = g s"
    and "FOR_EACH_REG_ENTRY cpu d body s = Some t \<Longrightarrow> g t = g s"
    and "FOR_EACH_REG_ENTRY_UNC i u body s = Some t \<Longrightarrow> g t = g s"
    and "FOR_EACH_DATA_REG_UNC i u body s = Some t \<Longrightarrow> g t = g s"
    and "FOR_EACH_PCI_DATA_REG i u bodyp s = Some t \<Longrightarrow>
      (\<And>x e s t. bodyp x e s = Some t \<Longrightarrow> g t = g s) \<Longrightarrow> g t = g s"
  by (auto simp: FOR_EACH_defs FOR_EACH_REG_ENTRY_UNC_def FOR_EACH_DATA_REG_UNC_def
      FOR_EACH_PCI_DATA_REG_def bind_eq_Some_conv dest!: for_each_keeps[where g = g] intro: body)

lemmas loop_keeps = foldm_keeps[where g = driver_state] FOR_EACH_keeps(1-6)[where g = driver_state, rotated]
lemmas loop_keeps_unc = foldm_keeps[where g = "\<lambda>u. driver_state (hw u)"]
  FOR_EACH_keeps(7,8)[where g = "\<lambda>u. driver_state (hw u)", rotated]
  FOR_EACH_keeps(9)[where g = "\<lambda>u. driver_state (hw u)" and body = "\<lambda>_ _. None", simplified]

lemma PCI_Write_Ulong_keeps [simp]: "driver_state (PCI_Write_Ulong a v s) = driver_state s"
  by (simp add: PCI_Write_Ulong_def)

lemma fold_wr_keeps [simp]: "driver_state (fold (\<lambda>(r, v). wr cpu r v) ws s) = driver_state s"
  by (induction ws arbitrary: s) auto

text \<open>For the longer routines: what holds of a result, if there is one, from the end backwards.\<close>

definition yields :: "('a \<Rightarrow> bool) \<Rightarrow> 'a option \<Rightarrow> bool" where
  "yields P r = (\<forall>t. r = Some t \<longrightarrow> P t)"

lemma yieldsD: "yields P r \<Longrightarrow> r = Some t \<Longrightarrow> P t"
  by (simp add: yields_def)

lemma yields_simps [simp]:
  "yields P (Some x) = P x" "yields P None"
  "yields P (Option.bind r f) = yields (\<lambda>x. yields P (f x)) r"
  by (auto simp: yields_def bind_eq_Some_conv)

lemma yields_read:
  "(\<And>x. P x) \<Longrightarrow> yields P (pcb s cpu)" "(\<And>f. Q f) \<Longrightarrow> yields Q (any_group_flag b s)"
  by (simp_all add: yields_def)

lemma yields_mono: "yields Q r \<Longrightarrow> (\<And>t. Q t \<Longrightarrow> P t) \<Longrightarrow> yields P r"
  by (auto simp: yields_def)

section \<open>The core drivers\<close>

lemma apic_keeps [keeps]:
  "APIC_Disable_PMI cpu s = Some t \<Longrightarrow> driver_state t = driver_state s"
  "APIC_Enable_Pmi cpu s = Some t \<Longrightarrow> driver_state t = driver_state s"
  by (auto simp: APIC_Disable_PMI_def APIC_Enable_Pmi_def Let_def bind_eq_Some_conv split: if_splits)

lemma small_keeps [keeps]:
  "set_pcpu f cpu s = Some t \<Longrightarrow> driver_state t = driver_state s"
  "set_group cpu g s = Some t \<Longrightarrow> driver_state t = driver_state s"
  "em_put cpu i v s = Some t \<Longrightarrow> driver_state t = driver_state s"
  "save_ha cpu b w s = Some t \<Longrightarrow> driver_state t = driver_state s"
  "save_qpi cpu b w s = Some t \<Longrightarrow> driver_state t = driver_state s"
  "save_pmu_state i v s = Some t \<Longrightarrow> driver_state t = driver_state s"
  by (auto simp: set_pcpu_def set_group_def em_put_def save_ha_def save_qpi_def save_pmu_state_def
      bind_eq_Some_conv)

lemma em_keeps [keeps]: "em_init_tables base cpu s = Some t \<Longrightarrow> driver_state t = driver_state s"
  by (auto simp: em_init_tables_def Let_def bind_eq_Some_conv dest!: keeps loop_keeps)

definition errata_keeps :: "errata \<Rightarrow> bool" where
  "errata_keeps he = (\<forall>cpu s t. call_errata he cpu s = Some t \<longrightarrow> driver_state t = driver_state s)"

lemma errata_keepsD: "errata_keeps he \<Longrightarrow> call_errata he cpu s = Some t \<Longrightarrow> driver_state t = driver_state s"
  by (simp add: errata_keeps_def)

lemma errata_keeps_all: "errata_keeps None" "errata_keeps (Some corei7_Errata_Fix)" "errata_keeps (Some corei7_Errata_Fix_2)"
  by (auto simp: errata_keeps_def call_errata_def corei7_Errata_Fix_def corei7_Errata_Fix_2_def Let_def)

lemma write_keeps:
  assumes "errata_keeps he"
  shows "core2_Write_PMU he cpu s = Some t \<Longrightarrow> driver_state t = driver_state s"
    and "silvermont_Write_PMU he cpu s = Some t \<Longrightarrow> driver_state t = driver_state s"
  by (auto simp: core2_Write_PMU_def silvermont_Write_PMU_def fixed_ctr0_fix_def Let_def bind_eq_Some_conv
      split: if_splits dest!: keeps loop_keeps errata_keepsD[OF assms])

lemma freeze_keeps:
  "core2_Disable_PMU cpu s = Some t \<Longrightarrow> driver_state t = driver_state s"
  "silvermont_Disable_PMU cpu s = Some t \<Longrightarrow> driver_state t = driver_state s"
  by (auto simp: core2_Disable_PMU_def silvermont_Disable_PMU_def Let_def bind_eq_Some_conv
      split: if_splits dest!: keeps loop_keeps)

lemma write_compound_ctl_keeps [keeps]: "write_compound_ctl cpu s = Some t \<Longrightarrow> driver_state t = driver_state s"
  by (auto simp: write_compound_ctl_def dest!: loop_keeps)

lemma restart_keeps:
  "core2_Enable_PMU cpu s = Some t \<Longrightarrow> driver_state t = driver_state s"
  "corei7_Enable_PMU_2 cpu s = Some t \<Longrightarrow> driver_state t = driver_state s"
  "silvermont_Enable_PMU cpu s = Some t \<Longrightarrow> driver_state t = driver_state s"
  by (auto simp: core2_Enable_PMU_def corei7_Enable_PMU_2_def silvermont_Enable_PMU_def Let_def
      bind_eq_Some_conv split: if_splits dest!: keeps)

lemma read_data_keeps:
  "core2_Read_PMU_Data cpu s = Some t \<Longrightarrow> driver_state t = driver_state s"
  "silvermont_Read_PMU_Data cpu s = Some t \<Longrightarrow> driver_state t = driver_state s"
  by (auto simp: core2_Read_PMU_Data_def silvermont_Read_PMU_Data_def Let_def bind_eq_Some_conv
      split: if_splits dest!: loop_keeps)

lemma d2c_keeps:
  "foldm (\<lambda>b s. if ha_found b s then save_ha cpu b (v b s) s else Some s) bs s = Some t \<Longrightarrow>
    driver_state t = driver_state s"
  "foldm (\<lambda>b s. if qpi_found b s then save_qpi cpu (i b) (v' b s) s else Some s) ds s = Some t \<Longrightarrow>
    driver_state t = driver_state s"
  "foldm (\<lambda>b s. Some (if ha_found b s then PCI_Write_Ulong (a b) (w b s) s else s)) bs s = Some t \<Longrightarrow>
    driver_state t = driver_state s"
  "foldm (\<lambda>b s. Some (if qpi_found b s then PCI_Write_Ulong (a' b) (w' b s) s else s)) ds s = Some t \<Longrightarrow>
    driver_state t = driver_state s"
  by (erule loop_keeps(1), auto split: if_splits dest!: keeps)+

lemma init_keeps:
  "core2_Disable_Direct2core cpu s = Some t \<Longrightarrow> driver_state t = driver_state s"
  "core2_Disable_BL_Bypass cpu s = Some t \<Longrightarrow> driver_state t = driver_state s"
  "silvermont_Initialize cpu s = Some t \<Longrightarrow> driver_state t = driver_state s"
proof -
  show "core2_Disable_Direct2core cpu s = Some t \<Longrightarrow> driver_state t = driver_state s"
    by (clarsimp simp only: core2_Disable_Direct2core_def bind_eq_Some_conv Let_def)
       (drule d2c_keeps(1), drule d2c_keeps(3), drule d2c_keeps(2), drule d2c_keeps(4), simp)
  show "core2_Disable_BL_Bypass cpu s = Some t \<Longrightarrow> driver_state t = driver_state s"
    by (auto simp: core2_Disable_BL_Bypass_def Let_def bind_eq_Some_conv)
  show "silvermont_Initialize cpu s = Some t \<Longrightarrow> driver_state t = driver_state s"
    by (auto simp: silvermont_Initialize_def Let_def bind_eq_Some_conv split: option.splits dest!: keeps)
qed

lemma init_yields:
  "yields (\<lambda>t. driver_state t = driver_state s) (save_pmu_state i v s)"
  "yields (\<lambda>t. driver_state t = driver_state s) (core2_Disable_Direct2core cpu s)"
  "yields (\<lambda>t. driver_state t = driver_state s) (core2_Disable_BL_Bypass cpu s)"
  by (auto simp: yields_def dest: keeps init_keeps)

lemma core2_Initialize_keeps:
  assumes "core2_Initialize cpu s = Some t"
  shows "driver_state t = driver_state s"
proof -
  have "yields (\<lambda>t. driver_state t = driver_state s) (core2_Initialize cpu s)"
    unfolding core2_Initialize_def Let_def
    by (auto split: option.splits intro!: yields_read init_yields[THEN yields_mono])
  then show ?thesis using assms by (rule yieldsD)
qed

lemma fini_keeps:
  "core2_Destroy cpu s = Some t \<Longrightarrow> driver_state t = driver_state s"
  "silvermont_Destroy cpu s = Some t \<Longrightarrow> driver_state t = driver_state s"
  by (auto simp: core2_Destroy_def silvermont_Destroy_def Let_def bind_eq_Some_conv split: option.splits
      dest!: keeps)

lemma d2c_yields:
  "yields (\<lambda>t. driver_state t = driver_state s)
     (foldm (\<lambda>b s. Some (if ha_found b s then PCI_Write_Ulong (a b) (w b s) s else s)) bs s)"
  "yields (\<lambda>t. driver_state t = driver_state s)
     (foldm (\<lambda>b s. Some (if qpi_found b s then PCI_Write_Ulong (a' b) (w' b s) s else s)) ds s)"
  using d2c_keeps(3)[of a w bs s] d2c_keeps(4)[of a' w' ds s] unfolding yields_def by blast+

lemma cleanup_keeps:
  "core2_Clean_Up cpu s = Some t \<Longrightarrow> driver_state t = driver_state s"
  "silvermont_Clean_Up cpu s = Some t \<Longrightarrow> driver_state t = driver_state s"
proof -
  have regs: "yields (\<lambda>t. driver_state t = driver_state s)
    (FOR_EACH_REG_ENTRY cpu s (\<lambda>e s. Some (if clean_up_get e then wr cpu (reg_id e) 0 s else s)) s)"
    unfolding yields_def by (intro allI impI, erule loop_keeps(7)) auto
  show "core2_Clean_Up cpu s = Some t \<Longrightarrow> driver_state t = driver_state s"
  proof -
    have "yields (\<lambda>t. driver_state t = driver_state s) (core2_Clean_Up cpu s)"
      unfolding core2_Clean_Up_def
      by (auto split: option.splits intro!: yields_read regs[THEN yields_mono] d2c_yields[THEN yields_mono])
    then show "core2_Clean_Up cpu s = Some t \<Longrightarrow> driver_state t = driver_state s" by (rule yieldsD)
  qed
  show "silvermont_Clean_Up cpu s = Some t \<Longrightarrow> driver_state t = driver_state s"
    using regs by (auto simp: silvermont_Clean_Up_def yields_def)
qed

section \<open>The uncore drivers\<close>

lemma upd_device_keeps [keeps]: "upd_device i f u = Some v \<Longrightarrow> hw v = hw u"
  by (auto simp: upd_device_def bind_eq_Some_conv)

lemma note_counter_mask_keeps [keeps]: "note_counter_mask i e u = Some v \<Longrightarrow> hw v = hw u"
  by (auto simp: note_counter_mask_def bind_eq_Some_conv split: if_splits dest!: keeps)

lemma unc_keeps:
  "unc_write_entry ctl i cpu e u = Some v \<Longrightarrow> driver_state (hw v) = driver_state (hw u)"
  "unc_restart ctl i cpu u = Some v \<Longrightarrow> driver_state (hw v) = driver_state (hw u)"
  "unc_clean_up i cpu u = Some v \<Longrightarrow> driver_state (hw v) = driver_state (hw u)"
  by (auto simp: unc_write_entry_def unc_restart_def unc_clean_up_def bind_eq_Some_conv
      split: if_splits dest!: keeps loop_keeps_unc)

lemma unc_read_data_keeps: "unc_read_data cpu s = Some t \<Longrightarrow> driver_state t = driver_state s"
  by (auto simp: unc_read_data_def Let_def bind_eq_Some_conv dest!: loop_keeps)

lemma unc_write_keeps: "FOR_EACH_REG_ENTRY_UNC i u (unc_write_entry ctl i cpu) u = Some v \<Longrightarrow>
  driver_state (hw v) = driver_state (hw u)"
  by (auto dest!: loop_keeps_unc unc_keeps)

lemma imc_note_prev_keeps [keeps]: "imc_note_prev i k v j u = Some w \<Longrightarrow> hw w = hw u"
  by (auto simp: imc_note_prev_def bind_eq_Some_conv dest!: keeps)

lemma imc_keeps:
  "snbunc_imc_Write_PMU rm i cpu u = Some v \<Longrightarrow> driver_state (hw v) = driver_state (hw u)"
  "snbunc_imc_Disable_PMU cpu u = Some v \<Longrightarrow> driver_state (hw v) = driver_state (hw u)"
  "snbunc_imc_Read_PMU_Data i cpu u = Some v \<Longrightarrow> driver_state (hw v) = driver_state (hw u)"
  by (auto simp: snbunc_imc_Write_PMU_def snbunc_imc_Disable_PMU_def snbunc_imc_Read_PMU_Data_def
      Let_def bind_eq_Some_conv split: if_splits dest!: keeps loop_keeps_unc)

section \<open>Every routine a request runs\<close>

definition op_keeps :: "disp_op option \<Rightarrow> bool" where
  "op_keeps f = (\<forall>g param cpu u v. f = Some g \<longrightarrow> g param cpu u = Some v \<longrightarrow> driver_state (hw v) = driver_state (hw u))"

definition sel_keeps :: "(disp_table \<Rightarrow> disp_op option) \<Rightarrow> bool" where
  "sel_keeps sel = (\<forall>rm n. op_keeps (sel (table_of rm n)))"

lemma op_keepsI:
  "(\<And>cpu s t. f cpu s = Some t \<Longrightarrow> driver_state t = driver_state s) \<Longrightarrow> op_keeps (core_op f)"
  "(\<And>i cpu u v. h i cpu u = Some v \<Longrightarrow> driver_state (hw v) = driver_state (hw u)) \<Longrightarrow> op_keeps (unc_op h)"
  "(\<And>cpu u v. k cpu u = Some v \<Longrightarrow> driver_state (hw v) = driver_state (hw u)) \<Longrightarrow> op_keeps (cpu_op k)"
  "op_keeps None"
  by (auto simp: op_keeps_def core_op_def unc_op_def cpu_op_def on_hw_def bind_eq_Some_conv)

lemmas table_defs = core_table_def unc_table_def core2_dispatch_def corei7_dispatch_def corei7_dispatch_2_def
  corei7_dispatch_htoff_mode_def corei7_dispatch_htoff_mode_2_def silvermont_dispatch_def

lemma sel_keepsI: "(\<And>rm n. op_keeps (sel (table_of rm n))) \<Longrightarrow> sel_keeps sel"
  by (simp add: sel_keeps_def)

lemma sel_keeps_all [simp]:
  "sel_keeps t_init" "sel_keeps t_fini" "sel_keeps t_write" "sel_keeps t_freeze" "sel_keeps t_restart"
  "sel_keeps t_read_data" "sel_keeps t_cleanup"
proof -
  show "sel_keeps t_init"
  proof (rule sel_keepsI)
    show "op_keeps (t_init (table_of rm n))" for rm n
      by (cases n) (auto simp: table_defs intro!: op_keepsI dest: core2_Initialize_keeps init_keeps(3))
  qed
  show "sel_keeps t_fini"
  proof (rule sel_keepsI)
    show "op_keeps (t_fini (table_of rm n))" for rm n
      by (cases n) (auto simp: table_defs intro!: op_keepsI dest: fini_keeps)
  qed
  show "sel_keeps t_write"
  proof (rule sel_keepsI)
    show "op_keeps (t_write (table_of rm n))" for rm n
      by (cases n) (auto simp: table_defs corei7_unc_Write_PMU_def snbunc_cbo_Write_PMU_def haswellunc_ncu_Write_PMU_def
          intro!: op_keepsI dest: write_keeps[OF errata_keeps_all(1)] write_keeps[OF errata_keeps_all(2)]
            write_keeps[OF errata_keeps_all(3)] unc_write_keeps imc_keeps)
  qed
  show "sel_keeps t_freeze"
  proof (rule sel_keepsI)
    show "op_keeps (t_freeze (table_of rm n))" for rm n
      by (cases n) (auto simp: table_defs corei7_unc_Disable_PMU_def snbunc_cbo_Disable_PMU_def
          haswellunc_ncu_Disable_PMU_def intro!: op_keepsI dest: freeze_keeps imc_keeps)
  qed
  show "sel_keeps t_restart"
  proof (rule sel_keepsI)
    show "op_keeps (t_restart (table_of rm n))" for rm n
      by (cases n) (auto simp: table_defs corei7_unc_Enable_PMU_def snbunc_cbo_Enable_PMU_def
          haswellunc_ncu_Enable_PMU_def intro!: op_keepsI dest: restart_keeps unc_keeps)
  qed
  show "sel_keeps t_read_data"
  proof (rule sel_keepsI)
    show "op_keeps (t_read_data (table_of rm n))" for rm n
      by (cases n) (auto simp: table_defs corei7_unc_Read_PMU_Data_def snbunc_cbo_Read_PMU_Data_def
          haswellunc_ncu_Read_PMU_Data_def on_hw_def bind_eq_Some_conv
          intro!: op_keepsI dest!: unc_read_data_keeps dest: read_data_keeps imc_keeps)
  qed
  show "sel_keeps t_cleanup"
  proof (rule sel_keepsI)
    show "op_keeps (t_cleanup (table_of rm n))" for rm n
      by (cases n) (auto simp: table_defs corei7_unc_Clean_Up_def snbunc_cbo_Clean_Up_def
          haswellunc_ncu_Clean_Up_def snbunc_imc_Clean_Up_def intro!: op_keepsI dest: cleanup_keeps unc_keeps)
  qed
qed

section \<open>On all CPUs, and on every unit\<close>

lemma call_op_keeps:
  assumes "sel_keeps sel" "call_op sel rm d param cpu u = Some v"
  shows "driver_state (hw v) = driver_state (hw u)"
  using assms by (auto simp: call_op_def sel_keeps_def op_keeps_def bind_eq_Some_conv)

text \<open>Such a call touches the machine and the units only.\<close>

definition same_but_un :: "session \<Rightarrow> session \<Rightarrow> bool" where
  "same_but_un z z' = (\<exists>u. z' = z\<lparr>un := u\<rparr> \<and> driver_state (hw u) = driver_state (drv_of z))"

lemma same_but_un_refl: "same_but_un z z"
  by (rule exI[of _ "un z", THEN same_but_un_def[THEN iffD2]]) simp

lemma same_but_un_trans: "same_but_un z z1 \<Longrightarrow> same_but_un z1 z2 \<Longrightarrow> same_but_un z z2"
  by (auto simp: same_but_un_def)

lemma same_but_unD:
  assumes "same_but_un z z'"
  shows "driver_state (drv_of z') = driver_state (drv_of z)" "pcfg_set z' = pcfg_set z" "ec_set z' = ec_set z"
    "disp z' = disp z" "in_interrupt z' = in_interrupt z" "cpu_mask_bits z' = cpu_mask_bits z"
    "in_finish_code z' = in_finish_code z" "desc_data z' = desc_data z" "outp z' = outp z"
  using assms by (auto simp: same_but_un_def)

lemma run_all_same: 
  assumes "sel_keeps sel" "run_all e sel d param z = Some z'"
  shows "same_but_un z z'"
proof -
  have step: "same_but_un z (z1\<lparr>un := u\<rparr>)" if "same_but_un z z1" "call_op sel (remap e) d param cpu (un z1) = Some u"
    for z1 cpu u
    using that(1) call_op_keeps[OF assms(1) that(2)] unfolding same_but_un_def
    by (intro exI[of _ u]) auto
  show ?thesis
    using assms(2) unfolding run_all_def on_all_cpus_def CONTROL_Invoke_Parallel_Service_def
    by (rule foldm_inv) (auto simp: same_but_un_refl bind_eq_Some_conv intro: step)
qed

end
