(* ===== verification/Phases.thy ===== *)
theory Phases
  imports Frame "HOL-Library.Sublist"
begin

text \<open>
  The phases of a session as a protocol: which request moves the driver along which edge, for
  every request the dispatcher serves, and what a running session must have been asked before.
\<close>

section \<open>What the helpers of the requests leave alone\<close>

lemmas yields_same = run_all_same [OF sel_keeps_all(1)] run_all_same [OF sel_keeps_all(2)]
  run_all_same [OF sel_keeps_all(3)] run_all_same [OF sel_keeps_all(4)] run_all_same [OF sel_keeps_all(5)]
  run_all_same [OF sel_keeps_all(6)] run_all_same [OF sel_keeps_all(7)]

lemma note_me_same: "same_but_un z (z\<lparr>un := (un z)\<lparr>invoking_processor_id := i\<rparr>\<rparr>)"
  unfolding same_but_un_def by (rule exI, rule conjI, rule refl) simp

lemma call_device_same:
  assumes s: "sel_keeps sel" and r: "call_device e sel ebc note_me j z = Some z'"
  shows "same_but_un z z'"
proof -
  from r obtain d where d: "list_at (devices (un z)) j = Some d" by (auto simp: call_device_def bind_eq_Some_conv)
  show ?thesis
  proof (cases "\<exists>cfg n. pcfg_unc d = Some cfg \<and> dispatch_unc d = Some n \<and>
      (ebc \<longrightarrow> event_based_counts cfg) \<and> sel (table_of (remap e) n) \<noteq> None")
    case True
    then obtain cfg n where c: "pcfg_unc d = Some cfg" "dispatch_unc d = Some n"
      "(ebc \<longrightarrow> event_based_counts cfg) \<and> sel (table_of (remap e) n) \<noteq> None" by blast
    have "run_all e sel (Some n) (Some j) (if note_me then z\<lparr>un := (un z)\<lparr>invoking_processor_id := me e\<rparr>\<rparr> else z) = Some z'"
      using r d c by (simp only: call_device_def Option.bind.bind_lunit option.case prod.case if_True) simp
    from run_all_same[OF s this] show ?thesis
      by (cases note_me) (auto intro: same_but_un_trans[OF note_me_same])
  next
    case False
    then have "z' = z" using r d by (auto simp: call_device_def split: option.split_asm if_splits)
    then show ?thesis by (simp add: same_but_un_refl)
  qed
qed

lemma call_devices_same:
  assumes "sel_keeps sel" "call_devices e sel ebc note_me z = Some z'"
  shows "same_but_un z z'"
  using assms(2) unfolding call_devices_def
  by (rule foldm_inv) (auto intro: same_but_un_refl same_but_un_trans call_device_same[OF assms(1)])

text \<open>The global driver state, through the loops over the CPUs.\<close>

abbreviation ds :: "session \<Rightarrow> global_state" where "ds z \<equiv> driver_state (drv_of z)"

lemma for_cpus_ds: "for_cpus f z = Some z' \<Longrightarrow> ds z' = ds z"
  unfolding for_cpus_def by (erule foldm_keeps) (auto simp: bind_eq_Some_conv)

lemma on_all_cpus_ds:
  assumes "on_all_cpus e f z = Some z'" "\<And>cpu z z'. f cpu z = Some z' \<Longrightarrow> ds z' = ds z"
  shows "ds z' = ds z"
  using assms(1) unfolding on_all_cpus_def CONTROL_Invoke_Parallel_Service_def
  by (rule foldm_keeps) (rule assms(2))

lemma run_all_ds: "sel_keeps sel \<Longrightarrow> run_all e sel d param z = Some z' \<Longrightarrow> ds z' = ds z"
  using run_all_same same_but_unD(1) by blast

lemma call_devices_ds: "sel_keeps sel \<Longrightarrow> call_devices e sel ebc note_me z = Some z' \<Longrightarrow> ds z' = ds z"
  using call_devices_same same_but_unD(1) by blast

lemma upd_dev_ds: "upd_dev i f z = Some z' \<Longrightarrow> ds z' = ds z"
  by (auto simp: upd_dev_def bind_eq_Some_conv dest: keeps)

lemma on_drv_ds: "on_drv f z = Some z' \<Longrightarrow> (\<And>s t. f s = Some t \<Longrightarrow> driver_state t = driver_state s) \<Longrightarrow> ds z' = ds z"
  by (auto simp: on_drv_def on_hw_def bind_eq_Some_conv)

lemma Allocate_Restore_Buffer_ds: "lwpmudrv_Allocate_Restore_Buffer e z = Some (st, z') \<Longrightarrow> ds z' = ds z"
  by (auto simp: lwpmudrv_Allocate_Restore_Buffer_def Let_def split: if_splits)

lemma Free_Restore_Buffer_ds [simp]: "ds (lwpmudrv_Free_Restore_Buffer z) = ds z"
  by (simp add: lwpmudrv_Free_Restore_Buffer_def)

lemma timers_ds:
  "eventmux_Allocate_Groups m n cpu z = Some z' \<Longrightarrow> ds z' = ds z"
  "eventmux_Deallocate_Groups cpu z = Some z' \<Longrightarrow> ds z' = ds z"
  "eventmux_Start_Timers d cpu z = Some z' \<Longrightarrow> ds z' = ds z"
  "eventmux_Prepare_Timer_Threads e cpu kz = Some kz' \<Longrightarrow> ds (snd kz') = ds (snd kz)"
  by (auto simp: eventmux_Allocate_Groups_def eventmux_Deallocate_Groups_def eventmux_Start_Timers_def
      eventmux_Prepare_Timer_Threads_def bind_eq_Some_conv Let_def split: prod.split_asm if_splits)

lemma Cancel_Timers_ds: "eventmux_Cancel_Timers z = Some z' \<Longrightarrow> ds z' = ds z"
  unfolding eventmux_Cancel_Timers_def by (erule foldm_keeps) (auto simp: bind_eq_Some_conv)

lemma timers_all_ds:
  "on_all_cpus e (eventmux_Allocate_Groups m n) z = Some z' \<Longrightarrow> ds z' = ds z"
  "on_all_cpus e eventmux_Deallocate_Groups z = Some z' \<Longrightarrow> ds z' = ds z"
  "on_all_cpus e (eventmux_Start_Timers d) z = Some z' \<Longrightarrow> ds z' = ds z"
  by (erule on_all_cpus_ds, rule timers_ds, assumption)+

lemma EVENTMUX_ds:
  "EVENTMUX_Start e z = Some z' \<Longrightarrow> ds z' = ds z"
  "EVENTMUX_Destroy e z = Some z' \<Longrightarrow> ds z' = ds z"
  by (auto simp: EVENTMUX_Start_def EVENTMUX_Destroy_def Let_def bind_eq_Some_conv split: if_splits
      dest!: Cancel_Timers_ds timers_all_ds)

lemma EVENTMUX_Initialize_ds:
  assumes "EVENTMUX_Initialize e k z = Some z'"
  shows "ds z' = ds z"
proof -
  have prep: "CONTROL_Invoke_Parallel i n (eventmux_Prepare_Timer_Threads e) (k, z) = Some (k', z') \<Longrightarrow> ds z' = ds z"
    for i n k k' and z z' :: session
    using foldm_keeps[where g = "\<lambda>kz. ds (snd kz)" and f = "eventmux_Prepare_Timer_Threads e" and s = "(k, z)" and t = "(k', z')"]
      timers_ds(4) unfolding CONTROL_Invoke_Parallel_Service_def by fastforce
  show ?thesis using assms
    by (auto simp: EVENTMUX_Initialize_def Let_def bind_eq_Some_conv split: if_splits prod.split_asm
        dest!: prep timers_all_ds)
qed

section \<open>Stopping and cleaning up\<close>

lemma cpumon_keeps:
  "cpumon_Save_Cpu c ks = Some ks' \<Longrightarrow> driver_state (snd ks') = driver_state (snd ks)"
  "cpumon_Init_Cpu pk c ks = Some ks' \<Longrightarrow> driver_state (snd ks') = driver_state (snd ks)"
  "cpumon_Destroy_Cpu pk c ks = Some ks' \<Longrightarrow> driver_state (snd ks') = driver_state (snd ks)"
  by (auto simp: cpumon_Save_Cpu_def cpumon_Init_Cpu_def cpumon_Destroy_Cpu_def Let_def bind_eq_Some_conv
      split: prod.split_asm dest!: keeps)

lemma apic_fold_keeps [simp]: "driver_state (fold (\<lambda>(r, v). apic_put c r v) ws s) = driver_state s"
  by (induction ws arbitrary: s) auto

lemma APIC_keeps:
  "APIC_Init rm c lks = Some lks' \<Longrightarrow> driver_state (snd (snd lks')) = driver_state (snd (snd lks))"
  "APIC_Install_Interrupt_Handler c s = Some t \<Longrightarrow> driver_state t = driver_state s"
  "APIC_Deinit_Phase1 c s = Some t \<Longrightarrow> driver_state t = driver_state s"
  by (auto simp: APIC_Init_def APIC_Install_Interrupt_Handler_def APIC_Deinit_Phase1_def Let_def bind_eq_Some_conv
      split: if_splits prod.split_asm)

lemma parallel_keeps:
  assumes "CONTROL_Invoke_Parallel_Service ex i n f s = Some t" "\<And>c s t. f c s = Some t \<Longrightarrow> g t = g s"
  shows "g t = g s"
  using assms unfolding CONTROL_Invoke_Parallel_Service_def by (rule foldm_keeps)

lemma Remove_keeps:
  assumes "CPUMON_Remove_Cpuhooks pk i n ks = Some (k, t)"
  shows "driver_state t = driver_state (snd ks)"
proof -
  from assms obtain ks1 k2 s2 where r: "cpumon_Destroy_Cpu pk i ks = Some ks1"
    "CONTROL_Invoke_Parallel_XS i n (cpumon_Destroy_Cpu pk) ks1 = Some (k2, s2)"
    "foldm APIC_Deinit_Phase1 [0 ..< n] s2 = Some t"
    by (auto simp: CPUMON_Remove_Cpuhooks_def bind_eq_Some_conv)
  have "driver_state t = driver_state s2" using r(3) by (rule loop_keeps(1)) (rule APIC_keeps)
  also have "\<dots> = driver_state (snd ks1)"
    using parallel_keeps[where g = "\<lambda>ks. driver_state (snd ks)", OF r(2)] cpumon_keeps(3) by auto
  also have "\<dots> = driver_state (snd ks)" by (rule cpumon_keeps) (rule r)
  finally show ?thesis .
qed

lemma Install_keeps:
  assumes "CPUMON_Install_Cpuhooks pk rm i n ks = Some (k, t)"
  shows "driver_state t = driver_state (snd ks)"
proof -
  from assms obtain ks1 ks2 lks lks1 l1 k1 s1 where r: "CONTROL_Invoke_Parallel i n cpumon_Save_Cpu ks = Some ks1"
    "CONTROL_Invoke_Parallel i n (cpumon_Init_Cpu pk) ks1 = Some ks2" "APIC_Init rm i (0, ks2) = Some lks"
    "CONTROL_Invoke_Parallel i n (APIC_Init rm) lks = Some (l1, k1, s1)"
    "CONTROL_Invoke_Parallel i n APIC_Install_Interrupt_Handler s1 = Some t"
    by (auto simp: CPUMON_Install_Cpuhooks_def bind_eq_Some_conv split: prod.split_asm)
  have "driver_state t = driver_state s1" using r(5) by (rule parallel_keeps) (rule APIC_keeps)
  also have "\<dots> = driver_state (snd (snd lks))"
    using parallel_keeps[where g = "\<lambda>x. driver_state (snd (snd x))", OF r(4)] APIC_keeps(1) by auto
  also have "\<dots> = driver_state (snd ks2)" using APIC_keeps(1)[OF r(3)] by simp
  also have "\<dots> = driver_state (snd ks1)"
    by (rule parallel_keeps[where g = "\<lambda>ks. driver_state (snd ks)", OF r(2)]) (rule cpumon_keeps)
  also have "\<dots> = driver_state (snd ks)"
    by (rule parallel_keeps[where g = "\<lambda>ks. driver_state (snd ks)", OF r(1)]) (rule cpumon_keeps)
  finally show ?thesis .
qed

lemma mem_keeps [simp]: "driver_state (mem_wr a v s) = driver_state s"
  by (simp add: mem_wr_def)

lemma threshold_keeps [simp]: "driver_state (pebs_initialize_threshold k d n s) = driver_state s"
  by (cases k) (simp_all add: pebs_Corei7_Initialize_Threshold_def pebs_Core2_Initialize_Threshold_def Let_def)

lemma PEBS_keeps:
  "pebs_Deallocate_Buffers c s = Some t \<Longrightarrow> driver_state t = driver_state s"
  "pebs_Allocate_Buffers n c s = Some t \<Longrightarrow> driver_state t = driver_state s"
  by (auto simp: pebs_Deallocate_Buffers_def pebs_Allocate_Buffers_def pebs_Alloc_DTS_Buffer_def Let_def
      bind_eq_Some_conv split: if_splits option.split_asm)

lemma PEBS_session_keeps:
  "PEBS_Destroy cs s = Some t \<Longrightarrow> driver_state t = driver_state s"
  "PEBS_Initialize cs m s = Some t \<Longrightarrow> driver_state t = driver_state s"
proof -
  have f: "foldm pebs_Deallocate_Buffers cs s = Some t \<Longrightarrow> driver_state t = driver_state s"
    "foldm (pebs_Allocate_Buffers n) cs s = Some t \<Longrightarrow> driver_state t = driver_state s" for n s t
    by (erule foldm_keeps[where g = driver_state], erule PEBS_keeps)+
  show "PEBS_Destroy cs s = Some t \<Longrightarrow> driver_state t = driver_state s"
    "PEBS_Initialize cs m s = Some t \<Longrightarrow> driver_state t = driver_state s"
    by (auto simp: PEBS_Destroy_def PEBS_Initialize_def Let_def bind_eq_Some_conv split: if_splits prod.split_asm
        dest!: f)
qed

lemma phase_set_phase [simp]: "phase_of (set_phase ph z) = ph"
  by (simp add: set_phase_def)

lemma signal_end_phase [simp]: "phase_of (signal_end z) = phase_of z"
  by (simp add: signal_end_def)

lemma clean_device_ds: "clean_device i z = Some z' \<Longrightarrow> ds z' = ds z"
  by (auto simp: clean_device_def bind_eq_Some_conv split: if_splits dest!: keeps)

lemma Clean_Up_phase:
  assumes "lwpmudrv_Clean_Up e fin z = Some z'"
  shows "phase_of z' = phase_of z"
proof -
  have d: "foldm clean_device is z = Some z' \<Longrightarrow> ds z' = ds z" for "is" z z'
    by (erule foldm_keeps[where g = ds]) (rule clean_device_ds)
  show ?thesis using assms
    by (auto simp: lwpmudrv_Clean_Up_def Let_def bind_eq_Some_conv split: if_splits
        dest!: d run_all_ds[OF sel_keeps_all(2)])
qed

lemma wait_and_freeze_phase: "wait_and_freeze e z = Some z' \<Longrightarrow> ds z' = ds z"
  by (auto simp: wait_and_freeze_def refuse_interrupts_def bind_eq_Some_conv split: if_splits
      dest!: for_cpus_ds run_all_ds[OF sel_keeps_all(4)])

section \<open>The edges\<close>

text \<open>
  What each request may do to the phase, besides leaving it as it is; a stop never does. A configuring request that
  fails cleans up and leaves the driver uninitialised; a session may start paused; and a group switch pauses, and
  resumes unless the session was to start paused.
\<close>

inductive phase_edge :: "request \<Rightarrow> phase \<Rightarrow> phase \<Rightarrow> bool" where
  stay: "r \<noteq> DRV_OPERATION_STOP \<Longrightarrow> phase_edge r p p"
| reserve: "phase_edge (DRV_OPERATION_RESERVE ok) UNINITIALIZED RESERVED"
| init: "p' \<in> {IDLE, UNINITIALIZED} \<Longrightarrow> phase_edge (DRV_OPERATION_INIT b) RESERVED p'"
| start: "p' \<in> {RUNNING, PAUSED} \<Longrightarrow> phase_edge DRV_OPERATION_START IDLE p'"
| pause: "phase_edge DRV_OPERATION_PAUSE RUNNING PAUSED"
| resume: "phase_edge DRV_OPERATION_RESUME PAUSED RUNNING"
| switch: "p \<in> {RUNNING, PAUSED} \<Longrightarrow> p' \<in> {RUNNING, PAUSED} \<Longrightarrow> phase_edge DRV_OPERATION_SWITCH_GROUP p p'"
| read_switch: "phase_edge (DRV_OPERATION_READ_SWITCH_GROUP n b) PAUSED RUNNING"
| read_reset: "phase_edge (DRV_OPERATION_READ_AND_RESET n b) PAUSED RUNNING"
| stop: "p' \<in> {STOPPED, PREPARE_STOP} \<Longrightarrow> phase_edge DRV_OPERATION_STOP p p'"
| terminate: "phase_edge DRV_OPERATION_TERMINATE STOPPED UNINITIALIZED"

inductive_cases phase_edgeE: "phase_edge r p p'"
inductive_simps phase_edge_stop: "phase_edge DRV_OPERATION_STOP p p'"

section \<open>The handlers\<close>

lemma Initialize_sampling_phase:
  assumes "Initialize_sampling e z = Some (st, z')"
  shows "phase_of z' = phase_of z \<or> phase_of z' = UNINITIALIZED \<and> st \<noteq> OS_SUCCESS"
  using assms
  by (auto simp: Initialize_sampling_def Let_def bind_eq_Some_conv split: if_splits prod.split_asm
      dest!: Clean_Up_phase Install_keeps on_drv_ds[OF _ PEBS_session_keeps(2)])

lemma fresh_nodes_ds [simp]: "ds (fresh_nodes z) = ds z"
  by (simp add: fresh_nodes_def)

lemma Initialize_phase:
  assumes "lwpmudrv_Initialize e b z = Some (st, z')"
  shows "phase_edge (DRV_OPERATION_INIT b) (phase_of z) (phase_of z')"
proof (cases "phase_of z = RESERVED")
  case True
  with assms have "phase_of z' \<in> {IDLE, UNINITIALIZED, RESERVED}"
    by (auto simp: lwpmudrv_Initialize_def Let_def split: if_splits option.split_asm
        dest!: Initialize_sampling_phase)
  then consider "phase_of z' \<in> {IDLE, UNINITIALIZED}" | "phase_of z' = RESERVED" by blast
  then show ?thesis
  proof cases
    case 1
    then show ?thesis unfolding True by (rule init)
  next
    case 2
    then show ?thesis using True by (simp add: stay)
  qed
next
  case False
  with assms have "z' = z" by (auto simp: lwpmudrv_Initialize_def split: option.split_asm prod.split_asm)
  then show ?thesis by (simp add: stay)
qed

text \<open>The driver is given back by a configuring request only if that fails.\<close>

lemma Initialize_gives_back:
  assumes "lwpmudrv_Initialize e b z = Some (st, z')" "phase_of z' = UNINITIALIZED" "phase_of z \<noteq> UNINITIALIZED"
  shows "phase_of z = RESERVED \<and> st \<noteq> OS_SUCCESS"
  using assms
  by (auto simp: lwpmudrv_Initialize_def Let_def split: if_splits option.split_asm dest!: Initialize_sampling_phase)

lemma Terminate_phase:
  assumes "lwpmudrv_Terminate e z = Some (st, z')"
  shows "phase_edge DRV_OPERATION_TERMINATE (phase_of z) (phase_of z')"
  using assms by (auto simp: lwpmudrv_Terminate_def bind_eq_Some_conv split: if_splits
      dest!: Clean_Up_phase intro: stay terminate)

lemma yields_reads:
  "(\<And>x. P x) \<Longrightarrow> yields P (list_at xs i)" "(\<And>x. Q x) \<Longrightarrow> yields Q (list_put xs i v)"
  "(\<And>x. R x) \<Longrightarrow> yields R (copied b)" "(\<And>x. S x) \<Longrightarrow> yields S (unc_rows e q z)"
  "(\<And>x. T x) \<Longrightarrow> yields T (q' :: ecb option)"
  by (simp_all add: yields_def)

text \<open>The configuring requests and the ones that read or write registers stay.\<close>

lemma uncore_requests_stay:
  "lwpmudrv_Initialize_Num_Devices e a z = Some (st, z') \<Longrightarrow> phase_of z' = phase_of z"
  "lwpmudrv_Initialize_UNC e a2 z = Some (st, z') \<Longrightarrow> phase_of z' = phase_of z"
  "lwpmudrv_Set_Device_Num_Units a z = Some (st, z') \<Longrightarrow> phase_of z' = phase_of z"
  "lwpmudrv_Set_EM_Config_UNC e z = Some (st, z') \<Longrightarrow> phase_of z' = phase_of z"
  "lwpmudrv_Configure_Events_UNC e a3 z = Some (st, z') \<Longrightarrow> phase_of z' = phase_of z"
proof -
  show "lwpmudrv_Initialize_Num_Devices e a z = Some (st, z') \<Longrightarrow> phase_of z' = phase_of z"
  proof -
    have "yields (\<lambda>r. phase_of (snd r) = phase_of z) (lwpmudrv_Initialize_Num_Devices e a z)"
      unfolding lwpmudrv_Initialize_Num_Devices_def Let_def by (auto intro!: yields_reads split: prod.split)
    then show "lwpmudrv_Initialize_Num_Devices e a z = Some (st, z') \<Longrightarrow> phase_of z' = phase_of z"
      by (auto dest: yieldsD)
  qed
  show "lwpmudrv_Initialize_UNC e a2 z = Some (st, z') \<Longrightarrow> phase_of z' = phase_of z"
    by (auto simp: lwpmudrv_Initialize_UNC_def Let_def bind_eq_Some_conv split: if_splits prod.split_asm dest!: upd_dev_ds)
  show "lwpmudrv_Set_Device_Num_Units a z = Some (st, z') \<Longrightarrow> phase_of z' = phase_of z"
    by (auto simp: lwpmudrv_Set_Device_Num_Units_def Let_def bind_eq_Some_conv split: if_splits prod.split_asm dest!: upd_dev_ds)
  show "lwpmudrv_Set_EM_Config_UNC e z = Some (st, z') \<Longrightarrow> phase_of z' = phase_of z"
    by (auto simp: lwpmudrv_Set_EM_Config_UNC_def Let_def bind_eq_Some_conv split: if_splits prod.split_asm dest!: upd_dev_ds)
  have d: "yields (\<lambda>y. ds y = ds x) (upd_dev i f x)" for i f x
    by (auto simp: yields_def dest: upd_dev_ds)
  have "yields (\<lambda>r. phase_of (snd r) = phase_of z) (lwpmudrv_Configure_Events_UNC e a3 z)"
    unfolding lwpmudrv_Configure_Events_UNC_def Let_def
    by (auto intro!: d[THEN yields_mono] yields_reads split: prod.split)
  then show "lwpmudrv_Configure_Events_UNC e a3 z = Some (st, z') \<Longrightarrow> phase_of z' = phase_of z"
    by (auto dest: yieldsD)
qed

lemma config_requests_stay:
  "lwpmudrv_Set_EM_Config e a z = Some (st, z') \<Longrightarrow> phase_of z' = phase_of z"
  "lwpmudrv_Configure_Events e a2 z = Some (st, z') \<Longrightarrow> phase_of z' = phase_of z"
  "lwpmudrv_Set_Sample_Descriptors e a3 z = Some (st, z') \<Longrightarrow> phase_of z' = phase_of z"
  "lwpmudrv_Configure_Descriptors e a4 z = Some (st, z') \<Longrightarrow> phase_of z' = phase_of z"
  "lwpmudrv_LBR_Info e a5 z = Some (st, z') \<Longrightarrow> phase_of z' = phase_of z"
  "lwpmudrv_PWR_Info e a5 z = Some (st, z') \<Longrightarrow> phase_of z' = phase_of z"
  "lwpmudrv_Set_CPU_Mask e a6 z = Some (st, z') \<Longrightarrow> phase_of z' = phase_of z"
proof -
  show "lwpmudrv_Set_EM_Config e a z = Some (st, z') \<Longrightarrow> phase_of z' = phase_of z"
    by (auto simp: lwpmudrv_Set_EM_Config_def Let_def bind_eq_Some_conv split: if_splits prod.split_asm dest!: for_cpus_ds EVENTMUX_Initialize_ds)
  show "lwpmudrv_Configure_Events e a2 z = Some (st, z') \<Longrightarrow> phase_of z' = phase_of z"
    by (auto simp: lwpmudrv_Configure_Events_def Let_def bind_eq_Some_conv split: if_splits prod.split_asm)
  show "lwpmudrv_Set_Sample_Descriptors e a3 z = Some (st, z') \<Longrightarrow> phase_of z' = phase_of z"
    by (auto simp: lwpmudrv_Set_Sample_Descriptors_def Let_def bind_eq_Some_conv split: if_splits prod.split_asm)
  show "lwpmudrv_Configure_Descriptors e a4 z = Some (st, z') \<Longrightarrow> phase_of z' = phase_of z"
    by (auto simp: lwpmudrv_Configure_Descriptors_def Let_def bind_eq_Some_conv split: if_splits prod.split_asm)
  show "lwpmudrv_LBR_Info e a5 z = Some (st, z') \<Longrightarrow> phase_of z' = phase_of z"
    by (auto simp: lwpmudrv_LBR_Info_def Let_def bind_eq_Some_conv split: if_splits prod.split_asm)
  show "lwpmudrv_PWR_Info e a5 z = Some (st, z') \<Longrightarrow> phase_of z' = phase_of z"
    by (auto simp: lwpmudrv_PWR_Info_def Let_def bind_eq_Some_conv split: if_splits prod.split_asm)
  show "lwpmudrv_Set_CPU_Mask e a6 z = Some (st, z') \<Longrightarrow> phase_of z' = phase_of z"
    by (auto simp: lwpmudrv_Set_CPU_Mask_def Let_def bind_eq_Some_conv split: if_splits prod.split_asm dest!: for_cpus_ds EVENTMUX_Initialize_ds)
qed

lemma Setup_Cpu_Topology_stays:
  assumes "lwpmudrv_Setup_Cpu_Topology e a z = Some (st, z')"
  shows "phase_of z' = phase_of z"
proof -
  have f: "foldm (topology_entry topo) is z = Some z' \<Longrightarrow> ds z' = ds z" for topo "is" z z'
    by (erule foldm_keeps[where g = ds]) (auto simp: topology_entry_def Let_def bind_eq_Some_conv)
  show ?thesis using assms
    by (auto simp: lwpmudrv_Setup_Cpu_Topology_def bind_eq_Some_conv split: if_splits prod.split_asm dest!: f)
qed

lemma Write_MSR_stays:
  assumes "lwpmudrv_Write_MSR_All_Cores e a z = Some (st, z')"
  shows "phase_of z' = phase_of z"
proof -
  have f: "on_all_cpus e (lwpmudrv_Write_MSR r v) z = Some z' \<Longrightarrow> ds z' = ds z" for r v z z'
    by (erule on_all_cpus_ds) (auto simp: lwpmudrv_Write_MSR_def split: if_splits)
  show ?thesis using assms
    by (auto simp: lwpmudrv_Write_MSR_All_Cores_def bind_eq_Some_conv split: if_splits prod.split_asm dest!: f)
qed

lemma copy_counter_ds: "copy_counter j z = Some z' \<Longrightarrow> ds z' = ds z"
  by (auto simp: copy_counter_def bind_eq_Some_conv)

lemma gather_entry_ds:
  assumes "gather_entry st u e evz = Some evz'"
  shows "ds (snd evz') = ds (snd evz)"
proof -
  have "foldm (\<lambda>pkg. foldm (\<lambda>inst. copy_counter (j pkg inst)) is) js z = Some z' \<Longrightarrow> ds z' = ds z"
    for j "is" js z z'
    by (erule foldm_keeps[where g = ds], erule foldm_keeps[where g = ds], erule copy_counter_ds)
  then show ?thesis using assms
    by (auto simp: gather_entry_def Let_def bind_eq_Some_conv split: prod.split_asm if_splits dest!: copy_counter_ds)
qed

lemma gather_device_ds:
  assumes "gather_device e i evz = Some evz'"
  shows "ds (snd evz') = ds (snd evz)"
proof -
  have f: "for_each a n sk (gather_entry st u) q evz = Some evz' \<Longrightarrow> ds (snd evz') = ds (snd evz)" for a n sk st u q evz evz'
    by (erule for_each_keeps[where g = "\<lambda>x. ds (snd x)"]) (rule gather_entry_ds)
  obtain ev z where evz: "evz = (ev, z)" by (cases evz)
  with assms obtain d where d: "list_at (devices (un z)) i = Some d"
    by (auto simp: gather_device_def bind_eq_Some_conv)
  show ?thesis
    using assms d by (cases "pcfg_unc d"; cases "dispatch_unc d")
      (auto simp: evz gather_device_def bind_eq_Some_conv split: if_splits dest!: f run_all_ds[OF sel_keeps_all(6)])
qed

lemma Read_MSRs_stays:
  assumes "lwpmudrv_Read_MSRs e n b z = Some (a, z')"
  shows "phase_of z' = phase_of z"
proof -
  have f: "foldm (gather_device e) is evz = Some evz' \<Longrightarrow> ds (snd evz') = ds (snd evz)" for "is" evz evz'
    by (erule foldm_keeps[where g = "\<lambda>x. ds (snd x)"]) (rule gather_device_ds)
  show ?thesis using assms
    by (auto simp: lwpmudrv_Read_MSRs_def Let_def bind_eq_Some_conv split: if_splits prod.split_asm
        dest!: f run_all_ds[OF sel_keeps_all(6)])
qed

lemma Init_PMU_stays: "lwpmudrv_Init_PMU e z = Some (st, z') \<Longrightarrow> phase_of z' = phase_of z"
  by (auto simp: lwpmudrv_Init_PMU_def bind_eq_Some_conv split: if_splits prod.split_asm
      dest!: Allocate_Restore_Buffer_ds run_all_ds[OF sel_keeps_all(1)] run_all_ds[OF sel_keeps_all(3)]
        call_devices_ds[OF sel_keeps_all(3)])

lemma Trigger_Read_stays: "lwpmudrv_Trigger_Read z = Some (st, z') \<Longrightarrow> phase_of z' = phase_of z"
  by (auto simp: lwpmudrv_Trigger_Read_def bind_eq_Some_conv split: if_splits
      dest!: foldm_keeps[where g = ds])

text \<open>Starting, pausing, resuming and stopping.\<close>

lemma cr4_tsc_ds:
  "on_all_cpus e lwpmudrv_Set_CR4_PCE_Bit z = Some z' \<Longrightarrow> ds z' = ds z"
  "on_all_cpus e lwpmudrv_Clear_CR4_PCE_Bit z = Some z' \<Longrightarrow> ds z' = ds z"
  "on_all_cpus e (lwpmudrv_Fill_TSC_Info e) z = Some z' \<Longrightarrow> ds z' = ds z"
  "on_all_cpus e lwpmudrv_Switch_To_Next_Group z = Some z' \<Longrightarrow> ds z' = ds z"
  by (erule on_all_cpus_ds, auto simp: lwpmudrv_Set_CR4_PCE_Bit_def lwpmudrv_Clear_CR4_PCE_Bit_def
      lwpmudrv_Fill_TSC_Info_def lwpmudrv_Switch_To_Next_Group_def bind_eq_Some_conv split: if_splits)+

lemma Start_phase:
  assumes "lwpmudrv_Start e z = Some (st, z')"
  shows "phase_edge DRV_OPERATION_START (phase_of z) (phase_of z')"
proof (cases "phase_of z = IDLE")
  case True
  with assms have "phase_of z' \<in> {RUNNING, PAUSED}"
    by (auto simp: lwpmudrv_Start_def Let_def bind_eq_Some_conv split: if_splits
        dest!: cr4_tsc_ds run_all_ds[OF sel_keeps_all(5)] call_devices_ds[OF sel_keeps_all(5)] EVENTMUX_ds)
  then show ?thesis unfolding True by (rule start)
next
  case False
  then show ?thesis using assms by (simp add: lwpmudrv_Start_def stay)
qed

lemma Pause_phase:
  assumes "lwpmudrv_Pause e z = Some (st, z')"
  shows "if phase_of z = RUNNING then phase_of z' = PAUSED else z' = z"
  using assms by (auto simp: lwpmudrv_Pause_def Let_def bind_eq_Some_conv split: if_splits
      dest!: call_devices_ds[OF sel_keeps_all(4)])

lemma Resume_phase:
  assumes "lwpmudrv_Resume e z = Some (st, z')"
  shows "if phase_of z = PAUSED then phase_of z' = RUNNING else z' = z"
  using assms by (auto simp: lwpmudrv_Resume_def bind_eq_Some_conv split: if_splits
      dest!: for_cpus_ds run_all_ds[OF sel_keeps_all(5)] call_devices_ds[OF sel_keeps_all(5)])

lemma Switch_Group_phase:
  assumes "lwpmudrv_Switch_Group e z = Some (st, z')"
  shows "phase_edge DRV_OPERATION_SWITCH_GROUP (phase_of z) (phase_of z')"
proof (cases "phase_of z \<in> {RUNNING, PAUSED}")
  case True
  with assms obtain z1 z2 z3 where s: "lwpmudrv_Pause e z = Some (st, z1)"
    "for_cpus (\<lambda>_ p. Some (p\<lparr>current_group := current_group p + 1\<rparr>)) z1 = Some z2"
    "run_all e t_write (disp z2) None z2 = Some z3" "z' = z3 \<or> (\<exists>st'. lwpmudrv_Resume e z3 = Some (st', z'))"
    by (auto simp: lwpmudrv_Switch_Group_def bind_eq_Some_conv split: if_splits)
  have "phase_of z3 = PAUSED"
    using Pause_phase[OF s(1)] for_cpus_ds[OF s(2)] run_all_ds[OF sel_keeps_all(3) s(3)] True by (auto split: if_splits)
  with s(4) have "phase_of z' \<in> {RUNNING, PAUSED}" by (auto dest: Resume_phase)
  with True show ?thesis by (rule switch)
next
  case False
  then show ?thesis using assms by (simp add: lwpmudrv_Switch_Group_def stay)
qed

lemma read_counters_phase:
  assumes "read_counters e ng n b z = Some (a, z')"
  shows "phase_of z' = phase_of z \<or> phase_of z = PAUSED \<and> phase_of z' = RUNNING"
proof (cases "b = Bad_Length \<or> n = 0 \<or> b = Not_Writable")
  case True
  then show ?thesis using assms by (auto simp: read_counters_def split: if_splits)
next
  case False
  with assms obtain st z1 a2 z2 z3 z4 st2 where s: "lwpmudrv_Pause e (z\<lparr>cpu0_tsc := tsc e 0\<rparr>) = Some (st, z1)"
    "lwpmudrv_Read_MSRs e n b z1 = Some (a2, z2)"
    "(if ng then on_all_cpus e lwpmudrv_Switch_To_Next_Group z2 else Some z2) = Some z3"
    "run_all e t_write (disp z3) None z3 = Some z4" "lwpmudrv_Resume e z4 = Some (st2, z')"
    by (cases ng) (auto simp: read_counters_def bind_eq_Some_conv Let_def)
  have 1: "if phase_of z = RUNNING then phase_of z1 = PAUSED else phase_of z1 = phase_of z"
    using Pause_phase[OF s(1)] by (auto split: if_splits)
  have "phase_of z3 = phase_of z2" using s(3) by (auto split: if_splits dest: cr4_tsc_ds(4))
  then have "phase_of z4 = phase_of z1"
    using Read_MSRs_stays[OF s(2)] run_all_ds[OF sel_keeps_all(3) s(4)] by simp
  with 1 Resume_phase[OF s(5)] show ?thesis by (auto split: if_splits)
qed

lemma Prepare_Stop_phase:
  assumes "lwpmudrv_Prepare_Stop e z = Some (st, z')"
  shows "phase_of z' = PREPARE_STOP"
  using assms by (auto simp: lwpmudrv_Prepare_Stop_def Let_def bind_eq_Some_conv split: if_splits
      dest!: wait_and_freeze_phase call_devices_ds[OF sel_keeps_all(4)] run_all_ds[OF sel_keeps_all(7)] cr4_tsc_ds)

lemma Finish_Stop_phase:
  assumes "lwpmudrv_Finish_Stop e z = Some (st, z')"
  shows "phase_of z' = STOPPED \<or> z' = z"
  using assms by (auto simp: lwpmudrv_Finish_Stop_def bind_eq_Some_conv split: if_splits)

section \<open>The protocol\<close>

lemma service_edge:
  assumes "lwpmu_Service_IOCTL e r z = Some (a, z')"
  shows "phase_edge r (phase_of z) (phase_of z')"
proof -
  from assms obtain a1 z1 where h: "handle e r z = Some (a1, z1)"
    and z': "if r = DRV_OPERATION_STOP \<and> phase_of z1 = PREPARE_STOP
      then (\<exists>st. lwpmudrv_Finish_Stop e z1 = Some (st, z')) else z' = z1"
    by (auto simp: lwpmu_Service_IOCTL_def acked_def bind_eq_Some_conv split: if_splits)
  show ?thesis
  proof (cases "r = DRV_OPERATION_STOP")
    case True
    with h have p: "phase_of z1 = PREPARE_STOP" by (auto simp: acked_def dest: Prepare_Stop_phase)
    with z' True obtain st where "lwpmudrv_Finish_Stop e z1 = Some (st, z')" by auto
    from Finish_Stop_phase[OF this] p True show ?thesis by (auto simp: phase_edge_stop)
  next
    case False
    with z' have "z' = z1" by auto
    with h False show ?thesis
      by (cases r)
        (auto simp: acked_def told_def lwpmudrv_Reserve_def lwpmudrv_Read_Counters_And_Switch_Group_def
          lwpmudrv_Read_And_Reset_Counters_def
          intro: stay reserve pause resume read_switch read_reset Initialize_phase Start_phase Switch_Group_phase Terminate_phase
          dest!: Pause_phase Resume_phase read_counters_phase uncore_requests_stay config_requests_stay
            Setup_Cpu_Topology_stays Write_MSR_stays Read_MSRs_stays Init_PMU_stays Trigger_Read_stays
          split: if_splits)
  qed
qed

lemma service_gives_back:
  assumes "lwpmu_Service_IOCTL e r z = Some (a, z')" "phase_of z' = UNINITIALIZED" "phase_of z \<noteq> UNINITIALIZED"
  shows "r = DRV_OPERATION_TERMINATE \<and> phase_of z = STOPPED \<or> (\<exists>b. r = DRV_OPERATION_INIT b) \<and> phase_of z = RESERVED \<and> fst a \<noteq> OS_SUCCESS"
proof -
  from service_edge[OF assms(1)] show ?thesis
  proof (cases rule: phase_edge.cases)
    case (init b)
    then have "\<exists>st. lwpmudrv_Initialize e b z = Some (st, z') \<and> fst a = st"
      using assms(1) by (auto simp: lwpmu_Service_IOCTL_def acked_def bind_eq_Some_conv)
    then show ?thesis using Initialize_gives_back assms(2,3) init by blast
  qed (use assms(2,3) in auto)
qed

text \<open>
  C1: the phase protocol. Whatever the arguments and the state, when the dispatcher answers a
  request the phase has moved along an edge of that request, or not at all: a session is reserved from the
  uninitialised driver only; configured from the reserved phase into the idle one; started from
  idle, into running or paused; paused from running; and resumed from paused, also by the two requests that read the
  counters. A group switch may move between running and paused. A stop ends in one of the two stop phases from
  anywhere. The driver becomes uninitialised again in two ways only: by termination after a complete stop, and by a
  configuring request in the reserved phase that answers with an error. No other request changes the phase.
\<close>

theorem phase_protocol:
  assumes "lwpmu_Service_IOCTL e r z = Some (a, z')"
  shows "phase_edge r (phase_of z) (phase_of z') \<and>
    (phase_of z' = UNINITIALIZED \<longrightarrow> phase_of z = UNINITIALIZED \<or> r = DRV_OPERATION_TERMINATE \<and> phase_of z = STOPPED \<or>
      (\<exists>b. r = DRV_OPERATION_INIT b) \<and> phase_of z = RESERVED \<and> fst a \<noteq> OS_SUCCESS)"
  using service_edge[OF assms] service_gives_back[OF assms] by blast

end
