(* ===== verification/Nodes.thy ===== *)
theory Nodes
  imports Running
begin

text \<open>
  Loops over the state nodes of all CPUs: when every CPU has its node, such a loop returns, in
  whatever order the CPUs are visited, and its effect is a map over the nodes.
\<close>

lemma upd_drv_upd_drv [simp]: "upd_drv f (upd_drv g z) = upd_drv (\<lambda>s. f (g s)) z"
  by (simp add: upd_drv_def)

lemma upd_drv_cong: "f (drv_of z) = g (drv_of z) \<Longrightarrow> upd_drv f z = upd_drv g z"
  by (simp add: upd_drv_def)

definition map_nodes :: "(nat \<Rightarrow> cpu_state \<Rightarrow> cpu_state) \<Rightarrow> nat set \<Rightarrow> drv \<Rightarrow> drv" where
  "map_nodes g C s = s\<lparr>pcb := \<lambda>i. if i \<in> C then map_option (g i) (pcb s i) else pcb s i\<rparr>"

lemma map_nodes_simps [simp]:
  "driver_state (map_nodes g C s) = driver_state s" "PMU_register_data (map_nodes g C s) = PMU_register_data s"
  "pcfg (map_nodes g C s) = pcfg s" "global_ec (map_nodes g C s) = global_ec s"
  "SYS_Read_MSR c r (map_nodes g C s) = SYS_Read_MSR c r s"
  by (simp_all add: map_nodes_def)

lemma pcb_map_nodes: "pcb (map_nodes g C s) i = (if i \<in> C then map_option (g i) (pcb s i) else pcb s i)"
  by (simp add: map_nodes_def)

lemma map_nodes_twice [simp]: "map_nodes h C (map_nodes g C s) = map_nodes (\<lambda>i p. h i (g i p)) C s"
  by (simp add: map_nodes_def fun_eq_iff option.map_comp comp_def)

lemma map_nodes_update:
  "(map_nodes g C s)\<lparr>driver_state := d\<rparr> = map_nodes g C (s\<lparr>driver_state := d\<rparr>)"
  "(map_nodes g C s)\<lparr>PMU_register_data := r\<rparr> = map_nodes g C (s\<lparr>PMU_register_data := r\<rparr>)"
  by (cases s; simp add: map_nodes_def fun_eq_iff)+

lemma ncpus_upd [simp]: "driver_state (f (drv_of z)) = driver_state (drv_of z) \<Longrightarrow> ncpus (upd_drv f z) = ncpus z"
  by (simp add: ncpus_def)

definition node_step :: "(nat \<Rightarrow> cpu_state \<Rightarrow> cpu_state option) \<Rightarrow> nat \<Rightarrow> session \<Rightarrow> session option" where
  "node_step f i z = do { p \<leftarrow> pcb (drv_of z) i; p \<leftarrow> f i p; Some (upd_drv (upd_pcpu i p) z) }"

lemma foldm_node_step:
  assumes "distinct cs" "\<forall>i \<in> set cs. \<exists>p. pcb (drv_of z) i = Some p \<and> f i p = Some (g i p)"
  shows "foldm (node_step f) cs z = Some (upd_drv (map_nodes g (set cs)) z)"
  using assms
proof (induction cs arbitrary: z)
  case Nil
  have "upd_drv (map_nodes g {}) z = z" by (simp add: upd_drv_def map_nodes_def)
  then show ?case by simp
next
  case (Cons c cs)
  from Cons.prems obtain p where p: "pcb (drv_of z) c = Some p" "f c p = Some (g c p)" by auto
  let ?z = "upd_drv (upd_pcpu c (g c p)) z"
  have "\<forall>i \<in> set cs. \<exists>p. pcb (drv_of ?z) i = Some p \<and> f i p = Some (g i p)"
    using Cons.prems by (auto simp: upd_pcpu_def)
  with Cons have "foldm (node_step f) cs ?z = Some (upd_drv (map_nodes g (set cs)) ?z)" by simp
  moreover have "map_nodes g (set cs) (upd_pcpu c (g c p) (drv_of z)) = map_nodes g (set (c # cs)) (drv_of z)"
    using p(1) Cons.prems(1) by (auto simp: map_nodes_def upd_pcpu_def fun_eq_iff)
  moreover have "node_step f c z = Some ?z" using p by (simp add: node_step_def)
  ultimately show ?case by (auto simp: upd_drv_def)
qed

lemma for_cpus_nodes:
  assumes "\<forall>i < ncpus z. \<exists>p. pcb (drv_of z) i = Some p \<and> f i p = Some (g i p)"
  shows "for_cpus f z = Some (upd_drv (map_nodes g {0 ..< ncpus z}) z)"
proof -
  have "for_cpus f z = foldm (node_step f) [0 ..< ncpus z] z"
    by (simp add: for_cpus_def node_step_def[abs_def])
  also have "\<dots> = Some (upd_drv (map_nodes g {0 ..< ncpus z}) z)"
    using foldm_node_step[of "[0 ..< ncpus z]" z f g] assms by simp
  finally show ?thesis .
qed

lemma on_all_cpus_nodes:
  assumes "me e < ncpus z" "\<forall>i < ncpus z. \<exists>p. pcb (drv_of z) i = Some p \<and> f i p = Some (g i p)"
  shows "on_all_cpus e (node_step f) z = Some (upd_drv (map_nodes g {0 ..< ncpus z}) z)"
  using foldm_node_step[of "parallel_order False (me e) (ncpus z)" z f g] assms
  by (simp add: on_all_cpus_def CONTROL_Invoke_Parallel_Service_def parallel_order_distinct parallel_order_set)

lemma Allocate_Groups_step: "eventmux_Allocate_Groups block n = node_step (\<lambda>i p.
    if unat (n * of_nat i) + unat n \<le> unat block then Some (p\<lparr>em_tables := replicate (unat n div 8) 0\<rparr>) else None)"
  by (auto simp: eventmux_Allocate_Groups_def node_step_def Let_def fun_eq_iff bind_eq_None_conv split: bind_splits)

lemma Deallocate_Groups_step: "eventmux_Deallocate_Groups = node_step (\<lambda>_ p. Some (p\<lparr>em_tables := []\<rparr>))"
  by (simp add: eventmux_Deallocate_Groups_def node_step_def fun_eq_iff)

text \<open>The timers are set up beside the nodes.\<close>

lemma Prepare_Timers:
  fixes k :: nat
  assumes "\<forall>i < n. pcb (drv_of z) i \<noteq> None" "i < n"
  shows "\<exists>k' t. CONTROL_Invoke_Parallel i n (eventmux_Prepare_Timer_Threads e) (k, z) = Some (k', z\<lparr>em_timer := t\<rparr>)"
proof -
  have "\<exists>kz. foldm (eventmux_Prepare_Timer_Threads e) (parallel_order False i n) (k, z) = Some kz \<and>
    (\<exists>t. snd kz = z\<lparr>em_timer := t\<rparr>)"
  proof (rule foldm_rule)
    show "\<exists>t. snd (k, z) = z\<lparr>em_timer := t\<rparr>" by (rule exI[of _ "em_timer z"]) simp
  next
    fix c and kz :: "nat \<times> session"
    assume c: "c \<in> set (parallel_order False i n)" and kz: "\<exists>t. snd kz = z\<lparr>em_timer := t\<rparr>"
    from c assms obtain p where "pcb (drv_of z) c = Some p" by (auto simp: parallel_order_set)
    with kz show "\<exists>kz'. eventmux_Prepare_Timer_Threads e c kz = Some kz' \<and> (\<exists>t. snd kz' = z\<lparr>em_timer := t\<rparr>)"
      by (cases kz) (auto simp: eventmux_Prepare_Timer_Threads_def)
  qed
  then show ?thesis by (auto simp: CONTROL_Invoke_Parallel_Service_def)
qed

end
