(* ===== verification/Session_Correct.thy ===== *)
theory Session_Correct
  imports Phases Nodes Pmi_Correct
begin

text \<open>
  What sequences of requests do: what a running session was asked before, the requests that fault
  on a session without a configuration, the last event group, and what configuring stores.
\<close>

section \<open>Sequences of requests\<close>

definition serve_all :: "(env \<times> request) list \<Rightarrow> session \<Rightarrow> session option" where
  "serve_all rs z = foldm (\<lambda>(e, r) z. map_option snd (lwpmu_Service_IOCTL e r z)) rs z"

lemma serve_all_simps [simp]:
  "serve_all [] z = Some z"
  "serve_all ((e, r) # rs) z = do { (_, z) \<leftarrow> lwpmu_Service_IOCTL e r z; serve_all rs z }"
  by (simp_all add: serve_all_def map_option_case split: Option.bind_split option.split prod.split)

lemma serve_all_snoc: "serve_all (rs @ [(e, r)]) z = do { z \<leftarrow> serve_all rs z; (_, z) \<leftarrow> lwpmu_Service_IOCTL e r z; Some z }"
  by (simp add: serve_all_def foldm_append map_option_case split: Option.bind_split option.split prod.split)

definition no_stop :: "(env \<times> request) list \<Rightarrow> bool" where
  "no_stop rs = (DRV_OPERATION_STOP \<notin> snd ` set rs)"

lemma no_stop_snoc [simp]: "no_stop (rs @ [(e, r)]) \<longleftrightarrow> no_stop rs \<and> r \<noteq> DRV_OPERATION_STOP"
  by (auto simp: no_stop_def)

lemma no_stop_Nil [simp]: "no_stop []"
  by (simp add: no_stop_def)

text \<open>The request \<open>P\<close>, after which none was a stop; what comes before it is \<open>rs\<close>.\<close>

definition asked :: "((env \<times> request) list \<Rightarrow> bool) \<Rightarrow> (request \<Rightarrow> bool) \<Rightarrow> (env \<times> request) list \<Rightarrow> bool" where
  "asked before P rs = (\<exists>xs e r ys. rs = xs @ (e, r) # ys \<and> P r \<and> before xs \<and> no_stop ys)"

lemma askedE:
  assumes "asked before P rs"
  obtains xs e r ys where "rs = xs @ (e, r) # ys" "P r" "before xs" "no_stop ys"
  using assms by (auto simp: asked_def)

lemma asked_now: "P r \<Longrightarrow> before rs \<Longrightarrow> asked before P (rs @ [(e, r)])"
  unfolding asked_def by (intro exI[of _ rs] exI[of _ e] exI[of _ r] exI[of _ "[]"]) simp

lemma asked_keep:
  assumes "asked before P rs" "r \<noteq> DRV_OPERATION_STOP"
  shows "asked before P (rs @ [(e, r)])"
proof -
  from assms(1) obtain xs e' r' ys where "rs = xs @ (e', r') # ys" "P r'" "before xs" "no_stop ys"
    by (auto simp: asked_def)
  then show ?thesis unfolding asked_def using assms(2)
    by (intro exI[of _ xs] exI[of _ e'] exI[of _ r'] exI[of _ "ys @ [(e, r)]"]) simp
qed

fun is_reserve :: "request \<Rightarrow> bool" where
  "is_reserve (DRV_OPERATION_RESERVE _) = True" | "is_reserve _ = False"

fun is_init :: "request \<Rightarrow> bool" where
  "is_init (DRV_OPERATION_INIT _) = True" | "is_init _ = False"

abbreviation "was_reserved \<equiv> asked (\<lambda>_. True) is_reserve"
abbreviation "was_initialised \<equiv> asked was_reserved is_init"
abbreviation "was_started \<equiv> asked was_initialised (\<lambda>r. r = DRV_OPERATION_START)"

definition history_ok :: "(env \<times> request) list \<Rightarrow> phase \<Rightarrow> bool" where
  "history_ok rs p = ((p = RESERVED \<longrightarrow> was_reserved rs) \<and> (p = IDLE \<longrightarrow> was_initialised rs) \<and>
     (p \<in> {RUNNING, PAUSED} \<longrightarrow> was_started rs) \<and> p \<noteq> PAUSING)"

lemma history_step:
  assumes "history_ok rs p" "phase_edge r p p'"
  shows "history_ok (rs @ [(e, r)]) p'"
  using assms(2,1)
  by (cases rule: phase_edge.cases) (auto simp: history_ok_def intro: asked_keep asked_now)

lemma was_startedE:
  assumes "was_started rs"
  shows "\<exists>ws e1 ok xs e2 b ys e3 zs.
    rs = ws @ (e1, DRV_OPERATION_RESERVE ok) # xs @ (e2, DRV_OPERATION_INIT b) # ys @ (e3, DRV_OPERATION_START) # zs \<and>
    no_stop (xs @ ys @ zs)"
proof -
  obtain as e3 r3 zs where a: "rs = as @ (e3, r3) # zs" "r3 = DRV_OPERATION_START" "was_initialised as" "no_stop zs"
    using assms by (rule askedE)
  obtain bs e2 r2 ys where b: "as = bs @ (e2, r2) # ys" "is_init r2" "was_reserved bs" "no_stop ys"
    using a(3) by (rule askedE)
  obtain ws e1 r1 xs where c: "bs = ws @ (e1, r1) # xs" "is_reserve r1" "no_stop xs"
    using b(3) by (rule askedE)
  from b(2) obtain cfg where r2: "r2 = DRV_OPERATION_INIT cfg" by (cases r2) auto
  from c(2) obtain ok where r1: "r1 = DRV_OPERATION_RESERVE ok" by (cases r1) auto
  have "rs = ws @ (e1, DRV_OPERATION_RESERVE ok) # xs @ (e2, DRV_OPERATION_INIT cfg) # ys @
      (e3, DRV_OPERATION_START) # zs"
    using a b c r1 r2 by simp
  moreover have "no_stop (xs @ ys @ zs)" using a(4) b(4) c(3) by (auto simp: no_stop_def)
  ultimately show ?thesis by blast
qed

text \<open>
  C13: a running session was asked for. If a sequence of requests to an uninitialised driver ends
  with the session running or paused, then the sequence reserved the driver, later initialised
  it, later started it, and asked for no stop between these requests or after them; and no
  request ever leaves the driver in the middle of a pause.
\<close>

theorem running_was_started:
  assumes "serve_all rs z = Some z'" "phase_of z = UNINITIALIZED"
  shows "phase_of z' \<noteq> PAUSING \<and>
    (phase_of z' \<in> {RUNNING, PAUSED} \<longrightarrow> (\<exists>ws e1 ok xs e2 b ys e3 zs.
      rs = ws @ (e1, DRV_OPERATION_RESERVE ok) # xs @ (e2, DRV_OPERATION_INIT b) # ys @ (e3, DRV_OPERATION_START) # zs \<and>
      no_stop (xs @ ys @ zs)))"
proof -
  have h: "history_ok rs (phase_of z')"
    using assms(1)
  proof (induction rs arbitrary: z' rule: rev_induct)
    case Nil
    then show ?case using assms(2) by (simp add: history_ok_def)
  next
    case (snoc er rs)
    obtain e r where er: "er = (e, r)" by (cases er)
    with snoc.prems obtain z1 a where z1: "serve_all rs z = Some z1" "lwpmu_Service_IOCTL e r z1 = Some (a, z')"
      by (auto simp: serve_all_snoc bind_eq_Some_conv)
    show ?case unfolding er by (rule history_step[OF snoc.IH[OF z1(1)] service_edge[OF z1(2)]])
  qed
  show ?thesis using h was_startedE by (auto simp: history_ok_def)
qed

definition demo_env :: env where
  "demo_env = \<lparr>me = 0, alloc = \<lambda>_. True, remap = \<lambda>a. a, pack = demo_pack, pebs_mem = 0x10000, buffer_size = 128,
     caller_pid = 7, tsc = \<lambda>_. 1000, jiffies_of = \<lambda>_. 1, enum_modules = \<lambda>o1. (OS_SUCCESS, o1),
     drain = \<lambda>o1. o1, gdt = (0x1000, 0xFF)\<rparr>"

definition demo_pcl :: drv_config where
  "demo_pcl = (pcfg drv0)\<lparr>use_pcl := True\<rparr>"

lemma demo_serve:
  "\<exists>z'. serve_all [(demo_env, DRV_OPERATION_RESERVE True), (demo_env, DRV_OPERATION_INIT (Readable demo_pcl)),
     (demo_env, DRV_OPERATION_START)] (demo_session UNINITIALIZED) = Some z' \<and> phase_of z' = RUNNING"
  by (simp add: lwpmu_Service_IOCTL_def lwpmudrv_Reserve_def lwpmudrv_Initialize_def lwpmudrv_Start_def copied_def
      demo_env_def demo_pcl_def demo_session_def set_phase_def upd_drv_def acked_def Let_def demo_defs)

theorem running_was_started_witness:
  "\<exists>ws e1 ok xs e2 b ys e3 zs. [(demo_env, DRV_OPERATION_RESERVE True), (demo_env, DRV_OPERATION_INIT (Readable demo_pcl)),
     (demo_env, DRV_OPERATION_START)] = ws @ (e1, DRV_OPERATION_RESERVE ok) # xs @ (e2, DRV_OPERATION_INIT b) #
       ys @ (e3, DRV_OPERATION_START) # zs \<and> no_stop (xs @ ys @ zs)"
proof -
  from demo_serve obtain z' where z': "serve_all [(demo_env, DRV_OPERATION_RESERVE True),
    (demo_env, DRV_OPERATION_INIT (Readable demo_pcl)), (demo_env, DRV_OPERATION_START)]
    (demo_session UNINITIALIZED) = Some z'" "phase_of z' = RUNNING" by blast
  have "phase_of (demo_session UNINITIALIZED) = UNINITIALIZED" by (simp add: demo_session_def)
  from running_was_started[OF z'(1) this] z'(2) show ?thesis by simp
qed

theorem phase_protocol_witness:
  "\<exists>a z'. lwpmu_Service_IOCTL demo_env (DRV_OPERATION_RESERVE True) (demo_session UNINITIALIZED) = Some (a, z') \<and>
     phase_of z' = RESERVED \<and> phase_edge (DRV_OPERATION_RESERVE True) UNINITIALIZED (phase_of z')"
proof -
  have "\<exists>a z'. lwpmu_Service_IOCTL demo_env (DRV_OPERATION_RESERVE True) (demo_session UNINITIALIZED) = Some (a, z') \<and>
      phase_of z' = RESERVED"
    by (simp add: lwpmu_Service_IOCTL_def lwpmudrv_Reserve_def demo_session_def)
  then obtain a z' where z': "lwpmu_Service_IOCTL demo_env (DRV_OPERATION_RESERVE True) (demo_session UNINITIALIZED) = Some (a, z')"
    "phase_of z' = RESERVED" by blast
  have "phase_of (demo_session UNINITIALIZED) = UNINITIALIZED" by (simp add: demo_session_def)
  with phase_protocol[OF z'(1)] z' show ?thesis by auto
qed

section \<open>A session without a configuration\<close>

text \<open>
  Requests that fault for lack of a configuration. From an uninitialised driver that holds no
  configuration: once it is reserved, a stop dereferences the NULL configuration when it
  finishes; and an initialisation whose first allocation fails reports that it is out of memory
  but leaves the driver idle, where a start and a stop dereference NULL as well.
\<close>

theorem unconfigured_faults:
  assumes "phase_of z = UNINITIALIZED" "\<not> pcfg_set z" "\<not> in_finish_code z" "\<not> alloc e 0" "copied b \<noteq> None"
  shows "\<exists>z1 z2. lwpmu_Service_IOCTL e (DRV_OPERATION_RESERVE True) z = Some ((OS_SUCCESS, [0]), z1) \<and>
    lwpmu_Service_IOCTL e DRV_OPERATION_STOP z1 = None \<and>
    lwpmu_Service_IOCTL e (DRV_OPERATION_INIT b) z1 = Some ((OS_NO_MEM, []), z2) \<and> phase_of z2 = IDLE \<and>
    lwpmu_Service_IOCTL e DRV_OPERATION_START z2 = None \<and> lwpmu_Service_IOCTL e DRV_OPERATION_STOP z2 = None"
proof -
  let ?z1 = "set_phase RESERVED z"
  let ?z2 = "(set_phase IDLE ?z1)\<lparr>pcfg_set := False\<rparr>"
  have stop: "lwpmu_Service_IOCTL e DRV_OPERATION_STOP y = None"
    if "\<not> pcfg_set y" "\<not> in_finish_code y" for y
    using that by (simp add: lwpmu_Service_IOCTL_def lwpmudrv_Prepare_Stop_def lwpmudrv_Finish_Stop_def Let_def
        acked_def set_phase_def)
  have "lwpmu_Service_IOCTL e (DRV_OPERATION_RESERVE True) z = Some ((OS_SUCCESS, [0]), ?z1)"
    using assms by (simp add: lwpmu_Service_IOCTL_def lwpmudrv_Reserve_def)
  moreover have "lwpmu_Service_IOCTL e DRV_OPERATION_STOP ?z1 = None"
    by (rule stop) (use assms in \<open>simp_all add: set_phase_def\<close>)
  moreover have "lwpmu_Service_IOCTL e (DRV_OPERATION_INIT b) ?z1 = Some ((OS_NO_MEM, []), ?z2)"
    using assms by (auto simp: lwpmu_Service_IOCTL_def lwpmudrv_Initialize_def acked_def Let_def split: option.split)
  moreover have "phase_of ?z2 = IDLE" by simp
  moreover have "lwpmu_Service_IOCTL e DRV_OPERATION_START ?z2 = None"
    by (simp add: lwpmu_Service_IOCTL_def lwpmudrv_Start_def set_phase_def Let_def)
  moreover have "lwpmu_Service_IOCTL e DRV_OPERATION_STOP ?z2 = None"
    by (rule stop) (use assms in \<open>simp_all add: set_phase_def\<close>)
  ultimately show ?thesis by blast
qed

theorem unconfigured_faults_witness:
  "\<exists>z1 z2. lwpmu_Service_IOCTL (demo_env\<lparr>alloc := \<lambda>_. False\<rparr>) (DRV_OPERATION_INIT (Readable demo_pcl)) z1 =
     Some ((OS_NO_MEM, []), z2) \<and> lwpmu_Service_IOCTL (demo_env\<lparr>alloc := \<lambda>_. False\<rparr>) DRV_OPERATION_START z2 = None"
  using unconfigured_faults[of "(demo_session UNINITIALIZED)\<lparr>pcfg_set := False\<rparr>" "demo_env\<lparr>alloc := \<lambda>_. False\<rparr>"
      "Readable demo_pcl"]
  by (auto simp: demo_session_def demo_env_def copied_def)

section \<open>Past the last group\<close>

definition core_tables :: "dispatch_name set" where
  "core_tables = {Core2_dispatch, Corei7_dispatch, Corei7_htoff, Corei7_dispatch_2, Corei7_htoff_2, Silvermont_dispatch}"

lemma core2_Write_faults:
  assumes "pcb s cpu = Some p" "current_group p \<noteq> 0" "cur_ecb cpu s = None" "errata_ok he"
  shows "core2_Write_PMU he cpu s = None"
proof -
  from call_errata_ok[OF assms(4)] obtain t where t: "call_errata he cpu s = Some t" "msr_only cpu s t" by blast
  with assms msr_only_cur_ecb[OF t(2), of cpu] show ?thesis
    by (simp add: core2_Write_PMU_def FOR_EACH_REG_ENTRY_def)
qed

lemma silvermont_Write_faults:
  assumes "pcb s cpu = Some p" "current_group p \<noteq> 0" "cur_ecb cpu s = None"
  shows "silvermont_Write_PMU None cpu s = None"
  using assms by (simp add: silvermont_Write_PMU_def FOR_EACH_REG_ENTRY_def call_errata_def)

lemma core_writes:
  "d_write core2_dispatch = core2_Write_PMU None" "d_write corei7_dispatch = core2_Write_PMU (Some corei7_Errata_Fix)"
  "d_write corei7_dispatch_htoff_mode = core2_Write_PMU (Some corei7_Errata_Fix)"
  "d_write corei7_dispatch_2 = core2_Write_PMU (Some corei7_Errata_Fix_2)"
  "d_write corei7_dispatch_htoff_mode_2 = core2_Write_PMU (Some corei7_Errata_Fix_2)"
  "d_write silvermont_dispatch = silvermont_Write_PMU None"
  by (simp_all add: core2_dispatch_def corei7_dispatch_def corei7_dispatch_2_def corei7_dispatch_htoff_mode_def
      corei7_dispatch_htoff_mode_2_def silvermont_dispatch_def)

lemma errata_oks: "errata_ok None" "errata_ok (Some corei7_Errata_Fix)" "errata_ok (Some corei7_Errata_Fix_2)"
  by (simp_all add: errata_ok_def)

lemma core_write:
  assumes "n \<in> core_tables"
  shows "(\<exists>he. errata_ok he \<and> t_write (table_of rm n) = core_op (core2_Write_PMU he)) \<or>
     t_write (table_of rm n) = core_op (silvermont_Write_PMU None)"
proof -
  have t: "t_write (core_table d) = core_op (d_write d)" for d by (simp add: core_table_def)
  show ?thesis using assms errata_oks unfolding core_tables_def by (elim insertE emptyE) (simp only: table_of.simps t core_writes; blast)+
qed

lemma write_faults:
  assumes "n \<in> core_tables" "pcb (drv_of z) cpu = Some p" "current_group p \<noteq> 0" "cur_ecb cpu (drv_of z) = None"
  shows "call_op t_write rm (Some n) param cpu (un z) = None"
proof -
  have *: "on_hw (f cpu) (un z) = None" if "f cpu (drv_of z) = None" for f
    using that by (simp add: on_hw_def)
  from core_write[OF assms(1), of rm] show ?thesis
    by (auto simp: call_op_def core_op_def intro!: * core2_Write_faults silvermont_Write_faults assms)
qed

lemma run_all_faults:
  assumes "me e < ncpus z" "\<And>cpu. cpu < ncpus z \<Longrightarrow> call_op sel (remap e) d param cpu (un z) = None"
  shows "run_all e sel d param z = None"
proof -
  let ?cs = "parallel_order False (me e) (ncpus z)"
  have "set ?cs = {0 ..< ncpus z}" using assms(1) by (simp add: parallel_order_set)
  with assms(1) obtain c cs where cs: "?cs = c # cs" by (cases ?cs) auto
  with \<open>set ?cs = _\<close> have "c < ncpus z" by auto
  then show ?thesis using assms(2)[of c] cs
    by (simp add: run_all_def on_all_cpus_def CONTROL_Invoke_Parallel_Service_def)
qed

text \<open>
  C36: switching past the last group. With a paused session every CPU of which is in its last
  event group, the request to switch groups faults on every dispatch table of the core's PMU: it
  moves the group number past the table of the groups and programs from there. (The request that
  reads the counters first wraps the number around.)
\<close>

theorem Switch_Group_runs_off_the_end:
  assumes "phase_of z = PAUSED" "disp z = Some n" "n \<in> core_tables" "me e < ncpus z"
    and last: "\<And>i. i < ncpus z \<Longrightarrow> \<exists>p. pcb (drv_of z) i = Some p \<and>
      Suc (unat (current_group p)) = length (PMU_register_data (drv_of z))"
    and "length (PMU_register_data (drv_of z)) < 2 ^ 32"
  shows "lwpmu_Service_IOCTL e DRV_OPERATION_SWITCH_GROUP z = None"
proof -
  let ?L = "length (PMU_register_data (drv_of z))"
  let ?z = "upd_drv (map_nodes (\<lambda>_ p. p\<lparr>current_group := current_group p + 1\<rparr>) {0 ..< ncpus z}) z"
  have P: "lwpmudrv_Pause e z = Some (OS_SUCCESS, z)" using assms(1) by (simp add: lwpmudrv_Pause_def)
  have loop: "for_cpus (\<lambda>_ p. Some (p\<lparr>current_group := current_group p + 1\<rparr>)) z = Some ?z"
    by (rule for_cpus_nodes) (use last in auto)
  have n: "ncpus ?z = ncpus z" by simp
  have "run_all e t_write (disp ?z) None ?z = None"
  proof (rule run_all_faults)
    fix cpu assume "cpu < ncpus ?z"
    then have c: "cpu < ncpus z" using n by simp
    from last[OF c] obtain p where p: "pcb (drv_of z) cpu = Some p" "Suc (unat (current_group p)) = ?L" by blast
    let ?p = "p\<lparr>current_group := current_group p + 1\<rparr>"
    have u: "unat (current_group ?p) = ?L"
      using p(2) assms(6) by (simp add: unat_plus_no_wrap)
    have q: "pcb (drv_of ?z) cpu = Some ?p" using p c by (simp add: pcb_map_nodes)
    have "cur_ecb cpu (drv_of ?z) = None" using q u by (simp add: cur_ecb_def list_at_def)
    moreover have "current_group ?p \<noteq> 0"
    proof
      assume "current_group ?p = 0"
      then show False using u p(2) by simp
    qed
    ultimately show "call_op t_write (remap e) (disp ?z) None cpu (un ?z) = None"
      using write_faults[OF assms(3) q] assms(2) by simp
  qed (use assms(4) n in simp)
  then have "lwpmudrv_Switch_Group e z = None"
    using assms(1) by (simp add: lwpmudrv_Switch_Group_def P loop)
  then show ?thesis by (simp add: lwpmu_Service_IOCTL_def)
qed

theorem Switch_Group_runs_off_the_end_witness:
  "lwpmu_Service_IOCTL demo_env DRV_OPERATION_SWITCH_GROUP (demo_session PAUSED) = None"
  using Switch_Group_runs_off_the_end[of "demo_session PAUSED" Core2_dispatch demo_env]
  by (simp add: demo_session_def demo_env_def core_tables_def ncpus_def demo_defs)

end
