(* ===== verification/Configured.thy ===== *)
theory Configured
  imports Session_Correct
begin

text \<open>
  What configuring does: the request with the multiplexing configuration followed by the requests
  with the event groups leaves every CPU ready to be programmed.
\<close>

definition given :: "'a \<Rightarrow> 'a user_arg" where
  "given x = \<lparr>size_ok = True, ubuf = Readable x\<rparr>"

lemma given [simp]: "size_ok (given x)" "\<not> no_arg (given x)" "copied (ubuf (given x)) = Some (x, True)"
  by (simp_all add: given_def no_arg_def copied_def)

lemma upd_drv_fields [simp]:
  "upd_drv f (z\<lparr>ec_set := b\<rparr>) = (upd_drv f z)\<lparr>ec_set := b\<rparr>"
  "upd_drv f (z\<lparr>em_groups_count := n\<rparr>) = (upd_drv f z)\<lparr>em_groups_count := n\<rparr>"
  "upd_drv f (z\<lparr>em_timer := t\<rparr>) = (upd_drv f z)\<lparr>em_timer := t\<rparr>"
  by (simp_all add: upd_drv_def)

lemma ncpus_fields [simp]:
  "ncpus (z\<lparr>ec_set := b\<rparr>) = ncpus z" "ncpus (z\<lparr>em_groups_count := n\<rparr>) = ncpus z" "ncpus (z\<lparr>em_timer := t\<rparr>) = ncpus z"
  by (simp_all add: ncpus_def)

text \<open>The size of a CPU's table is computed without wrap-around.\<close>

definition ec_fits :: "event_config \<Rightarrow> bool" where
  "ec_fits ec = (em_mode ec \<noteq> EM_DISABLED \<and> 1 < unat (num_groups ec) \<and> 0 < unat (max_gp_events ec) \<and>
     unat (num_groups ec) * unat (max_gp_events ec) * 8 < 2 ^ 32)"

lemma table_size:
  assumes "ec_fits ec"
  shows "unat (num_groups ec * max_gp_events ec * sizeof_S64) = unat (num_groups ec) * unat (max_gp_events ec) * 8"
proof -
  have l: "unat (num_groups ec) * unat (max_gp_events ec) * 8 < 2 ^ 32"
    "unat (num_groups ec) * unat (max_gp_events ec) < 2 ^ 32" using assms unfolding ec_fits_def by linarith+
  have m: "unat (num_groups ec * max_gp_events ec) = unat (num_groups ec) * unat (max_gp_events ec)"
    by (rule iffD1[OF unat_mult_lem]) (use l in simp)
  have "unat (num_groups ec * max_gp_events ec * sizeof_S64) = unat (num_groups ec * max_gp_events ec) * unat sizeof_S64"
    by (rule iffD1[OF unat_mult_lem]) (use l m in \<open>simp add: sizeof_S64_def\<close>)
  then show ?thesis by (simp add: m sizeof_S64_def)
qed

lemma sint_small:
  fixes x :: u32
  assumes "unat x < 2 ^ 31"
  shows "sint x = int (unat x)"
proof -
  have u: "uint x = int (unat x)" by simp
  have "int (unat x) < int (2 ^ 31)" using assms by (simp only: of_nat_less_iff)
  then have "uint x < 2 ^ 31" by simp
  moreover have "- (2 ^ 31) \<le> uint x" by (rule order_trans[OF _ uint_ge_0]) simp
  ultimately have "signed_take_bit 31 (uint x) = uint x" by (rule signed_take_bit_int_eq_self [rotated])
  moreover have "sint x = signed_take_bit 31 (uint x)" using sint_uint[of x] by (simp only: len_bit0 len_num1) simp
  ultimately show ?thesis using u by (simp only:)
qed

text \<open>The tables of the CPUs lie in the block, one after the other, if its size does not wrap around.\<close>

lemma unat_times: "unat (w :: u32) * i < 2 ^ 32 \<Longrightarrow> unat (w * of_nat i) = unat w * i"
proof (cases "unat w = 0")
  case True
  then show ?thesis by (simp add: unat_eq_0)
next
  case False
  assume l: "unat w * i < 2 ^ 32"
  have "i \<le> unat w * i" using False by simp
  then have "i < 2 ^ 32" using l by (rule le_less_trans)
  then have i: "unat (of_nat i :: u32) = i" by (simp add: unat_of_nat take_bit_nat_eq_self)
  show ?thesis using l i by (subst unat_mult_lem[THEN iffD1]) simp_all
qed

lemma tables_in_block:
  assumes "\<forall>i < n. unat (w * of_nat i :: u32) + unat w \<le> t" "t < 2 ^ 32"
  shows "n * unat w < 2 ^ 32 \<and> (0 < n \<longrightarrow> n * unat w \<le> t)"
  using assms(1)
proof (induction n)
  case (Suc n)
  then have "unat w * n < 2 ^ 32" by (simp add: mult.commute)
  then have "unat (w * of_nat n) = n * unat w" using unat_times[of w n] by (simp add: mult.commute)
  moreover have "unat (w * of_nat n) + unat w \<le> t" using Suc.prems by blast
  ultimately show ?case using assms(2) by simp
qed simp

lemma foldm_each: "foldm f xs s = Some t \<Longrightarrow> x \<in> set xs \<Longrightarrow> \<exists>u v. f x u = Some v"
  by (induction xs arbitrary: s) (auto simp: bind_eq_Some_conv)

text \<open>Setting up the tables returns only if nothing wrapped around.\<close>

lemma EVENTMUX_Initialize_sizes:
  assumes "EVENTMUX_Initialize e k z = Some z'" "em_mode (global_ec (drv_of z)) \<noteq> EM_DISABLED" "num_groups (global_ec (drv_of z)) \<noteq> 1" "me e < ncpus z"
  shows "ncpus z * unat (num_groups (global_ec (drv_of z)) * max_gp_events (global_ec (drv_of z)) * sizeof_S64) < 2 ^ 32"
proof -
  let ?w = "num_groups (global_ec (drv_of z)) * max_gp_events (global_ec (drv_of z)) * sizeof_S64"
  let ?t = "num_cpus (driver_state (drv_of z)) * ?w"
  obtain y where "?w = 0 \<or> on_all_cpus e (eventmux_Allocate_Groups ?t ?w) z = Some y"
    using assms(1-3) by (auto simp: EVENTMUX_Initialize_def Let_def bind_eq_Some_conv split: if_splits)
  then show ?thesis
  proof
    assume "on_all_cpus e (eventmux_Allocate_Groups ?t ?w) z = Some y"
    then have f: "foldm (eventmux_Allocate_Groups ?t ?w) (parallel_order False (me e) (ncpus z)) z = Some y"
      by (simp add: on_all_cpus_def CONTROL_Invoke_Parallel_Service_def)
    have "unat (?w * of_nat i) + unat ?w \<le> unat ?t" if "i < ncpus z" for i
    proof -
      have "i \<in> set (parallel_order False (me e) (ncpus z))" using that assms(4) by (simp add: parallel_order_set)
      from foldm_each[OF f this] show ?thesis by (auto simp: eventmux_Allocate_Groups_def Let_def bind_eq_Some_conv split: if_splits)
    qed
    moreover have "unat ?t < 2 ^ 32" using unsigned_less[of ?t] by simp
    ultimately show ?thesis using tables_in_block[of "ncpus z" ?w "unat ?t"] by blast
  qed simp
qed

definition configured_node :: "event_config \<Rightarrow> cpu_state \<Rightarrow> cpu_state" where
  "configured_node ec p = p\<lparr>trigger_count := em_factor ec, trigger_event_num := em_event_num ec,
     em_tables := replicate (unat (num_groups ec) * unat (max_gp_events ec)) 0\<rparr>"

lemma EVENTMUX_Initialize_run:
  assumes "ec_fits (global_ec (drv_of z))" "\<forall>k. alloc e k" "me e < ncpus z" "\<forall>i < ncpus z. \<exists>p. pcb (drv_of z) i = Some p"
    "ncpus z * (unat (num_groups (global_ec (drv_of z))) * unat (max_gp_events (global_ec (drv_of z))) * 8) < 2 ^ 31"
  defines "n \<equiv> unat (num_groups (global_ec (drv_of z))) * unat (max_gp_events (global_ec (drv_of z)))"
  shows "\<exists>t. EVENTMUX_Initialize e k z =
    Some ((upd_drv (map_nodes (\<lambda>_ p. p\<lparr>em_tables := replicate n 0\<rparr>) {0 ..< ncpus z}) z)\<lparr>em_timer := t\<rparr>)"
proof -
  let ?ec = "global_ec (drv_of z)"
  let ?z = "upd_drv (map_nodes (\<lambda>_ p. p\<lparr>em_tables := replicate n 0\<rparr>) {0 ..< ncpus z}) z"
  have sz: "unat (num_groups ?ec * max_gp_events ?ec * sizeof_S64) = n * 8"
    using table_size[OF assms(1)] by (simp add: n_def)
  let ?w = "num_groups ?ec * max_gp_events ?ec * sizeof_S64"
  let ?t = "num_cpus (driver_state (drv_of z)) * ?w"
  have n: "0 < n" "ncpus z * (n * 8) < 2 ^ 31" using assms(1,5) by (simp_all add: ec_fits_def n_def)
  have "unat (num_cpus (driver_state (drv_of z))) * unat ?w < 2 ^ 32" using n(2) sz by (simp add: ncpus_def)
  then have t: "unat ?t = ncpus z * (n * 8)" using sz by (subst unat_mult_lem[THEN iffD1]) (simp_all add: ncpus_def)
  have pos: "0 < sint ?t"
  proof -
    have "unat ?t < 2 ^ 31" unfolding t by (rule n(2))
    from sint_small[OF this] show ?thesis using t n(1) assms(3) by simp
  qed
  have "unat (?w * of_nat i) + unat ?w \<le> unat ?t" if "i < ncpus z" for i
  proof -
    have "Suc i * (n * 8) \<le> ncpus z * (n * 8)" using that by (intro mult_right_mono) auto
    then have le: "i * (n * 8) + n * 8 \<le> ncpus z * (n * 8)" by simp
    then have "i * (n * 8) \<le> ncpus z * (n * 8)" by (rule add_leD1)
    then have "i * (n * 8) < 2 ^ 31" using n(2) by (rule le_less_trans)
    then have "i * (n * 8) < 2 ^ 32" by simp
    then have "unat ?w * i < 2 ^ 32" unfolding sz by (simp only: mult.commute)
    from unat_times[OF this] have "unat (?w * of_nat i) = i * (n * 8)" unfolding sz by (simp only: mult.commute)
    then show ?thesis using le unfolding sz t by simp
  qed
  then have tables: "on_all_cpus e (eventmux_Allocate_Groups ?t ?w) z = Some ?z"
    unfolding Allocate_Groups_step by (intro on_all_cpus_nodes) (use assms sz in auto)
  have nodes: "\<forall>i < ncpus z. pcb (drv_of ?z) i \<noteq> None" using assms(4) by (auto simp: pcb_map_nodes)
  have ng: "num_groups ?ec \<noteq> 1" "em_mode ?ec \<noteq> EM_DISABLED" using assms(1) by (auto simp: ec_fits_def)
  obtain k' t where timers: "CONTROL_Invoke_Parallel (me e) (ncpus z) (eventmux_Prepare_Timer_Threads e) (k + 1, ?z) =
      Some (k', ?z\<lparr>em_timer := t\<rparr>)"
    using Prepare_Timers[OF nodes assms(3)] by blast
  have "?w = 0 \<or> 0 < sint ?t \<and> alloc e k" using pos assms(2) by blast
  then have run: "EVENTMUX_Initialize e k z = (if em_mode ?ec = EM_TIMER_BASED
       then do { (_, z) \<leftarrow> CONTROL_Invoke_Parallel (me e) (ncpus ?z) (eventmux_Prepare_Timer_Threads e) (k + 1, ?z); Some z }
       else Some ?z)"
    unfolding EVENTMUX_Initialize_def Let_def using ng tables by simp
  have "?z\<lparr>em_timer := em_timer ?z\<rparr> = ?z" by simp
  moreover have "ncpus ?z = ncpus z" by simp
  ultimately show ?thesis unfolding run using timers by (metis Option.bind.bind_lunit case_prod_conv)
qed

section \<open>The configuration of the groups\<close>

text \<open>An idle session with its nodes.\<close>

definition idle_session :: "env \<Rightarrow> session \<Rightarrow> bool" where
  "idle_session e z = (phase_of z = IDLE \<and> me e < ncpus z \<and> (\<forall>k. alloc e k) \<and>
     (\<forall>i < ncpus z. \<exists>p. pcb (drv_of z) i = Some p \<and> current_group p = 0))"

definition with_groups :: "event_config \<Rightarrow> session \<Rightarrow> session" where
  "with_groups ec z = (upd_drv (\<lambda>s. map_nodes (\<lambda>_. configured_node ec) {0 ..< ncpus z}
       (s\<lparr>global_ec := ec, driver_state := (driver_state s)\<lparr>num_em_groups := num_groups ec\<rparr>,
          PMU_register_data := replicate (unat (num_groups ec)) None\<rparr>)) z)\<lparr>ec_set := True, em_groups_count := 0\<rparr>"

lemma Set_EM_Config_run:
  assumes "idle_session e z" "ec_fits ec" "ncpus z * (unat (num_groups ec) * unat (max_gp_events ec) * 8) < 2 ^ 31"
  shows "\<exists>t. lwpmudrv_Set_EM_Config e (given ec) z = Some (OS_SUCCESS, (with_groups ec z)\<lparr>em_timer := t\<rparr>)"
proof -
  let ?C = "{0 ..< ncpus z}" and ?n = "unat (num_groups ec)" and ?m = "unat (num_groups ec) * unat (max_gp_events ec)"
  let ?z1 = "(upd_drv (\<lambda>s. s\<lparr>global_ec := ec\<rparr>) z)\<lparr>ec_set := True\<rparr>"
  let ?z2 = "upd_drv (map_nodes (\<lambda>_ p. p\<lparr>trigger_count := em_factor ec, trigger_event_num := em_event_num ec\<rparr>) ?C) ?z1"
  let ?z3 = "upd_drv (\<lambda>s. s\<lparr>driver_state := (driver_state s)\<lparr>num_em_groups := num_groups ec\<rparr>,
      PMU_register_data := replicate ?n None\<rparr>) ?z2"
  have nc: "ncpus ?z1 = ncpus z" "ncpus ?z2 = ncpus z" "ncpus ?z3 = ncpus z" by (simp_all add: ncpus_def)
  have nodes: "\<forall>i < ncpus z. \<exists>p. pcb (drv_of z) i = Some p" using assms(1) by (auto simp: idle_session_def)
  have loop: "for_cpus (\<lambda>_ p. Some (p\<lparr>trigger_count := em_factor ec, trigger_event_num := em_event_num ec\<rparr>)) ?z1 = Some ?z2"
    using for_cpus_nodes[of ?z1 _ "\<lambda>_ p. p\<lparr>trigger_count := em_factor ec, trigger_event_num := em_event_num ec\<rparr>"]
      nodes unfolding nc by simp
  have n0: "?n \<noteq> 0" using assms(2) by (simp add: ec_fits_def)
  have ec3: "global_ec (drv_of ?z3) = ec" by simp
  have "\<forall>i < ncpus ?z3. \<exists>p. pcb (drv_of ?z3) i = Some p" using nodes unfolding nc by (auto simp: pcb_map_nodes)
  then obtain t where em: "EVENTMUX_Initialize e 2 ?z3 =
      Some ((upd_drv (map_nodes (\<lambda>_ p. p\<lparr>em_tables := replicate ?m 0\<rparr>) ?C) ?z3)\<lparr>em_timer := t\<rparr>)"
    using EVENTMUX_Initialize_run[of ?z3 e 2] assms unfolding nc ec3 idle_session_def by blast
  have al: "alloc e 0" "allocates e 1 ?n" using assms(1) n0 by (simp_all add: idle_session_def allocates_def)
  have "lwpmudrv_Set_EM_Config e (given ec) z =
      Some (OS_SUCCESS, ((upd_drv (map_nodes (\<lambda>_ p. p\<lparr>em_tables := replicate ?m 0\<rparr>) ?C) ?z3)\<lparr>em_timer := t\<rparr>)\<lparr>em_groups_count := 0\<rparr>)"
    using assms(1) al loop em unfolding lwpmudrv_Set_EM_Config_def idle_session_def Let_def by simp
  moreover have "((upd_drv (map_nodes (\<lambda>_ p. p\<lparr>em_tables := replicate ?m 0\<rparr>) ?C) ?z3)\<lparr>em_timer := t\<rparr>)\<lparr>em_groups_count := 0\<rparr> =
      (with_groups ec z)\<lparr>em_timer := t\<rparr>"
    by (simp add: with_groups_def map_nodes_update configured_node_def[abs_def])
  ultimately show ?thesis by auto
qed

definition stored :: "event_config \<Rightarrow> ecb list \<Rightarrow> session \<Rightarrow> session" where
  "stored ec bs z = (let n = unat (num_groups ec) in
     (upd_drv (\<lambda>s. s\<lparr>PMU_register_data := map Some (take n bs) @ replicate (n - length bs) None\<rparr>) z)\<lparr>
       em_groups_count := min n (length bs)\<rparr>)"

lemma stored_next:
  assumes "phase_of z = IDLE" "alloc e 0" "num_em_groups (ds z) = num_groups ec" "ec_fits ec"
  shows "lwpmudrv_Configure_Events e (given b) (stored ec bs z) = Some (OS_SUCCESS, stored ec (bs @ [b]) z)"
proof -
  let ?n = "unat (num_groups ec)"
  have b: "?n * unat (max_gp_events ec) * 8 < 2 ^ 32" "0 < unat (max_gp_events ec)"
    using assms(4) by (simp_all only: ec_fits_def)
  have "?n \<le> ?n * unat (max_gp_events ec)" using b(2) by simp
  moreover have "k * 8 < 2 ^ 32 \<Longrightarrow> k < 2 ^ 31" for k :: nat by simp
  from this[OF b(1)] have "?n * unat (max_gp_events ec) < 2 ^ 31" .
  ultimately have "?n < 2 ^ 31" by (rule le_less_trans)
  then have s: "sint (num_groups ec) = int ?n" by (rule sint_small)
  have full: "int k \<ge> sint (num_groups ec) \<longleftrightarrow> ?n \<le> k" for k by (simp only: s of_nat_le_iff)
  show ?thesis
  proof (cases "length bs < ?n")
    case True
    then have "list_put (map Some (take ?n bs) @ replicate (?n - length bs) None) (length bs) (Some b) =
        Some (map Some (take ?n (bs @ [b])) @ replicate (?n - length (bs @ [b])) None)"
      by (cases "?n - length bs") (auto simp: list_put_def list_update_append)
    with True assms show ?thesis
      by (simp add: lwpmudrv_Configure_Events_def stored_def Let_def full min_def) 
  next
    case False
    with assms full[of ?n] show ?thesis by (simp add: lwpmudrv_Configure_Events_def stored_def Let_def min_def)
  qed
qed

lemma stored_all:
  assumes "phase_of z = IDLE" "alloc e 0" "num_em_groups (ds z) = num_groups ec" "ec_fits ec"
  shows "serve_all (map (\<lambda>b. (e, DRV_OPERATION_EM_CONFIG_NEXT (given b))) bs) (stored ec [] z) = Some (stored ec bs z)"
proof (induction bs rule: rev_induct)
  case Nil
  show ?case by simp
next
  case (snoc b bs)
  have "lwpmu_Service_IOCTL e (DRV_OPERATION_EM_CONFIG_NEXT (given b)) (stored ec bs z) =
      Some ((OS_SUCCESS, []), stored ec (bs @ [b]) z)"
    by (simp add: lwpmu_Service_IOCTL_def stored_next[OF assms] acked_def)
  then show ?case using snoc.IH by (simp add: serve_all_snoc)
qed

definition config_requests :: "env \<Rightarrow> event_config \<Rightarrow> ecb list \<Rightarrow> (env \<times> request) list" where
  "config_requests e ec bs = (e, DRV_OPERATION_EM_GROUPS (given ec)) #
     map (\<lambda>b. (e, DRV_OPERATION_EM_CONFIG_NEXT (given b))) bs"

lemma configured:
  assumes "idle_session e z" "ec_fits ec" "ncpus z * (unat (num_groups ec) * unat (max_gp_events ec) * 8) < 2 ^ 31"
  shows "\<exists>t. serve_all (config_requests e ec bs) z = Some (stored ec bs ((with_groups ec z)\<lparr>em_timer := t\<rparr>))"
proof -
  from Set_EM_Config_run[OF assms] obtain t where
    t: "lwpmudrv_Set_EM_Config e (given ec) z = Some (OS_SUCCESS, (with_groups ec z)\<lparr>em_timer := t\<rparr>)" by blast
  let ?z = "(with_groups ec z)\<lparr>em_timer := t\<rparr>"
  have s: "stored ec [] ?z = ?z" by (simp add: stored_def with_groups_def upd_drv_def map_nodes_def)
  have z: "phase_of ?z = IDLE" "num_em_groups (ds ?z) = num_groups ec"
    using assms(1) by (simp_all add: with_groups_def idle_session_def)
  have "serve_all (map (\<lambda>b. (e, DRV_OPERATION_EM_CONFIG_NEXT (given b))) bs) ?z = Some (stored ec bs ?z)"
    using stored_all[OF z(1) _ z(2) assms(2), of e bs] assms(1) unfolding s by (simp add: idle_session_def)
  then show ?thesis using t
    by (intro exI[of _ t]) (simp add: config_requests_def lwpmu_Service_IOCTL_def acked_def)
qed

text \<open>
  C21: configuring. The session is idle with a node for every CPU, all at group 0, and no allocation fails. The
  configuration enables multiplexing, has more than one group and at least one general counter, and the tables of all
  CPUs together take less than 2^31 bytes, so that no product of sizes wraps around. Then the request with the
  multiplexing configuration followed by one request per event
  group is served to the end; the register data are exactly the first groups sent, as many
  as announced (the rest are answered with success and ignored), and, when those groups are well
  formed, every CPU satisfies the precondition of programming and rotating the groups.
\<close>

theorem configuring_readies_every_CPU:
  assumes "idle_session e z" "ec_fits ec" "ncpus z * (unat (num_groups ec) * unat (max_gp_events ec) * 8) < 2 ^ 31" "unat (num_groups ec) \<le> length bs"
    and "list_all (\<lambda>b. ecb_wf b \<and> gp_window base (max_gp_events ec) b) (take (unat (num_groups ec)) bs)"
  shows "\<exists>z'. serve_all (config_requests e ec bs) z = Some z' \<and>
    PMU_register_data (drv_of z') = map Some (take (unat (num_groups ec)) bs) \<and>
    (\<forall>i < ncpus z. em_ok base i (drv_of z'))"
proof -
  from configured[OF assms(1-3)] obtain t where
    run: "serve_all (config_requests e ec bs) z = Some (stored ec bs ((with_groups ec z)\<lparr>em_timer := t\<rparr>))" by blast
  let ?z = "stored ec bs ((with_groups ec z)\<lparr>em_timer := t\<rparr>)"
  have r: "PMU_register_data (drv_of ?z) = map Some (take (unat (num_groups ec)) bs)"
    using assms(4) by (simp add: stored_def Let_def)
  have g: "global_ec (drv_of ?z) = ec" by (simp add: stored_def with_groups_def Let_def)
  have fits: "unat (num_groups ec) * unat (max_gp_events ec) * 8 < 2 ^ 32" "1 < unat (num_groups ec)"
    using assms(2) by (simp_all only: ec_fits_def)
  have "k * 8 < 2 ^ 32 \<Longrightarrow> k < 2 ^ 32" for k :: nat by simp
  from this[OF fits(1)] have small: "unat (num_groups ec) * unat (max_gp_events ec) < 2 ^ 32" .
  have "em_ok base i (drv_of ?z)" if i: "i < ncpus z" for i
  proof -
    from assms(1) i obtain p where p: "pcb (drv_of z) i = Some p" "current_group p = 0" by (auto simp: idle_session_def)
    have "pcb (drv_of ?z) i = Some (configured_node ec p)"
      using p i by (simp add: stored_def Let_def with_groups_def pcb_map_nodes)
    then show ?thesis unfolding em_ok_def r g
      using p fits small assms(4,5) by (simp add: configured_node_def take_map list_all_length group_ok_def)
  qed
  with run r show ?thesis by blast
qed

theorem configuring_readies_every_CPU_witness:
  "\<exists>z'. serve_all (config_requests demo_env ((global_ec (demo IA32_PMC0))) (map the (PMU_register_data (demo IA32_PMC0))))
     (demo_session IDLE) = Some z' \<and> em_ok IA32_PMC0 0 (drv_of z')"
  using configuring_readies_every_CPU[of demo_env "demo_session IDLE" "global_ec (demo IA32_PMC0)"
      "map the (PMU_register_data (demo IA32_PMC0))" IA32_PMC0]
  by (auto simp: idle_session_def ec_fits_def demo_session_def demo_env_def ncpus_def demo_defs gp_window_def
      flag_defs msr_defs word_le_nat_alt EM_DISABLED_def EM_TIMER_BASED_def)

end
