(* ===== verification/Pinned.thy ===== *)
theory Pinned
  imports Session_Correct
begin

text \<open>
  Which routines of the interrupt handler can start the PMU: none but the restart, and that one
  only in the running phase. An invariant of the machine pins the driver state, the register data
  and the global control register of the other CPUs, and bounds the one of the CPU at hand.
\<close>

definition ctl_of :: "nat \<Rightarrow> drv \<Rightarrow> u64" where
  "ctl_of cpu s = rd cpu IA32_PERF_GLOBAL_CTRL s"

text \<open>No entry that a handler writes through names the global control register.\<close>

definition ctl_free :: "ecb option \<Rightarrow> bool" where
  "ctl_free q = (case q of None \<Rightarrow> True | Some p \<Rightarrow> ecb_wf p \<and>
     list_all (\<lambda>e. reg_id e \<noteq> IA32_PERF_GLOBAL_CTRL) (data_regs p @ data_gp_regs p @ cccr_gp_regs p @ escr_regs p))"

definition pinned :: "global_state \<Rightarrow> ecb option list \<Rightarrow> (nat \<Rightarrow> u64) \<Rightarrow> u64 set \<Rightarrow> nat \<Rightarrow> drv \<Rightarrow> bool" where
  "pinned D M V A cpu s = (driver_state s = D \<and> PMU_register_data s = M \<and> list_all ctl_free M \<and> 0 \<in> A \<and>
     (\<forall>c. c \<noteq> cpu \<longrightarrow> ctl_of c s = V c) \<and> ctl_of cpu s \<in> A)"

named_theorems pins \<open>operations that keep the invariant\<close>

section \<open>Small steps\<close>

lemma ctl_of_wr [simp]:
  "ctl_of c (wr cpu r v s) = (if c = cpu \<and> r = IA32_PERF_GLOBAL_CTRL then v else ctl_of c s)"
  by (auto simp: ctl_of_def)

lemma ctl_of_eq: "(\<And>c r. SYS_Read_MSR c r t = SYS_Read_MSR c r s) \<Longrightarrow> ctl_of c t = ctl_of c s"
  by (simp add: ctl_of_def)

lemma ctl_of_upd [simp]: "ctl_of c (upd_pcpu cpu p s) = ctl_of c s" "ctl_of c (apic_put cpu off v s) = ctl_of c s"
  by (simp_all add: ctl_of_def)

lemma ctl_of_fields [simp]:
  "ctl_of c (s\<lparr>sample_count := x\<rparr>) = ctl_of c s" "ctl_of c (mem_wr a v s) = ctl_of c s"
  by (simp_all add: ctl_of_def SYS_Read_MSR_def mem_wr_def)

lemma upd_pcpu_pin [simp]: "driver_state (upd_pcpu cpu p s) = driver_state s" "PMU_register_data (upd_pcpu cpu p s) = PMU_register_data s"
  by (simp_all add: upd_pcpu_def)

lemma pinned_wr [pins]:
  "pinned D M V A cpu s \<Longrightarrow> r \<noteq> IA32_PERF_GLOBAL_CTRL \<or> v \<in> A \<Longrightarrow> pinned D M V A cpu (wr cpu r v s)"
  by (auto simp: pinned_def)

lemma pinned_upd [simp]: "pinned D M V A cpu (upd_pcpu cpu' p s) = pinned D M V A cpu s"
  by (simp add: pinned_def)

lemma pinned_put [simp]: "pinned D M V A cpu (apic_put cpu' off v s) = pinned D M V A cpu s"
  by (simp add: pinned_def)

lemma pinned_misc [simp]: "pinned D M V A cpu (s\<lparr>sample_count := x\<rparr>) = pinned D M V A cpu s"
  by (simp add: pinned_def)

lemma pinned_apic_msr:
  assumes "pinned D M V A cpu s" "r = DRV_APIC_LVT_PMI_MSR \<or> r = DRV_APIC_LCL_EOI_MSR"
  shows "pinned D M V A cpu (SYS_Write_MSR cpu r v s)"
proof -
  have "ucast IA32_PERF_GLOBAL_CTRL \<noteq> r"
    using assms(2) by (auto simp: DRV_APIC_LVT_PMI_MSR_def DRV_APIC_LCL_EOI_MSR_def msr_defs)
  then show ?thesis using assms(1) by (auto simp: pinned_def ctl_of_def)
qed

lemma pinned_apic [pins]:
  assumes "pinned D M V A cpu s"
  shows "APIC_Disable_PMI cpu s = Some t \<Longrightarrow> pinned D M V A cpu t"
    and "APIC_Enable_Pmi cpu s = Some t \<Longrightarrow> pinned D M V A cpu t"
    and "APIC_Ack_Eoi cpu s = Some t \<Longrightarrow> pinned D M V A cpu t"
    and "PEBS_Reset_Index cpu s = Some t \<Longrightarrow> pinned D M V A cpu t"
  using assms pinned_apic_msr[OF assms]
  by (auto simp: APIC_Disable_PMI_def APIC_Enable_Pmi_def APIC_Ack_Eoi_def PEBS_Reset_Index_def Let_def bind_eq_Some_conv
      pinned_def mem_wr_def ctl_of_def SYS_Read_MSR_def split: if_splits)

lemma pinned_small [pins]:
  assumes "pinned D M V A cpu s"
  shows "set_pcpu f cpu' s = Some t \<Longrightarrow> pinned D M V A cpu t" "set_group cpu' g s = Some t \<Longrightarrow> pinned D M V A cpu t"
    "em_put cpu' i v s = Some t \<Longrightarrow> pinned D M V A cpu t"
  using assms by (auto simp: set_pcpu_def set_group_def em_put_def bind_eq_Some_conv)

section \<open>Loops\<close>

lemma loop_pinned:
  assumes M: "PMU_register_data d = M" "list_all ctl_free M" and P: "P s"
    and step: "\<And>e s t. reg_id e \<noteq> IA32_PERF_GLOBAL_CTRL \<Longrightarrow> P s \<Longrightarrow> body e s = Some t \<Longrightarrow> P t"
  shows "FOR_EACH_DATA_REG cpu d body s = Some t \<Longrightarrow> P t"
    and "FOR_EACH_DATA_GP_REG cpu d body s = Some t \<Longrightarrow> P t"
    and "FOR_EACH_CCCR_GP_REG cpu d body s = Some t \<Longrightarrow> P t"
    and "FOR_EACH_ESCR_REG cpu d body s = Some t \<Longrightarrow> P t"
proof -
  have loop: "P t" if "foldm body xs s = Some t" "list_all (\<lambda>e. reg_id e \<noteq> IA32_PERF_GLOBAL_CTRL) xs" for xs
    using that(1) P by (rule foldm_inv) (use that(2) in \<open>auto simp: list_all_iff intro: step\<close>)
  have blk: "ecb_wf p \<and> ctl_free (Some p)" if "cur_ecb cpu d = Some p" for p
    using that M by (auto simp: cur_ecb_def bind_eq_Some_conv list_at_eq_Some list_all_length ctl_free_def)
  consider p where "cur_ecb cpu d = Some p" "ecb_wf p" "ctl_free (Some p)" | "cur_ecb cpu d = None"
    using blk by (cases "cur_ecb cpu d") auto
  note cs = this
  show "FOR_EACH_DATA_REG cpu d body s = Some t \<Longrightarrow> P t"
    by (cases rule: cs) (auto simp: FOR_EACH_eq ctl_free_def intro: loop, simp add: FOR_EACH_defs)
  show "FOR_EACH_DATA_GP_REG cpu d body s = Some t \<Longrightarrow> P t"
    by (cases rule: cs) (auto simp: FOR_EACH_eq ctl_free_def intro: loop, simp add: FOR_EACH_defs)
  show "FOR_EACH_CCCR_GP_REG cpu d body s = Some t \<Longrightarrow> P t"
    by (cases rule: cs) (auto simp: FOR_EACH_eq ctl_free_def intro: loop, simp add: FOR_EACH_defs)
  show "FOR_EACH_ESCR_REG cpu d body s = Some t \<Longrightarrow> P t"
    by (cases rule: cs) (auto simp: FOR_EACH_eq ctl_free_def intro: loop, simp add: FOR_EACH_defs)
qed

lemma pinnedD: "pinned D M V A cpu s \<Longrightarrow> PMU_register_data s = M" "pinned D M V A cpu s \<Longrightarrow> list_all ctl_free M"
  "pinned D M V A cpu s \<Longrightarrow> driver_state s = D"
  by (simp_all add: pinned_def)

lemmas pinned_loop = loop_pinned[where P = "pinned D M V A cpu" for D M V A cpu, OF pinnedD(1,2)]

lemma em_pinned [pins]:
  assumes "pinned D M V A cpu s"
  shows "em_save base cpu i s = Some t \<Longrightarrow> pinned D M V A cpu t" "em_load base cpu i s = Some t \<Longrightarrow> pinned D M V A cpu t"
  unfolding em_save_def em_load_def
  by (erule pinned_loop(2)[OF assms assms assms, rotated], auto simp: bind_eq_Some_conv intro: pins)+

lemma errata_writes_ctl:
  "ctl_of c (fold (\<lambda>(r, v). wr cpu r v) errata_writes s) = (if c = cpu then 0 else ctl_of c s)"
  by (simp add: errata_writes_def msr_defs ctl_of_def)

lemma errata_writes_pinned:
  assumes "pinned D M V A cpu s"
  shows "pinned D M V A cpu (fold (\<lambda>(r, v). wr cpu r v) errata_writes s)"
  using assms msr_only_fold[where cpu = cpu and rvs = errata_writes and s = s] by (auto simp: pinned_def errata_writes_ctl msr_only_def)

lemma errata_pinned [pins]:
  assumes "pinned D M V A cpu s" "errata_ok he"
  shows "call_errata he cpu s = Some t \<Longrightarrow> pinned D M V A cpu t"
proof -
  have "IA32_PEBS_ENABLE \<noteq> IA32_PERF_GLOBAL_CTRL" by (simp add: msr_defs)
  then show "call_errata he cpu s = Some t \<Longrightarrow> pinned D M V A cpu t"
    using assms by (auto simp: errata_ok_def call_errata_def corei7_Errata_Fix_def corei7_Errata_Fix_2_def Let_def
        intro!: errata_writes_pinned pinned_wr split: if_splits)
qed

section \<open>The routines of the handler\<close>

lemma other_ctls: "IA32_PERF_GLOBAL_OVF_CTRL \<noteq> IA32_PERF_GLOBAL_CTRL" "IA32_PEBS_ENABLE \<noteq> IA32_PERF_GLOBAL_CTRL"
  "IA32_DEBUG_CTRL \<noteq> IA32_PERF_GLOBAL_CTRL" "COMPOUND_CTR_CTL \<noteq> IA32_PERF_GLOBAL_CTRL"
  by (simp_all add: msr_defs COMPOUND_CTR_CTL_def)

lemma record_overflow_pinned:
  assumes "reg_id e \<noteq> IA32_PERF_GLOBAL_CTRL" "pinned D M V A cpu (fst sm)" "record_overflow u cpu e sm = Some tm"
  shows "pinned D M V A cpu (fst tm)"
  using assms by (auto simp: record_overflow_def Let_def bind_eq_Some_conv intro: pinned_wr split: prod.split_asm)

lemma overflow_bodies_pinned:
  assumes "reg_id e \<noteq> IA32_PERF_GLOBAL_CTRL" "pinned D M V A cpu (fst (snd x))"
  shows "core2_Check_Overflow_body ce cpu e x = Some y \<Longrightarrow> pinned D M V A cpu (fst (snd y))"
    "core2_Check_Overflow_Htoff_body cpu e x = Some y \<Longrightarrow> pinned D M V A cpu (fst (snd y))"
    "silvermont_Check_Overflow_body ce cpu e x = Some y \<Longrightarrow> pinned D M V A cpu (fst (snd y))"
  using assms
  by (auto simp: core2_Check_Overflow_body_def core2_Check_Overflow_Htoff_body_def silvermont_Check_Overflow_body_def
      Let_def bind_eq_Some_conv dest!: record_overflow_pinned[OF assms(1), rotated]
      split: prod.split_asm option.split_asm if_splits)

lemma finish_overflow_pinned:
  "pinned D M V A cpu s \<Longrightarrow> finish_overflow cpu c s = Some t \<Longrightarrow> pinned D M V A cpu t"
  by (auto simp: finish_overflow_def Let_def bind_eq_Some_conv other_ctls intro!: pinned_wr)

lemma overflow_pinned:
  assumes "pinned D M V A cpu s"
  shows "core2_Check_Overflow ce ge cpu s = Some (t, ms) \<Longrightarrow> pinned D M V A cpu t"
    "core2_Check_Overflow_Htoff_Mode ge cpu s = Some (t, ms) \<Longrightarrow> pinned D M V A cpu t"
    "silvermont_Check_Overflow ce ge cpu s = Some (t, ms) \<Longrightarrow> pinned D M V A cpu t"
proof -
  have loop: "pinned D M V A cpu (fst (snd y))"
    if "FOR_EACH_DATA_REG cpu (s\<lparr>sample_count := n\<rparr>) body (st, s\<lparr>sample_count := n\<rparr>, []) = Some y"
      "\<And>e x y. reg_id e \<noteq> IA32_PERF_GLOBAL_CTRL \<Longrightarrow> pinned D M V A cpu (fst (snd x)) \<Longrightarrow> body e x = Some y \<Longrightarrow>
         pinned D M V A cpu (fst (snd y))" for n st body and y :: "u64 \<times> drv \<times> event_mask list"
    by (rule loop_pinned(1)[where P = "\<lambda>x. pinned D M V A cpu (fst (snd x))", OF _ _ _ _ that(1)])
      (use assms that(2) in \<open>auto simp: pinnedD[OF assms]\<close>)
  show "core2_Check_Overflow ce ge cpu s = Some (t, ms) \<Longrightarrow> pinned D M V A cpu t"
    by (auto simp: core2_Check_Overflow_def Let_def bind_eq_Some_conv split: prod.split_asm
        dest!: loop intro: overflow_bodies_pinned finish_overflow_pinned)
  show "core2_Check_Overflow_Htoff_Mode ge cpu s = Some (t, ms) \<Longrightarrow> pinned D M V A cpu t"
    by (auto simp: core2_Check_Overflow_Htoff_Mode_def Let_def bind_eq_Some_conv split: prod.split_asm
        dest!: loop intro: overflow_bodies_pinned finish_overflow_pinned)
  show "silvermont_Check_Overflow ce ge cpu s = Some (t, ms) \<Longrightarrow> pinned D M V A cpu t"
    by (auto simp: silvermont_Check_Overflow_def Let_def bind_eq_Some_conv split: prod.split_asm
        dest!: loop intro: overflow_bodies_pinned finish_overflow_pinned)
qed

lemma pinned_yields:
  assumes "pinned D M V A cpu s"
  shows "yields (pinned D M V A cpu) (set_pcpu f cpu' s)" "yields (pinned D M V A cpu) (set_group cpu' g s)"
    "yields (pinned D M V A cpu) (em_save base cpu i s)" "yields (pinned D M V A cpu) (em_load base cpu i s)"
    "errata_ok he \<Longrightarrow> yields (pinned D M V A cpu) (call_errata he cpu s)"
    "yields (pinned D M V A cpu) (FOR_EACH_CCCR_GP_REG cpu s (\<lambda>e s. Some (wr cpu (reg_id e) (v e) s)) s)"
    "yields (pinned D M V A cpu) (FOR_EACH_ESCR_REG cpu s (\<lambda>e s. Some (wr cpu (reg_id e) (v e) s)) s)"
    "yields (pinned D M V A cpu) (FOR_EACH_DATA_REG cpu s (\<lambda>e s. do { p \<leftarrow> pcb s cpu;
       Some (if ucast (event_id_index e) \<noteq> trigger_event_num p then wr cpu (reg_id e) 0 s else s) }) s)"
proof -
  show "yields (pinned D M V A cpu) (set_pcpu f cpu' s)" "yields (pinned D M V A cpu) (set_group cpu' g s)"
    "yields (pinned D M V A cpu) (em_save base cpu i s)" "yields (pinned D M V A cpu) (em_load base cpu i s)"
    "errata_ok he \<Longrightarrow> yields (pinned D M V A cpu) (call_errata he cpu s)"
    using assms unfolding yields_def by (blast intro: pinned_small em_pinned errata_pinned)+
  show "yields (pinned D M V A cpu) (FOR_EACH_CCCR_GP_REG cpu s (\<lambda>e s. Some (wr cpu (reg_id e) (v e) s)) s)"
    unfolding yields_def by (intro allI impI, erule pinned_loop(3)[OF assms assms assms, rotated]) (auto intro: pins)
  show "yields (pinned D M V A cpu) (FOR_EACH_ESCR_REG cpu s (\<lambda>e s. Some (wr cpu (reg_id e) (v e) s)) s)"
    unfolding yields_def by (intro allI impI, erule pinned_loop(4)[OF assms assms assms, rotated]) (auto intro: pins)
  show "yields (pinned D M V A cpu) (FOR_EACH_DATA_REG cpu s (\<lambda>e s. do { p \<leftarrow> pcb s cpu;
       Some (if ucast (event_id_index e) \<noteq> trigger_event_num p then wr cpu (reg_id e) 0 s else s) }) s)"
    unfolding yields_def by (intro allI impI, erule pinned_loop(1)[OF assms assms assms, rotated])
      (auto simp: bind_eq_Some_conv intro!: pinned_wr)
qed

lemma yields_intros:
  "P y \<Longrightarrow> yields P (Some y)" "yields (\<lambda>x. yields P (f x)) r \<Longrightarrow> yields P (Option.bind r f)"
  "(b \<Longrightarrow> yields P q) \<Longrightarrow> (\<not> b \<Longrightarrow> yields P q') \<Longrightarrow> yields P (if b then q else q')"
  by simp_all

lemma swap_pinned:
  assumes "pinned D M V A cpu s" "errata_ok he"
  shows "core2_Swap_Group he cpu s = Some t \<Longrightarrow> pinned D M V A cpu t"
    and "silvermont_Swap_Group he cpu s = Some t \<Longrightarrow> pinned D M V A cpu t"
proof -
  note y = pinned_yields[where D = D and M = M and V = V and A = A and cpu = cpu, THEN yields_mono]
  have "yields (pinned D M V A cpu) (core2_Swap_Group he cpu s)"
    unfolding core2_Swap_Group_def Let_def
    by (intro yields_intros yields_read y | rule assms | assumption)+
  then show "core2_Swap_Group he cpu s = Some t \<Longrightarrow> pinned D M V A cpu t" by (rule yieldsD)
  have "yields (pinned D M V A cpu) (silvermont_Swap_Group he cpu s)"
    unfolding silvermont_Swap_Group_def Let_def
    by (intro yields_intros yields_read y | rule assms | assumption)+
  then show "silvermont_Swap_Group he cpu s = Some t \<Longrightarrow> pinned D M V A cpu t" by (rule yieldsD)
qed

text \<open>The restart: any value may be loaded while running, nothing happens otherwise.\<close>

lemma compound_pinned:
  assumes "pinned D M V A cpu s"
  shows "write_compound_ctl cpu s = Some t \<Longrightarrow> pinned D M V A cpu t"
    and "FOR_EACH_CCCR_REG cpu s (\<lambda>e s. Some (if is_compound_ctr_bit_set e then wr cpu COMPOUND_CTR_CTL 0 s else s)) s =
      Some t \<Longrightarrow> pinned D M V A cpu t"
proof -
  have loop: "pinned D M V A cpu t" if "FOR_EACH_CCCR_REG cpu s
      (\<lambda>e s. Some (if is_compound_ctr_bit_set e then wr cpu COMPOUND_CTR_CTL (v e) s else s)) s = Some t" for v
    using that unfolding FOR_EACH_defs for_each_def bind_eq_Some_conv
    by (auto elim!: foldm_inv[where P = "pinned D M V A cpu"] simp: bind_eq_Some_conv assms other_ctls intro!: pinned_wr
        split: if_splits)
  show "write_compound_ctl cpu s = Some t \<Longrightarrow> pinned D M V A cpu t" unfolding write_compound_ctl_def by (rule loop)
  show "FOR_EACH_CCCR_REG cpu s (\<lambda>e s. Some (if is_compound_ctr_bit_set e then wr cpu COMPOUND_CTR_CTL 0 s else s)) s =
      Some t \<Longrightarrow> pinned D M V A cpu t" by (rule loop)
qed

lemma restart_pinned:
  assumes "pinned D M V A cpu s" "current_phase D \<noteq> RUNNING \<or> A = UNIV"
  shows "core2_Enable_PMU cpu s = Some t \<Longrightarrow> pinned D M V A cpu t"
    and "corei7_Enable_PMU_2 cpu s = Some t \<Longrightarrow> pinned D M V A cpu t"
    and "silvermont_Enable_PMU cpu s = Some t \<Longrightarrow> pinned D M V A cpu t"
proof -
  note d = pinnedD(3)[OF assms(1)]
  have y: "yields (pinned D M V A cpu) (APIC_Enable_Pmi cpu x)" "yields (pinned D M V A cpu) (write_compound_ctl cpu x)"
    "yields (pinned D M V A cpu) (set_pcpu f cpu x)" if "pinned D M V A cpu x" for x f
    using that by (auto simp: yields_def intro: pins compound_pinned)
  have r: "(\<And>v. P v) \<Longrightarrow> yields P (entry_value q i)" "(\<And>q. Q q) \<Longrightarrow> yields Q (cur_ecb_ptr cpu x)" for P Q q i x
    by (simp_all add: yields_def)
  have all: "yields (pinned D M V A cpu) (core2_Enable_PMU cpu s)" "yields (pinned D M V A cpu) (corei7_Enable_PMU_2 cpu s)"
    "yields (pinned D M V A cpu) (silvermont_Enable_PMU cpu s)"
    unfolding core2_Enable_PMU_def corei7_Enable_PMU_2_def silvermont_Enable_PMU_def Let_def using assms
    by (auto simp: d other_ctls intro!: yields_read r y[THEN yields_mono] pinned_wr)
  show "core2_Enable_PMU cpu s = Some t \<Longrightarrow> pinned D M V A cpu t" by (rule yieldsD[OF all(1)])
  show "corei7_Enable_PMU_2 cpu s = Some t \<Longrightarrow> pinned D M V A cpu t" by (rule yieldsD[OF all(2)])
  show "silvermont_Enable_PMU cpu s = Some t \<Longrightarrow> pinned D M V A cpu t" by (rule yieldsD[OF all(3)])
qed

text \<open>The freeze: nothing happens while running, otherwise the PMU is off afterwards.\<close>

lemma freeze_pinned:
  assumes "pinned D M V A cpu s"
  shows "core2_Disable_PMU cpu s = Some t \<Longrightarrow> pinned D M V (if current_phase D = RUNNING then A else {0}) cpu t"
    and "silvermont_Disable_PMU cpu s = Some t \<Longrightarrow> pinned D M V (if current_phase D = RUNNING then A else {0}) cpu t"
proof -
  note d = pinnedD(3)[OF assms]
  have z: "pinned D M V {0} cpu (wr cpu IA32_PERF_GLOBAL_CTRL 0 s)" using assms by (auto simp: pinned_def)
  have y: "yields (pinned D M V {0} cpu) (APIC_Disable_PMI cpu x)"
    "yields (pinned D M V {0} cpu) (FOR_EACH_CCCR_REG cpu x
      (\<lambda>e s. Some (if is_compound_ctr_bit_set e then wr cpu COMPOUND_CTR_CTL 0 s else s)) x)"
    if "pinned D M V {0} cpu x" for x
    using that by (auto simp: yields_def intro: pins compound_pinned)
  have all: "yields (pinned D M V (if current_phase D = RUNNING then A else {0}) cpu) (core2_Disable_PMU cpu s)"
    "yields (pinned D M V (if current_phase D = RUNNING then A else {0}) cpu) (silvermont_Disable_PMU cpu s)"
    unfolding core2_Disable_PMU_def silvermont_Disable_PMU_def Let_def using assms z
    by (auto simp: d other_ctls intro!: y[THEN yields_mono] y(1) pinned_wr)
  show "core2_Disable_PMU cpu s = Some t \<Longrightarrow> pinned D M V (if current_phase D = RUNNING then A else {0}) cpu t"
    by (rule yieldsD[OF all(1)])
  show "silvermont_Disable_PMU cpu s = Some t \<Longrightarrow> pinned D M V (if current_phase D = RUNNING then A else {0}) cpu t"
    by (rule yieldsD[OF all(2)])
qed

section \<open>By dispatch table\<close>

definition core_nodes :: "dispatch_node set" where
  "core_nodes = {core2_dispatch, corei7_dispatch, corei7_dispatch_htoff_mode, corei7_dispatch_2,
     corei7_dispatch_htoff_mode_2, silvermont_dispatch}"

lemma core_table_node: "n \<in> core_tables \<Longrightarrow> \<exists>d \<in> core_nodes. table_of rm n = core_table d"
  by (auto simp: core_tables_def core_nodes_def)

lemma node_fields [simp]:
  "d_freeze corei7_dispatch = core2_Disable_PMU" "d_freeze corei7_dispatch_htoff_mode = core2_Disable_PMU"
  "d_freeze corei7_dispatch_2 = core2_Disable_PMU" "d_freeze corei7_dispatch_htoff_mode_2 = core2_Disable_PMU"
  "d_freeze core2_dispatch = core2_Disable_PMU" "d_freeze silvermont_dispatch = silvermont_Disable_PMU"
  "d_restart corei7_dispatch = core2_Enable_PMU" "d_restart corei7_dispatch_htoff_mode = core2_Enable_PMU"
  "d_restart corei7_dispatch_2 = corei7_Enable_PMU_2" "d_restart corei7_dispatch_htoff_mode_2 = corei7_Enable_PMU_2"
  "d_restart core2_dispatch = core2_Enable_PMU" "d_restart silvermont_dispatch = silvermont_Enable_PMU"
  by (simp_all add: core2_dispatch_def corei7_dispatch_def corei7_dispatch_2_def corei7_dispatch_htoff_mode_def
      corei7_dispatch_htoff_mode_2_def silvermont_dispatch_def)

lemma node_checks [simp]:
  "d_check_overflow core2_dispatch = core2_Check_Overflow (Some core2_Check_Overflow_Errata) None"
  "d_check_overflow corei7_dispatch = core2_Check_Overflow None (Some corei7_Check_Overflow_Errata)"
  "d_check_overflow corei7_dispatch_2 = core2_Check_Overflow None (Some corei7_Check_Overflow_Errata)"
  "d_check_overflow corei7_dispatch_htoff_mode = core2_Check_Overflow_Htoff_Mode (Some corei7_Check_Overflow_Errata)"
  "d_check_overflow corei7_dispatch_htoff_mode_2 = core2_Check_Overflow_Htoff_Mode (Some corei7_Check_Overflow_Errata)"
  "d_check_overflow silvermont_dispatch = silvermont_Check_Overflow None None"
  by (simp_all add: core2_dispatch_def corei7_dispatch_def corei7_dispatch_2_def corei7_dispatch_htoff_mode_def
      corei7_dispatch_htoff_mode_2_def silvermont_dispatch_def)

lemma node_swaps [simp]:
  "d_swap_group core2_dispatch = core2_Swap_Group None"
  "d_swap_group corei7_dispatch = core2_Swap_Group (Some corei7_Errata_Fix)"
  "d_swap_group corei7_dispatch_htoff_mode = core2_Swap_Group (Some corei7_Errata_Fix)"
  "d_swap_group corei7_dispatch_2 = core2_Swap_Group (Some corei7_Errata_Fix_2)"
  "d_swap_group corei7_dispatch_htoff_mode_2 = core2_Swap_Group (Some corei7_Errata_Fix_2)"
  "d_swap_group silvermont_dispatch = silvermont_Swap_Group None"
  by (simp_all add: core2_dispatch_def corei7_dispatch_def corei7_dispatch_2_def corei7_dispatch_htoff_mode_def
      corei7_dispatch_htoff_mode_2_def silvermont_dispatch_def)

lemma node_counts [simp]:
  "d_read_counts core2_dispatch = core2_Read_Counts" "d_read_counts corei7_dispatch = core2_Read_Counts"
  "d_read_counts corei7_dispatch_htoff_mode = core2_Read_Counts" "d_read_counts corei7_dispatch_2 = core2_Read_Counts"
  "d_read_counts corei7_dispatch_htoff_mode_2 = core2_Read_Counts" "d_read_counts silvermont_dispatch = silvermont_Read_Counts"
  by (simp_all add: core2_dispatch_def corei7_dispatch_def corei7_dispatch_2_def corei7_dispatch_htoff_mode_def
      corei7_dispatch_htoff_mode_2_def silvermont_dispatch_def)

lemma counts_pinned:
  assumes "pinned D M V A cpu s"
  shows "core2_Read_Counts cpu i d s = Some (d', t) \<Longrightarrow> pinned D M V A cpu t"
    and "silvermont_Read_Counts cpu i d s = Some (d', t) \<Longrightarrow> pinned D M V A cpu t"
proof -
  let ?body = "\<lambda>c e (data, s).
       let event_id = ucast (event_id_index e) :: u32 in
       if event_id = i
       then do { data \<leftarrow> list_put data (1 + unat event_id) (NOT (reg_value e - 1) AND max_bits e);
                 Some (data, s) }
       else if c \<and> is_compound_ctr_sub_bit_set e then Some (data, s)
       else do { data \<leftarrow> list_put data (1 + unat event_id) (rd cpu (reg_id e) s);
                 Some (data, wr cpu (reg_id e) 0 s) }"
  have loop: "pinned D M V A cpu (snd y)" if "FOR_EACH_DATA_REG cpu s (?body c) x = Some y" "snd x = s" for c x y
    by (rule loop_pinned(1)[where P = "\<lambda>x. pinned D M V A cpu (snd x)", OF pinnedD(1,2)[OF assms] _ _ that(1)])
      (auto simp: that(2) assms Let_def bind_eq_Some_conv intro!: pinned_wr split: if_splits)
  show "core2_Read_Counts cpu i d s = Some (d', t) \<Longrightarrow> pinned D M V A cpu t"
    unfolding core2_Read_Counts_def bind_eq_Some_conv
    by (elim exE conjE, drule loop[where c = True, unfolded simp_thms if_False]) simp_all
  show "silvermont_Read_Counts cpu i d s = Some (d', t) \<Longrightarrow> pinned D M V A cpu t"
    unfolding silvermont_Read_Counts_def bind_eq_Some_conv
    by (elim exE conjE, drule loop[where c = False, unfolded simp_thms if_False]) simp_all
qed

lemma node_pinned:
  assumes "d \<in> core_nodes" "pinned D M V A cpu s"
  shows "d_check_overflow d cpu s = Some (t, ms) \<Longrightarrow> pinned D M V A cpu t"
    and "d_swap_group d cpu s = Some t \<Longrightarrow> pinned D M V A cpu t"
    and "d_freeze d cpu s = Some t \<Longrightarrow> pinned D M V (if current_phase D = RUNNING then A else {0}) cpu t"
    and "current_phase D \<noteq> RUNNING \<or> A = UNIV \<Longrightarrow> d_restart d cpu s = Some t \<Longrightarrow> pinned D M V A cpu t"
    and "d_read_counts d cpu i ws s = Some (ws', t) \<Longrightarrow> pinned D M V A cpu t"
  using assms(1) overflow_pinned[OF assms(2)] swap_pinned[OF assms(2)] freeze_pinned[OF assms(2)]
    restart_pinned[OF assms(2)] counts_pinned[OF assms(2)] errata_oks
  unfolding core_nodes_def by auto

end
