(* ===== verification/Handshake.thy ===== *)
theory Handshake
  imports Pinned
begin

text \<open>
  Pausing while interrupts keep arriving. The pausing thread and the interrupt handlers of the CPUs
  interleave in small steps over one session: the handler of pmi.c, cut at its accesses to what the
  threads share, and the loop structure of \<open>lwpmudrv_Pause\<close>. Memory is sequentially consistent; a
  handler runs with interrupts off, so a call to another CPU (and the pausing thread's own turn on
  its CPU) finds no handler under way there.
\<close>

section \<open>The handler in steps\<close>

text \<open>The records of the overflowed events, once the phase and the CPU's flag have been found to admit them.\<close>

definition pmi_accepted :: "(u64 \<Rightarrow> u64) \<Rightarrow> dispatch_name \<Rightarrow> nat \<Rightarrow> pmi_context \<Rightarrow> event_mask list \<Rightarrow> session \<Rightarrow> session option" where
  "pmi_accepted rm dn cpu c masks z =
     (if \<not> pcfg_set z then None
      else if target_pid (pcfg (drv_of z)) > 0 \<and> ucast (cur_pid c) \<noteq> target_pid (pcfg (drv_of z)) then Some z
      else foldm (pmi_record rm dn cpu c) masks z)"

datatype pmi_stage = Away | Frozen | Counted | Checked "event_mask list" | Accepted "event_mask list"
  | Sampled | Swapped | Restarted

text \<open>Acknowledging the interrupt and swapping the event group.\<close>

definition pmi_finish :: "nat \<Rightarrow> dispatch_name \<Rightarrow> (u64 \<Rightarrow> u64) \<Rightarrow> session \<Rightarrow> session option" where
  "pmi_finish cpu dn rm z = do {
     z \<leftarrow> (if \<not> pcfg_set z then None
           else if pebs_mode (pcfg (drv_of z)) \<noteq> 0 then on_drv (PEBS_Reset_Index cpu) z else Some z);
     z \<leftarrow> on_drv (APIC_Ack_Eoi cpu) z;
     p \<leftarrow> pcb (drv_of z) cpu;
     if trigger_count p = 0 then do { f \<leftarrow> t_swap_group (table_of rm dn); on_drv (f cpu) z } else Some z }"

definition pmi_step :: "(u64 \<Rightarrow> u64) \<Rightarrow> nat \<Rightarrow> pmi_context \<Rightarrow> pmi_stage \<times> session \<Rightarrow> (pmi_stage \<times> session) option" where
  "pmi_step rm cpu c = (\<lambda>(st, z). case st of
     Away \<Rightarrow> do { u \<leftarrow> call_op t_freeze rm (disp z) None cpu (un z); Some (Frozen, z\<lparr>un := u\<rparr>) }
   | Frozen \<Rightarrow> Some (Counted, z\<lparr>in_interrupt := (in_interrupt z)(cpu := in_interrupt z cpu + 1)\<rparr>)
   | Counted \<Rightarrow> do { dn \<leftarrow> disp z; chk \<leftarrow> t_check_overflow (table_of rm dn);
       (s, masks) \<leftarrow> chk cpu (drv_of z); Some (Checked masks, upd_drv (\<lambda>_. s) z) }
   | Checked masks \<Rightarrow> do { p \<leftarrow> pcb (drv_of z) cpu;
       Some (if phase_of z = RUNNING \<and> accept_interrupt p \<noteq> 0 then Accepted masks else Sampled, z) }
   | Accepted masks \<Rightarrow> do { dn \<leftarrow> disp z; z \<leftarrow> pmi_accepted rm dn cpu c masks z; Some (Sampled, z) }
   | Sampled \<Rightarrow> do { dn \<leftarrow> disp z; z \<leftarrow> pmi_finish cpu dn rm z; Some (Swapped, z) }
   | Swapped \<Rightarrow> do { u \<leftarrow> call_op t_restart rm (disp z) None cpu (un z); Some (Restarted, z\<lparr>un := u\<rparr>) }
   | Restarted \<Rightarrow> Some (Away, z\<lparr>in_interrupt := (in_interrupt z)(cpu := 0)\<rparr>))"

section \<open>The pausing thread in steps\<close>

text \<open>
  \<open>Closing i\<close>: the flags of the first \<open>i\<close> CPUs are cleared; \<open>Scanning i d\<close>: a turn of the waiting
  loop has read the first \<open>i\<close> handler counts, all zero if \<open>d\<close>; \<open>Freezing C\<close>: the CPUs \<open>C\<close> are still
  to be frozen.
\<close>

datatype pause_stage = Not_Pausing | Closing nat | Scanning nat bool | Freezing "nat list" | Paused

type_synonym world = "session \<times> (nat \<Rightarrow> pmi_stage) \<times> pause_stage"

inductive pause_step :: "(u64 \<Rightarrow> u64) \<Rightarrow> world \<Rightarrow> world \<Rightarrow> bool" for rm where
  interrupt: "cpu < ncpus z \<Longrightarrow> pmi_step rm cpu c (h cpu, z) = Some (st, z') \<Longrightarrow>
     pause_step rm (z, h, ps) (z', h(cpu := st), ps)"
| begin_pause: "phase_of z = RUNNING \<Longrightarrow> pause_step rm (z, h, Not_Pausing) (set_phase PAUSING z, h, Closing 0)"
| close: "i < ncpus z \<Longrightarrow> pcb (drv_of z) i = Some p \<Longrightarrow>
     pause_step rm (z, h, Closing i) (upd_drv (upd_pcpu i (p\<lparr>accept_interrupt := 0\<rparr>)) z, h, Closing (i + 1))"
| closed: "i \<ge> ncpus z \<Longrightarrow> pause_step rm (z, h, Closing i) (z, h, Scanning 0 True)"
| scan: "i < ncpus z \<Longrightarrow> pause_step rm (z, h, Scanning i d) (z, h, Scanning (i + 1) (d \<and> in_interrupt z i = 0))"
| again: "i \<ge> ncpus z \<Longrightarrow> pause_step rm (z, h, Scanning i False) (z, h, Scanning 0 True)"
| quiet: "i \<ge> ncpus z \<Longrightarrow> pause_step rm (z, h, Scanning i True) (z, h, Freezing [0 ..< ncpus z])"
| freeze: "cpu \<in> set C \<Longrightarrow> h cpu = Away \<Longrightarrow> call_op t_freeze rm (disp z) None cpu (un z) = Some u \<Longrightarrow>
     pause_step rm (z, h, Freezing C) (z\<lparr>un := u\<rparr>, h, Freezing (removeAll cpu C))"
| all_frozen: "pause_step rm (z, h, Freezing []) (set_phase PAUSED z, h, Paused)"

inductive_cases pause_stepE: "pause_step rm w w'"

section \<open>The sequential models are runs of these steps\<close>

text \<open>One handler, undisturbed.\<close>

definition pmi_run :: "(u64 \<Rightarrow> u64) \<Rightarrow> nat \<Rightarrow> pmi_context \<Rightarrow> session \<Rightarrow> (pmi_stage \<times> session) option" where
  "pmi_run rm cpu c z = do {
     x \<leftarrow> iterm (pmi_step rm cpu c) 4 (Away, z);
     x \<leftarrow> (case fst x of Accepted _ \<Rightarrow> pmi_step rm cpu c x | _ \<Rightarrow> Some x);
     iterm (pmi_step rm cpu c) 3 x }"

lemma pmi_samples_split: "pmi_samples rm dn cpu c masks z = do { p \<leftarrow> pcb (drv_of z) cpu;
    if phase_of z = RUNNING \<and> accept_interrupt p \<noteq> 0 then pmi_accepted rm dn cpu c masks z else Some z }"
  by (simp only: pmi_samples_def pmi_accepted_def)

lemma pmi_step_simps:
  "pmi_step rm cpu c (Away, z) = do { u \<leftarrow> call_op t_freeze rm (disp z) None cpu (un z); Some (Frozen, z\<lparr>un := u\<rparr>) }"
  "pmi_step rm cpu c (Frozen, z) = Some (Counted, z\<lparr>in_interrupt := (in_interrupt z)(cpu := in_interrupt z cpu + 1)\<rparr>)"
  "pmi_step rm cpu c (Counted, z) = do { dn \<leftarrow> disp z; chk \<leftarrow> t_check_overflow (table_of rm dn);
     (s, masks) \<leftarrow> chk cpu (drv_of z); Some (Checked masks, upd_drv (\<lambda>_. s) z) }"
  "pmi_step rm cpu c (Checked masks, z) = do { p \<leftarrow> pcb (drv_of z) cpu;
     Some (if phase_of z = RUNNING \<and> accept_interrupt p \<noteq> 0 then Accepted masks else Sampled, z) }"
  "pmi_step rm cpu c (Accepted masks, z) = do { dn \<leftarrow> disp z; z \<leftarrow> pmi_accepted rm dn cpu c masks z; Some (Sampled, z) }"
  "pmi_step rm cpu c (Sampled, z) = do { dn \<leftarrow> disp z; z \<leftarrow> pmi_finish cpu dn rm z; Some (Swapped, z) }"
  "pmi_step rm cpu c (Swapped, z) = do { u \<leftarrow> call_op t_restart rm (disp z) None cpu (un z); Some (Restarted, z\<lparr>un := u\<rparr>) }"
  "pmi_step rm cpu c (Restarted, z) = Some (Away, z\<lparr>in_interrupt := (in_interrupt z)(cpu := 0)\<rparr>)"
  by (simp_all add: pmi_step_def)

text \<open>The stages before and after the test whether to record.\<close>

lemma iterm_0 [simp]: "iterm f 0 = Some"
  by (simp add: fun_eq_iff)

lemma pmi_enter: "iterm (pmi_step rm cpu c) 3 (Away, z) = do {
    u \<leftarrow> call_op t_freeze rm (disp z) None cpu (un z);
    let z = z\<lparr>un := u, in_interrupt := (in_interrupt z)(cpu := in_interrupt z cpu + 1)\<rparr>;
    dn \<leftarrow> disp z; chk \<leftarrow> t_check_overflow (table_of rm dn);
    (s, masks) \<leftarrow> chk cpu (drv_of z); Some (Checked masks, upd_drv (\<lambda>_. s) z) }"
  by (cases "call_op t_freeze rm (disp z) None cpu (un z)")
    (simp_all add: numeral_eq_Suc pmi_step_simps Let_def)

lemma pmi_leave: "iterm (pmi_step rm cpu c) 3 (Sampled, z) = do { dn \<leftarrow> disp z; z \<leftarrow> pmi_finish cpu dn rm z;
    u \<leftarrow> call_op t_restart rm (disp z) None cpu (un z);
    Some (Away, z\<lparr>un := u, in_interrupt := (in_interrupt z)(cpu := 0)\<rparr>) }"
  by (cases "disp z"; cases "pmi_finish cpu (the (disp z)) rm z") (simp_all add: numeral_eq_Suc pmi_step_simps)

lemma pmi_test: "do { x \<leftarrow> pmi_step rm cpu c (Checked masks, z);
      case fst x of Accepted _ \<Rightarrow> pmi_step rm cpu c x | _ \<Rightarrow> Some x } =
    (if disp z = None then pmi_step rm cpu c (Checked masks, z) \<bind> (\<lambda>x. if fst x = Sampled then Some x else None)
     else map_option (\<lambda>z. (Sampled, z)) (pmi_samples rm (the (disp z)) cpu c masks z))"
  by (cases "pcb (drv_of z) cpu"; cases "disp z")
    (auto simp: pmi_step_simps pmi_samples_split map_option_case split: option.split Option.bind_split)

lemma handler_split: "PMI_Interrupt_Handler rm cpu c z = do {
    u \<leftarrow> call_op t_freeze rm (disp z) None cpu (un z);
    let z = z\<lparr>un := u, in_interrupt := (in_interrupt z)(cpu := in_interrupt z cpu + 1)\<rparr>;
    dn \<leftarrow> disp z; chk \<leftarrow> t_check_overflow (table_of rm dn);
    (s, masks) \<leftarrow> chk cpu (drv_of z);
    z \<leftarrow> pmi_samples rm dn cpu c masks (upd_drv (\<lambda>_. s) z);
    z \<leftarrow> pmi_finish cpu dn rm z;
    u \<leftarrow> call_op t_restart rm (disp z) None cpu (un z);
    Some (z\<lparr>un := u, in_interrupt := (in_interrupt z)(cpu := 0)\<rparr>) }"
  by (simp add: PMI_Interrupt_Handler_def pmi_finish_def Let_def)

text \<open>The handler changes no field of the session but the machine, the buffers and its own mark.\<close>

definition pmi_same :: "session \<Rightarrow> session \<Rightarrow> bool" where
  "pmi_same z z' = (disp z' = disp z \<and> in_interrupt z' = in_interrupt z \<and> pcfg_set z' = pcfg_set z)"

lemma pmi_record_same: "pmi_record rm dn cpu c m z = Some z' \<Longrightarrow> pmi_same z z'"
  by (auto simp: pmi_record_def pmi_same_def Let_def bind_eq_Some_conv split: option.split_asm prod.split_asm)

lemma pmi_accepted_same:
  assumes "pmi_accepted rm dn cpu c masks z = Some z'"
  shows "pmi_same z z'"
proof -
  have "foldm (pmi_record rm dn cpu c) masks z = Some z' \<Longrightarrow> pmi_same z z'"
    by (erule foldm_inv[where P = "pmi_same z"]) (auto simp: pmi_same_def dest: pmi_record_same)
  then show ?thesis using assms by (auto simp: pmi_accepted_def pmi_same_def split: if_splits)
qed

lemma pmi_finish_same: "pmi_finish cpu dn rm z = Some z' \<Longrightarrow> pmi_same z z' \<and> outp z' = outp z"
  by (auto simp: pmi_finish_def pmi_same_def on_drv_def on_hw_def bind_eq_Some_conv split: if_splits)

lemma pmi_samples_same: "pmi_samples rm dn cpu c masks z = Some z' \<Longrightarrow> pmi_same z z'"
  by (auto simp: pmi_samples_split bind_eq_Some_conv pmi_same_def dest!: pmi_accepted_same split: if_splits)

lemma pmi_run_handler: "pmi_run rm cpu c z = map_option (\<lambda>z. (Away, z)) (PMI_Interrupt_Handler rm cpu c z)"
proof -
  have four: "iterm (pmi_step rm cpu c) 4 (Away, z) = iterm (pmi_step rm cpu c) 3 (Away, z) \<bind> pmi_step rm cpu c"
    using iterm_Suc_last[of "pmi_step rm cpu c" 3 "(Away, z)"] by simp
  note run = pmi_run_def four pmi_enter handler_split Let_def
  show ?thesis
  proof (cases "call_op t_freeze rm (disp z) None cpu (un z)")
    case None
    then show ?thesis by (simp add: run)
  next
    case u: (Some u)
    show ?thesis
    proof (cases "disp z")
      case None
      with u show ?thesis by (simp add: run)
    next
      case n: (Some n)
      show ?thesis
      proof (cases "t_check_overflow (table_of rm n)")
        case None
        with u n show ?thesis by (simp add: run)
      next
        case chk: (Some chk)
        show ?thesis
        proof (cases "chk cpu (hw u)")
          case None
          with u n chk show ?thesis by (simp add: run)
        next
          case sm: (Some sm)
          obtain s masks where sm': "sm = (s, masks)" by (cases sm)
          let ?z = "upd_drv (\<lambda>_. s) (z\<lparr>un := u, in_interrupt := (in_interrupt z)(cpu := in_interrupt z cpu + 1)\<rparr>)"
          have "do { x \<leftarrow> pmi_step rm cpu c (Checked masks, ?z);
              case fst x of Accepted _ \<Rightarrow> pmi_step rm cpu c x | _ \<Rightarrow> Some x } =
            map_option (\<lambda>z. (Sampled, z)) (pmi_samples rm n cpu c masks ?z)"
            using n unfolding pmi_test by simp
          then have "pmi_run rm cpu c z =
              map_option (\<lambda>z. (Sampled, z)) (pmi_samples rm n cpu c masks ?z) \<bind> iterm (pmi_step rm cpu c) 3"
            using u n chk sm sm' by (simp add: run del: iterm.simps flip: Option.bind_assoc)
          moreover have "map_option (\<lambda>z. (Away, z)) (PMI_Interrupt_Handler rm cpu c z) =
              pmi_samples rm n cpu c masks ?z \<bind> (\<lambda>z. iterm (pmi_step rm cpu c) 3 (Sampled, z))"
            using u n chk sm sm'
            by (cases "pmi_samples rm n cpu c masks ?z")
              (auto simp: handler_split Let_def pmi_leave pmi_same_def map_option_case dest!: pmi_samples_same
                split: Option.bind_split option.split)
          ultimately show ?thesis by (cases "pmi_samples rm n cpu c masks ?z") simp_all
        qed
      qed
    qed
  qed
qed

section \<open>What a step of a handler changes\<close>

text \<open>Recording samples: the machine's pinned parts stay, whatever the counters become.\<close>

lemma read_counts_pinned:
  assumes "t_read_counts (table_of rm n) = Some f" "f cpu i ws u = Some (ws', u')" "pinned D M V A cpu (hw u)"
  shows "pinned D M V A cpu (hw u')"
proof (cases "n \<in> core_tables")
  case True
  then obtain d where d: "d \<in> core_nodes" "table_of rm n = core_table d" using core_table_node by blast
  with assms(1,2) obtain s where s: "d_read_counts d cpu (of_nat i) ws (hw u) = Some (ws', s)" "u' = u\<lparr>hw := s\<rparr>"
    by (auto simp: core_table_def bind_eq_Some_conv)
  show ?thesis unfolding s(2) using node_pinned(5)[OF d(1) assms(3) s(1)] by simp
next
  case False
  then have "hw u' = hw u" using assms(1,2)
    by (cases n) (auto simp: core_tables_def unc_table_def bind_eq_Some_conv)
  with assms(3) show ?thesis by simp
qed

lemma upd_device_hw: "upd_device i f u = Some u' \<Longrightarrow> hw u' = hw u"
  by (auto simp: upd_device_def bind_eq_Some_conv)

lemma unc_accumulate_hw: "unc_accumulate cpu i loc roff k x = Some y \<Longrightarrow> hw (snd y) = hw (snd x)"
  by (auto simp: unc_accumulate_def Let_def bind_eq_Some_conv split: prod.split_asm dest!: upd_device_hw)

lemma yields_any: "(\<And>x. P x) \<Longrightarrow> yields P r"
  by (simp add: yields_def)

lemmas yields_bufs = yields_any[where 'a = outbuf_node] yields_any[where 'a = "u64 list"] yields_any[where 'a = lwpmu_device]
  yields_any[where 'a = "nat \<Rightarrow> drv \<Rightarrow> u64 list"]

lemma pmi_device_pinned:
  assumes "pmi_device rm cpu loc i x = Some y" "pinned D M V A cpu (hw (snd x))"
  shows "pinned D M V A cpu (hw (snd y))"
proof -
  have f: "yields (\<lambda>y. pinned D M V A cpu (hw (snd y))) (foldm (unc_accumulate cpu i loc roff) ks (o1, u))"
    if "pinned D M V A cpu (hw u)" for roff ks o1 u
    using that foldm_keeps[where g = "\<lambda>x. hw (snd x)" and f = "unc_accumulate cpu i loc roff", OF _ unc_accumulate_hw]
    by (fastforce simp: yields_def)
  obtain o1 u where x: "x = (o1, u)" by (cases x)
  with assms(2) have u: "pinned D M V A cpu (hw u)" by simp
  have "yields (\<lambda>y. pinned D M V A cpu (hw (snd y))) (pmi_device rm cpu loc i (o1, u))"
  proof (cases "do { d \<leftarrow> list_at (devices u) i; cfg \<leftarrow> pcfg_unc d; if event_based_counts cfg then
      do { n \<leftarrow> dispatch_unc d; rc \<leftarrow> t_read_counts (table_of rm n); Some (cfg, rc) } else None }")
    case None
    then show ?thesis using u by (auto simp: pmi_device_def yields_def bind_eq_Some_conv split: option.split_asm if_splits)
  next
    case (Some crc)
    then obtain d cfg n rc where d: "list_at (devices u) i = Some d" "pcfg_unc d = Some cfg" "event_based_counts cfg"
      "dispatch_unc d = Some n" "t_read_counts (table_of rm n) = Some rc"
      by (auto simp: bind_eq_Some_conv split: if_splits)
    have rc: "yields (\<lambda>r. pinned D M V A cpu (hw (snd r))) (rc cpu i ws u)" for ws
      using read_counts_pinned[OF d(5) _ u] by (auto simp: yields_def)
    show ?thesis using d unfolding pmi_device_def Let_def
      by (auto intro!: yields_bufs f rc[THEN yields_mono])
  qed
  then show ?thesis using assms(1) x by (auto dest: yieldsD)
qed

lemma pmi_sections_pinned:
  assumes "pmi_sections rm dn cpu m ed is64 loc x = Some y" "pinned D M V A cpu (hw (snd x))"
  shows "pinned D M V A cpu (hw (snd y))"
proof -
  have f: "yields (\<lambda>y. pinned D M V A cpu (hw (snd y))) (foldm (pmi_device rm cpu loc) js (o1, u))"
    if "pinned D M V A cpu (hw u)" for js o1 u
    unfolding yields_def
    by (intro allI impI, erule foldm_inv[where P = "\<lambda>x. pinned D M V A cpu (hw (snd x))"])
      (auto intro: pmi_device_pinned that)
  obtain o1 u where x: "x = (o1, u)" by (cases x)
  with assms(2) have u: "pinned D M V A cpu (hw u)" by simp
  have rc: "yields (\<lambda>r. pinned D M V A cpu (hw (snd r))) (g cpu i ws u)"
    if "t_read_counts (table_of rm dn) = Some g" for g i ws
    using read_counts_pinned[OF that _ u] by (auto simp: yields_def)
  have "yields (\<lambda>y. pinned D M V A cpu (hw (snd y))) (pmi_sections rm dn cpu m ed is64 loc (o1, u))"
  proof (cases "t_read_counts (table_of rm dn)")
    case None
    then show ?thesis using u unfolding pmi_sections_def Let_def
      by (auto intro!: yields_bufs f)
  next
    case (Some g)
    then show ?thesis using u unfolding pmi_sections_def Let_def
      by (auto intro!: yields_bufs f rc[THEN yields_mono])
  qed
  then show ?thesis using assms(1) x by (auto dest: yieldsD)
qed

lemma pmi_record_pinned:
  assumes "pmi_record rm dn cpu c m z = Some z'" "pinned D M V A cpu (drv_of z)"
  shows "pinned D M V A cpu (drv_of z')"
  using assms
  by (auto simp: pmi_record_def Let_def bind_eq_Some_conv split: option.split_asm prod.split_asm
      dest!: pmi_sections_pinned[where D = D and M = M and V = V and A = A] pinned_small(1)[OF assms(2)])

lemma pmi_accepted_pinned:
  assumes "pmi_accepted rm dn cpu c masks z = Some z'" "pinned D M V A cpu (drv_of z)"
  shows "pinned D M V A cpu (drv_of z')"
proof -
  have "foldm (pmi_record rm dn cpu c) masks z = Some z' \<Longrightarrow> pinned D M V A cpu (drv_of z')"
    by (erule foldm_inv[where P = "\<lambda>z. pinned D M V A cpu (drv_of z)"]) (auto intro: pmi_record_pinned assms(2))
  then show ?thesis using assms by (auto simp: pmi_accepted_def split: if_splits)
qed

lemma pmi_finish_pinned:
  assumes "pmi_finish cpu n rm z = Some z'" "n \<in> core_tables" "pinned D M V A cpu (drv_of z)"
  shows "pinned D M V A cpu (drv_of z')"
proof -
  from assms(2) obtain d where d: "d \<in> core_nodes" "table_of rm n = core_table d" using core_table_node by blast
  have y: "yields (\<lambda>z. pinned D M V A cpu (drv_of z)) (on_drv g z)"
    if "\<And>t. g (drv_of z) = Some t \<Longrightarrow> pinned D M V A cpu t" for g z
    using that by (auto simp: yields_def on_drv_def on_hw_def bind_eq_Some_conv)
  have steps: "yields (\<lambda>z. pinned D M V A cpu (drv_of z)) (on_drv (PEBS_Reset_Index cpu) z)"
    "yields (\<lambda>z. pinned D M V A cpu (drv_of z)) (on_drv (APIC_Ack_Eoi cpu) z)"
    "yields (\<lambda>z. pinned D M V A cpu (drv_of z)) (on_drv (d_swap_group d cpu) z)" if "pinned D M V A cpu (drv_of z)" for z
    using y pinned_apic(3,4)[OF that] node_pinned(2)[OF d(1) that] by blast+
  have "yields (\<lambda>z. pinned D M V A cpu (drv_of z)) (pmi_finish cpu n rm z)"
    unfolding pmi_finish_def d(2) using assms(3)
    by (simp add: core_table_def) (intro conjI impI steps[THEN yields_mono] yields_read | assumption | simp)+
  then show ?thesis using assms(1) by (rule yieldsD)
qed

lemma freeze_restart_pinned:
  assumes "n \<in> core_tables" "pinned D M V A cpu (hw u)"
  shows "call_op t_freeze rm (Some n) q cpu u = Some u' \<Longrightarrow>
      pinned D M V (if current_phase D = RUNNING then A else {0}) cpu (hw u')"
    and "current_phase D \<noteq> RUNNING \<or> A = UNIV \<Longrightarrow> call_op t_restart rm (Some n) q cpu u = Some u' \<Longrightarrow>
      pinned D M V A cpu (hw u')"
    and "t_check_overflow (table_of rm n) = Some f \<Longrightarrow> f cpu (hw u) = Some (t, ms) \<Longrightarrow> pinned D M V A cpu t"
proof -
  from assms(1) obtain d where d: "d \<in> core_nodes" "table_of rm n = core_table d" using core_table_node by blast
  note np = node_pinned[OF d(1) assms(2)]
  show "call_op t_freeze rm (Some n) q cpu u = Some u' \<Longrightarrow>
      pinned D M V (if current_phase D = RUNNING then A else {0}) cpu (hw u')"
    by (auto simp: call_op_def d(2) core_table_def core_op_def on_hw_def bind_eq_Some_conv dest!: np(3))
  show "current_phase D \<noteq> RUNNING \<or> A = UNIV \<Longrightarrow> call_op t_restart rm (Some n) q cpu u = Some u' \<Longrightarrow>
      pinned D M V A cpu (hw u')"
    by (auto simp: call_op_def d(2) core_table_def core_op_def on_hw_def bind_eq_Some_conv dest!: np(4)[rotated])
  show "t_check_overflow (table_of rm n) = Some f \<Longrightarrow> f cpu (hw u) = Some (t, ms) \<Longrightarrow> pinned D M V A cpu t"
    by (auto simp: d(2) core_table_def dest: np(1))
qed

fun counted :: "pmi_stage \<Rightarrow> bool" where
  "counted Away = False" | "counted Frozen = False" | "counted _ = True"

fun accepted :: "pmi_stage \<Rightarrow> bool" where
  "accepted (Accepted _) = True" | "accepted _ = False"

text \<open>What a handler's step keeps, whatever the phase; and what else it keeps once that is not running.\<close>

lemma pmi_step_keeps:
  assumes "pmi_step rm cpu c (st, z) = Some (st', z')" "disp z = Some n" "n \<in> core_tables"
    "list_all ctl_free (PMU_register_data (drv_of z))" "in_interrupt z cpu = of_bool (counted st)"
  shows "disp z' = Some n" "ds z' = ds z" "PMU_register_data (drv_of z') = PMU_register_data (drv_of z)"
    "in_interrupt z' = (in_interrupt z)(cpu := of_bool (counted st'))"
    "accepted st' \<Longrightarrow> phase_of z = RUNNING"
    "phase_of z \<noteq> RUNNING \<Longrightarrow> \<not> accepted st \<Longrightarrow> outp z' = outp z \<and> (ctl_of k (drv_of z) = 0 \<longrightarrow> ctl_of k (drv_of z') = 0)"
proof -
  let ?p = "pinned (ds z) (PMU_register_data (drv_of z)) (\<lambda>c. ctl_of c (drv_of z))"
  have start: "?p {ctl_of cpu (drv_of z), 0} cpu (drv_of z)" "?p UNIV cpu (drv_of z)"
    using assms(4) by (simp_all add: pinned_def)
  have keep: "ds z' = ds z \<and> PMU_register_data (drv_of z') = PMU_register_data (drv_of z)"
    if "?p A cpu (drv_of z')" for A using that by (simp add: pinned_def)
  have zero: "ctl_of k (drv_of z) = 0 \<longrightarrow> ctl_of k (drv_of z') = 0" if "?p {ctl_of cpu (drv_of z), 0} cpu (drv_of z')"
    using that by (cases "k = cpu") (auto simp: pinned_def)
  have A: "?p UNIV cpu x" if "?p A cpu x" for A x using that by (auto simp: pinned_def)
  have B: "?p {ctl_of cpu (drv_of z), 0} cpu x" if "?p {0} cpu x" for x using that by (auto simp: pinned_def)
  have same: "(in_interrupt z)(cpu := of_bool (counted st)) = in_interrupt z" using assms(5) by (simp add: fun_upd_idem)
  note fr = freeze_restart_pinned[OF assms(3)]
  note r = assms(1)
  have "disp z' = Some n \<and> in_interrupt z' = (in_interrupt z)(cpu := of_bool (counted st')) \<and>
      ?p UNIV cpu (drv_of z') \<and> (accepted st' \<longrightarrow> phase_of z = RUNNING) \<and>
      (phase_of z \<noteq> RUNNING \<and> \<not> accepted st \<longrightarrow> outp z' = outp z \<and> ?p {ctl_of cpu (drv_of z), 0} cpu (drv_of z'))"
  proof (cases st)
    case Away
    with r assms(2) obtain u where u: "call_op t_freeze rm (Some n) None cpu (un z) = Some u" "st' = Frozen" "z' = z\<lparr>un := u\<rparr>"
      by (auto simp: pmi_step_simps bind_eq_Some_conv)
    show ?thesis using u fr(1)[OF start(1) u(1)] fr(1)[OF start(2) u(1)] same Away assms(2)
      by (auto intro: A B split: if_splits)
  next
    case Frozen
    then show ?thesis using r start same assms(2,5) by (auto simp: pmi_step_simps)
  next
    case Counted
    with r assms(2) obtain f s ms where f: "t_check_overflow (table_of rm n) = Some f" "f cpu (drv_of z) = Some (s, ms)"
      "st' = Checked ms" "z' = upd_drv (\<lambda>_. s) z"
      by (auto simp: pmi_step_simps bind_eq_Some_conv)
    show ?thesis using f fr(3)[OF start(1) f(1,2)] fr(3)[OF start(2) f(1,2)] same Counted assms(2) by auto
  next
    case (Checked ms)
    then obtain p where "pcb (drv_of z) cpu = Some p" "z' = z"
      "st' = (if phase_of z = RUNNING \<and> accept_interrupt p \<noteq> 0 then Accepted ms else Sampled)"
      using r by (auto simp: pmi_step_simps bind_eq_Some_conv)
    then show ?thesis using start same assms(2) Checked by (cases "phase_of z = RUNNING \<and> accept_interrupt p \<noteq> 0") auto
  next
    case (Accepted ms)
    with r assms(2) have "pmi_accepted rm n cpu c ms z = Some z'" "st' = Sampled" 
      by (auto simp: pmi_step_simps bind_eq_Some_conv)
    then show ?thesis using pmi_accepted_same pmi_accepted_pinned[OF _ start(2)] same Accepted assms(2)
      by (auto simp: pmi_same_def)
  next
    case Sampled
    with r assms(2) have f: "pmi_finish cpu n rm z = Some z'" "st' = Swapped"
      by (auto simp: pmi_step_simps bind_eq_Some_conv)
    then show ?thesis using pmi_finish_same[OF f(1)] pmi_finish_pinned[OF f(1) assms(3)] start same Sampled assms(2)
      by (auto simp: pmi_same_def)
  next
    case Swapped
    with r assms(2) obtain u where u: "call_op t_restart rm (Some n) None cpu (un z) = Some u" "st' = Restarted" "z' = z\<lparr>un := u\<rparr>"
      by (auto simp: pmi_step_simps bind_eq_Some_conv)
    show ?thesis using u fr(2)[OF start(1) _ u(1)] fr(2)[OF start(2) _ u(1)] same Swapped assms(2) by auto
  next
    case Restarted
    then show ?thesis using r start same assms(2) by (auto simp: pmi_step_simps)
  qed
  then show "disp z' = Some n" "ds z' = ds z" "PMU_register_data (drv_of z') = PMU_register_data (drv_of z)"
    "in_interrupt z' = (in_interrupt z)(cpu := of_bool (counted st'))"
    "accepted st' \<Longrightarrow> phase_of z = RUNNING"
    "phase_of z \<noteq> RUNNING \<Longrightarrow> \<not> accepted st \<Longrightarrow> outp z' = outp z \<and> (ctl_of k (drv_of z) = 0 \<longrightarrow> ctl_of k (drv_of z') = 0)"
    using keep zero by blast+
qed

section \<open>The handshake\<close>

fun progress_ok :: "session \<Rightarrow> (nat \<Rightarrow> pmi_stage) \<Rightarrow> pause_stage \<Rightarrow> bool" where
  "progress_ok z h Not_Pausing = True"
| "progress_ok z h (Closing i) = True"
| "progress_ok z h (Scanning i d) = (d \<longrightarrow> (\<forall>c < i. \<not> accepted (h c)))"
| "progress_ok z h (Freezing C) = (\<forall>c < ncpus z. \<not> accepted (h c) \<and> (c \<notin> set C \<longrightarrow> ctl_of c (drv_of z) = 0))"
| "progress_ok z h Paused = (\<forall>c < ncpus z. \<not> accepted (h c) \<and> ctl_of c (drv_of z) = 0)"

definition handshake_inv :: "dispatch_name \<Rightarrow> world \<Rightarrow> bool" where
  "handshake_inv n w = (case w of (z, h, ps) \<Rightarrow>
     disp z = Some n \<and> n \<in> core_tables \<and> list_all ctl_free (PMU_register_data (drv_of z)) \<and>
     (\<forall>c. in_interrupt z c = of_bool (counted (h c))) \<and>
     (ps \<noteq> Not_Pausing \<longrightarrow> phase_of z \<noteq> RUNNING) \<and> progress_ok z h ps)"

lemma upd_drv_phase_fields:
  "PMU_register_data (drv_of (set_phase ph z)) = PMU_register_data (drv_of z)"
  "ctl_of c (drv_of (set_phase ph z)) = ctl_of c (drv_of z)" "disp (set_phase ph z) = disp z"
  "in_interrupt (set_phase ph z) = in_interrupt z" "ncpus (set_phase ph z) = ncpus z" "outp (set_phase ph z) = outp z"
  by (simp_all add: set_phase_def upd_drv_def ctl_of_def SYS_Read_MSR_def ncpus_def)

lemma progress_interrupt:
  assumes "progress_ok z h ps" "ps \<noteq> Not_Pausing \<longrightarrow> phase_of z \<noteq> RUNNING"
    "accepted st' \<Longrightarrow> phase_of z = RUNNING" "ncpus z' = ncpus z"
    "\<And>k. phase_of z \<noteq> RUNNING \<Longrightarrow> \<not> accepted (h cpu) \<Longrightarrow> ctl_of k (drv_of z) = 0 \<longrightarrow> ctl_of k (drv_of z') = 0"
    "cpu < ncpus z"
  shows "progress_ok z' (h(cpu := st')) ps"
  using assms by (cases ps) auto

lemma handshake_step:
  assumes "pause_step rm w w'" "handshake_inv n w"
  shows "handshake_inv n w'"
  using assms
proof (cases rule: pause_step.cases)
  case (interrupt cpu z c h st z' ps)
  with assms(2) have i: "disp z = Some n" "n \<in> core_tables" "list_all ctl_free (PMU_register_data (drv_of z))"
    "\<forall>c. in_interrupt z c = of_bool (counted (h c))" "ps \<noteq> Not_Pausing \<longrightarrow> phase_of z \<noteq> RUNNING" "progress_ok z h ps"
    by (auto simp: handshake_inv_def)
  note k = pmi_step_keeps[OF interrupt(4) i(1-3)]
  have c: "in_interrupt z cpu = of_bool (counted (h cpu))" using i(4) by simp
  have nc: "ncpus z' = ncpus z" using k(2)[OF c] by (simp add: ncpus_def)
  have "progress_ok z' (h(cpu := st)) ps"
    by (rule progress_interrupt[OF i(6,5) k(5)[OF c] nc _ interrupt(3)]) (use k(6)[OF c] in auto)
  moreover have "in_interrupt z' = (in_interrupt z)(cpu := of_bool (counted st))" by (rule k(4)[OF c])
  ultimately show ?thesis using interrupt i k(1-3)[OF c] by (auto simp: handshake_inv_def)
next
  case (begin_pause z h)
  then show ?thesis using assms(2) by (auto simp: handshake_inv_def upd_drv_phase_fields)
next
  case (close i z p h)
  then show ?thesis using assms(2) by (auto simp: handshake_inv_def)
next
  case (closed z i h)
  then show ?thesis using assms(2) by (auto simp: handshake_inv_def)
next
  case (scan i z h d)
  then have "in_interrupt z i = 0 \<longrightarrow> \<not> accepted (h i)" using assms(2)
    by (cases "h i") (auto simp: handshake_inv_def)
  with scan show ?thesis using assms(2) by (auto simp: handshake_inv_def less_Suc_eq)
next
  case (again z i h)
  then show ?thesis using assms(2) by (auto simp: handshake_inv_def)
next
  case (quiet z i h)
  then show ?thesis using assms(2) by (auto simp: handshake_inv_def)
next
  case (freeze cpu C h z u)
  with assms(2) have i: "disp z = Some n" "n \<in> core_tables" "list_all ctl_free (PMU_register_data (drv_of z))"
    "\<forall>c. in_interrupt z c = of_bool (counted (h c))" "phase_of z \<noteq> RUNNING" "progress_ok z h (Freezing C)"
    by (auto simp: handshake_inv_def)
  have "pinned (ds z) (PMU_register_data (drv_of z)) (\<lambda>c. ctl_of c (drv_of z)) UNIV cpu (drv_of z)"
    using i(3) by (simp add: pinned_def)
  from freeze_restart_pinned(1)[OF i(2) this] freeze(5) i(1,5)
  have p: "pinned (ds z) (PMU_register_data (drv_of z)) (\<lambda>c. ctl_of c (drv_of z)) {0} cpu (hw u)" by auto
  then have "ncpus (z\<lparr>un := u\<rparr>) = ncpus z" "ctl_of cpu (hw u) = 0" "\<And>k. k \<noteq> cpu \<Longrightarrow> ctl_of k (hw u) = ctl_of k (drv_of z)"
    by (auto simp: pinned_def ncpus_def)
  then have "progress_ok (z\<lparr>un := u\<rparr>) h (Freezing (removeAll cpu C))" using i(6) by auto metis+
  then show ?thesis using freeze i p by (auto simp: handshake_inv_def pinned_def)
next
  case (all_frozen z h)
  then show ?thesis using assms(2) by (auto simp: handshake_inv_def upd_drv_phase_fields)
qed

lemma handshake_reach:
  assumes "(pause_step rm)\<^sup>*\<^sup>* w w'" "handshake_inv n w"
  shows "handshake_inv n w'"
  using assms by (induction rule: rtranclp_induct) (auto intro: handshake_step)

lemma paused_step:
  assumes "pause_step rm (z, h, Paused) w'" "handshake_inv n (z, h, Paused)"
  shows "\<exists>z' h'. w' = (z', h', Paused) \<and> outp z' = outp z \<and> ncpus z' = ncpus z"
  using assms(1)
proof (cases rule: pause_step.cases)
  case (interrupt cpu c st z')
  with assms(2) have i: "disp z = Some n" "n \<in> core_tables" "list_all ctl_free (PMU_register_data (drv_of z))"
    "in_interrupt z cpu = of_bool (counted (h cpu))" "phase_of z \<noteq> RUNNING" "\<not> accepted (h cpu)"
    by (auto simp: handshake_inv_def)
  from pmi_step_keeps[OF interrupt(3) i(1-4)] i(5,6) interrupt(1) show ?thesis by (auto simp: ncpus_def)
qed

lemma paused_reach:
  assumes "(pause_step rm)\<^sup>*\<^sup>* (z, h, Paused) w'" "handshake_inv n (z, h, Paused)"
  shows "\<exists>z' h'. w' = (z', h', Paused) \<and> outp z' = outp z \<and> ncpus z' = ncpus z"
  using assms
proof (induction rule: rtranclp_induct)
  case (step w w')
  then obtain z1 h1 where w: "w = (z1, h1, Paused)" "outp z1 = outp z" "ncpus z1 = ncpus z" by blast
  have "handshake_inv n (z1, h1, Paused)" using handshake_reach[OF step(1)] step.prems w(1) by simp
  from paused_step[OF step(2)[unfolded w(1)] this] w show ?case by auto
qed simp

text \<open>
  C2: a pause is complete. Let a session on any of the core tables, whose blocks name the global
  control register only where they should, be paused while interrupts arrive on any CPUs at any
  time, in any interleaving of the handlers' and the pausing thread's steps. Once the thread has
  set the phase to paused, then after any further steps the sample buffers are what they were,
  and the global control register of every CPU is zero.
\<close>

theorem paused_session_is_quiet:
  assumes "disp z = Some n" "n \<in> core_tables" "list_all ctl_free (PMU_register_data (drv_of z))" "\<forall>c. in_interrupt z c = 0"
    and "(pause_step rm)\<^sup>*\<^sup>* (z, \<lambda>_. Away, Not_Pausing) (z1, h1, Paused)"
    and "(pause_step rm)\<^sup>*\<^sup>* (z1, h1, Paused) (z2, h2, ps)"
  shows "outp z2 = outp z1 \<and> (\<forall>c < ncpus z1. ctl_of c (drv_of z2) = 0)"
proof -
  have "handshake_inv n (z, \<lambda>_. Away, Not_Pausing)" using assms(1-4) by (simp add: handshake_inv_def)
  from handshake_reach[OF assms(5) this] have i: "handshake_inv n (z1, h1, Paused)" .
  from paused_reach[OF assms(6) i] handshake_reach[OF assms(6) i] show ?thesis
    by (auto simp: handshake_inv_def)
qed

section \<open>The sequential handler is one of the interleavings\<close>

lemma step_runs:
  assumes "pmi_step rm cpu c (st, z) = Some (st', z')" "cpu < ncpus z" "disp z = Some n" "n \<in> core_tables"
    "list_all ctl_free (PMU_register_data (drv_of z))" "in_interrupt z cpu = of_bool (counted st)"
  shows "pause_step rm (z, h(cpu := st), ps) (z', h(cpu := st'), ps) \<and> cpu < ncpus z' \<and> disp z' = Some n \<and>
    list_all ctl_free (PMU_register_data (drv_of z')) \<and> in_interrupt z' cpu = of_bool (counted st')"
proof -
  note k = pmi_step_keeps[OF assms(1,3-6)]
  have "pause_step rm (z, h(cpu := st), ps) (z', (h(cpu := st))(cpu := st'), ps)"
    by (rule pause_step.interrupt[OF assms(2)]) (use assms(1) in simp)
  then show ?thesis using k(1-4) assms(2,5) by (simp add: ncpus_def)
qed

lemma steps_run:
  assumes "iterm (pmi_step rm cpu c) k (st, z) = Some (st', z')" "cpu < ncpus z" "disp z = Some n" "n \<in> core_tables"
    "list_all ctl_free (PMU_register_data (drv_of z))" "in_interrupt z cpu = of_bool (counted st)"
  shows "(pause_step rm)\<^sup>*\<^sup>* (z, h(cpu := st), ps) (z', h(cpu := st'), ps) \<and> cpu < ncpus z' \<and> disp z' = Some n \<and>
    list_all ctl_free (PMU_register_data (drv_of z')) \<and> in_interrupt z' cpu = of_bool (counted st')"
  using assms
proof (induction k arbitrary: st z)
  case (Suc k)
  then obtain st1 z1 where s: "pmi_step rm cpu c (st, z) = Some (st1, z1)" "iterm (pmi_step rm cpu c) k (st1, z1) = Some (st', z')"
    by (auto simp: bind_eq_Some_conv)
  note h = step_runs[OF s(1) Suc.prems(2-6), of h ps]
  have "(pause_step rm)\<^sup>*\<^sup>* (z1, h(cpu := st1), ps) (z', h(cpu := st'), ps) \<and> cpu < ncpus z' \<and> disp z' = Some n \<and>
    list_all ctl_free (PMU_register_data (drv_of z')) \<and> in_interrupt z' cpu = of_bool (counted st')"
    by (rule Suc.IH[OF s(2)]) (use h Suc.prems(4) in blast)+
  with h show ?case by (blast intro: converse_rtranclp_into_rtranclp)
qed simp

text \<open>
  The two models of the handler agree. When the handler of pmi.c, run as a whole on a CPU no
  handler is active on, returns, the same state is reached by interleaving steps of that CPU alone,
  whatever the other handlers and a pausing thread are at. The dispatch table is one of the core
  tables and the general control registers of the programming are not the overflow control.
\<close>

lemma handler_is_an_interleaving:
  assumes "PMI_Interrupt_Handler rm cpu c z = Some z'" "h cpu = Away" "cpu < ncpus z" "disp z = Some n" "n \<in> core_tables"
    "list_all ctl_free (PMU_register_data (drv_of z))" "in_interrupt z cpu = 0"
  shows "(pause_step rm)\<^sup>*\<^sup>* (z, h, ps) (z', h, ps)"
proof -
  have "pmi_run rm cpu c z = Some (Away, z')" using assms(1) by (simp add: pmi_run_handler)
  then obtain st1 z1 st2 z2 where r: "iterm (pmi_step rm cpu c) 4 (Away, z) = Some (st1, z1)"
    "(case st1 of Accepted _ \<Rightarrow> pmi_step rm cpu c (st1, z1) | _ \<Rightarrow> Some (st1, z1)) = Some (st2, z2)"
    "iterm (pmi_step rm cpu c) 3 (st2, z2) = Some (Away, z')"
    by (auto simp: pmi_run_def bind_eq_Some_conv)
  have c: "in_interrupt z cpu = of_bool (counted Away)" using assms(7) by simp
  note 1 = steps_run[OF r(1) assms(3-6) c, of h ps]
  have "\<exists>k. iterm (pmi_step rm cpu c) k (st1, z1) = Some (st2, z2)"
    using r(2) by (cases st1) (auto intro: exI[of _ 0] exI[of _ 1])
  then obtain k where k: "iterm (pmi_step rm cpu c) k (st1, z1) = Some (st2, z2)" by blast
  note 2 = steps_run[OF k _ _ assms(5), where h = h and ps = ps]
  note 3 = steps_run[OF r(3) _ _ assms(5), where h = h and ps = ps]
  have "(pause_step rm)\<^sup>*\<^sup>* (z, h(cpu := Away), ps) (z', h(cpu := Away), ps)"
    using 1 2 3 by (meson rtranclp_trans)
  then show ?thesis using assms(2) by (simp add: fun_upd_idem)
qed

section \<open>At a concrete session\<close>

lemma demo_ctl_free: "list_all ctl_free (PMU_register_data (drv_of (demo_session ph)))"
  by (simp add: demo_session_def ctl_free_def msr_defs mk_hdr_def flag_defs)
    (simp add: cccr_gp_regs_def ecb_part_def mk_ecb_def mk_hdr_def flag_defs)

lemma demo_freeze: "\<exists>u. call_op t_freeze (\<lambda>a. a) (Some Core2_dispatch) None 0
     (un (upd_drv (upd_pcpu 0 (demo_cpu\<lparr>accept_interrupt := 1, trigger_count := 5, accept_interrupt := 0\<rparr>)) (set_phase PAUSING (demo_session RUNNING)))) = Some u"
  by (simp add: call_op_def core_table_def core_op_def on_hw_def core2_dispatch_def core2_Disable_PMU_def
      APIC_Disable_PMI_def FOR_EACH_eq demo_session_def demo_defs cur_ecb_def Let_def upd_drv_def mk_hdr_def
      is_compound_ctr_bit_set_def EVENT_REG_compound_ctr_bit_def set_phase_def upd_pcpu_def)

lemma demo_pauses: "\<exists>z1. (pause_step (\<lambda>a. a))\<^sup>*\<^sup>* (demo_session RUNNING, \<lambda>_. Away, Not_Pausing) (z1, \<lambda>_. Away, Paused)"
proof -
  let ?S = "pause_step (\<lambda>a. a)" and ?h = "\<lambda>_. Away"
  let ?z = "demo_session RUNNING"
  let ?p = "demo_cpu\<lparr>accept_interrupt := 1, trigger_count := 5\<rparr>"
  let ?z1 = "set_phase PAUSING ?z" and ?z2 = "upd_drv (upd_pcpu 0 (?p\<lparr>accept_interrupt := 0\<rparr>)) (set_phase PAUSING ?z)"
  have n: "ncpus ?z1 = 1" "ncpus ?z2 = 1"
    by (simp_all add: ncpus_def demo_session_def demo_defs set_phase_def upd_drv_def upd_pcpu_def)
  have q: "in_interrupt ?z2 0 = 0" "phase_of ?z = RUNNING" "pcb (drv_of ?z1) 0 = Some ?p"
    "disp ?z2 = Some Core2_dispatch"
    by (simp_all add: demo_session_def set_phase_def upd_drv_def)
  from demo_freeze obtain u where u: "call_op t_freeze (\<lambda>a. a) (disp ?z2) None 0 (un ?z2) = Some u"
    unfolding q(4) by auto
  have "?S (?z, ?h, Not_Pausing) (?z1, ?h, Closing 0)" using q(2) by (rule begin_pause)
  moreover have "?S (?z1, ?h, Closing 0) (?z2, ?h, Closing (0 + 1))" by (rule close) (use n q(3) in simp_all)
  moreover have "?S (?z2, ?h, Closing (0 + 1)) (?z2, ?h, Scanning 0 True)" by (rule closed) (use n in simp)
  moreover have "?S (?z2, ?h, Scanning 0 True) (?z2, ?h, Scanning 1 True)"
    using scan[of 0 ?z2 "\<lambda>a. a" ?h True] n q(1) by simp
  moreover have "?S (?z2, ?h, Scanning 1 True) (?z2, ?h, Freezing [0])"
    using quiet[of ?z2 1 "\<lambda>a. a" ?h] n by simp
  moreover have "?S (?z2, ?h, Freezing [0]) (?z2\<lparr>un := u\<rparr>, ?h, Freezing [])"
    using freeze[of 0 "[0]" ?h "\<lambda>a. a" ?z2 u] u by simp
  moreover have "?S (?z2\<lparr>un := u\<rparr>, ?h, Freezing []) (set_phase PAUSED (?z2\<lparr>un := u\<rparr>), ?h, Paused)"
    by (rule all_frozen)
  ultimately show ?thesis by (meson rtranclp.rtrancl_into_rtrancl rtranclp.rtrancl_refl)
qed

theorem paused_session_is_quiet_witness:
  "\<exists>z1. (pause_step (\<lambda>a. a))\<^sup>*\<^sup>* (demo_session RUNNING, \<lambda>_. Away, Not_Pausing) (z1, \<lambda>_. Away, Paused) \<and>
    (\<forall>c < ncpus z1. ctl_of c (drv_of z1) = 0)"
proof -
  from demo_pauses obtain z1 where z1: "(pause_step (\<lambda>a. a))\<^sup>*\<^sup>* (demo_session RUNNING, \<lambda>_. Away, Not_Pausing) (z1, \<lambda>_. Away, Paused)"
    by blast
  have d: "disp (demo_session RUNNING) = Some Core2_dispatch" "\<forall>c. in_interrupt (demo_session RUNNING) c = 0"
    by (simp_all add: demo_session_def)
  have "Core2_dispatch \<in> core_tables" by (simp add: core_tables_def)
  from paused_session_is_quiet[OF d(1) this demo_ctl_free d(2) z1 rtranclp.rtrancl_refl] z1 show ?thesis by blast
qed

end
