(* ===== verification/Uec.thy ===== *)
theory Uec
  imports Fifo
begin

text \<open>
  The ring buffer of vtsspp/uec.c. A pointer into the buffer is its offset from \<open>buffer\<close>; the offset
  may equal the size of the buffer, one past its end. The pointers \<open>head_\<close> and \<open>tail_\<close> are \<open>u_ahead\<close>
  and \<open>u_atail\<close>. A writer reserves its part of the ring under the lock, copies its record into it without the lock, and commits it under the lock again; the
  three phases are definitions of their own, of which \<open>put_record_async\<close> is the composition, and
  so are the phases of \<open>pull_uec\<close>. Sizes are those of blocks in memory, so sums of two do not wrap.
  The callback, commented out in the code, is left out.
\<close>

section \<open>State\<close>

text \<open>The status codes of vtsserr.h that this part of the driver returns.\<close>

datatype vtss_status = VTSS_SUCCESS | VTSS_ERR_INTERNAL | VTSS_ERR_BADARG | VTSS_ERR_NOMEMORY
  | VTSS_ERR_BUFFERFULL | VTSS_ERR_BUSY

record uec_t =
  u_put_stub :: bool
  u_buffer :: "u8 list option"
  u_head :: nat
  u_tail :: nat
  u_ahead :: nat
  u_atail :: nat
  u_tsize :: nat
  u_hsize :: nat
  u_ovfl :: bool
  u_last_rec_ptr :: nat
  u_spill_active :: bool
  u_writer_count :: nat
  u_reader_count :: nat

section \<open>Creation and destruction\<close>

text \<open>\<open>order_of\<close> stands for \<open>get_order\<close> and \<open>pages\<close> for the answer of \<open>__get_free_pages\<close>.\<close>

definition init_uec :: "(nat \<Rightarrow> nat) \<Rightarrow> (nat \<Rightarrow> u8 list option) \<Rightarrow> nat \<Rightarrow> nat \<Rightarrow> uec_t \<Rightarrow> vtss_status \<times> uec_t" where
  "init_uec order_of pages page_size size0 u = (let u = u\<lparr>u_put_stub := False\<rparr> in
     if size0 = 0 then (VTSS_ERR_INTERNAL, u)
     else let order = order_of size0 in
       case pages order of
         None \<Rightarrow> (VTSS_ERR_NOMEMORY, u\<lparr>u_buffer := None\<rparr>)
       | Some b \<Rightarrow> (VTSS_SUCCESS, u\<lparr>u_buffer := Some b, u_last_rec_ptr := 0, u_head := 0, u_ahead := 0,
           u_tail := 0, u_atail := 0, u_hsize := page_size * 2 ^ order, u_tsize := page_size * 2 ^ order,
           u_ovfl := False, u_spill_active := False, u_writer_count := 0, u_reader_count := 0\<rparr>))"

definition destroy_uec :: "uec_t \<Rightarrow> uec_t" where
  "destroy_uec u = u\<lparr>u_put_stub := True, u_buffer := None\<rparr>"

section \<open>Writing a record\<close>

text \<open>
  The overflow flag \<open>UEC_OVERFLOW\<close> is the top bit of the four bytes at \<open>last_rec_ptr\<close>, the flag word
  of the record committed last.
\<close>

definition mark_overflow :: "uec_t \<Rightarrow> uec_t option" where
  "mark_overflow u = do { b \<leftarrow> u_buffer u; d \<leftarrow> read_bytes (u_last_rec_ptr u) 4 b;
     b \<leftarrow> write_bytes (u_last_rec_ptr u) [d ! 0, d ! 1, d ! 2, d ! 3 OR 0x80] b;
     Some (u\<lparr>u_buffer := Some b\<rparr>) }"

text \<open>What a writer remembers of its reservation: the sampled \<open>head\<close> and \<open>tail\<close>, and the sizes.\<close>

record uec_region =
  r_head :: nat
  r_tail :: nat
  r_psize :: nat
  r_tsize :: nat

definition uec_reserve :: "nat \<Rightarrow> uec_t \<Rightarrow> ((vtss_status + uec_region) \<times> uec_t) option" where
  "uec_reserve tsize u = (let head = u_ahead u; tail = u_tail u; hsize = u_hsize u in
     if u_ovfl u then do { u \<leftarrow> mark_overflow u; Some (Inl VTSS_ERR_BUFFERFULL, u) }
     else let fsize = (if tail \<le> head then hsize - (head - tail) else tail - head) in
     if fsize < tsize then do { u \<leftarrow> mark_overflow (u\<lparr>u_ovfl := True\<rparr>); Some (Inl VTSS_ERR_NOMEMORY, u) }
     else let psize = hsize - head;
              u = u\<lparr>u_ahead := if psize > tsize then head + tsize else tsize - psize\<rparr>;
              u = (if u_ahead u = tail then u\<lparr>u_ovfl := True\<rparr> else u) in
       Some (Inr \<lparr>r_head = head, r_tail = tail, r_psize = psize, r_tsize = tsize\<rparr>,
             u\<lparr>u_writer_count := u_writer_count u + 1\<rparr>))"

text \<open>\<open>memcpy (head, part + from, n); head += n\<close>; a null pointer is \<open>None\<close>.\<close>

definition copy_part :: "'a list option \<Rightarrow> nat \<Rightarrow> nat \<Rightarrow> nat \<times> 'a list \<Rightarrow> (nat \<times> 'a list) option" where
  "copy_part part from n = (\<lambda>(head, b). do { p \<leftarrow> part; d \<leftarrow> read_bytes from n p;
     b \<leftarrow> write_bytes head d b; Some (head + n, b) })"

definition uec_copy :: "uec_region \<Rightarrow> u8 list option \<Rightarrow> nat \<Rightarrow> u8 list option \<Rightarrow> nat \<Rightarrow> u8 list \<Rightarrow> u8 list option" where
  "uec_copy c part0 size0 part1 size1 b = map_option snd
     (let head = r_head c; psize = r_psize c in
      if r_tail c \<le> head then
        if psize > r_tsize c then do {
          hb \<leftarrow> copy_part part0 0 size0 (head, b);
          if size1 \<noteq> 0 then copy_part part1 0 size1 hb else Some hb }
        else let tmp = (if size0 > psize then psize else size0) in do {
          (head, b) \<leftarrow> copy_part part0 0 tmp (head, b);
          (head, b) \<leftarrow> (if tmp = psize
             then if size0 - tmp > 0 then copy_part part0 tmp (size0 - tmp) (0, b) else Some (0, b)
             else Some (head, b));
          if size1 \<noteq> 0 then let psize = psize - tmp in
            if psize \<noteq> 0 then do {
              (head, b) \<leftarrow> copy_part part1 0 psize (head, b);
              if size1 - psize > 0 then copy_part part1 psize (size1 - psize) (0, b) else Some (0, b) }
            else copy_part part1 0 size1 (head, b)
          else Some (head, b) }
      else do {
        hb \<leftarrow> copy_part part0 0 size0 (head, b);
        if size1 \<noteq> 0 then copy_part part1 0 size1 hb else Some hb })"

definition uec_commit :: "uec_region \<Rightarrow> uec_t \<Rightarrow> uec_t" where
  "uec_commit c u = (let u = u\<lparr>u_writer_count := u_writer_count u - 1, u_last_rec_ptr := r_head c\<rparr> in
     if u_writer_count u = 0 then u\<lparr>u_head := u_ahead u\<rparr> else u)"

definition put_record_async :: "u8 list option \<Rightarrow> nat \<Rightarrow> u8 list option \<Rightarrow> nat \<Rightarrow> uec_t \<Rightarrow> (vtss_status \<times> uec_t) option" where
  "put_record_async part0 size0 part1 size1 u =
     (if u_buffer u = None \<or> part0 = None \<or> size0 = 0 \<or> (size1 = 0) \<noteq> (part1 = None) then Some (VTSS_ERR_BADARG, u)
      else do {
        (r, u) \<leftarrow> uec_reserve (size0 + size1) u;
        case r of
          Inl e \<Rightarrow> Some (e, u)
        | Inr c \<Rightarrow> do { b \<leftarrow> u_buffer u; b \<leftarrow> uec_copy c part0 size0 part1 size1 b;
            Some (VTSS_SUCCESS, uec_commit c (u\<lparr>u_buffer := Some b\<rparr>)) } })"

text \<open>The method \<open>uec->put_record\<close>, which \<open>destroy_uec\<close> replaces with a stub.\<close>

definition put_record :: "u8 list option \<Rightarrow> nat \<Rightarrow> u8 list option \<Rightarrow> nat \<Rightarrow> uec_t \<Rightarrow> (vtss_status \<times> uec_t) option" where
  "put_record part0 size0 part1 size1 u = (if u_put_stub u then Some (VTSS_SUCCESS, u)
     else put_record_async part0 size0 part1 size1 u)"

section \<open>Reading\<close>

record uec_sample =
  s_head :: nat
  s_tail :: nat
  s_size :: nat
  s_ovfl :: bool

definition pull_sample :: "uec_t \<Rightarrow> (vtss_status + uec_sample) \<times> uec_t" where
  "pull_sample u = (if u_spill_active u then (Inl VTSS_ERR_BUSY, u)
     else let head = u_head u; tail = u_tail u; ovfl = u_ovfl u in
       if (head = tail \<and> \<not> ovfl) \<or> (head = tail \<and> ovfl \<and> head \<noteq> u_ahead u) then (Inl VTSS_SUCCESS, u)
       else (Inr \<lparr>s_head = head, s_tail = tail, s_size = u_tsize u, s_ovfl = ovfl\<rparr>, u\<lparr>u_spill_active := True\<rparr>))"

text \<open>
  Copying out: the bytes of the two transfers, \<open>copylen\<close>, and the new \<open>tail\<close>. What \<open>copy_to_user\<close>
  could not copy is dealt with where the value is returned.
\<close>

definition pull_copy :: "uec_sample \<Rightarrow> nat \<Rightarrow> u8 list \<Rightarrow> (u8 list \<times> nat) option" where
  "pull_copy s len b = (let head = s_head s; tail = s_tail s in
     if head > tail then let copylen = (if head - tail > len then len else head - tail) in do {
       d \<leftarrow> read_bytes tail copylen b; Some (d, tail + copylen) }
     else if head < tail \<or> (head = tail \<and> s_ovfl s) then
       let partlen = s_size s - tail; copylen = (if partlen > len then len else partlen) in do {
         d \<leftarrow> read_bytes tail copylen b;
         if copylen = partlen \<and> copylen < len then
           let partlen = (if head > len - copylen then len - copylen else head) in do {
             e \<leftarrow> read_bytes 0 partlen b; Some (d @ e, partlen) }
         else Some (d, tail + copylen) }
     else Some ([], tail))"

definition pull_finish :: "nat \<Rightarrow> uec_t \<Rightarrow> uec_t" where
  "pull_finish tail u = u\<lparr>u_tail := tail, u_ovfl := False, u_spill_active := False\<rparr>"

text \<open>
  \<open>Pulled d\<close>: the bytes \<open>d\<close> were handed out and their number returned; \<open>Pull_Failed\<close>: the return
  value -1, when a transfer failed (\<open>copy_failed\<close>); \<open>Pull_Error\<close>: a status of vtsserr.h.
\<close>

datatype pull_result = Pulled "u8 list" | Pull_Failed | Pull_Error vtss_status

definition pull_uec :: "bool \<Rightarrow> bool \<Rightarrow> nat \<Rightarrow> uec_t \<Rightarrow> (pull_result \<times> uec_t) option" where
  "pull_uec copy_failed buffer_null len u =
     (if u_buffer u = None \<or> buffer_null \<or> len = 0 then Some (Pull_Error VTSS_ERR_BADARG, u)
      else case pull_sample u of
        (Inl e, u) \<Rightarrow> Some (if e = VTSS_SUCCESS then Pulled [] else Pull_Error e, u)
      | (Inr s, u) \<Rightarrow> do { b \<leftarrow> u_buffer u; (d, tail) \<leftarrow> pull_copy s len b;
          Some (if copy_failed then Pull_Failed else Pulled d, pull_finish tail u) })"

end
