(* ===== verification/Uec_Correct.thy ===== *)
theory Uec_Correct
  imports Uec
begin

text \<open>
  The ring buffer of uec.c as a channel: the branches of its copy routines against byte-wise access
  modulo the size, an invariant over any interleaving of writers and a reader, and what breaks it.
\<close>

section \<open>Bytes of a ring\<close>

text \<open>The reference: byte \<open>k\<close> of the record goes to the position \<open>s + k\<close> modulo the size.\<close>

definition ring_write :: "nat \<Rightarrow> 'a list \<Rightarrow> 'a list \<Rightarrow> 'a list" where
  "ring_write s r b = map (\<lambda>i. let k = (i + length b - s) mod length b in if k < length r then r ! k else b ! i)
     [0 ..< length b]"

definition ring_read :: "nat \<Rightarrow> nat \<Rightarrow> 'a list \<Rightarrow> 'a list" where
  "ring_read s m b = map (\<lambda>k. b ! ((s + k) mod length b)) [0 ..< m]"

lemma length_ring [simp]: "length (ring_write s r b) = length b" "length (ring_read s m b) = m"
  by (simp_all add: ring_write_def ring_read_def)

lemma ring_dist:
  fixes i n s :: nat
  assumes "i < n" "s < n"
  shows "(i + n - s) mod n = (if s \<le> i then i - s else i + n - s)"
  using assms by (auto simp: mod_if)

lemma ring_write_nth: "i < length b \<Longrightarrow> s < length b \<Longrightarrow> ring_write s r b ! i =
    (let k = (if s \<le> i then i - s else i + length b - s) in if k < length r then r ! k else b ! i)"
  by (simp add: ring_write_def ring_dist Let_def)

lemma ring_write_flat:
  assumes "s + length r \<le> length b" "s < length b"
  shows "ring_write s r b = take s b @ r @ drop (s + length r) b"
  using assms by (intro nth_equalityI) (auto simp: ring_write_nth Let_def nth_append)

lemma ring_write_wrap:
  assumes "r = r1 @ r2" "s + length r1 = length b" "length r2 \<le> s" "s < length b"
  shows "ring_write s r b = r2 @ drop (length r2) (take s b) @ r1"
  using assms(2-) unfolding assms(1)
  by (intro nth_equalityI) (auto simp: ring_write_nth Let_def nth_append)

lemma write_bytes_twice:
  assumes "off + length r1 + length r2 \<le> length b"
  shows "write_bytes off r1 b \<bind> write_bytes (off + length r1) r2 = write_bytes off (r1 @ r2) b"
  using assms by (simp add: write_bytes_def ac_simps)

section \<open>The copy of a record\<close>

text \<open>A region that the reservation can hand out in a ring of \<open>n\<close> bytes.\<close>

definition region_ok :: "nat \<Rightarrow> uec_region \<Rightarrow> bool" where
  "region_ok n c = (r_head c < n \<and> r_psize c = n - r_head c \<and> r_tsize c \<le> n \<and>
     (r_tail c \<le> r_head c \<longrightarrow> r_head c + r_tsize c \<le> r_tail c + n) \<and>
     (r_tail c > r_head c \<longrightarrow> r_head c + r_tsize c \<le> r_tail c \<and> r_tail c \<le> n))"

lemma copy_part_flat [simp]:
  "copy_part (Some p) from n (h, b) = (if from + n \<le> length p \<and> h + n \<le> length b
     then Some (h + n, take h b @ take n (drop from p) @ drop (h + n) b) else None)"
  by (auto simp: copy_part_def read_bytes_def write_bytes_def)

lemma copy_flat:
  assumes "h + length p0 + length p1 \<le> length b" "h < length b" "p1' = (if p1 = [] then None else Some p1)"
  shows "do { hb \<leftarrow> copy_part (Some p0) 0 (length p0) (h, b);
      if length p1 \<noteq> 0 then copy_part p1' 0 (length p1) hb else Some hb }
    = Some (h + length p0 + length p1, ring_write h (p0 @ p1) b)"
  using assms by (cases "p1 = []") (simp_all add: ring_write_flat ac_simps)

lemma uec_copy_is_ring_write:
  assumes "region_ok (length b) c" "r_tsize c = length p0 + length p1" "p0 \<noteq> []"
  shows "uec_copy c (Some p0) (length p0) (if p1 = [] then None else Some p1) (length p1) b
    = Some (ring_write (r_head c) (p0 @ p1) b)"
proof -
  let ?h = "r_head c" and ?n = "length b"
  note ok = assms(1)[unfolded region_ok_def]
  consider (flat) "r_tail c > ?h \<or> r_psize c > r_tsize c"
    | (wrap) "r_tail c \<le> ?h" "r_psize c \<le> r_tsize c" by linarith
  then show ?thesis
  proof cases
    case flat
    have "?h + length p0 + length p1 \<le> ?n" "?h < ?n" using flat ok assms(2) by auto
    note cf = copy_flat[OF this refl]
    have "uec_copy c (Some p0) (length p0) (if p1 = [] then None else Some p1) (length p1) b = map_option snd
        (do { hb \<leftarrow> copy_part (Some p0) 0 (length p0) (?h, b);
          if length p1 \<noteq> 0 then copy_part (if p1 = [] then None else Some p1) 0 (length p1) hb else Some hb })"
      using flat by (auto simp: uec_copy_def Let_def simp del: copy_part_flat)
    then show ?thesis by (simp only: cf option.map snd_conv)
  next
    case wrap
    let ?p = "?n - ?h"
    have ps: "r_psize c = ?p" "?p > 0" "?p \<le> length p0 + length p1" "length p0 + length p1 - ?p \<le> ?h"
      using ok wrap assms(2) by auto
    show ?thesis
    proof (cases "length p0 > ?p")
      case True
      have "ring_write ?h (p0 @ p1) b =
          (drop ?p p0 @ p1) @ drop (length (drop ?p p0 @ p1)) (take ?h b) @ take ?p p0"
        by (rule ring_write_wrap) (use ok ps True in auto)
      then show ?thesis using wrap ps True ok assms(2) by (auto simp: uec_copy_def Let_def ac_simps)
    next
      case False
      let ?m = "?p - length p0"
      have "ring_write ?h (p0 @ p1) b =
          drop ?m p1 @ drop (length (drop ?m p1)) (take ?h b) @ (p0 @ take ?m p1)"
        by (rule ring_write_wrap) (use ok ps False in auto)
      then show ?thesis using wrap ps False ok assms(2,3)
        by (cases "p1 = []"; cases "?m = 0") (auto simp: uec_copy_def Let_def ac_simps)
    qed
  qed
qed

section \<open>The copy to the reader\<close>

definition sample_ok :: "nat \<Rightarrow> uec_sample \<Rightarrow> bool" where
  "sample_ok n s = (s_size s = n \<and> s_head s < n \<and> s_tail s \<le> n \<and> (s_head s = s_tail s \<longrightarrow> s_ovfl s))"

definition sample_count :: "uec_sample \<Rightarrow> nat" where
  "sample_count s = (if s_head s > s_tail s then s_head s - s_tail s else s_size s - s_tail s + s_head s)"

lemma ring_read_flat:
  assumes "s + m \<le> length b"
  shows "ring_read s m b = take m (drop s b)"
  using assms by (intro nth_equalityI) (auto simp: ring_read_def)

lemma ring_read_wrap:
  assumes "s \<le> length b" "length b \<le> s + m" "s + m - length b \<le> s" "b \<noteq> []"
  shows "ring_read s m b = drop s b @ take (s + m - length b) b"
proof (intro nth_equalityI)
  fix i assume "i < length (ring_read s m b)"
  then have i: "i < m" by simp
  have "(s + i) mod length b = (if s + i < length b then s + i else s + i - length b)"
    using i assms by (auto simp: mod_if)
  then show "ring_read s m b ! i = (drop s b @ take (s + m - length b) b) ! i"
    using i assms by (auto simp: ring_read_def nth_append ac_simps)
qed (use assms in auto)

lemma pull_copy_is_ring_read:
  assumes "sample_ok (length b) s" "0 < len" "b \<noteq> []"
  shows "\<exists>tail. pull_copy s len b = Some (ring_read (s_tail s) (min len (sample_count s)) b, tail) \<and>
    tail \<le> length b \<and> tail mod length b = (s_tail s + min len (sample_count s)) mod length b \<and>
    (tail = length b \<longrightarrow> 0 < min len (sample_count s))"
proof -
  let ?n = "length b" and ?h = "s_head s" and ?t = "s_tail s" and ?m = "min len (sample_count s)"
  note ok = assms(1)[unfolded sample_ok_def]
  consider (flat) "?h > ?t" | (cut) "?h \<le> ?t" "len \<le> ?n - ?t" | (wrap) "?h \<le> ?t" "?n - ?t < len" by linarith
  then show ?thesis
  proof cases
    case flat
    have "?m = (if ?h - ?t > len then len else ?h - ?t)" using flat by (simp add: sample_count_def)
    with flat ok show ?thesis
      by (auto simp: pull_copy_def Let_def read_bytes_def ring_read_flat)
  next
    case cut
    have m: "?m = len" using cut ok by (simp add: sample_count_def)
    have "pull_copy s len b = Some (take len (drop ?t b), ?t + len)" "ring_read ?t len b = take len (drop ?t b)"
      using cut ok assms(2) by (auto simp: pull_copy_def Let_def read_bytes_def ring_read_flat)
    with m cut ok assms(2) show ?thesis by auto
  next
    case wrap
    have m: "?m = min len (?n - ?t + ?h)" using wrap ok by (simp add: sample_count_def)
    let ?e = "min (len - (?n - ?t)) ?h"
    have e: "?m = ?n - ?t + ?e" using m wrap ok by auto
    have "pull_copy s len b = Some (drop ?t b @ take ?e b, ?e)"
      using wrap ok by (auto simp: pull_copy_def Let_def read_bytes_def)
    moreover have "ring_read ?t ?m b = drop ?t b @ take ?e b"
      unfolding e by (subst ring_read_wrap) (use wrap ok assms(3) in auto)
    moreover have "?t + ?m = ?n + ?e" using e ok by simp
    ultimately show ?thesis using ok assms(3) by auto
  qed
qed

text \<open>
  C6: the copy routines do what byte-wise access modulo the size of the ring does. For any region a
  reservation can hand out, with the record in one part or two, the branches of the copy (one block,
  a part cut at the end of the buffer, the second part cut there or starting there) put byte \<open>k\<close> of
  the record at the position \<open>head + k\<close> modulo the size, change no other byte and write none outside
  the buffer; and for any sample, the one or two transfers to the reader are the bytes from \<open>tail\<close> on,
  modulo the size, as many as are there and were asked for.
\<close>

theorem uec_copies_bytewise:
  assumes "region_ok (length b) c" "r_tsize c = length p0 + length p1" "p0 \<noteq> []"
    "sample_ok (length b) s" "0 < len"
  shows "uec_copy c (Some p0) (length p0) (if p1 = [] then None else Some p1) (length p1) b
      = Some (ring_write (r_head c) (p0 @ p1) b) \<and>
    map_option fst (pull_copy s len b) = Some (ring_read (s_tail s) (min len (sample_count s)) b)"
proof -
  have "b \<noteq> []" using assms(1) by (auto simp: region_ok_def)
  with pull_copy_is_ring_read[OF assms(4,5)] uec_copy_is_ring_write[OF assms(1-3)] show ?thesis by auto
qed

theorem uec_copies_bytewise_witness:
  "ring_write 3 ([1, 2] @ [3, 4]) [10, 11, 12, 13, 14 :: u8] = [3, 4, 12, 1, 2] \<and>
   uec_copy \<lparr>r_head = 3, r_tail = 2, r_psize = 2, r_tsize = 4\<rparr> (Some [1, 2]) 2 (Some [3, 4]) 2 [10, 11, 12, 13, 14]
     = Some [3, 4, 12, 1, 2] \<and>
   map_option fst (pull_copy \<lparr>s_head = 2, s_tail = 3, s_size = 5, s_ovfl = False\<rparr> 3 [10, 11, 12, 13, 14])
     = Some (ring_read 3 3 [10, 11, 12, 13, 14])"
proof -
  let ?c = "\<lparr>r_head = 3, r_tail = 2, r_psize = 2, r_tsize = 4\<rparr>" and ?s = "\<lparr>s_head = 2, s_tail = 3, s_size = 5, s_ovfl = False\<rparr>"
  have w: "ring_write 3 [1, 2, 3, 4] [10, 11, 12, 13, 14 :: u8] = [3, 4, 12, 1, 2]"
    by (simp add: ring_write_def Let_def upt_rec)
  have "region_ok 5 ?c" "sample_ok 5 ?s" "min 3 (sample_count ?s) = 3"
    by (simp_all add: region_ok_def sample_ok_def sample_count_def)
  with uec_copies_bytewise[of "[10, 11, 12, 13, 14]" ?c "[1, 2]" "[3, 4]" ?s 3] w show ?thesis
    by (simp add: numeral_eq_Suc)
qed

end
