(* ===== verification/Uec_Channel.thy ===== *)
theory Uec_Channel
  imports Uec_Correct
begin

text \<open>
  Writers and a reader of one ring, interleaved. Every section under the lock is one step, and so is
  the copy of a record into the ring or out of it. The log is the concatenation of the records in the
  order of their reservations; \<open>w_start\<close> is the place of a record in it. Both, and the bytes delivered
  so far, are for the proof.
\<close>

section \<open>Interleavings\<close>

record uec_writer =
  w_start :: nat
  w_region :: uec_region
  w_part0 :: "u8 list"
  w_part1 :: "u8 list"
  w_copied :: bool

datatype uec_reader = No_Reader | Sampled uec_sample nat | Spilled nat

record uec_world =
  ring :: uec_t
  writers :: "uec_writer list"
  reader :: uec_reader
  delivered :: "u8 list"
  logged :: "u8 list"
  refused :: bool

definition opt_part :: "u8 list \<Rightarrow> u8 list option" where
  "opt_part p = (if p = [] then None else Some p)"

definition w_data :: "uec_writer \<Rightarrow> u8 list" where
  "w_data wr = w_part0 wr @ w_part1 wr"

text \<open>
  Three situations are left out of the steps: a reservation that fills the ring up to its physical
  end while \<open>tail\<close> stands behind that end, a reservation larger than the ring, and a sample taken when
  the records of active writers fill the whole ring. What they do is shown below.
\<close>

inductive uec_step :: "uec_world \<Rightarrow> uec_world \<Rightarrow> bool" where
  reserve: "p0 \<noteq> [] \<Longrightarrow> uec_reserve (length p0 + length p1) (ring w) = Some (Inr c, u) \<Longrightarrow>
     \<not> (u_tail u = u_hsize u \<and> u_ahead u = 0) \<Longrightarrow>
     uec_step w (w\<lparr>ring := u, logged := logged w @ p0 @ p1, writers := writers w @
       [\<lparr>w_start = length (logged w), w_region = c, w_part0 = p0, w_part1 = p1, w_copied = False\<rparr>]\<rparr>)"
| refuse: "uec_reserve tsize (ring w) = Some (Inl e, u) \<Longrightarrow> tsize \<le> u_hsize u \<Longrightarrow>
     uec_step w (w\<lparr>ring := u, refused := True\<rparr>)"
| copy: "writers w = A @ wr # B \<Longrightarrow> \<not> w_copied wr \<Longrightarrow> u_buffer (ring w) = Some b \<Longrightarrow>
     uec_copy (w_region wr) (Some (w_part0 wr)) (length (w_part0 wr)) (opt_part (w_part1 wr)) (length (w_part1 wr)) b = Some b' \<Longrightarrow>
     uec_step w (w\<lparr>ring := (ring w)\<lparr>u_buffer := Some b'\<rparr>, writers := A @ wr\<lparr>w_copied := True\<rparr> # B\<rparr>)"
| commit: "writers w = A @ wr # B \<Longrightarrow> w_copied wr \<Longrightarrow>
     uec_step w (w\<lparr>ring := uec_commit (w_region wr) (ring w), writers := A @ B\<rparr>)"
| sample: "reader w = No_Reader \<Longrightarrow> 0 < len \<Longrightarrow> pull_sample (ring w) = (Inr s, u) \<Longrightarrow>
     \<not> (writers w \<noteq> [] \<and> u_head u = u_tail u) \<Longrightarrow>
     uec_step w (w\<lparr>ring := u, reader := Sampled s len\<rparr>)"
| spill: "reader w = Sampled s len \<Longrightarrow> u_buffer (ring w) = Some b \<Longrightarrow> pull_copy s len b = Some (d, tail) \<Longrightarrow>
     uec_step w (w\<lparr>reader := Spilled tail, delivered := delivered w @ d\<rparr>)"
| finish: "reader w = Spilled tail \<Longrightarrow>
     uec_step w (w\<lparr>ring := pull_finish tail (ring w), reader := No_Reader\<rparr>)"

section \<open>Positions\<close>

lemma ring_distance:
  fixes T H n :: nat
  assumes "0 < n" "T \<le> H" "H \<le> T + n"
  obtains "T mod n < H mod n" "H - T = H mod n - T mod n" | "H mod n < T mod n" "H - T = n - T mod n + H mod n"
    | "H mod n = T mod n" "H = T" | "H mod n = T mod n" "H = T + n"
proof -
  let ?t = "T mod n" and ?d = "H - T"
  have "(?t + ?d) mod n = (T + ?d) mod n" by (rule mod_add_left_eq)
  then have "H mod n = (?t + ?d) mod n" using assms(2) by simp
  moreover have "?t < n" using assms(1) by simp
  moreover have "(?t + ?d) mod n = (if ?t + ?d < n then ?t + ?d else ?t + ?d - n)"
  proof (cases "?t + ?d < n")
    case False
    then have "(?t + ?d) mod n = (?t + ?d - n) mod n" by (intro le_mod_geq) simp
    moreover have "?t + ?d - n < n" using \<open>?t < n\<close> assms by linarith
    ultimately show ?thesis using False by simp
  qed simp
  ultimately have "H mod n = (if ?t + ?d < n then ?t + ?d else ?t + ?d - n)" "?t < n" by simp_all
  note h = this
  consider "?d = 0" | "?d = n" | "0 < ?d" "?d < n" "?t + ?d < n" | "0 < ?d" "?d < n" "n \<le> ?t + ?d"
    using assms by linarith
  then show thesis
  proof cases
    case 1 with h assms show thesis by (intro that(3)) simp_all
  next
    case 2 with h assms show thesis by (intro that(4)) simp_all
  next
    case 3 with h assms show thesis by (intro that(1)) simp_all
  next
    case 4
    with h have "H mod n = ?t + ?d - n" by simp
    with 4 h(2) show thesis by (intro that(2)) linarith+
  qed
qed

lemma ring_distances:
  fixes T H n t h :: nat
  assumes "0 < n" "T \<le> H" "H \<le> T + n" "t = T mod n" "h = H mod n"
  shows "t < n" "h < n"
    "t < h \<and> H = T + (h - t) \<or> h < t \<and> H = T + (n - t + h) \<or> h = t \<and> H = T \<or> h = t \<and> H = T + n"
proof -
  show "t < n" "h < n" using assms by simp_all
  from assms(1-3) show "t < h \<and> H = T + (h - t) \<or> h < t \<and> H = T + (n - t + h) \<or> h = t \<and> H = T \<or> h = t \<and> H = T + n"
    unfolding assms(4,5) by (rule ring_distance) (use assms(2) in linarith)+
qed

lemma ring_write_at:
  assumes "T \<le> p" "p < T + length b" "T \<le> S" "S + length r \<le> T + length b"
  shows "ring_write (S mod length b) r b ! (p mod length b) =
    (if S \<le> p \<and> p < S + length r then r ! (p - S) else b ! (p mod length b))"
proof (cases "b = []")
  case False
  let ?n = "length b" and ?i = "p mod length b" and ?s = "S mod length b"
  have n: "0 < ?n" "?i < ?n" "?s < ?n" using False by simp_all
  show ?thesis
  proof (cases "S \<le> p")
    case True
    have "p \<le> S + ?n" using assms by simp
    from n(1) True this have "(if ?s \<le> ?i then ?i - ?s else ?i + ?n - ?s) = p - S"
      by (rule ring_distance) (use n assms in auto)
    moreover have "(S \<le> p \<and> p < S + length r) = (p - S < length r)" using True by auto
    ultimately show ?thesis using n by (simp add: ring_write_nth Let_def)
  next
    case False
    then have d: "p \<le> S" "S \<le> p + ?n" using assms by simp_all
    from n(1) d have "length r \<le> (if ?s \<le> ?i then ?i - ?s else ?i + ?n - ?s)"
      by (rule ring_distance) (use n assms False in \<open>auto simp del: length_0_conv\<close>)
    then show ?thesis using False n by (simp add: ring_write_nth Let_def)
  qed
qed (use assms in simp)

lemma ring_read_at:
  assumes "t mod length b = T mod length b" "k < m"
  shows "ring_read t m b ! k = b ! ((T + k) mod length b)"
  using assms(2) mod_add_cong[OF assms(1) refl, of k] by (simp add: ring_read_def)

lemma mark_overflowE:
  assumes "mark_overflow u = Some u'"
  obtains b l where "u_buffer u = Some b" "u' = u\<lparr>u_buffer := Some (b[l := b ! l OR 0x80])\<rparr>"
proof -
  from assms obtain b where b: "u_buffer u = Some b" "u_last_rec_ptr u + 4 \<le> length b"
    by (auto simp: mark_overflow_def read_bytes_def bind_eq_Some_conv split: if_splits)
  let ?l = "u_last_rec_ptr u"
  let ?d = "take 4 (drop ?l b)" and ?v = "b ! (?l + 3) OR 0x80"
  have d: "length ?d = 4" "?d ! 3 = b ! (?l + 3)" using b(2) by simp_all
  then have four: "[?d ! 0, ?d ! 1, ?d ! 2, ?d ! 3 OR 0x80] = ?d[3 := ?v]"
    by (intro nth_equalityI) (auto simp: nth_Cons nth_list_update numeral_eq_Suc less_Suc_eq)
  have "take ?l b @ ?d[3 := ?v] @ drop (?l + 4) b = (take ?l b @ ?d @ drop (?l + 4) b)[?l + 3 := ?v]"
    using b(2) d(1) by (simp add: list_update_append)
  also have "take ?l b @ ?d @ drop (?l + 4) b = b" by (metis add.commute append_take_drop_id drop_drop)
  finally have "write_bytes ?l (?d[3 := ?v]) b = Some (b[?l + 3 := ?v])" using b(2) d(1) by (simp add: write_bytes_def)
  then have "u' = u\<lparr>u_buffer := Some (b[?l + 3 := ?v])\<rparr>"
    using assms b four by (simp add: mark_overflow_def read_bytes_def)
  with b(1) show thesis by (rule that)
qed

section \<open>Reserving and sampling in positions\<close>

text \<open>With \<open>T\<close> bytes consumed and \<open>R\<close> reserved, \<open>tail\<close> and \<open>head_\<close> stand at these positions.\<close>

definition ring_at :: "nat \<Rightarrow> nat \<Rightarrow> uec_t \<Rightarrow> bool" where
  "ring_at T R u = (let n = u_hsize u in 0 < n \<and> u_tsize u = n \<and> T \<le> R \<and> R \<le> T + n \<and> u_tail u \<le> n \<and>
     u_tail u mod n = T mod n \<and> u_ahead u = R mod n \<and> (u_tail u = n \<longrightarrow> R < T + n) \<and>
     (R = T + n \<longrightarrow> u_ovfl u) \<and> (u_ovfl u \<longrightarrow> T < R))"

lemma ring_atD:
  assumes "ring_at T R u"
  shows "0 < u_hsize u" "T \<le> R" "R \<le> T + u_hsize u" "u_tsize u = u_hsize u" "u_tail u \<le> u_hsize u"
    "u_tail u mod u_hsize u = T mod u_hsize u" "u_ahead u = R mod u_hsize u"
    "u_tail u = u_hsize u \<Longrightarrow> R < T + u_hsize u" "R = T + u_hsize u \<Longrightarrow> u_ovfl u" "u_ovfl u \<Longrightarrow> T < R"
  using assms by (simp_all add: ring_at_def Let_def)

text \<open>How far the published or the reserved bytes reach beyond \<open>tail\<close>.\<close>

lemma ring_at_distance:
  assumes "ring_at T R u" "T \<le> H" "H \<le> R"
  obtains "u_tail u = u_hsize u" "H mod u_hsize u < u_hsize u" "H = T + H mod u_hsize u"
    | "u_tail u < u_hsize u" "H mod u_hsize u < u_hsize u"
      "u_tail u < H mod u_hsize u \<and> H = T + (H mod u_hsize u - u_tail u) \<or>
       H mod u_hsize u < u_tail u \<and> H = T + (u_hsize u - u_tail u + H mod u_hsize u) \<or>
       H mod u_hsize u = u_tail u \<and> H = T \<or> H mod u_hsize u = u_tail u \<and> H = T + u_hsize u"
proof -
  note r = ring_atD[OF assms(1)]
  have le: "H \<le> T + u_hsize u" using assms(3) r(3) by linarith
  note d = ring_distances[OF r(1) assms(2) le refl refl]
  show thesis
  proof (cases "u_tail u = u_hsize u")
    case True
    then have t: "T mod u_hsize u = 0" using r(6) by simp
    have "H \<noteq> T + u_hsize u" using r(8)[OF True] assms(3) by linarith
    then have "H = T + H mod u_hsize u" using d(3) unfolding t by linarith
    with True d(2) show thesis by (rule that(1))
  next
    case False
    then have t: "T mod u_hsize u = u_tail u" using r(1,5,6) by simp
    from False r(5) have "u_tail u < u_hsize u" by simp
    from this d(2) show thesis using d(3) unfolding t by (rule that(2))
  qed
qed

lemma free_arith:
  fixes t h n R T :: nat
  assumes "t < h \<and> R = T + (h - t) \<or> h < t \<and> R = T + (n - t + h) \<or> h = t \<and> R = T" "t \<le> n" "h < n"
  shows "(if t \<le> h then n - (h - t) else t - h) = T + n - R"
  using assms by auto

lemma ring_at_free:
  assumes "ring_at T R u" "\<not> u_ovfl u"
  shows "(if u_tail u \<le> u_ahead u then u_hsize u - (u_ahead u - u_tail u) else u_tail u - u_ahead u) = T + u_hsize u - R"
proof -
  note r = ring_atD[OF assms(1)]
  have ne: "R \<noteq> T + u_hsize u" using r(9) assms(2) by blast
  show ?thesis unfolding r(7)
  proof (rule ring_at_distance[OF assms(1) r(2) order_refl])
    assume a: "u_tail u = u_hsize u" "R mod u_hsize u < u_hsize u" "R = T + R mod u_hsize u"
    show "(if u_tail u \<le> R mod u_hsize u then u_hsize u - (R mod u_hsize u - u_tail u) else u_tail u - R mod u_hsize u) =
        T + u_hsize u - R"
      by (rule free_arith) (use a in linarith)+
  next
    assume a: "u_tail u < u_hsize u" "R mod u_hsize u < u_hsize u"
      "u_tail u < R mod u_hsize u \<and> R = T + (R mod u_hsize u - u_tail u) \<or>
       R mod u_hsize u < u_tail u \<and> R = T + (u_hsize u - u_tail u + R mod u_hsize u) \<or>
       R mod u_hsize u = u_tail u \<and> R = T \<or> R mod u_hsize u = u_tail u \<and> R = T + u_hsize u"
    show "(if u_tail u \<le> R mod u_hsize u then u_hsize u - (R mod u_hsize u - u_tail u) else u_tail u - R mod u_hsize u) =
        T + u_hsize u - R"
      by (rule free_arith) (use a ne in linarith)+
  qed
qed

lemma reserve_granted:
  assumes ok: "ring_at T R u" and r: "uec_reserve ts u = Some (Inr c, u')" and ts: "0 < ts"
    and not_end: "\<not> (u_tail u' = u_hsize u' \<and> u_ahead u' = 0)"
  shows "ring_at T (R + ts) u' \<and> region_ok (u_hsize u) c \<and> r_head c = R mod u_hsize u \<and> r_tsize c = ts \<and>
    u_hsize u' = u_hsize u \<and> u_buffer u' = u_buffer u \<and> u_head u' = u_head u \<and> u_tail u' = u_tail u \<and>
    u_spill_active u' = u_spill_active u \<and> u_writer_count u' = u_writer_count u + 1"
proof -
  let ?n = "u_hsize u" and ?h = "u_ahead u"
  have ov: "\<not> u_ovfl u" using r by (auto simp: uec_reserve_def Let_def bind_eq_Some_conv split: if_splits)
  note free = ring_at_free[OF ok ov]
  have fit: "\<not> T + ?n - R < ts" using r ov unfolding free[symmetric] uec_reserve_def Let_def
    by (simp add: bind_eq_Some_conv split: if_splits)
  have h: "?h = R mod ?n" "?h < ?n" and o: "0 < ?n" "T \<le> R" "R \<le> T + ?n" "u_tsize u = ?n" "u_tail u \<le> ?n"
    "u_tail u mod ?n = T mod ?n"
    using ring_atD[OF ok] by simp_all
  have le: "ts \<le> ?n" "R + ts \<le> T + ?n" using fit o(1-3) ts by linarith+
  define a where "a = (if ?n - ?h > ts then ?h + ts else ts - (?n - ?h))"
  have a: "a = (R + ts) mod ?n"
  proof -
    have "(R + ts) mod ?n = (?h + ts) mod ?n" using h(1) by (simp add: mod_add_left_eq)
    moreover have "(?h + ts) mod ?n = (?h + ts - ?n) mod ?n" if "\<not> ?n - ?h > ts" using that h by (intro le_mod_geq) simp
    moreover have "?h + ts - ?n < ?n" using h le by linarith
    ultimately show ?thesis using h by (auto simp: a_def)
  qed
  have c: "c = \<lparr>r_head = ?h, r_tail = u_tail u, r_psize = ?n - ?h, r_tsize = ts\<rparr>"
    and u': "u' = u\<lparr>u_ahead := a, u_ovfl := (a = u_tail u), u_writer_count := u_writer_count u + 1\<rparr>"
    using r ov fit unfolding uec_reserve_def Let_def free by (auto simp: a_def)
  have f: "ts \<le> (if u_tail u \<le> ?h then ?n - (?h - u_tail u) else u_tail u - ?h)" using fit unfolding free by linarith
  have "region_ok ?n c" using f h(2) o(5) le(1) unfolding c region_ok_def by (auto split: if_splits)
  moreover have "ring_at T (R + ts) u'"
  proof -
    have m: "a = u_tail u mod ?n" if "R + ts = T + ?n" using o(6) unfolding a that by simp
    have e: "a = u_tail u" if "R + ts = T + ?n" "u_tail u \<noteq> ?n" using m that o(5) by simp
    have z: "a = 0" if "R + ts = T + ?n" "u_tail u = ?n" using m that by simp
    have "R + ts < T + ?n" if "u_tail u = ?n"
    proof (rule ccontr)
      assume "\<not> R + ts < T + ?n"
      then have "R + ts = T + ?n" using le(2) by simp
      from z[OF this that] not_end that u' show False by simp
    qed
    note end_free = this
    have "a = u_tail u" if "R + ts = T + ?n" using e end_free that by (cases "u_tail u = ?n") simp_all
    with end_free o le ts show ?thesis by (simp add: ring_at_def Let_def u' flip: a)
  qed
  ultimately show ?thesis using h c u' by simp
qed

lemma reserve_refused:
  assumes ok: "ring_at T R u" and r: "uec_reserve ts u = Some (Inl e, u')" and ts: "ts \<le> u_hsize u'"
  obtains b l where "u_buffer u = Some b" "u' = u\<lparr>u_ovfl := True, u_buffer := Some (b[l := b ! l OR 0x80])\<rparr>"
    "ring_at T R u'"
proof -
  have same: "u\<lparr>u_ovfl := True\<rparr> = u" if "u_ovfl u" using that by (cases u) simp
  have "\<exists>v. mark_overflow v = Some u' \<and> v = u\<lparr>u_ovfl := True\<rparr>"
  proof (cases "u_ovfl u")
    case True
    then have "mark_overflow u = Some u'"
      using r by (auto simp: uec_reserve_def Let_def bind_eq_Some_conv split: if_splits)
    then show ?thesis using same[OF True] by simp
  qed (use r in \<open>auto simp: uec_reserve_def Let_def bind_eq_Some_conv split: if_splits\<close>)
  then obtain b l where b: "u_buffer u = Some b" "u' = u\<lparr>u_ovfl := True, u_buffer := Some (b[l := b ! l OR 0x80])\<rparr>"
    by (auto elim!: mark_overflowE)
  have "T < R"
  proof (cases "u_ovfl u")
    case False
    have "T + u_hsize u - R < ts" using r False unfolding ring_at_free[OF ok False, symmetric]
      by (auto simp: uec_reserve_def Let_def bind_eq_Some_conv split: if_splits)
    moreover have "ts \<le> u_hsize u" using ts b by simp
    ultimately show ?thesis using ok by (auto simp: ring_at_def Let_def)
  qed (use ok in \<open>simp add: ring_at_def Let_def\<close>)
  then have "ring_at T R u'" using ok b by (auto simp: ring_at_def Let_def)
  with b show thesis by (rule that)
qed

lemma sample_taken:
  assumes ok: "ring_at T R u" and H: "T \<le> H" "H \<le> R" "u_head u = H mod u_hsize u" and s: "pull_sample u = (Inr s, u')"
    and quiet: "u_head u = u_tail u \<Longrightarrow> H = R"
  shows "u' = u\<lparr>u_spill_active := True\<rparr> \<and> \<not> u_spill_active u \<and> sample_ok (u_hsize u) s \<and> s_tail s = u_tail u \<and>
    sample_count s = H - T \<and> (H = T \<longrightarrow> u_tail u = u_hsize u)"
proof -
  note r = ring_atD[OF ok]
  have u': "u' = u\<lparr>u_spill_active := True\<rparr>" "\<not> u_spill_active u"
    "s = \<lparr>s_head = u_head u, s_tail = u_tail u, s_size = u_tsize u, s_ovfl = u_ovfl u\<rparr>"
    "u_head u = u_tail u \<Longrightarrow> u_ovfl u"
    using s by (auto simp: pull_sample_def Let_def split: if_splits)
  have "H mod u_hsize u < u_hsize u \<and> sample_count s = H - T \<and> (H = T \<longrightarrow> u_tail u = u_hsize u)"
  proof (rule ring_at_distance[OF ok H(1,2)])
    assume a: "u_tail u = u_hsize u" "H mod u_hsize u < u_hsize u" "H = T + H mod u_hsize u"
    have "sample_count s = H mod u_hsize u" using a(1,2) u'(3) H(3) r(4) by (simp add: sample_count_def)
    with a show ?thesis by linarith
  next
    assume a: "u_tail u < u_hsize u" "H mod u_hsize u < u_hsize u"
      "u_tail u < H mod u_hsize u \<and> H = T + (H mod u_hsize u - u_tail u) \<or>
       H mod u_hsize u < u_tail u \<and> H = T + (u_hsize u - u_tail u + H mod u_hsize u) \<or>
       H mod u_hsize u = u_tail u \<and> H = T \<or> H mod u_hsize u = u_tail u \<and> H = T + u_hsize u"
    have "T < H" if "H mod u_hsize u = u_tail u" using u'(4) quiet r(10) H(3) that by simp
    moreover have "sample_count s = (if H mod u_hsize u > u_tail u then H mod u_hsize u - u_tail u
        else u_hsize u - u_tail u + H mod u_hsize u)"
      using u'(3) H(3) r(4) by (simp add: sample_count_def)
    ultimately show ?thesis using a by (auto split: if_splits)
  qed
  with u' r H(3) show ?thesis by (simp add: sample_ok_def)
qed

section \<open>The invariant\<close>

text \<open>A byte of the ring is the logged one, or that with the overflow flag if a record was refused.\<close>

definition byte_ok :: "bool \<Rightarrow> u8 \<Rightarrow> u8 \<Rightarrow> bool" where
  "byte_ok r b l = (b = l \<or> r \<and> b = l OR 0x80)"

definition holds :: "uec_writer \<Rightarrow> nat \<Rightarrow> bool" where
  "holds wr p = (w_start wr \<le> p \<and> p < w_start wr + length (w_data wr))"

definition writer_ok :: "nat \<Rightarrow> nat \<Rightarrow> u8 list \<Rightarrow> uec_writer \<Rightarrow> bool" where
  "writer_ok n H log wr = (H \<le> w_start wr \<and> w_start wr + length (w_data wr) \<le> length log \<and>
     region_ok n (w_region wr) \<and> r_head (w_region wr) = w_start wr mod n \<and>
     r_tsize (w_region wr) = length (w_data wr) \<and> w_part0 wr \<noteq> [] \<and>
     take (length (w_data wr)) (drop (w_start wr) log) = w_data wr)"

definition data_ok :: "nat \<Rightarrow> uec_world \<Rightarrow> bool" where
  "data_ok T w = (\<exists>b. u_buffer (ring w) = Some b \<and> length b = u_hsize (ring w) \<and>
     (\<forall>p. T \<le> p \<and> p < length (logged w) \<and> (\<forall>wr \<in> set (writers w). holds wr p \<longrightarrow> w_copied wr) \<longrightarrow>
       byte_ok (refused w) (b ! (p mod length b)) (logged w ! p)) \<and>
     list_all2 (byte_ok (refused w)) (delivered w) (take (length (delivered w)) (logged w)))"

fun reader_ok :: "nat \<Rightarrow> nat \<Rightarrow> nat \<Rightarrow> uec_t \<Rightarrow> uec_reader \<Rightarrow> bool" where
  "reader_ok T O' H u No_Reader = (O' = T)"
| "reader_ok T O' H u (Sampled s len) = (O' = T \<and> 0 < len \<and> sample_ok (u_hsize u) s \<and> s_tail s = u_tail u \<and>
     sample_count s \<le> H - T \<and> (sample_count s = 0 \<longrightarrow> u_tail u = u_hsize u))"
| "reader_ok T O' H u (Spilled t) = (t \<le> u_hsize u \<and> t mod u_hsize u = O' mod u_hsize u \<and>
     (t = u_hsize u \<longrightarrow> T < O') \<and> (O' = T \<longrightarrow> u_tail u = u_hsize u))"

definition uec_inv :: "nat \<Rightarrow> nat \<Rightarrow> uec_world \<Rightarrow> bool" where
  "uec_inv T H w = (let u = ring w in ring_at T (length (logged w)) u \<and>
     T \<le> length (delivered w) \<and> length (delivered w) \<le> H \<and> H \<le> length (logged w) \<and>
     u_head u = H mod u_hsize u \<and> u_writer_count u = length (writers w) \<and>
     (writers w = [] \<longrightarrow> H = length (logged w)) \<and>
     (\<forall>wr \<in> set (writers w). writer_ok (u_hsize u) H (logged w) wr) \<and>
     sorted_wrt (\<lambda>a b. w_start a + length (w_data a) \<le> w_start b) (writers w) \<and>
     data_ok T w \<and> reader_ok T (length (delivered w)) H u (reader w))"

lemma byte_ok_refl [simp]: "byte_ok r b b"
  by (simp add: byte_ok_def)

lemma byte_ok_marked: "byte_ok r b l \<Longrightarrow> byte_ok True b l \<and> byte_ok True (b OR 0x80) l"
  by (auto simp: byte_ok_def or.assoc)

lemma reader_ok_cong:
  assumes "u_hsize u' = u_hsize u" "u_tail u' = u_tail u" "H \<le> H'" "reader_ok T O' H u r"
  shows "reader_ok T O' H' u' r"
  using assms by (cases r) auto

lemma step_reserve:
  assumes inv: "uec_inv T H w" and p0: "p0 \<noteq> []"
    and r: "uec_reserve (length p0 + length p1) (ring w) = Some (Inr c, u)" "\<not> (u_tail u = u_hsize u \<and> u_ahead u = 0)"
  shows "uec_inv T H (w\<lparr>ring := u, logged := logged w @ p0 @ p1, writers := writers w @
       [\<lparr>w_start = length (logged w), w_region = c, w_part0 = p0, w_part1 = p1, w_copied = False\<rparr>]\<rparr>)"
proof -
  let ?wr = "\<lparr>w_start = length (logged w), w_region = c, w_part0 = p0, w_part1 = p1, w_copied = False\<rparr>"
  note i = inv[unfolded uec_inv_def Let_def]
  have ra: "ring_at T (length (logged w)) (ring w)" using i by simp
  have "0 < length p0 + length p1" using p0 by simp
  note g = reserve_granted[OF ra r(1) this r(2)]
  have new: "writer_ok (u_hsize u) H (logged w @ p0 @ p1) ?wr"
    using g i p0 by (simp add: writer_ok_def w_data_def)
  have old: "writer_ok (u_hsize u) H (logged w @ p0 @ p1) x" if "x \<in> set (writers w)" for x
    using that i g by (auto simp: writer_ok_def)
  have "data_ok T (w\<lparr>ring := u, logged := logged w @ p0 @ p1, writers := writers w @ [?wr]\<rparr>)"
    using i g by (auto simp: data_ok_def holds_def w_data_def nth_append)
  moreover have "reader_ok T (length (delivered w)) H u (reader w)"
    by (rule reader_ok_cong[where u = "ring w" and H = H]) (use i g in auto)
  moreover have "sorted_wrt (\<lambda>a b. w_start a + length (w_data a) \<le> w_start b) (writers w @ [?wr])"
    using i by (auto simp: sorted_wrt_append writer_ok_def)
  ultimately show ?thesis using i g new old by (auto simp: uec_inv_def Let_def add.assoc)
qed

lemma step_refuse:
  assumes inv: "uec_inv T H w" and r: "uec_reserve ts (ring w) = Some (Inl e, u)" "ts \<le> u_hsize u"
  shows "uec_inv T H (w\<lparr>ring := u, refused := True\<rparr>)"
proof -
  note i = inv[unfolded uec_inv_def Let_def]
  have ra: "ring_at T (length (logged w)) (ring w)" using i by simp
  from reserve_refused[OF ra r] obtain b l where u: "u_buffer (ring w) = Some b"
    "u = (ring w)\<lparr>u_ovfl := True, u_buffer := Some (b[l := b ! l OR 0x80])\<rparr>" "ring_at T (length (logged w)) u" .
  have d: "byte_ok (refused w) (b ! (p mod length b)) (logged w ! p)"
      if "T \<le> p \<and> p < length (logged w) \<and> (\<forall>wr \<in> set (writers w). holds wr p \<longrightarrow> w_copied wr)" for p
    using i u(1) that by (auto simp: data_ok_def)
  have len: "length b = u_hsize (ring w)" using i u(1) by (auto simp: data_ok_def)
  have del: "list_all2 (byte_ok True) (delivered w) (take (length (delivered w)) (logged w))"
    using i byte_ok_marked by (auto simp: data_ok_def intro: list_all2_mono)
  have "byte_ok True (b[l := b ! l OR 0x80] ! (p mod length b)) (logged w ! p)"
      if "T \<le> p \<and> p < length (logged w) \<and> (\<forall>wr \<in> set (writers w). holds wr p \<longrightarrow> w_copied wr)" for p
  proof -
    have "p mod length b < length b" using len ring_atD(1)[OF ra] by simp
    with byte_ok_marked[OF d[OF that]] show ?thesis by (cases "l = p mod length b") simp_all
  qed
  then have "data_ok T (w\<lparr>ring := u, refused := True\<rparr>)" using u len del by (simp add: data_ok_def)
  moreover have "reader_ok T (length (delivered w)) H u (reader w)"
    by (rule reader_ok_cong[where u = "ring w" and H = H]) (use i u in auto)
  ultimately show ?thesis using i u by (simp add: uec_inv_def Let_def)
qed

lemma step_copy:
  assumes inv: "uec_inv T H w" and w: "writers w = A @ wr # B" "u_buffer (ring w) = Some b"
    and c: "uec_copy (w_region wr) (Some (w_part0 wr)) (length (w_part0 wr)) (opt_part (w_part1 wr)) (length (w_part1 wr)) b = Some b'"
  shows "uec_inv T H (w\<lparr>ring := (ring w)\<lparr>u_buffer := Some b'\<rparr>, writers := A @ wr\<lparr>w_copied := True\<rparr> # B\<rparr>)"
proof -
  note i = inv[unfolded uec_inv_def Let_def]
  have ra: "ring_at T (length (logged w)) (ring w)" using i by simp
  have len: "length b = u_hsize (ring w)" using i w(2) by (auto simp: data_ok_def)
  have wo: "writer_ok (length b) H (logged w) wr" using i w(1) len by simp
  have b': "b' = ring_write (w_start wr mod length b) (w_data wr) b"
    using c uec_copy_is_ring_write[of b "w_region wr" "w_part0 wr" "w_part1 wr"] wo
    by (simp add: writer_ok_def w_data_def opt_part_def)
  have in_ring: "T \<le> w_start wr" "w_start wr + length (w_data wr) \<le> T + length b"
    using wo i ring_atD(3)[OF ra] len by (auto simp: writer_ok_def)
  have "byte_ok (refused w) (b' ! (p mod length b)) (logged w ! p)"
    if p: "T \<le> p" "p < length (logged w)" "\<forall>x \<in> set (A @ wr\<lparr>w_copied := True\<rparr> # B). holds x p \<longrightarrow> w_copied x" for p
  proof (cases "holds wr p")
    case True
    have "p < T + length b" using True in_ring by (simp add: holds_def)
    have "b' ! (p mod length b) = w_data wr ! (p - w_start wr)"
      using True unfolding b' ring_write_at[OF p(1) \<open>p < T + length b\<close> in_ring] by (simp add: holds_def)
    also have "\<dots> = take (length (w_data wr)) (drop (w_start wr) (logged w)) ! (p - w_start wr)"
      using wo by (simp add: writer_ok_def)
    also have "\<dots> = logged w ! p" using True p(2) by (subst nth_take) (auto simp: holds_def)
    finally show ?thesis by simp
  next
    case False
    have "p < T + length b" using p(2) ring_atD(3)[OF ra] len by simp
    have "b' ! (p mod length b) = b ! (p mod length b)"
      using False unfolding b' ring_write_at[OF p(1) \<open>p < T + length b\<close> in_ring] by (auto simp: holds_def)
    moreover have "\<forall>x \<in> set (writers w). holds x p \<longrightarrow> w_copied x" using p(3) False w(1) by auto
    ultimately show ?thesis using i p w(2) by (auto simp: data_ok_def)
  qed
  then have "data_ok T (w\<lparr>ring := (ring w)\<lparr>u_buffer := Some b'\<rparr>, writers := A @ wr\<lparr>w_copied := True\<rparr> # B\<rparr>)"
    using i len b' by (auto simp: data_ok_def)
  moreover have "reader_ok T (length (delivered w)) H ((ring w)\<lparr>u_buffer := Some b'\<rparr>) (reader w)"
    by (rule reader_ok_cong[where u = "ring w" and H = H]) (use i in auto)
  moreover have "writer_ok n H log (wr\<lparr>w_copied := True\<rparr>) = writer_ok n H log wr" for n log
    by (simp add: writer_ok_def w_data_def)
  ultimately show ?thesis using i w(1)
    by (simp add: uec_inv_def Let_def ring_at_def sorted_wrt_append w_data_def)
qed

lemma step_commit:
  assumes inv: "uec_inv T H w" and w: "writers w = A @ wr # B" "w_copied wr"
  shows "\<exists>H'. uec_inv T H' (w\<lparr>ring := uec_commit (w_region wr) (ring w), writers := A @ B\<rparr>)"
proof -
  note i = inv[unfolded uec_inv_def Let_def]
  let ?H = "if A @ B = [] then length (logged w) else H"
  let ?u = "uec_commit (w_region wr) (ring w)"
  have ra: "ring_at T (length (logged w)) (ring w)" using i by simp
  have same: "u_hsize ?u = u_hsize (ring w)" "u_tsize ?u = u_tsize (ring w)" "u_tail ?u = u_tail (ring w)"
    "u_ahead ?u = u_ahead (ring w)" "u_ovfl ?u = u_ovfl (ring w)" "u_buffer ?u = u_buffer (ring w)"
    by (simp_all add: uec_commit_def Let_def)
  have n: "u_writer_count (ring w) = length (A @ B) + 1" using i w(1) by simp
  then have head: "u_head ?u = ?H mod u_hsize (ring w)" "u_writer_count ?u = length (A @ B)"
    using i ring_atD(7)[OF ra] by (auto simp: uec_commit_def Let_def)
  have "data_ok T (w\<lparr>ring := ?u, writers := A @ B\<rparr>)"
    using i w same by (auto simp: data_ok_def)
  moreover have "reader_ok T (length (delivered w)) ?H ?u (reader w)"
    by (rule reader_ok_cong[where u = "ring w" and H = H]) (use i same in auto)
  moreover have "ring_at T (length (logged w)) ?u" using ra same by (simp add: ring_at_def)
  moreover have "\<forall>x \<in> set (A @ B). writer_ok (u_hsize (ring w)) ?H (logged w) x" using i w(1) by auto
  moreover have "sorted_wrt (\<lambda>a b. w_start a + length (w_data a) \<le> w_start b) (A @ B)"
    using i w(1) by (simp add: sorted_wrt_append)
  ultimately have "uec_inv T ?H (w\<lparr>ring := ?u, writers := A @ B\<rparr>)"
    using i head same by (auto simp: uec_inv_def Let_def)
  then show ?thesis by blast
qed

lemma step_sample:
  assumes inv: "uec_inv T H w" and r: "reader w = No_Reader" "0 < len" "pull_sample (ring w) = (Inr s, u)"
    "\<not> (writers w \<noteq> [] \<and> u_head u = u_tail u)"
  shows "uec_inv T H (w\<lparr>ring := u, reader := Sampled s len\<rparr>)"
proof -
  note i = inv[unfolded uec_inv_def Let_def]
  have ra: "ring_at T (length (logged w)) (ring w)" using i by simp
  have O': "length (delivered w) = T" using i r(1) by simp
  have "u_head u = u_head (ring w) \<and> u_tail u = u_tail (ring w)"
    using r(3) by (auto simp: pull_sample_def Let_def split: if_splits)
  then have q: "H = length (logged w)" if "u_head (ring w) = u_tail (ring w)" using i r(4) that by auto
  have TH: "T \<le> H" "H \<le> length (logged w)" "u_head (ring w) = H mod u_hsize (ring w)" using i O' by auto
  note t = sample_taken[OF ra TH r(3) q]
  have "data_ok T (w\<lparr>ring := u, reader := Sampled s len\<rparr>)" using i t by (simp add: data_ok_def)
  moreover have u: "u = (ring w)\<lparr>u_spill_active := True\<rparr>" using t by blast
  moreover have "ring_at T (length (logged w)) u" using ra unfolding u by (simp add: ring_at_def)
  moreover have "reader_ok T (length (delivered w)) H u (Sampled s len)"
    using t r(2) O' TH(1) unfolding u by auto
  ultimately show ?thesis using i by (simp add: uec_inv_def Let_def)
qed

lemma step_spill:
  assumes inv: "uec_inv T H w" and r: "reader w = Sampled s len" "u_buffer (ring w) = Some b" "pull_copy s len b = Some (d, tail)"
  shows "uec_inv T H (w\<lparr>reader := Spilled tail, delivered := delivered w @ d\<rparr>)"
proof -
  note i = inv[unfolded uec_inv_def Let_def]
  have ra: "ring_at T (length (logged w)) (ring w)" using i by simp
  have len: "length b = u_hsize (ring w)" using i r(2) by (auto simp: data_ok_def)
  have s: "sample_ok (length b) s" "0 < len" "length (delivered w) = T" "s_tail s = u_tail (ring w)"
    "sample_count s \<le> H - T" "sample_count s = 0 \<longrightarrow> u_tail (ring w) = u_hsize (ring w)"
    using i r(1) len by auto
  have TH: "T \<le> H" "H \<le> length (logged w)" using i by auto
  let ?m = "min len (sample_count s)"
  have tm: "s_tail s mod length b = T mod length b" using ring_atD(6)[OF ra] s(4) len by simp
  have "b \<noteq> []" using len ring_atD(1)[OF ra] by auto
  with pull_copy_is_ring_read[OF s(1,2)] r(3) have d: "d = ring_read (s_tail s) ?m b" "tail \<le> length b"
    "tail mod length b = (s_tail s + ?m) mod length b" "tail = length b \<longrightarrow> 0 < ?m" by auto
  have m: "T + ?m \<le> H" using s(5) TH by simp
  have byte: "byte_ok (refused w) (d ! k) (logged w ! (T + k))" if "k < ?m" for k
  proof -
    have "d ! k = b ! ((T + k) mod length b)" unfolding d(1) by (rule ring_read_at[OF tm that])
    moreover have "T + k < H" using m that by linarith
    then have "\<forall>wr \<in> set (writers w). \<not> holds wr (T + k)" using i by (fastforce simp: holds_def writer_ok_def)
    ultimately show ?thesis using i r(2) \<open>T + k < H\<close> TH(2) by (auto simp: data_ok_def)
  qed
  have split: "take (T + ?m) (logged w) = take T (logged w) @ take ?m (drop T (logged w))" by (rule take_add)
  have "list_all2 (byte_ok (refused w)) d (take ?m (drop T (logged w)))"
    using byte m TH d(1) by (auto simp: list_all2_conv_all_nth)
  then have "list_all2 (byte_ok (refused w)) (delivered w @ d) (take (T + ?m) (logged w))"
    unfolding split using i s(3) by (intro list_all2_appendI) (auto simp: data_ok_def)
  then have "data_ok T (w\<lparr>reader := Spilled tail, delivered := delivered w @ d\<rparr>)"
    using i s(3) d(1) by (auto simp: data_ok_def)
  moreover have "tail mod length b = (T + ?m) mod length b" using d(3) mod_add_cong[OF tm refl] by simp
  ultimately show ?thesis using i s d m len by (auto simp: uec_inv_def Let_def)
qed

lemma step_finish:
  assumes inv: "uec_inv T H w" and r: "reader w = Spilled tail"
  shows "uec_inv (length (delivered w)) H (w\<lparr>ring := pull_finish tail (ring w), reader := No_Reader\<rparr>)"
proof -
  note i = inv[unfolded uec_inv_def Let_def]
  have ra: "ring_at T (length (logged w)) (ring w)" using i by simp
  let ?O = "length (delivered w)"
  have o: "T \<le> ?O" "?O \<le> H" "H \<le> length (logged w)" "tail \<le> u_hsize (ring w)" "tail mod u_hsize (ring w) = ?O mod u_hsize (ring w)"
    "tail = u_hsize (ring w) \<longrightarrow> T < ?O" "?O = T \<longrightarrow> u_tail (ring w) = u_hsize (ring w)"
    using i r by auto
  note rd = ring_atD[OF ra]
  have "length (logged w) < ?O + u_hsize (ring w)"
    using o(1,7) rd(3,8) by (cases "?O = T") auto
  then have "ring_at ?O (length (logged w)) (pull_finish tail (ring w))"
    using o rd by (simp add: ring_at_def pull_finish_def Let_def)
  moreover have "data_ok ?O (w\<lparr>ring := pull_finish tail (ring w), reader := No_Reader\<rparr>)"
    using i o(1) by (auto simp: data_ok_def pull_finish_def)
  ultimately show ?thesis using i by (simp add: uec_inv_def Let_def pull_finish_def)
qed

lemma uec_step_inv: "uec_step w w' \<Longrightarrow> \<exists>T H. uec_inv T H w \<Longrightarrow> \<exists>T H. uec_inv T H w'"
  by (induction rule: uec_step.induct)
    (blast dest: step_reserve step_refuse step_copy step_commit step_sample step_spill step_finish)+

section \<open>The channel\<close>

text \<open>What a reader would find if no writer were under way.\<close>

definition pending_count :: "uec_t \<Rightarrow> nat" where
  "pending_count u = (if u_head u > u_tail u then u_head u - u_tail u
     else if u_head u < u_tail u then u_hsize u - u_tail u + u_head u
     else if u_ovfl u then u_hsize u else 0)"

definition uec_pending :: "uec_t \<Rightarrow> u8 list" where
  "uec_pending u = ring_read (u_tail u) (pending_count u) (case u_buffer u of Some b \<Rightarrow> b | None \<Rightarrow> [])"

definition idle_world :: "uec_t \<Rightarrow> u8 list \<Rightarrow> u8 list \<Rightarrow> uec_world" where
  "idle_world u out log = \<lparr>ring = u, writers = [], reader = No_Reader, delivered = out, logged = log, refused = False\<rparr>"

lemma count_arith:
  fixes t h n R T :: nat
  assumes "t < h \<and> R = T + (h - t) \<or> h < t \<and> R = T + (n - t + h) \<or> h = t \<and> R = T \<or> h = t \<and> R = T + n"
    "R = T + n \<longrightarrow> ov" "R = T \<longrightarrow> \<not> ov"
  shows "(if h > t then h - t else if h < t then n - t + h else if ov then n else 0) = R - T"
  using assms by (elim disjE conjE) simp_all

lemma quiescent_count:
  assumes ra: "ring_at T R u" and h: "u_head u = R mod u_hsize u"
  shows "pending_count u = R - T"
  using ra ring_atD(2)[OF ra] order_refl
proof (rule ring_at_distance)
  assume "u_tail u = u_hsize u" "R mod u_hsize u < u_hsize u" "R = T + R mod u_hsize u"
  then show ?thesis using h by (simp add: pending_count_def)
next
  assume a: "u_tail u < u_hsize u" "R mod u_hsize u < u_hsize u"
    "u_tail u < R mod u_hsize u \<and> R = T + (R mod u_hsize u - u_tail u) \<or>
     R mod u_hsize u < u_tail u \<and> R = T + (u_hsize u - u_tail u + R mod u_hsize u) \<or>
     R mod u_hsize u = u_tail u \<and> R = T \<or> R mod u_hsize u = u_tail u \<and> R = T + u_hsize u"
  show ?thesis unfolding pending_count_def h
    by (rule count_arith[OF a(3)]) (use ring_atD(9,10)[OF ra] in auto)
qed

lemma quiescent_pending:
  assumes inv: "uec_inv T H w" and w: "writers w = []" "reader w = No_Reader"
  shows "list_all2 (byte_ok (refused w)) (delivered w @ uec_pending (ring w)) (logged w)"
proof -
  note i = inv[unfolded uec_inv_def Let_def]
  have ra: "ring_at T (length (logged w)) (ring w)" using i by simp
  have T: "length (delivered w) = T" "T \<le> length (logged w)" "u_head (ring w) = length (logged w) mod u_hsize (ring w)"
    using i w by auto
  have "data_ok T w" using i by simp
  then obtain b where b: "u_buffer (ring w) = Some b" "length b = u_hsize (ring w)"
    "\<And>p. T \<le> p \<Longrightarrow> p < length (logged w) \<Longrightarrow> byte_ok (refused w) (b ! (p mod length b)) (logged w ! p)"
    "list_all2 (byte_ok (refused w)) (delivered w) (take T (logged w))"
    unfolding data_ok_def w(1) T(1) by auto
  have pend: "uec_pending (ring w) = ring_read (u_tail (ring w)) (length (logged w) - T) b"
    using quiescent_count[OF ra T(3)] b(1) by (simp add: uec_pending_def)
  have tm: "u_tail (ring w) mod length b = T mod length b" using ring_atD(6)[OF ra] b(2) by simp
  have "byte_ok (refused w) (uec_pending (ring w) ! k) (logged w ! (T + k))" if k: "k < length (logged w) - T" for k
    unfolding pend ring_read_at[OF tm k] by (rule b(3)) (use k in linarith)+
  then have "list_all2 (byte_ok (refused w)) (uec_pending (ring w)) (drop T (logged w))"
    by (intro list_all2_all_nthI) (simp_all add: pend[THEN arg_cong, of length, simplified])
  from list_all2_appendI[OF b(4) this] T show ?thesis by simp
qed

lemma byte_ok_False [simp]: "list_all2 (byte_ok False) xs ys = (xs = ys)"
proof -
  have "byte_ok False = (=)" by (simp add: fun_eq_iff byte_ok_def)
  then show ?thesis by (simp add: list.rel_eq)
qed

lemma idle_world_eq: "w = idle_world u out log \<longleftrightarrow> ring w = u \<and> writers w = [] \<and> reader w = No_Reader \<and>
    delivered w = out \<and> logged w = log \<and> refused w = False"
  by (cases w) (auto simp: idle_world_def)

definition uec_ok :: "uec_t \<Rightarrow> bool" where
  "uec_ok u = (\<exists>T H out log. uec_inv T H (idle_world u out log))"

text \<open>A record that was stored; a read that returned bytes.\<close>

definition uec_put :: "u8 list \<times> u8 list \<Rightarrow> uec_t \<Rightarrow> uec_t option" where
  "uec_put r u = do { (st, u) \<leftarrow> put_record_async (Some (fst r)) (length (fst r)) (opt_part (snd r)) (length (snd r)) u;
     if st = VTSS_SUCCESS \<and> \<not> (u_tail u = u_hsize u \<and> u_ahead u = 0) then Some u else None }"

definition uec_get :: "nat \<Rightarrow> uec_t \<Rightarrow> (u8 list \<times> uec_t) option" where
  "uec_get len u = do { (r, u) \<leftarrow> pull_uec False False len u; case r of Pulled d \<Rightarrow> Some (d, u) | _ \<Rightarrow> None }"

lemma reserve_Inl: "uec_reserve ts u = Some (Inl e, u') \<Longrightarrow> e \<noteq> VTSS_SUCCESS"
  by (auto simp: uec_reserve_def Let_def bind_eq_Some_conv split: if_splits)

lemma put_successE:
  assumes "put_record_async (Some p0) n0 p1 n1 u = Some (VTSS_SUCCESS, u')"
  obtains c u1 b1 b2 where "n0 \<noteq> 0" "uec_reserve (n0 + n1) u = Some (Inr c, u1)" "u_buffer u1 = Some b1"
    "uec_copy c (Some p0) n0 p1 n1 b1 = Some b2" "u' = uec_commit c (u1\<lparr>u_buffer := Some b2\<rparr>)"
proof -
  from assms have n0: "n0 \<noteq> 0" by (auto simp: put_record_async_def split: if_splits)
  from assms obtain r u1 where r: "uec_reserve (n0 + n1) u = Some (r, u1)"
    and rest: "(case r of Inl e \<Rightarrow> Some (e, u1) | Inr c \<Rightarrow> do { b \<leftarrow> u_buffer u1; b \<leftarrow> uec_copy c (Some p0) n0 p1 n1 b;
            Some (VTSS_SUCCESS, uec_commit c (u1\<lparr>u_buffer := Some b\<rparr>)) }) = Some (VTSS_SUCCESS, u')"
    by (auto simp: put_record_async_def bind_eq_Some_conv split: if_splits)
  show thesis
  proof (cases r)
    case (Inl e) with reserve_Inl r rest show thesis by auto
  next
    case (Inr c) with rest r n0 show thesis by (auto simp: bind_eq_Some_conv intro: that)
  qed
qed

lemma uec_put_world:
  assumes inv: "uec_inv T H (idle_world u out log)" and put: "uec_put (p0, p1) u = Some u'"
  shows "\<exists>H. uec_inv T H (idle_world u' out (log @ p0 @ p1))"
proof -
  from put have s: "put_record_async (Some p0) (length p0) (opt_part p1) (length p1) u = Some (VTSS_SUCCESS, u')"
    "\<not> (u_tail u' = u_hsize u' \<and> u_ahead u' = 0)" by (auto simp: uec_put_def bind_eq_Some_conv split: if_splits)
  from put_successE[OF s(1)] obtain c u1 b1 b2 where r0: "length p0 \<noteq> 0" and
    r: "uec_reserve (length p0 + length p1) u = Some (Inr c, u1)" "u_buffer u1 = Some b1"
    "uec_copy c (Some p0) (length p0) (opt_part p1) (length p1) b1 = Some b2"
    "u' = uec_commit c (u1\<lparr>u_buffer := Some b2\<rparr>)" by blast
  have p0: "p0 \<noteq> []" using r0 by simp
  have e: "\<not> (u_tail u1 = u_hsize u1 \<and> u_ahead u1 = 0)" using r(4) s(2) by (auto simp: uec_commit_def Let_def split: if_splits)
  let ?wr = "\<lparr>w_start = length log, w_region = c, w_part0 = p0, w_part1 = p1, w_copied = False\<rparr>"
  let ?w1 = "\<lparr>ring = u1, writers = [?wr], reader = No_Reader, delivered = out, logged = log @ p0 @ p1, refused = False\<rparr>"
  let ?w2 = "?w1\<lparr>ring := u1\<lparr>u_buffer := Some b2\<rparr>, writers := [?wr\<lparr>w_copied := True\<rparr>]\<rparr>"
  have "uec_inv T H ?w1" using step_reserve[OF inv p0, of p1 c u1] r(1) e by (simp add: idle_world_def)
  from step_copy[OF this, of "[]" ?wr "[]" b1 b2] r(2,3) have "uec_inv T H ?w2" by simp
  from step_commit[OF this, of "[]" "?wr\<lparr>w_copied := True\<rparr>" "[]"] r(4) show ?thesis by (simp add: idle_world_def)
qed

lemma uec_get_world:
  assumes inv: "uec_inv T H (idle_world u out log)" and get: "uec_get len u = Some (d, u')"
  shows "\<exists>T H. uec_inv T H (idle_world u' (out @ d) log)"
proof -
  from get have len: "0 < len" by (auto simp: uec_get_def pull_uec_def bind_eq_Some_conv split: if_splits)
  consider "pull_sample u = (Inl VTSS_SUCCESS, u')" "d = []"
    | s u1 b tail where "pull_sample u = (Inr s, u1)" "u_buffer u1 = Some b" "pull_copy s len b = Some (d, tail)"
      "u' = pull_finish tail u1"
    using get by (auto simp: uec_get_def pull_uec_def bind_eq_Some_conv split: if_splits sum.splits prod.splits)
  then show ?thesis
  proof cases
    case 1
    then have "u' = u" by (auto simp: pull_sample_def Let_def split: if_splits)
    with 1 inv show ?thesis by auto
  next
    case 2
    let ?w1 = "(idle_world u out log)\<lparr>ring := u1, reader := Sampled s len\<rparr>"
    have "uec_inv T H ?w1" by (rule step_sample[OF inv]) (use 2 len in \<open>simp_all add: idle_world_def\<close>)
    from step_spill[OF this, of s len b d tail] 2 have
      "uec_inv T H (?w1\<lparr>reader := Spilled tail, delivered := out @ d\<rparr>)" by (simp add: idle_world_def)
    from step_finish[OF this, of tail] 2(4) show ?thesis by (auto simp: idle_world_def)
  qed
qed

lemma idle_pending: "uec_inv T H (idle_world u out log) \<Longrightarrow> log = out @ uec_pending u"
  using quiescent_pending[of T H "idle_world u out log"] by (simp add: idle_world_def)

interpretation uecq: fifo uec_ok uec_pending "\<lambda>r. fst r @ snd r" uec_put uec_get
proof (unfold_locales, goal_cases)
  case (1 u r u')
  then obtain T H out log where w: "uec_inv T H (idle_world u out log)" by (auto simp: uec_ok_def)
  from uec_put_world[OF w, of "fst r" "snd r"] 1(2) obtain H' where
    w': "uec_inv T H' (idle_world u' out (log @ fst r @ snd r))" by auto
  from idle_pending[OF w] idle_pending[OF w'] w' show ?case by (auto simp: uec_ok_def)
next
  case (2 u len d u')
  then obtain T H out log where w: "uec_inv T H (idle_world u out log)" by (auto simp: uec_ok_def)
  from uec_get_world[OF w 2(2)] obtain T' H' where w': "uec_inv T' H' (idle_world u' (out @ d) log)" by blast
  from idle_pending[OF w] idle_pending[OF w'] w' show ?case by (auto simp: uec_ok_def)
qed

section \<open>Properties\<close>

lemma init_inv:
  assumes "init_uec order_of pages page_size n0 u = (VTSS_SUCCESS, u0)"
    "\<forall>b. pages (order_of n0) = Some b \<longrightarrow> length b = page_size * 2 ^ order_of n0" "0 < page_size"
  shows "uec_inv 0 0 (idle_world u0 [] [])"
proof -
  from assms(1) obtain b where b: "pages (order_of n0) = Some b"
    "u0 = u\<lparr>u_put_stub := False, u_buffer := Some b, u_last_rec_ptr := 0, u_head := 0, u_ahead := 0,
       u_tail := 0, u_atail := 0, u_hsize := page_size * 2 ^ order_of n0, u_tsize := page_size * 2 ^ order_of n0,
       u_ovfl := False, u_spill_active := False, u_writer_count := 0, u_reader_count := 0\<rparr>"
    by (auto simp: init_uec_def Let_def split: if_splits option.splits)
  have "0 < page_size * 2 ^ order_of n0" using assms(3) by simp
  then show ?thesis using assms(2) b
    by (simp add: uec_inv_def idle_world_def ring_at_def Let_def data_ok_def)
qed

text \<open>
  C9: the ring of uec.c is a channel under any interleaving. From a successful initialisation, let
  any number of writers reserve, copy and commit, be refused for lack of room, and let a reader take
  data with requests of any size, in any order of these steps (the three excluded situations aside).
  The bytes delivered are, in the order of the reservations, those of the records: nothing is
  missing, repeated or read before it was written. Only the overflow bit may have been added to a
  byte, and only if a record was refused. When no writer and no reader is under way, the bytes
  delivered and the bytes pending are together all the records.
\<close>

theorem uec_channel:
  assumes "init_uec order_of pages page_size n0 u = (VTSS_SUCCESS, u0)"
    "\<forall>b. pages (order_of n0) = Some b \<longrightarrow> length b = page_size * 2 ^ order_of n0" "0 < page_size"
    and "uec_step\<^sup>*\<^sup>* (idle_world u0 [] []) w"
  shows "length (delivered w) \<le> length (logged w) \<and>
    list_all2 (byte_ok (refused w)) (delivered w) (take (length (delivered w)) (logged w)) \<and>
    (writers w = [] \<and> reader w = No_Reader \<longrightarrow>
       list_all2 (byte_ok (refused w)) (delivered w @ uec_pending (ring w)) (logged w))"
proof -
  have "\<exists>T H. uec_inv T H w" using assms(4)
  proof (induction rule: rtranclp_induct)
    case base show ?case using init_inv[OF assms(1-3)] by blast
  next
    case (step w w') then show ?case using uec_step_inv by blast
  qed
  then obtain T H where i: "uec_inv T H w" by blast
  then have "length (delivered w) \<le> H" "H \<le> length (logged w)" "data_ok T w" by (simp_all add: uec_inv_def Let_def)
  with quiescent_pending[OF i] show ?thesis by (auto simp: data_ok_def)
qed

text \<open>
  Stored records come out in order. Run any sequence of calls of \<open>put_record_async\<close> that store a
  record and of \<open>pull_uec\<close>, whole calls one after the other with requests of any length, on a ring in
  a state that such calls lead to. The bytes handed out, followed by the bytes pending, are what was
  pending at first followed by the records (the fill up to a physical end behind which \<open>tail\<close> stands
  excepted).
\<close>

theorem uec_in_order:
  assumes "uec_ok u" "run_fifo uec_put uec_get ops u = Some (out, u')"
  shows "uec_pending u @ fifo_input (\<lambda>r. fst r @ snd r) ops = out @ uec_pending u'"
  using uecq.run_order[OF assms] by simp

section \<open>What the exclusions hide\<close>

text \<open>
  C39: a reader can make the ring lose a whole buffer. A read that ends at the physical end of the buffer
  leaves \<open>tail\<close> one past it. If then nothing is pending, a record of exactly the size of the ring is
  accepted; but \<open>head\<close> wraps to the start, which is not \<open>tail\<close>, so the overflow mark is not set,
  and every read finds nothing: the record is lost.
\<close>

theorem uec_loses_a_full_ring:
  assumes "u_buffer u = Some b" "length b = n" "u_hsize u = n" "u_tsize u = n" "u_tail u = n" "u_ahead u = 0"
    "\<not> u_ovfl u" "\<not> u_spill_active u" "u_writer_count u = 0" "length p = n" "0 < n" "0 < len"
  shows "\<exists>u' u''. put_record_async (Some p) n None 0 u = Some (VTSS_SUCCESS, u') \<and> u_buffer u' = Some p \<and>
    pull_uec False False len u' = Some (Pulled [], u'') \<and> pull_uec False False len u'' = Some (Pulled [], u'')"
  using assms
  by (simp add: put_record_async_def uec_reserve_def uec_copy_def copy_part_def read_bytes_def write_bytes_def Let_def
      uec_commit_def pull_uec_def pull_sample_def pull_copy_def pull_finish_def)

text \<open>
  A record larger than the ring, offered when nothing is pending, sets the overflow mark of an empty
  ring; the next read takes the ring for full and hands out its old contents.
\<close>

lemma uec_replays_old_contents:
  assumes "u_buffer u = Some b" "length b = n" "u_hsize u = n" "u_tsize u = n" "u_tail u = t" "u_ahead u = t" "u_head u = t"
    "\<not> u_ovfl u" "\<not> u_spill_active u" "length p = n0" "n < n0" "t < n" "u_last_rec_ptr u + 4 \<le> n" "0 < len"
  shows "\<exists>u' b' tail u''. put_record_async (Some p) n0 None 0 u = Some (VTSS_ERR_NOMEMORY, u') \<and> u_buffer u' = Some b' \<and>
    length b' = n \<and> pull_uec False False len u' = Some (Pulled (ring_read t (min len n) b'), u'')"
proof -
  have "mark_overflow (u\<lparr>u_ovfl := True\<rparr>) \<noteq> None"
    using assms by (simp add: mark_overflow_def read_bytes_def write_bytes_def)
  then obtain u1 where m: "mark_overflow (u\<lparr>u_ovfl := True\<rparr>) = Some u1" by blast
  from mark_overflowE[OF m] obtain b0 l where u1: "u_buffer (u\<lparr>u_ovfl := True\<rparr>) = Some b0"
    "u1 = u\<lparr>u_ovfl := True, u_buffer := Some (b0[l := b0 ! l OR 0x80])\<rparr>" by metis
  define b' where "b' = b0[l := b0 ! l OR 0x80]"
  have b': "length b' = n" "mark_overflow (u\<lparr>u_ovfl := True\<rparr>) = Some (u\<lparr>u_ovfl := True, u_buffer := Some b'\<rparr>)"
    using m u1 assms(1,2) by (simp_all add: b'_def)
  let ?u = "u\<lparr>u_ovfl := True, u_buffer := Some b'\<rparr>" and ?s = "\<lparr>s_head = t, s_tail = t, s_size = n, s_ovfl = True\<rparr>"
  have "put_record_async (Some p) n0 None 0 u = Some (VTSS_ERR_NOMEMORY, ?u)"
    using assms b' by (simp add: put_record_async_def uec_reserve_def Let_def)
  note refused = this
  have "sample_ok (length b') ?s" "sample_count ?s = n" using assms b'(1) by (simp_all add: sample_ok_def sample_count_def)
  moreover have "b' \<noteq> []" using b'(1) assms(12) by auto
  ultimately obtain tail where "pull_copy ?s len b' = Some (ring_read t (min len n) b', tail)"
    using pull_copy_is_ring_read[of b' ?s len] assms(12,14) b'(1) by auto
  then show ?thesis using refused assms b'(1) by (simp add: pull_uec_def pull_sample_def Let_def)
qed

text \<open>A reader that arrives while a record that fills the whole ring is reserved takes bytes not yet written.\<close>

lemma uec_reads_before_write:
  assumes "u_buffer u = Some b" "length b = n" "u_hsize u = n" "u_tsize u = n" "u_tail u = 0" "u_ahead u = 0" "u_head u = 0"
    "\<not> u_ovfl u" "\<not> u_spill_active u" "0 < n"
  shows "\<exists>c u' s u''. uec_reserve n u = Some (Inr c, u') \<and> pull_sample u' = (Inr s, u'') \<and> pull_copy s n b = Some (b, n)"
  using assms by (simp add: uec_reserve_def Let_def pull_sample_def pull_copy_def read_bytes_def)

section \<open>At concrete rings\<close>

definition blank_uec :: uec_t where
  "blank_uec = \<lparr>u_put_stub = True, u_buffer = None, u_head = 0, u_tail = 0, u_ahead = 0, u_atail = 0, u_tsize = 0,
     u_hsize = 0, u_ovfl = False, u_last_rec_ptr = 0, u_spill_active = False, u_writer_count = 0, u_reader_count = 0\<rparr>"

text \<open>A ring of four bytes: two pages of two bytes.\<close>

definition demo_ring :: uec_t where
  "demo_ring = snd (init_uec (\<lambda>_. 1) (\<lambda>_. Some [0, 0, 0, 0]) 2 4 blank_uec)"

lemma demo_ring_init: "init_uec (\<lambda>_. 1) (\<lambda>_. Some [0, 0, 0, 0]) 2 4 blank_uec = (VTSS_SUCCESS, demo_ring)"
  by (simp add: demo_ring_def init_uec_def Let_def)

lemmas uec_eval = init_uec_def blank_uec_def put_record_async_def uec_reserve_def uec_copy_def copy_part_def
  read_bytes_def write_bytes_def uec_commit_def pull_uec_def pull_sample_def pull_copy_def pull_finish_def opt_part_def Let_def

lemma demo_ring_ok: "uec_ok demo_ring"
  unfolding uec_ok_def using init_inv[OF demo_ring_init] by (simp; blast)

lemma demo_ring_run: "\<exists>u'. run_fifo uec_put uec_get [Put ([1, 2], [3]), Get 2, Put ([4], [5, 6]), Get 9] demo_ring =
    Some ([1, 2, 3, 4, 5, 6], u')"
  by (simp add: uec_put_def uec_get_def demo_ring_def uec_eval)

theorem uec_in_order_witness:
  "\<exists>u'. run_fifo uec_put uec_get [Put ([1, 2], [3]), Get 2, Put ([4], [5, 6]), Get 9] demo_ring = Some ([1, 2, 3, 4, 5, 6], u') \<and>
    uec_pending demo_ring @ [1, 2, 3, 4, 5, 6] = [1, 2, 3, 4, 5, 6] @ uec_pending u'"
proof -
  from demo_ring_run obtain u' where
    u': "run_fifo uec_put uec_get [Put ([1, 2], [3]), Get 2, Put ([4], [5, 6]), Get 9] demo_ring = Some ([1, 2, 3, 4, 5, 6], u')"
    by blast
  with uec_in_order[OF demo_ring_ok u'] show ?thesis by simp
qed

theorem uec_channel_witness:
  "\<exists>w. uec_step\<^sup>*\<^sup>* (idle_world demo_ring [] []) w \<and> logged w = [1, 2, 3] \<and> delivered w = [] \<and>
    length (delivered w) \<le> length (logged w)"
proof -
  obtain c u where r: "uec_reserve (length [1, 2 :: u8] + length [3 :: u8]) demo_ring = Some (Inr c, u)"
    "u_tail u = 0" "u_hsize u = 4"
    by (simp add: demo_ring_def uec_eval)
  let ?w = "(idle_world demo_ring [] [])\<lparr>ring := u, logged := [] @ [1, 2] @ [3], writers := [] @
       [\<lparr>w_start = length ([] :: u8 list), w_region = c, w_part0 = [1, 2], w_part1 = [3], w_copied = False\<rparr>]\<rparr>"
  have "uec_step (idle_world demo_ring [] []) ?w"
    using reserve[of "[1, 2]" "[3]" "idle_world demo_ring [] []" c u] r by (simp add: idle_world_def)
  then have s: "uec_step\<^sup>*\<^sup>* (idle_world demo_ring [] []) ?w" by (rule r_into_rtranclp)
  from uec_channel[OF demo_ring_init _ _ s] have "length (delivered ?w) \<le> length (logged ?w)" by simp
  with s show ?thesis by (intro exI[of _ ?w]) (simp add: idle_world_def)
qed

theorem uec_loses_a_full_ring_witness:
  "\<exists>u1 u2 u3. put_record_async (Some [1, 2, 3, 4]) 4 None 0 demo_ring = Some (VTSS_SUCCESS, u1) \<and>
    pull_uec False False 4 u1 = Some (Pulled [1, 2, 3, 4], u2) \<and>
    put_record_async (Some [5, 6, 7, 8]) 4 None 0 u2 = Some (VTSS_SUCCESS, u3) \<and>
    map_option fst (pull_uec False False 4 u3) = Some (Pulled [])"
proof -
  obtain u1 u2 where u: "put_record_async (Some [1, 2, 3, 4]) 4 None 0 demo_ring = Some (VTSS_SUCCESS, u1)"
    "pull_uec False False 4 u1 = Some (Pulled [1, 2, 3, 4], u2)"
    and s: "u_buffer u2 = Some [1, 2, 3, 4]" "u_hsize u2 = 4" "u_tsize u2 = 4" "u_tail u2 = 4" "u_ahead u2 = 0"
      "\<not> u_ovfl u2" "\<not> u_spill_active u2" "u_writer_count u2 = 0"
    by (simp add: demo_ring_def uec_eval)
  from uec_loses_a_full_ring[OF s(1) _ s(2-8), of "[5, 6, 7, 8]" 4] obtain u3 u4 where
    "put_record_async (Some [5, 6, 7, 8]) 4 None 0 u2 = Some (VTSS_SUCCESS, u3)"
    "pull_uec False False 4 u3 = Some (Pulled [], u4)" by auto
  with u show ?thesis by auto
qed

end
