(* ===== verification/TaskMap.thy ===== *)
theory TaskMap
  imports Prelude
begin

text \<open>
  The reference-counted table of traced tasks, vtsspp/task_map.c, and the one function of collector.c that
  takes an item out of it. A pointer to an item is its address; a freed item is absent from the store, and
  an access to it is a fault. A bucket's \<open>hlist\<close> is the list of the addresses on it. \<open>jhash_1word\<close>
  is the parameter \<open>jhash\<close>. An acquisition of a lock that is held does not return and is \<open>None\<close>, too.
  The client's part of an item and the debug output are left out; \<open>dtor_calls\<close> records the items whose
  destructor was called.
\<close>

section \<open>State\<close>

record tm_item =
  i_key :: u32
  i_usage :: int
  i_in_list :: bool
  i_dtor :: bool

record tm_state =
  tm_items :: "nat \<Rightarrow> tm_item option"
  tm_table :: "nat \<Rightarrow> nat list"
  tm_initialized :: bool
  tm_locked :: bool
  dtor_calls :: "nat list"

definition HASH_TABLE_SIZE :: nat where
  "HASH_TABLE_SIZE = 1024"

definition vtss_task_map_hash :: "(u32 \<Rightarrow> u32) \<Rightarrow> u32 \<Rightarrow> nat" where
  "vtss_task_map_hash jhash key = unat (jhash key AND of_nat (HASH_TABLE_SIZE - 1))"

definition write_lock :: "tm_state \<Rightarrow> tm_state option" where
  "write_lock s = (if tm_locked s then None else Some (s\<lparr>tm_locked := True\<rparr>))"

definition write_unlock :: "tm_state \<Rightarrow> tm_state" where
  "write_unlock s = s\<lparr>tm_locked := False\<rparr>"

definition set_item :: "nat \<Rightarrow> tm_item \<Rightarrow> tm_state \<Rightarrow> tm_state" where
  "set_item a it s = s\<lparr>tm_items := (tm_items s)(a := Some it)\<rparr>"

text \<open>\<open>hlist_del_init\<close>: the node leaves whatever list it is on.\<close>

definition hlist_del_init :: "nat \<Rightarrow> tm_state \<Rightarrow> tm_state" where
  "hlist_del_init a s = s\<lparr>tm_table := \<lambda>i. removeAll a (tm_table s i)\<rparr>"

definition atomic_dec_and_test :: "nat \<Rightarrow> tm_state \<Rightarrow> (bool \<times> tm_state) option" where
  "atomic_dec_and_test a s = do { it \<leftarrow> tm_items s a;
     Some (i_usage it - 1 = 0, set_item a (it\<lparr>i_usage := i_usage it - 1\<rparr>) s) }"

text \<open>Calling the destructor, if there is one, and freeing the item.\<close>

definition destroy_item :: "nat \<Rightarrow> tm_state \<Rightarrow> tm_state option" where
  "destroy_item a s = do { it \<leftarrow> tm_items s a;
     Some (s\<lparr>dtor_calls := dtor_calls s @ (if i_dtor it then [a] else []), tm_items := (tm_items s)(a := None)\<rparr>) }"

section \<open>Operations\<close>

fun find_item :: "u32 \<Rightarrow> nat list \<Rightarrow> tm_state \<Rightarrow> nat option option" where
  "find_item key [] s = Some None"
| "find_item key (a # as) s = do { it \<leftarrow> tm_items s a; if key = i_key it then Some (Some a) else find_item key as s }"

definition vtss_task_map_get_item :: "(u32 \<Rightarrow> u32) \<Rightarrow> u32 \<Rightarrow> tm_state \<Rightarrow> (nat option \<times> tm_state) option" where
  "vtss_task_map_get_item jhash key s =
     (if \<not> tm_initialized s then Some (None, s)
      else if tm_locked s then None
      else do {
        r \<leftarrow> find_item key (tm_table s (vtss_task_map_hash jhash key)) s;
        case r of
          None \<Rightarrow> Some (None, s)
        | Some a \<Rightarrow> do { it \<leftarrow> tm_items s a; Some (Some a, set_item a (it\<lparr>i_usage := i_usage it + 1\<rparr>) s) } })"

text \<open>
  The flag \<open>in_list\<close> is tested, the lock is taken and the flag is tested again; \<open>other\<close> is what other
  threads do between the first test and the lock.
\<close>

definition leave_list :: "(tm_state \<Rightarrow> tm_state) \<Rightarrow> nat \<Rightarrow> tm_state \<Rightarrow> tm_state option" where
  "leave_list other a s = do { it \<leftarrow> tm_items s a;
     if i_in_list it then do {
       s \<leftarrow> write_lock (other s);
       it \<leftarrow> tm_items s a;
       Some (write_unlock (if i_in_list it then hlist_del_init a (set_item a (it\<lparr>i_in_list := False\<rparr>) s) else s)) }
     else Some s }"

definition vtss_task_map_put_item :: "(tm_state \<Rightarrow> tm_state) \<Rightarrow> nat option \<Rightarrow> tm_state \<Rightarrow> (nat \<times> tm_state) option" where
  "vtss_task_map_put_item other item s = (case item of
     None \<Rightarrow> Some (0, s)
   | Some a \<Rightarrow> do {
       (z, s) \<leftarrow> atomic_dec_and_test a s;
       if z then do {
         s \<leftarrow> leave_list other a s;
         it \<leftarrow> tm_items s a;
         if i_usage it = 0 then do { s \<leftarrow> destroy_item a s; Some (1, s) } else Some (0, s) }
       else Some (0, s) })"

text \<open>What becomes of an item that was taken off its list with the reference of the list.\<close>

definition release_unlisted :: "nat \<Rightarrow> tm_state \<Rightarrow> (nat \<times> tm_state) option" where
  "release_unlisted a s = do {
     it \<leftarrow> tm_items s a;
     if i_usage it = 0 then Some (0, set_item a (it\<lparr>i_in_list := False\<rparr>) s)
     else do {
       (z, s) \<leftarrow> atomic_dec_and_test a s;
       if z then do { s \<leftarrow> destroy_item a s; Some (1, s) }
       else do { it \<leftarrow> tm_items s a; Some (0, set_item a (it\<lparr>i_in_list := False\<rparr>) s) } } }"

definition vtss_task_map_add_item :: "(u32 \<Rightarrow> u32) \<Rightarrow> (tm_state \<Rightarrow> tm_state) \<Rightarrow> nat option \<Rightarrow> tm_state \<Rightarrow> (nat \<times> tm_state) option" where
  "vtss_task_map_add_item jhash other item2 s = (case item2 of
     None \<Rightarrow> Some (0, s)
   | Some b \<Rightarrow> do {
       it2 \<leftarrow> tm_items s b;
       if i_in_list it2 then Some (0, s)
       else do {
         s \<leftarrow> write_lock (other s);
         it2 \<leftarrow> tm_items s b;
         if i_in_list it2 then Some (0, s)
         else let h = vtss_task_map_hash jhash (i_key it2) in do {
           r \<leftarrow> find_item (i_key it2) (tm_table s h) s;
           (ret, s) \<leftarrow> (case r of None \<Rightarrow> Some (0, s) | Some a \<Rightarrow> release_unlisted a (hlist_del_init a s));
           it2 \<leftarrow> tm_items s b;
           let s = set_item b (it2\<lparr>i_usage := i_usage it2 + 1, i_in_list := True\<rparr>) s;
           Some (ret, write_unlock (s\<lparr>tm_table := (tm_table s)(h := b # tm_table s h)\<rparr>)) } } })"

definition vtss_task_map_del_item :: "(tm_state \<Rightarrow> tm_state) \<Rightarrow> nat option \<Rightarrow> tm_state \<Rightarrow> (nat \<times> tm_state) option" where
  "vtss_task_map_del_item other item s = (case item of
     None \<Rightarrow> Some (0, s)
   | Some a \<Rightarrow> do {
       s \<leftarrow> leave_list other a s;
       (z, s) \<leftarrow> atomic_dec_and_test a s;
       if z then do { s \<leftarrow> destroy_item a s; Some (1, s) } else Some (0, s) })"

text \<open>\<open>a\<close> is the answer of \<open>kmalloc\<close>.\<close>

definition vtss_task_map_alloc :: "nat option \<Rightarrow> u32 \<Rightarrow> bool \<Rightarrow> tm_state \<Rightarrow> nat option \<times> tm_state" where
  "vtss_task_map_alloc a key dtor s = (case a of
     None \<Rightarrow> (None, s)
   | Some p \<Rightarrow> (Some p, set_item p \<lparr>i_key = key, i_usage = 1, i_in_list = False, i_dtor = dtor\<rparr> s))"

definition vtss_task_map_foreach :: "(nat \<Rightarrow> tm_state \<Rightarrow> tm_state option) option \<Rightarrow> tm_state \<Rightarrow> (bool \<times> tm_state) option" where
  "vtss_task_map_foreach func s = (case func of
     None \<Rightarrow> Some (False, s)
   | Some f \<Rightarrow> if tm_locked s then None
       else do { s \<leftarrow> foldm (\<lambda>i. foldm f (tm_table s i)) [0 ..< HASH_TABLE_SIZE] s; Some (True, s) })"

definition vtss_task_map_init :: "tm_state \<Rightarrow> tm_state option" where
  "vtss_task_map_init s = do { s \<leftarrow> write_lock s;
     let s = s\<lparr>tm_table := fold (\<lambda>i t. t(i := [])) [0 ..< HASH_TABLE_SIZE] (tm_table s)\<rparr>;
     Some ((write_unlock s)\<lparr>tm_initialized := True\<rparr>) }"

definition fini_bucket :: "nat \<Rightarrow> tm_state \<Rightarrow> tm_state option" where
  "fini_bucket i s = do {
     s \<leftarrow> foldm (\<lambda>a s. map_option snd (release_unlisted a (hlist_del_init a s))) (tm_table s i) s;
     Some (s\<lparr>tm_table := (tm_table s)(i := [])\<rparr>) }"

definition vtss_task_map_fini :: "tm_state \<Rightarrow> tm_state option" where
  "vtss_task_map_fini s = do {
     s \<leftarrow> write_lock (s\<lparr>tm_initialized := False\<rparr>);
     s \<leftarrow> foldm fini_bucket [0 ..< HASH_TABLE_SIZE] s;
     Some (write_unlock s) }"

text \<open>
  \<open>vtss_target_del\<close> of collector.c: an item leaves the table, and the caller's reference is given up.
  \<open>targets\<close> is \<open>vtss_target_count\<close>; the last component of the result tells that the reader of the
  control file is woken up.
\<close>

definition vtss_target_del :: "(tm_state \<Rightarrow> tm_state) \<Rightarrow> nat \<Rightarrow> tm_state \<Rightarrow> int \<Rightarrow> (tm_state \<times> int \<times> bool) option" where
  "vtss_target_del other a s targets = do {
     (r, s) \<leftarrow> vtss_task_map_del_item other (Some a) s;
     s \<leftarrow> (if r = 0 then map_option snd (vtss_task_map_put_item other (Some a) s) else Some s);
     Some (s, targets - 1, targets - 1 = 0) }"

end
