(* ===== verification/TaskMap_Correct.thy ===== *)
theory TaskMap_Correct
  imports TaskMap
begin

text \<open>
  The table of traced tasks against its specification: a map from task ids to items together with the
  number of references the clients hold. The reference counts, the buckets and the freeing of items
  implement it for clients that give up what they hold, and that remove an item only while it is
  listed; what a removal of an unlisted item does is shown at the end.
\<close>

section \<open>Simulations\<close>

text \<open>
  The contract between an implementation and its specification: in a good state a legal operation
  returns, stays good and does to the abstraction what the specification says.
\<close>

fun legal_run :: "('o \<Rightarrow> 'a \<Rightarrow> bool) \<Rightarrow> ('o \<Rightarrow> 'a \<Rightarrow> 'a) \<Rightarrow> 'o list \<Rightarrow> 'a \<Rightarrow> bool" where
  "legal_run legal astep [] x = True"
| "legal_run legal astep (op # ops) x = (legal op x \<and> legal_run legal astep ops (astep op x))"

locale simulation =
  fixes ok :: "'s \<Rightarrow> bool" and abst :: "'s \<Rightarrow> 'a" and cstep :: "'o \<Rightarrow> 's \<Rightarrow> 's option"
    and astep :: "'o \<Rightarrow> 'a \<Rightarrow> 'a" and legal :: "'o \<Rightarrow> 'a \<Rightarrow> bool"
  assumes step_law: "ok s \<Longrightarrow> legal op (abst s) \<Longrightarrow> \<exists>s'. cstep op s = Some s' \<and> ok s' \<and> abst s' = astep op (abst s)"
begin

lemma runs:
  assumes "ok s" "legal_run legal astep ops (abst s)"
  shows "\<exists>s'. foldm cstep ops s = Some s' \<and> ok s' \<and> abst s' = fold astep ops (abst s)"
  using assms
proof (induction ops arbitrary: s)
  case (Cons op ops)
  from Cons.prems step_law obtain s' where s': "cstep op s = Some s'" "ok s'" "abst s' = astep op (abst s)" by auto
  with Cons.IH[OF s'(2)] Cons.prems(2) show ?case by simp
qed simp

end

section \<open>Well-formed tables\<close>

definition tm_wf :: "(u32 \<Rightarrow> u32) \<Rightarrow> tm_state \<Rightarrow> (nat \<Rightarrow> nat) \<Rightarrow> bool" where
  "tm_wf jhash s h = (
     (\<forall>a it. tm_items s a = Some it \<longrightarrow> i_usage it = int (h a) + of_bool (i_in_list it) \<and> (0 < h a \<or> i_in_list it)) \<and>
     (\<forall>a. tm_items s a = None \<longrightarrow> h a = 0) \<and>
     (\<forall>i a. a \<in> set (tm_table s i) \<longleftrightarrow>
        (\<exists>it. tm_items s a = Some it \<and> i_in_list it \<and> vtss_task_map_hash jhash (i_key it) = i)) \<and>
     (\<forall>i. distinct (tm_table s i)) \<and>
     (\<forall>a b ita itb. tm_items s a = Some ita \<and> tm_items s b = Some itb \<and> i_in_list ita \<and> i_in_list itb \<and>
        i_key ita = i_key itb \<longrightarrow> a = b))"

lemma tm_wfD:
  assumes "tm_wf jhash s h"
  shows "tm_items s a = Some it \<Longrightarrow> i_usage it = int (h a) + of_bool (i_in_list it) \<and> (0 < h a \<or> i_in_list it)"
    "tm_items s a = None \<Longrightarrow> h a = 0"
    "a \<in> set (tm_table s i) \<longleftrightarrow> (\<exists>it. tm_items s a = Some it \<and> i_in_list it \<and> vtss_task_map_hash jhash (i_key it) = i)"
    "distinct (tm_table s i)"
    "tm_items s a = Some ita \<Longrightarrow> tm_items s b = Some itb \<Longrightarrow> i_in_list ita \<Longrightarrow> i_in_list itb \<Longrightarrow> i_key ita = i_key itb \<Longrightarrow> a = b"
  using assms unfolding tm_wf_def by blast+

lemma tm_wf_cong:
  assumes "tm_items s' = tm_items s" "tm_table s' = tm_table s" "tm_wf jhash s h"
  shows "tm_wf jhash s' h"
  using assms(3) unfolding tm_wf_def assms(1,2) .

text \<open>The item listed under a key.\<close>

definition tm_lookup :: "(u32 \<Rightarrow> u32) \<Rightarrow> tm_state \<Rightarrow> u32 \<Rightarrow> nat option" where
  "tm_lookup jhash s k = find (\<lambda>a. map_option i_key (tm_items s a) = Some k) (tm_table s (vtss_task_map_hash jhash k))"

lemma find_item_find:
  "(\<And>a. a \<in> set as \<Longrightarrow> tm_items s a \<noteq> None) \<Longrightarrow>
    find_item k as s = Some (find (\<lambda>a. map_option i_key (tm_items s a) = Some k) as)"
proof (induction as)
  case (Cons a as)
  then obtain it where "tm_items s a = Some it" by fastforce
  with Cons show ?case by auto
qed simp

lemma find_item_lookup:
  "tm_wf jhash s h \<Longrightarrow> find_item k (tm_table s (vtss_task_map_hash jhash k)) s = Some (tm_lookup jhash s k)"
  unfolding tm_lookup_def by (rule find_item_find) (auto simp: tm_wfD(3))

lemma tm_lookup_iff:
  assumes "tm_wf jhash s h"
  shows "tm_lookup jhash s k = Some a \<longleftrightarrow> (\<exists>it. tm_items s a = Some it \<and> i_in_list it \<and> i_key it = k)"
proof
  assume "tm_lookup jhash s k = Some a"
  then have "map_option i_key (tm_items s a) = Some k" "a \<in> set (tm_table s (vtss_task_map_hash jhash k))"
    by (auto simp: tm_lookup_def find_Some_iff in_set_conv_nth)
  then show "\<exists>it. tm_items s a = Some it \<and> i_in_list it \<and> i_key it = k" by (auto simp: tm_wfD(3)[OF assms])
next
  assume "\<exists>it. tm_items s a = Some it \<and> i_in_list it \<and> i_key it = k"
  then obtain it where it: "tm_items s a = Some it" "i_in_list it" "i_key it = k" by blast
  then have m: "a \<in> set (tm_table s (vtss_task_map_hash jhash k))" by (auto simp: tm_wfD(3)[OF assms])
  show "tm_lookup jhash s k = Some a"
  proof (cases "tm_lookup jhash s k")
    case None
    with m it show ?thesis by (auto simp: tm_lookup_def find_None_iff)
  next
    case (Some b)
    then have "map_option i_key (tm_items s b) = Some k" "b \<in> set (tm_table s (vtss_task_map_hash jhash k))"
      by (auto simp: tm_lookup_def find_Some_iff in_set_conv_nth)
    then obtain itb where "tm_items s b = Some itb" "i_in_list itb" "i_key itb = k" by (auto simp: tm_wfD(3)[OF assms])
    with tm_wfD(5)[OF assms, of a it b itb] it Some show ?thesis by simp
  qed
qed

lemma hash_bound: "vtss_task_map_hash jhash k < HASH_TABLE_SIZE"
proof -
  have "jhash k AND 1023 \<le> 1023" by (rule word_and_le1)
  then have "unat (jhash k AND 1023) \<le> unat (1023 :: u32)" by (simp only: word_le_nat_alt)
  then show ?thesis by (simp add: vtss_task_map_hash_def HASH_TABLE_SIZE_def)
qed

section \<open>Leaving and entering the table\<close>

text \<open>What is left of an item that loses the reference of the list.\<close>

definition unlisted :: "nat \<Rightarrow> tm_item \<Rightarrow> tm_item option" where
  "unlisted n it = (if n = 0 then None else Some (it\<lparr>i_usage := int n, i_in_list := False\<rparr>))"

lemma release_listed:
  assumes wf: "tm_wf jhash s h" and a: "tm_items s a = Some it" "i_in_list it"
  shows "\<exists>ret s'. release_unlisted a (hlist_del_init a s) = Some (ret, s') \<and> tm_wf jhash s' h \<and>
    tm_items s' = (tm_items s)(a := unlisted (h a) it) \<and> tm_table s' = (\<lambda>i. removeAll a (tm_table s i)) \<and>
    tm_locked s' = tm_locked s \<and> tm_initialized s' = tm_initialized s"
proof -
  have u: "i_usage it = int (h a) + 1" using tm_wfD(1)[OF wf a(1)] a(2) by simp
  obtain ret s' where r: "release_unlisted a (hlist_del_init a s) = Some (ret, s')"
    and s': "tm_items s' = (tm_items s)(a := unlisted (h a) it)" "tm_table s' = (\<lambda>i. removeAll a (tm_table s i))"
      "tm_locked s' = tm_locked s" "tm_initialized s' = tm_initialized s"
    using a(1) u by (cases "h a = 0") (auto simp: release_unlisted_def hlist_del_init_def atomic_dec_and_test_def
        destroy_item_def set_item_def unlisted_def)
  have "tm_wf jhash s' h" unfolding tm_wf_def
  proof (intro conjI allI impI)
    fix b itb assume "tm_items s' b = Some itb"
    then show "i_usage itb = int (h b) + of_bool (i_in_list itb)" "0 < h b \<or> i_in_list itb"
      using tm_wfD(1)[OF wf, of b itb] by (auto simp: s' unlisted_def split: if_splits)
  next
    fix b assume "tm_items s' b = None"
    then show "h b = 0" using tm_wfD(2)[OF wf, of b] by (auto simp: s' unlisted_def split: if_splits)
  next
    fix i b
    show "(b \<in> set (tm_table s' i)) = (\<exists>itb. tm_items s' b = Some itb \<and> i_in_list itb \<and> vtss_task_map_hash jhash (i_key itb) = i)"
      using tm_wfD(3)[OF wf, of b i] by (auto simp: s' unlisted_def)
  next
    fix i show "distinct (tm_table s' i)" using tm_wfD(4)[OF wf] by (simp add: s' distinct_removeAll)
  next
    fix b c itb itc assume "tm_items s' b = Some itb \<and> tm_items s' c = Some itc \<and> i_in_list itb \<and> i_in_list itc \<and> i_key itb = i_key itc"
    then show "b = c" using tm_wfD(5)[OF wf, of b itb c itc] by (auto simp: s' unlisted_def split: if_splits)
  qed
  with r s' show ?thesis by blast
qed

lemma insert_wf:
  assumes wf: "tm_wf jhash s h" and b: "tm_items s b = Some it" "\<not> i_in_list it"
    and free: "tm_lookup jhash s (i_key it) = None"
    and s': "s' = (set_item b (it\<lparr>i_usage := i_usage it + 1, i_in_list := True\<rparr>) s)
       \<lparr>tm_table := (tm_table s)(vtss_task_map_hash jhash (i_key it) := b # tm_table s (vtss_task_map_hash jhash (i_key it)))\<rparr>"
  shows "tm_wf jhash s' h"
  unfolding tm_wf_def
proof (intro conjI allI impI)
  fix a ita assume "tm_items s' a = Some ita"
  then show "i_usage ita = int (h a) + of_bool (i_in_list ita)" "0 < h a \<or> i_in_list ita"
    using tm_wfD(1)[OF wf, of a ita] tm_wfD(1)[OF wf b(1)] b(2) by (auto simp: s' set_item_def split: if_splits)
next
  fix a assume "tm_items s' a = None"
  then show "h a = 0" using tm_wfD(2)[OF wf, of a] by (auto simp: s' set_item_def split: if_splits)
next
  fix i a
  show "(a \<in> set (tm_table s' i)) = (\<exists>ita. tm_items s' a = Some ita \<and> i_in_list ita \<and> vtss_task_map_hash jhash (i_key ita) = i)"
    using tm_wfD(3)[OF wf, of a i] b by (auto simp: s' set_item_def)
next
  fix i show "distinct (tm_table s' i)"
    using tm_wfD(4)[OF wf, of i] tm_wfD(3)[OF wf, of b] b by (auto simp: s' set_item_def)
next
  have no: "\<not> (i_in_list ita \<and> i_key ita = i_key it)" if "tm_items s a = Some ita" for a ita
    using tm_lookup_iff[OF wf, of "i_key it" a] free that by auto
  fix a c ita itc assume "tm_items s' a = Some ita \<and> tm_items s' c = Some itc \<and> i_in_list ita \<and> i_in_list itc \<and> i_key ita = i_key itc"
  then show "a = c" using tm_wfD(5)[OF wf, of a ita c itc] no[of a ita] no[of c itc] by (auto simp: s' set_item_def split: if_splits)
qed

section \<open>The operations on a well-formed table\<close>

text \<open>The state together with the references that clients hold.\<close>

definition tm_ok :: "(u32 \<Rightarrow> u32) \<Rightarrow> tm_state \<times> (nat \<Rightarrow> nat) \<Rightarrow> bool" where
  "tm_ok jhash x = (tm_wf jhash (fst x) (snd x) \<and> \<not> tm_locked (fst x) \<and>
     (\<not> tm_initialized (fst x) \<longrightarrow> tm_table (fst x) = (\<lambda>_. [])))"

datatype tm_op = Alloc nat u32 bool | Get u32 | Put nat | Add nat | Del nat | Fini

text \<open>An operation with what it does to the references: \<open>Put\<close> gives one up, \<open>Get\<close> and \<open>Alloc\<close> obtain one.\<close>

fun tm_exec :: "(u32 \<Rightarrow> u32) \<Rightarrow> tm_op \<Rightarrow> tm_state \<times> (nat \<Rightarrow> nat) \<Rightarrow> (tm_state \<times> (nat \<Rightarrow> nat)) option" where
  "tm_exec jhash (Alloc p k d) (s, h) = (case vtss_task_map_alloc (Some p) k d s of (_, s) \<Rightarrow> Some (s, h(p := 1)))"
| "tm_exec jhash (Get k) (s, h) = do { (r, s) \<leftarrow> vtss_task_map_get_item jhash k s;
     Some (s, case r of None \<Rightarrow> h | Some a \<Rightarrow> h(a := h a + 1)) }"
| "tm_exec jhash (Put a) (s, h) = do { (_, s) \<leftarrow> vtss_task_map_put_item id (Some a) s; Some (s, h(a := h a - 1)) }"
| "tm_exec jhash (Add a) (s, h) = do { (_, s) \<leftarrow> vtss_task_map_add_item jhash id (Some a) s; Some (s, h) }"
| "tm_exec jhash (Del a) (s, h) = do { (_, s) \<leftarrow> vtss_task_map_del_item id (Some a) s; Some (s, h) }"
| "tm_exec jhash Fini (s, h) = do { s \<leftarrow> vtss_task_map_fini s; Some (s, h) }"

lemma alloc_ok:
  assumes "tm_wf jhash s h" "tm_items s p = None"
  shows "tm_wf jhash (set_item p \<lparr>i_key = k, i_usage = 1, i_in_list = False, i_dtor = d\<rparr> s) (h(p := 1))"
  using assms unfolding tm_wf_def set_item_def by (auto split: if_splits)

lemma get_ok:
  assumes wf: "tm_wf jhash s h" and a: "tm_items s a = Some it"
  shows "tm_wf jhash (set_item a (it\<lparr>i_usage := i_usage it + 1\<rparr>) s) (h(a := h a + 1))"
  using assms unfolding tm_wf_def set_item_def by (auto split: if_splits)

lemma put_ok:
  assumes wf: "tm_wf jhash s h" and a: "tm_items s a = Some it" and h: "0 < h a"
  shows "\<exists>r s'. vtss_task_map_put_item id (Some a) s = Some (r, s') \<and> tm_wf jhash s' (h(a := h a - 1)) \<and>
    tm_items s' = (tm_items s)(a := if h a = 1 \<and> \<not> i_in_list it then None else Some (it\<lparr>i_usage := i_usage it - 1\<rparr>)) \<and>
    tm_table s' = tm_table s \<and> tm_locked s' = tm_locked s \<and> tm_initialized s' = tm_initialized s \<and>
    r = of_bool (h a = 1 \<and> \<not> i_in_list it)"
proof -
  have u: "i_usage it = int (h a) + of_bool (i_in_list it)" using tm_wfD(1)[OF wf a] by simp
  have "\<exists>r s'. vtss_task_map_put_item id (Some a) s = Some (r, s') \<and>
      tm_items s' = (tm_items s)(a := if h a = 1 \<and> \<not> i_in_list it then None else Some (it\<lparr>i_usage := i_usage it - 1\<rparr>)) \<and>
      tm_table s' = tm_table s \<and> tm_locked s' = tm_locked s \<and> tm_initialized s' = tm_initialized s \<and>
      r = of_bool (h a = 1 \<and> \<not> i_in_list it)"
  proof (cases "h a = 1 \<and> \<not> i_in_list it")
    case True
    then show ?thesis using a u by (auto simp: vtss_task_map_put_item_def atomic_dec_and_test_def
        leave_list_def destroy_item_def set_item_def)
  next
    case False
    then have "i_usage it \<noteq> 1" using u h by auto
    then show ?thesis using a False by (auto simp: vtss_task_map_put_item_def atomic_dec_and_test_def set_item_def)
  qed
  then obtain r s' where r: "vtss_task_map_put_item id (Some a) s = Some (r, s')"
    and s': "tm_items s' = (tm_items s)(a := if h a = 1 \<and> \<not> i_in_list it then None else Some (it\<lparr>i_usage := i_usage it - 1\<rparr>))"
      "tm_table s' = tm_table s" "tm_locked s' = tm_locked s" "tm_initialized s' = tm_initialized s"
      "r = of_bool (h a = 1 \<and> \<not> i_in_list it)" by blast
  have "tm_wf jhash s' (h(a := h a - 1))"
    using wf a h unfolding tm_wf_def s' by (auto split: if_splits)
  with r s' show ?thesis by blast
qed

lemma tm_add_ok:
  assumes wf: "tm_wf jhash s h" and b: "tm_items s b = Some it" "\<not> i_in_list it" "0 < h b" and free: "\<not> tm_locked s"
  shows "\<exists>r s'. vtss_task_map_add_item jhash id (Some b) s = Some (r, s') \<and> tm_wf jhash s' h \<and>
    tm_items s' = (case tm_lookup jhash s (i_key it) of None \<Rightarrow> tm_items s
        | Some a \<Rightarrow> (tm_items s)(a := unlisted (h a) (the (tm_items s a))))
      (b := Some (it\<lparr>i_usage := i_usage it + 1, i_in_list := True\<rparr>)) \<and>
    \<not> tm_locked s' \<and> tm_initialized s' = tm_initialized s"
proof -
  let ?h = "vtss_task_map_hash jhash (i_key it)" and ?s = "s\<lparr>tm_locked := True\<rparr>"
  let ?ins = "\<lambda>s. (set_item b (it\<lparr>i_usage := i_usage it + 1, i_in_list := True\<rparr>) s)\<lparr>tm_table := (tm_table s)(?h := b # tm_table s ?h)\<rparr>"
  have wfl: "tm_wf jhash ?s h" using wf by (simp add: tm_wf_def)
  have f: "find_item (i_key it) (tm_table ?s ?h) ?s = Some (tm_lookup jhash s (i_key it))"
    using find_item_lookup[OF wfl, of "i_key it"] by (simp add: tm_lookup_def)
  have ul: "tm_wf jhash (write_unlock x) h = tm_wf jhash x h" for x by (simp add: write_unlock_def tm_wf_def)
  show ?thesis
  proof (cases "tm_lookup jhash s (i_key it)")
    case None
    have "tm_wf jhash (?ins ?s) h" by (rule insert_wf[OF wfl]) (use b None in \<open>simp_all add: tm_lookup_def\<close>)
    moreover have "vtss_task_map_add_item jhash id (Some b) s = Some (0, write_unlock (?ins ?s))"
      using b free f None by (simp add: vtss_task_map_add_item_def write_lock_def Let_def set_item_def)
    ultimately show ?thesis using None by (auto simp: ul) (auto simp: write_unlock_def set_item_def)
  next
    case (Some a)
    then obtain ita where a: "tm_items s a = Some ita" "i_in_list ita" "i_key ita = i_key it"
      using tm_lookup_iff[OF wf] by blast
    then have ab: "a \<noteq> b" using b by auto
    from release_listed[OF wfl, of a ita] a obtain ret s1 where
      r: "release_unlisted a (hlist_del_init a ?s) = Some (ret, s1)" "tm_wf jhash s1 h"
        "tm_items s1 = (tm_items s)(a := unlisted (h a) ita)" "tm_locked s1" "tm_initialized s1 = tm_initialized s" by auto
    have none: "tm_lookup jhash s1 (i_key it) = None"
    proof (rule ccontr)
      assume "\<not> ?thesis"
      then obtain c where "tm_lookup jhash s1 (i_key it) = Some c" by blast
      then obtain itc where "tm_items s1 c = Some itc" "i_in_list itc" "i_key itc = i_key it"
        using tm_lookup_iff[OF r(2)] by blast
      then show False using tm_wfD(5)[OF wf a(1), of c itc] a by (auto simp: r(3) unlisted_def split: if_splits)
    qed
    have "tm_wf jhash (?ins s1) h" by (rule insert_wf[OF r(2) _ b(2) none]) (use b ab in \<open>simp_all add: r(3)\<close>)
    moreover have "vtss_task_map_add_item jhash id (Some b) s = Some (ret, write_unlock (?ins s1))"
      using b free f Some r ab by (simp add: vtss_task_map_add_item_def write_lock_def Let_def set_item_def)
    ultimately show ?thesis using Some a r by (auto simp: ul) (auto simp: write_unlock_def set_item_def)
  qed
qed

lemma del_ok:
  assumes wf: "tm_wf jhash s h" and a: "tm_items s a = Some it" "i_in_list it" "0 < h a" and free: "\<not> tm_locked s"
  shows "\<exists>r s'. vtss_task_map_del_item id (Some a) s = Some (r, s') \<and> tm_wf jhash s' h \<and>
    tm_items s' = (tm_items s)(a := Some (it\<lparr>i_usage := int (h a), i_in_list := False\<rparr>)) \<and>
    tm_table s' = (\<lambda>i. removeAll a (tm_table s i)) \<and> \<not> tm_locked s' \<and> tm_initialized s' = tm_initialized s"
proof -
  have u: "i_usage it = int (h a) + 1" using tm_wfD(1)[OF wf a(1)] a(2) by simp
  obtain s1 ret where s1: "release_unlisted a (hlist_del_init a s) = Some (ret, s1)" "tm_wf jhash s1 h"
    "tm_items s1 = (tm_items s)(a := unlisted (h a) it)" "tm_table s1 = (\<lambda>i. removeAll a (tm_table s i))"
    using release_listed[OF wf a(1,2)] by blast
  let ?s = "hlist_del_init a (set_item a (it\<lparr>i_usage := int (h a), i_in_list := False\<rparr>) s)\<lparr>tm_locked := False\<rparr>"
  have "vtss_task_map_del_item id (Some a) s = Some (0, ?s)"
    using a u free by (cases s; cases it) (simp add: vtss_task_map_del_item_def leave_list_def write_lock_def write_unlock_def
        hlist_del_init_def set_item_def atomic_dec_and_test_def)
  moreover have "tm_wf jhash ?s h" by (rule tm_wf_cong[OF _ _ s1(2)])
      (use s1(3,4) a(3) in \<open>simp_all add: hlist_del_init_def set_item_def unlisted_def\<close>)
  ultimately show ?thesis by (intro exI[of _ 0] exI[of _ ?s]) (simp add: hlist_del_init_def set_item_def)
qed

text \<open>Emptying a bucket, and then all of them.\<close>

definition emptied :: "(nat \<Rightarrow> nat) \<Rightarrow> nat set \<Rightarrow> (nat \<Rightarrow> tm_item option) \<Rightarrow> nat \<Rightarrow> tm_item option" where
  "emptied h A m a = (if a \<in> A then unlisted (h a) (the (m a)) else m a)"

lemma emptied_twice: "A \<inter> B = {} \<Longrightarrow> emptied h A (emptied h B m) = emptied h (A \<union> B) m"
  by (auto simp: emptied_def fun_eq_iff)

lemma fini_items:
  assumes "tm_wf jhash s h" "tm_table s i = as"
  shows "\<exists>s'. foldm (\<lambda>a s. map_option snd (release_unlisted a (hlist_del_init a s))) as s = Some s' \<and> tm_wf jhash s' h \<and>
    tm_items s' = emptied h (set as) (tm_items s) \<and> tm_table s' = (tm_table s)(i := []) \<and>
    tm_locked s' = tm_locked s \<and> tm_initialized s' = tm_initialized s"
  using assms
proof (induction as arbitrary: s)
  case Nil
  then show ?case by (auto simp: emptied_def fun_eq_iff)
next
  case (Cons a as)
  note wf = Cons.prems(1)
  obtain it where a: "tm_items s a = Some it" "i_in_list it" "vtss_task_map_hash jhash (i_key it) = i"
    using tm_wfD(3)[OF wf, of a i] Cons.prems(2) by auto
  have da: "a \<notin> set as" "distinct as" using tm_wfD(4)[OF wf, of i] Cons.prems(2) by auto
  from release_listed[OF wf a(1,2)] obtain ret s1 where
    s1: "release_unlisted a (hlist_del_init a s) = Some (ret, s1)" "tm_wf jhash s1 h"
      "tm_items s1 = (tm_items s)(a := unlisted (h a) it)" "tm_table s1 = (\<lambda>i. removeAll a (tm_table s i))"
      "tm_locked s1 = tm_locked s" "tm_initialized s1 = tm_initialized s" by blast
  have other: "removeAll a (tm_table s j) = tm_table s j" if "j \<noteq> i" for j
    using tm_wfD(3)[OF wf, of a j] a that by (auto intro: removeAll_id)
  have "tm_table s1 i = as" using s1(4) Cons.prems(2) da(1) by simp
  from Cons.IH[OF s1(2) this] obtain s' where
    s': "foldm (\<lambda>a s. map_option snd (release_unlisted a (hlist_del_init a s))) as s1 = Some s'" "tm_wf jhash s' h"
      "tm_items s' = emptied h (set as) (tm_items s1)" "tm_table s' = (tm_table s1)(i := [])"
      "tm_locked s' = tm_locked s1" "tm_initialized s' = tm_initialized s1" by blast
  have "tm_items s' = emptied h (set (a # as)) (tm_items s)"
    using a(1) da(1) by (auto simp: s' s1 emptied_def fun_eq_iff)
  moreover have "tm_table s' = (tm_table s)(i := [])" using other by (auto simp: s' s1 fun_eq_iff)
  ultimately show ?case using s1 s' by (simp add: fun_upd_def)
qed

lemma fini_buckets:
  assumes "tm_wf jhash s h" "distinct is"
  shows "\<exists>s'. foldm fini_bucket is s = Some s' \<and> tm_wf jhash s' h \<and>
    tm_items s' = emptied h (\<Union>i \<in> set is. set (tm_table s i)) (tm_items s) \<and>
    tm_table s' = (\<lambda>i. if i \<in> set is then [] else tm_table s i) \<and>
    tm_locked s' = tm_locked s \<and> tm_initialized s' = tm_initialized s"
  using assms
proof (induction "is" arbitrary: s)
  case Nil
  then show ?case by (auto simp: emptied_def fun_eq_iff)
next
  case (Cons i "is")
  note wf = Cons.prems(1)
  from fini_items[OF wf refl, of i] obtain s0 where
    s0: "foldm (\<lambda>a s. map_option snd (release_unlisted a (hlist_del_init a s))) (tm_table s i) s = Some s0" "tm_wf jhash s0 h"
      "tm_items s0 = emptied h (set (tm_table s i)) (tm_items s)" "tm_table s0 = (tm_table s)(i := [])"
      "tm_locked s0 = tm_locked s" "tm_initialized s0 = tm_initialized s" by blast
  have b: "fini_bucket i s = Some s0" using s0(1,4) by (cases s0) (simp add: fini_bucket_def)
  from Cons.IH[OF s0(2)] Cons.prems(2) obtain s' where
    s': "foldm fini_bucket is s0 = Some s'" "tm_wf jhash s' h"
      "tm_items s' = emptied h (\<Union>j \<in> set is. set (tm_table s0 j)) (tm_items s0)"
      "tm_table s' = (\<lambda>j. if j \<in> set is then [] else tm_table s0 j)"
      "tm_locked s' = tm_locked s0" "tm_initialized s' = tm_initialized s0" by auto
  have rest: "(\<Union>j \<in> set is. set (tm_table s0 j)) = (\<Union>j \<in> set is. set (tm_table s j))"
    using Cons.prems(2) by (auto simp: s0(4) split: if_splits)
  have disj: "(\<Union>j \<in> set is. set (tm_table s j)) \<inter> set (tm_table s i) = {}"
    using Cons.prems(2) by (auto simp: tm_wfD(3)[OF wf])
  have "tm_items s' = emptied h (\<Union>j \<in> set (i # is). set (tm_table s j)) (tm_items s)"
    unfolding s'(3) rest s0(3) emptied_twice[OF disj] by (simp add: Un_commute)
  moreover have "tm_table s' = (\<lambda>j. if j \<in> set (i # is) then [] else tm_table s j)" by (auto simp: s'(4) s0(4))
  ultimately show ?case using b s' s0(5,6) by simp
qed

lemma fini_ok:
  assumes wf: "tm_wf jhash s h" and free: "\<not> tm_locked s"
  shows "\<exists>s'. vtss_task_map_fini s = Some s' \<and> tm_wf jhash s' h \<and> tm_table s' = (\<lambda>_. []) \<and>
    tm_items s' = emptied h {a. \<exists>it. tm_items s a = Some it \<and> i_in_list it} (tm_items s) \<and> \<not> tm_locked s' \<and> \<not> tm_initialized s'"
proof -
  let ?s = "s\<lparr>tm_initialized := False, tm_locked := True\<rparr>"
  have "tm_wf jhash ?s h" by (rule tm_wf_cong[OF _ _ wf]) simp_all
  from fini_buckets[OF this, of "[0 ..< HASH_TABLE_SIZE]"] obtain s' where
    s': "foldm fini_bucket [0 ..< HASH_TABLE_SIZE] ?s = Some s'" "tm_wf jhash s' h"
      "tm_items s' = emptied h (\<Union>i < HASH_TABLE_SIZE. set (tm_table s i)) (tm_items s)"
      "tm_table s' = (\<lambda>i. if i < HASH_TABLE_SIZE then [] else tm_table s i)" "\<not> tm_initialized s'"
    by (auto simp: atLeast0LessThan cong: if_cong)
  have all: "(\<Union>i < HASH_TABLE_SIZE. set (tm_table s i)) = {a. \<exists>it. tm_items s a = Some it \<and> i_in_list it}"
    using hash_bound by (auto simp: tm_wfD(3)[OF wf])
  have "tm_table s i = []" if "\<not> i < HASH_TABLE_SIZE" for i
    using tm_wfD(3)[OF wf, of _ i] hash_bound[of jhash] that by (metis list.set_sel(1))
  then have t: "tm_table s' = (\<lambda>_. [])" by (auto simp: s'(4))
  have "vtss_task_map_fini s = Some (write_unlock s')"
    using free s'(1) by (simp add: vtss_task_map_fini_def write_lock_def)
  moreover have "tm_wf jhash (write_unlock s') h"
    by (rule tm_wf_cong[OF _ _ s'(2)]) (simp_all add: write_unlock_def)
  ultimately show ?thesis using s' t all by (simp add: write_unlock_def)
qed

section \<open>The specification\<close>

text \<open>
  The map that is looked up, the references held, the keys of the items that exist, and whether the
  table is in use. An item ceases to exist when nobody holds it and the map does not name it.
\<close>

record tm_spec =
  sp_map :: "u32 \<Rightarrow> nat option"
  sp_held :: "nat \<Rightarrow> nat"
  sp_key :: "nat \<Rightarrow> u32 option"
  sp_open :: bool

definition sp_listed :: "tm_spec \<Rightarrow> nat \<Rightarrow> bool" where
  "sp_listed sp a = (case sp_key sp a of None \<Rightarrow> False | Some k \<Rightarrow> sp_map sp k = Some a)"

definition sp_collect :: "tm_spec \<Rightarrow> tm_spec" where
  "sp_collect sp = sp\<lparr>sp_key := \<lambda>a. if sp_held sp a = 0 \<and> \<not> sp_listed sp a then None else sp_key sp a\<rparr>"

fun sp_step :: "tm_op \<Rightarrow> tm_spec \<Rightarrow> tm_spec" where
  "sp_step (Alloc p k d) sp = sp\<lparr>sp_held := (sp_held sp)(p := 1), sp_key := (sp_key sp)(p := Some k)\<rparr>"
| "sp_step (Get k) sp = (if sp_open sp then case sp_map sp k of None \<Rightarrow> sp
     | Some a \<Rightarrow> sp\<lparr>sp_held := (sp_held sp)(a := sp_held sp a + 1)\<rparr> else sp)"
| "sp_step (Put a) sp = sp_collect (sp\<lparr>sp_held := (sp_held sp)(a := sp_held sp a - 1)\<rparr>)"
| "sp_step (Add a) sp = (if sp_listed sp a then sp
     else sp_collect (sp\<lparr>sp_map := (sp_map sp)(the (sp_key sp a) := Some a)\<rparr>))"
| "sp_step (Del a) sp = sp\<lparr>sp_map := (sp_map sp)(the (sp_key sp a) := None)\<rparr>"
| "sp_step Fini sp = sp_collect (sp\<lparr>sp_map := \<lambda>_. None, sp_open := False\<rparr>)"

text \<open>
  What a client may do: memory that is handed out is not in use; a reference is given up, and an item
  is inserted or removed, by one who holds the item; only a listed item is removed.
\<close>

fun sp_legal :: "tm_op \<Rightarrow> tm_spec \<Rightarrow> bool" where
  "sp_legal (Alloc p k d) sp = (sp_key sp p = None)"
| "sp_legal (Get k) sp = True"
| "sp_legal (Put a) sp = (sp_held sp a > 0)"
| "sp_legal (Add a) sp = (sp_held sp a > 0 \<and> sp_open sp)"
| "sp_legal (Del a) sp = (sp_held sp a > 0 \<and> sp_listed sp a)"
| "sp_legal Fini sp = True"

definition tm_abs :: "(u32 \<Rightarrow> u32) \<Rightarrow> tm_state \<times> (nat \<Rightarrow> nat) \<Rightarrow> tm_spec" where
  "tm_abs jhash = (\<lambda>(s, h). \<lparr>sp_map = tm_lookup jhash s, sp_held = h, sp_key = \<lambda>a. map_option i_key (tm_items s a),
     sp_open = tm_initialized s\<rparr>)"

lemma option_ext: "(\<And>a. x = Some a \<longleftrightarrow> y = Some a) \<Longrightarrow> x = y"
  by (cases x; cases y) auto

lemma lookup_ext: "tm_wf jhash s h \<Longrightarrow> (\<And>a. (\<exists>it. tm_items s a = Some it \<and> i_in_list it \<and> i_key it = k) \<longleftrightarrow> r = Some a) \<Longrightarrow>
    tm_lookup jhash s k = r"
  by (rule option_ext) (simp add: tm_lookup_iff)

lemma sp_listed_abs [simp]:
  "tm_wf jhash s h \<Longrightarrow> sp_listed (tm_abs jhash (s, h)) a = (\<exists>it. tm_items s a = Some it \<and> i_in_list it)"
  by (auto simp: sp_listed_def tm_abs_def tm_lookup_iff split: option.splits)

lemma exec_alloc:
  assumes "tm_ok jhash (s, h)" "tm_items s p = None"
  shows "\<exists>x. tm_exec jhash (Alloc p k d) (s, h) = Some x \<and> tm_ok jhash x \<and> tm_abs jhash x = sp_step (Alloc p k d) (tm_abs jhash (s, h))"
proof -
  have wf: "tm_wf jhash s h" using assms by (simp add: tm_ok_def)
  note w = alloc_ok[OF wf assms(2), of k d]
  let ?s = "set_item p \<lparr>i_key = k, i_usage = 1, i_in_list = False, i_dtor = d\<rparr> s"
  have "tm_lookup jhash ?s = tm_lookup jhash s"
    by (rule ext, rule lookup_ext[OF w]) (use assms(2) in \<open>auto simp: tm_lookup_iff[OF wf] set_item_def\<close>)
  then show ?thesis using w assms(1)
    by (auto simp: tm_ok_def tm_abs_def vtss_task_map_alloc_def set_item_def fun_eq_iff)
qed

lemma exec_get:
  assumes ok: "tm_ok jhash (s, h)"
  shows "\<exists>x. tm_exec jhash (Get k) (s, h) = Some x \<and> tm_ok jhash x \<and> tm_abs jhash x = sp_step (Get k) (tm_abs jhash (s, h))"
proof -
  have wf: "tm_wf jhash s h" and free: "\<not> tm_locked s" using ok by (simp_all add: tm_ok_def)
  show ?thesis
  proof (cases "tm_initialized s \<and> tm_lookup jhash s k \<noteq> None")
    case False
    then have "vtss_task_map_get_item jhash k s = Some (None, s)"
      using find_item_lookup[OF wf, of k] free by (auto simp: vtss_task_map_get_item_def)
    then show ?thesis using ok False by (auto simp: tm_abs_def)
  next
    case True
    then obtain a it where a: "tm_lookup jhash s k = Some a" "tm_items s a = Some it" using tm_lookup_iff[OF wf] by blast
    let ?s = "set_item a (it\<lparr>i_usage := i_usage it + 1\<rparr>) s"
    note w = get_ok[OF wf a(2)]
    have g: "vtss_task_map_get_item jhash k s = Some (Some a, ?s)"
      using find_item_lookup[OF wf, of k] free True a by (auto simp: vtss_task_map_get_item_def)
    have "tm_lookup jhash ?s = tm_lookup jhash s"
      by (rule ext, rule lookup_ext[OF w]) (use a(2) in \<open>auto simp: tm_lookup_iff[OF wf] set_item_def\<close>)
    then show ?thesis using w ok True g a
      by (auto simp: tm_ok_def tm_abs_def set_item_def fun_eq_iff)
  qed
qed

lemma collected:
  assumes "tm_wf jhash s h" "\<And>a. tm_items s a = None \<Longrightarrow> sp_held sp a = 0 \<and> \<not> sp_listed sp a \<or> sp_key sp a = None"
    "sp_map sp = tm_lookup jhash s" "sp_held sp = h" "sp_open sp = tm_initialized s"
    "\<And>a it. tm_items s a = Some it \<Longrightarrow> sp_key sp a = Some (i_key it)"
  shows "tm_abs jhash (s, h) = sp_collect sp"
proof -
  have "map_option i_key (tm_items s a) = (if sp_held sp a = 0 \<and> \<not> sp_listed sp a then None else sp_key sp a)" for a
  proof (cases "tm_items s a")
    case None with assms(2)[OF None] show ?thesis by auto
  next
    case (Some it)
    moreover have "\<not> (h a = 0 \<and> \<not> sp_listed sp a)"
      using tm_wfD(1)[OF assms(1) Some] assms(6)[OF Some] Some
      by (auto simp: sp_listed_def assms(3) tm_lookup_iff[OF assms(1)])
    ultimately show ?thesis using assms(4,6) by auto
  qed
  then show ?thesis using assms(3-5) by (simp add: tm_abs_def sp_collect_def)
qed

lemma exec_put:
  assumes ok: "tm_ok jhash (s, h)" and h: "0 < h a"
  shows "\<exists>x. tm_exec jhash (Put a) (s, h) = Some x \<and> tm_ok jhash x \<and> tm_abs jhash x = sp_step (Put a) (tm_abs jhash (s, h))"
proof -
  have wf: "tm_wf jhash s h" using ok by (simp add: tm_ok_def)
  obtain it where a: "tm_items s a = Some it" using tm_wfD(2)[OF wf, of a] h by (cases "tm_items s a") auto
  from put_ok[OF wf a h] obtain r s' where
    p: "vtss_task_map_put_item id (Some a) s = Some (r, s')" and w: "tm_wf jhash s' (h(a := h a - 1))" and
    s': "tm_items s' = (tm_items s)(a := if h a = 1 \<and> \<not> i_in_list it then None else Some (it\<lparr>i_usage := i_usage it - 1\<rparr>))"
      "tm_table s' = tm_table s" "tm_locked s' = tm_locked s" "tm_initialized s' = tm_initialized s" by blast
  let ?sp = "(tm_abs jhash (s, h))\<lparr>sp_held := h(a := h a - 1)\<rparr>"
  have l: "tm_lookup jhash s' = tm_lookup jhash s"
    by (rule ext, rule lookup_ext[OF w]) (use a in \<open>auto simp: tm_lookup_iff[OF wf] s'\<close>)
  have "tm_abs jhash (s', h(a := h a - 1)) = sp_collect ?sp"
  proof (rule collected[OF w])
    fix b assume "tm_items s' b = None"
    then show "sp_held ?sp b = 0 \<and> \<not> sp_listed ?sp b \<or> sp_key ?sp b = None"
      using a by (auto simp: s' tm_abs_def sp_listed_def tm_lookup_iff[OF wf] split: if_splits)
  qed (use l a in \<open>auto simp: s' tm_abs_def split: if_splits\<close>)
  then show ?thesis using p w ok s' by (auto simp: tm_ok_def tm_abs_def)
qed

lemma exec_add:
  assumes ok: "tm_ok jhash (s, h)" and h: "0 < h b" and i: "tm_initialized s"
  shows "\<exists>x. tm_exec jhash (Add b) (s, h) = Some x \<and> tm_ok jhash x \<and> tm_abs jhash x = sp_step (Add b) (tm_abs jhash (s, h))"
proof -
  have wf: "tm_wf jhash s h" and free: "\<not> tm_locked s" using ok by (simp_all add: tm_ok_def)
  obtain it where b: "tm_items s b = Some it" using tm_wfD(2)[OF wf, of b] h by (cases "tm_items s b") auto
  show ?thesis
  proof (cases "i_in_list it")
    case True
    then have "vtss_task_map_add_item jhash id (Some b) s = Some (0, s)" using b by (simp add: vtss_task_map_add_item_def)
    then show ?thesis using ok wf b True by simp
  next
    case False
    from tm_add_ok[OF wf b False h free] obtain r s' where
      p: "vtss_task_map_add_item jhash id (Some b) s = Some (r, s')" and w: "tm_wf jhash s' h" and
      s': "tm_items s' = (case tm_lookup jhash s (i_key it) of None \<Rightarrow> tm_items s
          | Some a \<Rightarrow> (tm_items s)(a := unlisted (h a) (the (tm_items s a))))
        (b := Some (it\<lparr>i_usage := i_usage it + 1, i_in_list := True\<rparr>))"
        "\<not> tm_locked s'" "tm_initialized s' = tm_initialized s" by blast
    have old: "tm_items s' c = (if c = b then Some (it\<lparr>i_usage := i_usage it + 1, i_in_list := True\<rparr>)
        else if \<exists>itc. tm_items s c = Some itc \<and> i_in_list itc \<and> i_key itc = i_key it then unlisted (h c) (the (tm_items s c))
        else tm_items s c)" for c
      using tm_lookup_iff[OF wf, of "i_key it" c]
      by (auto simp: s' split: option.splits)
    let ?sp = "(tm_abs jhash (s, h))\<lparr>sp_map := (tm_lookup jhash s)(i_key it := Some b)\<rparr>"
    have l: "tm_lookup jhash s' = (tm_lookup jhash s)(i_key it := Some b)"
    proof (rule ext, rule lookup_ext[OF w])
      fix k c
      show "(\<exists>itc. tm_items s' c = Some itc \<and> i_in_list itc \<and> i_key itc = k) =
          (((tm_lookup jhash s)(i_key it := Some b)) k = Some c)"
        using b False by (auto simp: old tm_lookup_iff[OF wf] unlisted_def)
    qed
    have "tm_abs jhash (s', h) = sp_collect ?sp"
    proof (rule collected[OF w])
      fix c assume c: "tm_items s' c = None"
      then have "c \<noteq> b" by (auto simp: old)
      then show "sp_held ?sp c = 0 \<and> \<not> sp_listed ?sp c \<or> sp_key ?sp c = None"
        using c by (auto simp: old tm_abs_def sp_listed_def unlisted_def split: if_splits)
    qed (use l s'(2,3) in \<open>auto simp: old tm_abs_def unlisted_def b split: if_splits\<close>)
    moreover have "sp_key (tm_abs jhash (s, h)) b = Some (i_key it)" "sp_map (tm_abs jhash (s, h)) = tm_lookup jhash s"
      using b by (simp_all add: tm_abs_def)
    moreover have "\<not> sp_listed (tm_abs jhash (s, h)) b" using False b wf by simp
    ultimately have "tm_abs jhash (s', h) = sp_step (Add b) (tm_abs jhash (s, h))" by simp
    then show ?thesis using p w i s'(2,3) by (simp add: tm_ok_def)
  qed
qed

lemma exec_del:
  assumes ok: "tm_ok jhash (s, h)" and h: "0 < h a" and a: "tm_items s a = Some it" "i_in_list it"
  shows "\<exists>x. tm_exec jhash (Del a) (s, h) = Some x \<and> tm_ok jhash x \<and> tm_abs jhash x = sp_step (Del a) (tm_abs jhash (s, h))"
proof -
  have wf: "tm_wf jhash s h" and free: "\<not> tm_locked s" using ok by (simp_all add: tm_ok_def)
  from del_ok[OF wf a h free] obtain r s' where
    p: "vtss_task_map_del_item id (Some a) s = Some (r, s')" and w: "tm_wf jhash s' h" and
    s': "tm_items s' = (tm_items s)(a := Some (it\<lparr>i_usage := int (h a), i_in_list := False\<rparr>))"
      "tm_table s' = (\<lambda>i. removeAll a (tm_table s i))" "\<not> tm_locked s'" "tm_initialized s' = tm_initialized s" by blast
  have "tm_lookup jhash s' = (tm_lookup jhash s)(i_key it := None)"
  proof (rule ext, rule lookup_ext[OF w])
    fix k c
    show "(\<exists>itc. tm_items s' c = Some itc \<and> i_in_list itc \<and> i_key itc = k) = (((tm_lookup jhash s)(i_key it := None)) k = Some c)"
    proof (cases "c = a")
      case True
      then show ?thesis using a by (auto simp: s'(1) tm_lookup_iff[OF wf])
    next
      case False
      have "k \<noteq> i_key it" if "tm_items s c = Some itc" "i_in_list itc" "i_key itc = k" for itc
        using tm_wfD(5)[OF wf a(1) that(1) a(2) that(2)] that(3) False by auto
      then show ?thesis using False by (auto simp: s'(1) tm_lookup_iff[OF wf])
    qed
  qed
  then show ?thesis using p w s' a ok by (auto simp: tm_ok_def tm_abs_def fun_eq_iff)
qed

lemma exec_fini:
  assumes ok: "tm_ok jhash (s, h)"
  shows "\<exists>x. tm_exec jhash Fini (s, h) = Some x \<and> tm_ok jhash x \<and> tm_abs jhash x = sp_step Fini (tm_abs jhash (s, h))"
proof -
  have wf: "tm_wf jhash s h" and free: "\<not> tm_locked s" using ok by (simp_all add: tm_ok_def)
  from fini_ok[OF wf free] obtain s' where
    p: "vtss_task_map_fini s = Some s'" and w: "tm_wf jhash s' h" and
    s': "tm_table s' = (\<lambda>_. [])" "tm_items s' = emptied h {a. \<exists>it. tm_items s a = Some it \<and> i_in_list it} (tm_items s)"
      "\<not> tm_locked s'" "\<not> tm_initialized s'" by blast
  let ?sp = "(tm_abs jhash (s, h))\<lparr>sp_map := \<lambda>_. None, sp_open := False\<rparr>"
  have l: "tm_lookup jhash s' = (\<lambda>_. None)" by (simp add: tm_lookup_def s' fun_eq_iff)
  have "tm_abs jhash (s', h) = sp_collect ?sp"
  proof (rule collected[OF w])
    fix c assume "tm_items s' c = None"
    then show "sp_held ?sp c = 0 \<and> \<not> sp_listed ?sp c \<or> sp_key ?sp c = None"
      using tm_wfD(2)[OF w, of c] by (auto simp: tm_abs_def sp_listed_def split: option.splits)
  qed (use l s' in \<open>auto simp: emptied_def tm_abs_def unlisted_def split: if_splits\<close>)
  then show ?thesis using p w s' by (auto simp: tm_ok_def)
qed

interpretation tmsim: simulation "tm_ok jhash" "tm_abs jhash" "tm_exec jhash" sp_step sp_legal for jhash
proof
  fix x op assume ok: "tm_ok jhash x" and l: "sp_legal op (tm_abs jhash x)"
  obtain s h where x: "x = (s, h)" by (cases x)
  have wf: "tm_wf jhash s h" using ok x by (simp add: tm_ok_def)
  show "\<exists>x'. tm_exec jhash op x = Some x' \<and> tm_ok jhash x' \<and> tm_abs jhash x' = sp_step op (tm_abs jhash x)"
  proof (cases op)
    case (Alloc p k d)
    then show ?thesis using exec_alloc[of jhash s h p k d] ok l x by (simp add: tm_abs_def)
  next
    case (Get k) then show ?thesis using exec_get[of jhash s h k] ok x by simp
  next
    case (Put a) then show ?thesis using exec_put[of jhash s h a] ok l x by (simp add: tm_abs_def)
  next
    case (Add a) then show ?thesis using exec_add[of jhash s h a] ok l x by (simp add: tm_abs_def)
  next
    case (Del a)
    then obtain it where "tm_items s a = Some it" "i_in_list it" using l x wf by auto
    then show ?thesis using exec_del[of jhash s h a it] ok l x Del by (simp add: tm_abs_def)
  next
    case Fini then show ?thesis using exec_fini[of jhash s h] ok x by simp
  qed
qed

section \<open>Properties\<close>

text \<open>The module as it is loaded, and initialised.\<close>

definition tm_loaded :: tm_state where
  "tm_loaded = \<lparr>tm_items = \<lambda>_. None, tm_table = \<lambda>_. [], tm_initialized = False, tm_locked = False, dtor_calls = []\<rparr>"

definition tm_started :: tm_state where
  "tm_started = tm_loaded\<lparr>tm_initialized := True\<rparr>"

lemma init_started: "vtss_task_map_init tm_loaded = Some tm_started"
proof -
  have "fold (\<lambda>i t. t(i := [])) is (\<lambda>_. []) = (\<lambda>_. [] :: nat list)" for "is" :: "nat list"
    by (induction "is") (simp_all add: fun_upd_idem)
  then show ?thesis by (simp add: vtss_task_map_init_def tm_loaded_def tm_started_def write_lock_def write_unlock_def)
qed

lemma started_ok: "tm_ok jhash (tm_started, \<lambda>_. 0)"
  by (simp add: tm_ok_def tm_wf_def tm_started_def tm_loaded_def)

lemma started_abs: "tm_abs jhash (tm_started, \<lambda>_. 0) = \<lparr>sp_map = \<lambda>_. None, sp_held = \<lambda>_. 0, sp_key = \<lambda>_. None, sp_open = True\<rparr>"
  by (simp add: tm_abs_def tm_started_def tm_loaded_def tm_lookup_def fun_eq_iff)

text \<open>
  C12: the task map implements its specification. From a well-formed table, whatever the hash function,
  any sequence of operations that is legal for the specification runs without an access to a freed
  item and without waiting for a lock that is never released; the counts, the chains and the flags stay
  consistent; and afterwards the table looks up what the specified map holds, the references are
  those specified, and exactly those items exist that the map names or a client still holds.
\<close>

theorem task_map_implements_map:
  assumes "tm_ok jhash x" "legal_run sp_legal sp_step ops (tm_abs jhash x)"
  shows "\<exists>x'. foldm (tm_exec jhash) ops x = Some x' \<and> tm_ok jhash x' \<and> tm_abs jhash x' = fold sp_step ops (tm_abs jhash x)"
  using assms by (rule tmsim.runs)

text \<open>
  C31: nothing is leaked. If after the initialisation a legal sequence of operations and then
  \<open>vtss_task_map_fini\<close> have run, and the clients hold no reference any more, then every item that was
  ever allocated has been freed.
\<close>

theorem task_map_frees_everything:
  assumes "legal_run sp_legal sp_step (ops @ [Fini]) (tm_abs jhash (tm_started, \<lambda>_. 0))"
    "sp_held (fold sp_step (ops @ [Fini]) (tm_abs jhash (tm_started, \<lambda>_. 0))) = (\<lambda>_. 0)"
  shows "\<exists>s. foldm (tm_exec jhash) (ops @ [Fini]) (tm_started, \<lambda>_. 0) = Some (s, \<lambda>_. 0) \<and> tm_items s = (\<lambda>_. None)"
proof -
  let ?x = "(tm_started, \<lambda>_. 0 :: nat)"
  from tmsim.runs[OF started_ok assms(1)] obtain s h where r: "foldm (tm_exec jhash) (ops @ [Fini]) ?x = Some (s, h)"
    "tm_ok jhash (s, h)" "tm_abs jhash (s, h) = fold sp_step (ops @ [Fini]) (tm_abs jhash ?x)" by auto
  have h: "h = (\<lambda>_. 0)" using assms(2) unfolding r(3)[symmetric] by (simp add: tm_abs_def)
  have "sp_map (tm_abs jhash (s, h)) = (\<lambda>_. None)" unfolding r(3) by (simp add: sp_collect_def)
  then have l: "tm_lookup jhash s k = None" for k by (simp add: tm_abs_def fun_eq_iff)
  have wf: "tm_wf jhash s h" using r(2) by (simp add: tm_ok_def)
  have "tm_items s a = None" for a
  proof (rule ccontr)
    assume "tm_items s a \<noteq> None"
    then obtain it where it: "tm_items s a = Some it" by blast
    then have "i_in_list it" using tm_wfD(1)[OF wf it] h by simp
    then show False using tm_lookup_iff[OF wf, of "i_key it" a] l it by auto
  qed
  then show ?thesis using r(1) h by (auto simp: fun_eq_iff)
qed

text \<open>
  C40: removing an item that was replaced frees it under another holder. When a task executes a new program,
  its item is replaced in the table, which gives up the reference of the list; then \<open>vtss_target_del\<close>
  gives up two more, though its caller holds one. If one other client holds the item, the item is
  freed, and the release by that client touches freed memory.
\<close>

theorem vtss_target_del_frees_held_item:
  assumes "tm_wf jhash s h" "tm_items s a = Some it" "\<not> i_in_list it" "h a = 2"
  shows "\<exists>s'. vtss_target_del other a s n = Some (s', n - 1, n - 1 = 0) \<and> tm_items s' a = None \<and>
    vtss_task_map_put_item other (Some a) s' = None"
proof -
  have "i_usage it = 2" using tm_wfD(1)[OF assms(1,2)] assms(3,4) by simp
  then show ?thesis using assms(2,3)
    by (auto simp: vtss_target_del_def vtss_task_map_del_item_def vtss_task_map_put_item_def leave_list_def
        atomic_dec_and_test_def destroy_item_def set_item_def)
qed

text \<open>
  If another thread inserts the item between the two tests of its flag, \<open>vtss_task_map_add_item\<close> returns
  with the lock held, and no later look-up returns.
\<close>

lemma add_item_keeps_lock:
  assumes "tm_items s b = Some it" "\<not> i_in_list it" "tm_items (other s) b = Some it2" "i_in_list it2"
    "\<not> tm_locked (other s)" "tm_initialized (other s)"
  shows "\<exists>s'. vtss_task_map_add_item jhash other (Some b) s = Some (0, s') \<and> vtss_task_map_get_item jhash k s' = None"
  using assms by (auto simp: vtss_task_map_add_item_def write_lock_def vtss_task_map_get_item_def)

section \<open>At concrete tables\<close>

text \<open>A task is entered, looked up twice, and replaced by a second item for the same task.\<close>

definition demo_tasks :: "tm_op list" where
  "demo_tasks = [Alloc 8 5 True, Add 8, Put 8, Get 5, Get 5, Alloc 9 5 True, Add 9, Put 9]"

lemmas tm_eval = demo_tasks_def started_abs sp_listed_def sp_collect_def

lemma demo_tasks_legal: "legal_run sp_legal sp_step demo_tasks (tm_abs jhash (tm_started, \<lambda>_. 0))"
  by (simp add: tm_eval)

theorem task_map_implements_map_witness:
  "\<exists>x. foldm (tm_exec (\<lambda>k. k)) demo_tasks (tm_started, \<lambda>_. 0) = Some x \<and> tm_ok (\<lambda>k. k) x \<and>
    tm_abs (\<lambda>k. k) x = fold sp_step demo_tasks (tm_abs (\<lambda>k. k) (tm_started, \<lambda>_. 0))"
  using task_map_implements_map[OF started_ok demo_tasks_legal] .

theorem task_map_frees_everything_witness:
  "\<exists>s. foldm (tm_exec (\<lambda>k. k)) ((demo_tasks @ [Put 8, Put 8]) @ [Fini]) (tm_started, \<lambda>_. 0) = Some (s, \<lambda>_. 0) \<and>
    tm_items s = (\<lambda>_. None)"
  by (rule task_map_frees_everything) (simp_all add: tm_eval fun_eq_iff)

theorem vtss_target_del_frees_held_item_witness:
  "\<exists>s h s'. foldm (tm_exec (\<lambda>k. k)) demo_tasks (tm_started, \<lambda>_. 0) = Some (s, h) \<and> h 8 = 2 \<and>
    vtss_target_del id 8 s 2 = Some (s', 1, False) \<and> vtss_task_map_put_item id (Some 8) s' = None"
proof -
  from tmsim.runs[OF started_ok demo_tasks_legal, of "\<lambda>k. k"] obtain s h where r: "foldm (tm_exec (\<lambda>k. k)) demo_tasks (tm_started, \<lambda>_. 0) = Some (s, h)"
    "tm_ok (\<lambda>k. k) (s, h)" "tm_abs (\<lambda>k. k) (s, h) = fold sp_step demo_tasks (tm_abs (\<lambda>k. k) (tm_started, \<lambda>_. 0))" by auto
  have wf: "tm_wf (\<lambda>k. k) s h" using r(2) by (simp add: tm_ok_def)
  have a: "sp_held (tm_abs (\<lambda>k. k) (s, h)) 8 = 2" "sp_key (tm_abs (\<lambda>k. k) (s, h)) 8 = Some 5"
    "\<not> sp_listed (tm_abs (\<lambda>k. k) (s, h)) 8"
    unfolding r(3) by (simp_all add: tm_eval)
  have l: "\<not> (\<exists>it. tm_items s 8 = Some it \<and> i_in_list it)" using a(3) unfolding sp_listed_abs[OF wf] .
  obtain it where it: "tm_items s 8 = Some it" using a(2) by (auto simp: tm_abs_def)
  have it: "tm_items s 8 = Some it" "h 8 = 2" "\<not> i_in_list it" using it a(1) l by (auto simp: tm_abs_def)
  from vtss_target_del_frees_held_item[OF wf it(1,3,2), of id 2] r(1) it(2) show ?thesis by auto
qed

end
