(* ===== verification/PwBuffer.thy ===== *)
theory PwBuffer
  imports Prelude
begin

text \<open>
  The output buffers of the power driver, pw_output_buffer.c of socwatchdk, and the routines of
  apwr_driver.c that read and poll them. There is one buffer per CPU and one more for the matrix
  messages; each has two segments. A segment is its header and its data area, so a store behind the
  data area, which would hit the header of the next segment or leave the allocation, is a fault. The
  segments of a buffer whose pages were not allocated are an empty list. Interrupts, which the producer
  turns off only while it reserves, are not interleaved.
\<close>

section \<open>State\<close>

definition NUM_SEGS_PER_BUFFER :: nat where "NUM_SEGS_PER_BUFFER = 2"
definition NUM_SEGS_PER_BUFFER_MASK :: int where "NUM_SEGS_PER_BUFFER_MASK = 1"
definition PW_SEG_DATA_SIZE :: nat where "PW_SEG_DATA_SIZE = 65528"
definition PW_DATA_BUFFER_SIZE :: nat where "PW_DATA_BUFFER_SIZE = PW_SEG_DATA_SIZE + 2 * 4"
definition PW_MSG_HEADER_SIZE :: nat where "PW_MSG_HEADER_SIZE = 14"
definition PW_ALL_WRITES_DONE_MASK :: u32 where "PW_ALL_WRITES_DONE_MASK = - 1"
definition PW_NO_DATA_AVAIL_MASK :: u32 where "PW_NO_DATA_AVAIL_MASK = - 2"

definition CIRCULAR_INC :: "int \<Rightarrow> int \<Rightarrow> int" where
  "CIRCULAR_INC index msk = (index + 1) AND msk"

record pw_data_buffer =
  bytes_written :: u32
  is_full :: u32
  seg_data :: "u8 list"

record pw_output_buffer =
  segments :: "pw_data_buffer list"
  buff_index :: int
  produced_samples :: u32
  dropped_samples :: u32
  last_seg_read :: int
  free_pages :: bool
  mem_alloc_size :: nat

record pw_state =
  per_cpu_output_buffers :: "pw_output_buffer list option"
  pw_last_cpu_read :: int
  pw_last_mask :: "32 word"
  reader_map :: u64
  pw_max_num_cpus :: int
  pw_buffer_alloc_size :: nat
  pw_num_samples_produced :: u64
  pw_num_samples_dropped :: u64

text \<open>\<open>PWCollector_msg\<close>, packed to two bytes: its payload follows the first 14 bytes in a buffer.\<close>

record pw_msg =
  m_tsc :: u64
  m_data_len :: u16
  m_cpuidx :: u16
  m_data_type :: u8
  m_padding :: u8
  m_p_data :: u64

definition msg_header :: "pw_msg \<Rightarrow> u8 list" where
  "msg_header m = le_bytes 8 (m_tsc m) @ le_bytes 2 (ucast (m_data_len m)) @ le_bytes 2 (ucast (m_cpuidx m)) @
     [m_data_type m, m_padding m]"

definition msg_bytes :: "pw_msg \<Rightarrow> u8 list" where
  "msg_bytes m = msg_header m @ le_bytes 8 (m_p_data m)"

definition GET_NUM_OUTPUT_BUFFERS :: "pw_state \<Rightarrow> int" where
  "GET_NUM_OUTPUT_BUFFERS s = pw_max_num_cpus s + 1"

definition SPACE_AVAIL :: "pw_data_buffer \<Rightarrow> u32" where
  "SPACE_AVAIL seg = (if is_full seg \<noteq> 0 then 0 else of_nat PW_SEG_DATA_SIZE - bytes_written seg)"

text \<open>Access to a segment of a buffer and to a buffer.\<close>

definition seg_at :: "pw_output_buffer \<Rightarrow> int \<Rightarrow> pw_data_buffer option" where
  "seg_at b i = (if i < 0 then None else list_at (segments b) (nat i))"

definition set_seg :: "int \<Rightarrow> pw_data_buffer \<Rightarrow> pw_output_buffer \<Rightarrow> pw_output_buffer" where
  "set_seg i seg b = b\<lparr>segments := (segments b)[nat i := seg]\<rparr>"

definition GET_OUTPUT_BUFFER :: "int \<Rightarrow> pw_state \<Rightarrow> pw_output_buffer option" where
  "GET_OUTPUT_BUFFER cpu s = do { bs \<leftarrow> per_cpu_output_buffers s; if cpu < 0 then None else list_at bs (nat cpu) }"

definition set_buffer :: "int \<Rightarrow> pw_output_buffer \<Rightarrow> pw_state \<Rightarrow> pw_state" where
  "set_buffer cpu b s = s\<lparr>per_cpu_output_buffers := map_option (\<lambda>bs. bs[nat cpu := b]) (per_cpu_output_buffers s)\<rparr>"

section \<open>Producing\<close>

fun next_segment :: "nat \<Rightarrow> int \<Rightarrow> u32 \<Rightarrow> pw_output_buffer \<Rightarrow> int option option" where
  "next_segment 0 index size0 b = Some None"
| "next_segment (Suc k) index size0 b = (let index = CIRCULAR_INC index NUM_SEGS_PER_BUFFER_MASK in do {
     seg \<leftarrow> seg_at b index;
     if size0 \<le> SPACE_AVAIL seg then Some (Some index) else next_segment k index size0 b })"

definition pw_get_next_available_segment_i :: "u32 \<Rightarrow> pw_output_buffer \<Rightarrow> (int option \<times> pw_output_buffer) option" where
  "pw_get_next_available_segment_i size0 b = do {
     r \<leftarrow> next_segment NUM_SEGS_PER_BUFFER (buff_index b) size0 b;
     Some (r, case r of None \<Rightarrow> b | Some i \<Rightarrow> b\<lparr>buff_index := i\<rparr>) }"

text \<open>
  What the producer gets: its segment and the place in it, whether a reader should be woken up, and
  whether the sample was dropped.
\<close>

record producer_seg =
  p_seg :: "int option"
  p_write_index :: u32
  p_should_wakeup :: bool
  p_did_drop :: bool

definition reserve_in :: "int \<Rightarrow> u32 \<Rightarrow> bool \<Rightarrow> pw_output_buffer \<Rightarrow> (producer_seg \<times> pw_output_buffer) option" where
  "reserve_in i size0 wake b = do { seg \<leftarrow> seg_at b i;
     let b = set_seg i (seg\<lparr>bytes_written := bytes_written seg + size0\<rparr>) b;
     Some (\<lparr>p_seg = Some i, p_write_index = bytes_written seg, p_should_wakeup = wake, p_did_drop = False\<rparr>,
       b\<lparr>produced_samples := produced_samples b + 1\<rparr>) }"

definition get_producer_seg_i :: "u32 \<Rightarrow> int \<Rightarrow> pw_state \<Rightarrow> (producer_seg \<times> pw_state) option" where
  "get_producer_seg_i size0 cpu s = do {
     b \<leftarrow> GET_OUTPUT_BUFFER cpu s;
     (p, b) \<leftarrow> (if buff_index b < 0 \<or> buff_index b \<ge> int NUM_SEGS_PER_BUFFER
       then Some (\<lparr>p_seg = None, p_write_index = 0, p_should_wakeup = False, p_did_drop = False\<rparr>, b)
       else do {
         seg \<leftarrow> seg_at b (buff_index b);
         if SPACE_AVAIL seg < size0 then do {
           (r, b) \<leftarrow> pw_get_next_available_segment_i size0 (set_seg (buff_index b) (seg\<lparr>is_full := 1\<rparr>) b);
           case r of
             None \<Rightarrow> Some (\<lparr>p_seg = None, p_write_index = 0, p_should_wakeup = True, p_did_drop = True\<rparr>,
               b\<lparr>dropped_samples := dropped_samples b + 1\<rparr>)
           | Some i \<Rightarrow> reserve_in i size0 True b }
         else reserve_in (buff_index b) size0 False b });
     Some (p, set_buffer cpu b s) }"

text \<open>The structure is stored with the pointer to its payload; then the payload, from \<open>p_data\<close>, over the pointer.\<close>

definition store_msg :: "nat \<Rightarrow> pw_msg \<Rightarrow> u8 list \<Rightarrow> pw_data_buffer \<Rightarrow> pw_data_buffer option" where
  "store_msg off m payload seg = do {
     d \<leftarrow> write_bytes off (msg_bytes m) (seg_data seg);
     p \<leftarrow> read_bytes 0 (unat (m_data_len m)) payload;
     d \<leftarrow> write_bytes (off + PW_MSG_HEADER_SIZE) p d;
     Some (seg\<lparr>seg_data := d\<rparr>) }"

text \<open>\<open>sleeping\<close>: a reader is in the wait queue. The result tells whether it is woken up.\<close>

definition wake_reader :: "bool \<Rightarrow> int \<Rightarrow> pw_state \<Rightarrow> (bool \<times> pw_state) option" where
  "wake_reader wake cpu s = (if wake then do { m \<leftarrow> bit_u64 (of_int cpu); Some (True, s\<lparr>reader_map := reader_map s OR m\<rparr>) }
     else Some (False, s))"

definition msg_size :: "pw_msg \<Rightarrow> u32" where
  "msg_size m = ucast (m_data_len m) + of_nat PW_MSG_HEADER_SIZE"

definition pw_produce_generic_msg :: "int \<Rightarrow> bool \<Rightarrow> (pw_msg \<times> u8 list) option \<Rightarrow> bool \<Rightarrow> pw_state \<Rightarrow> ((int \<times> bool) \<times> pw_state) option" where
  "pw_produce_generic_msg cpu sleeping msg allow_wakeup s = (case msg of
     None \<Rightarrow> Some ((- 1, False), s)
   | Some (m, payload) \<Rightarrow> do {
       (p, s) \<leftarrow> get_producer_seg_i (msg_size m) cpu s;
       s \<leftarrow> (case p_seg p of
           None \<Rightarrow> Some s
         | Some i \<Rightarrow> do { b \<leftarrow> GET_OUTPUT_BUFFER cpu s; seg \<leftarrow> seg_at b i;
             seg \<leftarrow> store_msg (unat (p_write_index p)) m payload seg; Some (set_buffer cpu (set_seg i seg b) s) });
       (w, s) \<leftarrow> wake_reader (p_should_wakeup p \<and> allow_wakeup \<and> sleeping) cpu s;
       Some ((0, w), s) })"

definition store_and_count :: "int \<Rightarrow> pw_msg \<Rightarrow> u8 list \<Rightarrow> pw_output_buffer \<Rightarrow> pw_output_buffer option" where
  "store_and_count i m payload b = do { seg \<leftarrow> seg_at b i;
     seg \<leftarrow> store_msg (unat (bytes_written seg)) m payload seg;
     let b = set_seg i (seg\<lparr>bytes_written := bytes_written seg + msg_size m\<rparr>) b;
     Some (b\<lparr>produced_samples := produced_samples b + 1\<rparr>) }"

definition produce_in :: "pw_msg \<Rightarrow> u8 list \<Rightarrow> pw_output_buffer \<Rightarrow> (bool \<times> pw_output_buffer) option" where
  "produce_in m payload b = do {
     seg \<leftarrow> seg_at b (buff_index b);
     if SPACE_AVAIL seg < msg_size m then do {
       (r, b) \<leftarrow> pw_get_next_available_segment_i (msg_size m) (set_seg (buff_index b) (seg\<lparr>is_full := 1\<rparr>) b);
       case r of
         None \<Rightarrow> Some (True, b\<lparr>dropped_samples := dropped_samples b + 1\<rparr>)
       | Some i \<Rightarrow> do { b \<leftarrow> store_and_count i m payload b; Some (True, b) } }
     else do { b \<leftarrow> store_and_count (buff_index b) m payload b; Some (False, b) } }"

definition pw_produce_generic_msg_on_cpu :: "int \<Rightarrow> bool \<Rightarrow> pw_msg \<times> u8 list \<Rightarrow> bool \<Rightarrow> pw_state \<Rightarrow> ((int \<times> bool) \<times> pw_state) option" where
  "pw_produce_generic_msg_on_cpu cpu sleeping = (\<lambda>(m, payload) allow_wakeup s. do {
     b \<leftarrow> GET_OUTPUT_BUFFER cpu s;
     (wake, b) \<leftarrow> produce_in m payload b;
     (w, s) \<leftarrow> wake_reader (wake \<and> allow_wakeup \<and> sleeping) cpu (set_buffer cpu b s);
     Some ((0, w), s) })"

section \<open>Consuming\<close>

fun scan_segments :: "nat \<Rightarrow> bool \<Rightarrow> pw_output_buffer \<Rightarrow> (bool \<times> pw_output_buffer) option" where
  "scan_segments 0 flush b = Some (False, b)"
| "scan_segments (Suc k) flush b = (let l = (if last_seg_read b + 1 \<ge> int NUM_SEGS_PER_BUFFER then 0 else last_seg_read b + 1);
     b = b\<lparr>last_seg_read := l\<rparr> in do {
       seg \<leftarrow> seg_at b l;
       if is_full seg \<noteq> 0 \<or> (flush \<and> bytes_written seg > 0) then Some (True, b) else scan_segments k flush b })"

definition mask_of_segment :: "int \<Rightarrow> int \<Rightarrow> u32" where
  "mask_of_segment cpu seg = push_bit 16 (of_int cpu AND 0xffff) OR (of_int seg AND 0xffff)"

fun scan_buffers :: "nat \<Rightarrow> bool \<Rightarrow> pw_state \<Rightarrow> (u32 option \<times> pw_state) option" where
  "scan_buffers 0 flush s = Some (None, s)"
| "scan_buffers (Suc k) flush s =
     (let c = (if pw_last_cpu_read s + 1 \<ge> GET_NUM_OUTPUT_BUFFERS s then 0 else pw_last_cpu_read s + 1);
          s = s\<lparr>pw_last_cpu_read := c\<rparr> in do {
        b \<leftarrow> GET_OUTPUT_BUFFER c s;
        (found, b) \<leftarrow> scan_segments NUM_SEGS_PER_BUFFER flush b;
        let s = set_buffer c b s;
        if found then Some (Some (mask_of_segment c (last_seg_read b)), s) else scan_buffers k flush s })"

text \<open>The two results of \<open>pw_any_seg_full\<close>: its value and what it stores at \<open>val\<close>.\<close>

definition pw_any_seg_full :: "bool \<Rightarrow> pw_state \<Rightarrow> ((bool \<times> u32) \<times> pw_state) option" where
  "pw_any_seg_full flush s = do {
     (r, s) \<leftarrow> scan_buffers (nat (GET_NUM_OUTPUT_BUFFERS s)) flush s;
     Some (case r of Some m \<Rightarrow> (True, m)
       | None \<Rightarrow> if flush then (True, PW_ALL_WRITES_DONE_MASK) else (False, PW_NO_DATA_AVAIL_MASK), s) }"

text \<open>
  \<open>not_copied\<close> is the answer of \<open>copy_to_user\<close>. The result is the return value, what \<open>bytes_read\<close> is set
  to, if anything, and the bytes handed to \<open>copy_to_user\<close>.
\<close>

definition pw_consume_data :: "nat \<Rightarrow> u32 \<Rightarrow> bool \<Rightarrow> nat \<Rightarrow> pw_state \<Rightarrow> ((u64 \<times> u32 option \<times> u8 list) \<times> pw_state) option" where
  "pw_consume_data not_copied msk null bytes_to_read s =
     (if null then Some ((- 1, None, []), s)
      else if bytes_to_read \<noteq> PW_DATA_BUFFER_SIZE then Some ((of_nat bytes_to_read, None, []), s)
      else let which_cpu = uint (drop_bit 16 msk); which_seg = uint (msk AND 0xffff) in
        if which_seg \<ge> int NUM_SEGS_PER_BUFFER then Some ((of_nat bytes_to_read, None, []), s)
        else do {
          b \<leftarrow> GET_OUTPUT_BUFFER which_cpu s;
          seg \<leftarrow> seg_at b which_seg;
          d \<leftarrow> read_bytes 0 (unat (bytes_written seg)) (seg_data seg);
          let s = set_buffer which_cpu (set_seg which_seg (seg\<lparr>bytes_written := 0, is_full := 0\<rparr>) b) s;
          Some ((of_nat not_copied, if not_copied = 0 then Some (bytes_written seg) else None, d), s) })"

text \<open>
  \<open>pw_device_read\<close>: waiting for the condition once and, as long as no data is announced though the
  condition holds, again. The loop has no bound in the code; \<open>Read_Spins\<close> is the end of the fuel.
\<close>

datatype pw_read_result = Read_Returns int "u8 list" | Read_Waits | Read_Spins

fun pw_device_read :: "nat \<Rightarrow> bool \<Rightarrow> bool \<Rightarrow> bool \<Rightarrow> nat \<Rightarrow> nat \<Rightarrow> pw_state \<Rightarrow> (pw_read_result \<times> pw_state) option" where
  "pw_device_read 0 collecting sleeping drain not_copied len s = Some (Read_Spins, s)"
| "pw_device_read (Suc fuel) collecting sleeping drain not_copied len s = do {
     ((f, val), s) \<leftarrow> pw_any_seg_full drain s;
     if \<not> f \<and> (collecting \<or> sleeping) then Some (Read_Waits, s)
     else if val = PW_NO_DATA_AVAIL_MASK then pw_device_read fuel collecting sleeping drain not_copied len s
     else if val = PW_ALL_WRITES_DONE_MASK then Some (Read_Returns 0 [], s)
     else do {
       ((r, n, d), s) \<leftarrow> pw_consume_data not_copied val False len s;
       Some (if r \<noteq> 0 then Read_Returns (- 1) [] else Read_Returns (case n of None \<Rightarrow> 0 | Some n \<Rightarrow> uint n) d, s) } }"

text \<open>Whether \<open>poll\<close> reports the device as readable.\<close>

definition pw_device_poll :: "bool \<Rightarrow> bool \<Rightarrow> pw_state \<Rightarrow> (bool \<times> pw_state) option" where
  "pw_device_poll collecting drain s = (if \<not> collecting then Some (True, s)
     else do { ((f, val), s) \<leftarrow> pw_any_seg_full drain s; Some (f, s) })"

section \<open>Allocation, release and reset\<close>

definition zero_segment :: pw_data_buffer where
  "zero_segment = \<lparr>bytes_written = 0, is_full = 0, seg_data = replicate PW_SEG_DATA_SIZE 0\<rparr>"

definition zero_buffer :: pw_output_buffer where
  "zero_buffer = \<lparr>segments = [], buff_index = 0, produced_samples = 0, dropped_samples = 0, last_seg_read = 0,
     free_pages = False, mem_alloc_size = 0\<rparr>"

text \<open>Its effect is the release of memory; the count of released page blocks is the first result.\<close>

definition pw_destroy_per_cpu_buffers :: "pw_state \<Rightarrow> (nat \<times> pw_state) option" where
  "pw_destroy_per_cpu_buffers s = (case per_cpu_output_buffers s of
     None \<Rightarrow> Some (0, s)
   | Some bs \<Rightarrow> do {
       n \<leftarrow> foldm (\<lambda>cpu n. do { b \<leftarrow> list_at bs cpu; Some (if free_pages b then n + 1 else n) })
         [0 ..< nat (GET_NUM_OUTPUT_BUFFERS s)] 0;
       Some (n, s\<lparr>per_cpu_output_buffers := None\<rparr>) })"

text \<open>\<open>pages cpu\<close>: whether the pages of this buffer can be allocated; \<open>alloc_size\<close> what \<open>get_order\<close> rounds up to.\<close>

fun init_buffers :: "(nat \<Rightarrow> bool) \<Rightarrow> nat \<Rightarrow> nat list \<Rightarrow> pw_state \<Rightarrow> (bool \<times> pw_state) option" where
  "init_buffers pages alloc_size [] s = Some (True, s)"
| "init_buffers pages alloc_size (cpu # cpus) s = do {
     b \<leftarrow> GET_OUTPUT_BUFFER (int cpu) s;
     let b = b\<lparr>mem_alloc_size := PW_DATA_BUFFER_SIZE * NUM_SEGS_PER_BUFFER, free_pages := pages cpu\<rparr>;
     let s = (set_buffer (int cpu) b s)\<lparr>pw_buffer_alloc_size := pw_buffer_alloc_size s + alloc_size\<rparr>;
     if \<not> pages cpu then Some (False, s)
     else init_buffers pages alloc_size cpus
       (set_buffer (int cpu) (b\<lparr>segments := replicate NUM_SEGS_PER_BUFFER zero_segment\<rparr>) s) }"

definition pw_init_per_cpu_buffers :: "bool \<Rightarrow> (nat \<Rightarrow> bool) \<Rightarrow> nat \<Rightarrow> pw_state \<Rightarrow> (int \<times> pw_state) option" where
  "pw_init_per_cpu_buffers kmalloc_ok pages alloc_size s =
     (if GET_NUM_OUTPUT_BUFFERS s \<le> 0 then Some (- 1, s)
      else let n = nat (GET_NUM_OUTPUT_BUFFERS s);
        s = s\<lparr>per_cpu_output_buffers := if kmalloc_ok then Some (replicate n zero_buffer) else None\<rparr> in
      if \<not> kmalloc_ok then do { (_, s) \<leftarrow> pw_destroy_per_cpu_buffers s; Some (- 1, s) }
      else do {
        (ok, s) \<leftarrow> init_buffers pages alloc_size [0 ..< n] s;
        if ok then Some (0, s) else do { (_, s) \<leftarrow> pw_destroy_per_cpu_buffers s; Some (- 1, s) } })"

definition reset_buffer :: "pw_output_buffer \<Rightarrow> pw_output_buffer option" where
  "reset_buffer b = (if length (segments b) < NUM_SEGS_PER_BUFFER then None
     else Some (b\<lparr>buff_index := 0, dropped_samples := 0, produced_samples := 0, last_seg_read := - 1,
       segments := replicate NUM_SEGS_PER_BUFFER zero_segment\<rparr>))"

definition pw_reset_per_cpu_buffers :: "pw_state \<Rightarrow> pw_state option" where
  "pw_reset_per_cpu_buffers s = do {
     s \<leftarrow> foldm (\<lambda>cpu s. do { b \<leftarrow> GET_OUTPUT_BUFFER (int cpu) s; b \<leftarrow> reset_buffer b; Some (set_buffer (int cpu) b s) })
       [0 ..< nat (GET_NUM_OUTPUT_BUFFERS s)] s;
     Some (s\<lparr>pw_last_cpu_read := - 1, pw_last_mask := - 1\<rparr>) }"

definition pw_count_samples_produced_dropped :: "pw_state \<Rightarrow> pw_state option" where
  "pw_count_samples_produced_dropped s = (let s = s\<lparr>pw_num_samples_produced := 0, pw_num_samples_dropped := 0\<rparr> in
     if per_cpu_output_buffers s = None then Some s
     else foldm (\<lambda>cpu s. do { b \<leftarrow> GET_OUTPUT_BUFFER (int cpu) s;
         Some (s\<lparr>pw_num_samples_dropped := pw_num_samples_dropped s + ucast (dropped_samples b),
           pw_num_samples_produced := pw_num_samples_produced s + ucast (produced_samples b)\<rparr>) })
       [0 ..< nat (GET_NUM_OUTPUT_BUFFERS s)] s)"

end
