(* ===== verification/PwBuffer_Correct.thy ===== *)
theory PwBuffer_Correct
  imports PwBuffer "HOL-Library.Multiset" "HOL-Library.Sublist"
begin

text \<open>
  What the output buffers of the power driver promise: records are stored and handed out whole, none
  is lost that was not counted as dropped, none is handed out twice. What they do not promise is
  order, and that a read returns.
\<close>

section \<open>Records\<close>

text \<open>A record is its 14 byte header, which has the length of the payload at its bytes 8 and 9, and the payload.\<close>

definition payload_len :: "u8 list \<Rightarrow> nat" where
  "payload_len bs = unat (of_le (take 2 (drop 8 bs)))"

definition is_record :: "u8 list \<Rightarrow> bool" where
  "is_record r = (length r \<ge> 14 \<and> length r = 14 + payload_len r)"

text \<open>How a reader splits the contents of a segment.\<close>

function parse_records :: "u8 list \<Rightarrow> u8 list list option" where
  "parse_records bs = (if bs = [] then Some []
     else if length bs < 14 + payload_len bs then None
     else do { rs \<leftarrow> parse_records (drop (14 + payload_len bs) bs); Some (take (14 + payload_len bs) bs # rs) })"
  by pat_completeness auto
termination by (relation "measure length") auto

declare parse_records.simps [simp del]

lemma parse_Nil [simp]: "parse_records [] = Some []"
  by (simp add: parse_records.simps)

lemma payload_len_append: "10 \<le> length r \<Longrightarrow> payload_len (r @ bs) = payload_len r"
  by (simp add: payload_len_def)

lemma parse_Cons:
  assumes "is_record r"
  shows "parse_records (r @ bs) = map_option ((#) r) (parse_records bs)"
proof -
  have "payload_len (r @ bs) = payload_len r" using assms by (intro payload_len_append) (simp add: is_record_def)
  moreover have "r \<noteq> []" "length r = 14 + payload_len r" using assms by (auto simp: is_record_def)
  ultimately show ?thesis
    by (subst parse_records.simps) (simp add: map_option_case split: Option.bind_split option.split)
qed

lemma parse_append: "parse_records as = Some rs \<Longrightarrow> parse_records (as @ bs) = map_option ((@) rs) (parse_records bs)"
proof (induction as arbitrary: rs rule: parse_records.induct)
  case (1 as)
  show ?case
  proof (cases "as = []")
    case True
    then show ?thesis using 1(2) by (simp add: option.map_id0 map_option_case split: option.split)
  next
    case False
    let ?n = "14 + payload_len as"
    from 1(2) False obtain rs' where rs: "\<not> length as < ?n" "parse_records (drop ?n as) = Some rs'" "rs = take ?n as # rs'"
      by (subst (asm) parse_records.simps) (auto simp: bind_eq_Some_conv split: if_splits)
    have r: "is_record (take ?n as)"
    proof -
      have "payload_len (take ?n as @ drop ?n as) = payload_len (take ?n as)" by (rule payload_len_append) (use rs(1) in simp)
      then show ?thesis using rs(1) by (simp add: is_record_def)
    qed
    have e: "take ?n as @ drop ?n as @ bs = as @ bs" by (metis append_assoc append_take_drop_id)
    have "parse_records (as @ bs) = map_option ((#) (take ?n as)) (parse_records (drop ?n as @ bs))"
      using parse_Cons[OF r, of "drop ?n as @ bs"] unfolding e .
    also have "parse_records (drop ?n as @ bs) = map_option ((@) rs') (parse_records bs)"
      using 1(1)[OF False rs(1) rs(2)] .
    finally show ?thesis using rs(3) by (simp add: option.map_comp comp_def)
  qed
qed

definition record_of :: "pw_msg \<Rightarrow> u8 list \<Rightarrow> u8 list" where
  "record_of m payload = msg_header m @ take (unat (m_data_len m)) payload"

lemma length_header [simp]: "length (msg_header m) = 14"
  by (simp add: msg_header_def)

lemma payload_len_record: "payload_len (record_of m payload) = unat (m_data_len m)"
proof -
  have "take 2 (drop 8 (record_of m payload)) = le_bytes 2 (ucast (m_data_len m))"
    by (simp add: record_of_def msg_header_def)
  moreover have "of_le (le_bytes 2 (ucast (m_data_len m) :: u64)) = (ucast (m_data_len m) :: u64)"
    by (simp add: of_le_bytes) (rule bit_word_eqI, auto simp: bit_simps dest: bit_imp_le_length)
  ultimately show ?thesis by (simp add: payload_len_def unsigned_ucast_eq take_bit_nat_eq_self order_less_trans [OF unsigned_less])
qed

lemma is_record_of: "unat (m_data_len m) \<le> length payload \<Longrightarrow> is_record (record_of m payload)"
  by (simp add: is_record_def payload_len_record) (simp add: record_of_def)

section \<open>Well-formed buffers\<close>

definition contents :: "pw_data_buffer \<Rightarrow> u8 list" where
  "contents seg = take (unat (bytes_written seg)) (seg_data seg)"

definition seg_ok :: "pw_data_buffer \<Rightarrow> bool" where
  "seg_ok seg = (length (seg_data seg) = PW_SEG_DATA_SIZE \<and> unat (bytes_written seg) \<le> PW_SEG_DATA_SIZE \<and>
     parse_records (contents seg) \<noteq> None)"

definition buf_ok :: "pw_output_buffer \<Rightarrow> bool" where
  "buf_ok b = (length (segments b) = NUM_SEGS_PER_BUFFER \<and> (buff_index b = 0 \<or> buff_index b = 1) \<and>
     - 1 \<le> last_seg_read b \<and> last_seg_read b < 2 \<and> (\<forall>seg \<in> set (segments b). seg_ok seg))"

definition pw_ok :: "pw_state \<Rightarrow> bool" where
  "pw_ok s = (0 \<le> pw_max_num_cpus s \<and> - 1 \<le> pw_last_cpu_read s \<and>
     pw_max_num_cpus s < 65535 \<and> pw_last_cpu_read s < GET_NUM_OUTPUT_BUFFERS s \<and>
     (\<exists>bs. per_cpu_output_buffers s = Some bs \<and> int (length bs) = GET_NUM_OUTPUT_BUFFERS s \<and> (\<forall>b \<in> set bs. buf_ok b)))"

definition room :: "pw_data_buffer \<Rightarrow> nat \<Rightarrow> bool" where
  "room seg n = (is_full seg = 0 \<and> unat (bytes_written seg) + n \<le> PW_SEG_DATA_SIZE \<or> n = 0)"

lemma space_room:
  assumes "seg_ok seg"
  shows "(SPACE_AVAIL seg < n) = (\<not> room seg (unat n))"
proof -
  have w: "unat (bytes_written seg) \<le> PW_SEG_DATA_SIZE" using assms by (simp add: seg_ok_def)
  have p: "unat (of_nat PW_SEG_DATA_SIZE :: u32) = PW_SEG_DATA_SIZE" by (simp add: PW_SEG_DATA_SIZE_def)
  have "bytes_written seg \<le> of_nat PW_SEG_DATA_SIZE" using w p by (simp add: word_le_nat_alt)
  then have "unat (of_nat PW_SEG_DATA_SIZE - bytes_written seg) = PW_SEG_DATA_SIZE - unat (bytes_written seg)"
    by (simp add: unat_sub p)
  then have "unat (SPACE_AVAIL seg) = (if is_full seg = 0 then PW_SEG_DATA_SIZE - unat (bytes_written seg) else 0)"
    by (simp add: SPACE_AVAIL_def)
  with w show ?thesis unfolding word_less_nat_alt room_def by (cases "is_full seg = 0") (simp_all, linarith+)
qed

lemma unat_msg_size: "unat (msg_size m) = 14 + unat (m_data_len m)"
proof -
  have "unat (m_data_len m) < 2 ^ 16" using unsigned_less[of "m_data_len m"] by simp
  then show ?thesis unfolding msg_size_def PW_MSG_HEADER_SIZE_def
    by (subst unat_plus_no_wrap) simp_all
qed

lemma length_msg_bytes [simp]: "length (msg_bytes m) = 22"
  by (simp add: msg_bytes_def)

text \<open>Storing a record behind the contents: no byte leaves the segment if the payload covers the pointer.\<close>

lemma store_ok:
  assumes ok: "seg_ok seg" and m: "unat (m_data_len m) \<le> length payload" "8 \<le> unat (m_data_len m)"
    and fit: "unat (bytes_written seg) + (14 + unat (m_data_len m)) \<le> PW_SEG_DATA_SIZE"
  shows "\<exists>d. store_msg (unat (bytes_written seg)) m payload seg = Some (seg\<lparr>seg_data := d\<rparr>) \<and> length d = PW_SEG_DATA_SIZE \<and>
    take (unat (bytes_written seg) + (14 + unat (m_data_len m))) d = contents seg @ record_of m payload"
proof -
  let ?w = "unat (bytes_written seg)" and ?n = "unat (m_data_len m)" and ?D = "seg_data seg"
  let ?d1 = "take ?w ?D @ msg_bytes m @ drop (?w + 22) ?D"
  let ?d2 = "take (?w + 14) ?d1 @ take ?n payload @ drop (?w + 14 + ?n) ?d1"
  have l: "length ?D = PW_SEG_DATA_SIZE" using ok by (simp add: seg_ok_def)
  have l1: "length ?d1 = PW_SEG_DATA_SIZE" using l fit m by simp
  have w1: "write_bytes ?w (msg_bytes m) ?D = Some ?d1" using l fit m by (simp add: write_bytes_def)
  have w2: "write_bytes (?w + PW_MSG_HEADER_SIZE) (take ?n payload) ?d1 = Some ?d2"
    using l1 fit m by (simp add: write_bytes_def PW_MSG_HEADER_SIZE_def)
  have "store_msg ?w m payload seg = Some (seg\<lparr>seg_data := ?d2\<rparr>)"
    using w1 w2 m by (simp add: store_msg_def read_bytes_def)
  moreover have "length ?d2 = PW_SEG_DATA_SIZE" using l fit m by simp
  moreover have "take (?w + (14 + ?n)) ?d2 = contents seg @ record_of m payload"
    using l fit m by (simp add: contents_def record_of_def msg_bytes_def)
  ultimately show ?thesis by blast
qed

text \<open>The effect on a segment.\<close>

definition grown :: "u8 list \<Rightarrow> pw_data_buffer \<Rightarrow> pw_data_buffer \<Rightarrow> bool" where
  "grown r seg seg' = (seg_ok seg' \<and> contents seg' = contents seg @ r \<and> is_full seg' = is_full seg \<and>
     parse_records (contents seg') = map_option (\<lambda>rs. rs @ [r]) (parse_records (contents seg)))"

lemma store_grows:
  assumes ok: "seg_ok seg" and m: "unat (m_data_len m) \<le> length payload" "8 \<le> unat (m_data_len m)"
    and fit: "unat (bytes_written seg) + (14 + unat (m_data_len m)) \<le> PW_SEG_DATA_SIZE"
  shows "\<exists>d. store_msg (unat (bytes_written seg)) m payload seg = Some (seg\<lparr>seg_data := d\<rparr>) \<and>
    grown (record_of m payload) seg (seg\<lparr>seg_data := d, bytes_written := bytes_written seg + msg_size m\<rparr>)"
proof -
  from store_ok[OF assms] obtain d where d: "store_msg (unat (bytes_written seg)) m payload seg = Some (seg\<lparr>seg_data := d\<rparr>)"
    "length d = PW_SEG_DATA_SIZE"
    "take (unat (bytes_written seg) + (14 + unat (m_data_len m))) d = contents seg @ record_of m payload" by blast
  have w: "unat (bytes_written seg + msg_size m) = unat (bytes_written seg) + (14 + unat (m_data_len m))"
    using fit by (subst unat_plus_no_wrap) (simp_all add: unat_msg_size PW_SEG_DATA_SIZE_def)
  let ?s = "seg\<lparr>seg_data := d, bytes_written := bytes_written seg + msg_size m\<rparr>"
  have c: "contents ?s = contents seg @ record_of m payload" using d(3) w by (simp add: contents_def)
  obtain rs where rs: "parse_records (contents seg) = Some rs" using ok by (auto simp: seg_ok_def)
  have "parse_records (record_of m payload @ []) = Some [record_of m payload]"
    using parse_Cons[OF is_record_of[OF m(1)], of "[]"] by simp
  then have "parse_records (contents ?s) = Some (rs @ [record_of m payload])"
    unfolding c parse_append[OF rs] by simp
  then have "grown (record_of m payload) seg ?s" using d(2) w fit c rs by (simp add: grown_def seg_ok_def)
  with d(1) show ?thesis by blast
qed

section \<open>Producing\<close>

text \<open>The two producers differ only in when they advance the write index.\<close>

lemma set_seg_twice: "set_seg i x (set_seg i y b) = set_seg i x b"
  by (simp add: set_seg_def)

lemma set_buffer_twice: "set_buffer c x (set_buffer c y s) = set_buffer c x s"
  by (cases s) (simp add: set_buffer_def option.map_comp comp_def)

lemma GET_set: "GET_OUTPUT_BUFFER c s = Some b \<Longrightarrow> GET_OUTPUT_BUFFER c (set_buffer c b' s) = Some b'"
  by (auto simp: GET_OUTPUT_BUFFER_def set_buffer_def bind_eq_Some_conv list_at_eq_Some split: if_splits)

lemma seg_at_set: "seg_at b i = Some seg \<Longrightarrow> seg_at (set_seg i x b) i = Some x"
  by (auto simp: seg_at_def set_seg_def list_at_eq_Some split: if_splits)

lemma store_msg_writes: "store_msg off m payload (seg\<lparr>bytes_written := x\<rparr>) = map_option (\<lambda>seg. seg\<lparr>bytes_written := x\<rparr>) (store_msg off m payload seg)"
  by (cases seg) (auto simp: store_msg_def map_option_case split: Option.bind_split option.splits)

lemma seg_at_count [simp]:
  "seg_at (b\<lparr>produced_samples := x\<rparr>) i = seg_at b i" "seg_at (b\<lparr>dropped_samples := x\<rparr>) i = seg_at b i"
  "seg_at (b\<lparr>buff_index := j\<rparr>) i = seg_at b i" "seg_at (b\<lparr>last_seg_read := j\<rparr>) i = seg_at b i"
  by (simp_all add: seg_at_def)

lemma set_seg_count [simp]:
  "set_seg i seg (b\<lparr>produced_samples := x\<rparr>) = (set_seg i seg b)\<lparr>produced_samples := x\<rparr>"
  by (simp add: set_seg_def)

lemma store_msg_same: "store_msg off m payload seg = Some seg' \<Longrightarrow> bytes_written seg' = bytes_written seg \<and> is_full seg' = is_full seg"
  by (auto simp: store_msg_def bind_eq_Some_conv)

lemma set_seg_same [simp]: "produced_samples (set_seg i seg b) = produced_samples b" "dropped_samples (set_seg i seg b) = dropped_samples b"
  "buff_index (set_seg i seg b) = buff_index b" "last_seg_read (set_seg i seg b) = last_seg_read b"
  by (simp_all add: set_seg_def)

text \<open>Storing after the reservation.\<close>

definition store_reserved :: "int \<Rightarrow> pw_msg \<Rightarrow> u8 list \<Rightarrow> producer_seg \<times> pw_output_buffer \<Rightarrow> pw_output_buffer option" where
  "store_reserved i m payload = (\<lambda>(p, b). do { seg \<leftarrow> seg_at b i; seg \<leftarrow> store_msg (unat (p_write_index p)) m payload seg;
     Some (set_seg i seg b) })"

lemma store_after_reserve:
  "do { pb \<leftarrow> reserve_in i (msg_size m) wake b; store_reserved i m payload pb } = store_and_count i m payload b"
proof (cases "seg_at b i")
  case (Some seg)
  then show ?thesis
    by (cases "store_msg (unat (bytes_written seg)) m payload seg")
      (auto simp: reserve_in_def store_reserved_def store_and_count_def seg_at_set[OF Some] store_msg_writes set_seg_twice Let_def
        dest: store_msg_same)
qed (simp add: reserve_in_def store_and_count_def)

lemma reserve_inE:
  assumes "reserve_in i n wake b = Some (p, b')"
  shows "p_seg p = Some i \<and> p_should_wakeup p = wake"
  using assms by (auto simp: reserve_in_def bind_eq_Some_conv Let_def)

text \<open>The whole of the first producer but the wake-up, on the buffer.\<close>

lemma finish_reserved:
  assumes "GET_OUTPUT_BUFFER c s = Some b0" "reserve_in i (msg_size m) wake b = Some (p, b')"
  shows "do { b \<leftarrow> GET_OUTPUT_BUFFER c (set_buffer c b' s); seg \<leftarrow> seg_at b i;
      seg \<leftarrow> store_msg (unat (p_write_index p)) m payload seg; Some (set_buffer c (set_seg i seg b) (set_buffer c b' s)) }
    = map_option (\<lambda>b. set_buffer c b s) (store_and_count i m payload b)"
proof -
  have "store_and_count i m payload b = store_reserved i m payload (p, b')"
    using store_after_reserve[of i m wake b payload] assms(2) by simp
  then show ?thesis using GET_set[OF assms(1)]
    by (simp add: store_reserved_def set_buffer_twice map_option_case split: Option.bind_split option.split)
qed

text \<open>What the first producer does after the reservation, and what both do at the end.\<close>

definition produce_end :: "int \<Rightarrow> bool \<Rightarrow> bool \<Rightarrow> bool \<Rightarrow> pw_state \<Rightarrow> ((int \<times> bool) \<times> pw_state) option" where
  "produce_end c sleeping allow wake s = do { (w, s) \<leftarrow> wake_reader (wake \<and> allow \<and> sleeping) c s; Some ((0, w), s) }"

definition produce_rest :: "int \<Rightarrow> bool \<Rightarrow> bool \<Rightarrow> pw_msg \<Rightarrow> u8 list \<Rightarrow> producer_seg \<Rightarrow> pw_state \<Rightarrow> ((int \<times> bool) \<times> pw_state) option" where
  "produce_rest c sleeping allow m payload p s = do {
     s \<leftarrow> (case p_seg p of None \<Rightarrow> Some s
       | Some i \<Rightarrow> do { b \<leftarrow> GET_OUTPUT_BUFFER c s; seg \<leftarrow> seg_at b i;
           seg \<leftarrow> store_msg (unat (p_write_index p)) m payload seg; Some (set_buffer c (set_seg i seg b) s) });
     produce_end c sleeping allow (p_should_wakeup p) s }"

lemma produce_generic_msg_eq: "pw_produce_generic_msg c sleeping (Some (m, payload)) allow s =
    do { (p, s) \<leftarrow> get_producer_seg_i (msg_size m) c s; produce_rest c sleeping allow m payload p s }"
  by (simp add: pw_produce_generic_msg_def produce_rest_def produce_end_def)

lemma produce_on_cpu_eq: "pw_produce_generic_msg_on_cpu c sleeping (m, payload) allow s =
    do { b \<leftarrow> GET_OUTPUT_BUFFER c s; (wake, b) \<leftarrow> produce_in m payload b; produce_end c sleeping allow wake (set_buffer c b s) }"
  by (simp add: pw_produce_generic_msg_on_cpu_def produce_end_def)

lemma rest_after_reserve:
  assumes "GET_OUTPUT_BUFFER c s = Some b"
  shows "do { (p, b) \<leftarrow> reserve_in i (msg_size m) wake b1; produce_rest c sleeping allow m payload p (set_buffer c b s) } =
    do { b \<leftarrow> store_and_count i m payload b1; produce_end c sleeping allow wake (set_buffer c b s) }"
proof (cases "reserve_in i (msg_size m) wake b1")
  case None
  then have "store_and_count i m payload b1 = None" using store_after_reserve[of i m wake b1 payload] by simp
  then show ?thesis using None by simp
next
  case (Some pb)
  obtain p b' where pb: "pb = (p, b')" by (cases pb)
  note e = reserve_inE[OF Some[unfolded pb]]
  note f = finish_reserved[OF assms Some[unfolded pb], of payload]
  show ?thesis
    by (cases "store_and_count i m payload b1") (use e f Some pb in \<open>auto simp: produce_rest_def bind_eq_Some_conv bind_eq_None_conv\<close>)
qed

text \<open>
  C27: the two producers of the power driver are equivalent. \<open>pw_produce_generic_msg\<close>, which reserves
  the place of a record, advances the write index and then copies the record, and
  \<open>pw_produce_generic_msg_on_cpu\<close>, which copies first and advances after, give the same result, the same
  buffers and counters and the same wake-up for every message, full and overflowing segments included,
  and fault on the same inputs, as long as the write index of the buffer is in range.
\<close>

theorem pw_producers_agree:
  assumes "GET_OUTPUT_BUFFER c s = Some b" "buff_index b = 0 \<or> buff_index b = 1"
  shows "pw_produce_generic_msg c sleeping (Some (m, payload)) allow s = pw_produce_generic_msg_on_cpu c sleeping (m, payload) allow s"
proof (cases "seg_at b (buff_index b)")
  case None
  then show ?thesis using assms
    by (auto simp: produce_generic_msg_eq produce_on_cpu_eq get_producer_seg_i_def produce_in_def NUM_SEGS_PER_BUFFER_def)
next
  case (Some seg)
  have idx: "\<not> (buff_index b < 0 \<or> buff_index b \<ge> int NUM_SEGS_PER_BUFFER)" using assms(2) by (auto simp: NUM_SEGS_PER_BUFFER_def)
  note defs = produce_generic_msg_eq produce_on_cpu_eq get_producer_seg_i_def produce_in_def
  note stored = rest_after_reserve[OF assms(1), of _ m _ _ sleeping allow payload]
  let ?n = "msg_size m" and ?b = "set_seg (buff_index b) (seg\<lparr>is_full := 1\<rparr>) b"
  show ?thesis
  proof (cases "SPACE_AVAIL seg < ?n")
    case False
    then show ?thesis using assms(1) idx Some stored[of "buff_index b" False b]
      by (cases "reserve_in (buff_index b) ?n False b"; cases "store_and_count (buff_index b) m payload b") (auto simp: defs)
  next
    case full: True
    show ?thesis
    proof (cases "pw_get_next_available_segment_i ?n ?b")
      case None
      then show ?thesis using assms(1) idx Some full by (auto simp: defs)
    next
      case next_seg: (Some rb)
      obtain r b1 where rb: "rb = (r, b1)" by (cases rb)
      show ?thesis
      proof (cases r)
        case None
        then show ?thesis using assms(1) idx Some full next_seg rb by (auto simp: defs produce_rest_def)
      next
        case (Some i)
        then show ?thesis using assms(1) idx \<open>seg_at b (buff_index b) = Some seg\<close> full next_seg rb stored[of i True b1]
          by (cases "reserve_in i ?n True b1"; cases "store_and_count i m payload b1") (auto simp: defs)
      qed
    qed
  qed
qed

text \<open>What one call does to the buffer of its CPU.\<close>

lemma circ [simp]: "CIRCULAR_INC 0 NUM_SEGS_PER_BUFFER_MASK = 1" "CIRCULAR_INC 1 NUM_SEGS_PER_BUFFER_MASK = 0"
  by (simp_all add: CIRCULAR_INC_def NUM_SEGS_PER_BUFFER_MASK_def)

lemma store_and_count_ok:
  assumes seg: "seg_at b i = Some seg" "seg_ok seg" and m: "unat (m_data_len m) \<le> length payload" "8 \<le> unat (m_data_len m)"
    and r: "room seg (unat (msg_size m))"
  shows "\<exists>seg'. grown (record_of m payload) seg seg' \<and>
    store_and_count i m payload b = Some ((set_seg i seg' b)\<lparr>produced_samples := produced_samples b + 1\<rparr>)"
proof -
  have "unat (bytes_written seg) + (14 + unat (m_data_len m)) \<le> PW_SEG_DATA_SIZE"
    using r by (auto simp: room_def unat_msg_size)
  from store_grows[OF seg(2) m this] obtain d where
    d: "store_msg (unat (bytes_written seg)) m payload seg = Some (seg\<lparr>seg_data := d\<rparr>)"
      "grown (record_of m payload) seg (seg\<lparr>seg_data := d, bytes_written := bytes_written seg + msg_size m\<rparr>)" by blast
  have e: "seg\<lparr>seg_data := d, bytes_written := x\<rparr> = (seg\<lparr>seg_data := d\<rparr>)\<lparr>bytes_written := x\<rparr>" for x by simp
  show ?thesis using d seg(1) unfolding store_and_count_def by (intro exI conjI) (simp_all add: Let_def)
qed

definition other :: "int \<Rightarrow> int" where
  "other i = 1 - i"

lemma produce_in_ok:
  assumes ok: "buf_ok b" and m: "unat (m_data_len m) \<le> length payload" "8 \<le> unat (m_data_len m)"
    and segs: "seg_at b (buff_index b) = Some cur" "seg_at b (other (buff_index b)) = Some oth"
  shows "if room cur (unat (msg_size m)) then \<exists>seg'. grown (record_of m payload) cur seg' \<and>
      produce_in m payload b = Some (False, (set_seg (buff_index b) seg' b)\<lparr>produced_samples := produced_samples b + 1\<rparr>)
    else if room oth (unat (msg_size m)) then \<exists>seg'. grown (record_of m payload) oth seg' \<and>
      produce_in m payload b = Some (True, (set_seg (other (buff_index b)) seg' (set_seg (buff_index b) (cur\<lparr>is_full := 1\<rparr>) b))
        \<lparr>buff_index := other (buff_index b), produced_samples := produced_samples b + 1\<rparr>)
    else produce_in m payload b = Some (True, (set_seg (buff_index b) (cur\<lparr>is_full := 1\<rparr>) b)
        \<lparr>dropped_samples := dropped_samples b + 1\<rparr>)"
proof -
  let ?i = "buff_index b" and ?n = "unat (msg_size m)" and ?b = "set_seg (buff_index b) (cur\<lparr>is_full := 1\<rparr>) b"
  have i: "?i = 0 \<or> ?i = 1" using ok by (simp add: buf_ok_def)
  have "\<forall>seg \<in> set (segments b). seg_ok seg" using ok by (simp add: buf_ok_def)
  then have so: "seg_ok cur" "seg_ok oth" using segs by (auto simp: seg_at_def list_at_eq_Some split: if_splits)
  have n0: "?n \<noteq> 0" by (simp add: unat_msg_size)
  then have pos: "\<not> msg_size m \<le> 0" by auto
  have inc: "CIRCULAR_INC ?i NUM_SEGS_PER_BUFFER_MASK = other ?i" "CIRCULAR_INC (other ?i) NUM_SEGS_PER_BUFFER_MASK = ?i"
    using i by (auto simp: other_def)
  have at: "seg_at ?b (other ?i) = Some oth" "seg_at ?b ?i = Some (cur\<lparr>is_full := 1\<rparr>)"
    using segs i by (auto simp: seg_at_def set_seg_def other_def list_at_eq_Some split: if_splits)
  have nx: "pw_get_next_available_segment_i (msg_size m) ?b =
      Some (if room oth ?n then (Some (other ?i), ?b\<lparr>buff_index := other ?i\<rparr>) else (None, ?b))"
  proof -
    have full: "SPACE_AVAIL (cur\<lparr>is_full := 1\<rparr>) = 0" by (simp add: SPACE_AVAIL_def)
    have fits: "(msg_size m \<le> SPACE_AVAIL oth) = room oth ?n" using space_room[OF so(2), of "msg_size m"] linorder_not_less by blast
    have "next_segment NUM_SEGS_PER_BUFFER ?i (msg_size m) ?b = Some (if room oth ?n then Some (other ?i) else None)"
      using pos by (simp only: NUM_SEGS_PER_BUFFER_def numeral_2_eq_2 next_segment.simps Let_def inc at Option.bind.bind_lunit) (simp add: fits full)
    then show ?thesis by (simp add: pw_get_next_available_segment_i_def)
  qed
  show ?thesis
  proof (cases "room cur ?n")
    case True
    from store_and_count_ok[OF segs(1) so(1) m True] True show ?thesis
      using segs(1) space_room[OF so(1), of "msg_size m"] by (auto simp: produce_in_def)
  next
    case False
    note f = False
    show ?thesis
    proof (cases "room oth ?n")
      case True
      have "seg_at (?b\<lparr>buff_index := other ?i\<rparr>) (other ?i) = Some oth" using at by simp
      from store_and_count_ok[OF this so(2) m True] obtain seg' where
        "grown (record_of m payload) oth seg'"
        "store_and_count (other ?i) m payload (?b\<lparr>buff_index := other ?i\<rparr>) =
          Some ((set_seg (other ?i) seg' (?b\<lparr>buff_index := other ?i\<rparr>))\<lparr>produced_samples := produced_samples b + 1\<rparr>)" by auto
      moreover have "(set_seg (other ?i) seg' (?b\<lparr>buff_index := other ?i\<rparr>))\<lparr>produced_samples := produced_samples b + 1\<rparr> =
          (set_seg (other ?i) seg' ?b)\<lparr>buff_index := other ?i, produced_samples := produced_samples b + 1\<rparr>"
        by (simp add: set_seg_def)
      ultimately show ?thesis using f True nx segs(1) space_room[OF so(1), of "msg_size m"]
        by (auto simp: produce_in_def)
    next
      case False
      then show ?thesis using f nx segs(1) space_room[OF so(1), of "msg_size m"] by (auto simp: produce_in_def)
    qed
  qed
qed

section \<open>Accounting\<close>

text \<open>The records that wait in a segment, a buffer, and all buffers, as bags.\<close>

definition seg_bag :: "pw_data_buffer \<Rightarrow> u8 list multiset" where
  "seg_bag seg = (case parse_records (contents seg) of Some rs \<Rightarrow> mset rs | None \<Rightarrow> {#})"

definition buf_bag :: "pw_output_buffer \<Rightarrow> u8 list multiset" where
  "buf_bag b = sum_list (map seg_bag (segments b))"

definition pw_bag :: "pw_state \<Rightarrow> u8 list multiset" where
  "pw_bag s = (case per_cpu_output_buffers s of Some bs \<Rightarrow> sum_list (map buf_bag bs) | None \<Rightarrow> {#})"

lemma sum_list_upd:
  fixes f :: "'a \<Rightarrow> 'b multiset"
  shows "i < length xs \<Longrightarrow> sum_list (map f (xs[i := x])) + f (xs ! i) = sum_list (map f xs) + f x"
proof (induction xs arbitrary: i)
  case (Cons y ys)
  then show ?case by (cases i) (simp_all add: ac_simps add.left_commute)
qed simp

lemma set_seg_bag: "seg_at b i = Some seg \<Longrightarrow> buf_bag (set_seg i seg' b) + seg_bag seg = buf_bag b + seg_bag seg'"
  using sum_list_upd[of "nat i" "segments b" seg_bag seg']
  by (auto simp: buf_bag_def set_seg_def seg_at_def list_at_eq_Some split: if_splits)

lemma set_buffer_bag: "GET_OUTPUT_BUFFER c s = Some b \<Longrightarrow> pw_bag (set_buffer c b' s) + buf_bag b = pw_bag s + buf_bag b'"
  using sum_list_upd[of "nat c" "the (per_cpu_output_buffers s)" buf_bag b']
  by (auto simp: pw_bag_def set_buffer_def GET_OUTPUT_BUFFER_def bind_eq_Some_conv list_at_eq_Some split: if_splits)

lemma buf_bag_same [simp]: "buf_bag (b\<lparr>produced_samples := x\<rparr>) = buf_bag b" "buf_bag (b\<lparr>dropped_samples := x\<rparr>) = buf_bag b"
  "buf_bag (b\<lparr>buff_index := j\<rparr>) = buf_bag b" "buf_bag (b\<lparr>last_seg_read := j\<rparr>) = buf_bag b"
  by (simp_all add: buf_bag_def)

lemma grown_bag:
  assumes "grown r seg seg'" "seg_ok seg"
  shows "seg_bag seg' = seg_bag seg + {#r#}"
  using assms by (auto simp: grown_def seg_bag_def seg_ok_def)

lemma set_seg_ok: "buf_ok b \<Longrightarrow> seg_ok seg \<Longrightarrow> buf_ok (set_seg i seg b)"
  using set_update_subset_insert[of "segments b" "nat i" seg] by (auto simp: buf_ok_def set_seg_def)

lemma buf_ok_same [simp]: "buf_ok (b\<lparr>produced_samples := x\<rparr>) = buf_ok b" "buf_ok (b\<lparr>dropped_samples := x\<rparr>) = buf_ok b"
  by (simp_all add: buf_ok_def)

lemma full_seg [simp]: "contents (seg\<lparr>is_full := x\<rparr>) = contents seg" "seg_ok (seg\<lparr>is_full := x\<rparr>) = seg_ok seg"
  "seg_bag (seg\<lparr>is_full := x\<rparr>) = seg_bag seg"
  by (simp_all add: contents_def seg_ok_def seg_bag_def)

lemma buf_segs:
  assumes "buf_ok b"
  obtains cur oth where "seg_at b (buff_index b) = Some cur" "seg_at b (other (buff_index b)) = Some oth" "seg_ok cur" "seg_ok oth"
proof -
  from assms have l: "length (segments b) = 2" "\<forall>i < 2. seg_ok (segments b ! i)" "buff_index b = 0 \<or> buff_index b = 1"
    by (auto simp: buf_ok_def NUM_SEGS_PER_BUFFER_def)
  then show thesis using that[of "segments b ! nat (buff_index b)" "segments b ! nat (other (buff_index b))"]
    by (auto simp: seg_at_def other_def)
qed

text \<open>A call stores the record, whole, or counts it as dropped.\<close>

lemma produce_in_account:
  assumes ok: "buf_ok b" and m: "unat (m_data_len m) \<le> length payload" "8 \<le> unat (m_data_len m)"
  shows "\<exists>wake b'. produce_in m payload b = Some (wake, b') \<and> buf_ok b' \<and>
    (buf_bag b' = buf_bag b + {#record_of m payload#} \<and> produced_samples b' = produced_samples b + 1 \<and> dropped_samples b' = dropped_samples b \<or>
     buf_bag b' = buf_bag b \<and> produced_samples b' = produced_samples b \<and> dropped_samples b' = dropped_samples b + 1)"
proof -
  from buf_segs[OF ok] obtain cur oth where segs: "seg_at b (buff_index b) = Some cur" "seg_at b (other (buff_index b)) = Some oth"
    "seg_ok cur" "seg_ok oth" .
  let ?i = "buff_index b" and ?b = "set_seg (buff_index b) (cur\<lparr>is_full := 1\<rparr>) b"
  have i: "?i = 0 \<or> ?i = 1" using ok by (simp add: buf_ok_def)
  note p = produce_in_ok[OF ok m segs(1,2)]
  have b1: "buf_ok ?b" "buf_bag ?b = buf_bag b"
    using set_seg_ok[OF ok] segs(3) set_seg_bag[OF segs(1), of "cur\<lparr>is_full := 1\<rparr>"] by simp_all
  consider (cur) "room cur (unat (msg_size m))" | (oth) "\<not> room cur (unat (msg_size m))" "room oth (unat (msg_size m))"
    | (none) "\<not> room cur (unat (msg_size m))" "\<not> room oth (unat (msg_size m))" by blast
  then show ?thesis
  proof cases
    case cur
    with p obtain seg' where g: "grown (record_of m payload) cur seg'"
      "produce_in m payload b = Some (False, (set_seg ?i seg' b)\<lparr>produced_samples := produced_samples b + 1\<rparr>)" by auto
    have s: "seg_ok seg'" using g(1) by (simp add: grown_def)
    have "buf_bag (set_seg ?i seg' b) = buf_bag b + {#record_of m payload#}"
      using set_seg_bag[OF segs(1), of seg'] unfolding grown_bag[OF g(1) segs(3)] by (simp add: ac_simps)
    then show ?thesis using g(2) set_seg_ok[OF ok s, of ?i] by (simp add: ex_bool_eq)
  next
    case oth
    with p obtain seg' where g: "grown (record_of m payload) oth seg'"
      "produce_in m payload b = Some (True, (set_seg (other ?i) seg' ?b)\<lparr>buff_index := other ?i, produced_samples := produced_samples b + 1\<rparr>)" by auto
    have s: "seg_ok seg'" using g(1) by (simp add: grown_def)
    have at: "seg_at ?b (other ?i) = Some oth" using segs i by (auto simp: seg_at_def set_seg_def other_def list_at_eq_Some split: if_splits)
    have "buf_ok ((set_seg (other ?i) seg' ?b)\<lparr>buff_index := other ?i\<rparr>)"
      using set_seg_ok[OF b1(1) s, of "other ?i"] i by (auto simp: buf_ok_def other_def)
    then have "buf_ok ((set_seg (other ?i) seg' ?b)\<lparr>buff_index := other ?i, produced_samples := produced_samples b + 1\<rparr>)" by simp
    moreover have "buf_bag (set_seg (other ?i) seg' ?b) = buf_bag b + {#record_of m payload#}"
      using set_seg_bag[OF at, of seg'] unfolding grown_bag[OF g(1) segs(4)] b1(2) by (simp add: ac_simps)
    ultimately show ?thesis using g(2) by (simp add: ex_bool_eq)
  next
    case none
    with p show ?thesis using b1 by (simp add: ex_bool_eq)
  qed
qed


text \<open>On the state.\<close>

definition pw_drops :: "pw_state \<Rightarrow> u32" where
  "pw_drops s = (case per_cpu_output_buffers s of Some bs \<Rightarrow> sum_list (map dropped_samples bs) | None \<Rightarrow> 0)"

lemma sum_list_upd_drops:
  fixes f :: "'a \<Rightarrow> u32"
  shows "i < length xs \<Longrightarrow> sum_list (map f (xs[i := x])) = sum_list (map f xs) + f x - f (xs ! i)"
proof (induction xs arbitrary: i)
  case (Cons y ys)
  then show ?case by (cases i) simp_all
qed simp

lemma set_buffer_drops: "GET_OUTPUT_BUFFER c s = Some b \<Longrightarrow> pw_drops (set_buffer c b' s) = pw_drops s + dropped_samples b' - dropped_samples b"
  using sum_list_upd_drops[of "nat c" "the (per_cpu_output_buffers s)" dropped_samples b']
  by (auto simp: pw_drops_def set_buffer_def GET_OUTPUT_BUFFER_def bind_eq_Some_conv list_at_eq_Some split: if_splits)

lemma set_buffer_same [simp]: "pw_max_num_cpus (set_buffer c b s) = pw_max_num_cpus s" "pw_last_cpu_read (set_buffer c b s) = pw_last_cpu_read s"
  "GET_NUM_OUTPUT_BUFFERS (set_buffer c b s) = GET_NUM_OUTPUT_BUFFERS s" "reader_map (set_buffer c b s) = reader_map s"
  by (simp_all add: set_buffer_def GET_NUM_OUTPUT_BUFFERS_def)

lemma pw_ok_set_buffer:
  assumes "pw_ok s" "buf_ok b"
  shows "pw_ok (set_buffer c b s)"
proof -
  from assms(1) obtain bs where bs: "per_cpu_output_buffers s = Some bs" "int (length bs) = GET_NUM_OUTPUT_BUFFERS s" "\<forall>b \<in> set bs. buf_ok b"
    by (auto simp: pw_ok_def)
  have "\<forall>x \<in> set (bs[nat c := b]). buf_ok x" using bs(3) assms(2) set_update_subset_insert[of bs "nat c" b] by auto
  moreover have "per_cpu_output_buffers (set_buffer c b s) = Some (bs[nat c := b])" using bs(1) by (simp add: set_buffer_def)
  ultimately show ?thesis using assms(1) bs(2) by (simp add: pw_ok_def)
qed

lemma pw_ok_buffer:
  assumes "pw_ok s" "0 \<le> c" "c < GET_NUM_OUTPUT_BUFFERS s"
  obtains b where "GET_OUTPUT_BUFFER c s = Some b" "buf_ok b"
proof -
  from assms(1) obtain bs where bs: "per_cpu_output_buffers s = Some bs" "int (length bs) = GET_NUM_OUTPUT_BUFFERS s" "\<forall>b \<in> set bs. buf_ok b"
    by (auto simp: pw_ok_def)
  have l: "nat c < length bs" using assms(2,3) bs(2) by linarith
  show thesis by (rule that[of "bs ! nat c"]) (use bs l assms(2) in \<open>simp_all add: GET_OUTPUT_BUFFER_def\<close>)
qed

lemma reader_map_same [simp]: "pw_ok (s\<lparr>reader_map := x\<rparr>) = pw_ok s" "pw_bag (s\<lparr>reader_map := x\<rparr>) = pw_bag s"
  "pw_drops (s\<lparr>reader_map := x\<rparr>) = pw_drops s" "GET_NUM_OUTPUT_BUFFERS (s\<lparr>reader_map := x\<rparr>) = GET_NUM_OUTPUT_BUFFERS s"
  by (simp_all add: pw_ok_def pw_bag_def pw_drops_def GET_NUM_OUTPUT_BUFFERS_def)

lemma wake_reader_ok:
  assumes "wake \<longrightarrow> c < 64" "0 \<le> c"
  shows "\<exists>w x. wake_reader wake c s = Some (w, s\<lparr>reader_map := x\<rparr>)"
proof (cases wake)
  case True
  then have "(of_int c :: u32) < 64" using assms by (cases c) (simp_all add: word_less_nat_alt unat_of_nat_u32)
  then have "wake_reader wake c s = Some (True, s\<lparr>reader_map := reader_map s OR push_bit (unat (of_int c :: u32)) 1\<rparr>)"
    using True by (simp add: wake_reader_def bit_u64_Some)
  then show ?thesis by blast
next
  case False
  then have "wake_reader wake c s = Some (False, s\<lparr>reader_map := reader_map s\<rparr>)" by (simp add: wake_reader_def)
  then show ?thesis by blast
qed

lemma produce_account:
  assumes ok: "pw_ok s" and c: "0 \<le> c" "c < GET_NUM_OUTPUT_BUFFERS s"
    and m: "unat (m_data_len m) \<le> length payload" "8 \<le> unat (m_data_len m)" and wake: "sleeping \<and> allow \<longrightarrow> c < 64"
  shows "\<exists>w s'. pw_produce_generic_msg_on_cpu c sleeping (m, payload) allow s = Some ((0, w), s') \<and> pw_ok s' \<and>
    GET_NUM_OUTPUT_BUFFERS s' = GET_NUM_OUTPUT_BUFFERS s \<and>
    (pw_bag s' = pw_bag s + {#record_of m payload#} \<and> pw_drops s' = pw_drops s \<or> pw_bag s' = pw_bag s \<and> pw_drops s' = pw_drops s + 1)"
proof -
  from pw_ok_buffer[OF ok c] obtain b where b: "GET_OUTPUT_BUFFER c s = Some b" "buf_ok b" .
  from produce_in_account[OF b(2) m] obtain wk b' where
    p: "produce_in m payload b = Some (wk, b')" "buf_ok b'" and
    acc: "buf_bag b' = buf_bag b + {#record_of m payload#} \<and> dropped_samples b' = dropped_samples b \<or>
      buf_bag b' = buf_bag b \<and> dropped_samples b' = dropped_samples b + 1" by blast
  have "wk \<and> allow \<and> sleeping \<longrightarrow> c < 64" using wake by blast
  from wake_reader_ok[OF this c(1)] obtain w x where
    w: "wake_reader (wk \<and> allow \<and> sleeping) c (set_buffer c b' s) = Some (w, (set_buffer c b' s)\<lparr>reader_map := x\<rparr>)" by blast
  let ?s = "(set_buffer c b' s)\<lparr>reader_map := x\<rparr>"
  have e: "pw_produce_generic_msg_on_cpu c sleeping (m, payload) allow s = Some ((0, w), ?s)"
    using b(1) p(1) w by (simp add: pw_produce_generic_msg_on_cpu_def)
  have "pw_ok ?s" using pw_ok_set_buffer[OF ok p(2)] by simp
  moreover have "pw_bag ?s + buf_bag b = pw_bag s + buf_bag b'" using set_buffer_bag[OF b(1)] by simp
  moreover have "pw_drops ?s = pw_drops s + dropped_samples b' - dropped_samples b" using set_buffer_drops[OF b(1)] by simp
  ultimately have "pw_ok ?s \<and> GET_NUM_OUTPUT_BUFFERS ?s = GET_NUM_OUTPUT_BUFFERS s \<and>
      (pw_bag ?s = pw_bag s + {#record_of m payload#} \<and> pw_drops ?s = pw_drops s \<or> pw_bag ?s = pw_bag s \<and> pw_drops ?s = pw_drops s + 1)"
    using acc by (auto simp: ac_simps)
  with e show ?thesis by blast
qed

section \<open>Consuming\<close>

text \<open>A segment the scan stops at.\<close>

definition ready :: "bool \<Rightarrow> pw_data_buffer \<Rightarrow> bool" where
  "ready flush seg = (is_full seg \<noteq> 0 \<or> (flush \<and> bytes_written seg > 0))"

definition next_seg :: "int \<Rightarrow> int" where
  "next_seg l = (if l + 1 \<ge> 2 then 0 else l + 1)"

lemma last_seg_ok [simp]: "l = 0 \<or> l = 1 \<Longrightarrow> buf_ok b \<Longrightarrow> buf_ok (b\<lparr>last_seg_read := l\<rparr>)"
  by (auto simp: buf_ok_def)

lemma scan_segments_step:
  assumes "buf_ok b" "l = next_seg (last_seg_read b)" "segments b = [x, y]"
  shows "scan_segments (Suc k) flush b = (if ready flush (if l = 0 then x else y)
      then Some (True, b\<lparr>last_seg_read := l\<rparr>) else scan_segments k flush (b\<lparr>last_seg_read := l\<rparr>))"
proof -
  have l: "l = 0 \<or> l = 1" using assms(1,2) by (auto simp: buf_ok_def next_seg_def)
  have e: "(if last_seg_read b + 1 \<ge> int NUM_SEGS_PER_BUFFER then 0 else last_seg_read b + 1) = l"
    using assms(2) by (simp add: next_seg_def NUM_SEGS_PER_BUFFER_def)
  have a: "seg_at (b\<lparr>last_seg_read := l\<rparr>) l = Some (if l = 0 then x else y)"
    using l assms(3) by (auto simp: seg_at_def)
  show ?thesis unfolding scan_segments.simps e Let_def a ready_def by simp
qed

text \<open>The scan of a buffer looks at both segments and changes only its place.\<close>

lemma scan_segments_spec:
  assumes ok: "buf_ok b" and s: "segments b = [x, y]"
  shows "\<exists>l. (l = 0 \<or> l = 1) \<and>
    scan_segments NUM_SEGS_PER_BUFFER flush b = Some (ready flush x \<or> ready flush y, b\<lparr>last_seg_read := l\<rparr>) \<and>
    (ready flush x \<or> ready flush y \<longrightarrow> ready flush (if l = 0 then x else y))"
proof -
  let ?l = "next_seg (last_seg_read b)" and ?b = "b\<lparr>last_seg_read := next_seg (last_seg_read b)\<rparr>"
  have l: "?l = 0 \<or> ?l = 1" using ok by (auto simp: buf_ok_def next_seg_def)
  have ok': "buf_ok ?b" using l ok by simp
  have l2: "next_seg ?l = (if ?l = 0 then 1 else 0)" using l by (auto simp: next_seg_def)
  note s1 = scan_segments_step[OF ok refl s, of 1 flush]
  have s2: "scan_segments 1 flush ?b = (if ready flush (if next_seg ?l = 0 then x else y)
      then Some (True, ?b\<lparr>last_seg_read := next_seg ?l\<rparr>) else scan_segments 0 flush (?b\<lparr>last_seg_read := next_seg ?l\<rparr>))"
    using scan_segments_step[OF ok', of "next_seg ?l" x y 0 flush] s by simp
  have n: "NUM_SEGS_PER_BUFFER = Suc 1" by (simp add: NUM_SEGS_PER_BUFFER_def)
  show ?thesis
  proof (cases "ready flush (if ?l = 0 then x else y)")
    case True
    then show ?thesis using s1 l unfolding n by (intro exI[of _ ?l]) (auto split: if_splits)
  next
    case False
    then show ?thesis using s1 s2 l2 l unfolding n by (intro exI[of _ "next_seg ?l"]) (auto split: if_splits)
  qed
qed

text \<open>The announcement of a segment is read back by the consumer.\<close>

lemma mask_of_segment_decode:
  assumes "0 \<le> c" "c < 65536" "i = 0 \<or> i = 1"
  shows "uint (drop_bit 16 (mask_of_segment c i)) = c" "uint (mask_of_segment c i AND 0xffff) = i"
    "mask_of_segment c i \<noteq> PW_ALL_WRITES_DONE_MASK" "mask_of_segment c i \<noteq> PW_NO_DATA_AVAIL_MASK"
proof -
  obtain n where c: "c = int n" "n < 65536" using assms(1,2) by (cases c) simp_all
  let ?c = "of_nat n :: u32" and ?i = "of_int i :: u32"
  have m: "(0xffff :: u32) = mask 16" by (simp add: mask_eq_exp_minus_1)
  have d: "drop_bit 16 (mask_of_segment c i) = ?c AND mask 16"
    unfolding mask_of_segment_def m c(1) by (rule bit_word_eqI) (auto simp: bit_simps)
  have e: "mask_of_segment c i AND 0xffff = ?i AND mask 16"
    unfolding mask_of_segment_def m by (rule bit_word_eqI) (auto simp: bit_simps)
  have "unat (?c AND mask 16) = n" using c(2) by (simp add: take_bit_eq_mask [symmetric] unsigned_take_bit_eq unat_of_nat_u32 take_bit_nat_eq_self)
  then show "uint (drop_bit 16 (mask_of_segment c i)) = c" unfolding uint_nat d by (simp only: c(1))
  have "uint (?i AND mask 16) = i" using assms(3) by (elim disjE) (simp_all add: mask_eq_exp_minus_1)
  then show f: "uint (mask_of_segment c i AND 0xffff) = i" unfolding e .
  show "mask_of_segment c i \<noteq> PW_ALL_WRITES_DONE_MASK"
  proof
    assume "mask_of_segment c i = PW_ALL_WRITES_DONE_MASK"
    with f have "i = uint (PW_ALL_WRITES_DONE_MASK AND 0xffff)" by simp
    then show False using assms(3) by (simp add: PW_ALL_WRITES_DONE_MASK_def)
  qed
  show "mask_of_segment c i \<noteq> PW_NO_DATA_AVAIL_MASK"
  proof
    assume "mask_of_segment c i = PW_NO_DATA_AVAIL_MASK"
    with f have "i = uint (PW_NO_DATA_AVAIL_MASK AND 0xffff)" by simp
    then show False using assms(3) by (simp add: PW_NO_DATA_AVAIL_MASK_def)
  qed
qed

text \<open>What a scan leaves as it is.\<close>

definition scanned :: "pw_state \<Rightarrow> pw_state \<Rightarrow> bool" where
  "scanned s s' = (pw_ok s' \<and> GET_NUM_OUTPUT_BUFFERS s' = GET_NUM_OUTPUT_BUFFERS s \<and> pw_bag s' = pw_bag s \<and> pw_drops s' = pw_drops s \<and>
     (\<forall>c. map_option segments (GET_OUTPUT_BUFFER c s') = map_option segments (GET_OUTPUT_BUFFER c s)))"

definition holds_ready :: "bool \<Rightarrow> int \<Rightarrow> pw_state \<Rightarrow> bool" where
  "holds_ready flush c s = (\<exists>b. GET_OUTPUT_BUFFER c s = Some b \<and> (\<exists>seg \<in> set (segments b). ready flush seg))"

lemma scanned_trans: "scanned s t \<Longrightarrow> scanned t u \<Longrightarrow> scanned s u"
  by (simp add: scanned_def)

lemma scanned_ready:
  assumes "scanned s s'"
  shows "holds_ready flush c s' = holds_ready flush c s"
proof -
  have "map_option segments (GET_OUTPUT_BUFFER c s') = map_option segments (GET_OUTPUT_BUFFER c s)" using assms by (simp add: scanned_def)
  then show ?thesis
    by (cases "GET_OUTPUT_BUFFER c s"; cases "GET_OUTPUT_BUFFER c s'") (simp_all add: holds_ready_def)
qed

lemma GET_set_buffer: "0 \<le> c \<Longrightarrow> 0 \<le> d \<Longrightarrow> GET_OUTPUT_BUFFER d (set_buffer c b s) =
    (if c = d \<and> GET_OUTPUT_BUFFER d s \<noteq> None then Some b else GET_OUTPUT_BUFFER d s)"
  by (cases "per_cpu_output_buffers s") (auto simp: GET_OUTPUT_BUFFER_def set_buffer_def list_at_def)

lemma GET_neg [simp]: "c < 0 \<Longrightarrow> GET_OUTPUT_BUFFER c s = None"
  by (simp add: GET_OUTPUT_BUFFER_def split: Option.bind_split)

lemma scanned_place:
  assumes ok: "pw_ok s" and c: "0 \<le> c" "c < GET_NUM_OUTPUT_BUFFERS s" and b: "GET_OUTPUT_BUFFER c s = Some b" and l: "l = 0 \<or> l = 1" and bok: "buf_ok b"
  shows "scanned s (set_buffer c (b\<lparr>last_seg_read := l\<rparr>) (s\<lparr>pw_last_cpu_read := c\<rparr>))"
proof -
  let ?t = "s\<lparr>pw_last_cpu_read := c\<rparr>" and ?b = "b\<lparr>last_seg_read := l\<rparr>"
  have t: "pw_ok ?t" "GET_OUTPUT_BUFFER d ?t = GET_OUTPUT_BUFFER d s" "pw_bag ?t = pw_bag s" "pw_drops ?t = pw_drops s"
    "GET_NUM_OUTPUT_BUFFERS ?t = GET_NUM_OUTPUT_BUFFERS s" for d
    using ok c by (auto simp: pw_ok_def GET_OUTPUT_BUFFER_def pw_bag_def pw_drops_def GET_NUM_OUTPUT_BUFFERS_def)
  have bt: "GET_OUTPUT_BUFFER c ?t = Some b" using b t(2) by simp
  have "map_option segments (GET_OUTPUT_BUFFER d (set_buffer c ?b ?t)) = map_option segments (GET_OUTPUT_BUFFER d s)" for d
    using b c(1) by (cases "0 \<le> d") (auto simp: GET_set_buffer t(2))
  moreover have "pw_bag (set_buffer c ?b ?t) = pw_bag s" using set_buffer_bag[OF bt, of ?b] t(3) by simp
  moreover have "pw_drops (set_buffer c ?b ?t) = pw_drops s" using set_buffer_drops[OF bt, of ?b] t(4) by simp
  moreover have "pw_ok (set_buffer c ?b ?t)" using pw_ok_set_buffer[OF t(1)] last_seg_ok[OF l bok] by blast
  ultimately show ?thesis by (simp add: scanned_def t(5))
qed

definition next_buf :: "int \<Rightarrow> int \<Rightarrow> int" where
  "next_buf n l = (if l + 1 \<ge> n then 0 else l + 1)"

lemma next_buf_mod: "- 1 \<le> l \<Longrightarrow> l < n \<Longrightarrow> 0 < n \<Longrightarrow> next_buf n l = (l + 1) mod n"
  by (cases "l + 1 = n") (auto simp: next_buf_def)

lemma two_segments: "buf_ok b \<Longrightarrow> \<exists>x y. segments b = [x, y]"
  by (auto simp: buf_ok_def NUM_SEGS_PER_BUFFER_def length_Suc_conv numeral_2_eq_2)

lemma scan_buffers_step:
  assumes ok: "pw_ok s" and c: "c = next_buf (GET_NUM_OUTPUT_BUFFERS s) (pw_last_cpu_read s)"
  shows "\<exists>s1 i. scanned s s1 \<and> pw_last_cpu_read s1 = c \<and> (i = 0 \<or> i = 1) \<and> 0 \<le> c \<and> c < GET_NUM_OUTPUT_BUFFERS s \<and>
    scan_buffers (Suc k) flush s = (if holds_ready flush c s then Some (Some (mask_of_segment c i), s1) else scan_buffers k flush s1) \<and>
    (holds_ready flush c s \<longrightarrow> (\<exists>b seg. GET_OUTPUT_BUFFER c s1 = Some b \<and> seg_at b i = Some seg \<and> ready flush seg))"
proof -
  let ?t = "s\<lparr>pw_last_cpu_read := c\<rparr>"
  have r: "0 \<le> c" "c < GET_NUM_OUTPUT_BUFFERS s" using ok c by (auto simp: pw_ok_def next_buf_def GET_NUM_OUTPUT_BUFFERS_def)
  from pw_ok_buffer[OF ok r] obtain b where b: "GET_OUTPUT_BUFFER c s = Some b" "buf_ok b" .
  from two_segments[OF b(2)] obtain x y where xy: "segments b = [x, y]" by blast
  from scan_segments_spec[OF b(2) xy, of flush] obtain l where l: "l = 0 \<or> l = 1"
    "scan_segments NUM_SEGS_PER_BUFFER flush b = Some (ready flush x \<or> ready flush y, b\<lparr>last_seg_read := l\<rparr>)"
    "ready flush x \<or> ready flush y \<longrightarrow> ready flush (if l = 0 then x else y)" by blast
  let ?s1 = "set_buffer c (b\<lparr>last_seg_read := l\<rparr>) ?t"
  have sc: "scanned s ?s1" by (rule scanned_place[OF ok r b(1) l(1) b(2)])
  have h: "holds_ready flush c s = (ready flush x \<or> ready flush y)" using b(1) xy by (simp add: holds_ready_def)
  have g: "GET_OUTPUT_BUFFER c ?t = Some b" using b(1) by (simp add: GET_OUTPUT_BUFFER_def)
  have c': "(if pw_last_cpu_read s + 1 \<ge> GET_NUM_OUTPUT_BUFFERS s then 0 else pw_last_cpu_read s + 1) = c" using c by (simp add: next_buf_def)
  have e: "scan_buffers (Suc k) flush s = (if holds_ready flush c s then Some (Some (mask_of_segment c l), ?s1) else scan_buffers k flush ?s1)"
    unfolding scan_buffers.simps c' h by (simp add: Let_def g l(2))
  have "holds_ready flush c s \<longrightarrow> (\<exists>b seg. GET_OUTPUT_BUFFER c ?s1 = Some b \<and> seg_at b l = Some seg \<and> ready flush seg)"
    using l(1,3) h GET_set[OF g] xy by (auto simp: seg_at_def)
  then show ?thesis using sc e r l(1) by (intro exI[of _ ?s1] exI[of _ l]) simp
qed

lemma scan_buffers_spec:
  assumes "pw_ok s"
  shows "\<exists>r s'. scan_buffers k flush s = Some (r, s') \<and> scanned s s' \<and>
    (case r of None \<Rightarrow> (\<forall>j \<in> {1 .. int k}. \<not> holds_ready flush ((pw_last_cpu_read s + j) mod GET_NUM_OUTPUT_BUFFERS s) s)
     | Some m \<Rightarrow> \<exists>c i b seg. m = mask_of_segment c i \<and> 0 \<le> c \<and> c < GET_NUM_OUTPUT_BUFFERS s \<and> (i = 0 \<or> i = 1) \<and>
         GET_OUTPUT_BUFFER c s' = Some b \<and> seg_at b i = Some seg \<and> ready flush seg)"
  using assms
proof (induction k arbitrary: s)
  case 0
  then show ?case by (simp add: scanned_def)
next
  case (Suc k)
  let ?n = "GET_NUM_OUTPUT_BUFFERS s" and ?c = "next_buf (GET_NUM_OUTPUT_BUFFERS s) (pw_last_cpu_read s)"
  from scan_buffers_step[OF Suc.prems refl, of k flush] obtain s1 i where
    s1: "scanned s s1" "pw_last_cpu_read s1 = ?c" "i = 0 \<or> i = 1" "0 \<le> ?c" "?c < ?n" and
    e: "scan_buffers (Suc k) flush s = (if holds_ready flush ?c s then Some (Some (mask_of_segment ?c i), s1) else scan_buffers k flush s1)" and
    h: "holds_ready flush ?c s \<longrightarrow> (\<exists>b seg. GET_OUTPUT_BUFFER ?c s1 = Some b \<and> seg_at b i = Some seg \<and> ready flush seg)" by blast
  have n: "GET_NUM_OUTPUT_BUFFERS s1 = ?n" "pw_ok s1" using s1(1) by (simp_all add: scanned_def)
  have c: "?c = (pw_last_cpu_read s + 1) mod ?n"
    by (rule next_buf_mod) (use Suc.prems in \<open>auto simp: pw_ok_def GET_NUM_OUTPUT_BUFFERS_def\<close>)
  show ?case
  proof (cases "holds_ready flush ?c s")
    case True
    with h obtain b seg where "GET_OUTPUT_BUFFER ?c s1 = Some b" "seg_at b i = Some seg" "ready flush seg" by blast
    with True e s1 show ?thesis by auto
  next
    case False
    from Suc.IH[OF n(2)] obtain r s' where r: "scan_buffers k flush s1 = Some (r, s')" "scanned s1 s'" and
      case_r: "case r of None \<Rightarrow> (\<forall>j \<in> {1 .. int k}. \<not> holds_ready flush ((?c + j) mod ?n) s1)
       | Some m \<Rightarrow> \<exists>c i b seg. m = mask_of_segment c i \<and> 0 \<le> c \<and> c < ?n \<and> (i = 0 \<or> i = 1) \<and>
         GET_OUTPUT_BUFFER c s' = Some b \<and> seg_at b i = Some seg \<and> ready flush seg"
      unfolding n(1) s1(2) by blast
    have all: "\<forall>j \<in> {1 .. int (Suc k)}. \<not> holds_ready flush ((pw_last_cpu_read s + j) mod ?n) s" if "r = None"
    proof
      fix j assume j: "j \<in> {1 .. int (Suc k)}"
      show "\<not> holds_ready flush ((pw_last_cpu_read s + j) mod ?n) s"
      proof (cases "j = 1")
        case True
        then show ?thesis using False c by simp
      next
        case j1: False
        have "(?c + (j - 1)) mod ?n = (pw_last_cpu_read s + 1 + (j - 1)) mod ?n" unfolding c by (rule mod_add_left_eq)
        moreover have "j - 1 \<in> {1 .. int k}" using j j1 by simp
        moreover have "\<forall>j \<in> {1 .. int k}. \<not> holds_ready flush ((?c + j) mod ?n) s1" using case_r that by simp
        ultimately have "\<not> holds_ready flush ((pw_last_cpu_read s + 1 + (j - 1)) mod ?n) s1" by metis
        moreover have "pw_last_cpu_read s + 1 + (j - 1) = pw_last_cpu_read s + j" by simp
        ultimately show ?thesis using scanned_ready[OF s1(1)] by simp
      qed
    qed
    show ?thesis using e False r(1) scanned_trans[OF s1(1) r(2)] case_r all
      by (cases r) auto
  qed
qed

definition any_ready :: "bool \<Rightarrow> pw_state \<Rightarrow> bool" where
  "any_ready flush s = (\<exists>c. holds_ready flush c s)"

lemma all_buffers_visited:
  assumes "pw_ok s" "\<forall>j \<in> {1 .. GET_NUM_OUTPUT_BUFFERS s}. \<not> holds_ready flush ((pw_last_cpu_read s + j) mod GET_NUM_OUTPUT_BUFFERS s) s"
  shows "\<not> any_ready flush s"
proof
  let ?n = "GET_NUM_OUTPUT_BUFFERS s" and ?l = "pw_last_cpu_read s"
  assume "any_ready flush s"
  then obtain c where c: "holds_ready flush c s" by (auto simp: any_ready_def)
  from assms(1) obtain bs where bs: "per_cpu_output_buffers s = Some bs" "int (length bs) = ?n" by (auto simp: pw_ok_def)
  have l: "- 1 \<le> ?l" "?l < ?n" using assms(1) by (simp_all add: pw_ok_def)
  have r: "0 \<le> c" "c < ?n" using c bs by (auto simp: holds_ready_def GET_OUTPUT_BUFFER_def list_at_def split: if_splits)
  define j where "j = (if ?l < c then c - ?l else c - ?l + ?n)"
  have j: "j \<in> {1 .. ?n}" using l r by (auto simp: j_def)
  have "(?l + j) mod ?n = c" using r l by (auto simp: j_def)
  with assms(2) j c show False by metis
qed

lemma pw_any_seg_full_spec:
  assumes "pw_ok s"
  shows "\<exists>f m s'. pw_any_seg_full flush s = Some ((f, m), s') \<and> scanned s s' \<and>
    (if any_ready flush s then f \<and> (\<exists>c i b seg. m = mask_of_segment c i \<and> 0 \<le> c \<and> c < GET_NUM_OUTPUT_BUFFERS s \<and> (i = 0 \<or> i = 1) \<and>
         GET_OUTPUT_BUFFER c s' = Some b \<and> seg_at b i = Some seg \<and> ready flush seg)
     else f = flush \<and> m = (if flush then PW_ALL_WRITES_DONE_MASK else PW_NO_DATA_AVAIL_MASK))"
proof -
  let ?n = "nat (GET_NUM_OUTPUT_BUFFERS s)"
  have n: "int ?n = GET_NUM_OUTPUT_BUFFERS s" using assms by (simp add: pw_ok_def GET_NUM_OUTPUT_BUFFERS_def)
  from scan_buffers_spec[OF assms, of ?n flush] obtain r s' where r: "scan_buffers ?n flush s = Some (r, s')" "scanned s s'" and
    cr: "case r of None \<Rightarrow> (\<forall>j \<in> {1 .. int ?n}. \<not> holds_ready flush ((pw_last_cpu_read s + j) mod GET_NUM_OUTPUT_BUFFERS s) s)
     | Some m \<Rightarrow> \<exists>c i b seg. m = mask_of_segment c i \<and> 0 \<le> c \<and> c < GET_NUM_OUTPUT_BUFFERS s \<and> (i = 0 \<or> i = 1) \<and>
         GET_OUTPUT_BUFFER c s' = Some b \<and> seg_at b i = Some seg \<and> ready flush seg" by blast
  show ?thesis
  proof (cases r)
    case None
    then have "\<not> any_ready flush s" using cr all_buffers_visited[OF assms] unfolding n by simp
    then show ?thesis using None r by (simp add: pw_any_seg_full_def)
  next
    case (Some m)
    with cr obtain c i b seg where m: "m = mask_of_segment c i" "0 \<le> c" "c < GET_NUM_OUTPUT_BUFFERS s" "i = 0 \<or> i = 1"
      "GET_OUTPUT_BUFFER c s' = Some b" "seg_at b i = Some seg" "ready flush seg" by auto
    have "seg \<in> set (segments b)" using m(6) by (auto simp: seg_at_def list_at_eq_Some split: if_splits)
    then have "holds_ready flush c s'" using m(5,7) by (auto simp: holds_ready_def)
    then have "any_ready flush s" using scanned_ready[OF r(2)] by (auto simp: any_ready_def)
    then show ?thesis using Some r m by (simp add: pw_any_seg_full_def) blast
  qed
qed

lemma pw_ok_seg:
  assumes "pw_ok s" "0 \<le> c" "c < GET_NUM_OUTPUT_BUFFERS s" "GET_OUTPUT_BUFFER c s = Some b" "seg_at b i = Some seg"
  shows "seg_ok seg"
proof -
  have "buf_ok b" using pw_ok_buffer[OF assms(1-3)] assms(4) by (metis option.inject)
  then show ?thesis using assms(5) by (auto simp: buf_ok_def seg_at_def list_at_eq_Some split: if_splits)
qed

text \<open>The consumer empties the segment it hands out.\<close>

definition pw_taken :: "u8 list \<Rightarrow> pw_state \<Rightarrow> pw_state \<Rightarrow> bool" where
  "pw_taken d s s' = (pw_ok s' \<and> GET_NUM_OUTPUT_BUFFERS s' = GET_NUM_OUTPUT_BUFFERS s \<and> pw_drops s' = pw_drops s \<and>
     (\<exists>rs. parse_records d = Some rs \<and> mset rs + pw_bag s' = pw_bag s))"

lemma emptied_ok: "seg_ok seg \<Longrightarrow> seg_ok (seg\<lparr>bytes_written := 0, is_full := 0\<rparr>)"
  by (simp add: seg_ok_def contents_def)

lemma emptied_bag: "seg_bag (seg\<lparr>bytes_written := 0\<rparr>) = {#}"
  by (simp add: seg_bag_def contents_def)

lemma bags_cancel:
  fixes w :: "'a multiset"
  assumes "x + r = y" "w + y = z + x"
  shows "r + w = z"
proof -
  have "(r + w) + x = z + x" using assms(2) unfolding assms(1)[symmetric] by (simp add: ac_simps)
  then show ?thesis by simp
qed

lemma pw_consume_data_spec:
  assumes ok: "pw_ok s" and c: "0 \<le> c" "c < GET_NUM_OUTPUT_BUFFERS s" and i: "i = 0 \<or> i = 1"
    and b: "GET_OUTPUT_BUFFER c s = Some b" and seg: "seg_at b i = Some seg"
  shows "\<exists>s'. pw_consume_data nc (mask_of_segment c i) False PW_DATA_BUFFER_SIZE s =
      Some ((of_nat nc, if nc = 0 then Some (bytes_written seg) else None, contents seg), s') \<and> pw_taken (contents seg) s s'"
proof -
  have c16: "c < 65536" using ok c(2) by (simp add: pw_ok_def GET_NUM_OUTPUT_BUFFERS_def)
  note dec = mask_of_segment_decode(1,2)[OF c(1) c16 i]
  let ?seg = "seg\<lparr>bytes_written := 0, is_full := 0\<rparr>"
  let ?s = "set_buffer c (set_seg i ?seg b) s"
  have bok: "buf_ok b" using pw_ok_buffer[OF ok c] b by (metis option.inject)
  have sok: "seg_ok seg" by (rule pw_ok_seg[OF ok c b seg])
  have rd: "read_bytes 0 (unat (bytes_written seg)) (seg_data seg) = Some (contents seg)"
    using sok by (simp add: read_bytes_def contents_def seg_ok_def)
  have seg2: "\<not> i \<ge> int NUM_SEGS_PER_BUFFER" using i by (auto simp: NUM_SEGS_PER_BUFFER_def)
  have e: "pw_consume_data nc (mask_of_segment c i) False PW_DATA_BUFFER_SIZE s =
      Some ((of_nat nc, if nc = 0 then Some (bytes_written seg) else None, contents seg), ?s)"
    unfolding pw_consume_data_def dec Let_def by (simp add: b seg rd seg2)
  obtain rs where rs: "parse_records (contents seg) = Some rs" using sok by (auto simp: seg_ok_def)
  have "buf_bag (set_seg i ?seg b) + mset rs = buf_bag b"
    using set_seg_bag[OF seg, of ?seg] rs by (simp add: emptied_bag seg_bag_def[of seg])
  then have "mset rs + pw_bag ?s = pw_bag s" by (rule bags_cancel) (rule set_buffer_bag[OF b])
  moreover have "pw_ok ?s" by (rule pw_ok_set_buffer[OF ok set_seg_ok[OF bok emptied_ok[OF sok]]])
  moreover have "pw_drops ?s = pw_drops s" using set_buffer_drops[OF b] by simp
  ultimately show ?thesis using e rs by (intro exI[of _ ?s]) (simp add: pw_taken_def)
qed

section \<open>Reading\<close>

lemma read_ready:
  assumes ok: "pw_ok s" and r: "any_ready drain s"
  shows "\<exists>d s'. pw_taken d s s' \<and> pw_device_read (Suc fuel) collecting sleeping drain nc PW_DATA_BUFFER_SIZE s =
    Some (if (of_nat nc :: u64) \<noteq> 0 then Read_Returns (- 1) [] else Read_Returns (if nc = 0 then int (length d) else 0) d, s')"
proof -
  from pw_any_seg_full_spec[OF ok, of drain] r obtain m s1 c i b seg where
    a: "pw_any_seg_full drain s = Some ((True, m), s1)" "scanned s s1" and
    m: "m = mask_of_segment c i" "0 \<le> c" "c < GET_NUM_OUTPUT_BUFFERS s" "i = 0 \<or> i = 1" "GET_OUTPUT_BUFFER c s1 = Some b" "seg_at b i = Some seg"
    by auto
  have ok1: "pw_ok s1" and c1: "c < GET_NUM_OUTPUT_BUFFERS s1" using a(2) m(3) by (simp_all add: scanned_def)
  from pw_consume_data_spec[OF ok1 m(2) c1 m(4,5,6), of nc] obtain s' where
    c: "pw_consume_data nc m False PW_DATA_BUFFER_SIZE s1 = Some ((of_nat nc, if nc = 0 then Some (bytes_written seg) else None, contents seg), s')"
      "pw_taken (contents seg) s1 s'" unfolding m(1) by blast
  have ne: "m \<noteq> PW_ALL_WRITES_DONE_MASK" "m \<noteq> PW_NO_DATA_AVAIL_MASK"
    using mask_of_segment_decode(3,4)[OF m(2) _ m(4)] ok1 c1 unfolding m(1) by (simp_all add: pw_ok_def GET_NUM_OUTPUT_BUFFERS_def)
  have t: "pw_taken (contents seg) s s'" using c(2) a(2) by (simp add: pw_taken_def scanned_def)
  have "seg_ok seg" using pw_ok_seg[OF ok1 m(2) c1 m(5,6)] .
  then have "length (contents seg) = unat (bytes_written seg)" by (simp add: contents_def seg_ok_def)
  then have l: "uint (bytes_written seg) = int (length (contents seg))" by (simp only: uint_nat)
  have "pw_device_read (Suc fuel) collecting sleeping drain nc PW_DATA_BUFFER_SIZE s =
      Some (if (of_nat nc :: u64) \<noteq> 0 then Read_Returns (- 1) [] else Read_Returns (if nc = 0 then int (length (contents seg)) else 0) (contents seg), s')"
    using a(1) c(1) ne l by simp
  with t show ?thesis by blast
qed

lemma read_idle:
  assumes ok: "pw_ok s" and r: "\<not> any_ready drain s"
  shows "\<exists>s'. scanned s s' \<and> pw_device_read (Suc fuel) collecting sleeping drain nc len s =
    (if drain then Some (Read_Returns 0 [], s') else if collecting \<or> sleeping then Some (Read_Waits, s')
     else pw_device_read fuel collecting sleeping drain nc len s')"
proof -
  from pw_any_seg_full_spec[OF ok, of drain] r obtain s1 where
    a: "pw_any_seg_full drain s = Some ((drain, if drain then PW_ALL_WRITES_DONE_MASK else PW_NO_DATA_AVAIL_MASK), s1)" "scanned s s1" by auto
  have ne: "PW_ALL_WRITES_DONE_MASK \<noteq> PW_NO_DATA_AVAIL_MASK" by (simp add: PW_ALL_WRITES_DONE_MASK_def PW_NO_DATA_AVAIL_MASK_def)
  show ?thesis using a ne by (intro exI[of _ s1]) auto
qed

text \<open>Without a reader's reason to stop, the loop never ends.\<close>

lemma read_spins:
  assumes "pw_ok s" "\<not> any_ready False s"
  shows "\<exists>s'. pw_device_read fuel False False False nc len s = Some (Read_Spins, s')"
  using assms
proof (induction fuel arbitrary: s)
  case (Suc fuel)
  from read_idle[OF Suc.prems, of fuel False False nc len] obtain s' where
    s: "scanned s s'" "pw_device_read (Suc fuel) False False False nc len s = pw_device_read fuel False False False nc len s'" by auto
  have "pw_ok s'" "\<not> any_ready False s'" using s(1) Suc.prems(2) scanned_ready[OF s(1)] by (auto simp: scanned_def any_ready_def)
  from Suc.IH[OF this] show ?case using s(2) by simp
qed simp

section \<open>Runs\<close>

datatype pw_event = Produce int bool pw_msg "u8 list" bool | Read bool bool bool | Poll bool bool

text \<open>A step of a producer, of a reader with a buffer of the right size, or of a poll, and the records delivered.\<close>

definition delivered :: "pw_read_result \<Rightarrow> u8 list list option" where
  "delivered r = (case r of Read_Returns n d \<Rightarrow> parse_records d | _ \<Rightarrow> Some [])"

fun pw_step :: "pw_event \<Rightarrow> pw_state \<Rightarrow> (u8 list list \<times> pw_state) option" where
  "pw_step (Produce c sleeping m payload allow) s = do { (_, s) \<leftarrow> pw_produce_generic_msg_on_cpu c sleeping (m, payload) allow s; Some ([], s) }"
| "pw_step (Read collecting sleeping drain) s = do {
     (r, s) \<leftarrow> pw_device_read 1 collecting sleeping drain 0 PW_DATA_BUFFER_SIZE s; rs \<leftarrow> delivered r; Some (rs, s) }"
| "pw_step (Poll collecting drain) s = do { (_, s) \<leftarrow> pw_device_poll collecting drain s; Some ([], s) }"

fun pw_run :: "pw_event list \<Rightarrow> pw_state \<Rightarrow> (u8 list list \<times> pw_state) option" where
  "pw_run [] s = Some ([], s)"
| "pw_run (e # es) s = do { (rs, s) \<leftarrow> pw_step e s; (rs', s) \<leftarrow> pw_run es s; Some (rs @ rs', s) }"

fun event_ok :: "int \<Rightarrow> pw_event \<Rightarrow> bool" where
  "event_ok n (Produce c sleeping m payload allow) = (0 \<le> c \<and> c < n \<and> 8 \<le> unat (m_data_len m) \<and> unat (m_data_len m) \<le> length payload \<and>
     (sleeping \<and> allow \<longrightarrow> c < 64))"
| "event_ok n _ = True"

fun offered :: "pw_event \<Rightarrow> u8 list multiset" where
  "offered (Produce c sleeping m payload allow) = {#record_of m payload#}"
| "offered _ = {#}"

definition accounted :: "u8 list multiset \<Rightarrow> u8 list list \<Rightarrow> pw_state \<Rightarrow> pw_state \<Rightarrow> bool" where
  "accounted new out s s' = (pw_ok s' \<and> GET_NUM_OUTPUT_BUFFERS s' = GET_NUM_OUTPUT_BUFFERS s \<and>
     (\<exists>lost. mset out + pw_bag s' + lost = pw_bag s + new \<and> pw_drops s' = pw_drops s + of_nat (size lost)))"

lemma accountedI: "pw_ok s' \<Longrightarrow> GET_NUM_OUTPUT_BUFFERS s' = GET_NUM_OUTPUT_BUFFERS s \<Longrightarrow>
    mset out + pw_bag s' + lost = pw_bag s + new \<Longrightarrow> pw_drops s' = pw_drops s + of_nat (size lost) \<Longrightarrow> accounted new out s s'"
  by (auto simp: accounted_def)

lemma accounted_trans:
  assumes "accounted n1 o1 s t" "accounted n2 o2 t u"
  shows "accounted (n1 + n2) (o1 @ o2) s u"
proof -
  from assms obtain l1 l2 where l: "mset o1 + pw_bag t + l1 = pw_bag s + n1" "mset o2 + pw_bag u + l2 = pw_bag t + n2"
    "pw_drops t = pw_drops s + of_nat (size l1)" "pw_drops u = pw_drops t + of_nat (size l2)"
    by (auto simp: accounted_def)
  show ?thesis
  proof (rule accountedI[of _ _ _ "l1 + l2"])
    have "mset (o1 @ o2) + pw_bag u + (l1 + l2) = mset o1 + l1 + (mset o2 + pw_bag u + l2)" by (simp add: ac_simps)
    also have "\<dots> = mset o1 + pw_bag t + l1 + n2" unfolding l(2) by (simp add: ac_simps)
    also have "\<dots> = pw_bag s + (n1 + n2)" unfolding l(1) by (simp add: ac_simps)
    finally show "mset (o1 @ o2) + pw_bag u + (l1 + l2) = pw_bag s + (n1 + n2)" .
  qed (use assms l in \<open>simp_all add: accounted_def\<close>)
qed

lemma scanned_accounted: "scanned s s' \<Longrightarrow> accounted {#} [] s s'"
  by (rule accountedI[of _ _ _ "{#}"]) (simp_all add: scanned_def)

lemma pw_step_accounted:
  assumes ok: "pw_ok s" and e: "event_ok (GET_NUM_OUTPUT_BUFFERS s) e"
  shows "\<exists>rs s'. pw_step e s = Some (rs, s') \<and> accounted (offered e) rs s s'"
proof (cases e)
  case (Produce c sleeping m payload allow)
  have h: "0 \<le> c" "c < GET_NUM_OUTPUT_BUFFERS s" "unat (m_data_len m) \<le> length payload" "8 \<le> unat (m_data_len m)" "sleeping \<and> allow \<longrightarrow> c < 64"
    using e Produce by simp_all
  from produce_account[OF ok h] obtain w s' where
    p: "pw_produce_generic_msg_on_cpu c sleeping (m, payload) allow s = Some ((0, w), s')" "pw_ok s'"
      "GET_NUM_OUTPUT_BUFFERS s' = GET_NUM_OUTPUT_BUFFERS s" and
    acc: "pw_bag s' = pw_bag s + {#record_of m payload#} \<and> pw_drops s' = pw_drops s \<or> pw_bag s' = pw_bag s \<and> pw_drops s' = pw_drops s + 1" by blast
  have "accounted {#record_of m payload#} [] s s'"
  proof (cases "pw_bag s' = pw_bag s + {#record_of m payload#} \<and> pw_drops s' = pw_drops s")
    case True
    then show ?thesis by (intro accountedI[of _ _ _ "{#}"] p) simp_all
  next
    case False
    then have "pw_bag s' = pw_bag s" "pw_drops s' = pw_drops s + 1" using acc by blast+
    then show ?thesis by (intro accountedI[of _ _ _ "{#record_of m payload#}"] p) simp_all
  qed
  then show ?thesis using Produce p(1) by simp
next
  case (Read collecting sleeping drain)
  show ?thesis
  proof (cases "any_ready drain s")
    case True
    from read_ready[OF ok True, of 0 collecting sleeping 0] obtain d s' where d: "pw_taken d s s'"
      "pw_device_read (Suc 0) collecting sleeping drain 0 PW_DATA_BUFFER_SIZE s = Some (Read_Returns (int (length d)) d, s')" by auto
    from d(1) obtain rs where rs: "parse_records d = Some rs" "mset rs + pw_bag s' = pw_bag s" by (auto simp: pw_taken_def)
    have "accounted {#} rs s s'" by (rule accountedI[of _ _ _ "{#}"]) (use d(1) rs in \<open>simp_all add: pw_taken_def\<close>)
    then show ?thesis using Read d(2) rs(1) by (simp add: delivered_def del: pw_device_read.simps)
  next
    case False
    from read_idle[OF ok False, of 0 collecting sleeping 0 PW_DATA_BUFFER_SIZE] obtain s' where s': "scanned s s'"
      "\<exists>r. pw_device_read (Suc 0) collecting sleeping drain 0 PW_DATA_BUFFER_SIZE s = Some (r, s') \<and> delivered r = Some []"
      by (cases drain; cases "collecting \<or> sleeping") (auto simp: delivered_def)
    then show ?thesis using Read scanned_accounted[OF s'(1)] by (auto simp del: pw_device_read.simps)
  qed
next
  case (Poll collecting drain)
  from pw_any_seg_full_spec[OF ok, of drain] obtain f m s' where p: "pw_any_seg_full drain s = Some ((f, m), s')" "scanned s s'" by blast
  have "scanned s s" using ok by (simp add: scanned_def)
  then show ?thesis using Poll p scanned_accounted[OF p(2)] scanned_accounted[of s s]
    by (cases collecting) (simp_all add: pw_device_poll_def)
qed

section \<open>Reset\<close>

lemma zero_segment_ok [simp]: "seg_ok zero_segment" "seg_bag zero_segment = {#}"
  by (simp_all add: seg_ok_def seg_bag_def contents_def zero_segment_def)

lemma zero_segments [simp]: "length (replicate n zero_segment) = n"
  by simp

definition reset_of :: "pw_output_buffer \<Rightarrow> pw_output_buffer" where
  "reset_of b = b\<lparr>buff_index := 0, dropped_samples := 0, produced_samples := 0, last_seg_read := - 1,
     segments := replicate NUM_SEGS_PER_BUFFER zero_segment\<rparr>"

lemma reset_of_ok: "buf_ok (reset_of b)" "buf_bag (reset_of b) = {#}" "dropped_samples (reset_of b) = 0"
  by (simp_all add: reset_of_def buf_ok_def buf_bag_def NUM_SEGS_PER_BUFFER_def numeral_2_eq_2)

text \<open>After a reset the buffers are well-formed and empty, whatever was in them.\<close>

lemma reset_loop:
  assumes bs: "per_cpu_output_buffers s = Some bs" "\<forall>b \<in> set bs. length (segments b) = NUM_SEGS_PER_BUFFER" and k: "k \<le> length bs"
  shows "foldm (\<lambda>cpu s. do { b \<leftarrow> GET_OUTPUT_BUFFER (int cpu) s; b \<leftarrow> reset_buffer b; Some (set_buffer (int cpu) b s) }) [0 ..< k] s =
    Some (s\<lparr>per_cpu_output_buffers := Some (map reset_of (take k bs) @ drop k bs)\<rparr>)"
  using k
proof (induction k)
  case 0
  then show ?case using bs(1) by simp
next
  case (Suc k)
  let ?s = "s\<lparr>per_cpu_output_buffers := Some (map reset_of (take k bs) @ drop k bs)\<rparr>"
  have g: "GET_OUTPUT_BUFFER (int k) ?s = Some (bs ! k)"
    using Suc.prems by (simp add: GET_OUTPUT_BUFFER_def list_at_def nth_append)
  have r: "reset_buffer (bs ! k) = Some (reset_of (bs ! k))" using bs(2) Suc.prems by (simp add: reset_buffer_def reset_of_def)
  have "(map reset_of (take k bs) @ drop k bs)[k := reset_of (bs ! k)] = map reset_of (take (Suc k) bs) @ drop (Suc k) bs"
    using Suc.prems by (simp add: list_update_append take_Suc_conv_app_nth Cons_nth_drop_Suc [symmetric])
  then have p: "set_buffer (int k) (reset_of (bs ! k)) ?s = s\<lparr>per_cpu_output_buffers := Some (map reset_of (take (Suc k) bs) @ drop (Suc k) bs)\<rparr>"
    by (simp add: set_buffer_def)
  have "[0 ..< Suc k] = [0 ..< k] @ [k]" by simp
  then show ?case using Suc g r p by (simp only: foldm_append) (simp add: Suc_leD)
qed

lemma pw_reset_per_cpu_buffers_ok:
  assumes bs: "per_cpu_output_buffers s = Some bs" "\<forall>b \<in> set bs. length (segments b) = NUM_SEGS_PER_BUFFER"
    and n: "int (length bs) = GET_NUM_OUTPUT_BUFFERS s" "length bs < 65536" "bs \<noteq> []"
  shows "\<exists>s'. pw_reset_per_cpu_buffers s = Some s' \<and> pw_ok s' \<and> GET_NUM_OUTPUT_BUFFERS s' = GET_NUM_OUTPUT_BUFFERS s \<and>
    pw_bag s' = {#} \<and> pw_drops s' = 0"
proof -
  let ?s = "s\<lparr>per_cpu_output_buffers := Some (map reset_of bs), pw_last_cpu_read := - 1, pw_last_mask := - 1\<rparr>"
  have nn: "nat (GET_NUM_OUTPUT_BUFFERS s) = length bs" using n(1) by linarith
  have "pw_reset_per_cpu_buffers s = Some ?s"
    unfolding pw_reset_per_cpu_buffers_def nn using reset_loop[OF bs, of "length bs"] by simp
  moreover have "pw_ok ?s"
    using n reset_of_ok(1) by (cases bs) (auto simp: pw_ok_def GET_NUM_OUTPUT_BUFFERS_def)
  moreover have "pw_bag ?s = {#}" "pw_drops ?s = 0"
    by (simp_all add: pw_bag_def pw_drops_def comp_def reset_of_ok)
  moreover have "GET_NUM_OUTPUT_BUFFERS ?s = GET_NUM_OUTPUT_BUFFERS s" by (simp add: GET_NUM_OUTPUT_BUFFERS_def)
  ultimately show ?thesis by blast
qed

text \<open>Two buffers after a reset.\<close>

definition two_buffers :: pw_state where
  "two_buffers = \<lparr>per_cpu_output_buffers = Some [reset_of zero_buffer, reset_of zero_buffer], pw_last_cpu_read = - 1, pw_last_mask = - 1,
     reader_map = 0, pw_max_num_cpus = 1, pw_buffer_alloc_size = 0, pw_num_samples_produced = 0, pw_num_samples_dropped = 0\<rparr>"

lemma two_buffers_ok: "pw_ok two_buffers" "GET_NUM_OUTPUT_BUFFERS two_buffers = 2" "GET_OUTPUT_BUFFER 0 two_buffers = Some (reset_of zero_buffer)"
  by (simp_all add: two_buffers_def pw_ok_def GET_NUM_OUTPUT_BUFFERS_def GET_OUTPUT_BUFFER_def list_at_def reset_of_ok)

definition sample_msg :: pw_msg where
  "sample_msg = \<lparr>m_tsc = 77, m_data_len = 8, m_cpuidx = 0, m_data_type = 1, m_padding = 0, m_p_data = 0\<rparr>"

theorem pw_producers_agree_witness:
  "pw_produce_generic_msg 0 True (Some (sample_msg, replicate 8 5)) True two_buffers =
   pw_produce_generic_msg_on_cpu 0 True (sample_msg, replicate 8 5) True two_buffers"
  by (rule pw_producers_agree[OF two_buffers_ok(3)]) (simp add: reset_of_def)

section \<open>The properties\<close>

text \<open>
  C11: no record is lost without being counted. In any order of producers on any CPU, reads and polls,
  from well-formed buffers, nothing faults, the buffers stay well-formed (their segments are sequences
  of whole records), and the records delivered, those still in the buffers and some lost ones are
  exactly those that were in the buffers and those produced, byte for byte and each as often; and the
  drop counters have grown by the number of lost ones, modulo 2^32. Payloads are at least 8 bytes,
  copies to the user succeed, and a wake-up comes from one of the first 64 CPUs.
\<close>

theorem pw_records_accounted:
  assumes "pw_ok s" "\<forall>e \<in> set es. event_ok (GET_NUM_OUTPUT_BUFFERS s) e"
  shows "\<exists>out s'. pw_run es s = Some (out, s') \<and> pw_ok s' \<and>
    (\<exists>lost. mset out + pw_bag s' + lost = pw_bag s + sum_list (map offered es) \<and> pw_drops s' = pw_drops s + of_nat (size lost))"
  using assms
proof (induction es arbitrary: s)
  case Nil
  then show ?case by simp
next
  case (Cons e es)
  from pw_step_accounted[of s e] Cons.prems obtain rs t where t: "pw_step e s = Some (rs, t)" "accounted (offered e) rs s t" by auto
  have ok: "pw_ok t" "GET_NUM_OUTPUT_BUFFERS t = GET_NUM_OUTPUT_BUFFERS s" using t(2) by (simp_all add: accounted_def)
  have "\<forall>e \<in> set es. event_ok (GET_NUM_OUTPUT_BUFFERS t) e" using Cons.prems(2) ok(2) by simp
  from Cons.IH[OF ok(1) this] obtain out u lost where
    u: "pw_run es t = Some (out, u)" "pw_ok u"
      "mset out + pw_bag u + lost = pw_bag t + sum_list (map offered es)" "pw_drops u = pw_drops t + of_nat (size lost)" by blast
  from t(2) obtain lost' where l: "mset rs + pw_bag t + lost' = pw_bag s + offered e" "pw_drops t = pw_drops s + of_nat (size lost')"
    by (auto simp: accounted_def)
  have "mset (rs @ out) + pw_bag u + (lost' + lost) = mset rs + lost' + (mset out + pw_bag u + lost)" by (simp add: ac_simps)
  also have "\<dots> = mset rs + pw_bag t + lost' + sum_list (map offered es)" unfolding u(3) by (simp add: ac_simps)
  also have "\<dots> = pw_bag s + sum_list (map offered (e # es))" unfolding l(1) by (simp add: ac_simps)
  finally have b: "mset (rs @ out) + pw_bag u + (lost' + lost) = pw_bag s + sum_list (map offered (e # es))" .
  have d: "pw_drops u = pw_drops s + of_nat (size (lost' + lost))" using u(4) l(2) by simp
  have "pw_run (e # es) s = Some (rs @ out, u)" using t(1) u(1) by simp
  with u(2) b d show ?case by blast
qed

theorem pw_records_accounted_witness:
  "\<exists>out s'. pw_run [Produce 0 True sample_msg (replicate 8 5) True, Poll True False, Read True False True] two_buffers = Some (out, s') \<and> pw_ok s' \<and>
    (\<exists>lost. mset out + pw_bag s' + lost = pw_bag two_buffers + sum_list (map offered [Produce 0 True sample_msg (replicate 8 5) True, Poll True False, Read True False True]) \<and>
      pw_drops s' = pw_drops two_buffers + of_nat (size lost))"
  by (rule pw_records_accounted[OF two_buffers_ok(1)]) (simp add: two_buffers_ok(2) sample_msg_def)

text \<open>
  C29: when \<open>pw_device_read\<close> comes back. From well-formed buffers the read returns, or goes to sleep, exactly
  if collection is on or the driver sleeps, or a drain is requested, or a segment is full (with a drain:
  has any data). In the one remaining case, an idle driver with partly filled or empty segments, the
  loop of the read runs through the buffers for ever, whatever fuel it is given.
\<close>

theorem pw_device_read_returns_iff:
  assumes "pw_ok s"
  shows "(\<exists>fuel r s'. pw_device_read fuel collecting sleeping drain nc PW_DATA_BUFFER_SIZE s = Some (r, s') \<and> r \<noteq> Read_Spins) =
    (collecting \<or> sleeping \<or> drain \<or> any_ready drain s)"
proof (cases "any_ready drain s")
  case True
  from read_ready[OF assms True, of 0 collecting sleeping nc] obtain d s' where
    "pw_device_read (Suc 0) collecting sleeping drain nc PW_DATA_BUFFER_SIZE s =
      Some (if (of_nat nc :: u64) \<noteq> 0 then Read_Returns (- 1) [] else Read_Returns (if nc = 0 then int (length d) else 0) d, s')" by blast
  then have "\<exists>r s'. pw_device_read (Suc 0) collecting sleeping drain nc PW_DATA_BUFFER_SIZE s = Some (r, s') \<and> r \<noteq> Read_Spins" by auto
  with True show ?thesis by blast
next
  case False
  show ?thesis
  proof (cases "collecting \<or> sleeping \<or> drain")
    case True
    have "\<exists>r s'. pw_device_read (Suc 0) collecting sleeping drain nc PW_DATA_BUFFER_SIZE s = Some (r, s') \<and> r \<noteq> Read_Spins"
      using read_idle[OF assms False, of 0 collecting sleeping nc PW_DATA_BUFFER_SIZE] True by (cases drain) auto
    with True show ?thesis by blast
  next
    case idle: False
    then have i: "collecting = False" "sleeping = False" "drain = False" by simp_all
    have "\<not> any_ready False s" using False i(3) by simp
    from read_spins[OF assms this] show ?thesis using \<open>\<not> any_ready False s\<close> unfolding i by (metis option.inject prod.inject)
  qed
qed

theorem pw_device_read_returns_iff_witness:
  "(\<exists>fuel r s'. pw_device_read fuel False False False 0 PW_DATA_BUFFER_SIZE two_buffers = Some (r, s') \<and> r \<noteq> Read_Spins) =
    (False \<or> False \<or> False \<or> any_ready False two_buffers)"
  by (rule pw_device_read_returns_iff[OF two_buffers_ok(1)])

end
