(* ===== verification/Pages.thy ===== *)
theory Pages
  imports Prelude
begin

text \<open>Pages of the kernel, and addresses that a pointer runs over.\<close>

definition PAGE_SIZE :: nat where "PAGE_SIZE = 4096"

text \<open>The kernel's \<open>get_order\<close>: the smallest order whose pages hold \<open>n\<close> bytes.\<close>

function get_order :: "nat \<Rightarrow> nat" where
  "get_order n = (if n \<le> PAGE_SIZE then 0 else Suc (get_order ((n + 1) div 2)))"
  by pat_completeness auto
termination by (relation "measure id") (auto simp: PAGE_SIZE_def)

declare get_order.simps [simp del]

lemma get_order_holds: "n \<le> PAGE_SIZE * 2 ^ get_order n"
proof (induction n rule: get_order.induct)
  case (1 n)
  show ?case
  proof (cases "n \<le> PAGE_SIZE")
    case True
    then show ?thesis by (subst get_order.simps) simp
  next
    case False
    then have "(n + 1) div 2 \<le> PAGE_SIZE * 2 ^ get_order ((n + 1) div 2)" using 1 by simp
    then show ?thesis using False by (subst get_order.simps) auto
  qed
qed

lemma unat_lt_u64: "unat (x :: u64) < 18446744073709551616"
  using unsigned_less [of x] by simp

text \<open>Moving a pointer; C leaves it undefined if it leaves the address space.\<close>

definition ptr_add :: "u64 \<Rightarrow> nat \<Rightarrow> u64 option" where
  "ptr_add p n = (if unat p + n < 2 ^ 64 then Some (p + of_nat n) else None)"

definition ptr_sub :: "u64 \<Rightarrow> nat \<Rightarrow> u64 option" where
  "ptr_sub p n = (if n \<le> unat p then Some (p - of_nat n) else None)"

lemma ptr_add_unat: "ptr_add p n = Some q \<Longrightarrow> unat q = unat p + n"
  by (auto simp: ptr_add_def unat_word_ariths unat_of_nat take_bit_eq_mod split: if_splits)

lemma ptr_sub_unat: "ptr_sub p n = Some q \<Longrightarrow> unat q = unat p - n"
  using unat_lt_u64[of p] by (auto simp: ptr_sub_def unat_sub word_le_nat_alt unat_of_nat take_bit_eq_mod split: if_splits)

end
