(* ===== verification/Transport.thy ===== *)
theory Transport
  imports Pages
begin

text \<open>
  The transport of vtsspp/transport.c in its default build: writers put numbered records into the
  kernel's per-CPU ring buffers, and the reader puts them back into the order of their numbers with a
  tree of buffers that hold runs of consecutive records. A ring buffer of the kernel is the queue of its
  committed entries; whether it accepts an entry, and how many entries a page of it has, are parameters.
  Sequence numbers are unbounded, so fewer than 2^31 records are meant.
\<close>

section \<open>The tree\<close>

text \<open>
  \<open>struct vtss_transport_temp\<close>, with what its links point to; \<open>data\<close> is the used part of the data area.
  A slot \<open>pstore\<close> is a path from the head.
\<close>

datatype temp = No_Temp | Temp (prev: temp) (seq_begin: nat) (seq_end: nat) (tdata: "u8 list") (order: nat) (nxt: temp)

definition sizeof_temp :: nat where "sizeof_temp = 48"
definition sizeof_entry :: nat where "sizeof_entry = 16"
definition VTSS_MERGE_MEM_LIMIT :: nat where "VTSS_MERGE_MEM_LIMIT = 160"
definition VTSS_RING_BUFFER_PAGE_SIZE :: nat where "VTSS_RING_BUFFER_PAGE_SIZE = 4080"

text \<open>The header of a ring-buffer event is one 32-bit word, in the kernel's ring_buffer.h.\<close>

definition VTSS_TRANSPORT_MAX_RESERVE_SIZE :: nat where
  "VTSS_TRANSPORT_MAX_RESERVE_SIZE = VTSS_RING_BUFFER_PAGE_SIZE - 4 - sizeof_entry - 64"

definition pages :: "nat \<Rightarrow> int" where
  "pages ord = 2 ^ ord"

definition fits :: "nat \<Rightarrow> nat \<Rightarrow> nat \<Rightarrow> bool" where
  "fits n m ord = (n + m + sizeof_temp < PAGE_SIZE * 2 ^ ord)"

fun nodes :: "temp \<Rightarrow> nat" where
  "nodes No_Temp = 0"
| "nodes (Temp l b e d ord r) = Suc (nodes l + nodes r)"

text \<open>
  \<open>vtss_transport_temp_free_all\<close>: from the head down to a node without children, which is freed, and
  again from the head. The counter of pages is threaded through.
\<close>

fun free_one :: "temp \<Rightarrow> nat \<times> temp" where
  "free_one No_Temp = (0, No_Temp)"
| "free_one (Temp l b e d ord r) =
     (if l \<noteq> No_Temp then let (f, l') = free_one l in (f, Temp l' b e d ord r)
      else if r \<noteq> No_Temp then let (f, r') = free_one r in (f, Temp l b e d ord r')
      else (ord, No_Temp))"

lemma free_one_nodes: "t \<noteq> No_Temp \<Longrightarrow> nodes (snd (free_one t)) < nodes t"
  by (induction t rule: free_one.induct) (auto simp: split_beta Let_def)

function free_all :: "temp \<Rightarrow> int \<Rightarrow> int" where
  "free_all t np = (if t = No_Temp then np else let (f, t') = free_one t in free_all t' (np - pages f))"
  by pat_completeness auto
termination
proof (relation "measure (\<lambda>(t, np). nodes t)")
  fix t np x f t'
  assume "t \<noteq> No_Temp" "x = free_one t" "(f, t') = x"
  then show "((t', np - pages f), (t, np)) \<in> measure (\<lambda>(t, np). nodes t)"
    using free_one_nodes[of t] by (metis case_prod_conv in_measure snd_conv)
qed simp

declare free_all.simps [simp del]

text \<open>Merging the node in a slot with its child on the left, or else on the right, if they are adjacent and fit.\<close>

fun temp_merge :: "temp \<Rightarrow> int \<Rightarrow> temp \<times> int" where
  "temp_merge No_Temp np = (No_Temp, np)"
| "temp_merge (Temp p b e d ord n) np =
     (if p \<noteq> No_Temp \<and> seq_end p = b \<and> fits (length (tdata p)) (length d) (order p)
      then (Temp (prev p) (seq_begin p) e (tdata p @ d) (order p) n, free_all (nxt p) np - pages ord)
      else if n \<noteq> No_Temp \<and> seq_begin n = e \<and> fits (length (tdata n)) (length d) ord
      then (Temp p b (seq_end n) (d @ tdata n) ord (nxt n), free_all (prev n) np - pages (order n))
      else (Temp p b e d ord n, np))"

lemma temp_merge_nodes: "nodes (fst (temp_merge t np)) \<le> nodes t"
  by (cases "(t, np)" rule: temp_merge.cases; (cases "prev t"; cases "nxt t")?) auto

lemma temp_merge_children:
  assumes "temp_merge t np = (Temp p b e d ord n, np')"
  shows "nodes p < nodes t \<and> nodes n < nodes t"
  using temp_merge_nodes[of t np] assms by simp_all

section \<open>Storing\<close>

datatype dir = Prev | Next

fun slot :: "dir list \<Rightarrow> temp \<Rightarrow> temp" where
  "slot [] t = t"
| "slot (Prev # ds) t = (case t of No_Temp \<Rightarrow> No_Temp | Temp p b e d ord n \<Rightarrow> slot ds p)"
| "slot (Next # ds) t = (case t of No_Temp \<Rightarrow> No_Temp | Temp p b e d ord n \<Rightarrow> slot ds n)"

text \<open>Changing what a slot holds, with the counter of pages.\<close>

fun at_slot :: "dir list \<Rightarrow> (temp \<Rightarrow> int \<Rightarrow> temp \<times> int) \<Rightarrow> temp \<Rightarrow> int \<Rightarrow> temp \<times> int" where
  "at_slot [] f t np = f t np"
| "at_slot (Prev # ds) f t np = (case t of No_Temp \<Rightarrow> (t, np)
     | Temp p b e d ord n \<Rightarrow> let (p', np') = at_slot ds f p np in (Temp p' b e d ord n, np'))"
| "at_slot (Next # ds) f t np = (case t of No_Temp \<Rightarrow> (t, np)
     | Temp p b e d ord n \<Rightarrow> let (n', np') = at_slot ds f n np in (Temp p b e d ord n', np'))"

text \<open>The search that merges on its way: for the node behind which the record belongs, or an empty slot.\<close>

function seek :: "nat \<Rightarrow> temp \<Rightarrow> int \<Rightarrow> dir list \<times> temp \<times> int" where
  "seek k t np = (case temp_merge t np of
       (No_Temp, np') \<Rightarrow> ([], No_Temp, np')
     | (Temp p b e d ord n, np') \<Rightarrow>
         if k = e then ([], Temp p b e d ord n, np')
         else if k < b then let (ds, p', np'') = seek k p np' in (Prev # ds, Temp p' b e d ord n, np'')
         else let (ds, n', np'') = seek k n np' in (Next # ds, Temp p b e d ord n', np''))"
  by pat_completeness auto
termination
by (relation "measure (\<lambda>(k, t, np). nodes t)") (auto dest!: temp_merge_children[OF sym])

declare seek.simps [simp del]

text \<open>The search for the node in front of which the record belongs.\<close>

fun seek_before :: "nat \<Rightarrow> temp \<Rightarrow> dir list" where
  "seek_before k No_Temp = []"
| "seek_before k (Temp p b e d ord n) = (if k + 1 = b then [] else if k < b then Prev # seek_before k p else Next # seek_before k n)"

text \<open>\<open>mem_ok\<close>: whether pages can be allocated. The first result is 0 for success.\<close>

definition temp_store_data :: "bool \<Rightarrow> nat \<Rightarrow> u8 list \<Rightarrow> temp \<Rightarrow> int \<Rightarrow> bool \<times> temp \<times> int" where
  "temp_store_data mem_ok k data head np = (let ord = get_order (length data + sizeof_temp); (ds, head, np) = seek k head np in
     case slot ds head of
       No_Temp \<Rightarrow>
         (let ds1 = seek_before k head in
          if slot ds1 head \<noteq> No_Temp \<and> fits (length (tdata (slot ds1 head))) (length data) (order (slot ds1 head))
          then (True, at_slot ds1 (\<lambda>t. temp_merge (Temp (prev t) k (seq_end t) (data @ tdata t) (order t) (nxt t))) head np)
          else if \<not> mem_ok then (False, head, np)
          else (True, at_slot ds (\<lambda>_. temp_merge (Temp No_Temp k (k + 1) data ord No_Temp)) head (np + pages ord)))
     | Temp p b e d ord1 n \<Rightarrow>
         if \<not> fits (length d) (length data) ord1
         then if \<not> mem_ok then (False, head, np)
           else (True, at_slot ds (\<lambda>_ np. let (n', np') = temp_merge (Temp No_Temp k (k + 1) data ord n) np
             in (Temp p b e d ord1 n', np')) head (np + pages ord))
         else (True, at_slot ds (\<lambda>_. temp_merge (Temp p b (k + 1) (d @ data) ord1 n)) head np))"

text \<open>A large record brings its own pages; it becomes a node as it is.\<close>

definition temp_store_blob :: "nat \<Rightarrow> u8 list \<Rightarrow> nat \<Rightarrow> temp \<Rightarrow> int \<Rightarrow> temp \<times> int" where
  "temp_store_blob k data ord head np = (let (ds, head, np) = seek k head np in
     case slot ds head of
       No_Temp \<Rightarrow> at_slot ds (\<lambda>_ np. (Temp No_Temp k (k + 1) data ord No_Temp, np)) head np
     | Temp p b e d ord1 n \<Rightarrow> at_slot ds (\<lambda>_ np. (Temp p b e d ord1 (Temp No_Temp k (k + 1) data ord n), np)) head np)"

section \<open>Flushing\<close>

datatype found = Absent | Too_Big | Output "u8 list" nat

text \<open>One descent from the head: the node that starts with the next number is taken out if it fits.\<close>

function take_out :: "nat \<Rightarrow> nat \<Rightarrow> temp \<Rightarrow> int \<Rightarrow> found \<times> temp \<times> int" where
  "take_out q room t np = (case temp_merge t np of
       (No_Temp, np') \<Rightarrow> (Absent, No_Temp, np')
     | (Temp p b e d ord n, np') \<Rightarrow>
         if q = b then
           if room < length d then (Too_Big, Temp p b e d ord n, np')
           else (Output d e, n, free_all p np' - pages ord)
         else if q < b then let (f, p', np'') = take_out q room p np' in (f, Temp p' b e d ord n, np'')
         else let (f, n', np'') = take_out q room n np' in (f, Temp p b e d ord n', np''))"
  by pat_completeness auto
termination
by (relation "measure (\<lambda>(k, m, t, np). nodes t)") (auto dest!: temp_merge_children[OF sym])

declare take_out.simps [simp del]

lemma take_out_nodes: "fst (take_out q room t np) = Output d e \<Longrightarrow> nodes (fst (snd (take_out q room t np))) < nodes t"
proof (induction q room t np rule: take_out.induct)
  case (1 q room t np)
  show ?case
  proof (cases "temp_merge t np")
    case (Pair u np')
    show ?thesis
    proof (cases u)
      case No_Temp
      then show ?thesis using 1(3) Pair by (subst (asm) take_out.simps) simp
    next
      case (Temp p b e' d' ord n)
      note m = Pair[unfolded Temp]
      have le: "Suc (nodes p + nodes n) \<le> nodes t" using temp_merge_nodes[of t np] m by simp
      have sp: "take_out q room t np = (if q = b then if room < length d' then (Too_Big, Temp p b e' d' ord n, np') else (Output d' e', n, free_all p np' - pages ord)
         else if q < b then let (f, p', np'') = take_out q room p np' in (f, Temp p' b e' d' ord n, np'')
         else let (f, n', np'') = take_out q room n np' in (f, Temp p b e' d' ord n', np''))"
        by (subst take_out.simps) (simp add: m)
      show ?thesis using 1(3) 1(1)[OF m[symmetric] refl] 1(2)[OF m[symmetric] refl] le
        unfolding sp by (auto simp: split_beta Let_def split: if_splits)
    qed
  qed
qed

text \<open>\<open>vtss_transport_temp_flush\<close> of a transport that is not aborted: the bytes, the next number, the tree and the counter.\<close>

function temp_flush_loop :: "nat \<Rightarrow> nat \<Rightarrow> temp \<Rightarrow> int \<Rightarrow> u8 list \<times> nat \<times> temp \<times> int" where
  "temp_flush_loop q room t np = (case take_out q room t np of
       (Output d e, t', np') \<Rightarrow> let (ds, q', t'', np'') = temp_flush_loop e (room - length d) t' np' in (d @ ds, q', t'', np'')
     | (_, t', np') \<Rightarrow> ([], q, t', np'))"
  by pat_completeness auto
termination
by (relation "measure (\<lambda>(q, room, t, np). nodes t)") (auto, metis take_out_nodes fst_conv snd_conv)

declare temp_flush_loop.simps [simp del]

section \<open>A transport\<close>

text \<open>
  What an entry of a ring buffer holds: the record, or, with a size of 0, a pointer to pages with the
  record and their order. \<open>npages\<close> is the global counter \<open>vtss_transport_npages\<close>.
\<close>

datatype payload = Inline "u8 list" | Blob "u8 list" nat

record trn =
  head :: temp
  seqdone :: nat
  seqcpu :: "nat \<Rightarrow> nat"
  seqnum :: nat
  is_abort :: bool
  is_complete :: nat
  is_attached :: int
  is_overflow :: nat
  loscount :: nat
  npages :: int
  rb :: "nat \<Rightarrow> (nat \<times> payload) list"
  rb_enabled :: bool

text \<open>
  The counter of the records is an \<open>atomic_t\<close> of 32 bits; what \<open>atomic_inc_return\<close> answers for the \<open>n\<close>-th record
  becomes an \<open>unsigned long\<close>. Up to \<open>2 ^ 31 - 1\<close> records that is \<open>n\<close>, which the model counts with.
\<close>

definition atomic_seqnum :: "nat \<Rightarrow> u64" where
  "atomic_seqnum n = scast (of_nat n :: 32 word)"

lemma atomic_seqnum_exact:
  assumes "n < 2 ^ 31"
  shows "unat (atomic_seqnum n) = n"
proof -
  have "\<not> bit n k" if "31 \<le> k" for k
    using assms that by (metis bit_take_bit_iff not_less take_bit_nat_eq_self_iff)
  then have "atomic_seqnum n = of_nat n"
    by (intro bit_word_eqI) (auto simp: atomic_seqnum_def bit_signed_iff bit_of_nat_iff min_def)
  moreover have "n < 2 ^ 64" using assms by simp
  ultimately show ?thesis by (simp add: unat_of_nat take_bit_nat_eq_self)
qed

lemma atomic_seqnum_wraps: "unat (atomic_seqnum (2 ^ 31)) = 2 ^ 64 - 2 ^ 31"
  by (simp add: atomic_seqnum_def)

definition vtss_transport_create_trnd :: "int \<Rightarrow> trn" where
  "vtss_transport_create_trnd np = \<lparr>head = No_Temp, seqdone = 1, seqcpu = (\<lambda>_. 0), seqnum = 0, is_abort = False, is_complete = 0,
     is_attached = 0, is_overflow = 0, loscount = 0, npages = np, rb = (\<lambda>_. []), rb_enabled = True\<rparr>"

text \<open>The difference is computed in unsigned long.\<close>

definition ahead :: "nat \<Rightarrow> trn \<Rightarrow> nat" where
  "ahead k s = (if k + 1 < seqdone s then k + 1 + 2 ^ 64 - seqdone s else k + 1 - seqdone s)"

definition VTSS_TRANSPORT_IS_EMPTY :: "trn \<Rightarrow> bool" where
  "VTSS_TRANSPORT_IS_EMPTY s = (ahead (seqnum s) s = 0)"

definition VTSS_TRANSPORT_DATA_READY :: "trn \<Rightarrow> bool" where
  "VTSS_TRANSPORT_DATA_READY s = (ahead (seqnum s) s > VTSS_MERGE_MEM_LIMIT div 4)"

section \<open>Writing a record\<close>

text \<open>
  \<open>vtss_transport_record_reserve\<close>: \<open>None\<close> for NULL, else what the entry will hold when it is committed.
  \<open>ring_ok\<close> is the answer of the ring buffer, \<open>mem_ok\<close> of the page allocator; the record is what is copied
  into the reserved place before the commit.
\<close>

definition vtss_transport_record_reserve :: "bool \<Rightarrow> bool \<Rightarrow> u8 list \<Rightarrow> trn \<Rightarrow> (nat \<times> payload) option \<times> trn" where
  "vtss_transport_record_reserve ring_ok mem_ok r s = (let size = length r in
     if is_complete s \<noteq> 0 then (None, s)
     else if size = 0 \<or> size > 0xffff then (None, s)
     else if size < VTSS_TRANSPORT_MAX_RESERVE_SIZE then
       if \<not> (ring_ok \<and> rb_enabled s) then (None, s\<lparr>loscount := loscount s + 1, is_overflow := is_overflow s + 1\<rparr>)
       else (Some (seqnum s + 1, Inline r), s\<lparr>seqnum := seqnum s + 1\<rparr>)
     else let ord = get_order (size + sizeof_temp) in
       if npages s > int (VTSS_MERGE_MEM_LIMIT div 2) then (None, s\<lparr>loscount := loscount s + 1\<rparr>)
       else if \<not> mem_ok then (None, s\<lparr>loscount := loscount s + 1\<rparr>)
       else let s = s\<lparr>npages := npages s + pages ord\<rparr> in
         if \<not> (ring_ok \<and> rb_enabled s)
         then (None, s\<lparr>npages := npages s - pages ord, loscount := loscount s + 1, is_overflow := is_overflow s + 1\<rparr>)
         else (Some (seqnum s + 1, Blob r ord), s\<lparr>seqnum := seqnum s + 1\<rparr>))"

definition vtss_transport_record_commit :: "nat \<Rightarrow> nat \<times> payload \<Rightarrow> trn \<Rightarrow> trn" where
  "vtss_transport_record_commit cpu entry s = s\<lparr>rb := (rb s)(cpu := rb s cpu @ [entry])\<rparr>"

text \<open>The first result is whether the return code is 0.\<close>

definition vtss_transport_record_write :: "bool \<Rightarrow> bool \<Rightarrow> nat \<Rightarrow> u8 list \<Rightarrow> u8 list \<Rightarrow> trn \<Rightarrow> bool \<times> trn" where
  "vtss_transport_record_write ring_ok mem_ok cpu part0 part1 s =
     (case vtss_transport_record_reserve ring_ok mem_ok (part0 @ part1) s of
        (None, s) \<Rightarrow> (False, s)
      | (Some entry, s) \<Rightarrow> (True, vtss_transport_record_commit cpu entry s))"

text \<open>
  All transports of the regular kind, in the order of the list; the counter of pages is global. The answers
  of the ring buffer and of the allocator are those for the transport at the position in the list.
\<close>

fun vtss_transport_record_write_all :: "(nat \<Rightarrow> bool) \<Rightarrow> (nat \<Rightarrow> bool) \<Rightarrow> nat \<Rightarrow> u8 list \<Rightarrow> u8 list \<Rightarrow> (bool \<times> trn) list \<Rightarrow> int
    \<Rightarrow> bool \<times> (bool \<times> trn) list \<times> int" where
  "vtss_transport_record_write_all ring_ok mem_ok cpu part0 part1 [] np = (True, [], np)"
| "vtss_transport_record_write_all ring_ok mem_ok cpu part0 part1 ((reg, s) # ts) np =
     (let (ok, s, np) = (if is_complete s = 0 \<and> reg
         then let (ok, s) = vtss_transport_record_write (ring_ok 0) (mem_ok 0) cpu part0 part1 (s\<lparr>npages := np\<rparr>) in (ok, s, npages s)
         else (True, s, np));
        (all_ok, ts, np) = vtss_transport_record_write_all (\<lambda>i. ring_ok (i + 1)) (\<lambda>i. mem_ok (i + 1)) cpu part0 part1 ts np
      in (ok \<and> all_ok, (reg, s) # ts, np))"

section \<open>Reading\<close>

definition vtss_transport_temp_flush :: "nat \<Rightarrow> trn \<Rightarrow> u8 list \<times> trn" where
  "vtss_transport_temp_flush room s = (if is_abort s then ([], s)
     else let (d, q, t, np) = temp_flush_loop (seqdone s) room (head s) (npages s) in (d, s\<lparr>seqdone := q, head := t, npages := np\<rparr>))"

definition store_payload :: "bool \<Rightarrow> nat \<Rightarrow> payload \<Rightarrow> trn \<Rightarrow> trn" where
  "store_payload mem_ok k x s = (case x of
       Inline d \<Rightarrow> let (ok, t, np) = temp_store_data mem_ok k d (head s) (npages s) in s\<lparr>head := t, npages := np\<rparr>
     | Blob d ord \<Rightarrow> let (t, np) = temp_store_blob k d ord (head s) (npages s) in s\<lparr>head := t, npages := np\<rparr>)"

definition vtss_transport_temp_parse_event :: "bool \<Rightarrow> nat \<Rightarrow> nat \<times> payload \<Rightarrow> nat \<Rightarrow> trn \<Rightarrow> u8 list \<times> trn" where
  "vtss_transport_temp_parse_event mem_ok cpu = (\<lambda>(k, x) room s. let s = s\<lparr>seqcpu := (seqcpu s)(cpu := k)\<rparr> in
     if is_abort s \<or> seqdone s > k
     then (case x of Inline d \<Rightarrow> ([], s) | Blob d ord \<Rightarrow> ([], s\<lparr>npages := npages s - pages ord\<rparr>))
     else if seqdone s \<noteq> k then ([], store_payload mem_ok k x s)
     else case x of
       Inline d \<Rightarrow> if room < length d then ([], store_payload mem_ok k x s) else (d, s\<lparr>seqdone := seqdone s + 1\<rparr>)
     | Blob d ord \<Rightarrow> if room < length d then ([], store_payload mem_ok k x s)
         else (d, s\<lparr>npages := npages s - pages ord, seqdone := seqdone s + 1\<rparr>))"

text \<open>The entries of a page, and one entry after the other.\<close>

fun parse_page :: "(nat \<Rightarrow> bool) \<Rightarrow> nat \<Rightarrow> (nat \<times> payload) list \<Rightarrow> nat \<Rightarrow> trn \<Rightarrow> u8 list \<times> nat \<times> trn" where
  "parse_page mem_ok cpu [] room s = ([], room, s)"
| "parse_page mem_ok cpu (e # es) room s = (let (d, s) = vtss_transport_temp_parse_event (mem_ok (fst e)) cpu e room s;
     (ds, room, s) = parse_page mem_ok cpu es (room - length d) s in (d @ ds, room, s))"

definition running :: "trn \<Rightarrow> bool" where
  "running s = (\<not> is_abort s \<and> is_complete s = 0)"

fun peek_events :: "(nat \<Rightarrow> bool) \<Rightarrow> nat \<Rightarrow> nat \<Rightarrow> nat \<Rightarrow> trn \<Rightarrow> u8 list \<times> nat \<times> trn" where
  "peek_events mem_ok cpu 0 room s = ([], room, s)"
| "peek_events mem_ok cpu (Suc n) room s = (case rb s cpu of
       [] \<Rightarrow> ([], room, s)
     | e # es \<Rightarrow> let s = s\<lparr>seqcpu := (seqcpu s)(cpu := fst e)\<rparr> in
         if ahead (fst e) s > VTSS_MERGE_MEM_LIMIT div 4 \<and> running s then ([], room, s)
         else let (d, s) = vtss_transport_temp_parse_event (mem_ok (fst e)) cpu e room (s\<lparr>rb := (rb s)(cpu := es)\<rparr>);
           (ds, room, s) = peek_events mem_ok cpu n (room - length d) s in (d @ ds, room, s))"

text \<open>
  The CPUs that are online; whether the page that the ring buffer copies to can be allocated, and
  how many entries it moves there, if it does, in the round \<open>i\<close> on a CPU; whether memory can be had for a record.
\<close>

record read_env =
  online :: "nat list"
  page_alloc :: "nat \<Rightarrow> nat \<Rightarrow> bool"
  page_events :: "nat \<Rightarrow> nat \<Rightarrow> nat option"
  temp_alloc :: "nat \<Rightarrow> bool"

datatype cpu_result = Go_On | Buffer_Full | No_Page

definition skip_cpu :: "nat \<Rightarrow> trn \<Rightarrow> bool" where
  "skip_cpu cpu s = (seqcpu s cpu > seqdone s \<and> ahead (seqcpu s cpu) s > VTSS_MERGE_MEM_LIMIT div 3 \<and> running s)"

text \<open>
  The limits on the memory in the tree: the transport is aborted, or entries are read one by one, on this
  CPU and the ones after it in the round.
\<close>

definition check_memory :: "bool \<Rightarrow> trn \<Rightarrow> bool \<times> trn" where
  "check_memory fast s =
     (if npages s > int VTSS_MERGE_MEM_LIMIT
      then (fast, s\<lparr>is_overflow := is_overflow s + 1, rb_enabled := False, npages := free_all (head s) (npages s), head := No_Temp, is_abort := True\<rparr>)
      else if npages s > int (VTSS_MERGE_MEM_LIMIT div 2) then (False, s\<lparr>is_overflow := is_overflow s + 1\<rparr>)
      else (fast, s))"

definition read_entries :: "read_env \<Rightarrow> nat \<Rightarrow> nat \<Rightarrow> bool \<Rightarrow> nat \<Rightarrow> trn \<Rightarrow> u8 list \<times> nat \<times> trn" where
  "read_entries e i cpu fast room s = (case page_events e i cpu of
       Some n \<Rightarrow> if fast then parse_page (temp_alloc e) cpu (take n (rb s cpu)) room (s\<lparr>rb := (rb s)(cpu := drop n (rb s cpu))\<rparr>)
         else peek_events (temp_alloc e) cpu 10 room s
     | None \<Rightarrow> peek_events (temp_alloc e) cpu 10 room s)"

text \<open>With the result go on or return, the flag \<open>fast\<close> for the next CPU.\<close>

definition read_cpu :: "read_env \<Rightarrow> nat \<Rightarrow> nat \<Rightarrow> bool \<Rightarrow> nat \<Rightarrow> trn \<Rightarrow> (cpu_result \<times> bool) \<times> u8 list \<times> nat \<times> trn" where
  "read_cpu e i cpu fast room s =
     (if rb s cpu = [] \<or> skip_cpu cpu s then ((Go_On, fast), [], room, s)
      else let (fast, s) = check_memory fast s in
        if \<not> page_alloc e i cpu then ((No_Page, fast), [], room, s)
        else let (d, room, s) = read_entries e i cpu fast room s;
          (d', s) = vtss_transport_temp_flush room s; room = room - length d' in
          ((if room < VTSS_RING_BUFFER_PAGE_SIZE then Buffer_Full else Go_On, fast), d @ d', room, s))"

fun read_cpus :: "read_env \<Rightarrow> nat \<Rightarrow> nat list \<Rightarrow> bool \<Rightarrow> nat \<Rightarrow> trn \<Rightarrow> cpu_result \<times> u8 list \<times> nat \<times> trn" where
  "read_cpus e i [] fast room s = (Go_On, [], room, s)"
| "read_cpus e i (cpu # cpus) fast room s = (let ((r, fast), d, room, s) = read_cpu e i cpu fast room s in
     if r \<noteq> Go_On then (r, d, room, s) else let (r, d', room, s) = read_cpus e i cpus fast room s in (r, d @ d', room, s))"

fun read_loop :: "read_env \<Rightarrow> nat list \<Rightarrow> nat \<Rightarrow> trn \<Rightarrow> cpu_result \<times> u8 list \<times> nat \<times> trn" where
  "read_loop e [] room s = (Go_On, [], room, s)"
| "read_loop e (i # is) room s =
     (if \<not> (room \<ge> VTSS_RING_BUFFER_PAGE_SIZE \<and> \<not> VTSS_TRANSPORT_IS_EMPTY s) then (Go_On, [], room, s)
      else let (r, d, room, s) = read_cpus e i (online e) True room s in
        if r \<noteq> Go_On then (r, d, room, s) else let (r, d', room, s) = read_loop e is room s in (r, d @ d', room, s))"

text \<open>The bytes are those copied to the user's buffer; with \<open>Read_Fault\<close> their number is not returned.\<close>

datatype trn_read = Read_Data "u8 list" | Read_Magic | Read_Fault "u8 list" | Read_Again | Read_Waits

definition vtss_transport_read :: "read_env \<Rightarrow> bool \<Rightarrow> nat \<Rightarrow> trn \<Rightarrow> trn_read \<times> trn" where
  "vtss_transport_read e nonblock len s =
     (if is_complete s = 0 \<and> \<not> VTSS_TRANSPORT_DATA_READY s then (if nonblock then Read_Again else Read_Waits, s)
      else let (d, s) = vtss_transport_temp_flush len s;
          (r, d', room, s) = read_loop e [0 ..< 30 * length (online e)] (len - length d) s in
        case r of
          No_Page \<Rightarrow> (Read_Fault (d @ d'), s)
        | Buffer_Full \<Rightarrow> (Read_Data (d @ d'), s)
        | Go_On \<Rightarrow> (if d @ d' = [] \<and> running s then Read_Magic else Read_Data (d @ d'), s\<lparr>is_overflow := 0\<rparr>))"

section \<open>Polling, opening, closing, completing\<close>

definition vtss_transport_poll :: "trn \<Rightarrow> bool \<times> trn" where
  "vtss_transport_poll s = (if is_complete s \<noteq> 0 \<or> VTSS_TRANSPORT_DATA_READY s then (True, s) else (False, s\<lparr>is_overflow := 0\<rparr>))"

datatype open_result = Opened | Open_EINVAL | Open_EBUSY

definition vtss_transport_open :: "trn \<Rightarrow> open_result \<times> trn" where
  "vtss_transport_open s =
     (if is_complete s \<noteq> 0 \<and> VTSS_TRANSPORT_IS_EMPTY s then (Open_EINVAL, s)
      else let s = s\<lparr>is_attached := is_attached s + 1\<rparr> in
        if is_attached s > 1 then (Open_EBUSY, s\<lparr>is_attached := is_attached s - 1\<rparr>) else (Opened, s))"

definition vtss_transport_close :: "trn \<Rightarrow> bool \<times> trn" where
  "vtss_transport_close s = (let s = s\<lparr>is_attached := is_attached s - 1\<rparr> in
     if is_attached s \<noteq> 0 then (False, s\<lparr>is_attached := 0\<rparr>) else (True, s))"

definition vtss_transport_complete :: "trn \<Rightarrow> trn" where
  "vtss_transport_complete s = s\<lparr>is_complete := is_complete s + 1\<rparr>"

text \<open>What \<open>vtss_transport_fini\<close> does with the tree of a transport; the ring buffer is freed by the kernel.\<close>

definition fini_trnd :: "trn \<Rightarrow> int" where
  "fini_trnd s = free_all (head s) (npages s)"

end
