(* ===== verification/Transport_Tree.thy ===== *)
theory Transport_Tree
  imports Transport
begin

text \<open>
  The tree in which the reader of transport.c keeps records that arrived too early: a search tree of
  runs of consecutive records. What each of its operations does to the set of records it holds, to the
  bytes of its nodes and to the counter of pages.
\<close>

section \<open>Runs of records\<close>

text \<open>\<open>rs\<close> are the accepted records; they are numbered from 1.\<close>

definition rec_at :: "u8 list list \<Rightarrow> nat \<Rightarrow> u8 list" where
  "rec_at rs k = rs ! (k - 1)"

definition recs :: "u8 list list \<Rightarrow> nat \<Rightarrow> nat \<Rightarrow> u8 list" where
  "recs rs b e = concat (map (rec_at rs) [b ..< e])"

lemma recs_same [simp]: "recs rs b b = []"
  by (simp add: recs_def)

lemma recs_one [simp]: "recs rs b (Suc b) = rec_at rs b"
  by (simp add: recs_def)

lemma recs_append: "b \<le> m \<Longrightarrow> m \<le> e \<Longrightarrow> recs rs b m @ recs rs m e = recs rs b e"
  using upt_add_eq_append[of b m "e - m"] by (simp add: recs_def)

lemma recs_Suc: "b \<le> e \<Longrightarrow> recs rs b (Suc e) = recs rs b e @ rec_at rs e"
  using recs_append[of b e "Suc e" rs] by simp

lemma recs_first: "recs rs (Suc b) e = r \<Longrightarrow> b < e \<Longrightarrow> recs rs b e = rec_at rs b @ r"
  using recs_append[of b "Suc b" e rs] by simp

section \<open>Search trees of runs\<close>

fun keys :: "temp \<Rightarrow> nat set" where
  "keys No_Temp = {}"
| "keys (Temp p b e d ord n) = keys p \<union> {b ..< e} \<union> keys n"

fun tree_ok :: "u8 list list \<Rightarrow> temp \<Rightarrow> bool" where
  "tree_ok rs No_Temp = True"
| "tree_ok rs (Temp p b e d ord n) = (b < e \<and> d = recs rs b e \<and> length d + sizeof_temp \<le> PAGE_SIZE * 2 ^ ord \<and>
     (\<forall>k \<in> keys p. k < b) \<and> (\<forall>k \<in> keys n. e \<le> k) \<and> tree_ok rs p \<and> tree_ok rs n)"

fun tree_pages :: "temp \<Rightarrow> int" where
  "tree_pages No_Temp = 0"
| "tree_pages (Temp p b e d ord n) = tree_pages p + pages ord + tree_pages n"

lemma keys_empty: "tree_ok rs t \<Longrightarrow> keys t = {} \<Longrightarrow> t = No_Temp"
  by (cases t) auto

lemma free_all_No_Temp [simp]: "free_all No_Temp np = np"
  by (simp add: free_all.simps)

text \<open>Freeing takes all pages of the tree off the counter.\<close>

lemma free_one_pages: "t \<noteq> No_Temp \<Longrightarrow> tree_pages (snd (free_one t)) = tree_pages t - pages (fst (free_one t))"
  by (induction t rule: free_one.induct) (auto simp: split_beta Let_def)

lemma free_all_pages: "free_all t np = np - tree_pages t"
proof (induction t np rule: free_all.induct)
  case (1 t np)
  then show ?case
    by (cases "free_one t") (subst free_all.simps, use free_one_pages[of t] in \<open>auto simp: Let_def\<close>)
qed

text \<open>A node that is merged with a neighbour has nothing between itself and the neighbour.\<close>

lemma temp_merge_ok:
  assumes "tree_ok rs t"
  shows "tree_ok rs (fst (temp_merge t np)) \<and> keys (fst (temp_merge t np)) = keys t \<and>
    snd (temp_merge t np) = np - tree_pages t + tree_pages (fst (temp_merge t np))"
proof (cases t)
  case (Temp p b e d ord n)
  note t = assms[unfolded Temp tree_ok.simps]
  show ?thesis
  proof (cases "p \<noteq> No_Temp \<and> seq_end p = b \<and> fits (length (tdata p)) (length d) (order p)")
    case True
    then obtain p1 b1 d1 o1 n1 where p: "p = Temp p1 b1 b d1 o1 n1" by (cases p) auto
    have "n1 = No_Temp"
    proof (rule keys_empty)
      show "tree_ok rs n1" using t p by simp
      have "\<forall>k \<in> keys n1. k < b \<and> b \<le> k" using t p by simp
      then show "keys n1 = {}" by fastforce
    qed
    then have e: "temp_merge t np = (Temp p1 b1 e (d1 @ d) o1 n, np - pages ord)" using True by (simp add: Temp p)
    have "b1 < b" "b < e" "d1 = recs rs b1 b" "d = recs rs b e" using t p by simp_all
    moreover have "d1 @ d = recs rs b1 e" using calculation recs_append[of b1 b e rs] by simp
    moreover have "length (recs rs b1 e) = length d1 + length d" using calculation by (metis length_append)
    moreover have "{b1 ..< b} \<union> {b ..< e} = {b1 ..< e}" using calculation by auto
    ultimately show ?thesis using t True unfolding e p \<open>n1 = No_Temp\<close> Temp by (auto simp: fits_def)
  next
    case False
    note f = False
    show ?thesis
    proof (cases "n \<noteq> No_Temp \<and> seq_begin n = e \<and> fits (length (tdata n)) (length d) ord")
      case True
      then obtain p1 e1 d1 o1 n1 where n: "n = Temp p1 e e1 d1 o1 n1" by (cases n) auto
      have "p1 = No_Temp"
      proof (rule keys_empty)
        show "tree_ok rs p1" using t n by simp
        have "\<forall>k \<in> keys p1. k < e \<and> e \<le> k" using t n by simp
        then show "keys p1 = {}" by fastforce
      qed
      then have m: "temp_merge t np = (Temp p b e1 (d @ d1) ord n1, np - pages o1)" using True f by (auto simp: Temp n)
      have "b < e" "e < e1" "d1 = recs rs e e1" "d = recs rs b e" using t n by simp_all
      moreover have "d @ d1 = recs rs b e1" using calculation recs_append[of b e e1 rs] by simp
      moreover have "length (recs rs b e1) = length d + length d1" using calculation by (metis length_append)
      moreover have "{b ..< e} \<union> {e ..< e1} = {b ..< e1}" using calculation by auto
      moreover have "{b ..< e1} \<union> keys n1 = {b ..< e} \<union> keys n" using calculation unfolding n \<open>p1 = No_Temp\<close> by auto
      moreover have "\<forall>k \<in> keys n1. e1 \<le> k" "tree_ok rs n1" using t n by simp_all
      ultimately show ?thesis using t True unfolding m by (simp add: Temp fits_def n \<open>p1 = No_Temp\<close> Un_assoc)
    next
      case False
      then show ?thesis using assms f by (auto simp: Temp)
    qed
  qed
qed simp

text \<open>A slot to which the search for \<open>k\<close> leads.\<close>

fun on_path :: "nat \<Rightarrow> dir list \<Rightarrow> temp \<Rightarrow> bool" where
  "on_path k [] t = True"
| "on_path k (Prev # ds) (Temp p b e d ord n) = (k < b \<and> on_path k ds p)"
| "on_path k (Next # ds) (Temp p b e d ord n) = (e \<le> k \<and> on_path k ds n)"
| "on_path k (_ # ds) No_Temp = False"

lemma slot_ok: "tree_ok rs t \<Longrightarrow> tree_ok rs (slot ds t) \<and> keys (slot ds t) \<subseteq> keys t"
  by (induction ds t rule: slot.induct) (auto split: temp.splits)

lemma at_slot_ok:
  assumes "tree_ok rs t" "on_path k ds t" "f (slot ds t) np = (u, np')" "tree_ok rs u" "keys u = insert k (keys (slot ds t))"
    "np' = np - tree_pages (slot ds t) + tree_pages u + x"
  shows "tree_ok rs (fst (at_slot ds f t np)) \<and> keys (fst (at_slot ds f t np)) = insert k (keys t) \<and>
    snd (at_slot ds f t np) = np - tree_pages t + tree_pages (fst (at_slot ds f t np)) + x"
  using assms
  by (induction k ds t rule: on_path.induct) (auto simp: split_beta Let_def)

lemma seek_ok:
  assumes "tree_ok rs t" "k \<notin> keys t" "seek k t np = (ds, t', np')"
  shows "tree_ok rs t' \<and> keys t' = keys t \<and> np' = np - tree_pages t + tree_pages t' \<and> on_path k ds t' \<and>
    (slot ds t' = No_Temp \<or> seq_end (slot ds t') = k)"
  using assms
proof (induction k t np arbitrary: ds t' np' rule: seek.induct)
  case (1 k t np)
  obtain u m where m: "temp_merge t np = (u, m)" by (cases "temp_merge t np")
  have u: "tree_ok rs u" "keys u = keys t" "m = np - tree_pages t + tree_pages u"
    using temp_merge_ok[OF 1(3), of np] m by auto
  show ?case
  proof (cases u)
    case No_Temp
    then show ?thesis using 1(5) m u by (subst (asm) seek.simps) auto
  next
    case (Temp p b e d ord n)
    have sp: "seek k t np = (if k = e then ([], Temp p b e d ord n, m)
         else if k < b then let (ds, p', np'') = seek k p m in (Prev # ds, Temp p' b e d ord n, np'')
         else let (ds, n', np'') = seek k n m in (Next # ds, Temp p b e d ord n', np''))"
      by (subst seek.simps) (simp add: m Temp)
    have t: "tree_ok rs (Temp p b e d ord n)" "k \<notin> keys (Temp p b e d ord n)" using u(1,2) 1(4) Temp by auto
    consider (here) "k = e" | (left) "k \<noteq> e" "k < b" | (right) "k \<noteq> e" "\<not> k < b" by blast
    then show ?thesis
    proof cases
      case here
      then show ?thesis using 1(5) u Temp unfolding sp by auto
    next
      case left
      obtain ds1 p1 np1 where s: "seek k p m = (ds1, p1, np1)" by (cases "seek k p m")
      have "tree_ok rs p1 \<and> keys p1 = keys p \<and> np1 = m - tree_pages p + tree_pages p1 \<and> on_path k ds1 p1 \<and>
          (slot ds1 p1 = No_Temp \<or> seq_end (slot ds1 p1) = k)"
        by (rule 1(1)[OF m[symmetric] Temp left _ _ s]) (use t in auto)
      then show ?thesis using 1(5) u Temp left t unfolding sp s by auto
    next
      case right
      obtain ds1 p1 np1 where s: "seek k n m = (ds1, p1, np1)" by (cases "seek k n m")
      have "tree_ok rs p1 \<and> keys p1 = keys n \<and> np1 = m - tree_pages n + tree_pages p1 \<and> on_path k ds1 p1 \<and>
          (slot ds1 p1 = No_Temp \<or> seq_end (slot ds1 p1) = k)"
        by (rule 1(2)[OF m[symmetric] Temp right _ _ s]) (use t in auto)
      moreover have "e \<le> k" using t right by auto
      ultimately show ?thesis using 1(5) u Temp right t unfolding sp s by auto
    qed
  qed
qed

lemma seek_before_ok:
  assumes "tree_ok rs t" "k \<notin> keys t"
  shows "on_path k (seek_before k t) t \<and> (slot (seek_before k t) t = No_Temp \<or> seq_begin (slot (seek_before k t) t) = k + 1)"
  using assms by (induction k t rule: seek_before.induct) auto

section \<open>Storing\<close>

text \<open>A single new node.\<close>

lemma single_ok:
  assumes "data = rec_at rs k" "length data + sizeof_temp \<le> PAGE_SIZE * 2 ^ ord" "tree_ok rs n" "\<forall>j \<in> keys n. k < j"
  shows "tree_ok rs (Temp No_Temp k (k + 1) data ord n)"
  using assms by (auto simp: Suc_le_eq)

definition tree_after :: "u8 list list \<Rightarrow> nat set \<Rightarrow> int \<Rightarrow> temp \<times> int \<Rightarrow> bool" where
  "tree_after rs K other tn = (tree_ok rs (fst tn) \<and> keys (fst tn) = K \<and> snd tn = other + tree_pages (fst tn))"

lemma tree_afterI: "tree_ok rs t \<Longrightarrow> keys t = K \<Longrightarrow> np = other + tree_pages t \<Longrightarrow> tree_after rs K other (t, np)"
  by (simp add: tree_after_def)

lemma merge_after: "tree_ok rs t \<Longrightarrow> tree_after rs (keys t) (np - tree_pages t) (temp_merge t np)"
  using temp_merge_ok[of rs t np] by (simp add: tree_after_def)

lemma at_slot_after:
  assumes "tree_ok rs t" "on_path k ds t" "tree_after rs (insert k (keys (slot ds t))) (np - tree_pages (slot ds t) + x) (f (slot ds t) np)"
  shows "tree_after rs (insert k (keys t)) (np - tree_pages t + x) (at_slot ds f t np)"
proof -
  obtain u np' where f: "f (slot ds t) np = (u, np')" by (cases "f (slot ds t) np")
  show ?thesis using at_slot_ok[OF assms(1,2), where f = f and np = np and u = u and np' = np' and x = x] f assms(3) unfolding f by (simp add: tree_after_def)
qed

lemma seek_after:
  assumes "tree_ok rs t" "k \<notin> keys t" "np = other + tree_pages t"
  obtains ds u m where "seek k t np = (ds, u, m)" "tree_ok rs u" "keys u = keys t" "m = other + tree_pages u" "on_path k ds u"
    "slot ds u = No_Temp \<or> seq_end (slot ds u) = k"
proof -
  obtain ds u m where s: "seek k t np = (ds, u, m)" by (cases "seek k t np")
  show thesis by (rule that[OF s]) (use seek_ok[OF assms(1,2) s] assms(3) in auto)
qed

lemma slot_fresh: "tree_ok rs t \<Longrightarrow> k \<notin> keys t \<Longrightarrow> tree_ok rs (slot ds t) \<and> k \<notin> keys (slot ds t)"
  using slot_ok[of rs t ds] by blast

text \<open>The record is appended to the node that ends where it starts, or put behind it.\<close>

lemma append_after:
  assumes "tree_ok rs (Temp p b k d ord n)" "k \<notin> keys n" "data = rec_at rs k" "fits (length d) (length data) ord"
  shows "tree_ok rs (Temp p b (k + 1) (d @ data) ord n)" "keys (Temp p b (k + 1) (d @ data) ord n) = insert k (keys (Temp p b k d ord n))"
  using assms recs_Suc[of b k rs] by (auto simp: fits_def le_less Suc_le_eq)

lemma behind_ok:
  assumes "tree_ok rs (Temp p b k d ord n)" "k \<notin> keys n" "tree_after rs (insert k (keys n)) other (n', np')"
  shows "tree_after rs (insert k (keys (Temp p b k d ord n))) (other - tree_pages p - pages ord) (Temp p b k d ord n', np')"
  using assms by (auto simp: tree_after_def)

lemma temp_store_data_after:
  assumes t: "tree_ok rs t" "k \<notin> keys t" "np = other + tree_pages t" and d: "data = rec_at rs k"
  shows "\<exists>ok tn. temp_store_data mem_ok k data t np = (ok, tn) \<and> (mem_ok \<longrightarrow> ok) \<and>
    tree_after rs (if ok then insert k (keys t) else keys t) other tn"
proof -
  let ?ord = "get_order (length data + sizeof_temp)"
  obtain ds u m where s: "seek k t np = (ds, u, m)" "tree_ok rs u" "keys u = keys t" "m = other + tree_pages u" "on_path k ds u"
    "slot ds u = No_Temp \<or> seq_end (slot ds u) = k" by (rule seek_after[OF t])
  have ku: "k \<notin> keys u" using s(3) t(2) by simp
  have o: "length data + sizeof_temp \<le> PAGE_SIZE * 2 ^ ?ord" by (rule get_order_holds)
  have kept: "tree_after rs (keys t) other (u, m)" using s by (simp add: tree_after_def)
  show ?thesis
  proof (cases "slot ds u")
    case No_Temp
    let ?ds1 = "seek_before k u" and ?s1 = "slot (seek_before k u) u"
    note b = seek_before_ok[OF s(2) ku]
    show ?thesis
    proof (cases "?s1 \<noteq> No_Temp \<and> fits (length (tdata ?s1)) (length data) (order ?s1)")
      case True
      then obtain p e d1 o1 n where s1: "?s1 = Temp p (k + 1) e d1 o1 n" using b by (cases ?s1) auto
      have ok1: "tree_ok rs ?s1" "k \<notin> keys ?s1" using slot_fresh[OF s(2) ku, of ?ds1] by auto
      let ?n = "Temp p k e (data @ d1) o1 n"
      have n: "tree_ok rs ?n" "keys ?n = insert k (keys ?s1)"
        using ok1 True d recs_first[of rs k e d1] unfolding s1 by (auto simp: fits_def less_Suc_eq Suc_le_eq)
      have "tree_pages ?n = tree_pages ?s1" by (simp add: s1)
      then have "tree_after rs (insert k (keys ?s1)) (m - tree_pages ?s1 + 0) (temp_merge ?n m)" using merge_after[OF n(1), of m] n(2) by simp
      then have "tree_after rs (insert k (keys u)) (m - tree_pages u + 0)
          (at_slot ?ds1 (\<lambda>t. temp_merge (Temp (prev t) k (seq_end t) (data @ tdata t) (order t) (nxt t))) u m)"
        by (intro at_slot_after[OF s(2)]) (use b s1 in auto)
      moreover have "temp_store_data mem_ok k data t np =
          (True, at_slot ?ds1 (\<lambda>t. temp_merge (Temp (prev t) k (seq_end t) (data @ tdata t) (order t) (nxt t))) u m)"
        using True by (simp add: temp_store_data_def Let_def s(1) No_Temp)
      ultimately show ?thesis using s(3,4) by (simp add: ex_bool_eq)
    next
      case f: False
      show ?thesis
      proof (cases mem_ok)
        case True
        let ?n = "Temp No_Temp k (k + 1) data ?ord No_Temp"
        have n: "tree_ok rs ?n" by (rule single_ok) (use d o in auto)
        have "tree_after rs (insert k (keys (slot ds u))) (m + pages ?ord - tree_pages (slot ds u) + - pages ?ord) (temp_merge ?n (m + pages ?ord))"
          using merge_after[OF n, of "m + pages ?ord"] No_Temp by simp
        then have "tree_after rs (insert k (keys u)) (m + pages ?ord - tree_pages u + - pages ?ord) (at_slot ds (\<lambda>_. temp_merge ?n) u (m + pages ?ord))"
          by (rule at_slot_after[OF s(2,5)])
        moreover have "temp_store_data mem_ok k data t np = (True, at_slot ds (\<lambda>_. temp_merge ?n) u (m + pages ?ord))"
          using f True by (simp add: temp_store_data_def Let_def s(1) No_Temp) blast
        ultimately show ?thesis using s(3,4) by (simp add: ex_bool_eq)
      next
        case False
        then have "temp_store_data mem_ok k data t np = (False, u, m)"
          using f by (simp add: temp_store_data_def Let_def s(1) No_Temp)
        then show ?thesis using kept False by (simp add: ex_bool_eq)
      qed
    qed
  next
    case (Temp p b e d1 o1 n)
    then have e: "e = k" using s(6) by simp
    have ok1: "tree_ok rs (Temp p b k d1 o1 n)" "k \<notin> keys (Temp p b k d1 o1 n)"
      using slot_fresh[OF s(2) ku, of ds] unfolding Temp e by auto
    show ?thesis
    proof (cases "fits (length d1) (length data) o1")
      case True
      let ?n = "Temp p b (k + 1) (d1 @ data) o1 n"
      note n = append_after[OF ok1(1) _ d True]
      have "tree_after rs (insert k (keys (slot ds u))) (m - tree_pages (slot ds u) + 0) (temp_merge ?n m)"
        using merge_after[of rs ?n m] n ok1(2) unfolding Temp e by simp
      then have "tree_after rs (insert k (keys u)) (m - tree_pages u + 0) (at_slot ds (\<lambda>_. temp_merge ?n) u m)"
        by (rule at_slot_after[OF s(2,5)])
      moreover have "temp_store_data mem_ok k data t np = (True, at_slot ds (\<lambda>_. temp_merge ?n) u m)"
        using True by (simp add: temp_store_data_def Let_def s(1) Temp)
      ultimately show ?thesis using s(3,4) by (simp add: ex_bool_eq)
    next
      case f: False
      show ?thesis
      proof (cases mem_ok)
        case True
        let ?n = "Temp No_Temp k (k + 1) data ?ord n"
        obtain n' m' where m': "temp_merge ?n (m + pages ?ord) = (n', m')" by (cases "temp_merge ?n (m + pages ?ord)")
        have n: "tree_ok rs ?n" by (rule single_ok) (use d o ok1 in \<open>auto simp: le_less\<close>)
        have "tree_after rs (insert k (keys n)) (m - tree_pages n) (n', m')"
          using merge_after[OF n, of "m + pages ?ord"] unfolding m' by simp
        then have "tree_after rs (insert k (keys (Temp p b k d1 o1 n))) (m - tree_pages n - tree_pages p - pages o1) (Temp p b k d1 o1 n', m')"
          by (intro behind_ok) (use ok1 in auto)
        then have "tree_after rs (insert k (keys (slot ds u))) (m + pages ?ord - tree_pages (slot ds u) + - pages ?ord)
            ((\<lambda>_ np. let (n', np') = temp_merge ?n np in (Temp p b k d1 o1 n', np')) (slot ds u) (m + pages ?ord))"
          unfolding Temp e m' Let_def prod.case tree_pages.simps by (simp add: algebra_simps)
        then have "tree_after rs (insert k (keys u)) (m + pages ?ord - tree_pages u + - pages ?ord)
            (at_slot ds (\<lambda>_ np. let (n', np') = temp_merge ?n np in (Temp p b k d1 o1 n', np')) u (m + pages ?ord))"
          by (rule at_slot_after[OF s(2,5)])
        moreover have "temp_store_data mem_ok k data t np =
            (True, at_slot ds (\<lambda>_ np. let (n', np') = temp_merge ?n np in (Temp p b k d1 o1 n', np')) u (m + pages ?ord))"
          using f True by (simp add: temp_store_data_def Let_def s(1) Temp e)
        ultimately show ?thesis using s(3,4) by (simp add: ex_bool_eq)
      next
        case False
        then have "temp_store_data mem_ok k data t np = (False, u, m)"
          using f by (simp add: temp_store_data_def Let_def s(1) Temp)
        then show ?thesis using kept False by (simp add: ex_bool_eq)
      qed
    qed
  qed
qed

lemma temp_store_blob_after:
  assumes t: "tree_ok rs t" "k \<notin> keys t" "np = other + tree_pages t" and d: "data = rec_at rs k" "length data + sizeof_temp \<le> PAGE_SIZE * 2 ^ ord"
  shows "tree_after rs (insert k (keys t)) (other - pages ord) (temp_store_blob k data ord t np)"
proof -
  obtain ds u m where s: "seek k t np = (ds, u, m)" "tree_ok rs u" "keys u = keys t" "m = other + tree_pages u" "on_path k ds u"
    "slot ds u = No_Temp \<or> seq_end (slot ds u) = k" by (rule seek_after[OF t])
  have ku: "k \<notin> keys u" using s(3) t(2) by simp
  show ?thesis
  proof (cases "slot ds u")
    case No_Temp
    let ?n = "Temp No_Temp k (k + 1) data ord No_Temp"
    have n: "tree_ok rs ?n" by (rule single_ok) (use d in auto)
    have "tree_after rs (insert k (keys (slot ds u))) (m - tree_pages (slot ds u) + - pages ord) (?n, m)"
      using n No_Temp by (intro tree_afterI) auto
    then have "tree_after rs (insert k (keys u)) (m - tree_pages u + - pages ord) (at_slot ds (\<lambda>_ np. (?n, np)) u m)"
      by (intro at_slot_after[OF s(2,5)]) simp
    then show ?thesis using s No_Temp by (simp add: temp_store_blob_def)
  next
    case (Temp p b e d1 o1 n)
    then have e: "e = k" using s(6) by simp
    have ok1: "tree_ok rs (Temp p b k d1 o1 n)" "k \<notin> keys (Temp p b k d1 o1 n)"
      using slot_fresh[OF s(2) ku, of ds] unfolding Temp e by auto
    let ?n = "Temp No_Temp k (k + 1) data ord n"
    have n: "tree_ok rs ?n" by (rule single_ok) (use d ok1 in \<open>auto simp: le_less\<close>)
    have "tree_after rs (insert k (keys (Temp p b k d1 o1 n))) (m - tree_pages n - pages ord - tree_pages p - pages o1) (Temp p b k d1 o1 ?n, m)"
      by (intro behind_ok tree_afterI) (use ok1 n in auto)
    then have "tree_after rs (insert k (keys (slot ds u))) (m - tree_pages (slot ds u) + - pages ord) (Temp p b k d1 o1 ?n, m)"
      unfolding Temp e by (simp add: algebra_simps)
    then have "tree_after rs (insert k (keys u)) (m - tree_pages u + - pages ord) (at_slot ds (\<lambda>_ np. (Temp p b k d1 o1 ?n, np)) u m)"
      by (intro at_slot_after[OF s(2,5)]) simp
    then show ?thesis using s Temp e by (simp add: temp_store_blob_def)
  qed
qed

section \<open>Flushing\<close>

definition taken :: "u8 list list \<Rightarrow> nat \<Rightarrow> nat \<Rightarrow> temp \<Rightarrow> int \<Rightarrow> found \<times> temp \<times> int \<Rightarrow> bool" where
  "taken rs q room t other = (\<lambda>(f, tn). case f of
     Absent \<Rightarrow> tree_after rs (keys t) other tn \<and> q \<notin> keys t
   | Too_Big \<Rightarrow> tree_after rs (keys t) other tn \<and> (\<exists>e > q. {q ..< e} \<subseteq> keys t \<and> room < length (recs rs q e))
   | Output d e \<Rightarrow> q < e \<and> d = recs rs q e \<and> length d \<le> room \<and> {q ..< e} \<subseteq> keys t \<and> tree_after rs (keys t - {q ..< e}) other tn)"

lemma taken_keys: "keys t = keys t' \<Longrightarrow> taken rs q room t other = taken rs q room t' other"
  by (simp only: taken_def)

lemma taken_left:
  assumes "taken rs q room p other (f, p', np')" "tree_ok rs (Temp p b e d ord n)" "q < b"
  shows "taken rs q room (Temp p b e d ord n) (other - pages ord - tree_pages n) (f, Temp p' b e d ord n, np')"
proof -
  have k: "\<forall>k \<in> {b ..< e} \<union> keys n. b \<le> k" "\<forall>k \<in> keys p. k < b" using assms(2) by auto
  have nq: "q \<notin> {b ..< e} \<union> keys n" using k(1) assms(3) by (metis linorder_not_less)
  show ?thesis
  proof (cases f)
    case Absent
    then show ?thesis using assms nq by (auto simp: taken_def tree_after_def)
  next
    case Too_Big
    then show ?thesis using assms by (auto simp: taken_def tree_after_def)
  next
    case (Output d1 e1)
    then have o: "q < e1" "d1 = recs rs q e1" "length d1 \<le> room" "{q ..< e1} \<subseteq> keys p" "tree_after rs (keys p - {q ..< e1}) other (p', np')"
      using assms(1) unfolding Output taken_def prod.case found.case by blast+
    have "{q ..< e1} \<inter> ({b ..< e} \<union> keys n) = {}" using o(4) k by (meson disjoint_iff linorder_not_less subsetD)
    then have kd: "keys (Temp p b e d ord n) - {q ..< e1} = keys (Temp p' b e d ord n)" using o(5) by (auto simp: tree_after_def)
    have p': "tree_ok rs p'" "np' = other + tree_pages p'" "\<forall>k \<in> keys p'. k < b" using o(5) k(2) by (auto simp: tree_after_def)
    have "tree_ok rs (Temp p' b e d ord n)" using assms(2) p'(1,3) unfolding tree_ok.simps by blast
    then have "tree_after rs (keys (Temp p' b e d ord n)) (other - pages ord - tree_pages n) (Temp p' b e d ord n, np')"
      by (rule tree_afterI) (use p'(2) in simp_all)
    moreover have "{q ..< e1} \<subseteq> keys (Temp p b e d ord n)" using o(4) by auto
    ultimately show ?thesis using o(1-3) unfolding Output taken_def prod.case found.case kd by blast
  qed
qed

lemma taken_right:
  assumes "taken rs q room n other (f, n', np')" "tree_ok rs (Temp p b e d ord n)" "\<forall>k \<in> keys (Temp p b e d ord n). q \<le> k" "q \<noteq> b" "\<not> q < b"
  shows "taken rs q room (Temp p b e d ord n) (other - pages ord - tree_pages p) (f, Temp p b e d ord n', np')"
proof -
  have "b \<in> keys (Temp p b e d ord n)" using assms(2) by simp
  then have "q \<le> b" using assms(3) by blast
  then show ?thesis using assms(4,5) by simp
qed

text \<open>One descent finds the node that starts with the next number, if there is one.\<close>

lemma take_out_after:
  assumes "tree_ok rs t" "\<forall>k \<in> keys t. q \<le> k" "np = other + tree_pages t"
  shows "taken rs q room t other (take_out q room t np)"
  using assms
proof (induction q room t np arbitrary: other rule: take_out.induct)
  case (1 q room t np)
  obtain u m where m: "temp_merge t np = (u, m)" by (cases "temp_merge t np")
  have u: "tree_ok rs u" "keys u = keys t" "m = other + tree_pages u"
    using temp_merge_ok[OF 1(3), of np] m 1(5) by auto
  show ?case
  proof (cases u)
    case No_Temp
    then show ?thesis using m u by (subst take_out.simps) (auto simp: taken_def tree_after_def)
  next
    case (Temp p b e d ord n)
    have sp: "take_out q room t np = (if q = b then if room < length d then (Too_Big, Temp p b e d ord n, m) else (Output d e, n, free_all p m - pages ord)
         else if q < b then let (f, p', np'') = take_out q room p m in (f, Temp p' b e d ord n, np'')
         else let (f, n', np'') = take_out q room n m in (f, Temp p b e d ord n', np''))"
      by (subst take_out.simps) (simp add: m Temp)
    have t: "tree_ok rs (Temp p b e d ord n)" "\<forall>k \<in> keys (Temp p b e d ord n). q \<le> k"
      using u(1) 1(4) u(2)[symmetric] unfolding Temp by (blast, metis)
    have same: "taken rs q room t o1 = taken rs q room (Temp p b e d ord n) o1" for o1
      using taken_keys[of t u] u(2) unfolding Temp by simp
    show ?thesis
    proof (cases "q = b")
      case True
      have "\<forall>k \<in> keys p. k < b \<and> b \<le> k" using t True by simp
      then have "keys p = {}" by fastforce
      then have p: "p = No_Temp" using t(1) keys_empty[of rs p] by simp
      have "keys (Temp p b e d ord n) - {b ..< e} = keys n" using t(1) p by fastforce
      moreover have "b < e" "d = recs rs b e" "{b ..< e} \<subseteq> keys (Temp p b e d ord n)" "tree_ok rs n" using t(1) by auto
      moreover have "tree_after rs (keys (Temp p b e d ord n)) other (Temp p b e d ord n, m)"
        by (intro tree_afterI t(1) refl) (use u(3) Temp in simp)
      ultimately show ?thesis using True p u(3) unfolding sp same Temp
        by (cases "room < length d") (auto simp: taken_def tree_after_def)
    next
      case False
      note q = False
      show ?thesis
      proof (cases "q < b")
        case True
        obtain f p' np' where f: "take_out q room p m = (f, p', np')" by (cases "take_out q room p m")
        have "taken rs q room p (other + pages ord + tree_pages n) (take_out q room p m)"
          by (rule 1(1)[OF m[symmetric] Temp q True]) (use t u(3) Temp in auto)
        from taken_left[OF this[unfolded f] t(1) True] show ?thesis unfolding sp same f using q True by simp
      next
        case False
        obtain f n' np' where f: "take_out q room n m = (f, n', np')" by (cases "take_out q room n m")
        have "taken rs q room n (other + pages ord + tree_pages p) (take_out q room n m)"
          by (rule 1(2)[OF m[symmetric] Temp q False]) (use t u(3) Temp in auto)
        from taken_right[OF this[unfolded f] t q False] show ?thesis unfolding sp same f using q False by simp
      qed
    qed
  qed
qed

definition flushed :: "u8 list list \<Rightarrow> nat \<Rightarrow> nat \<Rightarrow> temp \<Rightarrow> int \<Rightarrow> u8 list \<times> nat \<times> temp \<times> int \<Rightarrow> bool" where
  "flushed rs q room t other = (\<lambda>(d, q', tn). q \<le> q' \<and> d = recs rs q q' \<and> length d \<le> room \<and> {q ..< q'} \<subseteq> keys t \<and>
     tree_after rs (keys t - {q ..< q'}) other tn \<and>
     (q' \<notin> keys t \<or> (\<exists>e > q'. {q ..< e} \<subseteq> keys t \<and> room < length (recs rs q e))))"

lemma temp_flush_after:
  assumes "tree_ok rs t" "\<forall>k \<in> keys t. q \<le> k" "np = other + tree_pages t"
  shows "flushed rs q room t other (temp_flush_loop q room t np)"
  using assms
proof (induction q room t np arbitrary: other rule: temp_flush_loop.induct)
  case (1 q room t np)
  obtain f t' np' where f: "take_out q room t np = (f, t', np')" by (cases "take_out q room t np")
  note tk = take_out_after[OF 1(2-4), of room, unfolded f]
  show ?case
  proof (cases f)
    case (Output d e)
    then have o: "q < e" "d = recs rs q e" "length d \<le> room" "{q ..< e} \<subseteq> keys t" "tree_after rs (keys t - {q ..< e}) other (t', np')"
      using tk unfolding Output taken_def prod.case found.case by blast+
    have k: "\<forall>k \<in> keys t'. e \<le> k" using o(5) 1(3) by (auto simp: tree_after_def)
    obtain ds q' tn where r: "temp_flush_loop e (room - length d) t' np' = (ds, q', tn)" by (cases "temp_flush_loop e (room - length d) t' np'")
    have "flushed rs e (room - length d) t' other (temp_flush_loop e (room - length d) t' np')"
      by (rule 1(1)[OF f[symmetric] Output refl]) (use o k in \<open>auto simp: tree_after_def\<close>)
    then have i: "e \<le> q'" "ds = recs rs e q'" "length ds \<le> room - length d" "{e ..< q'} \<subseteq> keys t'" "tree_after rs (keys t' - {e ..< q'}) other tn"
      "q' \<notin> keys t' \<or> (\<exists>e2 > q'. {e ..< e2} \<subseteq> keys t' \<and> room - length d < length (recs rs e e2))"
      unfolding r flushed_def prod.case by blast+
    have kt: "keys t' = keys t - {q ..< e}" using o(5) by (simp add: tree_after_def)
    have qq: "{q ..< q'} = {q ..< e} \<union> {e ..< q'}" using o(1) i(1) by auto
    have sub: "{q ..< q'} \<subseteq> keys t" using o(4) i(4) unfolding qq kt by auto
    have diff: "keys t - {q ..< q'} = keys t' - {e ..< q'}" unfolding qq kt by auto
    have app: "d @ ds = recs rs q q'" using recs_append[of q e q' rs] o(1,2) i(1,2) by simp
    have stop: "q' \<notin> keys t \<or> (\<exists>e > q'. {q ..< e} \<subseteq> keys t \<and> room < length (recs rs q e))"
    proof (cases "q' \<in> keys t'")
      case True
      with i(6) obtain e2 where e2: "q' < e2" "{e ..< e2} \<subseteq> keys t'" "room - length d < length (recs rs e e2)" by blast
      have "{q ..< e2} \<subseteq> {q ..< e} \<union> {e ..< e2}" by auto
      then have "{q ..< e2} \<subseteq> keys t" using e2(2) o(4) kt by blast
      moreover have "length (recs rs q e2) = length d + length (recs rs e e2)"
        using recs_append[of q e e2 rs] o(1,2) i(1) e2(1) by (metis length_append less_imp_le order.trans)
      then have "room < length (recs rs q e2)" using e2(3) o(3) by linarith
      ultimately show ?thesis using e2(1) by blast
    next
      case False
      then show ?thesis using kt i(1) by auto
    qed
    have e: "temp_flush_loop q room t np = (d @ ds, q', tn)" by (subst temp_flush_loop.simps) (simp add: f Output r)
    have "q \<le> q'" "length (d @ ds) \<le> room" using o(1,3) i(1,3) by simp_all
    then show ?thesis using sub app stop i(5) unfolding e flushed_def prod.case diff by blast
  next
    case Absent
    then have e: "temp_flush_loop q room t np = ([], q, t', np')" by (subst temp_flush_loop.simps) (simp add: f)
    show ?thesis using tk unfolding e by (simp add: Absent taken_def flushed_def)
  next
    case Too_Big
    then have e: "temp_flush_loop q room t np = ([], q, t', np')" by (subst temp_flush_loop.simps) (simp add: f)
    show ?thesis using tk unfolding e by (simp add: Too_Big taken_def flushed_def)
  qed
qed

end
