(* ===== verification/Transport_Correct.thy ===== *)
theory Transport_Correct
  imports Transport_Tree
begin

text \<open>
  What the transport delivers: the accepted records in the order of their numbers, each whole and once,
  on whichever CPU they were written and in whatever order the reader finds them.
\<close>

section \<open>The invariant\<close>

fun payload_bytes :: "payload \<Rightarrow> u8 list" where
  "payload_bytes (Inline d) = d"
| "payload_bytes (Blob d ord) = d"

fun payload_ok :: "payload \<Rightarrow> bool" where
  "payload_ok (Inline d) = True"
| "payload_ok (Blob d ord) = (length d + sizeof_temp \<le> PAGE_SIZE * 2 ^ ord)"

definition entry_ok :: "u8 list list \<Rightarrow> nat \<times> payload \<Rightarrow> bool" where
  "entry_ok rs e = (1 \<le> fst e \<and> fst e \<le> length rs \<and> payload_bytes (snd e) = rec_at rs (fst e) \<and> payload_ok (snd e))"

definition ring_keys :: "trn \<Rightarrow> nat set" where
  "ring_keys s = (\<Union>c. fst ` set (rb s c))"

definition held :: "trn \<Rightarrow> nat set" where
  "held s = keys (head s) \<union> ring_keys s"

definition rings_ok :: "u8 list list \<Rightarrow> trn \<Rightarrow> bool" where
  "rings_ok rs s = ((\<forall>c. distinct (map fst (rb s c)) \<and> (\<forall>e \<in> set (rb s c). entry_ok rs e)) \<and>
     (\<forall>c c'. c \<noteq> c' \<longrightarrow> fst ` set (rb s c) \<inter> fst ` set (rb s c') = {}))"

text \<open>The records between \<open>seqdone\<close> and \<open>seqnum\<close> are in the tree, in a ring buffer, or lost; none is in two places.\<close>

definition tr_inv :: "u8 list list \<Rightarrow> trn \<Rightarrow> bool" where
  "tr_inv rs s = (seqnum s = length rs \<and> 1 \<le> seqdone s \<and> seqdone s \<le> length rs + 1 \<and> tree_ok rs (head s) \<and>
     (\<forall>k \<in> keys (head s). seqdone s \<le> k \<and> k \<le> length rs) \<and> rings_ok rs s \<and> ring_keys s \<inter> keys (head s) = {} \<and>
     (\<not> is_abort s \<longrightarrow> (\<forall>k \<in> ring_keys s. seqdone s \<le> k)))"

text \<open>
  A step of the reader that hands out \<open>d\<close>; the records \<open>K\<close> were taken from the ring buffers before it.
  Without an abort only records for which there was no memory get lost.
\<close>

definition stepped :: "u8 list list \<Rightarrow> (nat \<Rightarrow> bool) \<Rightarrow> nat set \<Rightarrow> trn \<Rightarrow> u8 list \<Rightarrow> trn \<Rightarrow> bool" where
  "stepped rs mem K s d s' = (tr_inv rs s' \<and> seqdone s \<le> seqdone s' \<and> d = recs rs (seqdone s) (seqdone s') \<and>
     held s' \<union> {seqdone s ..< seqdone s'} \<subseteq> held s \<union> K \<and> (is_abort s \<longrightarrow> is_abort s') \<and>
     (is_abort s' \<or> held s \<union> K \<subseteq> held s' \<union> {seqdone s ..< seqdone s'} \<union> {k. \<not> mem k}))"

lemma stepped_refl: "tr_inv rs s \<Longrightarrow> stepped rs mem {} s [] s"
  by (simp add: stepped_def)

lemma stepped_trans:
  assumes "stepped rs mem K s d t" "stepped rs mem K' t d' u"
  shows "stepped rs mem (K \<union> K') s (d @ d') u"
proof -
  note a = assms(1)[unfolded stepped_def] and b = assms(2)[unfolded stepped_def]
  have i: "{seqdone s ..< seqdone u} = {seqdone s ..< seqdone t} \<union> {seqdone t ..< seqdone u}" using a b by auto
  have "held u \<union> {seqdone s ..< seqdone u} \<subseteq> held s \<union> (K \<union> K')" unfolding i using a b by blast
  moreover have "is_abort u \<or> held s \<union> (K \<union> K') \<subseteq> held u \<union> {seqdone s ..< seqdone u} \<union> {k. \<not> mem k}" unfolding i using a b by blast
  moreover have "d @ d' = recs rs (seqdone s) (seqdone u)" using recs_append[of "seqdone s" "seqdone t" "seqdone u" rs] a b by simp
  ultimately show ?thesis using a b unfolding stepped_def by auto
qed

text \<open>A state that differs only in what the invariant does not look at.\<close>

definition same_core :: "trn \<Rightarrow> trn \<Rightarrow> bool" where
  "same_core s t = (head s = head t \<and> seqdone s = seqdone t \<and> seqnum s = seqnum t \<and> is_abort s = is_abort t \<and> rb s = rb t)"

lemma same_core_held: "same_core s t \<Longrightarrow> held s = held t \<and> ring_keys s = ring_keys t \<and> rings_ok rs s = rings_ok rs t"
  by (simp add: same_core_def held_def ring_keys_def rings_ok_def)

lemma same_core_inv: "same_core s t \<Longrightarrow> tr_inv rs s = tr_inv rs t"
  using same_core_held[of s t rs] by (simp add: tr_inv_def same_core_def)

lemma same_core_stepped: "same_core s t \<Longrightarrow> stepped rs mem K s d u = stepped rs mem K t d u"
  using same_core_held[of s t rs] by (simp add: stepped_def same_core_def)

lemma same_core_stepped_to: "same_core u t \<Longrightarrow> stepped rs mem K s d u = stepped rs mem K s d t"
  using same_core_held[of u t rs] same_core_inv[of u t rs] by (simp add: stepped_def same_core_def)

section \<open>One entry\<close>

lemma new_tree_inv:
  assumes "tr_inv rs s" "k \<notin> held s" "seqdone s \<le> k" "k \<le> length rs" "tree_ok rs t" "keys t = (if ok then insert k (keys (head s)) else keys (head s))"
  shows "tr_inv rs (s\<lparr>head := t, npages := np\<rparr>)"
proof -
  have "ring_keys (s\<lparr>head := t, npages := np\<rparr>) = ring_keys s" "rings_ok rs (s\<lparr>head := t, npages := np\<rparr>) = rings_ok rs s"
    by (simp_all add: ring_keys_def rings_ok_def)
  then show ?thesis using assms unfolding tr_inv_def held_def by (auto split: if_splits)
qed

lemma new_tree_stepped:
  assumes "tr_inv rs s" "k \<notin> held s" "seqdone s \<le> k" "k \<le> length rs" "tree_ok rs t" "keys t = (if ok then insert k (keys (head s)) else keys (head s))"
    "mem k \<longrightarrow> ok"
  shows "stepped rs mem {k} s [] (s\<lparr>head := t, npages := np\<rparr>)"
proof -
  have "held (s\<lparr>head := t, npages := np\<rparr>) = (if ok then insert k (held s) else held s)" using assms(6) by (simp add: held_def ring_keys_def)
  then show ?thesis using new_tree_inv[OF assms(1-6), of np] assms(7) unfolding stepped_def by auto
qed

lemma store_payload_stepped:
  assumes s: "tr_inv rs s" "k \<notin> held s" "seqdone s \<le> k" and e: "entry_ok rs (k, x)"
  shows "stepped rs mem {k} s [] (store_payload (mem k) k x s) \<and> rb (store_payload (mem k) k x s) = rb s \<and>
    seqdone (store_payload (mem k) k x s) = seqdone s \<and> is_abort (store_payload (mem k) k x s) = is_abort s"
proof -
  have k: "k \<le> length rs" "k \<notin> keys (head s)" using e s(2) by (simp_all add: entry_ok_def held_def)
  have t: "tree_ok rs (head s)" using s(1) by (simp add: tr_inv_def)
  let ?o = "npages s - tree_pages (head s)"
  show ?thesis
  proof (cases x)
    case (Inline d)
    then have "d = rec_at rs k" using e by (simp add: entry_ok_def)
    from temp_store_data_after[OF t k(2) _ this, of "npages s" ?o "mem k"] obtain ok t' np' where
      p: "temp_store_data (mem k) k d (head s) (npages s) = (ok, t', np')" "mem k \<longrightarrow> ok"
        "tree_after rs (if ok then insert k (keys (head s)) else keys (head s)) ?o (t', np')" by auto
    then show ?thesis using new_tree_stepped[OF s k(1), of t' ok mem np'] by (simp add: store_payload_def Inline tree_after_def)
  next
    case (Blob d ord)
    then have d: "d = rec_at rs k" "length d + sizeof_temp \<le> PAGE_SIZE * 2 ^ ord"
      using e unfolding entry_ok_def Blob snd_conv fst_conv payload_bytes.simps payload_ok.simps by blast+
    obtain t' np' where b: "temp_store_blob k d ord (head s) (npages s) = (t', np')" by (cases "temp_store_blob k d ord (head s) (npages s)")
    have "tree_after rs (insert k (keys (head s))) (?o - pages ord) (t', np')"
      using temp_store_blob_after[OF t k(2) _ d, of "npages s" ?o] b by simp
    then show ?thesis using new_tree_stepped[OF s k(1), of t' True mem np'] by (simp add: store_payload_def Blob b tree_after_def)
  qed
qed

text \<open>The record that is next goes out.\<close>

lemma next_out_stepped:
  assumes s: "tr_inv rs s" "k \<notin> held s" "seqdone s = k" "\<not> is_abort s" and e: "entry_ok rs (k, x)"
  shows "stepped rs mem {k} s (payload_bytes x) (s\<lparr>npages := np, seqdone := seqdone s + 1\<rparr>)"
proof -
  let ?s = "s\<lparr>npages := np, seqdone := seqdone s + 1\<rparr>"
  have h: "held ?s = held s" "ring_keys ?s = ring_keys s" "rings_ok rs ?s = rings_ok rs s" by (simp_all add: held_def ring_keys_def rings_ok_def)
  have ge: "\<forall>j \<in> held s. k + 1 \<le> j"
  proof
    fix j assume j: "j \<in> held s"
    then have "k \<le> j" using s by (auto simp: tr_inv_def held_def)
    moreover have "j \<noteq> k" using s(2) j by auto
    ultimately show "k + 1 \<le> j" by simp
  qed
  have "k \<le> length rs" "payload_bytes x = rec_at rs k" using e by (simp_all add: entry_ok_def)
  moreover have "tr_inv rs ?s" using s(1,3) ge h calculation(1) unfolding tr_inv_def held_def by auto
  ultimately show ?thesis using s(3) h(1) unfolding stepped_def by auto
qed

text \<open>What a step on one entry guarantees to the entries that come after it.\<close>

lemma parse_event_stepped:
  assumes s: "tr_inv rs s" "k \<notin> held s" "\<not> is_abort s \<longrightarrow> seqdone s \<le> k" and e: "entry_ok rs (k, x)"
    and r: "vtss_transport_temp_parse_event (mem k) cpu (k, x) room s = (d, s')"
  shows "stepped rs mem {k} s d s' \<and> rb s' = rb s \<and> is_abort s' = is_abort s \<and> length d \<le> room \<and>
    (\<forall>j. j \<noteq> k \<longrightarrow> seqdone s \<le> j \<longrightarrow> seqdone s' \<le> j)"
proof -
  let ?t = "s\<lparr>seqcpu := (seqcpu s)(cpu := k)\<rparr>"
  have c: "same_core s ?t" by (simp add: same_core_def)
  have t: "tr_inv rs ?t" "k \<notin> held ?t" using s(1,2) same_core_inv[OF c] same_core_held[OF c] by simp_all
  have f: "seqdone ?t = seqdone s" "is_abort ?t = is_abort s" "rb ?t = rb s" by simp_all
  note st = same_core_stepped[OF c]
  show ?thesis
  proof (cases "is_abort s \<or> seqdone s > k")
    case True
    then have a: "is_abort s" using s(3) by auto
    have "d = [] \<and> same_core s s'" using r True
      by (cases x) (auto simp: vtss_transport_temp_parse_event_def same_core_def)
    then show ?thesis using a s(1) stepped_refl[OF s(1), of mem] same_core_stepped_to[of s s' rs mem "{k}" s "[]"]
      by (auto simp: same_core_def stepped_def)
  next
    case False
    then have na: "\<not> is_abort s" and le: "seqdone s \<le> k" by simp_all
    note stp = store_payload_stepped[OF t _ e, of mem, folded st]
    have stored: "stepped rs mem {k} s [] (store_payload (mem k) k x ?t) \<and> rb (store_payload (mem k) k x ?t) = rb s \<and>
        seqdone (store_payload (mem k) k x ?t) = seqdone s \<and> is_abort (store_payload (mem k) k x ?t) = is_abort s"
      using stp le by simp
    show ?thesis
    proof (cases "seqdone s = k \<and> length (payload_bytes x) \<le> room")
      case True
      have out: "stepped rs mem {k} s (payload_bytes x) (?t\<lparr>npages := np, seqdone := seqdone ?t + 1\<rparr>)" for np
        using next_out_stepped[OF t _ _ e, of mem np, folded st] True na by simp
      have "d = payload_bytes x \<and> (\<exists>np. s' = ?t\<lparr>npages := np, seqdone := seqdone ?t + 1\<rparr>)"
      proof (cases x)
        case (Inline y)
        then have "d = y" "s' = ?t\<lparr>seqdone := seqdone ?t + 1\<rparr>" using r True False by (auto simp: vtss_transport_temp_parse_event_def Let_def)
        then have "s' = ?t\<lparr>npages := npages s, seqdone := seqdone ?t + 1\<rparr>" by (cases s) simp
        show ?thesis
        proof (intro conjI exI)
          show "d = payload_bytes x" using Inline \<open>d = y\<close> by simp
          show "s' = ?t\<lparr>npages := npages s, seqdone := seqdone ?t + 1\<rparr>" by fact
        qed
      next
        case (Blob y ord)
        then show ?thesis using r True False by (auto simp: vtss_transport_temp_parse_event_def Let_def)
      qed
      then obtain np where "d = payload_bytes x" "s' = ?t\<lparr>npages := np, seqdone := seqdone ?t + 1\<rparr>" by blast
      then show ?thesis using out[of np] True by auto
    next
      case no: False
      then have "d = [] \<and> s' = store_payload (mem k) k x ?t" using r False
        by (cases x) (auto simp: vtss_transport_temp_parse_event_def Let_def split: if_splits)
      then show ?thesis using stored by simp
    qed
  qed
qed

section \<open>The loops of a read\<close>

text \<open>\<open>K\<close> are the numbers of entries that left the ring buffers and are still to be looked at.\<close>

definition in_flight :: "u8 list list \<Rightarrow> trn \<Rightarrow> (nat \<times> payload) list \<Rightarrow> bool" where
  "in_flight rs s es = (distinct (map fst es) \<and> (\<forall>e \<in> set es. entry_ok rs e) \<and> fst ` set es \<inter> held s = {} \<and>
     (\<not> is_abort s \<longrightarrow> (\<forall>k \<in> fst ` set es. seqdone s \<le> k)))"

text \<open>Taking entries out of a ring buffer.\<close>

lemma pop_ring:
  assumes "tr_inv rs s" "rb s cpu = es @ rest"
  shows "tr_inv rs (s\<lparr>rb := (rb s)(cpu := rest)\<rparr>) \<and> in_flight rs (s\<lparr>rb := (rb s)(cpu := rest)\<rparr>) es \<and>
    held s = held (s\<lparr>rb := (rb s)(cpu := rest)\<rparr>) \<union> fst ` set es"
proof -
  let ?t = "s\<lparr>rb := (rb s)(cpu := rest)\<rparr>"
  have ro: "rings_ok rs s" using assms(1) by (simp add: tr_inv_def)
  have sub: "set (rb ?t c) \<subseteq> set (rb s c)" for c using assms(2) by auto
  have d: "distinct (map fst (es @ rest))" using ro assms(2) unfolding rings_ok_def by metis
  have "distinct (map fst (rb ?t c))" for c using ro d by (cases "c = cpu") (auto simp: rings_ok_def)
  then have rt: "rings_ok rs ?t" using ro sub unfolding rings_ok_def by (meson disjoint_iff image_mono subsetD)
  have rk: "ring_keys s = ring_keys ?t \<union> fst ` set es"
  proof -
    have one: "fst ` set (rb s c) = fst ` set (rb ?t c) \<union> (if c = cpu then fst ` set es else {})" for c using assms(2) by auto
    show ?thesis unfolding ring_keys_def one UN_Un_distrib by simp
  qed
  have dis: "fst ` set es \<inter> ring_keys ?t = {}"
  proof -
    have "fst ` set es \<inter> fst ` set (rb ?t c) = {}" for c
    proof (cases "c = cpu")
      case True
      then show ?thesis using d by auto
    next
      case False
      have "fst ` set (rb s cpu) \<inter> fst ` set (rb s c) = {}" using ro False unfolding rings_ok_def by metis
      then show ?thesis using False assms(2) by auto
    qed
    then show ?thesis unfolding ring_keys_def by blast
  qed
  have "tr_inv rs ?t" using assms(1) rt rk unfolding tr_inv_def by auto
  moreover have "held s = held ?t \<union> fst ` set es" using rk by (auto simp: held_def)
  moreover have "fst ` set es \<inter> held ?t = {}" using dis rk assms(1) unfolding held_def tr_inv_def by auto
  moreover have "\<forall>e \<in> set es. entry_ok rs e" using ro assms(2) unfolding rings_ok_def by (metis Un_iff set_append)
  moreover have "\<not> is_abort s \<longrightarrow> (\<forall>k \<in> fst ` set es. seqdone s \<le> k)" using assms(1) rk unfolding tr_inv_def by blast
  ultimately show ?thesis using d by (simp add: in_flight_def)
qed

text \<open>A result of the form bytes, room and state.\<close>

definition read_ok :: "u8 list list \<Rightarrow> (nat \<Rightarrow> bool) \<Rightarrow> nat set \<Rightarrow> nat \<Rightarrow> trn \<Rightarrow> u8 list \<times> nat \<times> trn \<Rightarrow> bool" where
  "read_ok rs mem K room s = (\<lambda>(d, room', s'). stepped rs mem K s d s' \<and> length d \<le> room \<and> room' = room - length d)"

lemma read_ok_trans:
  assumes "stepped rs mem K s d t" "length d \<le> room" "read_ok rs mem K' (room - length d) t (d', room', u)"
  shows "read_ok rs mem (K \<union> K') room s (d @ d', room', u)"
  using assms stepped_trans[OF assms(1), of K' d' u] by (auto simp: read_ok_def)

lemma disjoint_after_insert: "T \<subseteq> insert x H \<Longrightarrow> x \<notin> A \<Longrightarrow> A \<inter> H = {} \<Longrightarrow> A \<inter> T = {}"
  by blast

lemma disjoint_insert_part: "A' \<subseteq> A \<Longrightarrow> A \<inter> H = {} \<Longrightarrow> x \<notin> A' \<Longrightarrow> A' \<inter> insert x H = {}"
  by blast

lemma in_flight_Cons:
  assumes "in_flight rs s (e # es)" "stepped rs mem {fst e} s d t" "rb t = rb s" "is_abort t = is_abort s"
    "\<forall>j. j \<noteq> fst e \<longrightarrow> seqdone s \<le> j \<longrightarrow> seqdone t \<le> j"
  shows "in_flight rs t es"
proof -
  have f: "distinct (map fst (e # es))" "\<forall>a \<in> set (e # es). entry_ok rs a" "fst ` set (e # es) \<inter> held s = {}"
    "\<not> is_abort s \<longrightarrow> (\<forall>k \<in> fst ` set (e # es). seqdone s \<le> k)"
    using assms(1) unfolding in_flight_def by blast+
  have "held t \<subseteq> insert (fst e) (held s)" using assms(2) unfolding stepped_def by blast
  moreover have "fst e \<notin> fst ` set es" using f(1) by simp
  moreover have "fst ` set es \<inter> held s = {}" using f(3) unfolding list.set image_insert by blast
  ultimately have "fst ` set es \<inter> held t = {}" by (rule disjoint_after_insert)
  moreover have "\<not> is_abort t \<longrightarrow> (\<forall>k \<in> fst ` set es. seqdone t \<le> k)"
  proof (intro impI ballI)
    fix k assume "\<not> is_abort t" and k: "k \<in> fst ` set es"
    then have "seqdone s \<le> k" using f(4) unfolding assms(4) list.set image_insert by blast
    moreover have "k \<noteq> fst e" using \<open>fst e \<notin> fst ` set es\<close> k by blast
    ultimately show "seqdone t \<le> k" using assms(5) by blast
  qed
  moreover have "distinct (map fst es)" "\<forall>e \<in> set es. entry_ok rs e" using f(1,2) unfolding list.set list.map distinct.simps by blast+
  ultimately show ?thesis unfolding in_flight_def by blast
qed

lemma parse_page_ok:
  assumes "tr_inv rs s" "in_flight rs s es"
  shows "read_ok rs mem (fst ` set es) room s (parse_page mem cpu es room s)"
  using assms
proof (induction es arbitrary: room s)
  case Nil
  then show ?case using stepped_refl by (simp add: read_ok_def)
next
  case (Cons e es)
  obtain k x where e: "e = (k, x)" by (cases e)
  obtain d t where p: "vtss_transport_temp_parse_event (mem k) cpu (k, x) room s = (d, t)" by (cases "vtss_transport_temp_parse_event (mem k) cpu (k, x) room s")
  have h: "k \<notin> held s" "\<not> is_abort s \<longrightarrow> seqdone s \<le> k" "entry_ok rs (k, x)" using Cons.prems(2) by (auto simp: in_flight_def e)
  note st = parse_event_stepped[where mem = mem, OF Cons.prems(1) h p]
  obtain ds room' u where r: "parse_page mem cpu es (room - length d) t = (ds, room', u)" by (cases "parse_page mem cpu es (room - length d) t")
  have "read_ok rs mem (fst ` set es) (room - length d) t (parse_page mem cpu es (room - length d) t)"
  proof (rule Cons.IH)
    show "tr_inv rs t" using st by (simp add: stepped_def)
    show "in_flight rs t es" by (rule in_flight_Cons[OF Cons.prems(2), of mem d]) (use st in \<open>auto simp: e\<close>)
  qed
  then have "read_ok rs mem ({k} \<union> fst ` set es) room s (d @ ds, room', u)" using st r by (intro read_ok_trans[of rs mem "{k}" s d t]) auto
  then show ?case using p r by (simp add: e)
qed

text \<open>Taking entries out of a ring buffer belongs to the step.\<close>

lemma read_ok_popped:
  assumes "read_ok rs mem K room (s\<lparr>rb := f\<rparr>) r" "held s = held (s\<lparr>rb := f\<rparr>) \<union> K"
  shows "read_ok rs mem {} room s r"
  using assms by (auto simp: read_ok_def stepped_def)

lemma peek_events_ok:
  assumes "tr_inv rs s"
  shows "read_ok rs mem {} room s (peek_events mem cpu n room s)"
  using assms
proof (induction n arbitrary: room s)
  case 0
  then show ?case using stepped_refl by (simp add: read_ok_def)
next
  case (Suc n)
  show ?case
  proof (cases "rb s cpu")
    case Nil
    then show ?thesis using stepped_refl[OF Suc.prems] by (simp add: read_ok_def)
  next
    case (Cons e es)
    let ?s = "s\<lparr>seqcpu := (seqcpu s)(cpu := fst e)\<rparr>"
    have c: "same_core s ?s" by (simp add: same_core_def)
    have t: "tr_inv rs ?s" using Suc.prems same_core_inv[OF c] by simp
    show ?thesis
    proof (cases "ahead (fst e) ?s > VTSS_MERGE_MEM_LIMIT div 4 \<and> running ?s")
      case True
      then show ?thesis using stepped_refl[OF t, of mem] same_core_stepped[OF c] Cons by (simp add: read_ok_def)
    next
      case False
      let ?t = "?s\<lparr>rb := (rb ?s)(cpu := es)\<rparr>"
      have "rb ?s cpu = [e] @ es" using Cons by simp
      note pop = pop_ring[OF t this]
      obtain k x where e: "e = (k, x)" by (cases e)
      obtain d u where p: "vtss_transport_temp_parse_event (mem k) cpu (k, x) room ?t = (d, u)" by (cases "vtss_transport_temp_parse_event (mem k) cpu (k, x) room ?t")
      have h: "tr_inv rs ?t" "k \<notin> held ?t" "\<not> is_abort ?t \<longrightarrow> seqdone ?t \<le> k" "entry_ok rs (k, x)"
        using pop by (auto simp: in_flight_def e)
      note st = parse_event_stepped[where mem = mem, OF h p]
      obtain ds room' v where r: "peek_events mem cpu n (room - length d) u = (ds, room', v)" by (cases "peek_events mem cpu n (room - length d) u")
      have "tr_inv rs u" using st by (simp add: stepped_def)
      from Suc.IH[OF this, of "room - length d"] have "read_ok rs mem ({k} \<union> {}) room ?t (d @ ds, room', v)"
        using st r by (intro read_ok_trans[of rs mem "{k}" ?t d u]) auto
      then have "read_ok rs mem {} room ?s (d @ ds, room', v)" using pop by (intro read_ok_popped[of rs mem "{k}"]) (auto simp: e)
      then have "read_ok rs mem {} room s (d @ ds, room', v)" using same_core_stepped[OF c] by (simp add: read_ok_def)
      moreover have "peek_events mem cpu (Suc n) room s = (d @ ds, room', v)"
        using Cons False p r by (simp add: e Let_def) blast
      ultimately show ?thesis by simp
    qed
  qed
qed

lemma flush_stepped:
  assumes s: "tr_inv rs s" and r: "vtss_transport_temp_flush room s = (d, s')"
  shows "stepped rs mem {} s d s' \<and> length d \<le> room \<and>
    (is_abort s \<or> seqdone s' \<notin> keys (head s') \<or> (\<exists>e > seqdone s'. {seqdone s ..< e} \<subseteq> held s \<and> room < length (recs rs (seqdone s) e)))"
proof (cases "is_abort s")
  case True
  then show ?thesis using r stepped_refl[OF s] by (simp add: vtss_transport_temp_flush_def)
next
  case False
  obtain q t np where f: "temp_flush_loop (seqdone s) room (head s) (npages s) = (d, q, t, np)" "s' = s\<lparr>seqdone := q, head := t, npages := np\<rparr>"
    using r False by (auto simp: vtss_transport_temp_flush_def split: prod.splits)
  have "flushed rs (seqdone s) room (head s) (npages s - tree_pages (head s)) (temp_flush_loop (seqdone s) room (head s) (npages s))"
    by (rule temp_flush_after) (use s in \<open>auto simp: tr_inv_def\<close>)
  then have fl: "seqdone s \<le> q" "d = recs rs (seqdone s) q" "length d \<le> room" "{seqdone s ..< q} \<subseteq> keys (head s)"
    "tree_ok rs t" "keys t = keys (head s) - {seqdone s ..< q}"
    "q \<notin> keys (head s) \<or> (\<exists>e > q. {seqdone s ..< e} \<subseteq> keys (head s) \<and> room < length (recs rs (seqdone s) e))"
    unfolding f(1) flushed_def prod.case tree_after_def fst_conv snd_conv by blast+
  have rk: "ring_keys s' = ring_keys s" "rings_ok rs s' = rings_ok rs s" unfolding f(2) by (simp_all add: ring_keys_def rings_ok_def)
  have dis: "ring_keys s \<inter> keys (head s) = {}" using s by (simp add: tr_inv_def)
  have ge: "\<forall>k \<in> held s - {seqdone s ..< q}. q \<le> k"
  proof
    fix k assume k: "k \<in> held s - {seqdone s ..< q}"
    have "seqdone s \<le> k" using k s False by (auto simp: tr_inv_def held_def)
    with k show "q \<le> k" by auto
  qed
  have top: "q \<le> length rs + 1"
  proof (cases "q = seqdone s")
    case False
    then have "q - 1 \<in> keys (head s)" using fl(1,4) by auto
    then show ?thesis using s by (force simp: tr_inv_def)
  qed (use s in \<open>simp add: tr_inv_def\<close>)
  have gk: "\<forall>k \<in> keys t. q \<le> k \<and> k \<le> length rs" using ge fl(6) s unfolding held_def tr_inv_def by auto
  have gr: "\<forall>k \<in> ring_keys s. q \<le> k" using ge dis fl(4) unfolding held_def by blast
  have "tr_inv rs s'" using s fl(1,5,6) rk dis gk gr top unfolding tr_inv_def f(2) by auto
  moreover have "held s' = held s - {seqdone s ..< q}" using fl(4,6) rk dis unfolding held_def f(2) by auto
  moreover have "{seqdone s ..< q} \<subseteq> held s" using fl(4) by (auto simp: held_def)
  ultimately have "stepped rs mem {} s d s'" using fl(1,2) unfolding stepped_def f(2) by auto
  then show ?thesis using fl(1,3,6,7) unfolding f(2) held_def by auto
qed

lemma check_memory_stepped:
  assumes s: "tr_inv rs s" and r: "check_memory fast0 s = (fast, s')"
  shows "stepped rs mem {} s [] s' \<and> rb s' = rb s"
proof (cases "npages s > int VTSS_MERGE_MEM_LIMIT")
  case True
  then have s': "s' = s\<lparr>is_overflow := is_overflow s + 1, rb_enabled := False, npages := free_all (head s) (npages s), head := No_Temp, is_abort := True\<rparr>"
    using r by (simp add: check_memory_def)
  have "ring_keys s' = ring_keys s" "rings_ok rs s' = rings_ok rs s" unfolding s' by (simp_all add: ring_keys_def rings_ok_def)
  then show ?thesis using s unfolding stepped_def tr_inv_def held_def by (auto simp: s')
next
  case False
  then have c: "same_core s s'" using r by (auto simp: check_memory_def same_core_def split: if_splits)
  then show ?thesis using stepped_refl[OF s, of mem] same_core_stepped_to[OF c] by (simp add: same_core_def)
qed

lemma read_entries_ok:
  assumes "tr_inv rs s"
  shows "read_ok rs (temp_alloc e) {} room s (read_entries e i cpu fast room s)"
proof (cases "page_events e i cpu")
  case None
  then show ?thesis using peek_events_ok[OF assms] by (simp add: read_entries_def)
next
  case (Some n)
  show ?thesis
  proof (cases fast)
    case True
    let ?t = "s\<lparr>rb := (rb s)(cpu := drop n (rb s cpu))\<rparr>"
    have "rb s cpu = take n (rb s cpu) @ drop n (rb s cpu)" by simp
    note pop = pop_ring[OF assms this]
    have "read_ok rs (temp_alloc e) (fst ` set (take n (rb s cpu))) room ?t (parse_page (temp_alloc e) cpu (take n (rb s cpu)) room ?t)"
      by (rule parse_page_ok) (use pop in simp_all)
    then have "read_ok rs (temp_alloc e) {} room s (parse_page (temp_alloc e) cpu (take n (rb s cpu)) room ?t)"
      by (rule read_ok_popped) (use pop in simp)
    then show ?thesis using Some True by (simp add: read_entries_def)
  next
    case False
    then show ?thesis using peek_events_ok[OF assms] Some by (simp add: read_entries_def)
  qed
qed

definition read_result_ok :: "u8 list list \<Rightarrow> (nat \<Rightarrow> bool) \<Rightarrow> nat \<Rightarrow> trn \<Rightarrow> 'c \<times> u8 list \<times> nat \<times> trn \<Rightarrow> bool" where
  "read_result_ok rs mem room s = (\<lambda>(c, r). read_ok rs mem {} room s r)"

lemma read_cpu_ok:
  assumes s: "tr_inv rs s"
  shows "read_result_ok rs (temp_alloc e) room s (read_cpu e i cpu fast0 room s)"
proof (cases "rb s cpu = [] \<or> skip_cpu cpu s")
  case True
  then have "read_cpu e i cpu fast0 room s = ((Go_On, fast0), [], room, s)" by (simp add: read_cpu_def)
  then show ?thesis using stepped_refl[OF s] by (simp add: read_result_ok_def read_ok_def)
next
  case False
  obtain fast t where c: "check_memory fast0 s = (fast, t)" by (cases "check_memory fast0 s")
  note st = check_memory_stepped[OF s c, of "temp_alloc e"]
  have t: "tr_inv rs t" using st by (simp add: stepped_def)
  obtain d room' u where r: "read_entries e i cpu fast room t = (d, room', u)" by (cases "read_entries e i cpu fast room t")
  have ru: "stepped rs (temp_alloc e) {} t d u" "length d \<le> room" "room' = room - length d"
    using read_entries_ok[OF t, of e room i cpu fast] r by (simp_all add: read_ok_def)
  have u: "tr_inv rs u" using ru(1) by (simp add: stepped_def)
  obtain d' v where f: "vtss_transport_temp_flush room' u = (d', v)" by (cases "vtss_transport_temp_flush room' u")
  note fs = flush_stepped[OF u f, of "temp_alloc e"]
  have sv: "stepped rs (temp_alloc e) {} s (d @ d') v"
    using stepped_trans[OF stepped_trans[OF st[THEN conjunct1] ru(1)] fs[THEN conjunct1]] by simp
  show ?thesis
  proof (cases "page_alloc e i cpu")
    case True
    then have "\<exists>c. read_cpu e i cpu fast0 room s = (c, d @ d', room' - length d', v)" using False c r f by (simp add: read_cpu_def Let_def)
    then show ?thesis using sv fs ru by (auto simp: read_result_ok_def read_ok_def)
  next
    case no: False
    then have "read_cpu e i cpu fast0 room s = ((No_Page, fast), [], room, t)" using False c by (simp add: read_cpu_def)
    then show ?thesis using st by (simp add: read_result_ok_def read_ok_def)
  qed
qed

lemma read_result_trans:
  assumes "read_result_ok rs mem room s (c, d, room', t)" "read_result_ok rs mem room' t (c', d', room'', u)"
  shows "read_result_ok rs mem room s (c', d @ d', room'', u)"
  using assms read_ok_trans[of rs mem "{}" s d t room "{}" d' room'' u] by (auto simp: read_result_ok_def read_ok_def)

lemma read_result_ignores: "read_result_ok rs mem room s (c, r) = read_result_ok rs mem room s (c', r)"
  by (simp add: read_result_ok_def)

lemma read_cpus_ok:
  assumes "tr_inv rs s"
  shows "read_result_ok rs (temp_alloc e) room s (read_cpus e i cpus fast room s)"
  using assms
proof (induction cpus arbitrary: fast room s)
  case Nil
  then show ?case using stepped_refl by (simp add: read_result_ok_def read_ok_def)
next
  case (Cons cpu cpus)
  obtain c fast' d room' t where r: "read_cpu e i cpu fast room s = ((c, fast'), d, room', t)" by (metis surj_pair)
  note a = read_cpu_ok[OF Cons.prems, of e room i cpu fast, unfolded r]
  have t: "tr_inv rs t" using a by (simp add: read_result_ok_def read_ok_def stepped_def)
  obtain c' d' room'' u where r': "read_cpus e i cpus fast' room' t = (c', d', room'', u)" by (cases "read_cpus e i cpus fast' room' t")
  show ?case using a read_result_trans[OF a, of c' d' room'' u] Cons.IH[OF t, of room' fast'] r r' read_result_ignores[of rs "temp_alloc e" room s c _ "(c, fast')"] by simp
qed

lemma read_loop_ok:
  assumes "tr_inv rs s"
  shows "read_result_ok rs (temp_alloc e) room s (read_loop e is room s)"
  using assms
proof (induction "is" arbitrary: room s)
  case Nil
  then show ?case using stepped_refl by (simp add: read_result_ok_def read_ok_def)
next
  case (Cons i "is")
  obtain c d room' t where r: "read_cpus e i (online e) True room s = (c, d, room', t)" by (cases "read_cpus e i (online e) True room s")
  note a = read_cpus_ok[OF Cons.prems, of e room i "online e" True, unfolded r]
  have t: "tr_inv rs t" using a by (simp add: read_result_ok_def read_ok_def stepped_def)
  obtain c' d' room'' u where r': "read_loop e is room' t = (c', d', room'', u)" by (cases "read_loop e is room' t")
  have z: "read_result_ok rs (temp_alloc e) room s (Go_On, [], room, s)" using stepped_refl[OF Cons.prems] by (simp add: read_result_ok_def read_ok_def)
  show ?case using a z read_result_trans[OF a, of c' d' room'' u] Cons.IH[OF t, of room'] r r' by simp
qed

text \<open>
  The bytes of records that a read copies to the user's memory. If it answers \<open>-EFAULT\<close> after that (\<open>Read_Fault\<close>), the
  caller does not learn how many they are.
\<close>

fun copied_bytes :: "trn_read \<Rightarrow> u8 list" where
  "copied_bytes (Read_Data d) = d"
| "copied_bytes (Read_Fault d) = d"
| "copied_bytes _ = []"

lemma vtss_transport_read_stepped:
  assumes s: "tr_inv rs s" and r: "vtss_transport_read e nonblock len s = (res, s')"
  shows "stepped rs (temp_alloc e) {} s (copied_bytes res) s' \<and> length (copied_bytes res) \<le> len"
proof (cases "is_complete s = 0 \<and> \<not> VTSS_TRANSPORT_DATA_READY s")
  case True
  then have "copied_bytes res = [] \<and> s' = s" using r by (auto simp: vtss_transport_read_def split: if_splits)
  then show ?thesis using stepped_refl[OF s] by simp
next
  case False
  obtain d t where f: "vtss_transport_temp_flush len s = (d, t)" by (cases "vtss_transport_temp_flush len s")
  note fs = flush_stepped[OF s f, of "temp_alloc e"]
  have t: "tr_inv rs t" using fs by (simp add: stepped_def)
  obtain c d' room u where l: "read_loop e [0 ..< 30 * length (online e)] (len - length d) t = (c, d', room, u)"
    by (cases "read_loop e [0 ..< 30 * length (online e)] (len - length d) t")
  have lu: "stepped rs (temp_alloc e) {} t d' u" "length d' \<le> len - length d"
    using read_loop_ok[OF t, of e "len - length d" "[0 ..< 30 * length (online e)]"] l by (simp_all add: read_result_ok_def read_ok_def)
  have su: "stepped rs (temp_alloc e) {} s (d @ d') u" using stepped_trans[OF fs[THEN conjunct1] lu(1)] by simp
  have "copied_bytes res = d @ d' \<and> same_core s' u"
    using r False f l by (cases c) (auto simp: vtss_transport_read_def same_core_def split: if_splits)
  then show ?thesis using same_core_stepped_to[of s' u rs "temp_alloc e" "{}" s "d @ d'"] su fs lu(2) by auto
qed

end
