(* ===== verification/Transport_Run.thy ===== *)
theory Transport_Run
  imports Transport_Correct
begin

text \<open>
  Histories of a transport: writers reserve and commit in any interleaving, the reader reads. What comes
  out is the beginning of the sequence of accepted records; a lost record stops it for good.
\<close>

section \<open>The writers\<close>

lemma rec_at_snoc [simp]: "1 \<le> k \<Longrightarrow> k \<le> length rs \<Longrightarrow> rec_at (rs @ [r]) k = rec_at rs k"
  by (cases k) (simp_all add: rec_at_def nth_append)

lemma rec_at_last [simp]: "rec_at (rs @ [r]) (Suc (length rs)) = r"
  by (simp add: rec_at_def)

lemma recs_snoc: "1 \<le> b \<Longrightarrow> e \<le> length rs + 1 \<Longrightarrow> recs (rs @ [r]) b e = recs rs b e"
  by (auto simp: recs_def intro!: arg_cong[where f = concat])

lemma tree_ok_snoc: "tree_ok rs t \<Longrightarrow> \<forall>k \<in> keys t. 1 \<le> k \<and> k \<le> length rs \<Longrightarrow> tree_ok (rs @ [r]) t"
proof (induction t)
  case (Temp p b e d ord n)
  have "\<forall>k \<in> {b ..< e}. 1 \<le> k \<and> k \<le> length rs" "b < e" using Temp.prems by simp_all
  then have "recs (rs @ [r]) b e = recs rs b e" using recs_snoc[of b e rs r] by (cases e) auto
  then show ?case using Temp by auto
qed simp

lemma entry_ok_snoc: "entry_ok rs x \<Longrightarrow> entry_ok (rs @ [r]) x"
  by (simp add: entry_ok_def)

text \<open>A record is refused without a trace, or gets the next number.\<close>

lemma reserve_cases:
  assumes "vtss_transport_record_reserve ring_ok mem_ok r s = (x, s')"
  shows "(x = None \<and> same_core s' s \<and> is_complete s' = is_complete s) \<or>
    (\<exists>y. x = Some (seqnum s + 1, y) \<and> payload_bytes y = r \<and> payload_ok y \<and> same_core (s'\<lparr>seqnum := seqnum s\<rparr>) s \<and>
      seqnum s' = seqnum s + 1 \<and> is_complete s' = 0)"
proof -
  have o: "length r + sizeof_temp \<le> PAGE_SIZE * 2 ^ get_order (length r + sizeof_temp)" by (rule get_order_holds)
  show ?thesis using assms o unfolding vtss_transport_record_reserve_def Let_def same_core_def
    by (auto split: if_splits)
qed

lemma reserved_number:
  assumes "tr_inv rs s" "in_flight rs s es" "same_core (u\<lparr>seqnum := seqnum s\<rparr>) s" "seqnum u = seqnum s + 1" "payload_bytes y = r" "payload_ok y"
  shows "tr_inv (rs @ [r]) u \<and> in_flight (rs @ [r]) u (es @ [(seqnum s + 1, y)]) \<and> held u = held s"
proof -
  have c: "head u = head s" "seqdone u = seqdone s" "rb u = rb s" "is_abort u = is_abort s" using assms(3) by (simp_all add: same_core_def)
  have rk: "ring_keys u = ring_keys s" "held u = held s" using c by (simp_all add: ring_keys_def held_def)
  have i: "seqnum s = length rs" "1 \<le> seqdone s" "seqdone s \<le> length rs + 1" "tree_ok rs (head s)" "\<forall>k \<in> keys (head s). seqdone s \<le> k \<and> k \<le> length rs"
    "rings_ok rs s" "ring_keys s \<inter> keys (head s) = {}" "\<not> is_abort s \<longrightarrow> (\<forall>k \<in> ring_keys s. seqdone s \<le> k)"
    using assms(1) unfolding tr_inv_def by blast+
  have f: "distinct (map fst es)" "\<forall>e \<in> set es. entry_ok rs e" "fst ` set es \<inter> held s = {}" "\<not> is_abort s \<longrightarrow> (\<forall>k \<in> fst ` set es. seqdone s \<le> k)"
    using assms(2) unfolding in_flight_def by blast+
  have ok: "e \<in> set (rb s cpu) \<Longrightarrow> entry_ok rs e" for e cpu using i(6) by (simp add: rings_ok_def)
  have "tree_ok (rs @ [r]) (head s)" using tree_ok_snoc[OF i(4)] i(2,5) by (meson le_trans)
  moreover have "rings_ok (rs @ [r]) u" using i(6) ok entry_ok_snoc unfolding rings_ok_def c(3) by blast
  ultimately have "tr_inv (rs @ [r]) u" using i(1-3,5,7,8) unfolding tr_inv_def c rk assms(4) by (simp add: le_Suc_eq)
  moreover have "seqnum s + 1 \<notin> held s"
  proof
    assume "seqnum s + 1 \<in> held s"
    then consider "seqnum s + 1 \<in> keys (head s)" | e cpu where "e \<in> set (rb s cpu)" "fst e = seqnum s + 1" by (auto simp: held_def ring_keys_def)
    then show False
    proof cases
      case 1
      then show ?thesis using i(1,5) by fastforce
    next
      case 2
      then show ?thesis using ok[OF 2(1)] i(1) by (simp add: entry_ok_def)
    qed
  qed
  moreover have "seqnum s + 1 \<notin> fst ` set es"
  proof
    assume "seqnum s + 1 \<in> fst ` set es"
    then obtain e where "e \<in> set es" "fst e = seqnum s + 1" by (metis imageE)
    then show False using f(2) i(1) by (auto simp: entry_ok_def)
  qed
  moreover have "\<forall>e \<in> set (es @ [(seqnum s + 1, y)]). entry_ok (rs @ [r]) e"
    using f(2) entry_ok_snoc assms(5,6) i(1) by (auto simp: entry_ok_def[of _ "(Suc _, _)"])
  ultimately show ?thesis using f(1,3,4) i(1,3) rk(2) unfolding in_flight_def c rk by auto
qed

text \<open>Reservations are committed in any order and on any CPU.\<close>

lemma commit_entry:
  assumes "tr_inv rs s" "in_flight rs s es" "j < length es"
  shows "tr_inv rs (vtss_transport_record_commit cpu (es ! j) s) \<and> in_flight rs (vtss_transport_record_commit cpu (es ! j) s) (take j es @ drop (Suc j) es) \<and>
    held (vtss_transport_record_commit cpu (es ! j) s) = insert (fst (es ! j)) (held s)"
proof -
  let ?e = "es ! j" and ?u = "vtss_transport_record_commit cpu (es ! j) s" and ?es = "take j es @ drop (Suc j) es"
  have es: "es = take j es @ ?e # drop (Suc j) es" using assms(3) by (simp add: id_take_nth_drop)
  have f: "distinct (map fst es)" "\<forall>e \<in> set es. entry_ok rs e" "fst ` set es \<inter> held s = {}" "\<not> is_abort s \<longrightarrow> (\<forall>k \<in> fst ` set es. seqdone s \<le> k)"
    using assms(2) unfolding in_flight_def by blast+
  have i: "seqnum s = length rs" "1 \<le> seqdone s" "seqdone s \<le> length rs + 1" "tree_ok rs (head s)" "\<forall>k \<in> keys (head s). seqdone s \<le> k \<and> k \<le> length rs"
    "rings_ok rs s" "ring_keys s \<inter> keys (head s) = {}" "\<not> is_abort s \<longrightarrow> (\<forall>k \<in> ring_keys s. seqdone s \<le> k)"
    using assms(1) unfolding tr_inv_def by blast+
  have c: "head ?u = head s" "seqdone ?u = seqdone s" "seqnum ?u = seqnum s" "is_abort ?u = is_abort s" by (simp_all add: vtss_transport_record_commit_def)
  have rk: "ring_keys ?u = insert (fst ?e) (ring_keys s)"
  proof -
    have one: "fst ` set (rb ?u c) = (if c = cpu then {fst ?e} else {}) \<union> fst ` set (rb s c)" for c
      by (simp add: vtss_transport_record_commit_def)
    show ?thesis unfolding ring_keys_def one UN_Un_distrib by simp
  qed
  then have h: "held ?u = insert (fst ?e) (held s)" by (auto simp: held_def c)
  have mem: "?e \<in> set es" using assms(3) by simp
  have new: "fst ?e \<notin> held s" using f(3) mem by (meson disjoint_iff image_eqI)
  have nr: "fst ?e \<notin> fst ` set (rb s c)" for c using new by (auto simp: held_def ring_keys_def)
  have nr': "(fst ?e, b) \<notin> set (rb s c)" for b c using nr[of c] by (metis fst_conv image_eqI)
  have "rings_ok rs ?u"
    using i(6) nr nr' f(2) mem by (auto simp: rings_ok_def vtss_transport_record_commit_def disjoint_iff)
  moreover have "insert (fst ?e) (ring_keys s) \<inter> keys (head s) = {}" using i(7) new by (simp add: held_def)
  moreover have "\<not> is_abort s \<longrightarrow> (\<forall>k \<in> insert (fst ?e) (ring_keys s). seqdone s \<le> k)" 
    using i(8) f(4) mem by simp
  ultimately have tri: "tr_inv rs ?u" using i(1-5) unfolding tr_inv_def c rk by - (intro conjI; assumption)
  have "distinct (map fst (take j es @ ?e # drop (Suc j) es))" using f(1) by (simp only: es[symmetric])
  then have "distinct (map fst ?es)" "fst ?e \<notin> fst ` set ?es" by auto
  moreover have "set ?es \<subseteq> set es" by (auto dest: in_set_takeD in_set_dropD)
  moreover have "fst ` set ?es \<subseteq> fst ` set es" using \<open>set ?es \<subseteq> set es\<close> by (rule image_mono)
  moreover have "fst ` set ?es \<inter> insert (fst ?e) (held s) = {}" 
    using \<open>fst ` set ?es \<subseteq> fst ` set es\<close> f(3) \<open>fst ?e \<notin> fst ` set ?es\<close> by (rule disjoint_insert_part)
  moreover have "\<forall>e \<in> set ?es. entry_ok rs e" using f(2) \<open>set ?es \<subseteq> set es\<close> by blast
  moreover have "\<not> is_abort s \<longrightarrow> (\<forall>k \<in> fst ` set ?es. seqdone s \<le> k)" using f(4) \<open>fst ` set ?es \<subseteq> fst ` set es\<close> by (meson subsetD)
  ultimately show ?thesis 
    using tri \<open>distinct (map fst ?es)\<close> unfolding in_flight_def c h by - (intro conjI; (assumption | rule refl))
qed

section \<open>Histories\<close>

text \<open>
  A writer reserves a place for a record and commits it later; \<open>Commit j cpu\<close> is the commit of the \<open>j\<close>-th
  outstanding reservation. The state has the accepted records, the bytes of records copied to the reader's memory and the outstanding reservations.
\<close>

datatype trn_event = Reserve bool bool "u8 list" | Commit nat nat | Reads read_env bool nat | Completes | Polls | Opens | Closes

type_synonym history = "u8 list list \<times> u8 list \<times> (nat \<times> payload) list \<times> trn"

fun trn_step :: "trn_event \<Rightarrow> history \<Rightarrow> history" where
  "trn_step (Reserve ring_ok mem_ok r) (rs, out, es, s) = (case vtss_transport_record_reserve ring_ok mem_ok r s of
       (None, s) \<Rightarrow> (rs, out, es, s)
     | (Some e, s) \<Rightarrow> (rs @ [r], out, es @ [e], s))"
| "trn_step (Commit j cpu) (rs, out, es, s) =
     (if j < length es then (rs, out, take j es @ drop (Suc j) es, vtss_transport_record_commit cpu (es ! j) s) else (rs, out, es, s))"
| "trn_step (Reads e nonblock len) (rs, out, es, s) =
     (let (res, s) = vtss_transport_read e nonblock len s in (rs, out @ copied_bytes res, es, s))"
| "trn_step Completes (rs, out, es, s) = (rs, out, es, vtss_transport_complete s)"
| "trn_step Polls (rs, out, es, s) = (rs, out, es, snd (vtss_transport_poll s))"
| "trn_step Opens (rs, out, es, s) = (rs, out, es, snd (vtss_transport_open s))"
| "trn_step Closes (rs, out, es, s) = (rs, out, es, snd (vtss_transport_close s))"

definition trn_run :: "trn_event list \<Rightarrow> history \<Rightarrow> history" where
  "trn_run evs h = fold trn_step evs h"

definition trn_start :: "int \<Rightarrow> history" where
  "trn_start np = ([], [], [], vtss_transport_create_trnd np)"

text \<open>
  What the calls to read answer, and the bytes that a caller takes from an answer: those of \<open>Read_Magic\<close> are two words
  that stand for no record.
\<close>

fun answers :: "trn_event list \<Rightarrow> history \<Rightarrow> trn_read list" where
  "answers [] h = []"
| "answers (Reads e nonblock len # evs) h =
     fst (vtss_transport_read e nonblock len (snd (snd (snd h)))) # answers evs (trn_step (Reads e nonblock len) h)"
| "answers (ev # evs) h = answers evs (trn_step ev h)"

definition magic_bytes :: "u8 list" where
  "magic_bytes = le_bytes 4 0x08000000 @ le_bytes 4 0xADDEDEFA"

fun returned_bytes :: "trn_read \<Rightarrow> u8 list" where
  "returned_bytes (Read_Data d) = d"
| "returned_bytes Read_Magic = magic_bytes"
| "returned_bytes _ = []"

lemma copied_answers: "fst (snd (trn_run evs (rs, out, es, s))) = out @ concat (map copied_bytes (answers evs (rs, out, es, s)))"
  unfolding trn_run_def
proof (induction evs arbitrary: rs out es s)
  case (Cons ev evs)
  obtain rs' out' es' s' where h: "trn_step ev (rs, out, es, s) = (rs', out', es', s')" by (metis prod_cases4)
  show ?case using Cons.IH[of rs' out' es' s'] h
    by (cases ev) (auto split: prod.splits option.splits if_splits)
qed simp

lemma returned_copied: "\<forall>d. Read_Fault d \<in> set as \<longrightarrow> d = [] \<Longrightarrow>
  concat (map returned_bytes (filter (\<lambda>a. a \<noteq> Read_Magic) as)) = concat (map copied_bytes as)"
proof (induction "as")
  case (Cons a "as")
  then show ?case by (cases a) auto
qed simp

fun history_ok :: "history \<Rightarrow> bool" where
  "history_ok (rs, out, es, s) = (tr_inv rs s \<and> in_flight rs s es \<and> out = recs rs 1 (seqdone s))"

lemma recs_take: "n \<le> length rs \<Longrightarrow> recs rs 1 (Suc n) = concat (take n rs)"
  by (induction n) (auto simp: recs_Suc take_Suc_conv_app_nth rec_at_def)

lemma start_ok: "history_ok (trn_start np)"
  by (simp add: trn_start_def vtss_transport_create_trnd_def tr_inv_def rings_ok_def ring_keys_def in_flight_def)

lemma in_flight_stepped:
  assumes "in_flight rs s es" "stepped rs mem {} s d t"
  shows "in_flight rs t es"
proof -
  have f: "distinct (map fst es)" "\<forall>e \<in> set es. entry_ok rs e" "fst ` set es \<inter> held s = {}" "\<not> is_abort s \<longrightarrow> (\<forall>k \<in> fst ` set es. seqdone s \<le> k)"
    using assms(1) unfolding in_flight_def by blast+
  have sub: "held t \<union> {seqdone s ..< seqdone t} \<subseteq> held s" "is_abort s \<longrightarrow> is_abort t" using assms(2) unfolding stepped_def by blast+
  have "\<not> is_abort t \<longrightarrow> (\<forall>k \<in> fst ` set es. seqdone t \<le> k)"
  proof (intro impI ballI)
    fix k assume "\<not> is_abort t" and k: "k \<in> fst ` set es"
    then have "seqdone s \<le> k" using f(4) sub(2) by meson
    moreover have "k \<notin> {seqdone s ..< seqdone t}" using f(3) sub(1) k by blast
    ultimately show "seqdone t \<le> k" by simp
  qed
  moreover have "fst ` set es \<inter> held t = {}" using f(3) sub(1) by blast
  ultimately show ?thesis using f(1,2) unfolding in_flight_def by - (intro conjI; assumption)
qed

lemma same_core_in_flight: "same_core t s \<Longrightarrow> in_flight rs t es = in_flight rs s es"
  using same_core_held[of t s rs] by (simp add: in_flight_def same_core_def)

lemma same_core_history: "same_core t s \<Longrightarrow> history_ok (rs, out, es, s) \<Longrightarrow> history_ok (rs, out, es, t)"
  using same_core_inv[of t s rs] same_core_in_flight[of t s rs es] by (simp add: same_core_def)

lemma quiet_events:
  "same_core (vtss_transport_complete s) s" "same_core (snd (vtss_transport_poll s)) s"
  "same_core (snd (vtss_transport_open s)) s" "same_core (snd (vtss_transport_close s)) s"
  by (simp_all add: same_core_def vtss_transport_complete_def vtss_transport_poll_def vtss_transport_open_def vtss_transport_close_def Let_def)

lemma reserve_history:
  assumes "history_ok (rs, out, es, s)" "vtss_transport_record_reserve ring_ok mem_ok r s = (Some e, t)"
  shows "history_ok (rs @ [r], out, es @ [e], t) \<and> held t = held s \<and> seqdone t = seqdone s \<and> is_abort t = is_abort s \<and> fst e = Suc (length rs)"
proof -
  obtain y where y: "e = (seqnum s + 1, y)" "payload_bytes y = r" "payload_ok y" "same_core (t\<lparr>seqnum := seqnum s\<rparr>) s" "seqnum t = seqnum s + 1"
    using reserve_cases[OF assms(2)] by blast
  have i: "tr_inv rs s" "in_flight rs s es" "out = recs rs 1 (seqdone s)" using assms(1) by simp_all
  have sq: "seqdone t = seqdone s" "is_abort t = is_abort s" using y(4) by (simp_all add: same_core_def)
  have "seqnum s = length rs" "seqdone s \<le> length rs + 1" using i(1) by (simp_all add: tr_inv_def)
  then show ?thesis using reserved_number[OF i(1,2) y(4,5,2,3)] i(3) recs_snoc[of 1 "seqdone s" rs r] sq y(1) by simp
qed

lemma trn_step_ok: "history_ok h \<Longrightarrow> history_ok (trn_step ev h)"
proof (cases "(ev, h)" rule: trn_step.cases)
  case (1 ring_ok mem_ok r rs out es s)
  assume h: "history_ok h"
  obtain x t where r: "vtss_transport_record_reserve ring_ok mem_ok r s = (x, t)" by (cases "vtss_transport_record_reserve ring_ok mem_ok r s")
  show ?thesis
  proof (cases x)
    case None
    then have "same_core t s" using reserve_cases[OF r] by simp
    then show ?thesis using same_core_history[of t s rs out es] h 1 r None by (simp del: history_ok.simps)
  next
    case (Some e)
    then show ?thesis using reserve_history[of rs out es s ring_ok mem_ok r e t] h 1 r by simp
  qed
next
  case (2 j cpu rs out es s)
  assume h: "history_ok h"
  then show ?thesis using commit_entry[of rs s es j cpu] 2 by (simp add: vtss_transport_record_commit_def)
next
  case (3 e nonblock len rs out es s)
  assume h: "history_ok h"
  obtain res t where r: "vtss_transport_read e nonblock len s = (res, t)" by (cases "vtss_transport_read e nonblock len s")
  have i: "tr_inv rs s" "in_flight rs s es" "out = recs rs 1 (seqdone s)" using h 3 by simp_all
  note st = vtss_transport_read_stepped[OF i(1) r, THEN conjunct1]
  have t: "tr_inv rs t" "seqdone s \<le> seqdone t" "copied_bytes res = recs rs (seqdone s) (seqdone t)" using st unfolding stepped_def by blast+
  have "1 \<le> seqdone s" using i(1) by (simp add: tr_inv_def)
  then show ?thesis using t recs_append[of 1 "seqdone s" "seqdone t" rs] in_flight_stepped[OF i(2) st] i(3) 3 r by simp
qed (auto simp del: history_ok.simps intro: quiet_events[THEN same_core_history])

lemma trn_run_ok: "history_ok h \<Longrightarrow> history_ok (trn_run evs h)"
  unfolding trn_run_def by (induction evs arbitrary: h) (simp_all add: trn_step_ok del: history_ok.simps)

lemma trn_run_start: "trn_run evs (trn_start np) = (rs, out, es, s) \<Longrightarrow> history_ok (rs, out, es, s)"
  using trn_run_ok[OF start_ok] by metis

section \<open>Lost records\<close>

text \<open>A record that is in no ring buffer, not in the tree and not reserved is never passed.\<close>

fun lost :: "nat \<Rightarrow> history \<Rightarrow> bool" where
  "lost k (rs, out, es, s) = (seqdone s \<le> k \<and> k \<le> length rs \<and> k \<notin> held s \<and> k \<notin> fst ` set es)"

lemma same_core_lost: "same_core t s \<Longrightarrow> lost k (rs, out, es, s) \<Longrightarrow> lost k (rs, out, es, t)"
  using same_core_held[of t s rs] by (simp add: same_core_def)

lemma take_drop_subset: "set (take j es @ drop (Suc j) es) \<subseteq> set es"
  by (auto dest: in_set_takeD in_set_dropD)

lemma lost_step: "history_ok h \<Longrightarrow> lost k h \<Longrightarrow> lost k (trn_step ev h) \<and> take (k - 1) (fst (trn_step ev h)) = take (k - 1) (fst h)"
proof (cases "(ev, h)" rule: trn_step.cases)
  case (1 ring_ok mem_ok r rs out es s)
  assume h: "history_ok h" "lost k h"
  obtain x t where r: "vtss_transport_record_reserve ring_ok mem_ok r s = (x, t)" by (cases "vtss_transport_record_reserve ring_ok mem_ok r s")
  show ?thesis
  proof (cases x)
    case None
    then have "same_core t s" using reserve_cases[OF r] by simp
    then show ?thesis using same_core_lost[of t s k rs out es] h(2) 1 r None by (simp del: lost.simps)
  next
    case (Some e)
    then show ?thesis using reserve_history[of rs out es s ring_ok mem_ok r e t] h 1 r by auto
  qed
next
  case (2 j cpu rs out es s)
  assume h: "history_ok h" "lost k h"
  show ?thesis
  proof (cases "j < length es")
    case True
    have "held (vtss_transport_record_commit cpu (es ! j) s) = insert (fst (es ! j)) (held s)" using commit_entry[of rs s es j cpu] h(1) 2 True by simp
    moreover have "k \<noteq> fst (es ! j)" using h(2) 2 True by auto
    moreover have "k \<notin> fst ` set (take j es @ drop (Suc j) es)" using h(2) 2 take_drop_subset[of j es] by (auto simp del: set_append)
    ultimately show ?thesis using h(2) 2 True by (simp add: vtss_transport_record_commit_def del: set_append)
  qed (use h 2 in simp)
next
  case (3 e nonblock len rs out es s)
  assume h: "history_ok h" "lost k h"
  obtain res t where r: "vtss_transport_read e nonblock len s = (res, t)" by (cases "vtss_transport_read e nonblock len s")
  have l: "seqdone s \<le> k" "k \<le> length rs" "k \<notin> held s" "k \<notin> fst ` set es" and i: "tr_inv rs s" using h 3 by simp_all
  have "held t \<union> {seqdone s ..< seqdone t} \<subseteq> held s" using vtss_transport_read_stepped[OF i r] unfolding stepped_def by blast
  then have "k \<notin> held t" "k \<notin> {seqdone s ..< seqdone t}" using l(3) by blast+
  then show ?thesis using l 3 r by simp
qed (auto simp del: lost.simps intro: quiet_events[THEN same_core_lost])

lemma lost_run: "history_ok h \<Longrightarrow> lost k h \<Longrightarrow> lost k (trn_run evs h) \<and> take (k - 1) (fst (trn_run evs h)) = take (k - 1) (fst h)"
  unfolding trn_run_def
proof (induction evs arbitrary: h)
  case (Cons ev evs)
  then show ?case using lost_step[OF Cons.prems, of ev] trn_step_ok[OF Cons.prems(1), of ev] by simp
qed simp

end
