(* ===== verification/Transport_Drain.thy ===== *)
theory Transport_Drain
  imports Transport_Run
begin

text \<open>
  The end of a collection: once the transport is complete, a reader with a large enough buffer gets
  every record that is still in the ring buffers or in the tree, in one read.
\<close>

section \<open>The memory a read takes\<close>

lemma tree_pages_ge: "0 \<le> tree_pages t"
  by (induction t) (auto simp: pages_def)

lemma pages_ge: "0 \<le> pages ord"
  by (simp add: pages_def)

lemma free_all_le: "free_all t np \<le> np"
  using tree_pages_ge[of t] by (simp add: free_all_pages)

lemma temp_merge_le: "snd (temp_merge t np) \<le> np"
proof (cases t)
  case (Temp p b e d ord n)
  have "free_all (nxt p) np - pages ord \<le> np" "free_all (prev n) np - pages (order n) \<le> np"
    using free_all_le[of "nxt p" np] free_all_le[of "prev n" np] pages_ge[of ord] pages_ge[of "order n"] by linarith+
  then show ?thesis unfolding Temp by (simp del: fits_def)
qed simp

lemma at_slot_le: "(\<And>m. snd (f (slot ds t) m) \<le> m + x) \<Longrightarrow> 0 \<le> x \<Longrightarrow> snd (at_slot ds f t np) \<le> np + x"
  by (induction ds t rule: slot.induct) (auto simp: split_beta Let_def split: temp.splits)

lemma seek_le: "snd (snd (seek k t np)) \<le> np"
proof (induction k t np rule: seek.induct)
  case (1 k t np)
  obtain u m where m: "temp_merge t np = (u, m)" by (cases "temp_merge t np")
  have le: "m \<le> np" using temp_merge_le[of t np] m by simp
  show ?case
  proof (cases u)
    case No_Temp
    then show ?thesis using m le by (subst seek.simps) simp
  next
    case (Temp p b e d ord n)
    show ?thesis using 1[OF m[symmetric] Temp] m le unfolding Temp by (subst seek.simps) (auto simp: split_beta Let_def intro: order_trans)
  qed
qed

lemma merge_behind_le: "snd (at_slot ds (\<lambda>_ q. let (n', q') = temp_merge x q in (h n', q')) u m) \<le> m"
proof -
  have "snd (let (n', q') = temp_merge x q in (h n', q')) \<le> q" for q using temp_merge_le[of x q] by (simp add: split_beta)
  then show ?thesis using at_slot_le[of "\<lambda>_ q. let (n', q') = temp_merge x q in (h n', q')" ds u 0 m] by (simp del: temp_merge.simps)
qed

lemma temp_store_data_le: "snd (snd (temp_store_data mem_ok k data t np)) \<le> np + pages (get_order (length data + sizeof_temp))"
proof -
  let ?o = "get_order (length data + sizeof_temp)"
  obtain ds u m where s: "seek k t np = (ds, u, m)" by (cases "seek k t np")
  have m: "m \<le> np" using seek_le[of k t np] s by simp
  have p: "0 \<le> pages ?o" by (rule pages_ge)
  have merged: "snd (at_slot ds' (\<lambda>t. temp_merge (g t)) u q) \<le> q" for ds' g q
    using at_slot_le[of "\<lambda>t. temp_merge (g t)" ds' u 0 q] temp_merge_le by simp
  show ?thesis
  proof (cases "slot ds u")
    case No_Temp
    have a: "snd (at_slot ds' (\<lambda>t. temp_merge (g t)) u m) \<le> np + pages ?o" for ds' g using merged[of ds' g m] m p by linarith
    have b: "snd (at_slot ds' (\<lambda>t. temp_merge (g t)) u (m + pages ?o)) \<le> np + pages ?o" for ds' g using merged[of ds' g "m + pages ?o"] m by linarith
    show ?thesis using m p by (simp add: temp_store_data_def s No_Temp Let_def a b)
  next
    case (Temp l b e d ord n)
    have a: "snd (at_slot ds (\<lambda>t. temp_merge (g t)) u m) \<le> np + pages ?o" for g using merged[of ds g m] m p by linarith
    have b: "snd (at_slot ds (\<lambda>_ q. let (n', q') = temp_merge x q in (h n', q')) u (m + pages ?o)) \<le> np + pages ?o" for x h
      using merge_behind_le[of ds x h u "m + pages ?o"] m by linarith
    show ?thesis using m p b[of "Temp No_Temp k (k + 1) data ?o n" "\<lambda>n'. Temp l b e d ord n'"]
      by (simp add: temp_store_data_def s Temp Let_def a del: temp_merge.simps)
  qed
qed

lemma temp_store_blob_le: "snd (temp_store_blob k data ord t np) \<le> np"
proof -
  obtain ds u m where s: "seek k t np = (ds, u, m)" by (cases "seek k t np")
  have m: "m \<le> np" using seek_le[of k t np] s by simp
  have "snd (at_slot ds (\<lambda>_ q. (g, q)) u m) \<le> m" for g using at_slot_le[of "\<lambda>_ q. (g, q)" ds u 0 m] by simp
  then show ?thesis using m by (auto simp: temp_store_blob_def s split: temp.splits intro: order_trans)
qed

lemma take_out_le: "snd (snd (take_out q room t np)) \<le> np"
proof (induction q room t np rule: take_out.induct)
  case (1 q room t np)
  obtain u m where m: "temp_merge t np = (u, m)" by (cases "temp_merge t np")
  have le: "m \<le> np" using temp_merge_le[of t np] m by simp
  show ?case
  proof (cases u)
    case No_Temp
    then show ?thesis using m le by (subst take_out.simps) simp
  next
    case (Temp p b e d ord n)
    have "free_all p m - pages ord \<le> m" using free_all_le[of p m] pages_ge[of ord] by linarith
    then show ?thesis using 1[OF m[symmetric] Temp] m le unfolding Temp by (subst take_out.simps) (auto simp: split_beta Let_def intro: order_trans)
  qed
qed

lemma temp_flush_le: "snd (snd (snd (temp_flush_loop q room t np))) \<le> np"
proof (induction q room t np rule: temp_flush_loop.induct)
  case (1 q room t np)
  obtain f u m where f: "take_out q room t np = (f, u, m)" by (cases "take_out q room t np")
  have le: "m \<le> np" using take_out_le[of q room t np] f by simp
  show ?case
  proof (cases f)
    case (Output d e)
    then show ?thesis using 1[OF f[symmetric, unfolded Output] refl refl] f le
      by (subst temp_flush_loop.simps) (auto simp: split_beta Let_def intro: order_trans)
  qed (use f le in \<open>subst temp_flush_loop.simps, simp\<close>)+
qed

section \<open>Taking entries out of a complete transport\<close>

text \<open>The pages that an entry may need in the tree, beyond those it brings.\<close>

fun need :: "payload \<Rightarrow> int" where
  "need (Inline d) = pages (get_order (length d + sizeof_temp))"
| "need (Blob d ord) = 0"

definition needs :: "(nat \<times> payload) list \<Rightarrow> int" where
  "needs es = sum_list (map (need \<circ> snd) es)"

lemma needs_simps [simp]: "needs [] = 0" "needs (e # es) = need (snd e) + needs es"
  by (simp_all add: needs_def)

lemma need_ge: "0 \<le> need x"
  by (cases x) (simp_all add: pages_ge)

text \<open>A step that only uses memory: the ring buffers are given, the rest that matters is as before.\<close>

definition uses :: "trn \<Rightarrow> int \<Rightarrow> (nat \<Rightarrow> (nat \<times> payload) list) \<Rightarrow> trn \<Rightarrow> bool" where
  "uses s x f t = (npages t \<le> npages s + x \<and> rb t = f \<and> is_complete t = is_complete s \<and> is_abort t = is_abort s)"

lemma store_payload_uses: "uses s (need x) (rb s) (store_payload mem_ok k x s)"
proof (cases x)
  case (Inline d)
  then show ?thesis using temp_store_data_le[of mem_ok k d "head s" "npages s"] by (simp add: uses_def store_payload_def split_beta Let_def)
next
  case (Blob d ord)
  then show ?thesis using temp_store_blob_le[of k d ord "head s" "npages s"] by (simp add: uses_def store_payload_def split_beta Let_def)
qed

lemma parse_event_uses: "uses s (need x) (rb s) (snd (vtss_transport_temp_parse_event mem_ok cpu (k, x) room s))"
proof -
  let ?t = "s\<lparr>seqcpu := (seqcpu s)(cpu := k)\<rparr>"
  have st: "uses s (need x) (rb s) (store_payload mem_ok k x ?t)"
    using store_payload_uses[of ?t x mem_ok k] by (simp add: uses_def)
  show ?thesis
  proof (cases x)
    case (Inline d)
    then show ?thesis using st need_ge[of x] by (auto simp: vtss_transport_temp_parse_event_def Let_def uses_def)
  next
    case (Blob d ord)
    then show ?thesis using st pages_ge[of ord] by (auto simp: vtss_transport_temp_parse_event_def Let_def uses_def)
  qed
qed

lemma parse_page_uses: "uses s (needs es) (rb s) (snd (snd (parse_page mem cpu es room s)))"
proof (induction es arbitrary: room s)
  case Nil
  then show ?case by (simp add: uses_def)
next
  case (Cons e es)
  obtain d t where p: "vtss_transport_temp_parse_event (mem (fst e)) cpu e room s = (d, t)" by (cases "vtss_transport_temp_parse_event (mem (fst e)) cpu e room s")
  have t: "uses s (need (snd e)) (rb s) t" using parse_event_uses[of s "snd e" "mem (fst e)" cpu "fst e" room] p by simp
  show ?case using Cons.IH[of t "room - length d"] t p by (simp add: uses_def split_beta)
qed

lemma peek_events_uses:
  assumes "is_complete s \<noteq> 0"
  shows "uses s (needs (take n (rb s cpu))) ((rb s)(cpu := drop n (rb s cpu))) (snd (snd (peek_events mem cpu n room s)))"
  using assms
proof (induction n arbitrary: room s)
  case 0
  then show ?case by (simp add: uses_def)
next
  case (Suc n)
  show ?case
  proof (cases "rb s cpu")
    case Nil
    then have "(rb s)(cpu := []) = rb s" by (simp add: fun_upd_idem)
    then show ?thesis using Nil by (simp add: uses_def)
  next
    case (Cons e es)
    let ?u = "s\<lparr>seqcpu := (seqcpu s)(cpu := fst e), rb := (rb s)(cpu := es)\<rparr>"
    obtain d t where p: "vtss_transport_temp_parse_event (mem (fst e)) cpu e room ?u = (d, t)" by (cases "vtss_transport_temp_parse_event (mem (fst e)) cpu e room ?u")
    have t: "uses ?u (need (snd e)) ((rb s)(cpu := es)) t" using parse_event_uses[of ?u "snd e" "mem (fst e)" cpu "fst e" room] p by simp
    have c: "is_complete t \<noteq> 0" "rb t = (rb s)(cpu := es)" using t Suc.prems by (simp_all add: uses_def)
    have go: "peek_events mem cpu (Suc n) room s = (let (ds, room, s) = peek_events mem cpu n (room - length d) t in (d @ ds, room, s))"
      using Cons p Suc.prems by (simp add: running_def)
    have "snd (snd (peek_events mem cpu (Suc n) room s)) = snd (snd (peek_events mem cpu n (room - length d) t))"
      unfolding go by (simp add: split_beta)
    then have u: "uses t (needs (take n es)) ((rb s)(cpu := drop n es)) (snd (snd (peek_events mem cpu (Suc n) room s)))"
      using Suc.IH[OF c(1), of "room - length d"] unfolding c(2) fun_upd_upd fun_upd_same by (simp only:)
    then show ?thesis using t Cons unfolding uses_def by simp
  qed
qed

lemma read_entries_uses:
  assumes "is_complete s \<noteq> 0" "page_events e i cpu \<noteq> Some 0"
  obtains n where "1 \<le> n" "uses s (needs (take n (rb s cpu))) ((rb s)(cpu := drop n (rb s cpu))) (snd (snd (read_entries e i cpu fast room s)))"
proof (cases "\<exists>n. page_events e i cpu = Some n \<and> fast")
  case True
  then obtain n where n: "page_events e i cpu = Some n" fast by blast
  let ?u = "s\<lparr>rb := (rb s)(cpu := drop n (rb s cpu))\<rparr>"
  have "uses ?u (needs (take n (rb s cpu))) (rb ?u) (snd (snd (read_entries e i cpu fast room s)))"
    using parse_page_uses[of ?u "take n (rb s cpu)" "temp_alloc e" cpu room] n by (simp add: read_entries_def)
  then show thesis using n(1) assms(2) that[of n] by (simp add: uses_def)
next
  case False
  then have "read_entries e i cpu fast room s = peek_events (temp_alloc e) cpu 10 room s" by (auto simp: read_entries_def split: option.splits)
  then show thesis using peek_events_uses[OF assms(1), of 10 cpu "temp_alloc e" room] that[of 10] by simp
qed

section \<open>What is left\<close>

definition potential :: "nat set \<Rightarrow> trn \<Rightarrow> int" where
  "potential C s = npages s + (\<Sum>c \<in> C. needs (rb s c))"

lemma needs_split: "needs (take n es) + needs (drop n es) = needs es"
  using sum_list_append[of "map (need \<circ> snd) (take n es)" "map (need \<circ> snd) (drop n es)"]
  by (simp add: needs_def flip: map_append)

lemma potential_falls:
  assumes "finite C" "cpu \<in> C" "uses s (needs (take n (rb s cpu))) ((rb s)(cpu := drop n (rb s cpu))) t"
  shows "potential C t \<le> potential C s"
proof -
  have "(\<Sum>c \<in> C - {cpu}. needs (rb t c)) = (\<Sum>c \<in> C - {cpu}. needs (rb s c))" using assms(3) by (intro sum.cong) (auto simp: uses_def)
  moreover have "needs (rb t cpu) = needs (drop n (rb s cpu))" using assms(3) by (simp add: uses_def)
  ultimately show ?thesis using assms needs_split[of n "rb s cpu"] by (simp add: potential_def sum.remove uses_def)
qed

definition pending :: "u8 list list \<Rightarrow> trn \<Rightarrow> nat" where
  "pending rs s = length (recs rs (seqdone s) (Suc (length rs)))"

text \<open>A complete transport that lost nothing, before a read with enough room.\<close>

definition draining :: "u8 list list \<Rightarrow> nat set \<Rightarrow> nat \<Rightarrow> trn \<Rightarrow> bool" where
  "draining rs C room s = (tr_inv rs s \<and> is_complete s \<noteq> 0 \<and> \<not> is_abort s \<and> {seqdone s .. length rs} \<subseteq> held s \<and>
     pending rs s + VTSS_RING_BUFFER_PAGE_SIZE \<le> room \<and> potential C s \<le> int VTSS_MERGE_MEM_LIMIT)"

lemma drained_step:
  assumes "draining rs C room s" "stepped rs (\<lambda>_. True) {} s d t" "\<not> is_abort t" "is_complete t \<noteq> 0" "potential C t \<le> potential C s"
  shows "draining rs C (room - length d) t"
proof -
  have s: "tr_inv rs s" "{seqdone s .. length rs} \<subseteq> held s" "pending rs s + VTSS_RING_BUFFER_PAGE_SIZE \<le> room" "potential C s \<le> int VTSS_MERGE_MEM_LIMIT"
    using assms(1) unfolding draining_def by blast+
  have t: "tr_inv rs t" "seqdone s \<le> seqdone t" "d = recs rs (seqdone s) (seqdone t)" using assms(2) unfolding stepped_def by blast+
  have h: "held s \<subseteq> held t \<union> {seqdone s ..< seqdone t}" using assms(2,3) unfolding stepped_def by auto
  have "{seqdone t .. length rs} \<subseteq> held t"
  proof
    fix k assume k: "k \<in> {seqdone t .. length rs}"
    then have "k \<in> held s" using s(2) t(2) by auto
    then show "k \<in> held t" using h k by auto
  qed
  moreover have "pending rs s = length d + pending rs t"
    using recs_append[of "seqdone s" "seqdone t" "Suc (length rs)" rs] t by (simp add: pending_def tr_inv_def flip: length_append)
  ultimately show ?thesis using s t(1) assms(3-5) unfolding draining_def by simp
qed

lemma recs_length_mono: "b \<le> e \<Longrightarrow> e \<le> e' \<Longrightarrow> length (recs rs b e) \<le> length (recs rs b e')"
  using recs_append[of b e e' rs] by (metis le_add1 length_append)

lemma held_le: "tr_inv rs s \<Longrightarrow> k \<in> held s \<Longrightarrow> k \<le> length rs"
  unfolding held_def ring_keys_def tr_inv_def rings_ok_def entry_ok_def by auto

section \<open>Reading to the end\<close>

lemma flush_drains:
  assumes "draining rs C room s" "vtss_transport_temp_flush room s = (d, t)"
  shows "draining rs C (room - length d) t \<and> seqdone t \<notin> keys (head t) \<and> rb t = rb s"
proof -
  have s: "tr_inv rs s" "\<not> is_abort s" "is_complete s \<noteq> 0" "pending rs s + VTSS_RING_BUFFER_PAGE_SIZE \<le> room"
    using assms(1) unfolding draining_def by blast+
  note f = flush_stepped[OF s(1) assms(2), of "\<lambda>_. True"]
  have u: "uses s 0 (rb s) t" using assms(2) s(2) temp_flush_le[of "seqdone s" room "head s" "npages s"]
    by (auto simp: vtss_transport_temp_flush_def uses_def split_beta Let_def)
  then have "potential C t \<le> potential C s" by (simp add: potential_def uses_def)
  then have "draining rs C (room - length d) t" using drained_step[OF assms(1) f[THEN conjunct1]] u s(2,3) by (simp add: uses_def)
  moreover have "\<not> (\<exists>e > seqdone t. {seqdone s ..< e} \<subseteq> held s \<and> room < length (recs rs (seqdone s) e))"
  proof
    assume "\<exists>e > seqdone t. {seqdone s ..< e} \<subseteq> held s \<and> room < length (recs rs (seqdone s) e)"
    then obtain e where e: "seqdone t < e" "{seqdone s ..< e} \<subseteq> held s" "room < length (recs rs (seqdone s) e)" by blast
    have st: "seqdone s \<le> seqdone t" using f unfolding stepped_def by blast
    then have "e - 1 \<in> held s" using e(1,2) by auto
    then have "e \<le> Suc (length rs)" using held_le[OF s(1)] by fastforce
    then show False using recs_length_mono[of "seqdone s" e "Suc (length rs)" rs] e(1,3) st s(4) by (simp add: pending_def)
  qed
  then have "seqdone t \<notin> keys (head t)" using f[THEN conjunct2, THEN conjunct2] s(2) by blast
  ultimately show ?thesis using u by (simp add: uses_def)
qed

text \<open>The environment of a read that is not short of memory.\<close>

definition plenty :: "read_env \<Rightarrow> bool" where
  "plenty e = ((\<forall>k. temp_alloc e k) \<and> (\<forall>i. \<forall>cpu \<in> set (online e). page_alloc e i cpu \<and> page_events e i cpu \<noteq> Some 0))"

lemma plenty_alloc: "plenty e \<Longrightarrow> temp_alloc e = (\<lambda>_. True)"
  by (auto simp: plenty_def)

lemma check_memory_drains:
  assumes "draining rs C room s" "finite C" "check_memory fast0 s = (fast, t)"
  shows "draining rs C room t \<and> rb t = rb s"
proof -
  have "0 \<le> (\<Sum>c \<in> C. needs (rb s c))" unfolding needs_def using need_ge by (intro sum_nonneg sum_list_nonneg) auto
  then have np: "npages s \<le> int VTSS_MERGE_MEM_LIMIT" using assms(1) by (simp add: draining_def potential_def)
  then have c: "same_core t s" "is_complete t = is_complete s" "npages t = npages s" using assms(3) by (auto simp: check_memory_def same_core_def split: if_splits)
  then have "potential C t = potential C s" "pending rs t = pending rs s" by (simp_all add: potential_def pending_def same_core_def)
  then show ?thesis using assms(1) c same_core_inv[OF c(1), of rs] same_core_held[OF c(1)] by (simp add: draining_def same_core_def)
qed

lemma read_cpu_drains:
  assumes s: "draining rs C room s" "seqdone s \<notin> keys (head s)" and e: "plenty e" "cpu \<in> set (online e)" and C: "finite C" "cpu \<in> C"
  shows "\<exists>fast d room' t n. read_cpu e i cpu fast0 room s = ((Go_On, fast), d, room', t) \<and> draining rs C room' t \<and> seqdone t \<notin> keys (head t) \<and>
    1 \<le> n \<and> rb t = (rb s)(cpu := drop n (rb s cpu))"
proof (cases "rb s cpu")
  case Nil
  then have "(rb s)(cpu := drop 1 (rb s cpu)) = rb s" by (simp add: fun_upd_idem)
  then show ?thesis using s Nil by (auto simp: read_cpu_def intro: exI[where x = 1])
next
  case (Cons x xs)
  have skip: "\<not> skip_cpu cpu s" using s(1) by (simp add: skip_cpu_def running_def draining_def)
  obtain fast t where c: "check_memory fast0 s = (fast, t)" by (cases "check_memory fast0 s")
  have t: "draining rs C room t" "rb t = rb s" using check_memory_drains[OF s(1) C(1) c] by simp_all
  obtain d room' u where r: "read_entries e i cpu fast room t = (d, room', u)" by (cases "read_entries e i cpu fast room t")
  have pe: "page_alloc e i cpu" "page_events e i cpu \<noteq> Some 0" using e by (simp_all add: plenty_def)
  have ti: "tr_inv rs t" "is_complete t \<noteq> 0" "\<not> is_abort t" using t(1) by (simp_all add: draining_def)
  obtain n where n: "1 \<le> n" "uses t (needs (take n (rb t cpu))) ((rb t)(cpu := drop n (rb t cpu))) u"
    using read_entries_uses[OF ti(2) pe(2), of fast room] r by (metis snd_conv)
  have ru: "stepped rs (\<lambda>_. True) {} t d u" "room' = room - length d"
    using read_entries_ok[OF ti(1), of e room i cpu fast] r plenty_alloc[OF e(1)] by (simp_all add: read_ok_def)
  have u: "draining rs C room' u" using drained_step[OF t(1) ru(1)] n(2) ti potential_falls[OF C n(2)] ru(2) by (simp add: uses_def)
  obtain d' v where f: "vtss_transport_temp_flush room' u = (d', v)" by (cases "vtss_transport_temp_flush room' u")
  have v: "draining rs C (room' - length d') v" "seqdone v \<notin> keys (head v)" "rb v = rb u" using flush_drains[OF u f] by simp_all
  have "\<not> room' - length d' < VTSS_RING_BUFFER_PAGE_SIZE" using v(1) by (simp add: draining_def)
  then have "read_cpu e i cpu fast0 room s = ((Go_On, fast), d @ d', room' - length d', v)"
    using Cons skip c pe(1) r f by (simp add: read_cpu_def Let_def)
  moreover have "rb v = (rb s)(cpu := drop n (rb s cpu))" using v(3) n(2) t(2) by (simp add: uses_def)
  ultimately show ?thesis using v n(1) by blast
qed

lemma read_cpus_drains:
  assumes "draining rs (set (online e)) room s" "seqdone s \<notin> keys (head s)" "plenty e" "set cpus \<subseteq> set (online e)"
  shows "\<exists>d room' t. read_cpus e i cpus fast room s = (Go_On, d, room', t) \<and> draining rs (set (online e)) room' t \<and> seqdone t \<notin> keys (head t) \<and>
    (\<forall>c. length (rb t c) \<le> length (rb s c)) \<and> (\<forall>c \<in> set cpus. length (rb t c) \<le> length (rb s c) - 1)"
  using assms
proof (induction cpus arbitrary: fast room s)
  case (Cons cpu cpus)
  obtain fast' d room' t n where r: "read_cpu e i cpu fast room s = ((Go_On, fast'), d, room', t)" "draining rs (set (online e)) room' t" "seqdone t \<notin> keys (head t)"
    "1 \<le> n" "rb t = (rb s)(cpu := drop n (rb s cpu))"
    using read_cpu_drains[OF Cons.prems(1-3), of cpu i fast] Cons.prems(4) by auto
  obtain d' room'' u where u: "read_cpus e i cpus fast' room' t = (Go_On, d', room'', u)" "draining rs (set (online e)) room'' u" "seqdone u \<notin> keys (head u)"
    "\<forall>c. length (rb u c) \<le> length (rb t c)" "\<forall>c \<in> set cpus. length (rb u c) \<le> length (rb t c) - 1"
    using Cons.IH[OF r(2,3) Cons.prems(3), of fast'] Cons.prems(4) by auto
  have le: "length (rb t c) \<le> length (rb s c)" for c using r(5) by simp
  have "length (rb t cpu) \<le> length (rb s cpu) - 1" using r(4,5) by simp
  then have "length (rb u cpu) \<le> length (rb s cpu) - 1" using u(4) by (meson le_trans)
  moreover have "\<forall>c \<in> set cpus. length (rb u c) \<le> length (rb s c) - 1" using u(5) le by (meson diff_le_mono le_trans)
  moreover have "\<forall>c. length (rb u c) \<le> length (rb s c)" using u(4) le by (meson le_trans)
  ultimately show ?case using r(1) u(1-3) by simp
qed simp

lemma draining_empty: "draining rs C room s \<Longrightarrow> VTSS_TRANSPORT_IS_EMPTY s \<longleftrightarrow> seqdone s = Suc (length rs)"
  by (auto simp: draining_def tr_inv_def VTSS_TRANSPORT_IS_EMPTY_def ahead_def)

lemma read_loop_drains:
  assumes "draining rs (set (online e)) room s" "seqdone s \<notin> keys (head s)" "plenty e"
  shows "\<exists>d room' t. read_loop e is room s = (Go_On, d, room', t) \<and> draining rs (set (online e)) room' t \<and> seqdone t \<notin> keys (head t) \<and>
    (seqdone t = Suc (length rs) \<or> (\<forall>c \<in> set (online e). length (rb t c) \<le> length (rb s c) - length is)) \<and> (\<forall>c. length (rb t c) \<le> length (rb s c))"
  using assms
proof (induction "is" arbitrary: room s)
  case (Cons i "is")
  show ?case
  proof (cases "VTSS_TRANSPORT_IS_EMPTY s")
    case True
    then show ?thesis using Cons.prems draining_empty[OF Cons.prems(1)] by simp
  next
    case False
    obtain d room' t where r: "read_cpus e i (online e) True room s = (Go_On, d, room', t)" "draining rs (set (online e)) room' t" "seqdone t \<notin> keys (head t)"
      "\<forall>c. length (rb t c) \<le> length (rb s c)" "\<forall>c \<in> set (online e). length (rb t c) \<le> length (rb s c) - 1"
      using read_cpus_drains[OF Cons.prems, of "online e" i True] by auto
    obtain d' room'' u where u: "read_loop e is room' t = (Go_On, d', room'', u)" "draining rs (set (online e)) room'' u" "seqdone u \<notin> keys (head u)"
      "seqdone u = Suc (length rs) \<or> (\<forall>c \<in> set (online e). length (rb u c) \<le> length (rb t c) - length is)" "\<forall>c. length (rb u c) \<le> length (rb t c)"
      using Cons.IH[OF r(2,3) Cons.prems(3)] by auto
    have "seqdone u = Suc (length rs) \<or> (\<forall>c \<in> set (online e). length (rb u c) \<le> length (rb s c) - length (i # is))"
      using u(4) r(5) by fastforce
    moreover have "\<forall>c. length (rb u c) \<le> length (rb s c)" using u(5) r(4) by (meson le_trans)
    moreover have "VTSS_RING_BUFFER_PAGE_SIZE \<le> room" using Cons.prems(1) by (simp add: draining_def)
    ultimately show ?thesis using r(1) u(1-3) False by simp
  qed
qed simp

lemma read_drains:
  assumes "draining rs (set (online e)) len s" "plenty e" "\<forall>c. c \<notin> set (online e) \<longrightarrow> rb s c = []"
    "\<forall>c. length (rb s c) \<le> 30 * length (online e)"
  shows "\<exists>t. vtss_transport_read e nonblock len s = (Read_Data (recs rs (seqdone s) (Suc (length rs))), t)"
proof -
  have s: "tr_inv rs s" "is_complete s \<noteq> 0" using assms(1) by (simp_all add: draining_def)
  let ?is = "[0 ..< 30 * length (online e)]"
  obtain d t where f: "vtss_transport_temp_flush len s = (d, t)" by (cases "vtss_transport_temp_flush len s")
  have t: "draining rs (set (online e)) (len - length d) t" "seqdone t \<notin> keys (head t)" "rb t = rb s" using flush_drains[OF assms(1) f] by simp_all
  obtain d' room u where l: "read_loop e ?is (len - length d) t = (Go_On, d', room, u)" "draining rs (set (online e)) room u" "seqdone u \<notin> keys (head u)"
    "seqdone u = Suc (length rs) \<or> (\<forall>c \<in> set (online e). length (rb u c) \<le> length (rb t c) - length ?is)" "\<forall>c. length (rb u c) \<le> length (rb t c)"
    using read_loop_drains[OF t(1,2) assms(2), of ?is] by auto
  have fin: "seqdone u = Suc (length rs)"
  proof (cases "\<forall>c. rb u c = []")
    case True
    then have "held u = keys (head u)" by (simp add: held_def ring_keys_def)
    then have "seqdone u \<notin> {seqdone u .. length rs}" using l(2,3) unfolding draining_def by blast
    then show ?thesis using l(2) by (auto simp: draining_def tr_inv_def)
  next
    case False
    then obtain c where c: "rb u c \<noteq> []" by blast
    have "c \<in> set (online e)" using c assms(3) l(5) t(3) by (metis le_zero_eq length_0_conv)
    moreover have "length (rb t c) - length ?is = 0" using assms(4) t(3) by simp
    ultimately show ?thesis using l(4) c by fastforce
  qed
  have r: "vtss_transport_read e nonblock len s = (Read_Data (d @ d'), u\<lparr>is_overflow := 0\<rparr>)"
    using s(2) f l(1,2) by (simp add: vtss_transport_read_def running_def draining_def)
  have "seqdone (u\<lparr>is_overflow := 0\<rparr>) = Suc (length rs)" using fin by simp
  then show ?thesis using vtss_transport_read_stepped[OF s(1) r] unfolding stepped_def by (simp add: r)
qed

text \<open>With memory at every read, nothing is lost before an abort.\<close>

fun whole :: "history \<Rightarrow> bool" where
  "whole (rs, out, es, s) = (is_abort s \<or> {seqdone s .. length rs} \<subseteq> held s \<union> fst ` set es)"

fun supplied :: "trn_event \<Rightarrow> bool" where
  "supplied (Reads e nonblock len) = (\<forall>k. temp_alloc e k)"
| "supplied _ = True"

lemma same_core_whole: "same_core t s \<Longrightarrow> whole (rs, out, es, s) \<Longrightarrow> whole (rs, out, es, t)"
  using same_core_held[of t s rs] by (simp add: same_core_def)

lemma whole_step: "history_ok h \<Longrightarrow> whole h \<Longrightarrow> supplied ev \<Longrightarrow> whole (trn_step ev h)"
proof (cases "(ev, h)" rule: trn_step.cases)
  case (1 ring_ok mem_ok r rs out es s)
  assume h: "history_ok h" "whole h"
  obtain x t where r: "vtss_transport_record_reserve ring_ok mem_ok r s = (x, t)" by (cases "vtss_transport_record_reserve ring_ok mem_ok r s")
  show ?thesis
  proof (cases x)
    case None
    then have "same_core t s" using reserve_cases[OF r] by simp
    then show ?thesis using same_core_whole[of t s rs out es] h(2) 1 r None by (simp del: whole.simps)
  next
    case (Some e)
    then have e: "held t = held s" "seqdone t = seqdone s" "is_abort t = is_abort s" "fst e = Suc (length rs)"
      using reserve_history[of rs out es s ring_ok mem_ok r e t] h 1 r by simp_all
    have "{seqdone s .. Suc (length rs)} \<subseteq> insert (Suc (length rs)) {seqdone s .. length rs}" by auto
    then show ?thesis using h(2) e 1 r Some by auto
  qed
next
  case (2 j cpu rs out es s)
  assume h: "history_ok h" "whole h"
  show ?thesis
  proof (cases "j < length es")
    case True
    have c: "held (vtss_transport_record_commit cpu (es ! j) s) = insert (fst (es ! j)) (held s)" using commit_entry[of rs s es j cpu] h(1) 2 True by simp
    have "es = take j es @ es ! j # drop (Suc j) es" using True by (simp add: id_take_nth_drop)
    then have "set es = insert (es ! j) (set (take j es @ drop (Suc j) es))" by (metis list.set(2) set_append Un_insert_right)
    then have "fst ` set es = insert (fst (es ! j)) (fst ` set (take j es @ drop (Suc j) es))" by (simp only: image_insert)
    then have "whole (rs, out, take j es @ drop (Suc j) es, vtss_transport_record_commit cpu (es ! j) s)"
      using h(2) 2 unfolding whole.simps c by (simp add: vtss_transport_record_commit_def del: set_append)
    then show ?thesis using 2 True by (simp del: whole.simps)
  qed (use h 2 in simp)
next
  case (3 e nonblock len rs out es s)
  assume h: "history_ok h" "whole h" and m: "supplied ev"
  obtain res t where r: "vtss_transport_read e nonblock len s = (res, t)" by (cases "vtss_transport_read e nonblock len s")
  have i: "tr_inv rs s" "whole (rs, out, es, s)" and "\<forall>k. temp_alloc e k" using h m 3 by simp_all
  then have st: "is_abort s \<longrightarrow> is_abort t" "is_abort t \<or> held s \<subseteq> held t \<union> {seqdone s ..< seqdone t}" "seqdone s \<le> seqdone t"
    using vtss_transport_read_stepped[OF i(1) r] unfolding stepped_def by auto
  have "is_abort t \<or> {seqdone t .. length rs} \<subseteq> held t \<union> fst ` set es"
  proof (cases "is_abort t")
    case False
    then have s: "{seqdone s .. length rs} \<subseteq> held s \<union> fst ` set es" "held s \<subseteq> held t \<union> {seqdone s ..< seqdone t}" using st i(2) by auto
    have "k \<in> held t \<union> fst ` set es" if "k \<in> {seqdone t .. length rs}" for k
    proof -
      have "k \<in> {seqdone s .. length rs}" "k \<notin> {seqdone s ..< seqdone t}" using that st(3) by simp_all
      then show ?thesis using s by blast
    qed
    then show ?thesis by blast
  qed simp
  then show ?thesis using 3 r by simp
qed (auto simp del: whole.simps intro: quiet_events[THEN same_core_whole])

lemma whole_run: "history_ok h \<Longrightarrow> whole h \<Longrightarrow> \<forall>ev \<in> set evs. supplied ev \<Longrightarrow> whole (trn_run evs h)"
  unfolding trn_run_def
proof (induction evs arbitrary: h)
  case (Cons ev evs)
  then show ?case using whole_step[OF Cons.prems(1,2), of ev] trn_step_ok[OF Cons.prems(1), of ev] by simp
qed simp

lemma whole_start: "whole (trn_start np)"
  by (simp add: trn_start_def vtss_transport_create_trnd_def)

section \<open>Two histories\<close>

text \<open>Two writers on two CPUs, the second of which commits first; and a second CPU whose first record is lost.\<close>

definition two_writers :: "trn_event list" where
  "two_writers = [Reserve True True [1], Reserve True True [2], Commit 1 1, Commit 0 0, Completes]"

definition three_records :: "trn_event list" where
  "three_records = [Reserve True True [1], Reserve True True [2], Reserve True True [3], Commit 0 0, Commit 0 1, Commit 0 1, Completes]"

definition two_cpus :: "(nat \<Rightarrow> bool) \<Rightarrow> read_env" where
  "two_cpus mem = \<lparr>online = [1, 0], page_alloc = \<lambda>_ _. True, page_events = \<lambda>_ _. Some 5, temp_alloc = mem\<rparr>"

lemmas write_simps = vtss_transport_record_reserve_def vtss_transport_record_commit_def vtss_transport_complete_def
  vtss_transport_create_trnd_def trn_run_def trn_start_def VTSS_TRANSPORT_MAX_RESERVE_SIZE_def VTSS_RING_BUFFER_PAGE_SIZE_def sizeof_entry_def

lemmas read_simps = vtss_transport_read_def VTSS_TRANSPORT_DATA_READY_def VTSS_TRANSPORT_IS_EMPTY_def ahead_def read_cpu_def read_entries_def
  check_memory_def skip_cpu_def running_def vtss_transport_temp_parse_event_def store_payload_def temp_store_data_def vtss_transport_temp_flush_def
  VTSS_MERGE_MEM_LIMIT_def PAGE_SIZE_def sizeof_temp_def seek.simps take_out.simps temp_flush_loop.simps get_order.simps fits_def pages_def

lemma first_round: "[0 ..< 60] = (0 :: nat) # [1 ..< 60]"
  by (simp add: upt_rec)

lemma two_writers_run: "trn_run two_writers (trn_start 0) = ([[1], [2]], [], [],
    \<lparr>head = No_Temp, seqdone = 1, seqcpu = (\<lambda>_. 0), seqnum = Suc 1, is_abort = False, is_complete = 1, is_attached = 0, is_overflow = 0,
     loscount = 0, npages = 0, rb = (\<lambda>_. [])(1 := [(Suc 1, Inline [2])], 0 := [(1, Inline [1])]), rb_enabled = True\<rparr>)"
  by (simp add: write_simps two_writers_def)

lemma three_records_run: "trn_run (three_records @ [Reads (two_cpus (\<lambda>k. k \<noteq> 2)) False 4080]) (trn_start 0) = ([[1], [2], [3]], [1], [],
    \<lparr>head = Temp No_Temp 3 4 [3] 0 No_Temp, seqdone = 2, seqcpu = (\<lambda>_. 0)(1 := Suc (Suc 1), 0 := 1), seqnum = 3, is_abort = False, is_complete = 1,
     is_attached = 0, is_overflow = 0, loscount = 0, npages = 1, rb = (\<lambda>_. [])(1 := [], 0 := []), rb_enabled = True\<rparr>)"
  by (simp add: write_simps read_simps two_cpus_def three_records_def first_round)

section \<open>Properties\<close>

text \<open>
  C10: what reaches a reader's memory from a transport that takes fewer than 2^31 records (so that their numbers are
  exact in 32 bits). In whatever order writers on any CPUs reserve and commit and
  between reads of any length, whatever memory is refused, the bytes of records that the reads copy, together, are
  the concatenation of the accepted records up to
  \<open>seqdone\<close>, in the order of their numbers, each whole and once. If no read answers \<open>-EFAULT\<close> after it has copied
  something, these are exactly the bytes that the reads return, apart from the magic words of a read that found nothing;
  the bytes copied by a read that then fails are not reported to the reader, and are not copied again.
\<close>

theorem transport_in_order:
  assumes "trn_run evs (trn_start np) = (rs, out, es, s)" "length rs < 2 ^ 31"
  shows "1 \<le> seqdone s \<and> seqdone s \<le> length rs + 1 \<and> (\<forall>k \<le> length rs. unat (atomic_seqnum k) = k) \<and>
    concat (map copied_bytes (answers evs (trn_start np))) = concat (take (seqdone s - 1) rs) \<and>
    ((\<forall>d. Read_Fault d \<in> set (answers evs (trn_start np)) \<longrightarrow> d = []) \<longrightarrow>
      concat (map returned_bytes (filter (\<lambda>a. a \<noteq> Read_Magic) (answers evs (trn_start np)))) = concat (take (seqdone s - 1) rs))"
proof -
  have h: "tr_inv rs s" "out = recs rs 1 (seqdone s)" using trn_run_start[OF assms(1)] by simp_all
  have q: "1 \<le> seqdone s" "seqdone s \<le> length rs + 1" using h(1) by (simp_all add: tr_inv_def)
  have o: "out = concat (take (seqdone s - 1) rs)" using recs_take[of "seqdone s - 1" rs] h(2) q by simp
  have a: "out = concat (map copied_bytes (answers evs (trn_start np)))"
    using copied_answers[of evs "[]" "[]" "[]" "vtss_transport_create_trnd np"] assms(1) by (simp add: trn_start_def)
  have "\<forall>k \<le> length rs. unat (atomic_seqnum k) = k" using atomic_seqnum_exact assms(2) by (meson le_less_trans)
  then show ?thesis using q o a returned_copied[of "answers evs (trn_start np)"] by simp
qed

theorem transport_in_order_witness:
  "let evs = two_writers @ [Reads (two_cpus (\<lambda>_. True)) False 4080]; (rs, out, es, s) = trn_run evs (trn_start 0)
   in rs = [[1], [2]] \<and> out = [1, 2] \<and> concat (map copied_bytes (answers evs (trn_start 0))) = concat (take (seqdone s - 1) rs)"
proof -
  obtain rs out es s where h: "trn_run (two_writers @ [Reads (two_cpus (\<lambda>_. True)) False 4080]) (trn_start 0) = (rs, out, es, s)"
    by (metis prod_cases4)
  have "fst (trn_run (two_writers @ [Reads (two_cpus (\<lambda>_. True)) False 4080]) (trn_start 0)) = [[1], [2]] \<and>
      fst (snd (trn_run (two_writers @ [Reads (two_cpus (\<lambda>_. True)) False 4080]) (trn_start 0))) = [1, 2]"
    by (simp add: write_simps read_simps two_cpus_def two_writers_def first_round)
  then have "rs = [[1], [2]]" "out = [1, 2]" unfolding h fst_conv snd_conv by blast+
  then show ?thesis using transport_in_order[OF h] unfolding h Let_def by simp
qed

text \<open>
  C38: a record that is lost while it is put into the tree, because there are no pages for it, stops the
  transport: whatever is written and read later, the reader gets no byte of it or of any later record.
\<close>

theorem transport_gap_blocks:
  assumes "trn_run evs (trn_start np) = (rs, out, es, s)" "seqdone s \<le> k" "k \<le> length rs"
    "k \<notin> keys (head s)" "\<forall>c. k \<notin> fst ` set (rb s c)" "k \<notin> fst ` set es"
    "trn_run evs' (rs, out, es, s) = (rs', out', es', s')"
  shows "\<exists>later. out' @ later = concat (take (k - 1) rs)"
proof -
  have h: "history_ok (rs, out, es, s)" by (rule trn_run_start[OF assms(1)])
  have "lost k (rs, out, es, s)" using assms(2-6) by (auto simp: held_def ring_keys_def)
  from lost_run[OF h this, of evs'] have l: "lost k (rs', out', es', s')" "take (k - 1) rs' = take (k - 1) rs" unfolding assms(7) by simp_all
  have "history_ok (rs', out', es', s')" using trn_run_ok[OF h, of evs'] unfolding assms(7) .
  then have o: "out' = recs rs' 1 (seqdone s')" "1 \<le> seqdone s'" by (simp_all add: tr_inv_def)
  have k: "seqdone s' \<le> k" "k \<le> length rs'" "1 \<le> k" using l(1) o(2) by simp_all
  have "out' @ recs rs' (seqdone s') k = recs rs' 1 k" using recs_append[of 1 "seqdone s'" k rs'] o k by simp
  also have "\<dots> = concat (take (k - 1) rs)" using recs_take[of "k - 1" rs'] k l(2) by simp
  finally show ?thesis by blast
qed

theorem transport_gap_blocks_witness:
  "\<exists>later. fst (snd (trn_run [Reads (two_cpus (\<lambda>_. True)) False 9000]
     (trn_run (three_records @ [Reads (two_cpus (\<lambda>k. k \<noteq> 2)) False 4080]) (trn_start 0)))) @ later = [1]"
proof -
  obtain rs' out' es' s' where h: "trn_run [Reads (two_cpus (\<lambda>_. True)) False 9000]
     (trn_run (three_records @ [Reads (two_cpus (\<lambda>k. k \<noteq> 2)) False 4080]) (trn_start 0)) = (rs', out', es', s')" by (metis prod_cases4)
  from transport_gap_blocks[OF three_records_run _ _ _ _ _ h[unfolded three_records_run], of 2] h show ?thesis by simp
qed

text \<open>
  C28: when a transport is complete, not aborted and no commit is outstanding, and reads always had memory,
  one read by a reader with enough room (and within the limits of memory and rounds) hands out all that is
  left: together with what it got before, the reader has every accepted record.
\<close>

theorem transport_drains:
  assumes "trn_run evs (trn_start np) = (rs, out, [], s)" "\<forall>ev \<in> set evs. supplied ev" "is_complete s \<noteq> 0" "\<not> is_abort s"
    "plenty e" "\<forall>c. c \<notin> set (online e) \<longrightarrow> rb s c = []" "\<forall>c. length (rb s c) \<le> 30 * length (online e)"
    "length (concat rs) - length out + VTSS_RING_BUFFER_PAGE_SIZE \<le> len" "potential (set (online e)) s \<le> int VTSS_MERGE_MEM_LIMIT"
  shows "\<exists>d t. vtss_transport_read e nonblock len s = (Read_Data d, t) \<and> out @ d = concat rs"
proof -
  have h: "tr_inv rs s" "out = recs rs 1 (seqdone s)" using trn_run_start[OF assms(1)] by simp_all
  have w: "{seqdone s .. length rs} \<subseteq> held s" using whole_run[OF start_ok whole_start assms(2), of np] assms(1,4) by simp
  have q: "1 \<le> seqdone s" "seqdone s \<le> Suc (length rs)" using h(1) by (simp_all add: tr_inv_def)
  have all: "out @ recs rs (seqdone s) (Suc (length rs)) = concat rs"
    using recs_append[OF q, of rs] recs_take[of "length rs" rs] h(2) by simp
  then have "length (concat rs) = length out + pending rs s" unfolding pending_def by (metis length_append)
  then have "draining rs (set (online e)) len s" using h(1) w assms(3,4,8,9) by (simp add: draining_def)
  from read_drains[OF this assms(5-7), of nonblock] show ?thesis using all by blast
qed

theorem transport_drains_witness:
  "\<exists>t. vtss_transport_read (two_cpus (\<lambda>_. True)) False 5000 (snd (snd (snd (trn_run two_writers (trn_start 0))))) = (Read_Data [1, 2], t)"
proof -
  have "needs [(Suc 1, Inline [2])] = 1" "needs [(1, Inline [1])] = 1" by (simp_all add: get_order.simps PAGE_SIZE_def sizeof_temp_def pages_def)
  then show ?thesis
    using transport_drains[OF two_writers_run, of "two_cpus (\<lambda>_. True)" 5000 False] two_writers_run
    by (simp add: two_writers_def two_cpus_def plenty_def potential_def VTSS_RING_BUFFER_PAGE_SIZE_def VTSS_MERGE_MEM_LIMIT_def)
qed

end
