(* ===== verification/StackMap.thy ===== *)
theory StackMap
  imports Pages
begin

text \<open>
  Stack sampling of VTSS++: vtsspp/unwind.c and the user part of \<open>vtss_stack_dump\<close> in vtsspp/stack.c.
  A buffer of pages has two halves. One holds the stack map, the frame pointers and return addresses found on the
  stack of a task with the places they were found at; the other takes the compressed record, or the next map.
\<close>

section \<open>The stack map\<close>

record stkmap =
  m_sp :: u64
  m_value :: u64

text \<open>Where \<open>stkmap_start\<close> and \<open>compressed\<close> point: both to the upper half, or to different halves.\<close>

datatype place = Shared | Map_Upper | Map_Lower

text \<open>
  \<open>smap\<close> is what lies between \<open>stkmap_start\<close> and \<open>stkmap_end\<close>, \<open>common\<close> the index of \<open>stkmap_common\<close>. After a failed
  \<open>unwind\<close> the map is not looked at before it is cleared.
\<close>

record stack_control =
  buffer :: bool
  buf_size :: nat
  place :: place
  smap :: "stkmap list"
  common :: nat
  user_ip :: u64
  user_sp :: u64
  bp :: u64
  user_fp :: u64
  wow64 :: bool

definition VTSS_DYNSIZE_STACKS :: nat where "VTSS_DYNSIZE_STACKS = 0x1000"
definition IP_SEARCH_RANGE :: nat where "IP_SEARCH_RANGE = 8"
definition VTSS_STACK_LIMIT :: nat where "VTSS_STACK_LIMIT = 0x200000"
definition sizeof_stkmap :: nat where "sizeof_stkmap = 16"

definition clear_stack :: "stack_control \<Rightarrow> stack_control" where
  "clear_stack s = s\<lparr>place := Shared, smap := [], common := 0\<rparr>"

text \<open>The result is whether the return code is 0; otherwise it is \<open>VTSS_ERR_NOMEMORY\<close>.\<close>

definition realloc_stack :: "bool \<Rightarrow> stack_control \<Rightarrow> bool \<times> stack_control" where
  "realloc_stack pages_ok s = (let len = (if buffer s then buf_size s else VTSS_DYNSIZE_STACKS) in
     if len > 16 * VTSS_DYNSIZE_STACKS \<or> \<not> pages_ok then (False, s)
     else (True, clear_stack (s\<lparr>buffer := True, buf_size := PAGE_SIZE * 2 ^ get_order (len + len)\<rparr>)))"

definition vtss_init_stack :: "bool \<Rightarrow> bool \<times> stack_control" where
  "vtss_init_stack pages_ok = realloc_stack pages_ok \<lparr>buffer = False, buf_size = 0, place = Shared, smap = [], common = 0,
     user_ip = 0, user_sp = 0, bp = 0, user_fp = 0, wow64 = False\<rparr>"

definition destroy_stack :: "stack_control \<Rightarrow> stack_control" where
  "destroy_stack s = (if buffer s then s\<lparr>buffer := False, buf_size := 0\<rparr> else s)"

definition augment_stack :: "stack_control \<Rightarrow> stack_control" where
  "augment_stack s = s\<lparr>common := length (smap s)\<rparr>"

definition is_full_stack :: "stack_control \<Rightarrow> bool" where
  "is_full_stack s = (common s = length (smap s))"

section \<open>Unwinding\<close>

text \<open>The methods of \<open>stk->acc\<close>: reading a number of bytes at an address, and telling a code address.\<close>

record 'a vm =
  vm_read :: "nat \<Rightarrow> 'a \<Rightarrow> u64 \<Rightarrow> u64 option \<times> 'a"
  vm_validate :: "'a \<Rightarrow> u64 \<Rightarrow> bool"

definition stride :: "bool \<Rightarrow> nat" where
  "stride w = (if w then 4 else 8)"

text \<open>Rounding up to a machine word, as the code writes it.\<close>

definition align_sp :: "bool \<Rightarrow> u64 \<Rightarrow> u64" where
  "align_sp w t = (let n = of_nat (stride w) in t + ((n - (t AND (n - 1))) AND (if t AND (n - 1) = 0 then 0 else - 1)))"

text \<open>
  A code address in the words from \<open>p\<close> up to \<open>lim\<close>: \<open>Some True\<close> if there is one, \<open>None\<close> if a read fails.
\<close>

function search_ips :: "'a vm \<Rightarrow> bool \<Rightarrow> u64 \<Rightarrow> u64 \<Rightarrow> 'a \<Rightarrow> (bool option \<times> 'a) option" where
  "search_ips vm w lim p a =
     (if p < lim then case vm_read vm (stride w) a p of
          (None, a) \<Rightarrow> Some (None, a)
        | (Some v, a) \<Rightarrow> (if vm_validate vm a v then Some (Some True, a)
            else (case ptr_add p (stride w) of None \<Rightarrow> None | Some p \<Rightarrow> search_ips vm w lim p a))
      else Some (Some False, a))"
  by pat_completeness auto
termination
  by (relation "measure (\<lambda>(vm, w, lim, p, a). 2 ^ 64 - unat p)") (auto dest!: ptr_add_unat simp: stride_def intro!: diff_less_mono2 unat_lt_u64)

declare search_ips.simps [simp del]

text \<open>
  The border between the changed and the unchanged part of the map: the index of the last element that changed, if any.
  The inner \<open>None\<close> is a failed read.
\<close>

fun changed :: "'a vm \<Rightarrow> bool \<Rightarrow> u64 \<Rightarrow> u64 \<Rightarrow> stkmap list \<Rightarrow> nat \<Rightarrow> nat option \<Rightarrow> 'a \<Rightarrow> (nat option option \<times> 'a) option" where
  "changed vm w sp base [] i border a = Some (Some border, a)"
| "changed vm w sp base (e # es) i border a =
     (if m_sp e < sp then changed vm w sp base es (i + 1) (Some i) a
      else case vm_read vm (stride w) a (m_sp e) of
        (None, a) \<Rightarrow> Some (None, a)
      | (Some v, a) \<Rightarrow>
          if m_value e \<noteq> v then changed vm w sp base es (i + 1) (Some i) a
          else if es = [] \<or> \<not> (v < sp \<or> v \<ge> base) then changed vm w sp base es (i + 1) border a
          else do { far \<leftarrow> ptr_add (m_sp e) (IP_SEARCH_RANGE * stride w);
            from \<leftarrow> ptr_add (m_sp e) (stride w);
            (r, a) \<leftarrow> search_ips vm w (min (m_sp (hd es)) far) from a;
            case r of None \<Rightarrow> Some (None, a)
            | Some hit \<Rightarrow> changed vm w sp base es (i + 1) (if hit then Some i else border) a })"

text \<open>The start of the next page.\<close>

definition next_page :: "u64 \<Rightarrow> u64 option" where
  "next_page p = (case ptr_add p PAGE_SIZE of None \<Rightarrow> None | Some q \<Rightarrow> Some (q AND NOT (of_nat (PAGE_SIZE - 1))))"

lemma page_bits: "of_nat (PAGE_SIZE - 1) = (mask 12 :: u64)"
  by (simp add: PAGE_SIZE_def mask_eq_exp_minus_1)

lemma unat_page_start: "unat (p AND NOT (of_nat (PAGE_SIZE - 1)) :: u64) = unat p - unat p mod 4096"
proof -
  have "p AND NOT (mask 12) = p - (p AND mask 12)"
    by (subst disjunctive_diff_eq_and_not [of p "p AND mask 12"]) (auto simp: bit_eq_iff bit_simps)
  moreover have "unat (p AND mask 12) = unat p mod 4096" by (simp add: take_bit_eq_mask [symmetric] take_bit_eq_mod unat_mod)
  moreover have "p AND mask 12 \<le> p" by (simp add: word_and_le2)
  ultimately show ?thesis unfolding page_bits by (simp add: unat_sub)
qed

lemma next_page_unat: "next_page p = Some q \<Longrightarrow> unat q = unat p - unat p mod 4096 + 4096 \<and> unat p < unat q"
  using ptr_add_unat[of p PAGE_SIZE] unat_page_start
  by (auto simp: next_page_def PAGE_SIZE_def split: option.splits)

text \<open>
  The scan of the stack from \<open>p\<close> to \<open>border\<close>. \<open>room\<close> is what the map has left in bytes; \<open>None\<close> inside is \<open>VTSS_ERR_NOMEMORY\<close>.
\<close>

definition map_value :: "'a vm \<Rightarrow> bool \<Rightarrow> u64 \<Rightarrow> 'a \<Rightarrow> u64 \<Rightarrow> u64 \<Rightarrow> bool" where
  "map_value vm w base a p v = (if v < p \<or> v \<ge> base then vm_validate vm a v else v AND of_nat (stride w - 1) = 0)"

function scan :: "'a vm \<Rightarrow> bool \<Rightarrow> u64 \<Rightarrow> u64 \<Rightarrow> nat \<Rightarrow> u64 \<Rightarrow> stkmap list \<Rightarrow> 'a \<Rightarrow> (stkmap list option \<times> 'a) option" where
  "scan vm w base border room p es a =
     (if \<not> p \<le> border then Some (Some es, a)
      else if length es * sizeof_stkmap \<ge> room then Some (None, a)
      else case vm_read vm (stride w) a p of
        (None, a) \<Rightarrow>
          (if border - (p AND NOT (of_nat (PAGE_SIZE - 1))) > of_nat PAGE_SIZE
           then (case next_page p of None \<Rightarrow> None | Some p \<Rightarrow> scan vm w base border room p es a)
           else Some (Some es, a))
      | (Some v, a) \<Rightarrow> (case ptr_add p (stride w) of None \<Rightarrow> None
        | Some q \<Rightarrow> scan vm w base border room q (if map_value vm w base a p v then es @ [\<lparr>m_sp = p, m_value = v\<rparr>] else es) a))"
  by pat_completeness auto
termination
  by (relation "measure (\<lambda>(vm, w, base, border, room, p, es, a). 2 ^ 64 - unat p)")
    (auto dest!: ptr_add_unat next_page_unat simp: stride_def intro!: diff_less_mono2 unat_lt_u64)

declare scan.simps [simp del]

definition swapped :: "place \<Rightarrow> place" where
  "swapped p = (case p of Map_Lower \<Rightarrow> Map_Upper | _ \<Rightarrow> Map_Lower)"

text \<open>
  What is kept of the old map, where the new one is put, and up to where the stack is in_scan: the first part of
  \<open>unwind_stack_fwd\<close>.
\<close>

definition unchanged :: "'a vm \<Rightarrow> u64 \<Rightarrow> place \<Rightarrow> stack_control \<Rightarrow> 'a \<Rightarrow> (stkmap list \<times> place \<times> u64 \<times> 'a) option" where
  "unchanged vm sp pl s a = (let w = wow64 s in
     if smap s = [] \<or> m_sp (last (smap s)) \<ge> bp s \<or> m_sp (last (smap s)) < sp
     then do { border \<leftarrow> ptr_sub (bp s) (stride w); Some ([], pl, border, a) }
     else do { (r, a) \<leftarrow> changed vm w sp (bp s) (smap s) 0 None a;
       case r of None \<Rightarrow> do { border \<leftarrow> ptr_sub (bp s) (stride w); Some ([], pl, border, a) }
       | Some c \<Rightarrow> let rest = drop (case c of None \<Rightarrow> 0 | Some i \<Rightarrow> i + 1) (smap s) in
           do { border \<leftarrow> ptr_sub (if rest = [] then bp s else m_sp (hd rest)) (stride w); Some (rest, swapped pl, border, a) } })"

definition start_map :: "stack_control \<Rightarrow> stack_control" where
  "start_map s = (if place s = Shared then s\<lparr>place := Map_Upper, smap := [], common := 0\<rparr> else s)"

definition store_map :: "stkmap list \<Rightarrow> place \<Rightarrow> stkmap list option \<Rightarrow> stack_control \<Rightarrow> bool \<times> stack_control" where
  "store_map rest pl r s = (case r of
       None \<Rightarrow> (False, s\<lparr>place := if pl = place s then pl else Shared\<rparr>)
     | Some es \<Rightarrow> (True, s\<lparr>place := pl, smap := es @ rest, common := if rest = [] then length es else length es + 1\<rparr>))"

definition unwind_stack_fwd :: "'a vm \<Rightarrow> stack_control \<Rightarrow> 'a \<Rightarrow> (bool \<times> stack_control \<times> 'a) option" where
  "unwind_stack_fwd vm s a =
     (if \<not> buffer s then Some (False, s, a)
      else let w = wow64 s; sp = align_sp w (user_sp s); s = start_map s in
        do { (rest, pl, border, a) \<leftarrow> unchanged vm sp (place s) s a;
          (r, a) \<leftarrow> scan vm w (bp s) border (buf_size s div 2 - length rest * sizeof_stkmap) sp [] a;
          let (ok, s) = store_map rest pl r s; Some (ok, s, a) })"

lemma unwind_cases:
  assumes "unwind_stack_fwd vm s a = Some (ok, t, b)"
  obtains "\<not> buffer s" "\<not> ok" "t = s" "b = a"
  | rest pl border c r where "buffer s" "unchanged vm (align_sp (wow64 s) (user_sp s)) (place (start_map s)) (start_map s) a = Some (rest, pl, border, c)"
    "scan vm (wow64 s) (bp s) border (buf_size s div 2 - length rest * sizeof_stkmap) (align_sp (wow64 s) (user_sp s)) [] c = Some (r, b)"
    "store_map rest pl r (start_map s) = (ok, t)"
proof (cases "buffer s")
  case True
  have m: "bp (start_map s) = bp s" "buf_size (start_map s) = buf_size s" by (simp_all add: start_map_def)
  obtain x where x: "unchanged vm (align_sp (wow64 s) (user_sp s)) (place (start_map s)) (start_map s) a = Some x"
    using assms True by (cases "unchanged vm (align_sp (wow64 s) (user_sp s)) (place (start_map s)) (start_map s) a") (auto simp: unwind_stack_fwd_def Let_def)
  obtain rest pl border c where xs: "x = (rest, pl, border, c)" by (cases x)
  obtain y where y: "scan vm (wow64 s) (bp s) border (buf_size s div 2 - length rest * sizeof_stkmap) (align_sp (wow64 s) (user_sp s)) [] c = Some y"
    using assms True x m unfolding xs
    by (cases "scan vm (wow64 s) (bp s) border (buf_size s div 2 - length rest * sizeof_stkmap) (align_sp (wow64 s) (user_sp s)) [] c") (auto simp: unwind_stack_fwd_def Let_def)
  obtain r d where yr: "y = (r, d)" by (cases y)
  have "store_map rest pl r (start_map s) = (ok, t) \<and> d = b"
    using assms True x y m unfolding xs yr by (simp add: unwind_stack_fwd_def Let_def split: prod.splits)
  then show ?thesis using that(2)[OF True, of rest pl border c r] x y unfolding xs yr by simp
next
  case False
  then show ?thesis using that(1) assms by (simp add: unwind_stack_fwd_def)
qed

section \<open>Sampling\<close>

text \<open>
  The part of \<open>vtss_stack_dump\<close> that handles the user's stack. \<open>vma\<close> is the answer of \<open>find_vma\<close> for the stack pointer.
  The answers of the allocator come as a sequence.
\<close>

datatype dump_result = Dumped | Same_Context | Dump_EFAULT | Dump_EBUSY | Dump_NOMEMORY

record vm_area =
  vm_start :: u64
  vm_end :: u64
  vm_growsdown :: bool
  vm_read_write :: bool

definition room_of :: "stack_control \<Rightarrow> nat" where
  "room_of s = (if buffer s then buf_size s else 0)"

lemma realloc_grows: "realloc_stack ok s = (True, t) \<Longrightarrow> room_of s \<le> 0x10000 \<and> room_of s < room_of t"
proof -
  assume r: "realloc_stack ok s = (True, t)"
  define len where "len = (if buffer s then buf_size s else VTSS_DYNSIZE_STACKS)"
  have t: "buffer t" "buf_size t = PAGE_SIZE * 2 ^ get_order (len + len)" and len: "len \<le> 16 * VTSS_DYNSIZE_STACKS"
    using r by (auto simp: realloc_stack_def Let_def clear_stack_def len_def split: if_splits)
  have "0 < buf_size t" using t(2) by (simp add: PAGE_SIZE_def)
  moreover have "len + len \<le> buf_size t" using get_order_holds[of "len + len"] t(2) by simp
  ultimately have "len < buf_size t" by linarith
  then show ?thesis using t(1) len by (auto simp: room_of_def len_def VTSS_DYNSIZE_STACKS_def)
qed

lemma unwind_keeps_buffer: "unwind_stack_fwd vm s a = Some (ok, t, b) \<Longrightarrow> buffer t = buffer s \<and> buf_size t = buf_size s"
  by (erule unwind_cases) (auto simp: store_map_def start_map_def split: option.splits if_splits)

lemma unwind_room_of: "unwind_stack_fwd vm s a = Some (ok, t, b) \<Longrightarrow> room_of t = room_of s"
  using unwind_keeps_buffer[of vm s a ok t b] by (simp add: room_of_def)

function unwind_again :: "'a vm \<Rightarrow> (nat \<Rightarrow> bool) \<Rightarrow> stack_control \<Rightarrow> 'a \<Rightarrow> (bool \<times> stack_control \<times> 'a) option" where
  "unwind_again vm pages_ok s a = (case unwind_stack_fwd vm s a of
       None \<Rightarrow> None
     | Some (True, s, a) \<Rightarrow> Some (True, s, a)
     | Some (False, s, a) \<Rightarrow> (case realloc_stack (pages_ok 0) s of
         (False, s) \<Rightarrow> Some (False, s, a)
       | (True, s) \<Rightarrow> unwind_again vm (\<lambda>i. pages_ok (i + 1)) s a))"
  by pat_completeness auto
termination
  apply (relation "measure (\<lambda>(vm, pages_ok, s, a). 0x20001 - room_of s)")
  by (auto dest!: unwind_room_of realloc_grows[OF sym])

declare unwind_again.simps [simp del]

definition stack_base :: "u64 \<Rightarrow> vm_area \<Rightarrow> u64" where
  "stack_base sp vma = min (sp + of_nat VTSS_STACK_LIMIT) (vm_end vma)"

definition dump_user :: "'a vm \<Rightarrow> bool \<Rightarrow> (nat \<Rightarrow> bool) \<Rightarrow> u64 \<Rightarrow> u64 \<Rightarrow> u64 \<Rightarrow> u64 \<Rightarrow> stack_control \<Rightarrow> 'a \<Rightarrow> (dump_result \<times> stack_control \<times> 'a) option" where
  "dump_user vm lock_ok pages_ok ip sp base fp s a =
     (if user_ip s = ip \<and> user_sp s = sp \<and> bp s = base \<and> user_fp s = fp then Some (Same_Context, s, a)
      else if \<not> lock_ok then Some (Dump_EBUSY, s, a)
      else do { (ok, s, a) \<leftarrow> unwind_again vm pages_ok (s\<lparr>user_ip := ip, user_sp := sp, bp := base, user_fp := fp\<rparr>) a;
        Some (if ok then (Dumped, s, a) else (Dump_NOMEMORY, clear_stack s, a)) })"

definition vtss_stack_dump :: "'a vm \<Rightarrow> bool \<Rightarrow> (nat \<Rightarrow> bool) \<Rightarrow> vm_area option \<Rightarrow> u64 \<Rightarrow> u64 \<Rightarrow> u64 \<Rightarrow> stack_control \<Rightarrow> 'a
    \<Rightarrow> (dump_result \<times> stack_control \<times> 'a) option" where
  "vtss_stack_dump vm lock_ok pages_ok vma ip sp fp s a =
     (case vma of
        Some v \<Rightarrow> let start = vm_start v + (if vm_growsdown v then of_nat PAGE_SIZE else 0) in
          if sp < start \<or> \<not> vm_read_write v then Some (Dump_EFAULT, s, a)
          else let s' = (if \<not> (bp s \<ge> start \<and> bp s \<le> vm_end v) \<or> bp s \<le> sp then clear_stack s else s) in dump_user vm lock_ok pages_ok ip sp (stack_base sp v) fp s' a
      | None \<Rightarrow> dump_user vm lock_ok pages_ok ip sp (bp s) fp s a)"

section \<open>The compressed record\<close>

text \<open>How many of the low \<open>n\<close> bytes are left if leading bytes equal to \<open>f\<close> are dropped.\<close>

fun sig_len :: "u8 \<Rightarrow> u64 \<Rightarrow> nat \<Rightarrow> nat" where
  "sig_len f v 0 = 0"
| "sig_len f v (Suc j) = (if (ucast (drop_bit (8 * j) v) :: u8) \<noteq> f then Suc j else sig_len f v j)"

definition put_sp :: "u64 \<Rightarrow> u8 list" where
  "put_sp v = (if v < 0x80 then [0x80 OR ucast v] else let n = sig_len 0 v 8 in of_nat n # le_bytes n v)"

definition put_signed :: "u8 \<Rightarrow> u64 \<Rightarrow> u8 list" where
  "put_signed prefix v = (let neg = bit v 63; n = sig_len (if neg then 0xff else 0) v 8 in
     (prefix OR (if neg then 0x40 else 0) OR of_nat n) # le_bytes n v)"

text \<open>Dividing a signed difference by 4, as the code writes it.\<close>

definition scale_signed :: "u64 \<Rightarrow> u64" where
  "scale_signed v = (let tmp = v AND push_bit 63 1 in drop_bit 2 v OR tmp OR drop_bit 1 tmp)"

definition put_frame :: "u64 \<Rightarrow> u8 list" where
  "put_frame d = (let v = scale_signed d in
     if v < 0x20 then [0xa0 OR ucast v] else if v > - 32 then [0xe0 OR ucast (v AND 0xff)] else put_signed 0x80 v)"

text \<open>The previous stack pointer, code address and frame pointer go along.\<close>

definition compress_element :: "u64 \<Rightarrow> u64 \<times> u64 \<times> u64 \<Rightarrow> stkmap \<Rightarrow> u8 list \<times> u64 \<times> u64 \<times> u64" where
  "compress_element base = (\<lambda>(sp, ip, fp) e. let a = put_sp (drop_bit 2 (m_sp e - sp)); v = m_value e in
     if v \<ge> m_sp e \<and> v < base then (a @ put_frame (v - fp), m_sp e, ip, v) else (a @ put_signed 0 (v - ip), m_sp e, v, fp))"

fun compress_map :: "nat \<Rightarrow> u64 \<Rightarrow> u64 \<times> u64 \<times> u64 \<Rightarrow> stkmap list \<Rightarrow> u8 list \<Rightarrow> u8 list" where
  "compress_map room base st [] bs = bs"
| "compress_map room base st (e # es) bs =
     (if length bs \<ge> room then [] else let (b, st) = compress_element base st e in compress_map room base st es (bs @ b))"

text \<open>No bytes stand for the return code 0.\<close>

definition compress_stack :: "stack_control \<Rightarrow> u8 list" where
  "compress_stack s = compress_map (buf_size s div 2) (bp s) (align_sp (wow64 s) (user_sp s), user_ip s, user_fp s) (take (common s) (smap s)) []"

text \<open>
  The user's part of \<open>vtss_stack_record\<close>: the kind of the record, full or an increment, and its data; the header adds
  the registers. \<open>transport_ok\<close> is the answer of the transport.
\<close>

definition vtss_stack_record :: "bool \<Rightarrow> stack_control \<Rightarrow> (bool \<times> u8 list) option" where
  "vtss_stack_record transport_ok s = (let bs = compress_stack s in
     if length bs = 0 \<or> length bs > 0xfffb \<or> \<not> transport_ok then None else Some (is_full_stack s, bs))"

section \<open>The samples of a task\<close>

text \<open>
  The stack of a task in collector.c, with the state flags \<open>VTSS_ST_STKDUMP\<close> and \<open>VTSS_ST_STKSAVE\<close>, and the records that
  the transport took.
\<close>

record 'a sampling =
  stk :: stack_control
  st_stkdump :: bool
  st_stksave :: bool
  vm_state :: 'a
  records :: "(stack_control \<times> u8 list) list"

record registers =
  r_vma :: "vm_area option"
  r_ip :: u64
  r_sp :: u64
  r_fp :: u64

definition VTSS_NEED_STACK_SAVE :: "'a sampling \<Rightarrow> bool" where
  "VTSS_NEED_STACK_SAVE x = (\<not> st_stkdump x \<and> st_stksave x)"

text \<open>Clear stack history if stack was not stored in trace, then dump.\<close>

definition dump_sample :: "'a vm \<Rightarrow> bool \<Rightarrow> (nat \<Rightarrow> bool) \<Rightarrow> registers \<Rightarrow> 'a sampling \<Rightarrow> 'a sampling option" where
  "dump_sample vm lock_ok pages_ok r x = (let s = (if VTSS_NEED_STACK_SAVE x then clear_stack (stk x) else stk x) in
     do { (rc, s, a) \<leftarrow> vtss_stack_dump vm lock_ok pages_ok (r_vma r) (r_ip r) (r_sp r) (r_fp r) s (vm_state x);
       Some (x\<lparr>stk := s, vm_state := a, st_stkdump := rc \<noteq> Dumped \<and> rc \<noteq> Same_Context\<rparr>) })"

definition save_sample :: "bool \<Rightarrow> 'a sampling \<Rightarrow> 'a sampling" where
  "save_sample transport_ok x = (case vtss_stack_record transport_ok (stk x) of
       None \<Rightarrow> x\<lparr>st_stksave := True\<rparr>
     | Some (full, bs) \<Rightarrow> x\<lparr>st_stksave := False, records := records x @ [(stk x, bs)]\<rparr>)"

text \<open>An interrupt, the task leaving and entering a CPU, and the end of the task's start, when its mode is known.\<close>

datatype sample_event = Interrupt bool "nat \<Rightarrow> bool" registers bool | Swap_Out bool "nat \<Rightarrow> bool" registers | Swap_In bool | Set_Mode bool

definition set_mode :: "bool \<Rightarrow> 'a sampling \<Rightarrow> 'a sampling" where
  "set_mode m32 x = x\<lparr>stk := clear_stack (stk x\<lparr>wow64 := m32\<rparr>)\<rparr>"

fun stack_step :: "'a vm \<Rightarrow> sample_event \<Rightarrow> 'a sampling \<Rightarrow> 'a sampling option" where
  "stack_step vm (Interrupt lock_ok pages_ok r transport_ok) x = do { x \<leftarrow> dump_sample vm lock_ok pages_ok r x;
     Some (if st_stkdump x then x else save_sample transport_ok x) }"
| "stack_step vm (Swap_Out lock_ok pages_ok r) x = do { x \<leftarrow> dump_sample vm lock_ok pages_ok r x;
     Some (x\<lparr>st_stksave := \<not> st_stkdump x\<rparr>) }"
| "stack_step vm (Swap_In transport_ok) x = Some (if VTSS_NEED_STACK_SAVE x then save_sample transport_ok x else x)"
| "stack_step vm (Set_Mode m32) x = Some (set_mode m32 x)"

text \<open>The sampling part of a new task; no task is made if the stack cannot be.\<close>

definition new_sampling :: "bool \<Rightarrow> 'a \<Rightarrow> 'a sampling option" where
  "new_sampling pages_ok a = (let (ok, s) = vtss_init_stack pages_ok in
     if ok then Some \<lparr>stk = s, st_stkdump = True, st_stksave = False, vm_state = a, records = []\<rparr> else None)"

end
