(* ===== verification/StackMap_Correct.thy ===== *)
theory StackMap_Correct
  imports StackMap
begin

text \<open>
  The maps that unwinding builds: in the order of the stack, aligned, within their half of the buffer; and the
  increments, from which a receiver rebuilds each map out of the one before.
\<close>

section \<open>The scan\<close>

definition aligned :: "u64 \<Rightarrow> bool" where
  "aligned p = (unat p mod 4 = 0)"

lemma aligned_add: "ptr_add p (stride w) = Some q \<Longrightarrow> aligned p \<Longrightarrow> aligned q"
  by (auto dest!: ptr_add_unat simp: aligned_def stride_def)

lemma aligned_page: "next_page p = Some q \<Longrightarrow> aligned q"
proof -
  assume "next_page p = Some q"
  from next_page_unat[OF this] have "unat q = 4096 * (unat p div 4096) + 4096" unfolding minus_mod_eq_mult_div by (rule conjunct1)
  moreover have "4096 * k + 4096 = 4 * (1024 * k + (1024 :: nat))" for k by simp
  then have "(4096 * k + 4096) mod 4 = (0 :: nat)" for k by (simp only: mod_mult_self1_is_0)
  ultimately show ?thesis unfolding aligned_def by (simp only:)
qed

lemma aligned_word: "v AND of_nat (stride w - 1) = 0 \<Longrightarrow> aligned v"
proof -
  assume v: "v AND of_nat (stride w - 1) = 0"
  have m: "of_nat (stride w - 1) = (mask (if w then 2 else 3) :: u64)" by (simp add: stride_def mask_eq_exp_minus_1)
  have "take_bit (if w then 2 else 3) v = 0" using v unfolding m take_bit_eq_mask .
  then have "take_bit (if w then 2 else 3) (unat v) = 0" by (simp flip: unsigned_take_bit_eq)
  then have "unat v mod (if w then 4 else 8) = 0" by (simp add: take_bit_eq_mod split: if_splits)
  then show ?thesis unfolding aligned_def by (cases w) (simp, presburger)
qed

definition element_ok :: "u64 \<Rightarrow> stkmap \<Rightarrow> bool" where
  "element_ok base e = (aligned (m_sp e) \<and> (m_sp e \<le> m_value e \<and> m_value e < base \<longrightarrow> aligned (m_value e)))"

definition in_scan :: "u64 \<Rightarrow> u64 \<Rightarrow> u64 \<Rightarrow> stkmap list \<Rightarrow> bool" where
  "in_scan p border base new = (sorted_wrt (<) (map m_sp new) \<and> (\<forall>e \<in> set new. p \<le> m_sp e \<and> m_sp e \<le> border \<and> element_ok base e))"

lemma in_scan_later: "in_scan q border base new \<Longrightarrow> p \<le> q \<Longrightarrow> in_scan p border base new"
  unfolding in_scan_def by (meson order_trans)

lemma in_scan_Cons:
  assumes "in_scan q border base new" "p < q" "p \<le> border" "element_ok base \<lparr>m_sp = p, m_value = v\<rparr>"
  shows "in_scan p border base (\<lparr>m_sp = p, m_value = v\<rparr> # new)"
  using assms unfolding in_scan_def by (auto intro: less_le_trans order.strict_implies_order)

lemma ptr_add_less: "ptr_add p n = Some q \<Longrightarrow> 0 < n \<Longrightarrow> p < q"
  using ptr_add_unat[of p n q] by (simp add: word_less_nat_alt)

lemma next_page_less: "next_page p = Some q \<Longrightarrow> p < q"
  using next_page_unat[of p q] by (simp add: word_less_nat_alt)

lemma stride_pos [simp]: "0 < stride w"
  by (simp add: stride_def)

lemma room_left: "n * sizeof_stkmap < room \<Longrightarrow> sizeof_stkmap dvd room \<Longrightarrow> Suc n * sizeof_stkmap \<le> room"
  by (auto simp: sizeof_stkmap_def elim!: dvdE)

lemma scan_ok:
  assumes "scan vm w base border room p es a = Some (Some es', b)" "aligned p" "sizeof_stkmap dvd room"
  shows "\<exists>new. es' = es @ new \<and> in_scan p border base new \<and> length es' * sizeof_stkmap \<le> max room (length es * sizeof_stkmap)"
  using assms
proof (induction vm w base border room p es a rule: scan.induct)
  case (1 vm w base border room p es a)
  show ?case
  proof (cases "p \<le> border \<and> length es * sizeof_stkmap < room")
    case False
    then have "es' = es" using 1(3) by (subst (asm) scan.simps) (auto split: if_splits)
    then show ?thesis by (simp add: in_scan_def)
  next
    case True
    obtain r c where rd: "vm_read vm (stride w) a p = (r, c)" by (cases "vm_read vm (stride w) a p")
    show ?thesis
    proof (cases r)
      case None
      show ?thesis
      proof (cases "border - (p AND NOT (of_nat (PAGE_SIZE - 1))) > of_nat PAGE_SIZE")
        case False
        then have "es' = es" using 1(3) True rd None by (subst (asm) scan.simps) simp
        then show ?thesis by (simp add: in_scan_def)
      next
        case far: True
        then obtain q where q: "next_page p = Some q" "scan vm w base border room q es c = Some (Some es', b)"
          using 1(3) True rd None by (subst (asm) scan.simps) (auto split: option.splits)
        then obtain new where "es' = es @ new" "in_scan q border base new" "length es' * sizeof_stkmap \<le> max room (length es * sizeof_stkmap)"
          using 1(1)[OF _ _ rd[symmetric, unfolded None] refl far q(1)] True aligned_page 1(5) by (metis linorder_not_le)
        then show ?thesis using in_scan_later[of q border base new p] next_page_less[OF q(1)] by auto
      qed
    next
      case (Some v)
      define more where "more = (if map_value vm w base c p v then [\<lparr>m_sp = p, m_value = v\<rparr>] else [])"
      obtain q where q: "ptr_add p (stride w) = Some q" "scan vm w base border room q (es @ more) c = Some (Some es', b)"
        using 1(3) True rd Some by (subst (asm) scan.simps) (auto simp: more_def split: option.splits if_splits)
      have "(if map_value vm w base c p v then es @ [\<lparr>m_sp = p, m_value = v\<rparr>] else es) = es @ more" by (simp add: more_def)
      then obtain new where n: "es' = es @ more @ new" "in_scan q border base new" "length es' * sizeof_stkmap \<le> max room (length (es @ more) * sizeof_stkmap)"
        using 1(2)[OF _ _ rd[symmetric, unfolded Some] refl q(1)] q(2) True aligned_add[OF q(1)] 1(4,5) by auto
      have "map_value vm w base c p v \<Longrightarrow> element_ok base \<lparr>m_sp = p, m_value = v\<rparr>"
        using 1(4) aligned_word[of v w] by (auto simp: element_ok_def map_value_def split: if_splits)
      then have "in_scan p border base (more @ new)"
        using in_scan_Cons[OF n(2) ptr_add_less[OF q(1)]] in_scan_later[OF n(2)] ptr_add_less[OF q(1)] True by (auto simp: more_def)
      moreover have "length (es @ more) * sizeof_stkmap \<le> max room (length es * sizeof_stkmap)"
        using room_left[of "length es" room] True 1(5) by (auto simp: more_def)
      ultimately show ?thesis using n(1,3) by fastforce
    qed
  qed
qed

section \<open>The part that is kept\<close>

text \<open>Every element below the stack pointer is on the changed side of the border.\<close>

lemma changed_ok:
  assumes "changed vm w sp base es i c a = Some (Some c', b)"
  shows "(c' = c \<or> (\<exists>m. c' = Some m \<and> i \<le> m \<and> m < i + length es)) \<and> (\<forall>j < length es. m_sp (es ! j) < sp \<longrightarrow> (\<exists>m. c' = Some m \<and> i + j \<le> m))"
  using assms
proof (induction es arbitrary: i c a)
  case (Cons e es)
  have step: ?case if "changed vm w sp base es (i + 1) d x = Some (Some c', b)" "d = Some i \<or> d = c \<and> \<not> m_sp e < sp" for d x
  proof -
    note dc = that(2)
    have l: "c' = d \<or> (\<exists>m. c' = Some m \<and> i + 1 \<le> m \<and> m < i + 1 + length es)"
      "\<forall>j < length es. m_sp (es ! j) < sp \<longrightarrow> (\<exists>m. c' = Some m \<and> i + 1 + j \<le> m)" using Cons.IH[OF that(1)] by blast+
    have "c' = c \<or> (\<exists>m. c' = Some m \<and> i \<le> m \<and> m < i + length (e # es))" using l(1) that(2) by auto
    moreover have "\<exists>m. c' = Some m \<and> i + j \<le> m" if j: "j < length (e # es)" "m_sp ((e # es) ! j) < sp" for j
    proof (cases j)
      case 0
      then show ?thesis using j l(1) dc by auto
    next
      case (Suc k)
      then show ?thesis using j l(2) by fastforce
    qed
    ultimately show ?thesis by blast
  qed
  show ?case
  proof (cases "m_sp e < sp")
    case True
    then show ?thesis using Cons.prems step[of "Some i" a] by simp
  next
    case False
    obtain r x where rd: "vm_read vm (stride w) a (m_sp e) = (r, x)" by (cases "vm_read vm (stride w) a (m_sp e)")
    obtain v where v: "r = Some v" using Cons.prems False rd by (cases r) auto
    show ?thesis
    proof (cases "m_value e = v \<and> es \<noteq> [] \<and> (v < sp \<or> base \<le> v)")
      case no: False
      then show ?thesis using Cons.prems False rd v step[of "Some i" x] step[of c x] by (auto split: if_splits)
    next
      case True
      obtain far frm r y where s: "ptr_add (m_sp e) (IP_SEARCH_RANGE * stride w) = Some far" "ptr_add (m_sp e) (stride w) = Some frm"
        "search_ips vm w (min (m_sp (hd es)) far) frm x = Some (r, y)"
        using Cons.prems False rd v True by (auto simp: bind_eq_Some_conv)
      obtain hit where "r = Some hit" using Cons.prems False rd v True s by (cases r) auto
      then show ?thesis using Cons.prems False rd v True s step[of "if hit then Some i else c" y] by (auto split: if_splits)
    qed
  qed
qed simp

lemma unchanged_ok:
  assumes "unchanged vm sp pl s a = Some (rest, pl', border, b)" "pl \<noteq> Shared"
  shows "(\<exists>k. rest = drop k (smap s)) \<and> (\<forall>e \<in> set rest. sp \<le> m_sp e) \<and> pl' \<noteq> Shared \<and>
    (if rest = [] then border < bp s else border < m_sp (hd rest)) \<and> (rest = [] \<or> m_sp (last (smap s)) < bp s)"
proof -
  have less: "ptr_sub p (stride w) = Some q \<Longrightarrow> q < p" for p q w
    using ptr_sub_unat[of p "stride w" q] by (auto simp: word_less_nat_alt ptr_sub_def stride_def split: if_splits)
  have none: "\<exists>k. [] = drop k (smap s)" by (rule exI[of _ "length (smap s)"]) simp
  show ?thesis
  proof (cases "smap s = [] \<or> m_sp (last (smap s)) \<ge> bp s \<or> m_sp (last (smap s)) < sp")
    case True
    then have "rest = [] \<and> pl' = pl \<and> ptr_sub (bp s) (stride (wow64 s)) = Some border" using assms(1) by (auto simp: unchanged_def Let_def bind_eq_Some_conv)
    then show ?thesis using less none assms(2) by auto
  next
    case False
    then obtain r x where r: "changed vm (wow64 s) sp (bp s) (smap s) 0 None a = Some (r, x)" using assms(1) by (auto simp: unchanged_def Let_def bind_eq_Some_conv)
    show ?thesis
    proof (cases r)
      case None
      then have "rest = [] \<and> pl' = pl \<and> ptr_sub (bp s) (stride (wow64 s)) = Some border" using assms(1) False r by (auto simp: unchanged_def Let_def bind_eq_Some_conv)
      then show ?thesis using less none assms(2) by auto
    next
      case (Some c)
      define k where "k = (case c of None \<Rightarrow> 0 | Some i \<Rightarrow> i + 1)"
      have u: "rest = drop k (smap s)" "pl' = swapped pl" "ptr_sub (if rest = [] then bp s else m_sp (hd rest)) (stride (wow64 s)) = Some border"
        using assms(1) False r Some by (auto simp: unchanged_def Let_def bind_eq_Some_conv k_def)
      have "sp \<le> m_sp (smap s ! j)" if kj: "k \<le> j" and js: "j < length (smap s)" for j
      proof (rule ccontr)
        assume "\<not> sp \<le> m_sp (smap s ! j)"
        then obtain m where "c = Some m" "j \<le> m" using changed_ok[OF r[unfolded Some]] js by (auto simp: not_le)
        then show False using kj by (simp add: k_def)
      qed
      then have "\<forall>e \<in> set rest. sp \<le> m_sp e" unfolding u(1) by (auto simp: in_set_conv_nth)
      moreover have "pl' \<noteq> Shared" using u(2) by (cases pl) (auto simp: swapped_def)
      ultimately show ?thesis using u(1) less[OF u(3)] False by auto
    qed
  qed
qed

section \<open>A new map\<close>

definition map_ok :: "stack_control \<Rightarrow> bool" where
  "map_ok s = (common s \<le> length (smap s) \<and> length (smap s) * sizeof_stkmap \<le> buf_size s div 2 \<and> 2 * sizeof_stkmap dvd buf_size s \<and>
     sorted_wrt (<) (map m_sp (smap s)) \<and> (place s = Shared \<longrightarrow> smap s = []) \<and> (smap s \<noteq> [] \<longrightarrow> 0 < common s) \<and>
     (\<forall>e \<in> set (smap s). aligned (m_sp e)))"

text \<open>What a receiver makes of an increment, if it has the map before: the part above the last element is unchanged.\<close>

definition rebuild :: "stkmap list \<Rightarrow> bool \<Rightarrow> stkmap list \<Rightarrow> stkmap list" where
  "rebuild old full inc = (if full then inc else inc @ filter (\<lambda>e. m_sp (last inc) < m_sp e) old)"

definition increment :: "stack_control \<Rightarrow> stkmap list" where
  "increment s = take (common s) (smap s)"

lemma sorted_filter_above:
  assumes "sorted_wrt (<) (map m_sp (xs @ r # ys))"
  shows "filter (\<lambda>e. m_sp r < m_sp e) (xs @ r # ys) = ys"
proof -
  have "\<forall>e \<in> set xs. \<not> m_sp r < m_sp e" "\<forall>e \<in> set ys. m_sp r < m_sp e" using assms by (auto simp: sorted_wrt_append dest: less_imp_not_less)
  then show ?thesis by (simp add: filter_id_conv)
qed

lemma mask_stride: "of_nat (stride w) - 1 = (mask (if w then 2 else 3) :: u64)"
  by (simp add: stride_def mask_eq_exp_minus_1)

lemma aligned_clear: "take_bit 2 p = 0 \<Longrightarrow> aligned p"
proof -
  assume "take_bit 2 p = 0"
  then have "take_bit 2 (unat p) = 0" by (simp flip: unsigned_take_bit_eq)
  then show ?thesis by (simp add: aligned_def take_bit_eq_mod)
qed

lemma aligned_plus: "aligned x \<Longrightarrow> aligned (x + of_nat (stride w))"
proof -
  assume "aligned x"
  have "unat (x + of_nat (stride w)) mod 4 = (unat x + stride w) mod 4"
    by (simp add: unat_word_ariths stride_def mod_mod_cancel)
  also have "\<dots> = 0" using \<open>aligned x\<close> by (simp add: aligned_def stride_def mod_add_eq flip: mod_add_left_eq[of "unat x"])
  finally show ?thesis by (simp add: aligned_def)
qed

lemma align_sp_aligned: "aligned (align_sp w p)"
proof -
  let ?k = "if w then 2 else 3 :: nat"
  show ?thesis
  proof (cases "p AND mask ?k = 0")
    case True
    then have a: "align_sp w p = p" "take_bit ?k p = 0" by (simp_all add: align_sp_def Let_def mask_stride take_bit_eq_mask)
    have "take_bit 2 (take_bit ?k p) = take_bit 2 p" by simp
    then show ?thesis using a aligned_clear[of p] by simp
  next
    case False
    then have "align_sp w p = (p - take_bit ?k p) + of_nat (stride w)" by (simp add: align_sp_def Let_def mask_stride take_bit_eq_mask)
    moreover have "p - take_bit ?k p = p AND NOT (take_bit ?k p)" by (rule disjunctive_diff_eq_and_not) (auto simp: bit_eq_iff bit_simps)
    then have "take_bit 2 (p - take_bit ?k p) = 0" by (auto simp: bit_eq_iff bit_simps)
    ultimately show ?thesis using aligned_plus[OF aligned_clear] by simp
  qed
qed

lemma rest_sorted:
  assumes "sorted_wrt (<) (map m_sp (es @ rest))" "rest \<noteq> []" "e \<in> set rest"
  shows "m_sp (hd rest) \<le> m_sp e \<and> m_sp e \<le> m_sp (last rest)"
proof -
  have s: "sorted_wrt (<) (map m_sp rest)" using assms(1) by (simp add: sorted_wrt_append)
  obtain i where i: "i < length rest" "e = rest ! i" using assms(3) by (auto simp: in_set_conv_nth)
  have mono: "j \<le> k \<Longrightarrow> k < length rest \<Longrightarrow> m_sp (rest ! j) \<le> m_sp (rest ! k)" for j k
    using s by (cases "j = k") (auto simp: sorted_wrt_iff_nth_less intro: less_imp_le)
  show ?thesis using mono[of 0 i] mono[of i "length rest - 1"] i assms(2) by (simp add: hd_conv_nth last_conv_nth)
qed

lemma unwind_ok:
  assumes s: "map_ok s" and u: "unwind_stack_fwd vm s a = Some (True, t, b)"
  shows "map_ok t \<and> rebuild (smap s) (is_full_stack t) (increment t) = smap t \<and>
    (\<forall>e \<in> set (smap t). align_sp (wow64 s) (user_sp s) \<le> m_sp e \<and> m_sp e < bp s) \<and>
    (\<exists>es rest. smap t = es @ rest \<and> (\<forall>e \<in> set es. element_ok (bp s) e) \<and> set rest \<subseteq> set (smap s)) \<and>
    (\<exists>pl m c. t = s\<lparr>place := pl, smap := m, common := c\<rparr>)"
  using u
proof (rule unwind_cases)
  fix rest pl border c r
  let ?sp = "align_sp (wow64 s) (user_sp s)"
  assume x: "unchanged vm ?sp (place (start_map s)) (start_map s) a = Some (rest, pl, border, c)"
    and y: "scan vm (wow64 s) (bp s) border (buf_size s div 2 - length rest * sizeof_stkmap) ?sp [] c = Some (r, b)"
    and z: "store_map rest pl r (start_map s) = (True, t)"
  have m: "common s \<le> length (smap s)" "length (smap s) * sizeof_stkmap \<le> buf_size s div 2" "2 * sizeof_stkmap dvd buf_size s"
    "sorted_wrt (<) (map m_sp (smap s))" "place s = Shared \<longrightarrow> smap s = []" "\<forall>e \<in> set (smap s). aligned (m_sp e)" using s by (simp_all add: map_ok_def)
  have st: "smap (start_map s) = smap s" "bp (start_map s) = bp s" "place (start_map s) \<noteq> Shared" using m(5) by (auto simp: start_map_def)
  note un = unchanged_ok[OF x st(3), unfolded st]
  obtain k where k: "rest = drop k (smap s)" using un by blast
  obtain es where es: "r = Some es" and t: "t = (start_map s)\<lparr>place := pl, smap := es @ rest, common := if rest = [] then length es else length es + 1\<rparr>"
    using z by (cases r) (auto simp: store_map_def)
  have half: "sizeof_stkmap dvd buf_size s div 2" using m(3) by (auto simp: sizeof_stkmap_def elim!: dvdE)
  then have "sizeof_stkmap dvd buf_size s div 2 - length rest * sizeof_stkmap" by (simp add: dvd_diff_nat)
  then have sc: "in_scan ?sp border (bp s) es" "length es * sizeof_stkmap \<le> buf_size s div 2 - length rest * sizeof_stkmap"
    using scan_ok[OF y[unfolded es] align_sp_aligned] by auto
  have rs: "sorted_wrt (<) (map m_sp rest)" "set rest \<subseteq> set (smap s)" "length rest * sizeof_stkmap \<le> buf_size s div 2"
  proof -
    have "smap s = take k (smap s) @ rest" using k by simp
    then show "sorted_wrt (<) (map m_sp rest)" using m(4) by (metis map_append sorted_wrt_append)
    show "set rest \<subseteq> set (smap s)" using k by (simp add: set_drop_subset)
    have "length rest * sizeof_stkmap \<le> length (smap s) * sizeof_stkmap" using k by simp
    then show "length rest * sizeof_stkmap \<le> buf_size s div 2" using m(2) by (rule le_trans)
  qed
  have hi: "\<forall>e \<in> set rest. m_sp (hd rest) \<le> m_sp e \<and> m_sp e < bp s"
  proof
    fix e assume e: "e \<in> set rest"
    then have "rest \<noteq> []" by auto
    moreover have "last rest = last (smap s)" using k \<open>rest \<noteq> []\<close> by simp
    ultimately show "m_sp (hd rest) \<le> m_sp e \<and> m_sp e < bp s"
      using rest_sorted[of "[]" rest e] rs(1) e un by (auto intro: le_less_trans)
  qed
  have border: "border < bp s"
    using un hi by (cases "rest = []") (auto dest!: bspec[of _ _ "hd rest"] intro: less_trans)
  have lo: "\<forall>e \<in> set es. \<forall>f \<in> set rest. m_sp e < m_sp f"
  proof (intro ballI)
    fix e f assume "e \<in> set es" "f \<in> set rest"
    moreover have "rest \<noteq> []" using \<open>f \<in> set rest\<close> by auto
    then have "border < m_sp (hd rest)" using un by simp
    ultimately have "m_sp e \<le> border" "border < m_sp (hd rest)" "m_sp (hd rest) \<le> m_sp f" using sc(1) hi by (simp_all add: in_scan_def)
    then show "m_sp e < m_sp f" by simp
  qed
  have sorted: "sorted_wrt (<) (map m_sp (es @ rest))" using sc(1) rs(1) lo by (auto simp: sorted_wrt_append in_scan_def)
  have size: "length (es @ rest) * sizeof_stkmap \<le> buf_size s div 2" using sc(2) rs(3) by (simp add: algebra_simps)
  have al: "\<forall>e \<in> set (es @ rest). aligned (m_sp e)" using sc(1) rs(2) m(6) by (auto simp: in_scan_def element_ok_def)
  have fields: "wow64 t = wow64 s" "buf_size t = buf_size s" "place t = pl" "smap t = es @ rest" "common t = (if rest = [] then length es else length es + 1)"
    unfolding t by (simp_all add: start_map_def)
  have "common t \<le> length (smap t)" unfolding fields by (cases rest) simp_all
  moreover have "pl \<noteq> Shared" using un by blast
  moreover have "smap t \<noteq> [] \<longrightarrow> 0 < common t" unfolding fields by simp
  ultimately have "map_ok t" using sorted size al m(3) unfolding map_ok_def fields by simp
  moreover have "rebuild (smap s) (is_full_stack t) (increment t) = smap t"
  proof (cases rest)
    case Nil
    then show ?thesis by (simp add: rebuild_def is_full_stack_def increment_def fields)
  next
    case (Cons f fs)
    show ?thesis
    proof (cases "fs = []")
      case True
      then show ?thesis using Cons by (simp add: rebuild_def is_full_stack_def increment_def fields)
    next
      case False
      have "smap s = take k (smap s) @ f # fs" using k Cons by (metis append_take_drop_id)
      then have "filter (\<lambda>e. m_sp f < m_sp e) (smap s) = fs" using sorted_filter_above[of "take k (smap s)" f fs] m(4) by simp
      then show ?thesis using False Cons by (simp add: rebuild_def is_full_stack_def increment_def fields)
    qed
  qed
  moreover have "\<forall>e \<in> set (smap t). ?sp \<le> m_sp e \<and> m_sp e < bp s" using sc(1) un hi border by (auto simp: fields in_scan_def)
  moreover have "\<exists>es' rest'. smap t = es' @ rest' \<and> (\<forall>e \<in> set es'. element_ok (bp s) e) \<and> set rest' \<subseteq> set (smap s)"
    using sc(1) rs(2) fields(4) by (auto simp: in_scan_def)
  moreover have "\<exists>pl m c. t = s\<lparr>place := pl, smap := m, common := c\<rparr>" unfolding t start_map_def by (cases s) auto
  ultimately show ?thesis by blast
qed simp

section \<open>Samples\<close>

definition adds :: "stkmap list \<Rightarrow> stack_control \<Rightarrow> bool" where
  "adds R s = (rebuild R (is_full_stack s) (increment s) = smap s)"

lemma adds_from_nothing: "map_ok s \<Longrightarrow> adds [] s \<Longrightarrow> adds R s"
  by (auto simp: adds_def rebuild_def increment_def is_full_stack_def map_ok_def split: if_splits)

lemma adds_itself:
  assumes "map_ok s" "smap s \<noteq> []"
  shows "adds (smap s) s"
proof (cases "is_full_stack s")
  case True
  then show ?thesis by (simp add: adds_def rebuild_def increment_def is_full_stack_def)
next
  case False
  have m: "common s < length (smap s)" "0 < common s" "sorted_wrt (<) (map m_sp (smap s))" using assms False by (simp_all add: map_ok_def is_full_stack_def)
  let ?k = "common s - 1"
  have k: "smap s = take ?k (smap s) @ smap s ! ?k # drop (common s) (smap s)" using m(1,2) id_take_nth_drop[of ?k "smap s"] by simp
  have "increment s = take ?k (smap s) @ [smap s ! ?k]" using m(1,2) take_Suc_conv_app_nth[of ?k "smap s"] by (simp add: increment_def)
  moreover have "filter (\<lambda>e. m_sp (smap s ! ?k) < m_sp e) (smap s) = drop (common s) (smap s)"
    using sorted_filter_above[of "take ?k (smap s)" "smap s ! ?k" "drop (common s) (smap s)"] m(3) k by metis
  ultimately show ?thesis using False k by (simp add: adds_def rebuild_def)
qed

lemma clear_ok: "map_ok s \<Longrightarrow> map_ok (clear_stack s) \<and> smap (clear_stack s) = []"
  by (simp add: clear_stack_def map_ok_def)

lemma realloc_ok: "realloc_stack ok s = (True, t) \<Longrightarrow> map_ok t \<and> smap t = [] \<and> buffer t \<and> (\<exists>n. t = clear_stack (s\<lparr>buffer := True, buf_size := n\<rparr>))"
  by (auto simp: realloc_stack_def Let_def clear_stack_def map_ok_def sizeof_stkmap_def PAGE_SIZE_def split: if_splits)

lemma elements_of_parts:
  "\<exists>es rest. xs = es @ rest \<and> (\<forall>e \<in> set es. P e) \<and> set rest \<subseteq> B \<Longrightarrow> (\<forall>e \<in> B. P e) \<longrightarrow> (\<forall>e \<in> set xs. P e)"
  by (metis Un_iff set_append subsetD)

text \<open>With or without more memory: a map that fits the receiver's, or a failure.\<close>

lemma unwind_again_ok:
  assumes "unwind_again vm pages_ok s a = Some (ok, t, b)" "map_ok s"
  shows "if ok then map_ok t \<and> adds (smap s) t \<and> user_ip t = user_ip s \<and> user_sp t = user_sp s \<and> user_fp t = user_fp s \<and> bp t = bp s \<and> wow64 t = wow64 s \<and>
      (\<forall>e \<in> set (smap t). align_sp (wow64 s) (user_sp s) \<le> m_sp e \<and> m_sp e < bp s) \<and>
      ((\<forall>e \<in> set (smap s). element_ok (bp s) e) \<longrightarrow> (\<forall>e \<in> set (smap t). element_ok (bp s) e))
    else 2 * sizeof_stkmap dvd buf_size t"
  using assms
proof (induction vm pages_ok s a arbitrary: t b rule: unwind_again.induct)
  case (1 vm pages_ok s a)
  obtain ok' u c where u: "unwind_stack_fwd vm s a = Some (ok', u, c)"
  proof (cases "unwind_stack_fwd vm s a")
    case None
    then show ?thesis using 1(2) by (simp add: unwind_again.simps[of vm pages_ok s a])
  next
    case (Some x)
    then show ?thesis using that by (cases x) auto
  qed
  show ?case
  proof (cases ok')
    case True
    then have u': "unwind_stack_fwd vm s a = Some (True, u, c)" using u by simp
    from True have tu: "ok = True" "t = u" using 1(2) u by (subst (asm) unwind_again.simps, simp)+
    have w: "map_ok u \<and> rebuild (smap s) (is_full_stack u) (increment u) = smap u" "\<forall>e \<in> set (smap u). align_sp (wow64 s) (user_sp s) \<le> m_sp e \<and> m_sp e < bp s"
      "\<exists>pl m c. u = s\<lparr>place := pl, smap := m, common := c\<rparr>"
      "\<exists>es rest. smap u = es @ rest \<and> (\<forall>e \<in> set es. element_ok (bp s) e) \<and> set rest \<subseteq> set (smap s)" using unwind_ok[OF 1(3) u'] by blast+
    have "(\<forall>e \<in> set (smap s). element_ok (bp s) e) \<longrightarrow> (\<forall>e \<in> set (smap u). element_ok (bp s) e)" using w(4) by (rule elements_of_parts)
    then show ?thesis using tu w(1-3) by (auto simp: adds_def)
  next
    case False
    have keeps: "buf_size u = buf_size s" using unwind_keeps_buffer[OF u] by simp
    obtain ok'' v where v: "realloc_stack (pages_ok 0) u = (ok'', v)" by (cases "realloc_stack (pages_ok 0) u")
    show ?thesis
    proof (cases ok'')
      case no: False
      then have "v = u" using v by (auto simp: realloc_stack_def Let_def split: if_splits)
      then have "\<not> ok \<and> t = u" using 1(2) u False v no by (subst (asm) unwind_again.simps) simp
      then show ?thesis using keeps 1(3) by (simp add: map_ok_def)
    next
      case True
      then have "realloc_stack (pages_ok 0) u = (True, v)" using v by simp
      note ro = realloc_ok[OF this]
      have again: "unwind_again vm (\<lambda>i. pages_ok (i + 1)) v c = Some (ok, t, b)" using 1(2) u False v True by (subst (asm) unwind_again.simps) simp
      have regs: "user_ip u = user_ip s \<and> user_sp u = user_sp s \<and> user_fp u = user_fp s \<and> bp u = bp s \<and> wow64 u = wow64 s"
        using u by (rule unwind_cases) (auto simp: store_map_def start_map_def split: option.splits if_splits)
      have vr: "user_ip v = user_ip s \<and> user_sp v = user_sp s \<and> user_fp v = user_fp s \<and> bp v = bp s \<and> wow64 v = wow64 s"
        using ro regs by (auto simp: clear_stack_def)
      have ih: "if ok then map_ok t \<and> adds (smap v) t \<and> user_ip t = user_ip v \<and> user_sp t = user_sp v \<and> user_fp t = user_fp v \<and> bp t = bp v \<and> wow64 t = wow64 v \<and>
          (\<forall>e \<in> set (smap t). align_sp (wow64 v) (user_sp v) \<le> m_sp e \<and> m_sp e < bp v) \<and>
          ((\<forall>e \<in> set (smap v). element_ok (bp v) e) \<longrightarrow> (\<forall>e \<in> set (smap t). element_ok (bp v) e)) else 2 * sizeof_stkmap dvd buf_size t"
      proof (rule 1(1)[OF u refl _ refl _ _ again])
        show "ok' = False" "ok'' = True" "(ok'', v) = realloc_stack (pages_ok 0) u" using False True v by simp_all
        show "map_ok v" using ro by blast
      qed
      then show ?thesis using vr ro adds_from_nothing[of t "smap s"] by (auto split: if_splits)
    qed
  qed
qed

lemma dump_user_ok:
  assumes "dump_user vm lock_ok pages_ok ip sp base fp s a = Some (rc, t, b)" "map_ok s"
  shows "map_ok t \<and> (rc = Dumped \<longrightarrow> adds (smap s) t \<and> (\<forall>e \<in> set (smap t). align_sp (wow64 t) (user_sp t) \<le> m_sp e \<and> m_sp e < bp t) \<and>
      ((\<forall>e \<in> set (smap s). element_ok base e) \<longrightarrow> (\<forall>e \<in> set (smap t). element_ok base e)) \<and>
      user_ip t = ip \<and> user_sp t = sp \<and> user_fp t = fp \<and> bp t = base) \<and> (rc = Same_Context \<longrightarrow> t = s) \<and> (rc \<noteq> Dumped \<longrightarrow> t = s \<or> smap t = [])"
proof (cases "rc = Dumped \<or> rc = Dump_NOMEMORY")
  case False
  then have "t = s" using assms(1) by (auto simp: dump_user_def bind_eq_Some_conv split: if_splits)
  then show ?thesis using False assms(2) by auto
next
  case True
  let ?s = "s\<lparr>user_ip := ip, user_sp := sp, bp := base, user_fp := fp\<rparr>"
  obtain ok u where u: "unwind_again vm pages_ok ?s a = Some (ok, u, b)" "(rc, t) = (if ok then (Dumped, u) else (Dump_NOMEMORY, clear_stack u))"
    using assms(1) True by (auto simp: dump_user_def bind_eq_Some_conv split: if_splits)
  have s: "map_ok ?s" using assms(2) by (simp add: map_ok_def)
  have "map_ok (clear_stack u)" if "2 * sizeof_stkmap dvd buf_size u" using that by (simp add: clear_stack_def map_ok_def)
  then show ?thesis using unwind_again_ok[OF u(1) s] u(2) by (auto simp: clear_stack_def split: if_splits)
qed

lemma dump_ok:
  assumes "vtss_stack_dump vm lock_ok pages_ok vma ip sp fp s a = Some (rc, t, b)" "map_ok s" "smap s = [] \<or> smap s = R"
  shows "map_ok t \<and> (rc = Dumped \<longrightarrow> adds R t \<and> (\<forall>e \<in> set (smap t). align_sp (wow64 t) (user_sp t) \<le> m_sp e \<and> m_sp e < bp t)) \<and>
    (rc \<noteq> Dumped \<longrightarrow> smap t = [] \<or> smap t = R)"
proof (cases "rc = Dump_EFAULT \<and> t = s")
  case True
  then show ?thesis using assms(2,3) by simp
next
  case False
  obtain s' base where d: "dump_user vm lock_ok pages_ok ip sp base fp s' a = Some (rc, t, b)" "s' = s \<or> s' = clear_stack s"
    using assms(1) False by (auto simp: vtss_stack_dump_def Let_def split: option.splits if_splits)
  have s': "map_ok s'" "smap s' = [] \<or> smap s' = R" using d(2) assms(2,3) clear_ok[OF assms(2)] by auto
  note du = dump_user_ok[OF d(1) s'(1)]
  have "adds R t" if "rc = Dumped" using du that s'(2) adds_from_nothing[of t R] by auto
  then show ?thesis using du s'(2) by auto
qed

definition receive :: "(stack_control \<times> u8 list) list \<Rightarrow> stkmap list" where
  "receive rs = fold (\<lambda>(s, bs) R. rebuild R (is_full_stack s) (increment s)) rs []"

definition sampling_ok :: "'a sampling \<Rightarrow> bool" where
  "sampling_ok x = (map_ok (stk x) \<and>
     (if VTSS_NEED_STACK_SAVE x then smap (stk x) = [] \<or> adds (receive (records x)) (stk x) else smap (stk x) = [] \<or> smap (stk x) = receive (records x)))"

lemma compress_nothing: "smap s = [] \<Longrightarrow> compress_stack s = []"
  by (simp add: compress_stack_def)

lemma save_ok:
  assumes "map_ok (stk x)" "smap (stk x) = [] \<or> adds (receive (records x)) (stk x)" "\<not> st_stkdump x"
  shows "sampling_ok (save_sample transport_ok x)"
proof (cases "vtss_stack_record transport_ok (stk x)")
  case None
  then show ?thesis using assms by (simp add: save_sample_def sampling_ok_def VTSS_NEED_STACK_SAVE_def)
next
  case (Some fb)
  obtain full bs where fb: "fb = (full, bs)" by (cases fb)
  have "smap (stk x) \<noteq> []" using Some compress_nothing[of "stk x"] by (auto simp: vtss_stack_record_def Let_def split: if_splits)
  then show ?thesis using assms Some fb by (simp add: save_sample_def sampling_ok_def VTSS_NEED_STACK_SAVE_def receive_def adds_def)
qed

lemma dump_sample_ok:
  assumes "sampling_ok x" "dump_sample vm lock_ok pages_ok r x = Some y"
  shows "map_ok (stk y) \<and> records y = records x \<and> (if st_stkdump y then smap (stk y) = [] \<or> smap (stk y) = receive (records x)
    else smap (stk y) = [] \<or> adds (receive (records x)) (stk y))"
proof -
  let ?s = "if VTSS_NEED_STACK_SAVE x then clear_stack (stk x) else stk x"
  obtain rc s a where d: "vtss_stack_dump vm lock_ok pages_ok (r_vma r) (r_ip r) (r_sp r) (r_fp r) ?s (vm_state x) = Some (rc, s, a)"
    and y: "y = x\<lparr>stk := s, vm_state := a, st_stkdump := rc \<noteq> Dumped \<and> rc \<noteq> Same_Context\<rparr>"
    using assms(2) by (auto simp: dump_sample_def Let_def bind_eq_Some_conv)
  have "map_ok ?s" "smap ?s = [] \<or> smap ?s = receive (records x)"
    using assms(1) clear_ok[of "stk x"] by (auto simp: sampling_ok_def split: if_splits)
  note o = dump_ok[OF d this]
  have "adds (receive (records x)) s" if "smap s = receive (records x)" "smap s \<noteq> []" using adds_itself[of s] o that by simp
  then show ?thesis using o y by (cases "smap s = []") auto
qed

lemma stack_step_ok: "sampling_ok x \<Longrightarrow> stack_step vm ev x = Some y \<Longrightarrow> sampling_ok y"
proof (cases ev)
  case (Interrupt lock_ok pages_ok r transport_ok)
  assume x: "sampling_ok x" "stack_step vm ev x = Some y"
  then obtain z where z: "dump_sample vm lock_ok pages_ok r x = Some z" "y = (if st_stkdump z then z else save_sample transport_ok z)"
    using Interrupt by (auto simp: bind_eq_Some_conv)
  note d = dump_sample_ok[OF x(1) z(1)]
  show ?thesis
  proof (cases "st_stkdump z")
    case True
    then show ?thesis using d z(2) by (simp add: sampling_ok_def VTSS_NEED_STACK_SAVE_def)
  next
    case False
    then show ?thesis using d z(2) save_ok[of z transport_ok] by simp
  qed
next
  case (Swap_Out lock_ok pages_ok r)
  assume x: "sampling_ok x" "stack_step vm ev x = Some y"
  then obtain z where z: "dump_sample vm lock_ok pages_ok r x = Some z" "y = z\<lparr>st_stksave := \<not> st_stkdump z\<rparr>"
    using Swap_Out by (auto simp: bind_eq_Some_conv)
  show ?thesis using dump_sample_ok[OF x(1) z(1)] z(2) by (simp add: sampling_ok_def VTSS_NEED_STACK_SAVE_def split: if_splits)
next
  case (Swap_In transport_ok)
  assume x: "sampling_ok x" "stack_step vm ev x = Some y"
  then have y: "y = (if VTSS_NEED_STACK_SAVE x then save_sample transport_ok x else x)" using Swap_In by simp
  show ?thesis using save_ok[of x transport_ok] x(1) y by (auto simp: sampling_ok_def VTSS_NEED_STACK_SAVE_def)
next
  case (Set_Mode m32)
  assume x: "sampling_ok x" "stack_step vm ev x = Some y"
  then have "y = set_mode m32 x" using Set_Mode by simp
  moreover have "map_ok (stk x\<lparr>wow64 := m32\<rparr>)" using x(1) by (simp add: sampling_ok_def map_ok_def)
  ultimately show ?thesis using clear_ok[of "stk x\<lparr>wow64 := m32\<rparr>"] by (simp add: set_mode_def sampling_ok_def)
qed

lemma new_ok:
  assumes "new_sampling pages_ok a = Some x"
  shows "sampling_ok x \<and> smap (stk x) = [] \<and> records x = []"
proof -
  obtain s where "vtss_init_stack pages_ok = (True, s)" "x = \<lparr>stk = s, st_stkdump = True, st_stksave = False, vm_state = a, records = []\<rparr>"
    using assms by (auto simp: new_sampling_def split: if_splits prod.splits)
  then show ?thesis using realloc_ok[of pages_ok _ s] by (simp add: vtss_init_stack_def sampling_ok_def VTSS_NEED_STACK_SAVE_def)
qed

end
