(* ===== verification/StackMap_Codec.thy ===== *)
theory StackMap_Codec
  imports StackMap_Correct
begin

text \<open>
  The format of a compressed stack, as the comment in \<open>compress_stack\<close> describes it, as a decoder; what the decoder makes
  of the compressed increment; and how long that can be.
\<close>

section \<open>The decoder\<close>

text \<open>The bytes of a value, with the bits above them as the sign says.\<close>

definition signed_value :: "bool \<Rightarrow> u8 list \<Rightarrow> u64" where
  "signed_value neg bs = of_le bs OR (if neg then NOT (mask (8 * length bs)) else 0)"

text \<open>A stack pointer: 7 bits in the prefix, or a number of bytes.\<close>

fun get_sp :: "u8 list \<Rightarrow> (u64 \<times> u8 list) option" where
  "get_sp [] = None"
| "get_sp (p # bs) = (if bit p 7 then Some (ucast (p AND 0x7f), bs)
     else let n = unat (p AND 0x0f) in if n \<le> length bs then Some (signed_value False (take n bs), drop n bs) else None)"

text \<open>
  A value: a frame (bit 7) or code, the sign (bit 6), a scaled frame pointer in the prefix (bit 5), or a number of bytes.
\<close>

fun get_value :: "u8 list \<Rightarrow> (bool \<times> u64 \<times> u8 list) option" where
  "get_value [] = None"
| "get_value (p # bs) = (if bit p 7 \<and> bit p 5 then Some (True, ucast (p AND 0x1f) OR (if bit p 6 then NOT (mask 5) else 0), bs)
     else let n = unat (p AND 0x0f) in if n \<le> length bs then Some (bit p 7, signed_value (bit p 6) (take n bs), drop n bs) else None)"

definition get_element :: "u64 \<times> u64 \<times> u64 \<Rightarrow> u8 list \<Rightarrow> (stkmap \<times> (u64 \<times> u64 \<times> u64) \<times> u8 list) option" where
  "get_element = (\<lambda>(sp, ip, fp) bs. do { (d, bs) \<leftarrow> get_sp bs; (frame, v, bs) \<leftarrow> get_value bs;
     let sp = sp + push_bit 2 d in
     Some (if frame then (\<lparr>m_sp = sp, m_value = fp + push_bit 2 v\<rparr>, (sp, ip, fp + push_bit 2 v), bs)
       else (\<lparr>m_sp = sp, m_value = ip + v\<rparr>, (sp, ip + v, fp), bs)) })"

fun get_elements :: "nat \<Rightarrow> u64 \<times> u64 \<times> u64 \<Rightarrow> u8 list \<Rightarrow> stkmap list option" where
  "get_elements n st [] = Some []"
| "get_elements 0 st (b # bs) = None"
| "get_elements (Suc n) st (b # bs) = do { (e, st, bs) \<leftarrow> get_element st (b # bs); es \<leftarrow> get_elements n st bs; Some (e # es) }"

text \<open>Each element takes two bytes or more.\<close>

definition decompress :: "u64 \<times> u64 \<times> u64 \<Rightarrow> u8 list \<Rightarrow> stkmap list option" where
  "decompress st bs = get_elements (length bs) st bs"

section \<open>Values\<close>

lemma sig_len_le: "sig_len f v n \<le> n"
  by (induction n) auto

lemma sig_len_high: "sig_len f v n \<le> i \<Longrightarrow> i < n \<Longrightarrow> (ucast (drop_bit (8 * i) v) :: u8) = f"
  by (induction n) (auto simp: less_Suc_eq split: if_splits)

lemma sig_len_bit:
  assumes "8 * sig_len f v n \<le> k" "k < 8 * n"
  shows "bit v k = bit f (k mod 8)"
proof -
  let ?i = "k div 8"
  have "(ucast (drop_bit (8 * ?i) v) :: u8) = f" using assms by (intro sig_len_high[of f v n]) auto
  moreover have "bit (ucast (drop_bit (8 * ?i) v) :: u8) (k mod 8) = bit v (8 * ?i + k mod 8)" by (simp add: bit_simps)
  ultimately show ?thesis by simp
qed

lemma signed_value_le_bytes:
  assumes "\<And>k. 8 * n \<le> k \<Longrightarrow> k < 64 \<Longrightarrow> bit v k = neg" "n \<le> 8"
  shows "signed_value neg (le_bytes n v) = v"
proof (rule bit_word_eqI)
  fix k assume "k < LENGTH(64)"
  then show "bit (signed_value neg (le_bytes n v)) k = bit v k"
    using assms by (cases "k < 8 * n") (auto simp: signed_value_def of_le_bytes bit_simps)
qed

lemma unsigned_value_put: "signed_value False (le_bytes (sig_len 0 v 8) v) = v"
  by (rule signed_value_le_bytes) (use sig_len_bit[of 0 v 8] sig_len_le[of 0 v 8] in auto)

lemma bit_ff: "k < 8 \<Longrightarrow> bit (0xff :: u8) k"
  by (auto simp: less_Suc_eq numeral_eq_Suc)

lemma signed_value_put: "signed_value (bit v 63) (le_bytes (sig_len (if bit v 63 then 0xff else 0) v 8) v) = v"
proof (rule signed_value_le_bytes)
  fix k assume "8 * sig_len (if bit v 63 then 0xff else 0) v 8 \<le> k" "k < 64"
  then show "bit v k = bit v 63" using sig_len_bit[of "if bit v 63 then 0xff else 0" v 8 k] bit_ff[of "k mod 8"] by (auto split: if_splits)
qed (rule sig_len_le)

lemma small_prefix:
  assumes "n \<le> 8" "f = 0 \<or> f = 0x80"
  shows "unat ((f OR (if neg then 0x40 else 0) OR of_nat n :: u8) AND 0x0f) = n \<and> bit (f OR (if neg then 0x40 else 0) OR of_nat n :: u8) 6 = neg \<and>
    bit (f OR (if neg then 0x40 else 0) OR of_nat n :: u8) 7 = (f = 0x80) \<and> \<not> bit (f OR (if neg then 0x40 else 0) OR of_nat n :: u8) 5"
proof -
  have "n \<in> {0, 1, 2, 3, 4, 5, 6, 7, 8}" using assms(1) by auto
  then show ?thesis using assms(2) by (cases neg) auto
qed

lemma small_bits:
  assumes "unat (v :: u64) < 2 ^ n" "bit v k"
  shows "k < n"
proof -
  have "bit (take_bit n (unat v)) k" using assms by (simp add: take_bit_nat_eq_self bit_unsigned_iff)
  then show ?thesis by (simp add: bit_take_bit_iff)
qed

lemma masks: "(0x7f :: u8) = mask 7" "(0x1f :: u8) = mask 5" "(0xff :: u64) = mask 8"
  by (simp_all add: mask_eq_exp_minus_1)

text \<open>The low bits of a byte hold a small value.\<close>

lemma low_bits:
  assumes "\<And>k. bit v k \<Longrightarrow> k < n" "\<And>k. k < n \<Longrightarrow> \<not> bit f k" "n \<le> 8"
  shows "(ucast ((f OR ucast v :: u8) AND mask n) :: u64) = v"
proof (rule bit_word_eqI)
  fix k assume "k < LENGTH(64)"
  then show "bit (ucast ((f OR ucast v :: u8) AND mask n) :: u64) k = bit v k"
    using assms(1)[of k] assms(2)[of k] assms(3) by (auto simp: bit_simps)
qed

lemma get_sp_put: "get_sp (put_sp v @ rest) = Some (v, rest)"
proof (cases "v < 0x80")
  case True
  then have hi: "bit v k \<Longrightarrow> k < 7" for k using small_bits[of v 7 k] by (simp add: word_less_nat_alt)
  have "\<not> bit (0x80 :: u8) k" if "k < 7" for k using that by (auto simp: less_Suc_eq numeral_eq_Suc)
  then have "ucast ((0x80 OR ucast v :: u8) AND 0x7f) = v" unfolding masks using hi by (intro low_bits) auto
  moreover have "bit (0x80 OR ucast v :: u8) 7" by (simp add: bit_simps)
  ultimately show ?thesis using True by (simp add: put_sp_def)
next
  case False
  let ?n = "sig_len 0 v 8"
  have p: "unat (of_nat ?n AND 0x0f :: u8) = ?n" "\<not> bit (of_nat ?n :: u8) 7" using small_prefix[of ?n 0 False] sig_len_le[of 0 v 8] by simp_all
  show ?thesis using False p unsigned_value_put[of v] by (simp add: put_sp_def Let_def)
qed

lemma get_value_put_signed:
  assumes "f = 0 \<or> f = 0x80"
  shows "get_value (put_signed f v @ rest) = Some (f = 0x80, v, rest)"
proof -
  let ?n = "sig_len (if bit v 63 then 0xff else 0) v 8"
  note p = small_prefix[OF sig_len_le[of "if bit v 63 then 0xff else 0" v 8] assms, of "bit v 63"]
  show ?thesis using p signed_value_put[of v] by (simp add: put_signed_def Let_def)
qed

lemma bit_scale:
  assumes "k < 64"
  shows "bit (scale_signed v) k = (if k < 62 then bit v (k + 2) else bit v 63)"
proof -
  have t: "bit (v AND push_bit 63 1) j = (j = 63 \<and> bit v 63)" for j
    by (simp only: bit_and_iff bit_push_bit_iff bit_1_iff) auto
  have "bit (scale_signed v) k = (bit v (2 + k) \<or> (k = 63 \<and> bit v 63) \<or> (1 + k = 63 \<and> bit v 63))"
    unfolding scale_signed_def Let_def by (simp only: bit_or_iff bit_drop_bit_eq o_apply t)
  moreover have "bit v (2 + k) \<Longrightarrow> 2 + k < 64" using bit_imp_le_length[of v "2 + k"] by simp
  ultimately show ?thesis using assms by (auto simp: add.commute)
qed

lemma unscale:
  assumes "take_bit 2 v = 0"
  shows "push_bit 2 (scale_signed v) = v"
proof (rule bit_word_eqI)
  fix k assume k: "k < LENGTH(64)"
  show "bit (push_bit 2 (scale_signed v)) k = bit v k"
  proof (cases "k < 2")
    case True
    then have "\<not> bit v k" using assms by (metis bit_0_eq bit_take_bit_iff bot_apply bot_bool_def)
    then show ?thesis using True by (simp add: bit_simps)
  next
    case False
    then obtain j where "k = j + 2" by (metis add.commute le_Suc_ex not_less)
    then show ?thesis using k bit_scale[of j v] by (simp add: bit_push_bit_iff)
  qed
qed

lemma get_value_put_frame: "get_value (put_frame d @ rest) = Some (True, scale_signed d, rest)"
proof -
  define v where "v = scale_signed d"
  consider "v < 0x20" | "\<not> v < 0x20" "v > - 32" | "\<not> v < 0x20" "\<not> v > - 32" by blast
  then show ?thesis
  proof cases
    case 1
    then have hi: "bit v k \<Longrightarrow> k < 5" for k using small_bits[of v 5 k] by (simp add: word_less_nat_alt)
    have "\<not> bit (0xa0 :: u8) k" if "k < 5" for k using that by (auto simp: less_Suc_eq numeral_eq_Suc)
    then have "(ucast ((0xa0 OR ucast v :: u8) AND 0x1f) :: u64) = v" unfolding masks using hi by (intro low_bits) auto
    moreover have "bit (0xa0 OR ucast v :: u8) 7" "bit (0xa0 OR ucast v :: u8) 5" "\<not> bit (0xa0 OR ucast v :: u8) 6" by (auto simp: bit_simps dest: hi)
    ultimately show ?thesis using 1 by (simp add: put_frame_def v_def)
  next
    case 2
    define w where "w = NOT v"
    have "unat w = unat (- 1 :: u64) - unat v"
    proof -
      have "w = - 1 - v" by (simp add: w_def not_eq_complement)
      then show ?thesis using unat_sub[of v "- 1"] by simp
    qed
    moreover have "unat (- 32 :: u64) < unat v" using 2(2) by (simp add: word_less_nat_alt)
    ultimately have "unat w < 2 ^ 5" by (simp add: unsigned_minus_1_eq_mask mask_eq_exp_minus_1)
    then have wk: "bit w k \<Longrightarrow> k < 5" for k using small_bits[of w 5 k] by simp
    have lo: "5 \<le> k \<Longrightarrow> k < 64 \<Longrightarrow> bit v k" for k using wk[of k] by (auto simp: w_def bit_not_iff)
    have p: "(ucast (v AND 0xff) :: u8) = ucast v" unfolding masks by (rule bit_word_eqI) (auto simp: bit_simps)
    have z: "\<not> bit (0xe0 :: u8) k" if "k < 5" for k using that by (auto simp: less_Suc_eq numeral_eq_Suc)
    have "(ucast ((0xe0 OR ucast v :: u8) AND mask 5) OR NOT (mask 5) :: u64) = v"
      by (rule bit_word_eqI) (auto simp: bit_simps intro: lo dest: z)
    moreover have "bit (0xe0 OR ucast v :: u8) 7" "bit (0xe0 OR ucast v :: u8) 5" "bit (0xe0 OR ucast v :: u8) 6" by (auto simp: bit_simps)
    ultimately show ?thesis using 2 p by (simp add: put_frame_def v_def Let_def masks)
  next
    case 3
    then show ?thesis using get_value_put_signed[of 128 v rest] by (simp add: put_frame_def v_def Let_def)
  qed
qed

section \<open>Elements\<close>

lemma aligned_diff: "aligned x \<Longrightarrow> aligned y \<Longrightarrow> take_bit 2 (x - y) = 0"
proof -
  assume a: "aligned x" "aligned y"
  have "unat x mod 4 = (unat y + unat (x - y)) mod 4"
    using unat_word_ariths(1)[of y "x - y"] by (simp add: mod_mod_cancel)
  then have "unat (x - y) mod 4 = 0" using a unfolding aligned_def by (metis add_0 mod_add_left_eq)
  then have "unat (take_bit 2 (x - y)) = 0" by (simp add: take_bit_eq_mod unat_mod)
  then show ?thesis by (simp only: unat_eq_zero)
qed

lemma unscale_sp: "take_bit 2 (d :: u64) = 0 \<Longrightarrow> push_bit 2 (drop_bit 2 d) = d"
  using bits_ident[of 2 d] by simp

lemma get_element_put:
  assumes "element_ok base e" "aligned sp" "aligned fp" "compress_element base (sp, ip, fp) e = (bs, st)"
  shows "get_element (sp, ip, fp) (bs @ rest) = Some (e, st, rest) \<and> bs \<noteq> [] \<and> (\<exists>ip' fp'. st = (m_sp e, ip', fp') \<and> aligned fp')"
proof -
  have sp: "sp + push_bit 2 (drop_bit 2 (m_sp e - sp)) = m_sp e"
    using unscale_sp[OF aligned_diff[of "m_sp e" sp]] assms(1,2) by (simp add: element_ok_def)
  have ne: "put_sp v \<noteq> []" for v by (simp add: put_sp_def Let_def)
  show ?thesis
  proof (cases "m_value e \<ge> m_sp e \<and> m_value e < base")
    case True
    then have "aligned (m_value e)" using assms(1) by (simp add: element_ok_def)
    then have "fp + push_bit 2 (scale_signed (m_value e - fp)) = m_value e" using unscale[OF aligned_diff[of "m_value e" fp]] assms(3) by simp
    then show ?thesis using assms(4) True sp ne \<open>aligned (m_value e)\<close>
      by (auto simp: compress_element_def Let_def get_element_def get_sp_put get_value_put_frame)
  next
    case False
    then show ?thesis using assms(3,4) sp ne
      by (auto simp: compress_element_def Let_def get_element_def get_sp_put get_value_put_signed)
  qed
qed

text \<open>The data without the check for room.\<close>

fun encode :: "u64 \<Rightarrow> u64 \<times> u64 \<times> u64 \<Rightarrow> stkmap list \<Rightarrow> u8 list" where
  "encode base st [] = []"
| "encode base st (e # es) = (let (b, st) = compress_element base st e in b @ encode base st es)"

lemma encode_nonempty: "encode base st es = [] \<longleftrightarrow> es = []"
proof (cases es)
  case (Cons e es')
  obtain sp ip fp where st: "st = (sp, ip, fp)" by (cases st)
  have "put_sp v \<noteq> []" for v by (simp add: put_sp_def Let_def)
  then show ?thesis using Cons st by (auto simp: compress_element_def Let_def split: prod.splits)
qed simp

lemma get_elements_mono: "get_elements n st bs = Some es \<Longrightarrow> n \<le> m \<Longrightarrow> get_elements m st bs = Some es"
proof (induction n st bs arbitrary: m es rule: get_elements.induct)
  case (3 n st b bs)
  then obtain k where "m = Suc k" by (cases m) auto
  with 3 show ?case by (auto simp: bind_eq_Some_conv)
qed simp_all

lemma get_elements_encode:
  assumes "\<forall>e \<in> set es. element_ok base e" "aligned sp" "aligned fp"
  shows "get_elements (length es) (sp, ip, fp) (encode base (sp, ip, fp) es) = Some es \<and> length es \<le> length (encode base (sp, ip, fp) es)"
  using assms
proof (induction es arbitrary: sp ip fp)
  case (Cons e es)
  obtain bs st where c: "compress_element base (sp, ip, fp) e = (bs, st)" by (cases "compress_element base (sp, ip, fp) e")
  have e: "element_ok base e" using Cons.prems(1) by simp
  note g = get_element_put[OF e Cons.prems(2,3) c, of "encode base st es"]
  then obtain ip' fp' where st: "st = (m_sp e, ip', fp')" "aligned fp'" by blast
  have "aligned (m_sp e)" using e by (simp add: element_ok_def)
  then have ih: "get_elements (length es) st (encode base st es) = Some es \<and> length es \<le> length (encode base st es)"
    using Cons.IH[of "m_sp e" fp' ip'] Cons.prems(1) st by simp
  obtain b bs' where "bs = b # bs'" using g by (cases bs) auto
  then show ?case using c g ih by simp
qed simp

lemma decompress_encode:
  assumes "\<forall>e \<in> set es. element_ok base e" "aligned sp" "aligned fp"
  shows "decompress (sp, ip, fp) (encode base (sp, ip, fp) es) = Some es"
  using get_elements_encode[OF assms, of ip] get_elements_mono unfolding decompress_def by blast

section \<open>The length of the data\<close>

lemma length_put_signed: "length (put_signed f v) \<le> 9"
  using sig_len_le[of "if bit v 63 then 0xff else 0" v 8] by (simp add: put_signed_def Let_def)

lemma length_put_sp:
  assumes "unat v < 2 ^ 24"
  shows "length (put_sp v) \<le> 4"
proof -
  have b: "bit v k \<Longrightarrow> k < 24" for k using small_bits[OF assms] .
  have z: "3 \<le> j \<Longrightarrow> (ucast (drop_bit (8 * j) v) :: u8) = 0" for j
    by (rule bit_word_eqI) (auto simp: bit_simps dest!: b)
  have "sig_len 0 v 8 = sig_len 0 v 3"
    using z[of 3] z[of 4] z[of 5] z[of 6] z[of 7] by (simp add: numeral_eq_Suc)
  then show ?thesis using sig_len_le[of 0 v 3] by (simp add: put_sp_def Let_def)
qed

lemma length_compress_element:
  assumes "compress_element base (sp, ip, fp) e = (bs, st)" "unat (m_sp e - sp) < 2 ^ 26"
  shows "length bs \<le> 13"
proof -
  have "unat (drop_bit 2 (m_sp e - sp)) < 2 ^ 24" using assms(2) by (simp add: drop_bit_eq_div unat_div)
  then have "length (put_sp (drop_bit 2 (m_sp e - sp))) \<le> 4" by (rule length_put_sp)
  moreover have "length (put_frame d) \<le> 9" for d using length_put_signed[of 128 "scale_signed d"] by (simp add: put_frame_def Let_def)
  ultimately show ?thesis using assms(1) length_put_signed[of 0 "m_value e - ip"]
    by (auto simp: compress_element_def Let_def intro!: add_mono[of _ 4 _ 9, simplified] split: if_splits)
qed

lemma compress_map_encode:
  assumes "\<And>i. i < length es \<Longrightarrow> length (bs @ encode base st (take i es)) < room"
  shows "compress_map room base st es bs = bs @ encode base st es"
  using assms
proof (induction room base st es bs rule: compress_map.induct)
  case (2 room base st e es bs)
  obtain b st' where c: "compress_element base st e = (b, st')" by (cases "compress_element base st e")
  have "length ((bs @ b) @ encode base st' (take i es)) < room" if "i < length es" for i
    using 2(2)[of "Suc i"] that c by simp
  then show ?case using 2(1)[OF _ c[symmetric] refl] 2(2)[of 0] c by simp
qed simp

lemma compress_map_cases: "compress_map room base st es bs = [] \<or> compress_map room base st es bs = bs @ encode base st es"
  by (induction room base st es bs rule: compress_map.induct) (auto simp: Let_def split: prod.splits)

lemma length_encode:
  assumes "sorted_wrt (<) (map m_sp es)" "\<forall>e \<in> set es. sp \<le> m_sp e \<and> m_sp e < hi" "unat hi - unat sp < 2 ^ 26"
  shows "length (encode base (sp, ip, fp) es) \<le> 13 * length es"
  using assms
proof (induction es arbitrary: sp ip fp)
  case (Cons e es)
  obtain bs st where c: "compress_element base (sp, ip, fp) e = (bs, st)" by (cases "compress_element base (sp, ip, fp) e")
  then obtain ip' fp' where st: "st = (m_sp e, ip', fp')" by (auto simp: compress_element_def Let_def split: if_splits)
  have lim: "sp \<le> m_sp e" "m_sp e < hi" using Cons.prems(2) by simp_all
  have "unat (m_sp e - sp) = unat (m_sp e) - unat sp" using lim(1) by (simp add: unat_sub)
  moreover have "unat sp \<le> unat (m_sp e)" "unat (m_sp e) < unat hi" using lim by (simp_all add: word_less_nat_alt word_le_nat_alt)
  ultimately have "unat (m_sp e - sp) < 2 ^ 26" using Cons.prems(3) by linarith
  then have "length bs \<le> 13" using length_compress_element[OF c] by simp
  moreover have "length (encode base st es) \<le> 13 * length es" unfolding st
  proof (rule Cons.IH)
    show "sorted_wrt (<) (map m_sp es)" using Cons.prems(1) by simp
    show "\<forall>e' \<in> set es. m_sp e \<le> m_sp e' \<and> m_sp e' < hi" using Cons.prems(1,2) by (auto intro: less_imp_le)
    show "unat hi - unat (m_sp e) < 2 ^ 26" using Cons.prems(3) \<open>unat sp \<le> unat (m_sp e)\<close> by linarith
  qed
  ultimately show ?case using c by simp
qed simp

text \<open>The stack of a dumped task, and the bounds that a dump leaves it in.\<close>

definition stack_ok :: "stack_control \<Rightarrow> bool" where
  "stack_ok s = (map_ok s \<and> (\<forall>e \<in> set (smap s). align_sp (wow64 s) (user_sp s) \<le> m_sp e \<and> m_sp e < bp s) \<and>
     unat (bp s) - unat (align_sp (wow64 s) (user_sp s)) < 2 ^ 26)"

lemma compress_stack_encode:
  assumes "stack_ok s"
  shows "compress_stack s = encode (bp s) (align_sp (wow64 s) (user_sp s), user_ip s, user_fp s) (increment s) \<and>
    length (compress_stack s) \<le> 13 * common s \<and> 13 * common s \<le> buf_size s div 2"
proof -
  let ?st = "(align_sp (wow64 s) (user_sp s), user_ip s, user_fp s)"
  have m: "common s \<le> length (smap s)" "length (smap s) * sizeof_stkmap \<le> buf_size s div 2" "sorted_wrt (<) (map m_sp (smap s))"
    using assms by (simp_all add: stack_ok_def map_ok_def)
  have e: "length (encode (bp s) ?st (take i (smap s))) \<le> 13 * length (take i (smap s))" for i
  proof (rule length_encode)
    show "sorted_wrt (<) (map m_sp (take i (smap s)))" using m(3) by (metis append_take_drop_id map_append sorted_wrt_append)
    show "\<forall>e \<in> set (take i (smap s)). align_sp (wow64 s) (user_sp s) \<le> m_sp e \<and> m_sp e < bp s"
      using assms by (auto simp: stack_ok_def dest: in_set_takeD)
  qed (use assms in \<open>simp add: stack_ok_def\<close>)
  have "compress_map (buf_size s div 2) (bp s) ?st (increment s) [] = [] @ encode (bp s) ?st (increment s)"
  proof (rule compress_map_encode)
    fix i assume i: "i < length (increment s)"
    then have "take i (increment s) = take i (smap s)" "i < common s" "i < length (smap s)" by (auto simp: increment_def min_def split: if_splits)
    then show "length ([] @ encode (bp s) ?st (take i (increment s))) < buf_size s div 2"
      using e[of i] m(1,2) by (simp add: sizeof_stkmap_def)
  qed
  then show ?thesis using e[of "common s"] m(1,2) by (simp add: compress_stack_def increment_def sizeof_stkmap_def)
qed

lemma stack_decodes:
  assumes "stack_ok s" "aligned (user_fp s)" "\<forall>e \<in> set (increment s). element_ok (bp s) e"
  shows "decompress (align_sp (wow64 s) (user_sp s), user_ip s, user_fp s) (compress_stack s) = Some (increment s)"
  using decompress_encode[OF assms(3) align_sp_aligned assms(2)] compress_stack_encode[OF assms(1)] by simp

section \<open>Dumps\<close>

lemma stack_base_near: "unat (stack_base sp v) - unat (align_sp w sp) < 2 ^ 26"
proof (cases "unat sp + 0x200000 < 2 ^ 64")
  case True
  then have "unat (sp + of_nat VTSS_STACK_LIMIT) = unat sp + 0x200000" by (simp add: unat_word_ariths VTSS_STACK_LIMIT_def)
  then have "unat (stack_base sp v) \<le> unat sp + 0x200000" by (simp add: stack_base_def min_def word_le_nat_alt)
  moreover have "unat sp \<le> unat (align_sp w sp)"
  proof (cases "sp AND (of_nat (stride w) - 1) = 0")
    case True
    then show ?thesis by (simp add: align_sp_def Let_def)
  next
    case False
    let ?low = "sp AND (of_nat (stride w) - 1)"
    have "unat ?low < stride w"
    proof -
      have "unat ?low = unat sp mod 2 ^ (if w then 2 else 3)" unfolding mask_stride by (simp add: take_bit_eq_mask [symmetric] take_bit_eq_mod unat_mod)
      then show ?thesis by (simp add: stride_def)
    qed
    moreover have wide: "unat (of_nat (stride w) :: u64) = stride w" by (simp add: stride_def)
    ultimately have "?low \<le> of_nat (stride w)" unfolding word_le_nat_alt by linarith
    then have "unat (of_nat (stride w) - ?low) = stride w - unat ?low" using wide by (simp only: unat_sub)
    moreover have "align_sp w sp = sp + (of_nat (stride w) - ?low)" using False by (simp add: align_sp_def Let_def)
    ultimately have "unat (align_sp w sp) = unat sp + (stride w - unat ?low)"
      using \<open>unat sp + 0x200000 < 2 ^ 64\<close> by (simp add: unat_word_ariths stride_def)
    then show ?thesis by simp
  qed
  ultimately show ?thesis by simp
next
  case False
  have "unat (sp + of_nat VTSS_STACK_LIMIT) = unat sp + 0x200000 - 2 ^ 64"
    using False unat_lt_u64[of sp] by (simp add: unat_word_ariths VTSS_STACK_LIMIT_def mod_if)
  moreover have "unat (stack_base sp v) \<le> unat (sp + of_nat VTSS_STACK_LIMIT)" by (simp add: stack_base_def min_def word_le_nat_alt)
  ultimately show ?thesis using unat_lt_u64[of sp] by simp
qed

lemma dump_Dumped:
  assumes "vtss_stack_dump vm lock_ok pages_ok (Some v) ip sp fp s a = Some (Dumped, t, b)" "map_ok s"
  shows "stack_ok t \<and> ((\<forall>e \<in> set (smap s). element_ok (bp t) e) \<longrightarrow> (\<forall>e \<in> set (smap t). element_ok (bp t) e)) \<and>
    user_ip t = ip \<and> user_sp t = sp \<and> user_fp t = fp"
proof -
  obtain s' where d: "dump_user vm lock_ok pages_ok ip sp (stack_base sp v) fp s' a = Some (Dumped, t, b)" "s' = s \<or> s' = clear_stack s"
    using assms(1) by (auto simp: vtss_stack_dump_def Let_def split: if_splits)
  have s': "map_ok s'" "(\<forall>e \<in> set (smap s). element_ok (bp t) e) \<longrightarrow> (\<forall>e \<in> set (smap s'). element_ok (bp t) e)"
    using d(2) assms(2) clear_ok[OF assms(2)] by auto
  have x: "map_ok t" "\<forall>e \<in> set (smap t). align_sp (wow64 t) (user_sp t) \<le> m_sp e \<and> m_sp e < bp t"
    "(\<forall>e \<in> set (smap s'). element_ok (stack_base sp v) e) \<longrightarrow> (\<forall>e \<in> set (smap t). element_ok (stack_base sp v) e)"
    "user_ip t = ip" "user_sp t = sp" "user_fp t = fp" "bp t = stack_base sp v" using dump_user_ok[OF d(1) s'(1)] by blast+
  then show ?thesis using s'(2) stack_base_near[of sp v "wow64 t"] by (simp add: stack_ok_def)
qed

lemma dump_keeps_stack_ok:
  assumes "vtss_stack_dump vm lock_ok pages_ok (Some v) ip sp fp s a = Some (rc, t, b)" "map_ok s" "smap s = [] \<or> stack_ok s"
  shows "smap t = [] \<or> stack_ok t"
proof (cases "rc = Dumped")
  case True
  have "stack_ok t" using dump_Dumped[OF assms(1)[unfolded True] assms(2)] by (rule conjunct1)
  then show ?thesis ..
next
  case False
  then have "t = s \<or> smap t = []"
    using assms(1) by (auto simp: vtss_stack_dump_def dump_user_def Let_def clear_stack_def bind_eq_Some_conv split: if_splits)
  then show ?thesis using assms(3) by auto
qed

end
