(* ===== verification/StackMap_Run.thy ===== *)
theory StackMap_Run
  imports StackMap_Codec
begin

text \<open>
  The samples of a task over its life: the bytes of the records, decoded and merged by a receiver, are the map the task
  has in memory.
\<close>

section \<open>A receiver\<close>

definition decode_record :: "stack_control \<times> u8 list \<Rightarrow> stkmap list option" where
  "decode_record = (\<lambda>(s, bs). decompress (align_sp (wow64 s) (user_sp s), user_ip s, user_fp s) bs)"

text \<open>Of a stack the receiver looks at what the header of the record says: the mode, whether it is full, and three registers.\<close>

definition receiver :: "(stack_control \<times> u8 list) list \<Rightarrow> stkmap list option" where
  "receiver rs = foldm (\<lambda>r R. do { inc \<leftarrow> decode_record r; Some (rebuild R (is_full_stack (fst r)) inc) }) rs []"

definition decodable :: "stack_control \<Rightarrow> bool" where
  "decodable s = (aligned (user_fp s) \<and> (\<forall>e \<in> set (increment s). element_ok (bp s) e))"

text \<open>The stack pointer of a sample is in a memory area of the task.\<close>

fun in_area :: "sample_event \<Rightarrow> bool" where
  "in_area (Interrupt lock_ok pages_ok r transport_ok) = (r_vma r \<noteq> None)"
| "in_area (Swap_Out lock_ok pages_ok r) = (r_vma r \<noteq> None)"
| "in_area _ = True"

section \<open>The records\<close>

definition records_ok :: "'a sampling \<Rightarrow> bool" where
  "records_ok x = ((smap (stk x) = [] \<or> stack_ok (stk x)) \<and> (\<forall>r \<in> set (records x). stack_ok (fst r) \<and> snd r = compress_stack (fst r)))"

lemma save_records: "smap (stk x) = [] \<or> stack_ok (stk x) \<Longrightarrow> records_ok x \<Longrightarrow> records_ok (save_sample transport_ok x)"
  using compress_nothing[of "stk x"]
  by (cases "smap (stk x) = []") (auto simp: save_sample_def records_ok_def vtss_stack_record_def Let_def split: if_splits)

lemma dump_records:
  assumes "dump_sample vm lock_ok pages_ok r x = Some y" "sampling_ok x" "records_ok x" "r_vma r \<noteq> None"
  shows "records_ok y"
proof -
  let ?s = "if VTSS_NEED_STACK_SAVE x then clear_stack (stk x) else stk x"
  obtain v where v: "r_vma r = Some v" using assms(4) by blast
  obtain rc s a where d: "vtss_stack_dump vm lock_ok pages_ok (Some v) (r_ip r) (r_sp r) (r_fp r) ?s (vm_state x) = Some (rc, s, a)"
    and y: "y = x\<lparr>stk := s, vm_state := a, st_stkdump := rc \<noteq> Dumped \<and> rc \<noteq> Same_Context\<rparr>"
    using assms(1) v by (auto simp: dump_sample_def Let_def bind_eq_Some_conv)
  have "map_ok ?s" "smap ?s = [] \<or> stack_ok ?s"
    using assms(2,3) clear_ok[of "stk x"] by (auto simp: sampling_ok_def records_ok_def)
  from dump_keeps_stack_ok[OF d this] show ?thesis using assms(3) y by (simp add: records_ok_def)
qed

lemma step_records: "sampling_ok x \<Longrightarrow> records_ok x \<Longrightarrow> in_area ev \<Longrightarrow> stack_step vm ev x = Some y \<Longrightarrow> records_ok y"
proof (cases ev)
  case (Interrupt lock_ok pages_ok r transport_ok)
  assume x: "sampling_ok x" "records_ok x" "in_area ev" "stack_step vm ev x = Some y"
  then obtain z where z: "dump_sample vm lock_ok pages_ok r x = Some z" "y = (if st_stkdump z then z else save_sample transport_ok z)"
    using Interrupt by (auto simp: bind_eq_Some_conv)
  have "records_ok z" using dump_records[OF z(1) x(1,2)] x(3) Interrupt by simp
  moreover from this have "smap (stk z) = [] \<or> stack_ok (stk z)" by (simp add: records_ok_def)
  ultimately show ?thesis using save_records[of z transport_ok] z(2) by simp
next
  case (Swap_Out lock_ok pages_ok r)
  assume x: "sampling_ok x" "records_ok x" "in_area ev" "stack_step vm ev x = Some y"
  then obtain z where z: "dump_sample vm lock_ok pages_ok r x = Some z" "y = z\<lparr>st_stksave := \<not> st_stkdump z\<rparr>"
    using Swap_Out by (auto simp: bind_eq_Some_conv)
  then show ?thesis using dump_records[OF z(1) x(1,2)] x(3) Swap_Out by (simp add: records_ok_def)
next
  case (Swap_In transport_ok)
  assume x: "records_ok x" "stack_step vm ev x = Some y"
  then have "y = (if VTSS_NEED_STACK_SAVE x then save_sample transport_ok x else x)" using Swap_In by simp
  moreover have "smap (stk x) = [] \<or> stack_ok (stk x)" using x(1) by (simp add: records_ok_def)
  ultimately show ?thesis using save_records[of x transport_ok] x(1) by simp
next
  case (Set_Mode m32)
  assume "records_ok x" "stack_step vm ev x = Some y"
  then show ?thesis using Set_Mode by (auto simp: set_mode_def records_ok_def clear_stack_def)
qed

lemma record_taken:
  assumes "stack_ok s" "increment s \<noteq> []" "common s \<le> 5000"
  shows "vtss_stack_record True s = Some (is_full_stack s, compress_stack s)"
proof -
  have "compress_stack s \<noteq> []" "length (compress_stack s) \<le> 65000"
    using compress_stack_encode[OF assms(1)] assms(2,3) by (auto simp: encode_nonempty)
  then show ?thesis by (simp add: vtss_stack_record_def Let_def)
qed

lemma run_ok: "new_sampling pages_ok a = Some x \<Longrightarrow> foldm (stack_step vm) evs x = Some y \<Longrightarrow> sampling_ok y"
  by (erule foldm_inv) (auto simp: stack_step_ok new_ok)

lemma run_records:
  assumes "foldm (stack_step vm) evs x = Some y" "sampling_ok x" "records_ok x" "\<forall>ev \<in> set evs. in_area ev"
  shows "records_ok y"
  using assms
proof (induction evs arbitrary: x)
  case (Cons ev evs)
  then obtain z where z: "stack_step vm ev x = Some z" "foldm (stack_step vm) evs z = Some y" by (auto simp: bind_eq_Some_conv)
  show ?case using Cons.IH[OF z(2)] stack_step_ok[OF Cons.prems(2) z(1)] step_records[OF Cons.prems(2,3) _ z(1)] Cons.prems(4) by simp
qed simp

lemma receiver_receive:
  assumes "\<forall>r \<in> set rs. stack_ok (fst r) \<and> snd r = compress_stack (fst r) \<and> decodable (fst r)"
  shows "receiver rs = Some (receive rs)"
proof -
  have "foldm (\<lambda>r R. do { inc \<leftarrow> decode_record r; Some (rebuild R (is_full_stack (fst r)) inc) }) rs R =
    Some (fold (\<lambda>(s, bs) R. rebuild R (is_full_stack s) (increment s)) rs R)" for R
    using assms
  proof (induction rs arbitrary: R)
    case (Cons r rs)
    have "decode_record r = Some (increment (fst r))"
      using Cons.prems stack_decodes[of "fst r"] by (simp add: decode_record_def decodable_def split_beta)
    then show ?case using Cons by (simp add: split_beta)
  qed simp
  then show ?thesis by (simp add: receiver_def receive_def)
qed

section \<open>The same context\<close>

text \<open>The next samples find the registers that the last dump stored.\<close>

definition in_context :: "registers \<Rightarrow> stack_control \<Rightarrow> bool" where
  "in_context r s = (\<exists>v. r_vma r = Some v \<and> user_ip s = r_ip r \<and> user_sp s = r_sp r \<and> user_fp s = r_fp r \<and> bp s = stack_base (r_sp r) v)"

lemma in_context_clear [simp]: "in_context r (clear_stack s) = in_context r s"
  by (simp add: in_context_def clear_stack_def)

lemma smap_clear [simp]: "smap (clear_stack s) = []"
  by (simp add: clear_stack_def)

lemma dump_in_context:
  assumes "in_context r s" "smap s = []"
  shows "\<exists>rc t. vtss_stack_dump vm lock_ok pages_ok (r_vma r) (r_ip r) (r_sp r) (r_fp r) s a = Some (rc, t, a) \<and> in_context r t \<and> smap t = []"
proof -
  obtain v where v: "r_vma r = Some v" "user_ip s = r_ip r" "user_sp s = r_sp r" "user_fp s = r_fp r" "bp s = stack_base (r_sp r) v"
    using assms(1) by (auto simp: in_context_def)
  have "dump_user vm lock_ok pages_ok (r_ip r) (r_sp r) (stack_base (r_sp r) v) (r_fp r) s' a = Some (Same_Context, s', a)"
    if "s' = s \<or> s' = clear_stack s" for s'
    using that v by (auto simp: dump_user_def clear_stack_def)
  then show ?thesis using assms v(1) by (simp add: vtss_stack_dump_def Let_def)
qed

lemma save_nothing: "smap (stk x) = [] \<Longrightarrow> save_sample transport_ok x = x\<lparr>st_stksave := True\<rparr>"
  using compress_nothing[of "stk x"] by (simp add: save_sample_def vtss_stack_record_def)

fun with_registers :: "registers \<Rightarrow> sample_event \<Rightarrow> bool" where
  "with_registers r (Interrupt lock_ok pages_ok q transport_ok) = (q = r)"
| "with_registers r (Swap_Out lock_ok pages_ok q) = (q = r)"
| "with_registers r (Swap_In transport_ok) = True"
| "with_registers r (Set_Mode m32) = False"

lemma sample_in_context:
  assumes "in_context r (stk x)" "smap (stk x) = [] \<or> VTSS_NEED_STACK_SAVE x"
  shows "\<exists>y. dump_sample vm lock_ok pages_ok r x = Some y \<and> in_context r (stk y) \<and> smap (stk y) = [] \<and> records y = records x"
proof -
  let ?s = "if VTSS_NEED_STACK_SAVE x then clear_stack (stk x) else stk x"
  have "in_context r ?s" "smap ?s = []" using assms by auto
  from dump_in_context[OF this, of vm lock_ok pages_ok "vm_state x"] obtain rc t
    where "vtss_stack_dump vm lock_ok pages_ok (r_vma r) (r_ip r) (r_sp r) (r_fp r) ?s (vm_state x) = Some (rc, t, vm_state x)" "in_context r t" "smap t = []"
    by blast
  then show ?thesis by (simp add: dump_sample_def Let_def)
qed

lemma step_in_context:
  assumes "in_context r (stk x)" "smap (stk x) = []" "with_registers r ev"
  shows "\<exists>y. stack_step vm ev x = Some y \<and> in_context r (stk y) \<and> smap (stk y) = [] \<and> records y = records x"
proof (cases ev)
  case (Interrupt lock_ok pages_ok q transport_ok)
  then show ?thesis using sample_in_context[of r x vm lock_ok pages_ok] assms by (auto simp: save_nothing)
next
  case (Swap_Out lock_ok pages_ok q)
  then show ?thesis using sample_in_context[of r x vm lock_ok pages_ok] assms by auto
qed (use assms in \<open>auto simp: save_nothing\<close>)

lemma run_in_context:
  assumes "in_context r (stk x)" "smap (stk x) = []" "\<forall>ev \<in> set evs. with_registers r ev"
  shows "\<exists>y. foldm (stack_step vm) evs x = Some y \<and> records y = records x"
  using assms
proof (induction evs arbitrary: x)
  case (Cons ev evs)
  then obtain y where y: "stack_step vm ev x = Some y" "in_context r (stk y)" "smap (stk y) = []" "records y = records x"
    using step_in_context[of r x ev vm] by auto
  then show ?case using Cons.IH[of y] Cons.prems(3) by simp
qed simp

section \<open>Properties\<close>

text \<open>
  C15: whatever interrupts and task switches do to a task, whatever the accessor reads from its memory, and whenever
  pages or the transport are refused: merging the increments of the records that were taken gives,
  whenever the last dump is not waiting to be saved, the map the task has in memory (or the task has none). A receiver
  gets these increments from the bytes and the headers of the records, if the stack pointer of every sample was in a
  memory area and every record is decodable: the frame pointer of the sample is a multiple of 4, and so are the values
  of the increment that are frame pointers (without that, low bits of frame pointers are lost).
\<close>

theorem stack_samples_rebuilt:
  assumes "new_sampling pages_ok a = Some x" "foldm (stack_step vm) evs x = Some y"
  shows "(VTSS_NEED_STACK_SAVE y \<or> smap (stk y) = [] \<or> receive (records y) = smap (stk y)) \<and>
    ((\<forall>ev \<in> set evs. in_area ev) \<and> (\<forall>r \<in> set (records y). decodable (fst r)) \<longrightarrow> receiver (records y) = Some (receive (records y)))"
proof (intro conjI impI)
  show "VTSS_NEED_STACK_SAVE y \<or> smap (stk y) = [] \<or> receive (records y) = smap (stk y)"
    using run_ok[OF assms] by (auto simp: sampling_ok_def)
  have x: "sampling_ok x" "records_ok x" using new_ok[OF assms(1)] by (simp_all add: records_ok_def)
  assume d: "(\<forall>ev \<in> set evs. in_area ev) \<and> (\<forall>r \<in> set (records y). decodable (fst r))"
  then have "records_ok y" using run_records[OF assms(2) x] by blast
  then show "receiver (records y) = Some (receive (records y))"
    using d by (intro receiver_receive) (simp add: records_ok_def)
qed

text \<open>A stack of three words, all addresses of code, of which the lowest is new whenever it is read.\<close>

definition three_words :: "u64 vm" where
  "three_words = \<lparr>vm_read = (\<lambda>n v p. (Some (if p = 0x20000 then v else 0x400000 + p), v + 1)), vm_validate = (\<lambda>v p. True)\<rparr>"

definition word_registers :: "u64 \<Rightarrow> registers" where
  "word_registers ip = \<lparr>r_vma = Some \<lparr>vm_start = 0x10000, vm_end = 0x20018, vm_growsdown = False, vm_read_write = True\<rparr>, r_ip = ip, r_sp = 0x20000, r_fp = 0\<rparr>"

definition word_stack :: "u64 \<Rightarrow> u64 \<Rightarrow> place \<Rightarrow> nat \<Rightarrow> stack_control" where
  "word_stack ip v pl c = \<lparr>buffer = True, buf_size = 8192, place = pl, smap = [\<lparr>m_sp = 0x20000, m_value = v\<rparr>, \<lparr>m_sp = 0x20008, m_value = 0x420008\<rparr>,
    \<lparr>m_sp = 0x20010, m_value = 0x420010\<rparr>], common = c, user_ip = ip, user_sp = 0x20000, bp = 0x20018, user_fp = 0, wow64 = False\<rparr>"

lemma word_start: "new_sampling True a = Some \<lparr>stk = \<lparr>buffer = True, buf_size = 8192, place = Shared, smap = [], common = 0, user_ip = 0, user_sp = 0, bp = 0,
    user_fp = 0, wow64 = False\<rparr>, st_stkdump = True, st_stksave = False, vm_state = a, records = []\<rparr>"
  by (simp add: new_sampling_def vtss_init_stack_def realloc_stack_def clear_stack_def VTSS_DYNSIZE_STACKS_def PAGE_SIZE_def get_order.simps)

lemmas word_defs = three_words_def word_registers_def vtss_stack_dump_def dump_user_def stack_base_def clear_stack_def VTSS_STACK_LIMIT_def
  unwind_again.simps unwind_stack_fwd_def start_map_def unchanged_def scan.simps map_value_def align_sp_def stride_def store_map_def sizeof_stkmap_def
  ptr_add_def ptr_sub_def swapped_def search_ips.simps IP_SEARCH_RANGE_def

lemma word_dump_first: "vtss_stack_dump three_words True (\<lambda>_. True) (r_vma (word_registers 0x400)) 0x400 0x20000 0
   \<lparr>buffer = True, buf_size = 8192, place = Shared, smap = [], common = 0, user_ip = 0, user_sp = 0, bp = 0,
    user_fp = 0, wow64 = False\<rparr> 1 = Some (Dumped, word_stack 0x400 1 Map_Upper 3, 4)"
  by (simp add: word_defs word_stack_def)

lemma word_dump_again: "vtss_stack_dump three_words True (\<lambda>_. True) (r_vma (word_registers 0x404)) 0x404 0x20000 0
   (word_stack 0x400 1 Map_Upper 3) 4 = Some (Dumped, word_stack 0x404 7 Map_Lower 2, 8)"
  by (simp add: word_defs word_stack_def)

definition word_samples :: "sample_event list" where
  "word_samples = [Interrupt True (\<lambda>_. True) (word_registers 0x400) True, Interrupt True (\<lambda>_. True) (word_registers 0x404) True]"

lemma word_stack_ok: "stack_ok (word_stack ip v Map_Upper 3) \<and> stack_ok (word_stack ip v Map_Lower 2)"
  by (simp add: stack_ok_def map_ok_def word_stack_def sizeof_stkmap_def aligned_def align_sp_def stride_def)

lemma word_record:
  "vtss_stack_record True (word_stack ip v Map_Upper 3) = Some (True, compress_stack (word_stack ip v Map_Upper 3))"
  "vtss_stack_record True (word_stack ip v Map_Lower 2) = Some (False, compress_stack (word_stack ip v Map_Lower 2))"
  using record_taken[of "word_stack ip v Map_Upper 3"] record_taken[of "word_stack ip v Map_Lower 2"] word_stack_ok[of ip v]
  by (simp_all add: word_stack_def is_full_stack_def increment_def)

lemma word_samples_run: "foldm (stack_step three_words) word_samples \<lparr>stk = \<lparr>buffer = True, buf_size = 8192, place = Shared, smap = [], common = 0,
    user_ip = 0, user_sp = 0, bp = 0, user_fp = 0, wow64 = False\<rparr>, st_stkdump = True, st_stksave = False, vm_state = 1, records = []\<rparr> =
  Some \<lparr>stk = word_stack 0x404 7 Map_Lower 2, st_stkdump = False, st_stksave = False, vm_state = 8,
    records = [(word_stack 0x400 1 Map_Upper 3, compress_stack (word_stack 0x400 1 Map_Upper 3)),
      (word_stack 0x404 7 Map_Lower 2, compress_stack (word_stack 0x404 7 Map_Lower 2))]\<rparr>"
proof -
  have "r_ip (word_registers ip) = ip" "r_sp (word_registers ip) = 0x20000" "r_fp (word_registers ip) = 0" for ip by (simp_all add: word_registers_def)
  then show ?thesis
    by (simp add: word_samples_def dump_sample_def VTSS_NEED_STACK_SAVE_def word_dump_first word_dump_again save_sample_def word_record)
qed

theorem stack_samples_rebuilt_witness:
  "\<exists>y. foldm (stack_step three_words) word_samples (the (new_sampling True 1)) = Some y \<and>
    receiver (records y) = Some (smap (word_stack 0x404 7 Map_Lower 2)) \<and> length (records y) = 2"
proof -
  have "\<forall>ev \<in> set word_samples. in_area ev" by (simp add: word_samples_def word_registers_def)
  with stack_samples_rebuilt[OF word_start word_samples_run] show ?thesis
    unfolding word_start option.sel word_samples_run
    by (simp add: VTSS_NEED_STACK_SAVE_def decodable_def increment_def word_stack_def aligned_def element_ok_def word_le_nat_alt)
qed

text \<open>
  C37: the stack map of a task, through any samples, refused pages and lost records: it lies in its half of the buffer,
  its places are aligned and ascend, the border of its increment is inside it and not at its start, and the half next to
  it is free for the record unless the map is empty.
\<close>

theorem stack_map_type:
  assumes "new_sampling pages_ok a = Some x" "foldm (stack_step vm) evs x = Some y"
  shows "map_ok (stk y)"
  using run_ok[OF assms] by (simp add: sampling_ok_def)

theorem stack_map_type_witness: "map_ok (word_stack 0x404 7 Map_Lower 2)"
  using stack_map_type[OF word_start word_samples_run] by simp

text \<open>
  C30: the record of a first dump (or of one after the map was cleared) holds the whole map in at most half of the
  buffer: with the registers of its header it decodes to the elements found on the stack, if the frame pointer of the
  sample is a multiple of 4.
\<close>

theorem stack_record_decodes:
  assumes "vtss_stack_dump vm lock_ok pages_ok (Some v) ip sp fp s a = Some (Dumped, t, b)" "map_ok s" "smap s = []" "unat fp mod 4 = 0"
  shows "decompress (align_sp (wow64 t) sp, ip, fp) (compress_stack t) = Some (smap t) \<and> length (compress_stack t) \<le> buf_size t div 2"
proof -
  have d: "stack_ok t" "\<forall>e \<in> set (smap t). element_ok (bp t) e" "user_ip t = ip" "user_sp t = sp" "user_fp t = fp"
    using dump_Dumped[OF assms(1,2)] assms(3) by simp_all
  have "adds [] t" using dump_ok[OF assms(1,2), of "[]"] assms(3) by simp
  then have whole: "increment t = smap t" by (simp add: adds_def rebuild_def split: if_splits)
  have "decompress (align_sp (wow64 t) (user_sp t), user_ip t, user_fp t) (compress_stack t) = Some (increment t)"
  proof (rule stack_decodes[OF d(1)])
    show "aligned (user_fp t)" using assms(4) d(5) by (simp add: aligned_def)
    show "\<forall>e \<in> set (increment t). element_ok (bp t) e" using d(2) whole by simp
  qed
  moreover have "length (compress_stack t) \<le> buf_size t div 2" using compress_stack_encode[OF d(1)] by linarith
  ultimately show ?thesis using d(3-5) whole by simp
qed

theorem stack_record_decodes_witness:
  "decompress (0x20000, 0x400, 0) (compress_stack (word_stack 0x400 1 Map_Upper 3)) = Some (smap (word_stack 0x400 1 Map_Upper 3))"
proof -
  have r: "r_vma (word_registers 0x400) = Some \<lparr>vm_start = 0x10000, vm_end = 0x20018, vm_growsdown = False, vm_read_write = True\<rparr>" by (simp add: word_registers_def)
  from stack_record_decodes[OF word_dump_first[unfolded r]] show ?thesis
    by (simp add: map_ok_def sizeof_stkmap_def align_sp_def stride_def word_stack_def)
qed

text \<open>
  C35: if the record of a dump was not taken and the next interrupts find the task where it was, the map is cleared but
  the dump takes the context for unchanged: no sample records the stack again, whatever the transport answers, until the
  registers of the task change.
\<close>

theorem same_context_saves_nothing:
  assumes "VTSS_NEED_STACK_SAVE x" "r_vma r = Some v" "user_ip (stk x) = r_ip r" "user_sp (stk x) = r_sp r" "user_fp (stk x) = r_fp r"
    "bp (stk x) = stack_base (r_sp r) v" "\<forall>ev \<in> set evs. with_registers r ev"
  shows "\<exists>y. foldm (stack_step vm) (Interrupt lock_ok pages_ok r transport_ok # evs) x = Some y \<and> records y = records x"
proof -
  have c: "in_context r (stk x)" using assms(2-6) by (simp add: in_context_def)
  obtain z where z: "dump_sample vm lock_ok pages_ok r x = Some z" "in_context r (stk z)" "smap (stk z) = []" "records z = records x"
    using sample_in_context[OF c] assms(1) by blast
  let ?z = "if st_stkdump z then z else save_sample transport_ok z"
  have "in_context r (stk ?z)" "smap (stk ?z) = []" "records ?z = records x" using z by (simp_all add: save_nothing)
  then show ?thesis using run_in_context[of r ?z evs vm] assms(7) z(1) by simp
qed

theorem same_context_saves_nothing_witness:
  "\<exists>y. foldm (stack_step three_words) [Interrupt True (\<lambda>_. True) (word_registers 0x404) True, Interrupt True (\<lambda>_. True) (word_registers 0x404) True]
    \<lparr>stk = word_stack 0x404 7 Map_Lower 2, st_stkdump = False, st_stksave = True, vm_state = 8, records = []\<rparr> = Some y \<and> records y = []"
  using same_context_saves_nothing[of "\<lparr>stk = word_stack 0x404 7 Map_Lower 2, st_stkdump = False, st_stksave = True, vm_state = 8, records = []\<rparr>"
    "word_registers 0x404" _ "[Interrupt True (\<lambda>_. True) (word_registers 0x404) True]" three_words True "\<lambda>_. True" True]
  by (simp add: VTSS_NEED_STACK_SAVE_def word_registers_def word_stack_def stack_base_def VTSS_STACK_LIMIT_def)

end
