(* ===== verification/Spec2Isabelle.thy ===== *)
theory Spec2Isabelle
  imports Core2_Correct Core2_State Core2_Overflow Silvermont CorePmu Pebs_Correct
    Output_Correct MemTracker_Correct Pax Cpumon Uncore_Correct Pmi_Correct Configured Handshake
    Uec_Channel TaskMap_Correct PwBuffer_Correct
    Transport_Drain StackMap_Run
begin

text \<open>
  A model of the sampling driver of this repository (src/vtunedk/sepdk, "SEP", kernel module for
  event-based sampling), of four components of its second collector (src/vtunedk/sepdk/src/vtsspp,
  "VTSS++") and of the output buffers of the power driver (src/socwatchdk), with the properties that
  make them correct. File names below are relative to src/vtunedk/sepdk where no other path is given.

  \<^bold>\<open>The program.\<close> A user-mode tool opens the SEP device and sends requests (ioctl commands,
  lwpmudrv.c): it reserves the driver, configures it with blocks of register settings (ECBs), starts,
  pauses, resumes and stops a session. The driver programs the performance counters of every CPU
  through the dispatch table of the processor at hand (core2.c, silvermont.c, core.c; corei7_unc.c,
  snbunc_cbo.c, snbunc_imc.c and haswellunc_ncu.c for the units outside the cores). An overflowing
  counter raises an interrupt; the handler (pmi.c, hooked by cpumon.c, acknowledged through apic.c)
  freezes the counters, asks the table which ones overflowed, writes a sample record per event into the
  output buffers of its CPU (output.c), consumes a hardware record if events are precise (pebs.c), swaps
  the event group when events are multiplexed (eventmux.c) and starts the counters again. A reader
  thread drains the buffers. Memory is tracked by control.c, the PMU is shared with other drivers through
  pax.c. VTSS++ keeps the traced tasks in a hash table (task_map.c) and writes its records into a ring
  (uec.c) or, by default, with consecutive numbers into the ring buffers of the CPUs, from which a reader
  sorts them with a tree (transport.c). With a sample goes the user's stack of the task, as an increment to the
  stack of the sample before (unwind.c, stack.c). The power driver keeps two segments per CPU (pw_output_buffer.c), filled by its producers
  and emptied by read and poll (apwr_driver.c).

  \<^bold>\<open>Conventions.\<close> C integers are words of their width; a pointer is an address, an offset or an
  option; an array is a list. A dereferenced NULL, an access past an array, a shift by the width, a
  division by zero and a loop that waits for something that cannot happen are \<open>None\<close> in the option monad,
  so a theorem with \<open>\<exists>s'. f s = Some s'\<close> says that the code returns and does nothing undefined. Error codes are
  values of \<open>os_status\<close> and \<open>vtss_status\<close>. Counted loops are \<open>foldm\<close>, whose rules are in Prelude.
  Hardware, kernel services and user memory are parameters or fields of the state: what an allocation
  answers, whether a copy succeeds, which CPU runs, the clock.

  \<^bold>\<open>The theories, and the code they model.\<close>
  \<^item> Prelude: words, checked arrays, byte buffers, little-endian words, loops.
  \<^item> Ecb: include/lwpmudrv_ecb.h, lwpmudrv_struct.h, inc/ecb_iterators.h. Machine: the hardware (MSRs, PCI
    space, APIC pages, kernel memory) and the driver's state, inc/control.h, utility.c, pci.c; the locale
    \<open>register_file\<close>, interpreted on MSRs, PCI space and memory. Apic: apic.c. Instances: concrete states.
  \<^item> Emux: the tables of saved counters; the locale \<open>group_rotation\<close> (a swap advances the group, saves and
    loads its counters), interpreted on the swaps of the three core PMU drivers.
  \<^item> Core2, with Core2_Correct, Core2_State and Core2_Overflow: every routine of core2.c. Silvermont:
    silvermont.c. CorePmu: core.c. Uncore, Uncore_Correct: the uncore drivers and the dispatch tables.
  \<^item> Pebs, Pebs_Correct: pebs.c. Output, Output_Correct: output.c, an interpretation of the locale \<open>fifo\<close>
    of Fifo. MemTracker, MemTracker_Correct: the tracker of control.c, an interpretation of \<open>memory\<close>.
    Pax: pax/pax.c, whole handlers and their single accesses. Cpumon: cpumon.c and
    \<open>CONTROL_Invoke_Parallel_Service\<close>.
  \<^item> Globals: the global variables as one record, sample records as bytes. Pmi, Pmi_Correct: pmi.c.
    Eventmux: eventmux.c. Session, Configure, Running: the request handlers and the dispatcher of
    lwpmudrv.c. Frame and Phases: what the routines leave alone, hence which request moves the phase.
    Nodes: loops over the state nodes. Session_Correct: sequences of requests. Configured: what
    configuring leads to.
  \<^item> Handshake, with Pinned: the interrupt handlers of all CPUs and the pausing thread in interleaved
    steps, cut at their accesses to shared variables.
  \<^item> Uec, Uec_Correct, Uec_Channel: vtsspp/uec.c; whole calls, the copy routines against a byte-wise ring,
    and the interleaving of several writers with a reader (also an interpretation of \<open>fifo\<close>).
    TaskMap, TaskMap_Correct: vtsspp/task_map.c and \<open>vtss_target_del\<close> of collector.c, with an abstract map
    that an interpretation of the locale \<open>simulation\<close> relates it to.
  \<^item> Transport: vtsspp/transport.c in its default build. Transport_Tree: the tree of runs of records.
    Transport_Correct: the invariant of a transport, and what the loops of a read keep of it. Transport_Run:
    histories of writers, whose reservations and commits interleave, and of a reader. Transport_Drain: the
    memory a read takes, and the last read.
  \<^item> Pages: pages and pointers of the kernel. StackMap: vtsspp/unwind.c, the dump and the record of the user's
    stack in vtsspp/stack.c, and the samples of a task in collector.c. StackMap_Correct: the invariant of the stack map
    and of its increments. StackMap_Codec: a decoder for the compressed form. StackMap_Run: a receiver of the records.
  \<^item> PwBuffer, PwBuffer_Correct: src/socwatchdk/src/src/pw_output_buffer.c and read and poll of apwr_driver.c.

  \<^bold>\<open>What the properties show.\<close> The session: every request moves the phase along a fixed edge, a running
  session was reserved, initialised and started, a pause returns only when no handler is under way
  and every counter is stopped, and configuring leaves every CPU ready (C1, C2, C13, C21); the whole
  handler agrees with its single steps (lemma handler_is_an_interleaving). Counting: programming leaves the counters stopped, the overflow scan reports and reloads
  exactly the overflowed counters, a full rotation of the groups restores every counter, and a session
  puts the control registers back (C4, C7, C8, C14, C32). Samples: one record per
  event is appended and decodes to what was interrupted; the buffers are first-in first-out and a flush
  empties them (C3, C5, C20, C26). PEBS slots are disjoint and a
  record is consumed once (C23, C24, C25). Memory, PMU sharing and hooks: C16 to C19, C22. The ring, the
  transport, the power buffers and the task map refine a channel, a log, a bag and a map (C6, C9 to C12, C27 to
  C29, C31): whatever the interleaving, a reader of the transport is given a prefix of the accepted records
  in order, as long as there are fewer than \<open>2 ^ 31\<close>, and when it is
  complete it gets all of them. A receiver of the stack records has the stacks of the task
  (C15, C30, C37). The remaining
  properties state what the code does where it fails: a compaction that moves nothing (C17), records delivered
  twice after a refusal (C33), a race in the reservation (C34), stacks
  that are not recorded after a loss (C35), an out-of-range access after requests in the wrong order (C36), a lost record that stops a transport (C38), a ring that loses a whole buffer (C39), an item freed under its holder (C40).

  \<^bold>\<open>Bounds.\<close> Fuel occurs twice. \<open>pw_device_read\<close> repeats its wait without a bound in the code; C29 shows
  that one turn is enough whenever the read returns at all. \<open>pax_run\<close> runs a given schedule of single
  accesses. The record numbers of a transport are unbounded in the model; in the code they are 32 bits and
  sign-extended, so C10 is stated up to \<open>2 ^ 31\<close> records and C28, C38 speak of the numbers before that
  bound too. Everything else is total by structural recursion, or by the measure given with it.

  \<^bold>\<open>Not modelled.\<close> Registration of devices and files, and the mapping of buffers to user space. The chipset
  counters (chap.c, gmch.c) and the requests for them; system information (sys_info.c, linuxos.c), which
  is CPUID data handed through; the 32-bit and IA64 variants of pmi.c, cpumon.c and apic.c, which are other
  builds. Of VTSS++ the scheduler hooks (collector.c), the list and the files of the transports and the control
  files (transport.c, procfs.c), record
  formats (record.c), the walk over the kernel's stack, the access to user memory and the branch traces.
  Of powerdk and socwatchdk the kernel trace points and the register matrix (apwr_driver.c, pw_matrix.c).
  Memory is sequentially consistent throughout; in the sequential parts an interrupt arrives only
  between two operations.
\<close>

end
